(* ===== verification/Ferry_Prelude.thy ===== *)
theory Ferry_Prelude
  imports Main "HOL-Library.Word" "HOL-Library.Char_ord" "HOL-Library.List_Lexorder"
    "HOL-Library.Product_Lexorder" "HOL-Library.Sublist"
begin

text \<open>
  Shared vocabulary of the development: the machine integers of the program, Rust's
  \<open>Result\<close> as a sum, programs over an explicit world (\<open>prog\<close>) with their sequencing
  operators, and the facts about them that the component proofs use.
  \<open>result_simps\<close> and \<open>prog_simps\<close> collect the inversion rules of the sequencing operators
  (a sequence succeeds exactly when each step does); \<open>keeps_intros\<close> collects the rules that
  lift a property of single steps to whole programs, whether they succeed or fail.
\<close>

section \<open>Machine integers\<close>

type_synonym u8 = "8 word"
type_synonym u16 = "16 word"
type_synonym u32 = "32 word"
type_synonym u64 = "64 word"
type_synonym bytes = "8 word list"

text \<open>Rust's \<open>str::as_bytes\<close>: a string is a list of UTF-8 bytes, HOL's \<open>char\<close> is a byte.\<close>

definition as_bytes :: "string \<Rightarrow> bytes" where
  "as_bytes s = map (\<lambda>c. word_of_nat (of_char c)) s"

lemma length_as_bytes [simp]: "length (as_bytes s) = length s"
  by (simp add: as_bytes_def)

lemma as_bytes_Nil [simp]: "as_bytes [] = []"
  by (simp add: as_bytes_def)

lemma word_of_char_inj: "(word_of_nat (of_char c) :: u8) = word_of_nat (of_char d) \<longleftrightarrow> c = d"
proof
  assume "(word_of_nat (of_char c) :: u8) = word_of_nat (of_char d)"
  then have "unat (word_of_nat (of_char c) :: u8) = unat (word_of_nat (of_char d) :: u8)"
    by simp
  then have "(of_char c :: nat) = of_char d"
    by (simp add: unat_of_nat of_char_mod_256)
  then show "c = d" by (simp add: of_char_eq_iff)
qed simp

lemma as_bytes_inj [simp]: "as_bytes s = as_bytes t \<longleftrightarrow> s = t"
proof
  assume "as_bytes s = as_bytes t"
  then show "s = t"
    unfolding as_bytes_def by (rule map_injective) (auto simp: inj_def word_of_char_inj)
qed simp

text \<open>\<open>u16::to_le_bytes\<close>, \<open>u32::to_le_bytes\<close> and \<open>u64::to_le_bytes\<close>: least significant byte first.\<close>

definition le_bytes :: "nat \<Rightarrow> 'a::len word \<Rightarrow> bytes" where
  "le_bytes n w = map (\<lambda>i. ucast (drop_bit (8 * i) w)) [0..<n]"

lemma length_le_bytes [simp]: "length (le_bytes n w) = n"
  by (simp add: le_bytes_def)

lemma le_bytes_inj:
  fixes v w :: "'a::len word"
  assumes "LENGTH('a) \<le> 8 * n" and "le_bytes n v = le_bytes n w"
  shows "v = w"
proof (rule bit_word_eqI)
  fix k
  assume k: "k < LENGTH('a)"
  let ?i = "k div 8"
  have i: "?i < n" using k assms(1) by simp
  have "le_bytes n v ! ?i = le_bytes n w ! ?i" by (simp add: assms(2))
  then have "(ucast (drop_bit (8 * ?i) v) :: u8) = ucast (drop_bit (8 * ?i) w)"
    using i by (simp add: le_bytes_def)
  then have "bit (ucast (drop_bit (8 * ?i) v) :: u8) (k mod 8)
      = bit (ucast (drop_bit (8 * ?i) w) :: u8) (k mod 8)"
    by simp
  then show "bit v k = bit w k"
    by (simp add: bit_ucast_iff bit_drop_bit_eq)
qed

section \<open>Results\<close>

text \<open>Rust's \<open>Result<T, E>\<close> is a sum with the error on the left.\<close>

abbreviation Ok :: "'a \<Rightarrow> 'e + 'a" where "Ok \<equiv> Inr"
abbreviation Err :: "'e \<Rightarrow> 'e + 'a" where "Err \<equiv> Inl"

named_theorems result_simps and prog_simps and keeps_intros

definition bindR :: "'e + 'a \<Rightarrow> ('a \<Rightarrow> 'e + 'b) \<Rightarrow> 'e + 'b" where
  "bindR r f = (case r of Err e \<Rightarrow> Err e | Ok x \<Rightarrow> f x)"

definition map_err :: "('e \<Rightarrow> 'f) \<Rightarrow> 'e + 'a \<Rightarrow> 'f + 'a" where
  "map_err g r = (case r of Err e \<Rightarrow> Err (g e) | Ok x \<Rightarrow> Ok x)"

definition ok_or :: "'e \<Rightarrow> 'a option \<Rightarrow> 'e + 'a" where
  "ok_or e v = (case v of None \<Rightarrow> Err e | Some x \<Rightarrow> Ok x)"

definition ensure :: "bool \<Rightarrow> 'e \<Rightarrow> 'e + unit" where
  "ensure b e = (if b then Ok () else Err e)"

fun map_result :: "('a \<Rightarrow> 'e + 'b) \<Rightarrow> 'a list \<Rightarrow> 'e + 'b list" where
  "map_result f [] = Ok []"
| "map_result f (x # xs) = bindR (f x) (\<lambda>y. bindR (map_result f xs) (\<lambda>ys. Ok (y # ys)))"

fun fold_result :: "('b \<Rightarrow> 'a \<Rightarrow> 'e + 'b) \<Rightarrow> 'b \<Rightarrow> 'a list \<Rightarrow> 'e + 'b" where
  "fold_result f acc [] = Ok acc"
| "fold_result f acc (x # xs) = bindR (f acc x) (\<lambda>acc'. fold_result f acc' xs)"

lemma bindR_Ok [simp]: "bindR (Ok x) f = f x"
  and bindR_Err [simp]: "bindR (Err e) f = Err e"
  by (simp_all add: bindR_def)

lemma bindR_Ok_iff [result_simps]: "bindR r f = Ok y \<longleftrightarrow> (\<exists>x. r = Ok x \<and> f x = Ok y)"
  by (cases r) auto

lemma bindR_Err_iff: "bindR r f = Err e \<longleftrightarrow> r = Err e \<or> (\<exists>x. r = Ok x \<and> f x = Err e)"
  by (cases r) auto

lemma map_err_simps [simp]: "map_err g (Ok x) = Ok x" "map_err g (Err e) = Err (g e)"
  by (simp_all add: map_err_def)

lemma map_err_Ok_iff [result_simps]: "map_err g r = Ok x \<longleftrightarrow> r = Ok x"
  by (cases r) auto

lemma map_err_Err_iff: "map_err g r = Err e \<longleftrightarrow> (\<exists>d. r = Err d \<and> e = g d)"
  by (cases r) auto

lemma ok_or_simps [simp]: "ok_or e (Some x) = Ok x" "ok_or e None = Err e"
  by (simp_all add: ok_or_def)

lemma ok_or_Ok_iff [result_simps]: "ok_or e v = Ok x \<longleftrightarrow> v = Some x"
  by (cases v) auto

lemma ensure_simps [simp]: "ensure True e = Ok ()" "ensure False e = Err e"
  by (simp_all add: ensure_def)

lemma ensure_Ok_iff [result_simps]: "ensure b e = Ok u \<longleftrightarrow> b"
  by (simp add: ensure_def)

lemma ensure_Err_iff [result_simps]: "ensure b e = Err d \<longleftrightarrow> \<not> b \<and> d = e"
  by (auto simp: ensure_def)

lemma fold_result_inv:
  assumes "fold_result f acc xs = Ok r" and "I acc" and "\<And>acc x acc'. x \<in> set xs \<Longrightarrow> I acc \<Longrightarrow> f acc x = Ok acc' \<Longrightarrow> I acc'"
  shows "I r"
  using assms by (induction xs arbitrary: acc) (auto simp: bindR_Ok_iff)

lemma map_result_Ok_iff: "map_result f xs = Ok ys \<longleftrightarrow> list_all2 (\<lambda>x y. f x = Ok y) xs ys"
proof (induction xs arbitrary: ys)
  case (Cons x xs)
  then show ?case by (auto simp: bindR_Ok_iff list_all2_Cons1)
qed auto

section \<open>Programs over an explicit world\<close>

text \<open>
  A stateful operation takes the world and returns its result with the world it leaves,
  also when it fails: an error return of the Rust code does not undo earlier effects.
\<close>

type_synonym ('w, 'e, 'a) prog = "'w \<Rightarrow> ('e + 'a) \<times> 'w"

definition ret :: "'a \<Rightarrow> ('w, 'e, 'a) prog" where
  "ret x = (\<lambda>w. (Ok x, w))"

definition lift_result :: "'e + 'a \<Rightarrow> ('w, 'e, 'a) prog" where
  "lift_result r = (\<lambda>w. (r, w))"

definition andThen :: "('w, 'e, 'a) prog \<Rightarrow> ('a \<Rightarrow> ('w, 'e, 'b) prog) \<Rightarrow> ('w, 'e, 'b) prog" where
  "andThen m f = (\<lambda>w. case m w of (Err e, w') \<Rightarrow> (Err e, w') | (Ok x, w') \<Rightarrow> f x w')"

definition map_error :: "('e \<Rightarrow> 'f) \<Rightarrow> ('w, 'e, 'a) prog \<Rightarrow> ('w, 'f, 'a) prog" where
  "map_error g m = (\<lambda>w. case m w of (r, w') \<Rightarrow> (map_err g r, w'))"

fun for_each :: "'a list \<Rightarrow> ('b \<Rightarrow> 'a \<Rightarrow> ('w, 'e, 'b) prog) \<Rightarrow> 'b \<Rightarrow> ('w, 'e, 'b) prog" where
  "for_each [] f acc = ret acc"
| "for_each (x # xs) f acc = andThen (f acc x) (for_each xs f)"

lemma ret_apply [simp]: "ret x w = (Ok x, w)"
  by (simp add: ret_def)

lemma lift_result_apply [simp]: "lift_result r w = (r, w)"
  by (simp add: lift_result_def)

lemma andThen_cases:
  assumes "andThen m f w = (r, w')"
  obtains (fail) e where "m w = (Err e, w')" "r = Err e"
  | (step) x w1 where "m w = (Ok x, w1)" "f x w1 = (r, w')"
  using assms by (cases "fst (m w)"; cases "m w") (auto simp: andThen_def)

lemma andThen_Ok_iff [prog_simps]:
  "andThen m f w = (Ok y, w') \<longleftrightarrow> (\<exists>x w1. m w = (Ok x, w1) \<and> f x w1 = (Ok y, w'))"
  by (auto simp: andThen_def split: prod.splits sum.splits)

lemma andThen_stepI: "m w = (Ok x, w1) \<Longrightarrow> andThen m f w = f x w1"
  by (simp add: andThen_def)

lemma andThen_failI: "m w = (Err e, w1) \<Longrightarrow> andThen m f w = (Err e, w1)"
  by (simp add: andThen_def)

lemma andThen_ret [simp]: "andThen (ret x) f = f x"
  by (simp add: andThen_def ret_def fun_eq_iff)

lemma andThen_lift_Ok [simp]: "andThen (lift_result (Ok x)) f = f x"
  by (simp add: andThen_def fun_eq_iff)

lemma andThen_lift_Err [simp]: "andThen (lift_result (Err e)) f = lift_result (Err e)"
  by (simp add: andThen_def fun_eq_iff)

lemma map_error_Ok_iff [prog_simps]: "map_error g m w = (Ok y, w') \<longleftrightarrow> m w = (Ok y, w')"
  by (auto simp: map_error_def map_err_def split: prod.splits sum.splits)

lemma map_error_Err_iff:
  "map_error g m w = (Err e, w') \<longleftrightarrow> (\<exists>d. m w = (Err d, w') \<and> e = g d)"
  by (auto simp: map_error_def map_err_def split: prod.splits sum.splits)

lemma lift_result_Ok_iff [prog_simps]: "lift_result r w = (Ok x, w') \<longleftrightarrow> r = Ok x \<and> w' = w"
  by auto

lemma ret_Ok_iff [prog_simps]: "ret x w = (Ok y, w') \<longleftrightarrow> y = x \<and> w' = w"
  by auto

text \<open>A result that the code matches on.\<close>

definition outcome_of :: "('w, 'e, 'a) prog \<Rightarrow> ('w, 'f, 'e + 'a) prog" where
  "outcome_of m = (\<lambda>w. case m w of (r, w') \<Rightarrow> (Ok r, w'))"

lemma outcome_cases:
  assumes "outcome_of m s = (r, s')"
  obtains x where "m s = (x, s')" "r = Ok x"
  using assms by (auto simp: outcome_of_def split: prod.splits)

lemma map_error_cases:
  assumes "map_error g m s = (r, s')"
  obtains x where "m s = (x, s')" "r = map_err g x"
  using assms by (auto simp: map_error_def split: prod.splits)

text \<open>
  \<open>keeps I m\<close>: the program leaves every world of \<open>I\<close> in a world of \<open>I\<close>, whether it
  returns a value or an error. An interrupted backup is such an error return.
\<close>

definition keeps :: "('w \<Rightarrow> bool) \<Rightarrow> ('w, 'e, 'a) prog \<Rightarrow> bool" where
  "keeps I m \<longleftrightarrow> (\<forall>w. I w \<longrightarrow> I (snd (m w)))"

lemma keepsD: "keeps I m \<Longrightarrow> I w \<Longrightarrow> m w = (r, w') \<Longrightarrow> I w'"
  by (metis keeps_def snd_conv)

lemma keeps_ret [keeps_intros]: "keeps I (ret x)"
  and keeps_lift [keeps_intros]: "keeps I (lift_result r)"
  by (simp_all add: keeps_def)

lemma keeps_andThen [keeps_intros]:
  assumes "keeps I m" and "\<And>x. keeps I (f x)"
  shows "keeps I (andThen m f)"
  unfolding keeps_def
proof (intro allI impI)
  fix w assume w: "I w"
  obtain r w1 where m: "m w = (r, w1)" by fastforce
  with assms(1) w have "I w1" by (blast dest: keepsD)
  then show "I (snd (andThen m f w))"
    using m assms(2) by (cases r) (auto simp: andThen_def keeps_def)
qed

lemma keeps_map_error [keeps_intros]: "keeps I m \<Longrightarrow> keeps I (map_error g m)"
  by (auto simp: keeps_def map_error_def split: prod.splits)

lemma keeps_for_each [keeps_intros]:
  assumes "\<And>acc x. x \<in> set xs \<Longrightarrow> keeps I (f acc x)"
  shows "keeps I (for_each xs f acc)"
  using assms
proof (induction xs arbitrary: acc)
  case (Cons x xs)
  have "keeps I (f acc x)" using Cons.prems by simp
  moreover have "\<And>acc'. keeps I (for_each xs f acc')" using Cons by simp
  ultimately show ?case by (simp add: keeps_andThen)
qed (simp add: keeps_ret)

section \<open>Triples\<close>

text \<open>
  \<open>triple P m Q E\<close>: started in a world of \<open>P\<close>, the program ends in a world of \<open>Q x\<close> with value
  \<open>x\<close>, or fails in a world of \<open>E\<close>.
\<close>

definition triple ::
  "('w \<Rightarrow> bool) \<Rightarrow> ('w, 'e, 'a) prog \<Rightarrow> ('a \<Rightarrow> 'w \<Rightarrow> bool) \<Rightarrow> ('w \<Rightarrow> bool) \<Rightarrow> bool" where
  "triple P m Q E \<longleftrightarrow> (\<forall>w. P w \<longrightarrow> (case m w of (Ok x, w') \<Rightarrow> Q x w' | (Err e, w') \<Rightarrow> E w'))"

lemma tripleI:
  assumes "\<And>w x w'. P w \<Longrightarrow> m w = (Ok x, w') \<Longrightarrow> Q x w'"
    and "\<And>w e w'. P w \<Longrightarrow> m w = (Err e, w') \<Longrightarrow> E w'"
  shows "triple P m Q E"
  unfolding triple_def using assms by (auto split: prod.splits sum.splits)

lemma tripleD:
  assumes "triple P m Q E" and "P w"
  shows "m w = (Ok x, w') \<Longrightarrow> Q x w'" and "m w = (Err e, w') \<Longrightarrow> E w'"
proof -
  have step: "case m w of (Ok x, w') \<Rightarrow> Q x w' | (Err e, w') \<Rightarrow> E w'"
    using assms by (simp add: triple_def)
  show "m w = (Ok x, w') \<Longrightarrow> Q x w'" and "m w = (Err e, w') \<Longrightarrow> E w'"
    using step by simp_all
qed

lemma triple_conseq:
  assumes "triple P m Q E" and "\<And>w. P' w \<Longrightarrow> P w" and "\<And>x w. Q x w \<Longrightarrow> Q' x w"
    and "\<And>w. E w \<Longrightarrow> E' w"
  shows "triple P' m Q' E'"
  by (rule tripleI) (use assms tripleD [OF assms(1)] in blast)+

lemma triple_andThen:
  assumes "triple P m Q E" and "\<And>x. triple (Q x) (f x) R E"
  shows "triple P (andThen m f) R E"
proof (rule tripleI)
  fix w y w' assume "P w" "andThen m f w = (Ok y, w')"
  then obtain x w1 where "m w = (Ok x, w1)" "f x w1 = (Ok y, w')" by (auto simp: andThen_Ok_iff)
  with \<open>P w\<close> show "R y w'" using tripleD [OF assms(1)] tripleD [OF assms(2)] by blast
next
  fix w e w' assume "P w" and fail: "andThen m f w = (Err e, w')"
  obtain r w1 where m: "m w = (r, w1)" by fastforce
  show "E w'"
  proof (cases r)
    case (Inl d)
    then show ?thesis using m fail tripleD(2) [OF assms(1) \<open>P w\<close>] by (simp add: andThen_def)
  next
    case (Inr x)
    then have "Q x w1" using m tripleD(1) [OF assms(1) \<open>P w\<close>] by simp
    then show ?thesis using Inr m fail tripleD(2) [OF assms(2)] by (simp add: andThen_def)
  qed
qed

lemma triple_lift:
  assumes "\<And>w x. P w \<Longrightarrow> r = Ok x \<Longrightarrow> Q x w" and "\<And>w. P w \<Longrightarrow> E w"
  shows "triple P (lift_result r) Q E"
  by (rule tripleI) (use assms in auto)

lemma triple_ret:
  assumes "\<And>w. P w \<Longrightarrow> Q x w"
  shows "triple P (ret x) Q E"
  by (rule tripleI) (use assms in auto)

text \<open>A sequence that only computes: the value is fixed, the world is not touched.\<close>

lemma triple_bind_lift:
  assumes "\<And>x. r = Ok x \<Longrightarrow> triple P (f x) Q E" and "\<And>w. P w \<Longrightarrow> E w"
  shows "triple P (andThen (lift_result r) f) Q E"
proof (cases r)
  case (Inl e)
  then show ?thesis using assms(2) by (auto intro!: tripleI)
next
  case (Inr x)
  then show ?thesis using assms(1) by simp
qed

lemma triple_map_error: "triple P m Q E \<Longrightarrow> triple P (map_error g m) Q E"
  unfolding triple_def map_error_def map_err_def by (fastforce split: prod.splits sum.splits)

text \<open>A loop whose steps all succeed.\<close>

lemma for_each_total:
  assumes "\<And>done x acc w. prefix (done @ [x]) (past @ xs) \<Longrightarrow> I done w \<Longrightarrow> \<exists>y w'. f acc x w = (Ok y, w') \<and> I (done @ [x]) w'"
    and "I past w"
  shows "\<exists>y w'. for_each xs f acc w = (Ok y, w') \<and> I (past @ xs) w'"
  using assms
proof (induction xs arbitrary: past acc w)
  case (Cons x xs)
  obtain y w1 where one: "f acc x w = (Ok y, w1)" "I (past @ [x]) w1" using Cons.prems(1) [of past x w acc] Cons.prems(2) by auto
  have "\<exists>z w'. for_each xs f y w1 = (Ok z, w') \<and> I ((past @ [x]) @ xs) w'"
    by (rule Cons.IH [OF _ one(2)]) (use Cons.prems(1) in auto)
  then show ?case using one(1) by (simp add: andThen_def)
qed (simp add: ret_def)

text \<open>The invariant of a loop speaks of the elements that were processed.\<close>

lemma triple_for_each:
  assumes step: "\<And>done x acc. set (done @ [x]) \<subseteq> set (past @ xs) \<Longrightarrow>
      triple (J done acc) (f acc x) (\<lambda>acc'. J (done @ [x]) acc') E"
  shows "triple (J past acc) (for_each xs f acc) (J (past @ xs)) E"
  using step
proof (induction xs arbitrary: past acc)
  case Nil
  show ?case unfolding for_each.simps append_Nil2 by (rule triple_ret)
next
  case (Cons x xs)
  have "triple (J past acc) (f acc x) (\<lambda>acc'. J (past @ [x]) acc') E"
    by (rule Cons.prems) auto
  moreover have "triple (J (past @ [x]) acc') (for_each xs f acc') (J ((past @ [x]) @ xs)) E" for acc'
    by (rule Cons.IH) (rule Cons.prems, auto)
  ultimately show ?case
    unfolding for_each.simps by (intro triple_andThen) simp_all
qed

end
