(* ===== verification/Ferry_Std.thy ===== *)
theory Ferry_Std
  imports Ferry_Prelude "HOL-Library.Multiset"
begin

text \<open>
  The parts of Rust's standard library that the program computes with: ordered maps and sets
  (\<open>BTreeMap\<close>, \<open>BTreeSet\<close>), slices (\<open>dedup_by\<close>, \<open>max_by\<close>, descending sorts) and strings as
  UTF-8 byte lists (\<open>split\<close>, \<open>join\<close>, \<open>find\<close>, \<open>strip_prefix\<close>, \<open>is_char_boundary\<close>, decimal
  numbers). Strings are ordered byte by byte, as Rust orders \<open>str\<close>.
\<close>

section \<open>Ordered maps and sets\<close>

type_synonym ('k, 'v) btree_map = "('k \<times> 'v) list"

definition bt_wf :: "('k::linorder, 'v) btree_map \<Rightarrow> bool" where
  "bt_wf m \<longleftrightarrow> sorted_wrt (<) (map fst m)"

fun bt_insert :: "'k::linorder \<Rightarrow> 'v \<Rightarrow> ('k, 'v) btree_map \<Rightarrow> ('k, 'v) btree_map" where
  "bt_insert k v [] = [(k, v)]"
| "bt_insert k v (e # m) =
     (if fst e < k then e # bt_insert k v m
      else if fst e = k then (k, v) # m else (k, v) # e # m)"

definition bt_get :: "('k, 'v) btree_map \<Rightarrow> 'k \<Rightarrow> 'v option" where
  "bt_get m k = map_of m k"

text \<open>\<open>entry(k).or_insert(v)\<close>: an existing value is kept.\<close>

definition bt_or_insert :: "'k::linorder \<Rightarrow> 'v \<Rightarrow> ('k, 'v) btree_map \<Rightarrow> ('k, 'v) btree_map" where
  "bt_or_insert k v m = (case bt_get m k of Some _ \<Rightarrow> m | None \<Rightarrow> bt_insert k v m)"

lemma bt_get_Nil [simp]: "bt_get [] k = None"
  by (simp add: bt_get_def)

lemma bt_get_insert [simp]: "bt_get (bt_insert k v m) = (bt_get m)(k \<mapsto> v)"
  unfolding bt_get_def by (induction m) (auto simp: fun_eq_iff)

lemma bt_get_or_insert:
  "bt_get (bt_or_insert k v m) j = (if j = k \<and> bt_get m k = None then Some v else bt_get m j)"
  by (auto simp: bt_or_insert_def split: option.splits)

lemma fst_set_bt_insert [simp]: "fst ` set (bt_insert k v m) = insert k (fst ` set m)"
  by (induction m) auto

lemma fst_set_or_insert [simp]: "fst ` set (bt_or_insert k v m) = insert k (fst ` set m)"
  by (auto simp: bt_or_insert_def bt_get_def image_iff split: option.splits
      dest: map_of_SomeD) (metis fst_conv map_of_SomeD)

lemma bt_wf_Nil [simp]: "bt_wf []"
  by (simp add: bt_wf_def)

lemma bt_wf_insert [simp]: "bt_wf m \<Longrightarrow> bt_wf (bt_insert k v m)"
  unfolding bt_wf_def
proof (induction m)
  case (Cons e m)
  then have IH: "sorted_wrt (<) (map fst (bt_insert k v m))" by simp
  have above: "\<forall>x \<in> fst ` set m. fst e < x" using Cons.prems by simp
  show ?case
  proof (cases "fst e < k")
    case True
    have "\<forall>x \<in> fst ` set (bt_insert k v m). fst e < x"
      using above True by (simp only: fst_set_bt_insert) auto
    with True IH show ?thesis by simp
  next
    case False
    with Cons.prems above show ?thesis by (auto intro: less_trans)
  qed
qed simp

lemma bt_wf_or_insert [simp]: "bt_wf m \<Longrightarrow> bt_wf (bt_or_insert k v m)"
  by (simp add: bt_or_insert_def split: option.splits)

definition bt_remove :: "'k \<Rightarrow> ('k, 'v) btree_map \<Rightarrow> ('k, 'v) btree_map" where
  "bt_remove k m = filter (\<lambda>e. fst e \<noteq> k) m"

lemma bt_get_remove: "bt_get (bt_remove k m) j = (if j = k then None else bt_get m j)"
  by (induction m) (auto simp: bt_get_def bt_remove_def)

lemma bt_wf_remove [simp]: "bt_wf m \<Longrightarrow> bt_wf (bt_remove k m)"
  by (simp add: bt_wf_def bt_remove_def sorted_wrt_map sorted_wrt_filter)

lemma bt_wf_distinct: "bt_wf m \<Longrightarrow> distinct (map fst m)"
  by (simp add: bt_wf_def strict_sorted_iff)

lemma bt_get_Some_iff: "bt_wf m \<Longrightarrow> bt_get m k = Some v \<longleftrightarrow> (k, v) \<in> set m"
  by (simp add: bt_get_def map_of_eq_Some_iff bt_wf_distinct)

lemma bt_get_None_iff: "bt_get m k = None \<longleftrightarrow> k \<notin> fst ` set m"
  by (simp add: bt_get_def map_of_eq_None_iff)

text \<open>\<open>BTreeSet\<close>: a strictly ascending list; \<open>insert\<close> reports whether the element is new.\<close>

definition bs_insert :: "'a::linorder \<Rightarrow> 'a list \<Rightarrow> 'a list" where
  "bs_insert x s = insort_insert x s"

lemma set_bs_insert [simp]: "set (bs_insert x s) = insert x (set s)"
  by (simp add: bs_insert_def set_insort_insert)

lemma sorted_bs_insert: "sorted s \<Longrightarrow> sorted (bs_insert x s)"
  by (simp add: bs_insert_def sorted_insort_insert)

lemma distinct_bs_insert: "distinct s \<Longrightarrow> distinct (bs_insert x s)"
  by (simp add: bs_insert_def distinct_insort_insert)

section \<open>Slices\<close>

text \<open>
  \<open>Vec::dedup_by\<close> drops an element when it is the same as the element kept before it, so the
  first of a run survives.
\<close>

fun dedup_key :: "('a \<Rightarrow> 'k) \<Rightarrow> 'a list \<Rightarrow> 'a list" where
  "dedup_key f [] = []"
| "dedup_key f [x] = [x]"
| "dedup_key f (x # y # xs) =
     (if f x = f y then dedup_key f (x # xs) else x # dedup_key f (y # xs))"

lemma set_dedup_key_subset: "set (dedup_key f xs) \<subseteq> set xs"
  by (induction f xs rule: dedup_key.induct) auto

lemma image_dedup_key [simp]: "f ` set (dedup_key f xs) = f ` set xs"
  by (induction f xs rule: dedup_key.induct) auto

lemma strict_sorted_dedup_key:
  fixes f :: "'a \<Rightarrow> 'k::linorder"
  shows "sorted (map f xs) \<Longrightarrow> sorted_wrt (<) (map f (dedup_key f xs))"
proof (induction f xs rule: dedup_key.induct)
  case (3 f x y xs)
  show ?case
  proof (cases "f x = f y")
    case True
    then show ?thesis using 3 by simp
  next
    case False
    then have "f x < f y" using 3 by auto
    have "\<forall>z \<in> f ` set (dedup_key f (y # xs)). f y \<le> z"
      using "3.prems" by (simp only: image_dedup_key) auto
    with \<open>f x < f y\<close> have "\<forall>z \<in> f ` set (dedup_key f (y # xs)). f x < z"
      by (meson order_less_le_trans)
    then show ?thesis using False 3 by simp
  qed
qed simp_all

text \<open>A stable sort in descending key order, as \<open>sort_by(|l, r| key(r).cmp(key(l)))\<close>.\<close>

definition sort_desc :: "('a \<Rightarrow> 'k::linorder) \<Rightarrow> 'a list \<Rightarrow> 'a list" where
  "sort_desc f xs = rev (sort_key f (rev xs))"

lemma mset_sort_desc [simp]: "mset (sort_desc f xs) = mset xs"
  by (simp add: sort_desc_def)

lemma set_sort_desc [simp]: "set (sort_desc f xs) = set xs"
  by (simp add: sort_desc_def)

lemma length_sort_desc [simp]: "length (sort_desc f xs) = length xs"
  by (simp add: sort_desc_def)

lemma sort_desc_descending: "sorted_wrt (\<lambda>x y. f y \<le> f x) (sort_desc f xs)"
proof -
  have "sorted (map f (sort_key f (rev xs)))" by simp
  then show ?thesis
    by (simp add: sort_desc_def sorted_wrt_rev sorted_wrt_map)
qed

lemma sort_desc_stable: "filter (\<lambda>x. f x = k) (sort_desc f xs) = filter (\<lambda>x. f x = k) xs"
  by (simp add: sort_desc_def rev_filter [symmetric] sort_key_stable)

text \<open>\<open>Iterator::max_by\<close> on a key: the last of the greatest elements, \<open>None\<close> when empty.\<close>

fun max_by_key :: "('a \<Rightarrow> 'k::linorder) \<Rightarrow> 'a list \<Rightarrow> 'a option" where
  "max_by_key f [] = None"
| "max_by_key f (x # xs) =
     (case max_by_key f xs of None \<Rightarrow> Some x | Some y \<Rightarrow> Some (if f x \<le> f y then y else x))"

lemma max_by_key_None [simp]: "max_by_key f xs = None \<longleftrightarrow> xs = []"
  by (cases xs) (auto split: option.splits)

lemma max_by_key_mem: "max_by_key f xs = Some x \<Longrightarrow> x \<in> set xs"
  by (induction xs arbitrary: x) (auto split: option.splits if_splits)

lemma max_by_key_max: "max_by_key f xs = Some x \<Longrightarrow> y \<in> set xs \<Longrightarrow> f y \<le> f x"
proof (induction xs arbitrary: x y)
  case (Cons z xs)
  then show ?case
    by (cases "max_by_key f xs") (fastforce split: if_splits intro: order_trans)+
qed simp

section \<open>Strings\<close>

text \<open>\<open>str::split(char)\<close>: always at least one part.\<close>

fun split_on :: "char \<Rightarrow> string \<Rightarrow> string list" where
  "split_on c [] = [[]]"
| "split_on c (x # xs) =
     (case split_on c xs of
        [] \<Rightarrow> [[x]]
      | p # ps \<Rightarrow> if x = c then [] # p # ps else (x # p) # ps)"

fun join_with :: "char \<Rightarrow> string list \<Rightarrow> string" where
  "join_with c [] = []"
| "join_with c [p] = p"
| "join_with c (p # q # ps) = p @ c # join_with c (q # ps)"

lemma split_on_not_Nil [simp]: "split_on c s \<noteq> []"
  by (cases s) (auto split: list.splits)

lemma split_on_Cons:
  "split_on c (x # xs) =
     (if x = c then [] # split_on c xs else (x # hd (split_on c xs)) # tl (split_on c xs))"
  by (cases "split_on c xs") auto

declare split_on.simps(2) [simp del]
declare split_on_Cons [simp]

lemma split_on_parts: "p \<in> set (split_on c s) \<Longrightarrow> c \<notin> set p"
proof (induction s arbitrary: p)
  case (Cons x s)
  have "hd (split_on c s) \<in> set (split_on c s)" by simp
  then have "c \<notin> set (hd (split_on c s))" by (rule Cons.IH)
  moreover have "q \<in> set (tl (split_on c s)) \<Longrightarrow> c \<notin> set q" for q
    by (rule Cons.IH) (simp add: list.set_sel(2))
  ultimately show ?case using Cons by (auto split: if_splits)
qed simp

lemma join_with_Cons: "ps \<noteq> [] \<Longrightarrow> join_with c (p # ps) = p @ c # join_with c ps"
  by (cases ps) auto

lemma join_with_head: "ps \<noteq> [] \<Longrightarrow> join_with c ((x # hd ps) # tl ps) = x # join_with c ps"
  by (cases "tl ps"; cases ps) auto

lemma join_split [simp]: "join_with c (split_on c s) = s"
  by (induction s) (auto simp: join_with_Cons join_with_head)

lemma split_on_append: "c \<notin> set p \<Longrightarrow> split_on c (p @ c # s) = p # split_on c s"
  by (induction p) auto

lemma split_on_free: "c \<notin> set p \<Longrightarrow> split_on c p = [p]"
  by (induction p) auto

lemma split_join: "ps \<noteq> [] \<Longrightarrow> \<forall>p \<in> set ps. c \<notin> set p \<Longrightarrow> split_on c (join_with c ps) = ps"
  by (induction c ps rule: join_with.induct) (auto simp: split_on_append split_on_free)

lemma split_on_inj: "split_on c s = split_on c t \<Longrightarrow> s = t"
  by (metis join_split)

lemma split_on_join: "split_on c (p @ c # s) = split_on c p @ split_on c s"
proof (induction p)
  case (Cons x p)
  then show ?case by (cases "split_on c p") auto
qed simp

declare split_on_Cons [simp del]
declare split_on.simps(2) [simp]

text \<open>\<open>str::find(&str)\<close>: the index of the first occurrence.\<close>

fun find_sub :: "string \<Rightarrow> string \<Rightarrow> nat option" where
  "find_sub p [] = (if p = [] then Some 0 else None)"
| "find_sub p (x # xs) =
     (if prefix p (x # xs) then Some 0 else map_option Suc (find_sub p xs))"

lemma find_sub_Some:
  "find_sub p s = Some i \<Longrightarrow> \<exists>a b. s = a @ p @ b \<and> length a = i"
proof (induction s arbitrary: i)
  case (Cons x xs)
  show ?case
  proof (cases "prefix p (x # xs)")
    case True
    then show ?thesis using Cons.prems by (auto simp: prefix_def)
  next
    case False
    then obtain j where j: "find_sub p xs = Some j" "i = Suc j" using Cons.prems by auto
    then obtain a b where "xs = a @ p @ b" "length a = j" using Cons.IH by blast
    then have "x # xs = (x # a) @ p @ b \<and> length (x # a) = i" using j by simp
    then show ?thesis by blast
  qed
qed (auto split: if_splits)

lemma find_sub_split:
  assumes "find_sub p s = Some i"
  shows "s = take i s @ p @ drop (i + length p) s"
proof -
  obtain a b where "s = a @ p @ b" "length a = i" using find_sub_Some [OF assms] by blast
  then show ?thesis by auto
qed

lemma find_sub_least: "s = a @ p @ b \<Longrightarrow> \<exists>i. find_sub p s = Some i \<and> i \<le> length a"
proof (induction s arbitrary: a)
  case (Cons x xs)
  show ?case
  proof (cases "prefix p (x # xs)")
    case False
    then obtain a' where a: "a = x # a'" using Cons.prems by (cases a) auto
    then have "xs = a' @ p @ b" using Cons.prems by simp
    then show ?thesis using Cons.IH [of a'] False a by auto
  qed auto
qed auto

lemma find_sub_None: "find_sub p s = None \<Longrightarrow> s \<noteq> a @ p @ b"
  using find_sub_least by fastforce

definition strip_prefix_str :: "string \<Rightarrow> string \<Rightarrow> string option" where
  "strip_prefix_str p s = (if prefix p s then Some (drop (length p) s) else None)"

lemma strip_prefix_str_Some: "strip_prefix_str p s = Some r \<longleftrightarrow> s = p @ r"
  by (auto simp: strip_prefix_str_def prefix_def)

text \<open>
  \<open>str::trim\<close>: the UTF-8 encodings of the characters with the Unicode property White_Space.
  On well-formed UTF-8 a byte-wise match at either end is a match of the character.
\<close>

definition whitespace_encodings :: "string list" where
  "whitespace_encodings =
     map (\<lambda>b. [char_of (b::nat)]) [9, 10, 11, 12, 13, 32] @
     map (map (\<lambda>b. char_of (b::nat)))
       [[0xC2, 0x85], [0xC2, 0xA0], [0xE1, 0x9A, 0x80],
        [0xE2, 0x80, 0x80], [0xE2, 0x80, 0x81], [0xE2, 0x80, 0x82], [0xE2, 0x80, 0x83],
        [0xE2, 0x80, 0x84], [0xE2, 0x80, 0x85], [0xE2, 0x80, 0x86], [0xE2, 0x80, 0x87],
        [0xE2, 0x80, 0x88], [0xE2, 0x80, 0x89], [0xE2, 0x80, 0x8A],
        [0xE2, 0x80, 0xA8], [0xE2, 0x80, 0xA9], [0xE2, 0x80, 0xAF],
        [0xE2, 0x81, 0x9F], [0xE3, 0x80, 0x80]]"

lemma whitespace_encodings_nonempty: "e \<in> set whitespace_encodings \<Longrightarrow> e \<noteq> []"
  by (auto simp: whitespace_encodings_def)

function trim_start :: "string \<Rightarrow> string" where
  "trim_start s =
     (case find (\<lambda>e. prefix e s) whitespace_encodings of
        Some e \<Rightarrow> trim_start (drop (length e) s) | None \<Rightarrow> s)"
  by pat_completeness auto
termination
proof (relation "measure length")
  fix s e
  assume "find (\<lambda>e. prefix e s) whitespace_encodings = Some e"
  then have "e \<in> set whitespace_encodings" "prefix e s"
    by (auto simp: find_Some_iff)
  then show "(drop (length e) s, s) \<in> measure length"
    using whitespace_encodings_nonempty [of e] by (auto simp: prefix_def)
qed simp

declare trim_start.simps [simp del]

function trim_end :: "string \<Rightarrow> string" where
  "trim_end s =
     (case find (\<lambda>e. suffix e s) whitespace_encodings of
        Some e \<Rightarrow> trim_end (take (length s - length e) s) | None \<Rightarrow> s)"
  by pat_completeness auto
termination
proof (relation "measure length")
  fix s e
  assume "find (\<lambda>e. suffix e s) whitespace_encodings = Some e"
  then have "e \<in> set whitespace_encodings" "suffix e s"
    by (auto simp: find_Some_iff)
  then show "(take (length s - length e) s, s) \<in> measure length"
    using whitespace_encodings_nonempty [of e] by (auto simp: suffix_def)
qed simp

declare trim_end.simps [simp del]

definition trim :: "string \<Rightarrow> string" where
  "trim s = trim_end (trim_start s)"

lemma set_trim_start: "set (trim_start s) \<subseteq> set s"
proof (induction s rule: trim_start.induct)
  case (1 s)
  then show ?case
    by (subst trim_start.simps) (auto split: option.splits dest: in_set_dropD)
qed

lemma set_trim_end: "set (trim_end s) \<subseteq> set s"
proof (induction s rule: trim_end.induct)
  case (1 s)
  then show ?case
    by (subst trim_end.simps) (auto split: option.splits dest: in_set_takeD)
qed

lemma set_trim: "set (trim s) \<subseteq> set s"
  unfolding trim_def using set_trim_start set_trim_end by blast

text \<open>What begins and ends with a graphic character is not trimmed.\<close>

lemma whitespace_not_graphic:
  "\<forall>e \<in> set whitespace_encodings. e \<noteq> [] \<and> (of_char (hd e) \<le> (32::nat) \<or> 126 < (of_char (hd e) :: nat)) \<and>
     (of_char (last e) \<le> (32::nat) \<or> 126 < (of_char (last e) :: nat))"
  by (simp add: whitespace_encodings_def)

lemma trim_graphic:
  assumes "s \<noteq> []" and "32 < (of_char (hd s) :: nat)" "of_char (hd s) \<le> (126::nat)"
    and "32 < (of_char (last s) :: nat)" "of_char (last s) \<le> (126::nat)"
  shows "trim s = s"
proof -
  have "\<not> prefix e s" "\<not> suffix e s" if "e \<in> set whitespace_encodings" for e
  proof -
    have e: "e \<noteq> []" "of_char (hd e) \<le> (32::nat) \<or> 126 < (of_char (hd e) :: nat)"
      "of_char (last e) \<le> (32::nat) \<or> 126 < (of_char (last e) :: nat)"
      using whitespace_not_graphic that by blast+
    show "\<not> prefix e s" using e assms by (auto simp: prefix_def)
    show "\<not> suffix e s" using e assms by (auto simp: suffix_def)
  qed
  then have "find (\<lambda>e. prefix e s) whitespace_encodings = None"
    "find (\<lambda>e. suffix e s) whitespace_encodings = None" by (auto simp: find_None_iff)
  then show ?thesis by (simp add: trim_def trim_start.simps [of s] trim_end.simps [of s])
qed

text \<open>\<open>str::is_char_boundary\<close>: not inside a UTF-8 sequence (continuation bytes are 0x80 to 0xBF).\<close>

definition is_continuation :: "char \<Rightarrow> bool" where
  "is_continuation c \<longleftrightarrow> (of_char c :: nat) \<ge> 128 \<and> (of_char c :: nat) < 192"

definition is_char_boundary :: "string \<Rightarrow> nat \<Rightarrow> bool" where
  "is_char_boundary s i \<longleftrightarrow>
     i = 0 \<or> (if length s \<le> i then i = length s else \<not> is_continuation (s ! i))"

text \<open>\<open>str::get(..n)\<close>.\<close>

definition str_get_prefix :: "string \<Rightarrow> nat \<Rightarrow> string option" where
  "str_get_prefix s n = (if is_char_boundary s n then Some (take n s) else None)"

section \<open>Decimal numbers\<close>

definition digit_char :: "nat \<Rightarrow> char" where
  "digit_char d = char_of (48 + d)"

fun show_nat :: "nat \<Rightarrow> string" where
  "show_nat n = (if n < 10 then [digit_char n] else show_nat (n div 10) @ [digit_char (n mod 10)])"

declare show_nat.simps [simp del]

definition digit_value :: "char \<Rightarrow> nat option" where
  "digit_value c = (let v = of_char c :: nat in if 48 \<le> v \<and> v \<le> 57 then Some (v - 48) else None)"

fun digits_value :: "nat \<Rightarrow> string \<Rightarrow> nat option" where
  "digits_value acc [] = Some acc"
| "digits_value acc (c # cs) =
     (case digit_value c of None \<Rightarrow> None | Some d \<Rightarrow> digits_value (10 * acc + d) cs)"

text \<open>
  \<open>str::parse\<close> for an unsigned type with maximum \<open>m\<close>: an optional \<open>+\<close>, at least one digit,
  and no value above the maximum.
\<close>

definition parse_unsigned :: "nat \<Rightarrow> string \<Rightarrow> nat option" where
  "parse_unsigned m s =
     (let ds = (case s of c # cs \<Rightarrow> if c = CHR ''+'' then cs else s | [] \<Rightarrow> []) in
      if ds = [] then None
      else case digits_value 0 ds of None \<Rightarrow> None | Some v \<Rightarrow> if v \<le> m then Some v else None)"

lemma parse_unsigned_bound: "parse_unsigned m s = Some v \<Longrightarrow> v \<le> m"
  by (auto simp: parse_unsigned_def Let_def split: if_splits option.splits)

lemma digit_value_digit_char [simp]: "d < 10 \<Longrightarrow> digit_value (digit_char d) = Some d"
  by (simp add: digit_value_def digit_char_def)

lemma digits_value_append:
  "digits_value acc (s @ t) = (case digits_value acc s of None \<Rightarrow> None | Some v \<Rightarrow> digits_value v t)"
  by (induction acc s rule: digits_value.induct) (auto split: option.splits)

lemma digits_value_show_nat: "digits_value 0 (show_nat n) = Some n"
proof (induction n rule: show_nat.induct)
  case (1 n)
  then show ?case
    by (subst show_nat.simps) (auto simp: digits_value_append)
qed

lemma show_nat_not_Nil [simp]: "show_nat n \<noteq> []"
  by (subst show_nat.simps) simp

lemma hd_show_nat: "\<exists>d < 10. hd (show_nat n) = digit_char d"
proof (induction n rule: show_nat.induct)
  case (1 n)
  then show ?case by (subst show_nat.simps) auto
qed

lemma digit_char_not_plus: "d < 10 \<Longrightarrow> digit_char d \<noteq> CHR ''+''"
proof
  assume d: "d < 10" and eq: "digit_char d = CHR ''+''"
  have "digit_value (CHR ''+'') = None" by (simp add: digit_value_def)
  with digit_value_digit_char [OF d] eq show False by simp
qed

end
