(* ===== verification/Ferry_Paths.thy ===== *)
theory Ferry_Paths
  imports Ferry_Std
begin

text \<open>
  \<open>std::path\<close> on Unix. A \<open>PathBuf\<close> is modelled by the list \<open>Path::components\<close> yields:
  comparison, ordering, \<open>starts_with\<close>, \<open>join\<close>, \<open>parent\<close> and \<open>ancestors\<close> all work on
  components, and \<open>as_os_str().is_empty()\<close> holds exactly when there is none. A \<open>Prefix\<close>
  component occurs on Windows only. \<open>path_wf\<close> says what \<open>components\<close> can yield: a root or a
  current-directory component only in front, and segments without separators.
\<close>

datatype component = RootDir | CurDir | ParentDir | Normal string

type_synonym path = "component list"

text \<open>The derived order of \<open>Component\<close>: by constructor, then by segment.\<close>

fun component_rank :: "component \<Rightarrow> nat \<times> string" where
  "component_rank RootDir = (1, [])"
| "component_rank CurDir = (2, [])"
| "component_rank ParentDir = (3, [])"
| "component_rank (Normal s) = (4, s)"

lemma component_rank_inj: "component_rank a = component_rank b \<longleftrightarrow> a = b"
  by (cases a; cases b) auto

instantiation component :: linorder
begin

definition less_eq_component :: "component \<Rightarrow> component \<Rightarrow> bool" where
  "less_eq_component a b \<longleftrightarrow> component_rank a \<le> component_rank b"

definition less_component :: "component \<Rightarrow> component \<Rightarrow> bool" where
  "less_component a b \<longleftrightarrow> component_rank a < component_rank b"

instance
proof
  fix x y z :: component
  show "x < y \<longleftrightarrow> x \<le> y \<and> \<not> y \<le> x"
    by (auto simp: less_eq_component_def less_component_def)
  show "x \<le> x" by (simp add: less_eq_component_def)
  show "x \<le> y \<Longrightarrow> y \<le> z \<Longrightarrow> x \<le> z"
    unfolding less_eq_component_def by (rule order_trans)
  show "x \<le> y \<Longrightarrow> y \<le> x \<Longrightarrow> x = y"
    unfolding less_eq_component_def by (metis component_rank_inj antisym)
  show "x \<le> y \<or> y \<le> x"
    unfolding less_eq_component_def by (rule linear)
qed

end

definition is_absolute :: "path \<Rightarrow> bool" where
  "is_absolute p \<longleftrightarrow> (case p of c # _ \<Rightarrow> c = RootDir | [] \<Rightarrow> False)"

text \<open>\<open>Path::join\<close> and \<open>PathBuf::push\<close>: an absolute argument replaces the path.\<close>

definition path_join :: "path \<Rightarrow> path \<Rightarrow> path" where
  "path_join p q =
     (if is_absolute q then q else if p = [] then q else p @ filter (\<lambda>c. c \<noteq> CurDir) q)"

definition path_starts_with :: "path \<Rightarrow> path \<Rightarrow> bool" where
  "path_starts_with p q \<longleftrightarrow> prefix q p"

definition path_strip_prefix :: "path \<Rightarrow> path \<Rightarrow> path option" where
  "path_strip_prefix p q = (if prefix q p then Some (drop (length q) p) else None)"

definition path_parent :: "path \<Rightarrow> path option" where
  "path_parent p = (if p = [] \<or> last p = RootDir then None else Some (butlast p))"

function path_ancestors :: "path \<Rightarrow> path list" where
  "path_ancestors p = p # (case path_parent p of None \<Rightarrow> [] | Some q \<Rightarrow> path_ancestors q)"
  by pat_completeness auto
termination
  by (relation "measure length") (auto simp: path_parent_def split: if_splits)

declare path_ancestors.simps [simp del]

definition is_normal :: "component \<Rightarrow> bool" where
  "is_normal c \<longleftrightarrow> (case c of Normal _ \<Rightarrow> True | _ \<Rightarrow> False)"

definition segment_wf :: "string \<Rightarrow> bool" where
  "segment_wf s \<longleftrightarrow> s \<noteq> [] \<and> s \<noteq> ''.'' \<and> s \<noteq> ''..'' \<and> CHR ''/'' \<notin> set s"

definition path_wf :: "path \<Rightarrow> bool" where
  "path_wf p \<longleftrightarrow> (\<forall>c \<in> set (tl p). c \<noteq> RootDir \<and> c \<noteq> CurDir) \<and>
     (\<forall>s. Normal s \<in> set p \<longrightarrow> segment_wf s)"

text \<open>\<open>PathBuf::from(&str)\<close> followed by \<open>components\<close>.\<close>

definition segment_component :: "string \<Rightarrow> component" where
  "segment_component s = (if s = ''..'' then ParentDir else Normal s)"

definition path_of_string :: "string \<Rightarrow> path" where
  "path_of_string s =
     (let segs = split_on CHR ''/'' s;
          rest = map segment_component (filter (\<lambda>x. x \<noteq> [] \<and> x \<noteq> ''.'') segs)
      in if prefix ''/'' s then RootDir # rest
         else if hd segs = ''.'' then CurDir # rest else rest)"

section \<open>Facts\<close>

lemma is_absolute_simps [simp]:
  "\<not> is_absolute []" "is_absolute (c # p) \<longleftrightarrow> c = RootDir"
  by (auto simp: is_absolute_def)

lemma is_normal_simps [simp]:
  "is_normal (Normal s)" "\<not> is_normal RootDir" "\<not> is_normal CurDir" "\<not> is_normal ParentDir"
  by (simp_all add: is_normal_def)

lemma is_normal_iff: "is_normal c \<longleftrightarrow> (\<exists>s. c = Normal s)"
  by (cases c) auto

lemma normal_not_absolute: "\<forall>c \<in> set p. is_normal c \<Longrightarrow> \<not> is_absolute p"
  by (cases p) auto

lemma path_join_normal:
  assumes "\<forall>c \<in> set q. is_normal c"
  shows "path_join p q = p @ q"
proof -
  have "filter (\<lambda>c. c \<noteq> CurDir) q = q"
    using assms by (auto simp: filter_id_conv)
  then show ?thesis
    using assms by (simp add: path_join_def normal_not_absolute)
qed

lemma path_join_segment [simp]: "path_join p [Normal s] = p @ [Normal s]"
  by (rule path_join_normal) simp

lemma path_starts_with_append [simp]: "path_starts_with (p @ q) p"
  by (simp add: path_starts_with_def)

lemma path_starts_with_refl [simp]: "path_starts_with p p"
  by (simp add: path_starts_with_def)

lemma path_starts_with_Nil [simp]: "path_starts_with p []"
  by (simp add: path_starts_with_def)

lemma path_strip_prefix_append [simp]: "path_strip_prefix (p @ q) p = Some q"
  by (simp add: path_strip_prefix_def)

lemma path_parent_snoc [simp]:
  "path_parent (p @ [c]) = (if c = RootDir then None else Some p)"
  by (simp add: path_parent_def)

lemma path_parent_Nil [simp]: "path_parent [] = None"
  by (simp add: path_parent_def)

text \<open>The ancestors of a relative path are its prefixes, longest first.\<close>

lemma path_ancestors_set:
  "RootDir \<notin> set p \<Longrightarrow> set (path_ancestors p) = {q. prefix q p}"
proof (induction p rule: rev_induct)
  case Nil
  then show ?case by (simp add: path_ancestors.simps)
next
  case (snoc c p)
  then show ?case by (subst path_ancestors.simps) auto
qed

lemma path_ancestors_normal:
  "RootDir \<notin> set p \<Longrightarrow> path_ancestors p = map (\<lambda>n. take n p) (rev [0..<Suc (length p)])"
proof (induction p rule: rev_induct)
  case Nil
  then show ?case by (simp add: path_ancestors.simps)
next
  case (snoc c p)
  then have c: "c \<noteq> RootDir" and IH:
    "path_ancestors p = map (\<lambda>n. take n p) (rev [0..<Suc (length p)])" by auto
  have "map (\<lambda>n. take n (p @ [c])) (rev [0..<Suc (length p)])
      = map (\<lambda>n. take n p) (rev [0..<Suc (length p)])"
    by (rule map_cong) auto
  then show ?case using c IH by (subst path_ancestors.simps) simp
qed

end
