(* ===== verification/Ferry_Errors.thy ===== *)
theory Ferry_Errors
  imports Ferry_Paths
begin

text \<open>
  The error types of the crates, with the source's variants in the source's order:
  \<open>StorageError\<close>, \<open>CryptoError\<close>, \<open>PlatformError\<close> and \<open>CoreError\<close>. A variant whose name would
  clash carries its crate as a prefix. Errors of third-party crates (\<open>serde_json\<close>,
  \<open>object_store\<close>) are opaque up to the variants the program matches on. The object key newtype
  is declared here because the errors mention it.
\<close>

datatype object_key = ObjectKey (as_str: string)

instantiation object_key :: linorder
begin

definition less_eq_object_key :: "object_key \<Rightarrow> object_key \<Rightarrow> bool" where
  "less_eq_object_key a b \<longleftrightarrow> as_str a \<le> as_str b"

definition less_object_key :: "object_key \<Rightarrow> object_key \<Rightarrow> bool" where
  "less_object_key a b \<longleftrightarrow> as_str a < as_str b"

instance
  by standard (auto simp: less_eq_object_key_def less_object_key_def object_key.expand)

end

datatype io_kind = NotFound | PermissionDenied | AlreadyExists | OtherKind

text \<open>\<open>std::io::Error\<close>: its kind and its \<open>Display\<close> text.\<close>

datatype io_error = IoError (io_kind: io_kind) (io_message: string)

datatype json_error = JsonError string

text \<open>\<open>Duration\<close> as nanoseconds; \<open>duration_max\<close> is \<open>Duration::MAX\<close>.\<close>

type_synonym duration = nat

definition duration_max :: duration where
  "duration_max = (2 ^ 64 - 1) * 10 ^ 9 + 999999999"

datatype system_time_error = SystemTimeError duration

datatype backend_kind = LocalFilesystem | S3Compatible | InMemoryFake

text \<open>\<open>object_store::Error\<close>, with the two variants the adapter tells apart.\<close>

datatype backend_error = BackendNotFound | BackendAlreadyExists | BackendOther string

datatype storage_error =
    InvalidObjectKey string string
  | ObjectAlreadyExists object_key
  | ObjectNotFound object_key
  | StorageIo string io_error
  | BackendConfig backend_kind string
  | ObjectIo string object_key io_error
  | BackendObject backend_kind string object_key backend_error
  | Backend backend_kind string backend_error
  | Timeout string duration
  | PolicyConfig string

datatype crypto_error =
    InvalidKdfParams string
  | KeyDerivation
  | EncryptionFailed
  | DecryptionFailed
  | InvalidKeyMaterial
  | InvalidObjectContext string

datatype platform_error =
    MetadataRead path io_error
  | SymlinkTargetRead path io_error

datatype (plugins only: code) core_error =
    SourceRootNotAbsolute path
  | SourceRootRead path platform_error
  | DirectoryRead path io_error
  | DirectoryEntryRead path io_error
  | MetadataCapture path platform_error
  | InvalidChunkingConfig string
  | InvalidBackupPipelineConfig string
  | InvalidCheckDataSubset string
  | FileRead path io_error
  | InvalidChunkRange path
  | Compression path io_error
  | Decompression string "string option" "path option" "string option" io_error
  | InvalidChunkLength string "string option" "path option" "string option"
  | MissingChunkIndexEntry string path string string
  | ChunkIndexMismatch string path string string string
  | ChunkIdentityMismatch string string "string option" "path option" "string option"
  | Encryption crypto_error
  | Serialization json_error
  | ObjectDecode object_key json_error
  | ObjectAuthentication object_key crypto_error
  | MetadataDecode object_key json_error
  | MetadataIdentityMismatch string object_key string string
  | CommitDecode object_key json_error
  | InvalidCommitMarker object_key string
  | RepositoryBootstrapDecode json_error
  | RepositoryNotInitialized
  | InvalidRepositoryBootstrap string
  | KeySlotDecode object_key json_error
  | InvalidKeySlot object_key string
  | UnsupportedRepositoryFormat u16
  | UnsupportedRepositoryFeatures
  | RepositoryUnlock crypto_error
  | SnapshotNotFound string
  | ForgetNoSnapshotsMatched
  | ForgetMarkerDecode object_key json_error
  | InvalidForgetMarker object_key string
  | SnapshotPathNotFound string path
  | InvalidSnapshotManifest string object_key "path option" string
  | InvalidRestoreRequest string
  | RestoreDestinationNotAbsolute path
  | RestoreDestinationEscapesRoot path
  | RestoreDestinationSymlink path path
  | RestoreDestinationExists path
  | RestoreDestinationKind path
  | RestoreDestinationWrite path io_error
  | RestoreVerificationRead path io_error
  | RestoreVerificationMismatch path
  | UnsupportedRestoreFeature string
  | RepositoryCheckMissingObject object_key
  | RepositoryReferencedObjectMissing object_key
  | SystemClock system_time_error
  | CoreObjectKey storage_error
  | CoreStorage storage_error

text \<open>\<open>StorageError::object_io\<close>: a missing file is a missing object.\<close>

definition object_io :: "string \<Rightarrow> object_key \<Rightarrow> io_error \<Rightarrow> storage_error" where
  "object_io operation key source =
     (if io_kind source = NotFound then ObjectNotFound key else ObjectIo operation key source)"

text \<open>\<open>StorageError::is_retryable\<close>.\<close>

fun is_retryable :: "storage_error \<Rightarrow> bool" where
  "is_retryable (StorageIo _ _) = True"
| "is_retryable (ObjectIo _ _ _) = True"
| "is_retryable (BackendObject _ _ _ _) = True"
| "is_retryable (Backend _ _ _) = True"
| "is_retryable (Timeout _ _) = True"
| "is_retryable _ = False"

end
