(* ===== verification/Ferry_Crypto.thy ===== *)
theory Ferry_Crypto
  imports Ferry_Errors
begin

text \<open>
  The crypto crate: key-derivation parameters, subkey derivation, authenticated objects and
  key slots. The primitives of the third-party crates (HKDF-SHA-256, keyed BLAKE3, Argon2id,
  XChaCha20-Poly1305, the operating system's random generator) are the fields of
  \<open>crypto_prims\<close>, an argument of every definition that calls one. What the proofs need of them
  is stated in \<open>aead_correct\<close> (decryption inverts encryption) and \<open>aead_authentic\<close> (nothing
  decrypts under a key, nonce or associated data it was not encrypted with).
\<close>

section \<open>Constants and primitives\<close>

definition MASTER_KEY_LEN :: nat where "MASTER_KEY_LEN = 32"
definition SUBKEY_LEN :: nat where "SUBKEY_LEN = 32"
definition KDF_SALT_LEN :: nat where "KDF_SALT_LEN = 16"
definition XCHACHA20_POLY1305_NONCE_LEN :: nat where "XCHACHA20_POLY1305_NONCE_LEN = 24"
definition FORMAT_VERSION_V0 :: u16 where "FORMAT_VERSION_V0 = 0"

definition KEY_SLOT_AAD_PREFIX :: bytes where
  "KEY_SLOT_AAD_PREFIX = as_bytes (''fileferry'' @ CHR 0x00 # ''format-v0'' @ CHR 0x00 #
     ''key-slot-wrap'' @ [CHR 0x00])"

definition OBJECT_AAD_PREFIX :: bytes where
  "OBJECT_AAD_PREFIX = as_bytes (''fileferry'' @ CHR 0x00 # ''format-v0'' @ CHR 0x00 #
     ''object'' @ [CHR 0x00])"

definition HKDF_SALT :: bytes where
  "HKDF_SALT = as_bytes (''fileferry'' @ CHR 0x00 # ''format-v0'' @ CHR 0x00 #
     ''hkdf'' @ [CHR 0x00])"

definition SUBKEY_INFO_PREFIX :: bytes where
  "SUBKEY_INFO_PREFIX = as_bytes (''fileferry'' @ CHR 0x00 # ''subkey'' @ [CHR 0x00])"

record crypto_prims =
  os_rng :: "nat \<Rightarrow> nat \<Rightarrow> bytes"
  hkdf_sha256_expand :: "bytes \<Rightarrow> bytes \<Rightarrow> bytes \<Rightarrow> bytes option"
  blake3_keyed_hash :: "bytes \<Rightarrow> bytes \<Rightarrow> bytes"
  argon2_params_ok :: "u32 \<Rightarrow> u32 \<Rightarrow> u32 \<Rightarrow> bool"
  argon2id_hash :: "u32 \<Rightarrow> u32 \<Rightarrow> u32 \<Rightarrow> bytes \<Rightarrow> bytes \<Rightarrow> bytes option"
  xchacha_encrypt :: "bytes \<Rightarrow> bytes \<Rightarrow> bytes \<Rightarrow> bytes \<Rightarrow> bytes option"
  xchacha_decrypt :: "bytes \<Rightarrow> bytes \<Rightarrow> bytes \<Rightarrow> bytes \<Rightarrow> bytes option"

definition aead_correct :: "crypto_prims \<Rightarrow> bool" where
  "aead_correct P \<longleftrightarrow> (\<forall>k n a m c. xchacha_encrypt P k n a m = Some c \<longrightarrow>
     xchacha_decrypt P k n a c = Some m)"

definition aead_authentic :: "crypto_prims \<Rightarrow> bool" where
  "aead_authentic P \<longleftrightarrow> (\<forall>k n a m c k' n' a' m'. xchacha_encrypt P k n a m = Some c \<longrightarrow>
     xchacha_decrypt P k' n' a' c = Some m' \<longrightarrow> k' = k \<and> n' = n \<and> a' = a)"

text \<open>The documented output lengths: \<open>OsRng\<close> fills the array, BLAKE3 yields 32 bytes.\<close>

definition output_lengths :: "crypto_prims \<Rightarrow> bool" where
  "output_lengths P \<longleftrightarrow> (\<forall>c n. length (os_rng P c n) = n) \<and> (\<forall>k bs. length (blake3_keyed_hash P k bs) = 32)"

text \<open>The random generator as a program over the number of calls made so far.\<close>

definition random_bytes :: "crypto_prims \<Rightarrow> nat \<Rightarrow> (nat, 'e, bytes) prog" where
  "random_bytes P n c = (Ok (os_rng P c n), Suc c)"

section \<open>Key derivation\<close>

datatype kdf_algorithm = Argon2idV19

record kdf_params =
  algorithm :: kdf_algorithm
  memory_cost_kib :: u32
  time_cost :: u32
  parallelism :: u32

definition kdf_v0_default :: kdf_params where
  "kdf_v0_default =
     \<lparr>algorithm = Argon2idV19, memory_cost_kib = 64 * 1024, time_cost = 3, parallelism = 4\<rparr>"

definition kdf_v0_high_memory :: kdf_params where
  "kdf_v0_high_memory =
     \<lparr>algorithm = Argon2idV19, memory_cost_kib = 2 * 1024 * 1024, time_cost = 1,
      parallelism = 4\<rparr>"

definition kdf_for_tests :: kdf_params where
  "kdf_for_tests =
     \<lparr>algorithm = Argon2idV19, memory_cost_kib = 32, time_cost = 3, parallelism = 4\<rparr>"

text \<open>The product \<open>8 * parallelism\<close> is a \<open>u32\<close>: it wraps, as in a release build.\<close>

definition kdf_validate :: "kdf_params \<Rightarrow> crypto_error + unit" where
  "kdf_validate p =
     (case algorithm p of Argon2idV19 \<Rightarrow>
        if parallelism p = 0 then
          Err (InvalidKdfParams ''parallelism must be greater than zero'')
        else if time_cost p = 0 then
          Err (InvalidKdfParams ''time cost must be greater than zero'')
        else if memory_cost_kib p < 8 * parallelism p then
          Err (InvalidKdfParams ''memory cost must be at least 8 KiB per lane'')
        else Ok ())"

datatype master_key = MasterKey (expose_master: bytes)

datatype subkey = Subkey (expose_subkey: bytes)

definition master_key_generate :: "crypto_prims \<Rightarrow> (nat, 'e, master_key) prog" where
  "master_key_generate P =
     andThen (random_bytes P MASTER_KEY_LEN) (\<lambda>secret. ret (MasterKey secret))"

definition master_key_from_secret_slice :: "bytes \<Rightarrow> crypto_error + master_key" where
  "master_key_from_secret_slice bs =
     (if length bs \<noteq> MASTER_KEY_LEN then Err InvalidKeyMaterial else Ok (MasterKey bs))"

datatype key_purpose =
  ChunkIdentity | ChunkData | SnapshotMetadata | IndexPurpose | PolicyConfigPurpose |
  UploadStatePurpose | PruneMarkPurpose | KeySlotPurpose

fun purpose_label :: "key_purpose \<Rightarrow> bytes" where
  "purpose_label ChunkIdentity = as_bytes ''chunk-identity''"
| "purpose_label ChunkData = as_bytes ''chunk-data''"
| "purpose_label SnapshotMetadata = as_bytes ''snapshot-metadata''"
| "purpose_label IndexPurpose = as_bytes ''index''"
| "purpose_label PolicyConfigPurpose = as_bytes ''policy-config''"
| "purpose_label UploadStatePurpose = as_bytes ''upload-state''"
| "purpose_label PruneMarkPurpose = as_bytes ''prune-mark''"
| "purpose_label KeySlotPurpose = as_bytes ''key-slot''"

definition write_len_prefixed :: "bytes \<Rightarrow> bytes \<Rightarrow> bytes" where
  "write_len_prefixed output val =
     output @ le_bytes 8 (word_of_nat (length val) :: u64) @ val"

definition subkey_info :: "key_purpose \<Rightarrow> bytes \<Rightarrow> bytes" where
  "subkey_info purpose context =
     write_len_prefixed (SUBKEY_INFO_PREFIX @ purpose_label purpose) context"

definition derive_subkey ::
    "crypto_prims \<Rightarrow> master_key \<Rightarrow> key_purpose \<Rightarrow> bytes \<Rightarrow> crypto_error + subkey" where
  "derive_subkey P master purpose context =
     (case hkdf_sha256_expand P HKDF_SALT (expose_master master) (subkey_info purpose context) of
        None \<Rightarrow> Err KeyDerivation | Some output \<Rightarrow> Ok (Subkey output))"

definition keyed_content_id ::
    "crypto_prims \<Rightarrow> master_key \<Rightarrow> key_purpose \<Rightarrow> bytes \<Rightarrow> bytes \<Rightarrow> crypto_error + bytes" where
  "keyed_content_id P master purpose context bs =
     bindR (derive_subkey P master purpose context)
       (\<lambda>key. Ok (blake3_keyed_hash P (expose_subkey key) bs))"

section \<open>Authenticated encryption\<close>

definition random_nonce :: "crypto_prims \<Rightarrow> (nat, 'e, bytes) prog" where
  "random_nonce P = random_bytes P XCHACHA20_POLY1305_NONCE_LEN"

definition encrypt_with_key ::
    "crypto_prims \<Rightarrow> subkey \<Rightarrow> bytes \<Rightarrow> bytes \<Rightarrow> bytes \<Rightarrow> crypto_error + bytes" where
  "encrypt_with_key P key nonce plaintext aad =
     (if length (expose_subkey key) \<noteq> SUBKEY_LEN then Err InvalidKeyMaterial
      else ok_or EncryptionFailed (xchacha_encrypt P (expose_subkey key) nonce aad plaintext))"

definition decrypt_with_key ::
    "crypto_prims \<Rightarrow> subkey \<Rightarrow> bytes \<Rightarrow> bytes \<Rightarrow> bytes \<Rightarrow> crypto_error + bytes" where
  "decrypt_with_key P key nonce ciphertext aad =
     (if length (expose_subkey key) \<noteq> SUBKEY_LEN then Err InvalidKeyMaterial
      else ok_or DecryptionFailed (xchacha_decrypt P (expose_subkey key) nonce aad ciphertext))"

datatype aead_algorithm = XChaCha20Poly1305

datatype object_kind =
  Chunk | SnapshotManifestKind | IndexKind | PolicyConfigKind | RepositoryConfigKind |
  UploadStateKind | PruneMarkKind

fun kind_label :: "object_kind \<Rightarrow> bytes" where
  "kind_label Chunk = as_bytes ''chunk''"
| "kind_label SnapshotManifestKind = as_bytes ''snapshot-manifest''"
| "kind_label IndexKind = as_bytes ''index''"
| "kind_label PolicyConfigKind = as_bytes ''policy-config''"
| "kind_label RepositoryConfigKind = as_bytes ''repository-config''"
| "kind_label UploadStateKind = as_bytes ''upload-state''"
| "kind_label PruneMarkKind = as_bytes ''prune-mark''"

record object_context =
  format_version :: u16
  kind :: object_kind
  object_name :: string

definition object_context_for_format ::
    "u16 \<Rightarrow> object_kind \<Rightarrow> string \<Rightarrow> crypto_error + object_context" where
  "object_context_for_format version k name =
     (if name = [] then Err (InvalidObjectContext ''object name must not be empty'')
      else if CHR 0x00 \<in> set name then
        Err (InvalidObjectContext ''object name must not contain NUL'')
      else Ok \<lparr>format_version = version, kind = k, object_name = name\<rparr>)"

definition object_context_new :: "object_kind \<Rightarrow> string \<Rightarrow> crypto_error + object_context" where
  "object_context_new k name = object_context_for_format FORMAT_VERSION_V0 k name"

definition object_aad :: "object_context \<Rightarrow> bytes" where
  "object_aad c =
     write_len_prefixed
       (write_len_prefixed (OBJECT_AAD_PREFIX @ le_bytes 2 (format_version c))
          (kind_label (kind c)))
       (as_bytes (object_name c))"

record encrypted_object =
  eo_algorithm :: aead_algorithm
  eo_nonce :: bytes
  eo_ciphertext :: bytes

definition encrypt_object ::
    "crypto_prims \<Rightarrow> subkey \<Rightarrow> object_context \<Rightarrow> bytes \<Rightarrow>
     (nat, crypto_error, encrypted_object) prog" where
  "encrypt_object P key context plaintext =
     andThen (random_nonce P) (\<lambda>nonce.
     andThen (lift_result (encrypt_with_key P key nonce plaintext (object_aad context)))
       (\<lambda>ciphertext. ret \<lparr>eo_algorithm = XChaCha20Poly1305, eo_nonce = nonce,
                          eo_ciphertext = ciphertext\<rparr>))"

definition decrypt_object ::
    "crypto_prims \<Rightarrow> subkey \<Rightarrow> object_context \<Rightarrow> encrypted_object \<Rightarrow> crypto_error + bytes" where
  "decrypt_object P key context object =
     (case eo_algorithm object of XChaCha20Poly1305 \<Rightarrow>
        decrypt_with_key P key (eo_nonce object) (eo_ciphertext object) (object_aad context))"

section \<open>Key slots\<close>

record key_slot =
  kdf :: kdf_params
  salt :: bytes
  nonce :: bytes
  wrapped_master_key :: bytes

definition key_slot_aad :: "kdf_params \<Rightarrow> bytes \<Rightarrow> bytes" where
  "key_slot_aad p s =
     write_len_prefixed
       (KEY_SLOT_AAD_PREFIX @ [case algorithm p of Argon2idV19 \<Rightarrow> 1] @
        le_bytes 4 (memory_cost_kib p) @ le_bytes 4 (time_cost p) @ le_bytes 4 (parallelism p)) s"

definition derive_passphrase_key ::
    "crypto_prims \<Rightarrow> string \<Rightarrow> bytes \<Rightarrow> kdf_params \<Rightarrow> crypto_error + subkey" where
  "derive_passphrase_key P passphrase s p =
     (if \<not> argon2_params_ok P (memory_cost_kib p) (time_cost p) (parallelism p) then
        Err (InvalidKdfParams ''Argon2 rejected the supplied parameters'')
      else case argon2id_hash P (memory_cost_kib p) (time_cost p) (parallelism p)
                  (as_bytes passphrase) s of
             None \<Rightarrow> Err KeyDerivation | Some output \<Rightarrow> Ok (Subkey output))"

definition create_key_slot ::
    "crypto_prims \<Rightarrow> master_key \<Rightarrow> string \<Rightarrow> kdf_params \<Rightarrow> (nat, crypto_error, key_slot) prog" where
  "create_key_slot P master passphrase p =
     andThen (lift_result (kdf_validate p)) (\<lambda>_.
     andThen (random_bytes P KDF_SALT_LEN) (\<lambda>s.
     andThen (lift_result (derive_passphrase_key P passphrase s p)) (\<lambda>wrapping_key.
     andThen (random_nonce P) (\<lambda>n.
     andThen (lift_result
       (encrypt_with_key P wrapping_key n (expose_master master) (key_slot_aad p s)))
       (\<lambda>wrapped. ret \<lparr>kdf = p, salt = s, nonce = n, wrapped_master_key = wrapped\<rparr>)))))"

definition create_master_key ::
    "crypto_prims \<Rightarrow> string \<Rightarrow> kdf_params \<Rightarrow> (nat, crypto_error, master_key \<times> key_slot) prog" where
  "create_master_key P passphrase p =
     andThen (master_key_generate P) (\<lambda>master.
     andThen (create_key_slot P master passphrase p) (\<lambda>slot. ret (master, slot)))"

definition unlock_master_key ::
    "crypto_prims \<Rightarrow> string \<Rightarrow> key_slot \<Rightarrow> crypto_error + master_key" where
  "unlock_master_key P passphrase slot =
     bindR (kdf_validate (kdf slot)) (\<lambda>_.
     bindR (derive_passphrase_key P passphrase (salt slot) (kdf slot)) (\<lambda>wrapping_key.
     bindR (decrypt_with_key P wrapping_key (nonce slot) (wrapped_master_key slot)
              (key_slot_aad (kdf slot) (salt slot))) (\<lambda>plaintext.
     master_key_from_secret_slice plaintext)))"

section \<open>Domain separation\<close>

lemma as_bytes_append [simp]: "as_bytes (a @ b) = as_bytes a @ as_bytes b"
  by (simp add: as_bytes_def)

lemma as_bytes_eq_append: "as_bytes s @ x = as_bytes s @ y \<longleftrightarrow> x = y"
  by simp

text \<open>No purpose label is a prefix of another, so the label can be read off the front.\<close>

lemma purpose_label_prefix_free:
  "purpose_label p @ x = purpose_label q @ y \<Longrightarrow> p = q \<and> x = y"
  by (cases p; cases q) (simp_all add: as_bytes_def)

lemma kind_label_inj: "kind_label j = kind_label k \<longleftrightarrow> j = k"
  by (cases j; cases k) simp_all

lemma length_kind_label: "length (kind_label k) < 2 ^ 64"
  by (cases k) simp_all

lemma len_prefix_inj:
  assumes "length u < 2 ^ 64" "length v < 2 ^ 64"
    and "le_bytes 8 (word_of_nat (length u) :: u64) @ u @ x
       = le_bytes 8 (word_of_nat (length v) :: u64) @ v @ y"
  shows "u = v \<and> x = y"
proof -
  have "le_bytes 8 (word_of_nat (length u) :: u64) = le_bytes 8 (word_of_nat (length v) :: u64)"
    and rest: "u @ x = v @ y"
    using assms(3) by (auto simp: append_eq_append_conv)
  then have "(word_of_nat (length u) :: u64) = word_of_nat (length v)"
    by (auto intro: le_bytes_inj [of 8])
  then have "length u = length v"
    using assms(1,2) by (simp add: word_of_nat_eq_iff take_bit_nat_eq_self)
  with rest show ?thesis by simp
qed


lemma subkey_info_inj:
  "subkey_info p c = subkey_info q d \<longleftrightarrow> p = q \<and> c = d"
proof
  assume "subkey_info p c = subkey_info q d"
  then have "purpose_label p @ le_bytes 8 (word_of_nat (length c) :: u64) @ c
      = purpose_label q @ le_bytes 8 (word_of_nat (length d) :: u64) @ d"
    by (simp add: subkey_info_def write_len_prefixed_def)
  then have "p = q" and "le_bytes 8 (word_of_nat (length c) :: u64) @ c
      = le_bytes 8 (word_of_nat (length d) :: u64) @ d"
    using purpose_label_prefix_free by blast+
  then show "p = q \<and> c = d" by (auto simp: append_eq_append_conv)
qed simp

lemma object_aad_inj:
  "object_aad c = object_aad d \<longleftrightarrow> c = d"
proof
  assume eq: "object_aad c = object_aad d"
  let ?name = "\<lambda>c. le_bytes 8 (word_of_nat (length (object_name c)) :: u64) @
    as_bytes (object_name c)"
  have "le_bytes 2 (format_version c) @ le_bytes 8 (word_of_nat (length (kind_label (kind c))) :: u64)
      @ kind_label (kind c) @ ?name c
    = le_bytes 2 (format_version d) @ le_bytes 8 (word_of_nat (length (kind_label (kind d))) :: u64)
      @ kind_label (kind d) @ ?name d"
    using eq by (simp add: object_aad_def write_len_prefixed_def)
  then have version: "le_bytes 2 (format_version c) = le_bytes 2 (format_version d)"
    and tail: "le_bytes 8 (word_of_nat (length (kind_label (kind c))) :: u64)
      @ kind_label (kind c) @ ?name c
    = le_bytes 8 (word_of_nat (length (kind_label (kind d))) :: u64)
      @ kind_label (kind d) @ ?name d"
    by (auto simp: append_eq_append_conv)
  have "format_version c = format_version d"
    using version by (auto intro: le_bytes_inj [of 2])
  moreover have "kind_label (kind c) = kind_label (kind d)" and name: "?name c = ?name d"
    using len_prefix_inj [OF length_kind_label length_kind_label tail] by auto
  moreover have "object_name c = object_name d"
    using name by (auto simp: append_eq_append_conv)
  ultimately show "c = d" by (simp add: kind_label_inj)
qed simp

lemma key_slot_aad_inj:
  "key_slot_aad p s = key_slot_aad q t \<longleftrightarrow> p = q \<and> s = t"
proof
  assume eq: "key_slot_aad p s = key_slot_aad q t"
  then have "le_bytes 4 (memory_cost_kib p) = le_bytes 4 (memory_cost_kib q)"
    "le_bytes 4 (time_cost p) = le_bytes 4 (time_cost q)"
    "le_bytes 4 (parallelism p) = le_bytes 4 (parallelism q)"
    and s: "s = t"
    by (auto simp: key_slot_aad_def write_len_prefixed_def append_eq_append_conv)
  then have "memory_cost_kib p = memory_cost_kib q" "time_cost p = time_cost q"
    "parallelism p = parallelism q"
    by (auto intro: le_bytes_inj [of 4])
  moreover have "algorithm p = algorithm q"
    by (cases "algorithm p"; cases "algorithm q") simp
  ultimately show "p = q \<and> s = t" using s by simp
qed simp

section \<open>Encryption and unlocking\<close>

lemma decrypt_encrypt_with_key:
  "aead_correct P \<Longrightarrow> encrypt_with_key P key n m a = Ok c \<Longrightarrow> decrypt_with_key P key n c a = Ok m"
  by (auto simp: aead_correct_def encrypt_with_key_def decrypt_with_key_def ok_or_Ok_iff
      split: if_splits)

lemma decrypt_with_key_authentic:
  assumes "aead_authentic P" "encrypt_with_key P key n m a = Ok c"
    and "decrypt_with_key P key' n' c a' = Ok m'"
  shows "key' = key \<and> n' = n \<and> a' = a"
proof -
  have "xchacha_encrypt P (expose_subkey key) n a m = Some c"
    using assms(2) by (simp add: encrypt_with_key_def ok_or_Ok_iff split: if_splits)
  moreover have "xchacha_decrypt P (expose_subkey key') n' a' c = Some m'"
    using assms(3) by (simp add: decrypt_with_key_def ok_or_Ok_iff split: if_splits)
  ultimately have "expose_subkey key' = expose_subkey key \<and> n' = n \<and> a' = a"
    using assms(1) unfolding aead_authentic_def by blast
  then show ?thesis by (simp add: subkey.expand)
qed

text \<open>An encrypted object opens under its own key and context and under no other.\<close>

lemma encrypt_object_Ok:
  assumes "encrypt_object P key ctx m n = (Ok e, n')"
  shows "encrypt_with_key P key (eo_nonce e) m (object_aad ctx) = Ok (eo_ciphertext e)"
    and "eo_nonce e = os_rng P n XCHACHA20_POLY1305_NONCE_LEN" and "n' = Suc n"
  using assms by (auto simp: encrypt_object_def prog_simps random_nonce_def random_bytes_def)

lemma decrypt_object_round_trip:
  assumes "aead_correct P" "encrypt_object P key ctx m n = (Ok e, n')"
  shows "decrypt_object P key ctx e = Ok m"
  using decrypt_encrypt_with_key [OF assms(1) encrypt_object_Ok(1) [OF assms(2)]]
  by (cases "eo_algorithm e") (simp add: decrypt_object_def)

lemma decrypt_object_bound:
  assumes "aead_authentic P" "encrypt_object P key ctx m n = (Ok e, n')"
    and "decrypt_object P key' ctx' e = Ok m'"
  shows "key' = key \<and> ctx' = ctx"
proof -
  have "decrypt_with_key P key' (eo_nonce e) (eo_ciphertext e) (object_aad ctx') = Ok m'"
    using assms(3) by (cases "eo_algorithm e") (simp add: decrypt_object_def)
  from decrypt_with_key_authentic [OF assms(1) encrypt_object_Ok(1) [OF assms(2)] this]
  show ?thesis by (simp add: object_aad_inj)
qed

lemma create_key_slot_Ok:
  assumes "create_key_slot P master pw p n = (Ok slot, n')"
  obtains wk where "kdf slot = p" "kdf_validate p = Ok ()"
    "derive_passphrase_key P pw (salt slot) p = Ok wk"
    "encrypt_with_key P wk (nonce slot) (expose_master master) (key_slot_aad p (salt slot))
      = Ok (wrapped_master_key slot)"
  using assms
  by (auto simp: create_key_slot_def prog_simps random_nonce_def random_bytes_def)

lemma unlock_created_slot:
  assumes "aead_correct P" "length (expose_master master) = MASTER_KEY_LEN"
    and "create_key_slot P master pw p n = (Ok slot, n')"
  shows "unlock_master_key P pw slot = Ok master"
  using assms
  by (auto elim!: create_key_slot_Ok dest: decrypt_encrypt_with_key
      simp: unlock_master_key_def master_key_from_secret_slice_def)

text \<open>
  A passphrase whose derived key differs, or a slot whose parameters or salt were changed,
  cannot unwrap the master key: the unlock reports \<open>DecryptionFailed\<close>.
\<close>

lemma unlock_fails_closed:
  assumes "aead_authentic P" "create_key_slot P master pw p n = (Ok slot, n')"
    and "slot' = slot\<lparr>kdf := p', salt := s', nonce := n''\<rparr>"
    and "kdf_validate p' = Ok ()" "derive_passphrase_key P pw' s' p' = Ok wk'"
    and "length (expose_subkey wk') = SUBKEY_LEN"
    and "p' \<noteq> p \<or> s' \<noteq> salt slot \<or> n'' \<noteq> nonce slot \<or>
         derive_passphrase_key P pw (salt slot) p \<noteq> Ok wk'"
  shows "unlock_master_key P pw' slot' = Err DecryptionFailed"
proof -
  obtain wk where wk: "derive_passphrase_key P pw (salt slot) p = Ok wk"
    "encrypt_with_key P wk (nonce slot) (expose_master master) (key_slot_aad p (salt slot))
      = Ok (wrapped_master_key slot)"
    using assms(2) by (rule create_key_slot_Ok)
  have "decrypt_with_key P wk' n'' (wrapped_master_key slot) (key_slot_aad p' s') \<noteq> Ok m" for m
    using decrypt_with_key_authentic [OF assms(1) wk(2)] assms(7) wk(1) key_slot_aad_inj by metis
  then have "decrypt_with_key P wk' n'' (wrapped_master_key slot) (key_slot_aad p' s')
      = Err DecryptionFailed"
    using assms(6)
    by (cases "xchacha_decrypt P (expose_subkey wk') n'' (key_slot_aad p' s')
          (wrapped_master_key slot)") (fastforce simp: decrypt_with_key_def)+
  then show ?thesis using assms(3,4,5) by (simp add: unlock_master_key_def)
qed

section \<open>A concrete instance of the primitives\<close>

text \<open>
  A cipher that writes key, nonce and associated data in a self-delimiting form before the
  plaintext satisfies both laws of the AEAD; it shows that the hypotheses can hold together.
\<close>

fun block :: "bytes \<Rightarrow> bytes" where
  "block [] = [0]"
| "block (b # bs) = 1 # b # block bs"

fun strip_block :: "bytes \<Rightarrow> bytes \<Rightarrow> bytes option" where
  "strip_block [] c = (case c of [] \<Rightarrow> None | x # r \<Rightarrow> if x = 0 then Some r else None)"
| "strip_block (b # bs) c =
     (case c of x # y # r \<Rightarrow> if x = 1 \<and> y = b then strip_block bs r else None | _ \<Rightarrow> None)"

lemma strip_block_iff: "strip_block bs c = Some r \<longleftrightarrow> c = block bs @ r"
  by (induction bs c rule: strip_block.induct) (auto split: list.splits)

lemma block_prefix_free: "block a @ x = block b @ y \<longleftrightarrow> a = b \<and> x = y"
proof (induction a arbitrary: b)
  case Nil then show ?case by (cases b) auto
next
  case (Cons c a) then show ?case by (cases b) auto
qed

definition sample_prims :: crypto_prims where
  "sample_prims =
     \<lparr>os_rng = (\<lambda>c n. replicate n (word_of_nat c)),
      hkdf_sha256_expand = (\<lambda>_ _ info. Some (take 32 (drop 17 info @ replicate 32 0))),
      blake3_keyed_hash = (\<lambda>_ bs. take 32 (bs @ replicate 32 0)),
      argon2_params_ok = (\<lambda>_ _ _. True),
      argon2id_hash = (\<lambda>_ _ _ pw _. Some (take 32 (pw @ replicate 32 0))),
      xchacha_encrypt = (\<lambda>k n a m. Some (block k @ block n @ block a @ m)),
      xchacha_decrypt = (\<lambda>k n a c.
        Option.bind (strip_block k c) (\<lambda>c. Option.bind (strip_block n c) (strip_block a)))\<rparr>"

lemma sample_aead_correct: "aead_correct sample_prims"
  by (simp add: aead_correct_def sample_prims_def bind_eq_Some_conv strip_block_iff)

lemma sample_prims_sel [simp]:
  "os_rng sample_prims i l = replicate l (word_of_nat i)"
  "hkdf_sha256_expand sample_prims hs ms info = Some (take 32 (drop 17 info @ replicate 32 0))"
  "blake3_keyed_hash sample_prims k bs = take 32 (bs @ replicate 32 0)"
  "argon2_params_ok sample_prims mc tc pl"
  "argon2id_hash sample_prims mc tc pl pw s = Some (take 32 (pw @ replicate 32 0))"
  "xchacha_encrypt sample_prims k n a m = Some (block k @ block n @ block a @ m)"
  by (simp_all add: sample_prims_def)

lemma sample_output_lengths: "output_lengths sample_prims"
  by (auto simp: output_lengths_def min_def)

lemma sample_encrypts [simp]:
  "length k = 32 \<Longrightarrow> encrypt_with_key sample_prims (Subkey k) n m a = Ok (block k @ block n @ block a @ m)"
  by (simp add: encrypt_with_key_def SUBKEY_LEN_def)

lemma sample_random [simp]: "random_bytes sample_prims n c = (Ok (replicate n (word_of_nat c)), Suc c)"
  by (simp add: random_bytes_def)

lemma sample_passphrase_key [simp]:
  "derive_passphrase_key sample_prims pw s p = Ok (Subkey (take 32 (as_bytes pw @ replicate 32 0)))"
  by (simp add: derive_passphrase_key_def)

lemma sample_aead_authentic: "aead_authentic sample_prims"
  by (auto simp: aead_authentic_def sample_prims_def bind_eq_Some_conv strip_block_iff
      block_prefix_free)

section \<open>Properties\<close>

text \<open>
  C37: domain separation. The HKDF info strings of two subkeys agree only for the same purpose
  and the same repository context, so no two uses of the master key share a derivation.
\<close>

theorem subkey_info_domain_separated:
  "subkey_info p c = subkey_info q d \<longleftrightarrow> p = q \<and> c = d"
  by (rule subkey_info_inj)

text \<open>
  C20: an encrypted object decrypts to what was encrypted under the key and the context
  (format version, object kind, object name) it was written with, and under no other key and no
  other context, so no stored object can stand in for another.
\<close>

theorem object_opens_only_as_written:
  assumes "aead_correct P" and "aead_authentic P"
    and "encrypt_object P key ctx m n = (Ok e, n')"
  shows "decrypt_object P key ctx e = Ok m \<and>
    ((\<exists>m'. decrypt_object P key' ctx' e = Ok m') \<longleftrightarrow> key' = key \<and> ctx' = ctx)"
  using decrypt_object_round_trip [OF assms(1,3)] decrypt_object_bound [OF assms(2,3)] by blast

definition sample_key :: subkey where
  "sample_key = Subkey (replicate 32 7)"

definition sample_sealed :: "object_context \<Rightarrow> bytes \<Rightarrow> nat \<Rightarrow> encrypted_object" where
  "sample_sealed ctx m n =
     (let nonce = replicate 24 (word_of_nat n)
      in \<lparr>eo_algorithm = XChaCha20Poly1305, eo_nonce = nonce,
          eo_ciphertext = block (replicate 32 7) @ block nonce @ block (object_aad ctx) @ m\<rparr>)"

lemma sample_encrypts_with [simp]:
  "encrypt_with_key sample_prims sample_key n m a = Ok (block (replicate 32 7) @ block n @ block a @ m)"
  unfolding sample_key_def by (rule sample_encrypts [OF length_replicate])

lemma sample_seals: "encrypt_object sample_prims sample_key ctx m n = (Ok (sample_sealed ctx m n), Suc n)"
  by (simp add: encrypt_object_def andThen_def random_nonce_def sample_sealed_def Let_def
      XCHACHA20_POLY1305_NONCE_LEN_def)

theorem object_opens_only_as_written_witness:
  "decrypt_object sample_prims sample_key \<lparr>format_version = 0, kind = Chunk, object_name = ''o''\<rparr>
     (sample_sealed \<lparr>format_version = 0, kind = Chunk, object_name = ''o''\<rparr> [1, 2] 5) = Ok [1, 2] \<and>
   \<not> (\<exists>m. decrypt_object sample_prims sample_key
     \<lparr>format_version = 0, kind = IndexKind, object_name = ''o''\<rparr>
     (sample_sealed \<lparr>format_version = 0, kind = Chunk, object_name = ''o''\<rparr> [1, 2] 5) = Ok m)"
  using object_opens_only_as_written [OF sample_aead_correct sample_aead_authentic sample_seals]
  by simp

text \<open>
  C22: the passphrase a key slot was created with unlocks it, and gives back the master key
  that was wrapped.
\<close>

theorem key_slot_unlocks:
  assumes "aead_correct P" and "length (expose_master master) = MASTER_KEY_LEN"
    and "create_key_slot P master passphrase p n = (Ok slot, n')"
  shows "unlock_master_key P passphrase slot = Ok master"
  using assms by (rule unlock_created_slot)

text \<open>
  C21: unlocking fails closed. Once the passphrase derives another wrapping key, or the KDF
  parameters, the salt or the nonce stored in the slot were changed, the unlock reports a
  decryption failure and releases no key.
\<close>

theorem key_slot_tampering_detected:
  assumes "aead_authentic P" and "create_key_slot P master passphrase p n = (Ok slot, n')"
    and "slot' = slot\<lparr>kdf := p', salt := s', nonce := n''\<rparr>"
    and "kdf_validate p' = Ok ()" and "derive_passphrase_key P passphrase' s' p' = Ok wk'"
    and "length (expose_subkey wk') = SUBKEY_LEN"
    and "p' \<noteq> p \<or> s' \<noteq> salt slot \<or> n'' \<noteq> nonce slot \<or>
         derive_passphrase_key P passphrase (salt slot) p \<noteq> Ok wk'"
  shows "unlock_master_key P passphrase' slot' = Err DecryptionFailed"
  using assms by (rule unlock_fails_closed)

definition sample_slot :: key_slot where
  "sample_slot =
     (case create_key_slot sample_prims (MasterKey (replicate 32 9)) ''pw'' kdf_for_tests 0 of
        (Ok slot, _) \<Rightarrow> slot)"

lemma sample_slot_created:
  "create_key_slot sample_prims (MasterKey (replicate 32 9)) ''pw'' kdf_for_tests 0 =
     (Ok sample_slot, 2)"
  by (simp add: sample_slot_def create_key_slot_def andThen_def random_nonce_def
      kdf_validate_def kdf_for_tests_def)

lemma sample_slot_kdf: "kdf sample_slot = kdf_for_tests"
  using sample_slot_created by (elim create_key_slot_Ok) 

theorem key_slot_unlocks_witness:
  "unlock_master_key sample_prims ''pw'' sample_slot = Ok (MasterKey (replicate 32 9))"
  by (rule key_slot_unlocks [OF sample_aead_correct _ sample_slot_created])
    (simp add: MASTER_KEY_LEN_def)

theorem key_slot_tampering_detected_witness:
  "unlock_master_key sample_prims ''qw'' sample_slot = Err DecryptionFailed"
  by (rule key_slot_tampering_detected [OF sample_aead_authentic sample_slot_created,
        where p' = "kdf sample_slot" and s' = "salt sample_slot" and n'' = "nonce sample_slot"
          and wk' = "Subkey (take 32 (as_bytes ''qw'' @ replicate 32 0))"])
    (simp_all add: sample_slot_kdf kdf_validate_def kdf_for_tests_def SUBKEY_LEN_def as_bytes_def)

end
