(* ===== verification/Ferry_Storage.thy ===== *)
theory Ferry_Storage
  imports Ferry_Errors
begin

text \<open>
  The storage crate: object keys and prefixes, the \<open>ObjectStore\<close> trait, the retry policy
  wrapper \<open>PolicyObjectStore\<close> and the in-memory store of the test kit. A trait object
  \<open>&dyn ObjectStore\<close> is a record of operations over a state \<open>'s\<close>; what every implementation
  promises its clients is the locale \<open>object_store\<close>.
\<close>

section \<open>Object keys\<close>

definition is_ascii_alphanumeric :: "char \<Rightarrow> bool" where
  "is_ascii_alphanumeric c \<longleftrightarrow>
     (let v = of_char c :: nat in
        (48 \<le> v \<and> v \<le> 57) \<or> (65 \<le> v \<and> v \<le> 90) \<or> (97 \<le> v \<and> v \<le> 122))"

definition is_ascii_hexdigit :: "char \<Rightarrow> bool" where
  "is_ascii_hexdigit c \<longleftrightarrow>
     (let v = of_char c :: nat in
        (48 \<le> v \<and> v \<le> 57) \<or> (65 \<le> v \<and> v \<le> 70) \<or> (97 \<le> v \<and> v \<le> 102))"

definition key_byte_ok :: "char \<Rightarrow> bool" where
  "key_byte_ok c \<longleftrightarrow>
     is_ascii_alphanumeric c \<or> c = CHR ''.'' \<or> c = CHR ''_'' \<or> c = CHR ''-'' \<or> c = CHR ''=''"

fun validate_segments :: "string \<Rightarrow> string list \<Rightarrow> storage_error + unit" where
  "validate_segments value [] = Ok ()"
| "validate_segments value (segment # rest) =
     (if segment = [] \<or> segment = ''.'' \<or> segment = ''..'' then
        Err (InvalidObjectKey value
          (''key segments must not be empty, '.', or '..'' @ [CHR 0x27]))
      else if \<not> list_all key_byte_ok segment then
        Err (InvalidObjectKey value
          (''key segments may contain only ASCII letters, digits, '.', '_', '-', or '='' @ [CHR 0x27]))
      else validate_segments value rest)"

definition validate_key :: "string \<Rightarrow> bool \<Rightarrow> storage_error + unit" where
  "validate_key value allow_empty =
     (if value = [] then
        (if allow_empty then Ok () else Err (InvalidObjectKey value ''key must not be empty''))
      else if prefix ''/'' value \<or> suffix ''/'' value then
        Err (InvalidObjectKey value ''key must be relative and must not end with a separator'')
      else if CHR 0x5C \<in> set value then
        Err (InvalidObjectKey value ''key must use forward slashes'')
      else validate_segments value (split_on CHR ''/'' value))"

definition object_key_new :: "string \<Rightarrow> storage_error + object_key" where
  "object_key_new value = bindR (validate_key value False) (\<lambda>_. Ok (ObjectKey value))"

datatype object_key_prefix = ObjectKeyPrefix (prefix_str: string)

definition prefix_root :: object_key_prefix where
  "prefix_root = ObjectKeyPrefix []"

definition object_key_prefix_new :: "string \<Rightarrow> storage_error + object_key_prefix" where
  "object_key_prefix_new value =
     bindR (validate_key value True) (\<lambda>_. Ok (ObjectKeyPrefix value))"

text \<open>A prefix comes from \<open>ObjectKeyPrefix::new\<close> or is the root.\<close>

definition prefix_valid :: "object_key_prefix \<Rightarrow> bool" where
  "prefix_valid p \<longleftrightarrow> validate_key (prefix_str p) True = Ok ()"

lemma object_key_prefix_new_valid: "object_key_prefix_new v = Ok p \<Longrightarrow> prefix_valid p \<and> p = ObjectKeyPrefix v"
  by (auto simp: object_key_prefix_new_def prefix_valid_def bindR_Ok_iff)

definition prefix_contains :: "object_key_prefix \<Rightarrow> object_key \<Rightarrow> bool" where
  "prefix_contains p key =
     (if prefix_str p = [] then True
      else as_str key = prefix_str p \<or>
        (case strip_prefix_str (prefix_str p) (as_str key) of
           Some remainder \<Rightarrow> prefix ''/'' remainder | None \<Rightarrow> False))"

text \<open>The prefixes that the core crate lists.\<close>

definition listed_prefix :: "object_key_prefix \<Rightarrow> bool" where
  "listed_prefix p \<longleftrightarrow> prefix_valid p \<and> prefix_str p \<in> {''commits'', ''forgets'', ''key-slots''}"

lemma listed_prefix_new:
  "object_key_prefix_new v = Ok p \<Longrightarrow> v \<in> {''commits'', ''forgets'', ''key-slots''} \<Longrightarrow> listed_prefix p"
  by (auto simp: listed_prefix_def dest: object_key_prefix_new_valid)

lemma listed_prefix_mapped:
  "map_err g (object_key_prefix_new v) = Ok p \<Longrightarrow> v \<in> {''commits'', ''forgets'', ''key-slots''} \<Longrightarrow> listed_prefix p"
  by (blast dest: listed_prefix_new map_err_Ok_iff [THEN iffD1])

text \<open>\<open>split('/').collect::<PathBuf>()\<close> pushes the segments one by one.\<close>

definition collect_path :: "string list \<Rightarrow> path" where
  "collect_path parts = foldl (\<lambda>p s. path_join p (path_of_string s)) [] parts"

definition key_relative_path :: "object_key \<Rightarrow> path" where
  "key_relative_path key = collect_path (split_on CHR ''/'' (as_str key))"

definition prefix_relative_path :: "object_key_prefix \<Rightarrow> path" where
  "prefix_relative_path p =
     collect_path (filter (\<lambda>part. part \<noteq> []) (split_on CHR ''/'' (prefix_str p)))"

section \<open>Capabilities and the store trait\<close>

datatype delete_capability = DeleteUnsupported | DeleteBestEffort | DeleteIdempotent

datatype listing_capability = ListingUnsupported | ListingPrefix

record storage_capabilities =
  backend :: backend_kind
  conditional_create :: bool
  atomic_visibility :: bool
  strong_read_after_write :: bool
  delete_cap :: delete_capability
  listing :: listing_capability

definition capabilities_local_filesystem :: storage_capabilities where
  "capabilities_local_filesystem =
     \<lparr>backend = LocalFilesystem, conditional_create = True, atomic_visibility = True,
      strong_read_after_write = True, delete_cap = DeleteIdempotent, listing = ListingPrefix\<rparr>"

definition capabilities_in_memory_fake :: storage_capabilities where
  "capabilities_in_memory_fake =
     \<lparr>backend = InMemoryFake, conditional_create = True, atomic_visibility = True,
      strong_read_after_write = True, delete_cap = DeleteIdempotent, listing = ListingPrefix\<rparr>"

definition capabilities_s3_compatible :: "bool \<Rightarrow> storage_capabilities" where
  "capabilities_s3_compatible conditional =
     \<lparr>backend = S3Compatible, conditional_create = conditional, atomic_visibility = True,
      strong_read_after_write = False, delete_cap = DeleteIdempotent, listing = ListingPrefix\<rparr>"

datatype put_status = Created | AlreadyPresent

record 's store_ops =
  capabilities :: storage_capabilities
  put_if_absent :: "object_key \<Rightarrow> bytes \<Rightarrow> ('s, storage_error, put_status) prog"
  get_object :: "object_key \<Rightarrow> ('s, storage_error, bytes) prog"
  object_exists :: "object_key \<Rightarrow> ('s, storage_error, bool) prog"
  delete_object :: "object_key \<Rightarrow> ('s, storage_error, unit) prog"
  list_prefix :: "object_key_prefix \<Rightarrow> ('s, storage_error, object_key list) prog"

text \<open>
  The contract. \<open>contents\<close> is the map of objects a state stands for, \<open>inv\<close> the invariant of
  the implementation, \<open>usable\<close> the keys it supports. Any operation may fail at any time with
  an error of the environment; a failed put has either published the object or changed nothing.
  Listings are exact for the prefixes that the core crate lists, \<open>listed_prefix\<close>; a store whose
  listings are exact for every prefix is an \<open>exact_listing\<close>.
\<close>

locale object_store =
  fixes ops :: "'s store_ops"
    and contents :: "'s \<Rightarrow> object_key \<Rightarrow> bytes option"
    and inv :: "'s \<Rightarrow> bool"
    and usable :: "object_key \<Rightarrow> bool"
  assumes put_frame: "\<lbrakk>inv s; usable k; put_if_absent ops k b s = (r, s')\<rbrakk> \<Longrightarrow>
      inv s' \<and> (contents s' = contents s \<or>
                contents s k = None \<and> contents s' = (contents s)(k \<mapsto> b))"
    and put_ok: "\<lbrakk>inv s; usable k; put_if_absent ops k b s = (Ok st, s')\<rbrakk> \<Longrightarrow>
      contents s' k = Some b"
    and put_created: "\<lbrakk>inv s; usable k; put_if_absent ops k b s = (Ok Created, s')\<rbrakk> \<Longrightarrow>
      contents s k = None"
    and put_conflict:
      "\<lbrakk>inv s; usable k; put_if_absent ops k b s = (Err (ObjectAlreadyExists j), s')\<rbrakk> \<Longrightarrow>
      j = k \<and> (\<exists>b'. contents s k = Some b' \<and> b' \<noteq> b)"
    and get_frame: "\<lbrakk>inv s; usable k; get_object ops k s = (rg, s')\<rbrakk> \<Longrightarrow>
      inv s' \<and> contents s' = contents s"
    and get_ok: "\<lbrakk>inv s; usable k; get_object ops k s = (Ok b, s')\<rbrakk> \<Longrightarrow> contents s k = Some b"
    and get_missing: "\<lbrakk>inv s; usable k; get_object ops k s = (Err (ObjectNotFound j), s')\<rbrakk> \<Longrightarrow>
      contents s k = None"
    and exists_frame: "\<lbrakk>inv s; usable k; object_exists ops k s = (re, s')\<rbrakk> \<Longrightarrow>
      inv s' \<and> contents s' = contents s"
    and exists_ok: "\<lbrakk>inv s; usable k; object_exists ops k s = (Ok e, s')\<rbrakk> \<Longrightarrow>
      e \<longleftrightarrow> contents s k \<noteq> None"
    and delete_frame: "\<lbrakk>inv s; usable k; delete_object ops k s = (rd, s')\<rbrakk> \<Longrightarrow>
      inv s' \<and> (contents s' = contents s \<or> contents s' = (contents s)(k := None))"
    and delete_ok: "\<lbrakk>inv s; usable k; delete_object ops k s = (Ok u, s')\<rbrakk> \<Longrightarrow>
      contents s' k = None"
    and list_frame: "\<lbrakk>inv s; list_prefix ops p s = (rl, s')\<rbrakk> \<Longrightarrow>
      inv s' \<and> contents s' = contents s"
    and list_ok: "\<lbrakk>inv s; listed_prefix p; list_prefix ops p s = (Ok ks, s')\<rbrakk> \<Longrightarrow>
      distinct ks \<and> set ks = {k. usable k \<and> contents s k \<noteq> None \<and> prefix_contains p k}"
begin

lemma put_grows: "\<lbrakk>inv s; usable k; put_if_absent ops k b s = (r, s')\<rbrakk> \<Longrightarrow>
    inv s' \<and> contents s \<subseteq>\<^sub>m contents s'"
  using put_frame by (fastforce simp: map_le_def)

lemma put_no_overwrite:
  "\<lbrakk>inv s; usable k; put_if_absent ops k b s = (r, s'); contents s j = Some b'\<rbrakk> \<Longrightarrow>
    contents s' j = Some b'"
  using put_grows by (metis map_le_def domI)

lemma put_then_get:
  assumes "inv s" "usable k" "put_if_absent ops k b s = (Ok st, s1)"
    and "get_object ops k s1 = (Ok b', s2)"
  shows "b' = b"
  using assms put_ok put_frame get_ok by (metis option.inject)

lemma put_again:
  assumes "inv s" "usable k" "put_if_absent ops k b s = (Ok st, s1)"
    and "put_if_absent ops k b s1 = (r, s2)"
  shows "contents s2 = contents s1 \<and> r \<noteq> Ok Created \<and> r \<noteq> Err (ObjectAlreadyExists j)"
proof -
  have s1: "inv s1" "contents s1 k = Some b"
    using put_frame put_ok assms by blast+
  then show ?thesis
    using put_frame [OF s1(1) assms(2,4)] put_created [OF s1(1) assms(2)]
      put_conflict [OF s1(1) assms(2)] assms(4) by fastforce
qed

end

locale exact_listing = object_store +
  assumes list_exact: "\<lbrakk>inv s; prefix_valid p; list_prefix ops p s = (Ok ks, s')\<rbrakk> \<Longrightarrow>
      distinct ks \<and> set ks = {k. usable k \<and> contents s k \<noteq> None \<and> prefix_contains p k}"

text \<open>
  What is left of the contract on a store whose reads and listings may lag behind: an object that is
  there may be reported as missing and may be left out of a listing, but a put still never overwrites, a put
  that returns means that the object is there, and bytes that are returned are the bytes of the object.
  Backing up and restoring rely on no more.
\<close>

locale eventual_store =
  fixes ops :: "'s store_ops"
    and contents :: "'s \<Rightarrow> object_key \<Rightarrow> bytes option"
    and inv :: "'s \<Rightarrow> bool"
    and usable :: "object_key \<Rightarrow> bool"
  assumes put_keeps: "\<lbrakk>inv s; usable k; put_if_absent ops k b s = (r, s')\<rbrakk> \<Longrightarrow>
      inv s' \<and> (contents s' = contents s \<or>
                contents s k = None \<and> contents s' = (contents s)(k \<mapsto> b))"
    and put_stores: "\<lbrakk>inv s; usable k; put_if_absent ops k b s = (Ok st, s')\<rbrakk> \<Longrightarrow>
      contents s' k = Some b"
    and put_creates: "\<lbrakk>inv s; usable k; put_if_absent ops k b s = (Ok Created, s')\<rbrakk> \<Longrightarrow>
      contents s k = None"
    and put_refuses:
      "\<lbrakk>inv s; usable k; put_if_absent ops k b s = (Err (ObjectAlreadyExists j), s')\<rbrakk> \<Longrightarrow>
      j = k \<and> (\<exists>b'. contents s k = Some b' \<and> b' \<noteq> b)"
    and get_keeps: "\<lbrakk>inv s; usable k; get_object ops k s = (rg, s')\<rbrakk> \<Longrightarrow>
      inv s' \<and> contents s' = contents s"
    and get_reads: "\<lbrakk>inv s; usable k; get_object ops k s = (Ok b, s')\<rbrakk> \<Longrightarrow> contents s k = Some b"
    and exists_keeps: "\<lbrakk>inv s; usable k; object_exists ops k s = (re, s')\<rbrakk> \<Longrightarrow>
      inv s' \<and> contents s' = contents s"
    and exists_sees: "\<lbrakk>inv s; usable k; object_exists ops k s = (Ok True, s')\<rbrakk> \<Longrightarrow>
      contents s k \<noteq> None"
    and list_keeps: "\<lbrakk>inv s; list_prefix ops p s = (rl, s')\<rbrakk> \<Longrightarrow>
      inv s' \<and> contents s' = contents s"
    and list_sees: "\<lbrakk>inv s; listed_prefix p; list_prefix ops p s = (Ok ks, s')\<rbrakk> \<Longrightarrow>
      distinct ks \<and> set ks \<subseteq> {k. usable k \<and> contents s k \<noteq> None \<and> prefix_contains p k}"

sublocale object_store \<subseteq> eventual_store
proof (unfold_locales, goal_cases)
  case (1 s k b r s') then show ?case by (rule put_frame)
next
  case (2 s k b st s') then show ?case by (rule put_ok)
next
  case (3 s k b s') then show ?case by (rule put_created)
next
  case (4 s k b j s') then show ?case by (rule put_conflict)
next
  case (5 s k rg s') then show ?case by (rule get_frame)
next
  case (6 s k b s') then show ?case by (rule get_ok)
next
  case (7 s k re s') then show ?case by (rule exists_frame)
next
  case (8 s k s') then show ?case using exists_ok [OF 8] by simp
next
  case (9 s p rl s') then show ?case by (rule list_frame)
next
  case (10 s p ks s') then show ?case using list_ok [OF 10] by simp
qed

section \<open>Retry policy\<close>

record storage_policy =
  max_attempts :: nat
  operation_timeout :: duration
  initial_backoff :: duration
  max_backoff :: duration
  max_concurrency :: nat

definition storage_policy_new ::
    "nat \<Rightarrow> duration \<Rightarrow> duration \<Rightarrow> duration \<Rightarrow> nat \<Rightarrow> storage_error + storage_policy" where
  "storage_policy_new attempts op_timeout initial_bo max_bo concurrency =
     (if attempts = 0 then
        Err (PolicyConfig ''max attempts must be greater than zero'')
      else if op_timeout = 0 then
        Err (PolicyConfig ''operation timeout must be greater than zero'')
      else if initial_bo = 0 then
        Err (PolicyConfig ''initial backoff must be greater than zero'')
      else if max_bo < initial_bo then
        Err (PolicyConfig ''max backoff must be greater than or equal to initial backoff'')
      else if concurrency = 0 then
        Err (PolicyConfig ''max concurrency must be greater than zero'')
      else Ok \<lparr>max_attempts = attempts, operation_timeout = op_timeout,
               initial_backoff = initial_bo, max_backoff = max_bo,
               max_concurrency = concurrency\<rparr>)"

definition storage_policy_default :: storage_policy where
  "storage_policy_default =
     \<lparr>max_attempts = 4, operation_timeout = 60 * 10 ^ 9, initial_backoff = 100 * 10 ^ 6,
      max_backoff = 2 * 10 ^ 9, max_concurrency = 16\<rparr>"

datatype storage_operation = PutIfAbsent | Get | Exists | Delete | ListPrefix

fun operation_label :: "storage_operation \<Rightarrow> string" where
  "operation_label PutIfAbsent = ''put object''"
| "operation_label Get = ''read object''"
| "operation_label Exists = ''stat object''"
| "operation_label Delete = ''delete object''"
| "operation_label ListPrefix = ''list objects''"

definition next_backoff :: "duration \<Rightarrow> duration \<Rightarrow> duration" where
  "next_backoff current mx =
     (let doubled = min (2 * current) duration_max in if doubled > mx then mx else doubled)"

text \<open>
  The wrapped store, the number of attempts made so far and the sleeps taken. Whether the
  timer of an attempt fires, before or after the attempt took effect, is up to the
  environment: \<open>timer n\<close> says it for the \<open>n\<close>th attempt.
\<close>

datatype timer_outcome = Completes | ElapsesBefore | ElapsesAfter

record 's policy_state =
  ps_inner :: 's
  ps_attempts :: nat
  ps_sleeps :: "duration list"

definition timed_attempt ::
    "(nat \<Rightarrow> timer_outcome) \<Rightarrow> storage_policy \<Rightarrow> storage_operation \<Rightarrow>
     ('s, storage_error, 'a) prog \<Rightarrow> ('s policy_state, storage_error, 'a) prog" where
  "timed_attempt timer policy operation attempt s =
     (let s0 = s\<lparr>ps_attempts := Suc (ps_attempts s)\<rparr>;
          elapsed = Err (Timeout (operation_label operation) (operation_timeout policy))
      in case timer (ps_attempts s) of
           ElapsesBefore \<Rightarrow> (elapsed, s0)
         | ElapsesAfter \<Rightarrow> (elapsed, s0\<lparr>ps_inner := snd (attempt (ps_inner s))\<rparr>)
         | Completes \<Rightarrow> (case attempt (ps_inner s) of (r, i) \<Rightarrow> (r, s0\<lparr>ps_inner := i\<rparr>)))"

text \<open>
  The loop of \<open>PolicyObjectStore::run\<close>, by the number of attempts left after the current
  one. \<open>StoragePolicy::new\<close> rejects a policy without an attempt.
\<close>

fun run_loop ::
    "(nat \<Rightarrow> timer_outcome) \<Rightarrow> storage_policy \<Rightarrow> storage_operation \<Rightarrow>
     ('s, storage_error, 'a) prog \<Rightarrow> nat \<Rightarrow> duration \<Rightarrow>
     ('s policy_state, storage_error, 'a) prog" where
  "run_loop timer policy operation attempt left backoff s =
     (case timed_attempt timer policy operation attempt s of
        (Ok v, s') \<Rightarrow> (Ok v, s')
      | (Err e, s') \<Rightarrow>
          (case left of
             0 \<Rightarrow> (Err e, s')
           | Suc left' \<Rightarrow>
               if is_retryable e then
                 run_loop timer policy operation attempt left'
                   (next_backoff backoff (max_backoff policy))
                   (s'\<lparr>ps_sleeps := ps_sleeps s' @ [backoff]\<rparr>)
               else (Err e, s')))"

declare run_loop.simps [simp del]

definition policy_run ::
    "(nat \<Rightarrow> timer_outcome) \<Rightarrow> storage_policy \<Rightarrow> storage_operation \<Rightarrow>
     ('s, storage_error, 'a) prog \<Rightarrow> ('s policy_state, storage_error, 'a) prog" where
  "policy_run timer policy operation attempt =
     run_loop timer policy operation attempt (max_attempts policy - 1) (initial_backoff policy)"

definition policy_store_ops ::
    "(nat \<Rightarrow> timer_outcome) \<Rightarrow> storage_policy \<Rightarrow> 's store_ops \<Rightarrow> 's policy_state store_ops" where
  "policy_store_ops timer policy ops =
     \<lparr>capabilities = capabilities ops,
      put_if_absent = (\<lambda>k b. policy_run timer policy PutIfAbsent (put_if_absent ops k b)),
      get_object = (\<lambda>k. policy_run timer policy Get (get_object ops k)),
      object_exists = (\<lambda>k. policy_run timer policy Exists (object_exists ops k)),
      delete_object = (\<lambda>k. policy_run timer policy Delete (delete_object ops k)),
      list_prefix = (\<lambda>p. policy_run timer policy ListPrefix (list_prefix ops p))\<rparr>"

section \<open>The in-memory store of the test kit\<close>

type_synonym fake_store = "(object_key, bytes) btree_map"

definition fake_put_if_absent ::
    "object_key \<Rightarrow> bytes \<Rightarrow> (fake_store, storage_error, put_status) prog" where
  "fake_put_if_absent key b objects =
     (case bt_get objects key of
        Some existing \<Rightarrow>
          (if existing = b then (Ok AlreadyPresent, objects)
           else (Err (ObjectAlreadyExists key), objects))
      | None \<Rightarrow> (Ok Created, bt_insert key b objects))"

definition fake_get :: "object_key \<Rightarrow> (fake_store, storage_error, bytes) prog" where
  "fake_get key objects = (ok_or (ObjectNotFound key) (bt_get objects key), objects)"

definition fake_exists :: "object_key \<Rightarrow> (fake_store, storage_error, bool) prog" where
  "fake_exists key objects = (Ok (bt_get objects key \<noteq> None), objects)"

definition fake_delete :: "object_key \<Rightarrow> (fake_store, storage_error, unit) prog" where
  "fake_delete key objects = (Ok (), filter (\<lambda>e. fst e \<noteq> key) objects)"

definition fake_list_prefix ::
    "object_key_prefix \<Rightarrow> (fake_store, storage_error, object_key list) prog" where
  "fake_list_prefix p objects =
     (Ok (filter (\<lambda>key. prefix_str p = [] \<or> as_str key = prefix_str p \<or>
            (case strip_prefix_str (prefix_str p) (as_str key) of
               Some remainder \<Rightarrow> prefix ''/'' remainder | None \<Rightarrow> False))
          (map fst objects)), objects)"

definition fake_store_ops :: "fake_store store_ops" where
  "fake_store_ops =
     \<lparr>capabilities = capabilities_in_memory_fake,
      put_if_absent = fake_put_if_absent, get_object = fake_get, object_exists = fake_exists,
      delete_object = fake_delete, list_prefix = fake_list_prefix\<rparr>"


section \<open>Facts about keys\<close>

text \<open>What \<open>ObjectKey::new\<close> accepts, segment by segment.\<close>

definition segment_ok :: "string \<Rightarrow> bool" where
  "segment_ok s \<longleftrightarrow> s \<noteq> [] \<and> s \<noteq> ''.'' \<and> s \<noteq> ''..'' \<and> list_all key_byte_ok s"

lemma key_byte_not_separator [simp]:
  "\<not> key_byte_ok CHR ''/''" "\<not> key_byte_ok CHR 0x5C"
  by (simp_all add: key_byte_ok_def is_ascii_alphanumeric_def)

lemma segment_ok_no_separator: "segment_ok s \<Longrightarrow> CHR ''/'' \<notin> set s \<and> CHR 0x5C \<notin> set s"
  by (auto simp: segment_ok_def list_all_iff dest: bspec)

lemma segment_ok_wf: "segment_ok s \<Longrightarrow> segment_wf s"
  using segment_ok_no_separator by (auto simp: segment_ok_def segment_wf_def)

lemma validate_segments_Ok [simp]:
  "validate_segments v segs = Ok u \<longleftrightarrow> list_all segment_ok segs"
  by (induction v segs rule: validate_segments.induct) (auto simp: segment_ok_def)

lemma set_join_with: "x \<in> set (join_with c ps) \<Longrightarrow> x = c \<or> (\<exists>p \<in> set ps. x \<in> set p)"
  by (induction c ps rule: join_with.induct) auto

lemma segments_cover: "x \<in> set v \<Longrightarrow> x = c \<or> (\<exists>p \<in> set (split_on c v). x \<in> set p)"
  using set_join_with [of x c "split_on c v"] by simp

lemma split_on_snoc: "split_on c (v @ [c]) = split_on c v @ [[]]"
  by (induction v) (auto simp: split_on_Cons tl_append2 simp del: split_on.simps(2))

lemma segments_ok_shape:
  assumes "list_all segment_ok (split_on CHR ''/'' v)"
  shows "v \<noteq> []" "\<not> prefix ''/'' v" "\<not> suffix ''/'' v" "CHR 0x5C \<notin> set v"
proof -
  show "v \<noteq> []" using assms by (auto simp: segment_ok_def)
  show "\<not> prefix ''/'' v" using assms
    by (cases v) (auto simp: segment_ok_def split_on_Cons simp del: split_on.simps(2))
  show "\<not> suffix ''/'' v"
  proof
    assume "suffix ''/'' v"
    then obtain u where "v = u @ [CHR ''/'']" by (auto simp: suffix_def)
    then have "last (split_on CHR ''/'' v) = []" by (simp add: split_on_snoc)
    moreover have "segment_ok (last (split_on CHR ''/'' v))"
      using assms by (simp add: list_all_iff)
    ultimately show False by (simp add: segment_ok_def)
  qed
  show "CHR 0x5C \<notin> set v"
    using assms segments_cover [of "CHR 0x5C" v "CHR ''/''"]
    by (auto simp: list_all_iff dest: segment_ok_no_separator)
qed

lemma validate_key_False_Ok:
  "validate_key v False = Ok u \<longleftrightarrow> list_all segment_ok (split_on CHR ''/'' v)"
  using segments_ok_shape [of v] by (auto simp: validate_key_def segment_ok_def)

lemma object_key_new_Ok [result_simps]:
  "object_key_new v = Ok k \<longleftrightarrow> k = ObjectKey v \<and> list_all segment_ok (split_on CHR ''/'' v)"
  by (auto simp: object_key_new_def bindR_Ok_iff validate_key_False_Ok)

definition key_valid :: "object_key \<Rightarrow> bool" where
  "key_valid k \<longleftrightarrow> list_all segment_ok (split_on CHR ''/'' (as_str k))"

lemma object_key_new_valid: "object_key_new v = Ok k \<Longrightarrow> key_valid k \<and> as_str k = v"
  by (auto simp: object_key_new_Ok key_valid_def)

lemma path_of_segment:
  assumes "segment_ok s"
  shows "path_of_string s = [Normal s]"
proof -
  have "split_on CHR ''/'' s = [s]"
    using assms by (simp add: split_on_free segment_ok_no_separator)
  moreover have "\<not> prefix ''/'' s"
    using segment_ok_no_separator [OF assms] by (cases s) auto
  ultimately show ?thesis
    using assms by (simp add: path_of_string_def segment_ok_def segment_component_def)
qed

lemma collect_path_segments:
  assumes "list_all segment_ok parts"
  shows "collect_path parts = map Normal parts"
proof -
  have "foldl (\<lambda>p s. path_join p (path_of_string s)) acc parts = acc @ map Normal parts" for acc
    using assms by (induction parts arbitrary: acc) (simp_all add: path_of_segment)
  then show ?thesis by (simp add: collect_path_def)
qed

lemma key_relative_path_valid:
  "key_valid k \<Longrightarrow> key_relative_path k = map Normal (split_on CHR ''/'' (as_str k))"
  by (simp add: key_relative_path_def key_valid_def collect_path_segments)

lemma key_relative_path_inj:
  assumes "key_valid j" "key_valid k" "key_relative_path j = key_relative_path k"
  shows "j = k"
proof -
  have "map Normal (split_on CHR ''/'' (as_str j)) = map Normal (split_on CHR ''/'' (as_str k))"
    using assms by (simp add: key_relative_path_valid)
  then have "split_on CHR ''/'' (as_str j) = split_on CHR ''/'' (as_str k)"
    by (rule map_injective) (simp add: inj_def)
  then show ?thesis by (simp add: object_key.expand split_on_inj)
qed

section \<open>The stores meet the contract\<close>

lemma bt_mem_fst: "(a, b) \<in> set m \<Longrightarrow> a \<in> fst ` set m"
  by force

lemma bt_get_filter: "bt_get (filter (\<lambda>e. fst e \<noteq> k) m) = (bt_get m)(k := None)"
  unfolding bt_get_def by (induction m) (auto simp: fun_eq_iff)

lemma bt_wf_filter: "bt_wf m \<Longrightarrow> bt_wf (filter P m)"
  by (induction m) (auto simp: bt_wf_def)

lemma fake_list_prefix_eq:
  "fake_list_prefix p objects = (Ok (filter (prefix_contains p) (map fst objects)), objects)"
proof -
  have "filter (\<lambda>key. prefix_str p = [] \<or> as_str key = prefix_str p \<or>
            (case strip_prefix_str (prefix_str p) (as_str key) of
               Some remainder \<Rightarrow> prefix ''/'' remainder | None \<Rightarrow> False)) (map fst objects)
      = filter (prefix_contains p) (map fst objects)"
    by (rule filter_cong) (auto simp: prefix_contains_def)
  then show ?thesis by (simp only: fake_list_prefix_def)
qed

lemmas fake_store_defs =
  fake_store_ops_def fake_put_if_absent_def fake_get_def fake_exists_def fake_delete_def
  fake_list_prefix_eq

interpretation fake: exact_listing fake_store_ops bt_get bt_wf "\<lambda>_. True"
  by unfold_locales
    (auto simp: fake_store_defs ok_or_def bt_get_filter bt_wf_filter bt_get_None_iff bt_wf_distinct
       intro: bt_mem_fst split: option.splits if_splits)

text \<open>
  The retry loop ends with the result of its last attempt, and whatever every attempt
  preserves of the inner state still holds when the last one starts.
\<close>

lemma timed_attempt_inner:
  assumes "timed_attempt timer policy operation attempt s = (r, s')"
  obtains (expired) "r = Err (Timeout (operation_label operation) (operation_timeout policy))"
      "ps_inner s' = ps_inner s \<or> ps_inner s' = snd (attempt (ps_inner s))"
    | (completed) "attempt (ps_inner s) = (r, ps_inner s')"
  using assms
  by (auto simp: timed_attempt_def Let_def split: timer_outcome.splits prod.splits)

lemma run_loop_last:
  assumes "run_loop timer policy operation attempt left bo s = (r, s')"
    and "J (ps_inner s)"
    and "\<And>i d i'. J i \<Longrightarrow> attempt i = (d, i') \<Longrightarrow> J i'"
  obtains i where "J i" "J (ps_inner s')"
    "attempt i = (r, ps_inner s') \<or>
     r = Err (Timeout (operation_label operation) (operation_timeout policy))"
  using assms(1,2)
proof (induction left arbitrary: bo s thesis)
  case 0
  obtain d s1 where att: "timed_attempt timer policy operation attempt s = (d, s1)" by fastforce
  then have "r = d \<and> s' = s1"
    using "0.prems"(2) by (auto simp: run_loop.simps split: sum.splits)
  with att show ?case
    using "0.prems"(1,3) assms(3) by (metis timed_attempt_inner prod.collapse)
next
  case (Suc left)
  obtain d s1 where att: "timed_attempt timer policy operation attempt s = (d, s1)" by fastforce
  have J1: "J (ps_inner s1)"
    using att Suc.prems(3) assms(3) by (metis timed_attempt_inner prod.collapse)
  show ?case
  proof (cases "\<exists>e. d = Err e \<and> is_retryable e")
    case True
    then obtain e where e: "d = Err e" "is_retryable e" by blast
    then have "run_loop timer policy operation attempt left
        (next_backoff bo (max_backoff policy)) (s1\<lparr>ps_sleeps := ps_sleeps s1 @ [bo]\<rparr>) = (r, s')"
      using Suc.prems(2) att by (subst (asm) run_loop.simps) simp
    then show ?thesis
      by (rule Suc.IH [rotated]) (auto simp: J1 intro: Suc.prems(1))
  next
    case False
    then have "r = d \<and> s' = s1"
      using Suc.prems(2) att by (subst (asm) run_loop.simps) (auto split: sum.splits)
    with att J1 show ?thesis
      using Suc.prems(1,3) by (metis timed_attempt_inner)
  qed
qed

lemma policy_run_last:
  assumes "policy_run timer policy operation attempt s = (r, s')"
    and "J (ps_inner s)"
    and "\<And>i d i'. J i \<Longrightarrow> attempt i = (d, i') \<Longrightarrow> J i'"
  shows "\<exists>i. J i \<and> J (ps_inner s') \<and>
    (attempt i = (r, ps_inner s') \<or> (\<exists>operation d. r = Err (Timeout operation d)))"
  by (rule run_loop_last [where J = J, OF assms(1) [unfolded policy_run_def] assms(2)])
    (use assms(3) in blast)+

text \<open>Retrying keeps the contract: the wrapper of a store is a store.\<close>

context eventual_store
begin

abbreviation put_outcome :: "'s \<Rightarrow> object_key \<Rightarrow> bytes \<Rightarrow> 's \<Rightarrow> bool" where
  "put_outcome s k b s' \<equiv> inv s' \<and> (contents s' = contents s \<or>
     contents s k = None \<and> contents s' = (contents s)(k \<mapsto> b))"

lemma retried_put:
  assumes "inv (ps_inner s)" "usable k"
    and "policy_run timer policy PutIfAbsent (put_if_absent ops k b) s = (r, s')"
  shows "\<exists>i. put_outcome (ps_inner s) k b i \<and> put_outcome (ps_inner s) k b (ps_inner s') \<and>
    (put_if_absent ops k b i = (r, ps_inner s') \<or> (\<exists>operation d. r = Err (Timeout operation d)))"
proof (rule policy_run_last [where J = "put_outcome (ps_inner s) k b", OF assms(3)])
  show "put_outcome (ps_inner s) k b (ps_inner s)" using assms(1) by simp
  fix i d i' assume "put_outcome (ps_inner s) k b i" "put_if_absent ops k b i = (d, i')"
  then show "put_outcome (ps_inner s) k b i'"
    using put_keeps [of i k b d i'] assms(2) by auto
qed

lemma retried_read:
  assumes "policy_run timer policy operation attempt s = (r, s')" "inv (ps_inner s)"
    and "\<And>i d i'. inv i \<Longrightarrow> attempt i = (d, i') \<Longrightarrow> inv i' \<and> contents i' = contents i"
  shows "\<exists>i. inv i \<and> contents i = contents (ps_inner s) \<and>
    inv (ps_inner s') \<and> contents (ps_inner s') = contents (ps_inner s) \<and>
    (attempt i = (r, ps_inner s') \<or> (\<exists>operation d. r = Err (Timeout operation d)))"
proof -
  let ?J = "\<lambda>i. inv i \<and> contents i = contents (ps_inner s)"
  have "\<exists>i. ?J i \<and> ?J (ps_inner s') \<and>
    (attempt i = (r, ps_inner s') \<or> (\<exists>operation d. r = Err (Timeout operation d)))"
  proof (rule policy_run_last [where J = ?J, OF assms(1)])
    show "?J (ps_inner s)" using assms(2) by simp
    fix i d i' assume "?J i" "attempt i = (d, i')"
    then show "?J i'" using assms(3) [of i d i'] by auto
  qed
  then show ?thesis by blast
qed

lemma policy_eventual:
  "eventual_store (policy_store_ops timer policy ops) (contents \<circ> ps_inner) (inv \<circ> ps_inner) usable"
proof (unfold_locales, unfold policy_store_ops_def store_ops.simps comp_def, goal_cases)
  case (1 s k b r s')
  show ?case using retried_put [OF 1] by blast
next
  case (2 s k b st s')
  from retried_put [OF 2] obtain i where "put_outcome (ps_inner s) k b i"
    "put_if_absent ops k b i = (Ok st, ps_inner s')" by auto
  then show ?case using put_stores 2(2) by blast
next
  case (3 s k b s')
  from retried_put [OF 3] obtain i where "put_outcome (ps_inner s) k b i"
    "put_if_absent ops k b i = (Ok Created, ps_inner s')" by auto
  then show ?case using put_creates [OF _ 3(2)] by fastforce
next
  case (4 s k b j s')
  from retried_put [OF 4] obtain i where i: "put_outcome (ps_inner s) k b i"
    "put_if_absent ops k b i = (Err (ObjectAlreadyExists j), ps_inner s')" by auto
  then have "j = k \<and> (\<exists>b'. contents i k = Some b' \<and> b' \<noteq> b)" using put_refuses 4(2) by blast
  then show ?case using i(1) by auto
next
  case (5 s k rg s')
  show ?case using retried_read [OF 5(3,1)] get_keeps 5(2) by blast
next
  case (6 s k b s')
  from retried_read [OF 6(3,1)] get_keeps 6(2) obtain i where
    "inv i" "contents i = contents (ps_inner s)" "get_object ops k i = (Ok b, ps_inner s')"
    by blast
  then show ?case using get_reads 6(2) by metis
next
  case (7 s k re s')
  show ?case using retried_read [OF 7(3,1)] exists_keeps 7(2) by blast
next
  case (8 s k s')
  from retried_read [OF 8(3,1)] exists_keeps 8(2) obtain i where
    "inv i" "contents i = contents (ps_inner s)" "object_exists ops k i = (Ok True, ps_inner s')"
    by blast
  then show ?case using exists_sees 8(2) by metis
next
  case (9 s p rl s')
  show ?case using retried_read [OF 9(2,1)] list_keeps by blast
next
  case (10 s p ks s')
  from retried_read [OF 10(3,1)] list_keeps obtain i where
    "inv i" "contents i = contents (ps_inner s)" "list_prefix ops p i = (Ok ks, ps_inner s')"
    by blast
  then show ?case using list_sees [of i p ks "ps_inner s'"] 10(2) by simp
qed

end

context object_store
begin

lemma retried_delete:
  assumes "inv (ps_inner s)" "usable k"
    and "policy_run timer policy Delete (delete_object ops k) s = (r, s')"
  shows "\<exists>i. inv i \<and> inv (ps_inner s') \<and>
    (contents (ps_inner s') = contents (ps_inner s) \<or>
     contents (ps_inner s') = (contents (ps_inner s))(k := None)) \<and>
    (delete_object ops k i = (r, ps_inner s') \<or> (\<exists>operation d. r = Err (Timeout operation d)))"
proof -
  let ?J = "\<lambda>i. inv i \<and> (contents i = contents (ps_inner s) \<or>
      contents i = (contents (ps_inner s))(k := None))"
  have "\<exists>i. ?J i \<and> ?J (ps_inner s') \<and>
    (delete_object ops k i = (r, ps_inner s') \<or> (\<exists>operation d. r = Err (Timeout operation d)))"
  proof (rule policy_run_last [where J = ?J, OF assms(3)])
    show "?J (ps_inner s)" using assms(1) by simp
    fix i d i' assume "?J i" "delete_object ops k i = (d, i')"
    then show "?J i'" using delete_frame [of i k d i'] assms(2) by auto
  qed
  then show ?thesis by blast
qed

lemma policy_contract:
  "object_store (policy_store_ops timer policy ops) (contents \<circ> ps_inner) (inv \<circ> ps_inner) usable"
proof (unfold_locales, unfold policy_store_ops_def store_ops.simps comp_def, goal_cases)
  case (1 s k b r s')
  show ?case using retried_put [OF 1] by blast
next
  case (2 s k b st s')
  from retried_put [OF 2] obtain i where "put_outcome (ps_inner s) k b i"
    "put_if_absent ops k b i = (Ok st, ps_inner s')" by auto
  then show ?case using put_ok 2(2) by blast
next
  case (3 s k b s')
  from retried_put [OF 3] obtain i where "put_outcome (ps_inner s) k b i"
    "put_if_absent ops k b i = (Ok Created, ps_inner s')" by auto
  then show ?case using put_created [OF _ 3(2)] by fastforce
next
  case (4 s k b j s')
  from retried_put [OF 4] obtain i where i: "put_outcome (ps_inner s) k b i"
    "put_if_absent ops k b i = (Err (ObjectAlreadyExists j), ps_inner s')" by auto
  then have "j = k \<and> (\<exists>b'. contents i k = Some b' \<and> b' \<noteq> b)" using put_conflict 4(2) by blast
  then show ?case using i(1) by auto
next
  case (5 s k rg s')
  show ?case using retried_read [OF 5(3,1)] get_frame 5(2) by blast
next
  case (6 s k b s')
  from retried_read [OF 6(3,1)] get_frame 6(2) obtain i where
    "inv i" "contents i = contents (ps_inner s)" "get_object ops k i = (Ok b, ps_inner s')"
    by blast
  then show ?case using get_ok 6(2) by metis
next
  case (7 s k j s')
  from retried_read [OF 7(3,1)] get_frame 7(2) obtain i where
    "inv i" "contents i = contents (ps_inner s)"
    "get_object ops k i = (Err (ObjectNotFound j), ps_inner s')"
    by blast
  then show ?case using get_missing 7(2) by metis
next
  case (8 s k re s')
  show ?case using retried_read [OF 8(3,1)] exists_frame 8(2) by blast
next
  case (9 s k e s')
  from retried_read [OF 9(3,1)] exists_frame 9(2) obtain i where
    "inv i" "contents i = contents (ps_inner s)" "object_exists ops k i = (Ok e, ps_inner s')"
    by blast
  then show ?case using exists_ok 9(2) by metis
next
  case (10 s k rd s')
  show ?case using retried_delete [OF 10] by blast
next
  case (11 s k u s')
  from retried_delete [OF 11] obtain i where
    "inv i" "delete_object ops k i = (Ok u, ps_inner s')" by blast
  then show ?case using delete_ok 11(2) by blast
next
  case (12 s p rl s')
  show ?case using retried_read [OF 12(2,1)] list_frame by blast
next
  case (13 s p ks s')
  from retried_read [OF 13(3,1)] list_frame obtain i where
    "inv i" "contents i = contents (ps_inner s)" "list_prefix ops p i = (Ok ks, ps_inner s')"
    by blast
  then show ?case using list_ok [of i p ks "ps_inner s'"] 13(2) by simp
qed

end

context exact_listing
begin

lemma policy_listing:
  "exact_listing (policy_store_ops timer policy ops) (contents \<circ> ps_inner) (inv \<circ> ps_inner) usable"
proof (intro exact_listing.intro policy_contract exact_listing_axioms.intro)
  fix s p ks s'
  assume s: "(inv \<circ> ps_inner) s" "prefix_valid p" "list_prefix (policy_store_ops timer policy ops) p s = (Ok ks, s')"
  then have run: "policy_run timer policy ListPrefix (list_prefix ops p) s = (Ok ks, s')" "inv (ps_inner s)"
    by (simp_all add: policy_store_ops_def)
  from retried_read [OF run] list_frame obtain i where
    "inv i" "contents i = contents (ps_inner s)" "list_prefix ops p i = (Ok ks, ps_inner s')"
    by blast
  then show "distinct ks \<and> set ks = {k. usable k \<and> (contents \<circ> ps_inner) s k \<noteq> None \<and> prefix_contains p k}"
    using list_exact [of i p ks "ps_inner s'"] s(2) by simp
qed

end

text \<open>The stores the program builds from these parts.\<close>

definition retried_fake_ops :: "fake_store policy_state store_ops" where
  "retried_fake_ops =
     policy_store_ops (\<lambda>n. if n = 0 then ElapsesAfter else Completes) storage_policy_default
       fake_store_ops"

interpretation retried_fake: exact_listing retried_fake_ops "bt_get \<circ> ps_inner" "bt_wf \<circ> ps_inner"
  "\<lambda>_. True"
  unfolding retried_fake_ops_def by (rule fake.policy_listing)

section \<open>Bounds of the retry loop\<close>

lemma next_backoff_bounds:
  assumes "b \<le> m" and "m \<le> duration_max"
  shows "b \<le> next_backoff b m" and "next_backoff b m \<le> m"
  using assms by (auto simp: next_backoff_def Let_def min_def)

lemma timed_attempt_counts:
  "timed_attempt timer policy operation attempt s = (r, s') \<Longrightarrow>
     ps_attempts s' = Suc (ps_attempts s) \<and> ps_sleeps s' = ps_sleeps s"
  by (auto simp: timed_attempt_def Let_def split: timer_outcome.splits prod.splits)

lemma run_loop_bounds:
  assumes "run_loop timer policy operation attempt left bo s = (r, s')"
    and "bo \<le> max_backoff policy" and "max_backoff policy \<le> duration_max"
  shows "\<exists>sl. ps_sleeps s' = ps_sleeps s @ sl \<and> length sl \<le> left \<and>
    ps_attempts s' = ps_attempts s + Suc (length sl) \<and> sorted sl \<and>
    (\<forall>d \<in> set sl. bo \<le> d \<and> d \<le> max_backoff policy) \<and>
    (\<forall>e. r = Err e \<longrightarrow> is_retryable e \<longrightarrow> length sl = left)"
  using assms(1,2)
proof (induction left arbitrary: bo s)
  case 0
  obtain d s1 where att: "timed_attempt timer policy operation attempt s = (d, s1)" by fastforce
  then have "r = d \<and> s' = s1"
    using "0.prems"(1) by (auto simp: run_loop.simps split: sum.splits)
  then show ?case using timed_attempt_counts [OF att] by simp
next
  case (Suc left)
  obtain d s1 where att: "timed_attempt timer policy operation attempt s = (d, s1)" by fastforce
  note counts = timed_attempt_counts [OF att]
  show ?case
  proof (cases "\<exists>e. d = Err e \<and> is_retryable e")
    case True
    then obtain e where e: "d = Err e" "is_retryable e" by blast
    let ?bo = "next_backoff bo (max_backoff policy)"
    have "run_loop timer policy operation attempt left ?bo (s1\<lparr>ps_sleeps := ps_sleeps s1 @ [bo]\<rparr>) = (r, s')"
      using Suc.prems(1) att e by (subst (asm) run_loop.simps) simp
    from Suc.IH [OF this next_backoff_bounds(2) [OF Suc.prems(2) assms(3)]] counts
    obtain sl where sl: "ps_sleeps s' = ps_sleeps s @ [bo] @ sl" "length sl \<le> left"
      "ps_attempts s' = Suc (ps_attempts s) + Suc (length sl)" "sorted sl"
      "\<forall>d \<in> set sl. ?bo \<le> d \<and> d \<le> max_backoff policy"
      "\<forall>e. r = Err e \<longrightarrow> is_retryable e \<longrightarrow> length sl = left" by auto
    have "\<forall>d \<in> set sl. bo \<le> d"
      using sl(5) next_backoff_bounds(1) [OF Suc.prems(2) assms(3)] by fastforce
    then show ?thesis using sl Suc.prems(2) by (intro exI [of _ "bo # sl"]) simp
  next
    case False
    then have "r = d \<and> s' = s1"
      using Suc.prems(1) att by (subst (asm) run_loop.simps) (auto split: sum.splits)
    then show ?thesis using False counts by simp
  qed
qed

section \<open>Properties\<close>

text \<open>
  C31: an accepted object key names a path of plain segments below the store's root: no root,
  no \<open>.\<close>, no \<open>..\<close> component, so it cannot leave the root; and two accepted keys that name the
  same path are the same key.
\<close>

theorem object_keys_stay_below_root:
  assumes "object_key_new v = Ok k" and "object_key_new v' = Ok k'"
  shows "key_relative_path k \<noteq> [] \<and> (\<forall>c \<in> set (key_relative_path k). is_normal c) \<and>
    (key_relative_path k = key_relative_path k' \<longleftrightarrow> k = k')"
proof -
  have "key_valid k" and "key_valid k'" using assms object_key_new_valid by blast+
  then show ?thesis using key_relative_path_inj [of k k']
    by (auto simp: key_relative_path_valid is_normal_iff)
qed

theorem object_keys_stay_below_root_witness:
  "key_relative_path (ObjectKey ''a/b'') \<noteq> key_relative_path (ObjectKey ''a/c'')"
  using object_keys_stay_below_root [of "''a/b''" "ObjectKey ''a/b''" "''a/c''" "ObjectKey ''a/c''"]
  by (simp add: object_key_new_Ok segment_ok_def key_byte_ok_def is_ascii_alphanumeric_def)

text \<open>
  C29: the retry wrapper makes at most \<open>max_attempts\<close> attempts. Between them it sleeps, each
  time at least as long as before, between the initial and the maximal backoff; an error that it
  could retry is returned only when every attempt is used up.
\<close>

theorem retries_bounded:
  assumes "storage_policy_new attempts op_timeout initial_bo max_bo concurrency = Ok policy"
    and "max_bo \<le> duration_max" and "policy_run timer policy operation attempt s = (r, s')"
  shows "\<exists>sl. ps_sleeps s' = ps_sleeps s @ sl \<and> ps_attempts s' = ps_attempts s + Suc (length sl) \<and>
    length sl < attempts \<and> sorted sl \<and> (\<forall>d \<in> set sl. initial_bo \<le> d \<and> d \<le> max_bo) \<and>
    (\<forall>e. r = Err e \<longrightarrow> is_retryable e \<longrightarrow> Suc (length sl) = attempts)"
proof -
  have policy: "initial_backoff policy \<le> max_backoff policy" "max_backoff policy = max_bo"
    "initial_backoff policy = initial_bo" "max_attempts policy = attempts" "attempts \<noteq> 0"
    using assms(1) by (auto simp: storage_policy_new_def split: if_splits)
  have "max_backoff policy \<le> duration_max" using assms(2) policy by simp
  from run_loop_bounds [OF assms(3) [unfolded policy_run_def] policy(1) this] policy
  show ?thesis by (elim exE) (intro exI, auto)
qed

theorem retries_bounded_witness:
  "\<exists>sl. ps_sleeps (snd (policy_run (\<lambda>_. Completes) storage_policy_default Get
       (\<lambda>s. (Err (StorageIo ''get object'' (IoError OtherKind ''reset'')) :: storage_error + bytes, s))
       \<lparr>ps_inner = (), ps_attempts = 0, ps_sleeps = []\<rparr>)) = sl \<and> length sl < 4"
  using retries_bounded [of 4 "60 * 10 ^ 9" "100 * 10 ^ 6" "2 * 10 ^ 9" 16 storage_policy_default
      "\<lambda>_. Completes" Get "\<lambda>s. (Err (StorageIo ''get object'' (IoError OtherKind ''reset'')) :: storage_error + bytes, s)"
      "\<lparr>ps_inner = (), ps_attempts = 0, ps_sleeps = []\<rparr>"]
  by (cases "policy_run (\<lambda>_. Completes) storage_policy_default Get
       (\<lambda>s. (Err (StorageIo ''get object'' (IoError OtherKind ''reset'')) :: storage_error + bytes, s))
       \<lparr>ps_inner = (), ps_attempts = 0, ps_sleeps = []\<rparr>")
    (fastforce simp: storage_policy_new_def storage_policy_default_def duration_max_def)

text \<open>
  C27: retrying keeps the store contract. Whatever store it wraps, and whenever the timers of
  the attempts fire, the wrapper still never overwrites an object, reports a put as done only when
  the object is there, and answers reads from the objects of the store.
\<close>

theorem retrying_store_keeps_contract:
  assumes "object_store ops contents invar usable"
  shows "object_store (policy_store_ops timer policy ops) (contents \<circ> ps_inner) (invar \<circ> ps_inner) usable"
  using assms by (rule object_store.policy_contract)

theorem retrying_store_keeps_contract_witness:
  "object_store (policy_store_ops (\<lambda>_. ElapsesAfter) storage_policy_default fake_store_ops)
     (bt_get \<circ> ps_inner) (bt_wf \<circ> ps_inner) (\<lambda>_. True)"
  by (rule retrying_store_keeps_contract) (rule fake.object_store_axioms)

end
