(* ===== verification/Ferry_Platform.thy ===== *)
theory Ferry_Platform
  imports Ferry_Errors
begin

text \<open>
  The platform crate: entry kinds, captured metadata and timestamps. The file system is seen
  through \<open>fs_view\<close>, the answers \<open>std::fs\<close> gives for a path; nothing relates two answers, so a
  view also covers a tree that changes under the program. A \<open>SystemTime\<close> is a signed number of
  nanoseconds since the Unix epoch whose seconds fit an \<open>i64\<close> (\<open>system_time_valid\<close>).
\<close>

section \<open>Times\<close>

type_synonym system_time = int

definition system_time_valid :: "system_time \<Rightarrow> bool" where
  "system_time_valid t \<longleftrightarrow> - (2 ^ 63) \<le> t div 10 ^ 9 \<and> t div 10 ^ 9 < 2 ^ 63"

definition system_time_checked_add :: "system_time \<Rightarrow> duration \<Rightarrow> system_time option" where
  "system_time_checked_add t d = (if system_time_valid (t + int d) then Some (t + int d) else None)"

definition system_time_checked_sub :: "system_time \<Rightarrow> duration \<Rightarrow> system_time option" where
  "system_time_checked_sub t d = (if system_time_valid (t - int d) then Some (t - int d) else None)"

record timestamp =
  seconds :: "64 word"
  nanoseconds :: u32

text \<open>\<open>impl From<SystemTime> for Timestamp\<close>; the \<open>i64\<close> negation wraps at its minimum.\<close>

definition timestamp_from :: "system_time \<Rightarrow> timestamp" where
  "timestamp_from t =
     (if 0 \<le> t then
        \<lparr>seconds = word_of_int (t div 10 ^ 9), nanoseconds = word_of_int (t mod 10 ^ 9)\<rparr>
      else
        let secs = (- t) div 10 ^ 9; subsec = (- t) mod 10 ^ 9 in
        if subsec = 0 then \<lparr>seconds = - word_of_int secs, nanoseconds = 0\<rparr>
        else \<lparr>seconds = - word_of_int secs - 1, nanoseconds = 1000000000 - word_of_int subsec\<rparr>)"

text \<open>\<open>system_time_from_timestamp\<close> of the core crate.\<close>

definition system_time_from_timestamp :: "timestamp \<Rightarrow> system_time option" where
  "system_time_from_timestamp ts =
     (if nanoseconds ts \<ge> 1000000000 then None
      else if 0 \<le> sint (seconds ts) then
        Option.bind (system_time_checked_add 0 (unat (seconds ts) * 10 ^ 9))
          (\<lambda>t. system_time_checked_add t (unat (nanoseconds ts)))
      else
        Option.bind (system_time_checked_sub 0 (nat \<bar>sint (seconds ts)\<bar> * 10 ^ 9))
          (\<lambda>t. system_time_checked_add t (unat (nanoseconds ts))))"

section \<open>Metadata\<close>

datatype entry_kind = RegularFile | Directory | Symlink | OtherEntry

datatype 'a metadata_value = Captured 'a | Unsupported | Denied string

record unix_metadata =
  mode :: u32
  uid :: u32
  gid :: u32

record entry_metadata =
  entry_kind :: entry_kind
  size_bytes :: "u64 option"
  modified :: "timestamp metadata_value"
  created :: "timestamp metadata_value"
  symlink_target :: "path metadata_value"
  unix :: "unix_metadata option"

datatype file_type = IsFile | IsDir | IsSymlink | IsOther

record fs_metadata =
  fm_type :: file_type
  fm_len :: u64
  fm_modified :: "io_error + system_time"
  fm_created :: "io_error + system_time"
  fm_unix :: unix_metadata

record fs_view =
  fs_symlink_metadata :: "path \<Rightarrow> io_error + fs_metadata"
  fs_read_link :: "path \<Rightarrow> io_error + path"
  fs_read_dir :: "path \<Rightarrow> io_error + (io_error + string) list"
  fs_read :: "path \<Rightarrow> io_error + bytes"

definition metadata_value_from_time :: "io_error + system_time \<Rightarrow> timestamp metadata_value" where
  "metadata_value_from_time r =
     (case r of
        Ok time \<Rightarrow> Captured (timestamp_from time)
      | Err error \<Rightarrow>
          if io_kind error = PermissionDenied then Denied (io_message error) else Unsupported)"

definition unix_metadata_of :: "fs_metadata \<Rightarrow> unix_metadata option" where
  "unix_metadata_of md = Some (fm_unix md)"

definition entry_kind_of :: "file_type \<Rightarrow> entry_kind" where
  "entry_kind_of file_type =
     (case file_type of IsFile \<Rightarrow> RegularFile | IsDir \<Rightarrow> Directory | IsSymlink \<Rightarrow> Symlink
      | IsOther \<Rightarrow> OtherEntry)"

definition capture_metadata :: "fs_view \<Rightarrow> path \<Rightarrow> platform_error + entry_metadata" where
  "capture_metadata V path =
     bindR (map_err (MetadataRead path) (fs_symlink_metadata V path)) (\<lambda>md.
     let knd = entry_kind_of (fm_type md) in
     bindR
       (if knd = Symlink then
          (case fs_read_link V path of
             Ok target \<Rightarrow> Ok (Captured target)
           | Err source \<Rightarrow>
               if io_kind source = PermissionDenied then Ok (Denied (io_message source))
               else Err (SymlinkTargetRead path source))
        else Ok Unsupported)
       (\<lambda>target. Ok
         \<lparr>entry_kind = knd,
          size_bytes = (if fm_type md = IsFile then Some (fm_len md) else None),
          modified = metadata_value_from_time (fm_modified md),
          created = metadata_value_from_time (fm_created md),
          symlink_target = target,
          unix = unix_metadata_of md\<rparr>))"

section \<open>Facts\<close>

lemma capture_metadata_kind:
  "capture_metadata V p = Ok m \<Longrightarrow>
    \<exists>md. fs_symlink_metadata V p = Ok md \<and> entry_kind m = entry_kind_of (fm_type md) \<and>
      size_bytes m = (if fm_type md = IsFile then Some (fm_len md) else None)"
  by (auto simp: capture_metadata_def result_simps Let_def)

lemma capture_metadata_size:
  "capture_metadata V p = Ok m \<Longrightarrow> size_bytes m \<noteq> None \<longleftrightarrow> entry_kind m = RegularFile"
  by (auto simp: entry_kind_of_def dest!: capture_metadata_kind split: file_type.splits)

lemma sint_word_of_int_64:
  "- (2 ^ 63) \<le> i \<Longrightarrow> i < 2 ^ 63 \<Longrightarrow> sint (word_of_int i :: 64 word) = i"
  by (simp add: sint_sbintrunc' signed_take_bit_int_eq_self)

lemma unat_nonneg_sint:
  fixes w :: "64 word"
  assumes "0 \<le> sint w"
  shows "int (unat w) = sint w"
proof -
  have "sint w < 2 ^ 63" using sint_lt [of w] by simp
  then have "take_bit 64 (sint w) = sint w"
    using assms by (simp add: take_bit_int_eq_self)
  then show ?thesis using uint_sint [of w] by simp
qed

lemma timestamp_from_fields:
  assumes "system_time_valid t"
  shows "sint (seconds (timestamp_from t)) = t div 10 ^ 9"
    and "uint (nanoseconds (timestamp_from t)) = t mod 10 ^ 9"
proof -
  have rng: "- (2 ^ 63) \<le> t div 1000000000" "t div 1000000000 < 2 ^ 63"
    using assms by (simp_all add: system_time_valid_def)
  have sub: "0 \<le> t mod 1000000000" "t mod 1000000000 < 1000000000" by simp_all
  have nat: "uint (word_of_int i :: u32) = i" if "0 \<le> i" "i < 1000000000" for i
    using that by (simp add: uint_word_of_int_eq take_bit_int_eq_self)
  consider (pos) "0 \<le> t" | (neg0) "t < 0" "(- t) mod 1000000000 = 0"
    | (neg) "t < 0" "(- t) mod 1000000000 \<noteq> 0" by linarith
  then have "seconds (timestamp_from t) = word_of_int (t div 1000000000) \<and>
      nanoseconds (timestamp_from t) = word_of_int (t mod 1000000000)"
  proof cases
    case pos
    then show ?thesis by (simp add: timestamp_from_def)
  next
    case neg0
    then have "t mod 1000000000 = 0" "t div 1000000000 = - ((- t) div 1000000000)"
      using zdiv_zminus1_eq_if [of 1000000000 "- t"] zmod_zminus1_eq_if [of "- t" 1000000000]
      by simp_all
    with neg0 show ?thesis by (simp add: timestamp_from_def Let_def)
  next
    case neg
    then have "t mod 1000000000 = 1000000000 - (- t) mod 1000000000"
      "t div 1000000000 = - ((- t) div 1000000000) - 1"
      using zdiv_zminus1_eq_if [of 1000000000 "- t"] zmod_zminus1_eq_if [of "- t" 1000000000]
      by simp_all
    with neg show ?thesis by (simp add: timestamp_from_def Let_def)
  qed
  then show "sint (seconds (timestamp_from t)) = t div 10 ^ 9"
    "uint (nanoseconds (timestamp_from t)) = t mod 10 ^ 9"
    using rng sub by (simp_all add: sint_word_of_int_64 nat)
qed

lemma timestamp_from_inverse:
  assumes "system_time_valid t"
  shows "system_time_from_timestamp (timestamp_from t) = Some t"
proof -
  let ?s = "seconds (timestamp_from t)" and ?n = "nanoseconds (timestamp_from t)"
  have s: "sint ?s = t div 1000000000" and n: "uint ?n = t mod 1000000000"
    using timestamp_from_fields [OF assms] by simp_all
  have rng: "- (2 ^ 63) \<le> sint ?s" "sint ?s < 2 ^ 63"
    using assms s by (simp_all add: system_time_valid_def)
  have n_lt: "\<not> 1000000000 \<le> ?n"
    using n by (simp add: word_le_def not_le)
  have un: "int (unat ?n) = t mod 1000000000" using n by simp
  have t: "sint ?s * 1000000000 + int (unat ?n) = t" using s un by simp
  have whole: "system_time_valid (sint ?s * 1000000000)"
    using rng by (simp add: system_time_valid_def)
  show ?thesis
  proof (cases "0 \<le> sint ?s")
    case True
    then have "int (unat ?s) = sint ?s" by (rule unat_nonneg_sint)
    then have "int (unat ?s * 1000000000) = sint ?s * 1000000000" by simp
    then show ?thesis
      using True n_lt whole t assms
      by (simp add: system_time_from_timestamp_def system_time_checked_add_def)
  next
    case False
    then have "0 - int (nat \<bar>sint ?s\<bar> * 1000000000) = sint ?s * 1000000000" by simp
    then show ?thesis
      using False n_lt whole t assms
      by (simp add: system_time_from_timestamp_def system_time_checked_add_def
          system_time_checked_sub_def)
  qed
qed

section \<open>A concrete file system\<close>

text \<open>The directory \<open>/r\<close> with one regular file \<open>a\<close> of two bytes.\<close>

definition sample_root :: path where
  "sample_root = [RootDir, Normal ''r'']"

definition sample_metadata :: "file_type \<Rightarrow> u64 \<Rightarrow> fs_metadata" where
  "sample_metadata t n =
     \<lparr>fm_type = t, fm_len = n, fm_modified = Ok 5, fm_created = Err (IoError OtherKind ''no btime''),
      fm_unix = \<lparr>mode = 0, uid = 0, gid = 0\<rparr>\<rparr>"

definition sample_fs :: fs_view where
  "sample_fs =
     \<lparr>fs_symlink_metadata = (\<lambda>p.
        if p = sample_root then Ok (sample_metadata IsDir 0)
        else if p = sample_root @ [Normal ''a''] then Ok (sample_metadata IsFile 2)
        else Err (IoError NotFound ''no such file'')),
      fs_read_link = (\<lambda>p. Err (IoError NotFound ''no such file'')),
      fs_read_dir = (\<lambda>p. if p = sample_root then Ok [Ok ''a''] else Err (IoError NotFound ''no such file'')),
      fs_read = (\<lambda>p. if p = sample_root @ [Normal ''a''] then Ok [1, 2]
        else Err (IoError NotFound ''no such file''))\<rparr>"

section \<open>Properties\<close>

text \<open>
  C36: a timestamp taken from a system time, before or after 1970, gives the same system time
  back on restore, to the nanosecond.
\<close>

theorem timestamp_round_trip:
  assumes "system_time_valid t"
  shows "system_time_from_timestamp (timestamp_from t) = Some t"
  using assms by (rule timestamp_from_inverse)

theorem timestamp_round_trip_witness:
  "system_time_from_timestamp (timestamp_from (- 1500000000)) = Some (- 1500000000)"
  by (rule timestamp_round_trip) (simp add: system_time_valid_def)

end
