(* ===== verification/Ferry_Walker.thy ===== *)
theory Ferry_Walker
  imports Ferry_Paths Ferry_Platform
begin

text \<open>
  Exclusion rules and the source walk of \<open>crates/fileferry-core/src/lib.rs\<close>: \<open>ExclusionRule\<close>,
  \<open>path_segments_match\<close>, \<open>wildcard_match\<close> and \<open>SourceWalker::walk\<close>. \<open>glob\<close> is the meaning of a
  wildcard pattern and \<open>wildcard_match\<close> is proved sound for it, and complete where it is. The
  walk is a breadth-first loop over a view of the file system; \<open>None\<close> stands for a walk that
  does not return.
\<close>

section \<open>Exclusion rules\<close>

record exclusion_rule =
  er_pattern :: string
  er_segments :: "string list"
  er_directory_prefix :: bool

definition trim_matches :: "char \<Rightarrow> string \<Rightarrow> string" where
  "trim_matches c s = rev (dropWhile (\<lambda>x. x = c) (rev (dropWhile (\<lambda>x. x = c) s)))"

definition exclusion_rule_new :: "string \<Rightarrow> exclusion_rule" where
  "exclusion_rule_new pattern =
     (let normalized = map (\<lambda>c. if c = CHR 0x5C then CHR ''/'' else c) (trim_matches CHR ''/'' pattern) in
      \<lparr> er_pattern = pattern,
        er_segments = filter (\<lambda>segment. segment \<noteq> []) (split_on CHR ''/'' normalized),
        er_directory_prefix = suffix ''/'' pattern \<rparr>)"

fun component_str :: "component \<Rightarrow> string" where
  "component_str RootDir = ''/''"
| "component_str CurDir = ''.''"
| "component_str ParentDir = ''..''"
| "component_str (Normal s) = s"

text \<open>\<open>to_string_lossy\<close> is the identity on the UTF-8 strings of the model.\<close>

definition path_segments :: "path \<Rightarrow> string list" where
  "path_segments p = map component_str p"

fun match_parts :: "bool \<Rightarrow> string list \<Rightarrow> string \<Rightarrow> bool" where
  "match_parts ends_with_wildcard [] remaining = (ends_with_wildcard \<or> remaining = [])"
| "match_parts ends_with_wildcard (part # parts) remaining =
     (if part = [] then match_parts ends_with_wildcard parts remaining
      else case find_sub part remaining of
        Some index \<Rightarrow>
          (let remaining' = drop (index + length part) remaining in
           if parts = [] \<and> \<not> ends_with_wildcard then remaining' = []
           else match_parts ends_with_wildcard parts remaining')
      | None \<Rightarrow> False)"

definition wildcard_match :: "string \<Rightarrow> string \<Rightarrow> bool" where
  "wildcard_match pattern value =
     (if pattern = ''*'' then True
      else
        let parts = split_on CHR ''*'' pattern;
            starts_with_wildcard = prefix ''*'' pattern;
            ends_with_wildcard = suffix ''*'' pattern;
            first = hd parts
        in if first \<noteq> [] then
             (if \<not> prefix first value then False
              else match_parts ends_with_wildcard (tl parts) (drop (length first) value))
           else if \<not> starts_with_wildcard then False
           else match_parts ends_with_wildcard (tl parts) value)"

function path_segments_match :: "string list \<Rightarrow> string list \<Rightarrow> bool" where
  "path_segments_match [] [] = True"
| "path_segments_match [] (_ # _) = False"
| "path_segments_match (p # ps) path =
     (if p = ''**'' then
        path_segments_match ps path \<or>
        (case path of [] \<Rightarrow> False | _ # tail \<Rightarrow> path_segments_match (p # ps) tail)
      else case path of
        [] \<Rightarrow> False
      | s # tail \<Rightarrow> wildcard_match p s \<and> path_segments_match ps tail)"
  by pat_completeness auto
termination
  by (relation "measure (\<lambda>(p, s). length p + length s)") auto

definition exclusion_rule_matches :: "exclusion_rule \<Rightarrow> path \<Rightarrow> bool" where
  "exclusion_rule_matches rule relative_path =
     (let segments = path_segments relative_path in
      if segments = [] \<or> er_segments rule = [] then False
      else if er_directory_prefix rule \<and> length segments < length (er_segments rule) then False
      else if CHR ''/'' \<notin> set (er_pattern rule) \<and> CHR 0x5C \<notin> set (er_pattern rule) then
        list_ex (\<lambda>segment. wildcard_match (hd (er_segments rule)) segment) segments
      else if er_directory_prefix rule then
        path_segments_match (er_segments rule) (take (length (er_segments rule)) segments)
      else path_segments_match (er_segments rule) segments)"

section \<open>The walk\<close>

record source_entry =
  se_root :: path
  se_path :: path
  se_relative_path :: path
  se_metadata :: entry_metadata

definition is_excluded :: "exclusion_rule list \<Rightarrow> path \<Rightarrow> bool" where
  "is_excluded rules relative_path \<longleftrightarrow>
     list_ex (\<lambda>rule. exclusion_rule_matches rule relative_path) rules"

text \<open>\<open>DirEntry::path\<close> joins the directory with the name, one normal component.\<close>

definition read_sorted_children :: "fs_view \<Rightarrow> path \<Rightarrow> core_error + path list" where
  "read_sorted_children V directory =
     bindR (map_err (DirectoryRead directory) (fs_read_dir V directory)) (\<lambda>read_dir.
     bindR (map_result (\<lambda>entry. bindR (map_err (DirectoryEntryRead directory) entry)
              (\<lambda>name. Ok (path_join directory [Normal name]))) read_dir) (\<lambda>children.
     Ok (sort children)))"

text \<open>The inner loop; \<open>None\<close> is the panic of \<open>expect\<close>.\<close>

fun walk_children ::
  "exclusion_rule list \<Rightarrow> fs_view \<Rightarrow> path \<Rightarrow> path list \<Rightarrow> path list \<Rightarrow> source_entry list \<Rightarrow>
   (core_error + path list \<times> source_entry list) option" where
  "walk_children rules V root [] pending entries = Some (Ok (pending, entries))"
| "walk_children rules V root (child # children) pending entries =
     (case path_strip_prefix child root of
        None \<Rightarrow> None
      | Some relative_path \<Rightarrow>
          if is_excluded rules relative_path then walk_children rules V root children pending entries
          else case map_err (MetadataCapture child) (capture_metadata V child) of
            Err e \<Rightarrow> Some (Err e)
          | Ok metadata \<Rightarrow>
              walk_children rules V root children
                (if entry_kind metadata = Directory then pending @ [child] else pending)
                (entries @ [\<lparr>se_root = root, se_path = child, se_relative_path = relative_path,
                   se_metadata = metadata\<rparr>]))"

partial_function (option) walk_pending ::
  "exclusion_rule list \<Rightarrow> fs_view \<Rightarrow> path \<Rightarrow> path list \<Rightarrow> source_entry list \<Rightarrow>
   (core_error + source_entry list) option" where
  "walk_pending rules V root pending entries =
     (case pending of
        [] \<Rightarrow> Some (Ok entries)
      | directory # rest \<Rightarrow>
          (case read_sorted_children V directory of
             Err e \<Rightarrow> Some (Err e)
           | Ok children \<Rightarrow>
               (case walk_children rules V root children rest entries of
                  None \<Rightarrow> None
                | Some (Err e) \<Rightarrow> Some (Err e)
                | Some (Ok (pending', entries')) \<Rightarrow> walk_pending rules V root pending' entries')))"

definition walk_root ::
  "exclusion_rule list \<Rightarrow> fs_view \<Rightarrow> path \<Rightarrow> source_entry list \<Rightarrow>
   (core_error + source_entry list) option" where
  "walk_root rules V root entries =
     (if \<not> is_absolute root then Some (Err (SourceRootNotAbsolute root))
      else case map_err (SourceRootRead root) (capture_metadata V root) of
        Err e \<Rightarrow> Some (Err e)
      | Ok root_metadata \<Rightarrow>
          let entries = entries @ [\<lparr>se_root = root, se_path = root, se_relative_path = [],
                se_metadata = root_metadata\<rparr>] in
          if entry_kind root_metadata \<noteq> Directory then Some (Ok entries)
          else walk_pending rules V root [root] entries)"

fun walk_roots ::
  "exclusion_rule list \<Rightarrow> fs_view \<Rightarrow> path list \<Rightarrow> source_entry list \<Rightarrow>
   (core_error + source_entry list) option" where
  "walk_roots rules V [] entries = Some (Ok entries)"
| "walk_roots rules V (root # roots) entries =
     (case walk_root rules V root entries of
        None \<Rightarrow> None
      | Some (Err e) \<Rightarrow> Some (Err e)
      | Some (Ok entries') \<Rightarrow> walk_roots rules V roots entries')"

definition walk ::
  "exclusion_rule list \<Rightarrow> fs_view \<Rightarrow> path list \<Rightarrow> (core_error + source_entry list) option" where
  "walk rules V roots = walk_roots rules V roots []"

section \<open>The meaning of a wildcard pattern\<close>

text \<open>A star stands for any string, every other character for itself.\<close>

fun glob :: "string \<Rightarrow> string \<Rightarrow> bool" where
  "glob [] v = (v = [])"
| "glob (c # p) v =
     (if c = CHR ''*'' then list_ex (\<lambda>n. glob p (drop n v)) [0..<Suc (length v)]
      else case v of [] \<Rightarrow> False | d # v' \<Rightarrow> c = d \<and> glob p v')"

lemma glob_star: "glob (CHR ''*'' # p) v \<longleftrightarrow> (\<exists>x y. v = x @ y \<and> glob p y)"
proof
  assume "glob (CHR ''*'' # p) v"
  then have "\<exists>n. glob p (drop n v)" by (simp add: list_ex_iff del: upt_Suc) blast
  then obtain n where "glob p (drop n v)" ..
  then show "\<exists>x y. v = x @ y \<and> glob p y" by (metis append_take_drop_id)
next
  assume "\<exists>x y. v = x @ y \<and> glob p y"
  then obtain x y where "v = x @ y" "glob p y" by blast
  then have "length x \<in> set [0..<Suc (length v)]" "glob p (drop (length x) v)" by auto
  then show "glob (CHR ''*'' # p) v" by (auto simp: list_ex_iff simp del: upt_Suc)
qed

lemma glob_char: "c \<noteq> CHR ''*'' \<Longrightarrow> glob (c # p) v \<longleftrightarrow> (\<exists>y. v = c # y \<and> glob p y)"
  by (cases v) auto

declare glob.simps(2) [simp del]

lemma glob_literal:
  "CHR ''*'' \<notin> set q \<Longrightarrow> glob (q @ p) v \<longleftrightarrow> (\<exists>y. v = q @ y \<and> glob p y)"
proof (induction q arbitrary: v)
  case (Cons c q)
  then show ?case by (auto simp: glob_char)
qed simp

text \<open>\<open>after_star ps v\<close>: the parts \<open>ps\<close>, each after a star, match \<open>v\<close>.\<close>

definition after_star :: "string list \<Rightarrow> string \<Rightarrow> bool" where
  "after_star ps v \<longleftrightarrow> glob (CHR ''*'' # join_with CHR ''*'' ps) v"

lemma after_star_single:
  "CHR ''*'' \<notin> set q \<Longrightarrow> after_star [q] v \<longleftrightarrow> (\<exists>x. v = x @ q)"
  by (simp add: after_star_def glob_star glob_literal [of q "[]", simplified])

lemma after_star_Cons:
  assumes "CHR ''*'' \<notin> set q" and "ps \<noteq> []"
  shows "after_star (q # ps) v \<longleftrightarrow> (\<exists>x y. v = x @ q @ y \<and> after_star ps y)"
  unfolding after_star_def join_with_Cons [OF assms(2)]
    glob_star [of "q @ CHR ''*'' # join_with CHR ''*'' ps"] glob_literal [OF assms(1)] by blast

lemma after_star_weaken: "after_star ps v \<Longrightarrow> after_star ps (x @ v)"
  unfolding after_star_def glob_star by (metis append.assoc)

lemma match_parts_sound:
  assumes "match_parts ends ps v" and "ps \<noteq> []" and "\<forall>q \<in> set ps. CHR ''*'' \<notin> set q"
    and "ends \<longleftrightarrow> last ps = []"
  shows "after_star ps v"
  using assms
proof (induction ends ps v rule: match_parts.induct)
  case (2 ends q ps v)
  show ?case
  proof (cases "q = []")
    case True
    then show ?thesis
    proof (cases "ps = []")
      case False
      then have "after_star ps v" using 2 True by simp
      then show ?thesis using True False after_star_Cons [of "[]" ps v] by auto
    qed (simp add: after_star_single)
  next
    case False
    then obtain i where i: "find_sub q v = Some i" using "2.prems"(1) by (auto split: option.splits)
    let ?r = "drop (i + length q) v"
    have v: "v = take i v @ q @ ?r" using find_sub_split [OF i] .
    show ?thesis
    proof (cases "ps = []")
      case True
      then have "?r = []" using "2.prems"(1,4) False i by (simp add: Let_def)
      then show ?thesis using True v "2.prems"(3) by (metis after_star_single append_Nil2 list.set_intros(1))
    next
      case nonempty: False
      then have "after_star ps ?r" using 2 False i by (simp add: Let_def)
      then show ?thesis using v nonempty "2.prems"(3) after_star_Cons [of q ps v] by auto
    qed
  qed
qed simp

lemma match_parts_complete:
  assumes "after_star ps v" and "ps \<noteq> []" and "\<forall>q \<in> set ps. CHR ''*'' \<notin> set q"
    and "last ps = []"
  shows "match_parts True ps v"
  using assms
proof (induction ps arbitrary: v)
  case (Cons q ps)
  show ?case
  proof (cases "ps = []")
    case nonempty: False
    then obtain x y where xy: "v = x @ q @ y" "after_star ps y"
      using Cons.prems after_star_Cons [of q ps v] by auto
    show ?thesis
    proof (cases "q = []")
      case True
      then have "after_star ps v" using xy after_star_weaken by simp
      then show ?thesis using True Cons nonempty by simp
    next
      case False
      obtain i where i: "find_sub q v = Some i" "i \<le> length x"
        using find_sub_least [OF xy(1)] by blast
      have "drop (i + length q) v = drop (i + length q) (x @ q) @ y"
        using i(2) by (simp add: xy(1))
      then have "after_star ps (drop (i + length q) v)"
        using xy(2) after_star_weaken by metis
      then show ?thesis using False i Cons nonempty by (simp add: Let_def)
    qed
  qed (use Cons.prems in simp)
qed simp

lemma suffix_last_part: "suffix [c] s \<longleftrightarrow> c \<in> set s \<and> last (split_on c s) = []"
proof (induction s)
  case (Cons x s)
  show ?case
  proof (cases "s = []")
    case False
    then have "suffix [c] (x # s) \<longleftrightarrow> suffix [c] s" by (cases s) (auto simp: suffix_Cons)
    moreover have "last (split_on c (x # s)) = [] \<and> c \<in> set (x # s) \<longleftrightarrow> last (split_on c s) = [] \<and> c \<in> set s"
      if "s \<noteq> []"
    proof (cases "c \<in> set s")
      case True
      then have "tl (split_on c s) \<noteq> []"
        by (metis append_Nil2 in_set_conv_decomp_first join_with.simps(2) list.exhaust_sel
            list.sel(3) not_Cons_self2 split_on_append split_on_not_Nil)
      then show ?thesis using True by (auto simp: last_tl split_on_Cons simp del: split_on.simps(2))
    next
      case False
      then show ?thesis using that by (auto simp: split_on_free)
    qed
    ultimately show ?thesis using Cons.IH False by auto
  qed (auto simp: suffix_Cons)
qed simp

lemma split_on_structure:
  obtains q ps where "split_on c s = q # ps" and "c \<notin> set q" and "\<forall>p \<in> set ps. c \<notin> set p"
    and "s = (if ps = [] then q else q @ c # join_with c ps)"
proof -
  obtain q ps where eq: "split_on c s = q # ps" by (metis list.exhaust split_on_not_Nil)
  have "s = join_with c (q # ps)" using eq join_split by metis
  then have "s = (if ps = [] then q else q @ c # join_with c ps)"
    by (simp add: join_with_Cons)
  with eq show thesis using that split_on_parts [of _ c s] by auto
qed

lemma wildcard_match_glob:
  assumes "wildcard_match p v"
  shows "glob p v"
proof (cases "p = ''*''")
  case True
  then show ?thesis using glob_star [of "[]" v] by simp
next
  case False
  obtain q ps where split: "split_on CHR ''*'' p = q # ps" and clean: "CHR ''*'' \<notin> set q"
      "\<forall>r \<in> set ps. CHR ''*'' \<notin> set r"
    and p: "p = (if ps = [] then q else q @ CHR ''*'' # join_with CHR ''*'' ps)"
    by (rule split_on_structure)
  let ?ends = "suffix ''*'' p"
  obtain r where r: "v = q @ r" and parts: "match_parts ?ends ps r"
  proof (cases "q = []")
    case True
    then show ?thesis using that [of v] assms False split
      by (auto simp: wildcard_match_def Let_def split: if_splits)
  next
    case nonempty: False
    then have "prefix q v" "match_parts ?ends ps (drop (length q) v)"
      using assms False split by (auto simp: wildcard_match_def Let_def split: if_splits)
    then show ?thesis using that by (auto simp: prefix_def)
  qed
  have last_part: "?ends \<longleftrightarrow> last ps = []" if "ps \<noteq> []"
  proof -
    have "CHR ''*'' \<in> set p" using p that by simp
    then show ?thesis using that suffix_last_part [of "CHR ''*''" p] by (simp add: split)
  qed
  show ?thesis
  proof (cases "ps = []")
    case True
    then have "\<not> ?ends" using clean p suffix_last_part [of "CHR ''*''" p] by simp
    then have "r = []" using parts True by simp
    then show ?thesis using True p r glob_literal [OF clean(1), of "[]" v] by simp
  next
    case nonempty: False
    have "after_star ps r"
      using match_parts_sound [OF parts nonempty clean(2) last_part [OF nonempty]] .
    then show ?thesis
      using nonempty p r glob_literal [OF clean(1), of "CHR ''*'' # join_with CHR ''*'' ps" v]
      by (auto simp: after_star_def)
  qed
qed

lemma glob_wildcard_match:
  assumes "glob p v" and "p \<noteq> []" and "CHR ''*'' \<notin> set p \<or> suffix ''*'' p"
  shows "wildcard_match p v"
proof -
  obtain q ps where split: "split_on CHR ''*'' p = q # ps" and clean: "CHR ''*'' \<notin> set q"
      "\<forall>r \<in> set ps. CHR ''*'' \<notin> set r"
    and p: "p = (if ps = [] then q else q @ CHR ''*'' # join_with CHR ''*'' ps)"
    by (rule split_on_structure)
  show ?thesis
  proof (cases "ps = []")
    case True
    then have "v = q" using assms(1) p glob_literal [OF clean(1), of "[]" v] by simp
    then show ?thesis using True assms(2) p split
      by (auto simp: wildcard_match_def Let_def)
  next
    case nonempty: False
    then have ends: "suffix ''*'' p" using assms(3) p by auto
    then have last: "last ps = []" using suffix_last_part [of "CHR ''*''" p] nonempty by (simp add: split)
    obtain r where r: "v = q @ r" and "after_star ps r"
      using assms(1) nonempty p glob_literal [OF clean(1), of "CHR ''*'' # join_with CHR ''*'' ps" v]
      by (auto simp: after_star_def)
    then have "match_parts True ps r" using nonempty clean(2) last by (simp add: match_parts_complete)
    then show ?thesis using ends split p r nonempty
      by (auto simp: wildcard_match_def Let_def)
  qed
qed

section \<open>What the walk returns\<close>

text \<open>
  The walk of one root keeps three facts about the entries found so far: each describes the
  path it names (\<open>entry_ok\<close>), the parent of each non-root entry is a directory that was entered
  before, and a directory that is no longer pending has all its children accounted for.
\<close>

definition entry_ok :: "exclusion_rule list \<Rightarrow> fs_view \<Rightarrow> source_entry \<Rightarrow> bool" where
  "entry_ok rules V e \<longleftrightarrow>
     se_path e = se_root e @ se_relative_path e \<and> is_absolute (se_root e) \<and>
     (\<forall>c \<in> set (se_relative_path e). is_normal c) \<and>
     (se_relative_path e \<noteq> [] \<longrightarrow> \<not> is_excluded rules (se_relative_path e)) \<and>
     capture_metadata V (se_path e) = Ok (se_metadata e)"

definition children_accounted ::
  "exclusion_rule list \<Rightarrow> fs_view \<Rightarrow> source_entry list \<Rightarrow> source_entry \<Rightarrow> bool" where
  "children_accounted rules V es d \<longleftrightarrow>
     (\<exists>names. fs_read_dir V (se_path d) = Ok names \<and>
       (\<forall>entry \<in> set names. \<exists>name. entry = Ok name \<and>
          (is_excluded rules (se_relative_path d @ [Normal name]) \<or>
           (\<exists>e \<in> set es. se_root e = se_root d \<and> se_relative_path e = se_relative_path d @ [Normal name]))))"

definition has_parent :: "source_entry list \<Rightarrow> source_entry \<Rightarrow> bool" where
  "has_parent es e \<longleftrightarrow> se_relative_path e = [] \<or>
     (\<exists>d \<in> set es. se_root d = se_root e \<and> se_relative_path d = butlast (se_relative_path e) \<and>
        entry_kind (se_metadata d) = Directory)"

definition parents_first :: "source_entry list \<Rightarrow> bool" where
  "parents_first es \<longleftrightarrow> (\<forall>i < length es. has_parent (take i es) (es ! i))"

lemma parents_first_Nil [simp]: "parents_first []"
  by (simp add: parents_first_def)

lemma parents_first_snoc [simp]: "parents_first (es @ [e]) \<longleftrightarrow> parents_first es \<and> has_parent es e"
  by (auto simp: parents_first_def nth_append less_Suc_eq)

lemma children_accounted_mono:
  "children_accounted rules V es d \<Longrightarrow> set es \<subseteq> set es' \<Longrightarrow> children_accounted rules V es' d"
  unfolding children_accounted_def by (meson subsetD)

lemma read_sorted_children_Ok:
  assumes "read_sorted_children V dir = Ok children"
  shows "\<exists>names. fs_read_dir V dir = Ok (map Ok names) \<and> set children = (\<lambda>n. dir @ [Normal n]) ` set names"
proof -
  obtain entries cs where dirs: "fs_read_dir V dir = Ok entries" and sorted: "children = sort cs"
    and all: "list_all2 (\<lambda>e c. \<exists>n. e = Ok n \<and> dir @ [Normal n] = c) entries cs"
    using assms unfolding read_sorted_children_def
    by (auto simp: result_simps map_result_Ok_iff)
  from all have "\<exists>names. entries = map Ok names \<and> cs = map (\<lambda>n. dir @ [Normal n]) names"
    by (induction rule: list_all2_induct) (auto intro: exI [of _ "_ # _"])
  then show ?thesis using dirs sorted by auto
qed

text \<open>What one run of the inner loop adds.\<close>

lemma walk_children_adds:
  assumes "walk_children rules V root children pending es = Some (Ok (pending', es'))"
    and "is_absolute root" and "\<forall>c \<in> set children. \<exists>rel. c = root @ rel \<and> rel \<noteq> [] \<and> (\<forall>x \<in> set rel. is_normal x)"
  shows "\<exists>new. es' = es @ new \<and>
    pending' = pending @ map se_path (filter (\<lambda>e. entry_kind (se_metadata e) = Directory) new) \<and>
    subseq (map se_path new) children \<and>
    (\<forall>e \<in> set new. se_root e = root \<and> se_path e \<in> set children \<and> entry_ok rules V e) \<and>
    (\<forall>c \<in> set children. is_excluded rules (drop (length root) c) \<or> (\<exists>e \<in> set new. se_path e = c))"
  using assms
proof (induction rules V root children pending es rule: walk_children.induct)
  case (2 rules V root child children pending es)
  obtain rel where rel: "child = root @ rel" "rel \<noteq> []" "\<forall>x \<in> set rel. is_normal x"
    using "2.prems"(3) by auto
  have strip: "path_strip_prefix child root = Some rel" by (simp add: rel(1))
  show ?case
  proof (cases "is_excluded rules rel")
    case True
    from "2.IH"(1) [OF strip True] "2.prems" strip True obtain new where
      "es' = es @ new \<and>
       pending' = pending @ map se_path (filter (\<lambda>e. entry_kind (se_metadata e) = Directory) new) \<and>
       subseq (map se_path new) children \<and>
       (\<forall>e \<in> set new. se_root e = root \<and> se_path e \<in> set children \<and> entry_ok rules V e) \<and>
       (\<forall>c \<in> set children. is_excluded rules (drop (length root) c) \<or> (\<exists>e \<in> set new. se_path e = c))"
      by auto
    then show ?thesis using True rel(1) by (intro exI [of _ new]) auto
  next
    case False
    then obtain md where md: "capture_metadata V child = Ok md"
      using "2.prems"(1) strip by (cases "capture_metadata V child") auto
    let ?e = "\<lparr>se_root = root, se_path = child, se_relative_path = rel, se_metadata = md\<rparr>"
    have ok: "entry_ok rules V ?e" using rel md False "2.prems"(2) by (simp add: entry_ok_def)
    have md': "map_err (MetadataCapture child) (capture_metadata V child) = Ok md" by (simp add: md)
    from "2.IH"(2) [OF strip False md'] "2.prems" strip False md obtain new where new:
      "es' = (es @ [?e]) @ new \<and>
       pending' = (if entry_kind md = Directory then pending @ [child] else pending)
         @ map se_path (filter (\<lambda>e. entry_kind (se_metadata e) = Directory) new) \<and>
       subseq (map se_path new) children \<and>
       (\<forall>e \<in> set new. se_root e = root \<and> se_path e \<in> set children \<and> entry_ok rules V e) \<and>
       (\<forall>c \<in> set children. is_excluded rules (drop (length root) c) \<or> (\<exists>e \<in> set new. se_path e = c))"
      by auto
    then show ?thesis using ok by (intro exI [of _ "?e # new"]) auto
  qed
qed simp

text \<open>The invariant of the loop over \<open>pending\<close>.\<close>

definition walk_inv ::
  "exclusion_rule list \<Rightarrow> fs_view \<Rightarrow> path \<Rightarrow> path list \<Rightarrow> source_entry list \<Rightarrow> bool" where
  "walk_inv rules V root pending es \<longleftrightarrow>
     (\<forall>e \<in> set es. entry_ok rules V e) \<and> parents_first es \<and>
     (\<forall>p \<in> set pending. \<exists>e \<in> set es. se_root e = root \<and> se_path e = p \<and> entry_kind (se_metadata e) = Directory) \<and>
     (\<forall>e \<in> set es. entry_kind (se_metadata e) = Directory \<longrightarrow>
        (se_root e = root \<and> se_path e \<in> set pending) \<or> children_accounted rules V es e)"

lemma parents_first_append:
  "parents_first es \<Longrightarrow> \<forall>e \<in> set new. has_parent es e \<Longrightarrow> parents_first (es @ new)"
proof (induction new rule: rev_induct)
  case (snoc e new)
  then show ?case by (simp add: append_assoc [symmetric] del: append_assoc) (auto simp: has_parent_def)
qed simp

lemma walk_inv_step:
  assumes inv: "walk_inv rules V root (dir # rest) es" and abs: "is_absolute root"
    and read: "read_sorted_children V dir = Ok children"
    and step: "walk_children rules V root children rest es = Some (Ok (pending', es'))"
  shows "walk_inv rules V root pending' es'"
proof -
  obtain d where d: "d \<in> set es" "se_root d = root" "se_path d = dir"
      "entry_kind (se_metadata d) = Directory" "entry_ok rules V d"
    using inv by (auto simp: walk_inv_def)
  let ?rel = "se_relative_path d"
  have dir: "dir = root @ ?rel" "\<forall>x \<in> set ?rel. is_normal x"
    using d by (auto simp: entry_ok_def)
  obtain names where names: "fs_read_dir V dir = Ok (map Ok names)"
    and children: "set children = (\<lambda>n. dir @ [Normal n]) ` set names"
    using read_sorted_children_Ok [OF read] by blast
  have "\<forall>c \<in> set children. \<exists>rel. c = root @ rel \<and> rel \<noteq> [] \<and> (\<forall>x \<in> set rel. is_normal x)"
    using children dir by (auto intro!: exI [of _ "?rel @ [Normal _]"])
  from walk_children_adds [OF step abs this] obtain new where
      es': "es' = es @ new"
    and pending': "pending' = rest @ map se_path (filter (\<lambda>e. entry_kind (se_metadata e) = Directory) new)"
    and new: "\<forall>e \<in> set new. se_root e = root \<and> se_path e \<in> set children \<and> entry_ok rules V e"
    and covered: "\<forall>c \<in> set children. is_excluded rules (drop (length root) c) \<or> (\<exists>e \<in> set new. se_path e = c)"
    by blast
  have rel_new: "\<exists>n \<in> set names. se_relative_path e = ?rel @ [Normal n]" if "e \<in> set new" for e
  proof -
    have "root @ se_relative_path e \<in> set children" using new that by (auto simp: entry_ok_def)
    then show ?thesis using children dir(1) by auto
  qed
  have "has_parent es e" if "e \<in> set new" for e
    using rel_new [OF that] new that d by (auto simp: has_parent_def)
  then have first: "parents_first es'"
    using inv es' by (simp add: walk_inv_def parents_first_append)
  have here: "children_accounted rules V es' e"
    if "e \<in> set es" "se_root e = root" "se_path e = dir" for e
  proof -
    have e_rel: "se_relative_path e = ?rel"
      using that inv dir(1) by (auto simp: walk_inv_def entry_ok_def)
    have "is_excluded rules (?rel @ [Normal n]) \<or>
        (\<exists>e \<in> set es'. se_root e = root \<and> se_relative_path e = ?rel @ [Normal n])"
      if "n \<in> set names" for n
    proof -
      have "dir @ [Normal n] \<in> set children" using children that by auto
      then consider "is_excluded rules (?rel @ [Normal n])"
        | e' where "e' \<in> set new" "se_path e' = dir @ [Normal n]"
        using covered dir(1) by fastforce
      then show ?thesis
        using new dir(1) es' by cases (auto simp: entry_ok_def)
    qed
    then show ?thesis using that names e_rel by (auto simp: children_accounted_def)
  qed
  show ?thesis
    unfolding walk_inv_def
  proof (intro conjI ballI impI)
    fix e assume "e \<in> set es'" and kind: "entry_kind (se_metadata e) = Directory"
    then consider "e \<in> set new" | "e \<in> set es" using es' by auto
    then show "se_root e = root \<and> se_path e \<in> set pending' \<or> children_accounted rules V es' e"
    proof cases
      case 1
      then show ?thesis using new kind pending' by auto
    next
      case 2
      then consider "se_root e = root" "se_path e = dir" | "se_root e = root" "se_path e \<in> set rest"
        | "children_accounted rules V es e"
        using inv kind by (auto simp: walk_inv_def)
      then show ?thesis
        using here [OF 2] pending' es' children_accounted_mono [of rules V es e es'] by cases auto
    qed
  qed (use inv es' new pending' first in \<open>auto simp: walk_inv_def\<close>)
qed

lemma walk_inv_done: "walk_inv rules V root [] es \<longleftrightarrow>
    (\<forall>e \<in> set es. entry_ok rules V e) \<and> parents_first es \<and>
    (\<forall>e \<in> set es. entry_kind (se_metadata e) = Directory \<longrightarrow> children_accounted rules V es e)"
  by (simp add: walk_inv_def)

lemma walk_pending_inv:
  assumes "walk_pending rules V root pending es = Some r"
    and "walk_inv rules V root pending es" and "is_absolute root"
  shows "\<forall>es'. r = Ok es' \<longrightarrow> walk_inv rules V root [] es'"
  using assms
proof (induction rules V root pending es r rule: walk_pending.raw_induct [rotated 1, consumes 1])
  case (1 walk_pending rules V root pending es r)
  show ?case
  proof (cases pending)
    case Nil
    then show ?thesis using 1 by auto
  next
    case (Cons dir rest)
    show ?thesis
    proof (cases "read_sorted_children V dir")
      case (Inl e)
      then show ?thesis using 1 Cons by auto
    next
      case (Inr children)
      then show ?thesis
        using 1 Cons walk_inv_step [of rules V root dir rest es children]
        by (auto split: option.splits sum.splits)
    qed
  qed
qed

lemma walk_root_inv:
  assumes "walk_root rules V root es = Some (Ok es')" and "walk_inv rules V r0 [] es"
  shows "walk_inv rules V root [] es'"
proof -
  have abs: "is_absolute root" using assms(1) by (auto simp: walk_root_def split: if_splits)
  obtain md where md: "capture_metadata V root = Ok md"
    using assms(1) abs by (cases "capture_metadata V root") (auto simp: walk_root_def)
  let ?e = "\<lparr>se_root = root, se_path = root, se_relative_path = [], se_metadata = md\<rparr>"
  have ok: "entry_ok rules V ?e" using md abs by (simp add: entry_ok_def)
  have mono: "children_accounted rules V (es @ [?e]) d" if "children_accounted rules V es d" for d
    by (rule children_accounted_mono [OF that]) auto
  have start: "walk_inv rules V root (if entry_kind md = Directory then [root] else []) (es @ [?e])"
    using assms(2) ok mono by (auto simp: walk_inv_def has_parent_def)
  show ?thesis
    using assms(1) abs md start walk_pending_inv [OF _ _ abs]
    by (auto simp: walk_root_def Let_def split: if_splits)
qed

lemma walk_roots_inv:
  "walk_roots rules V roots es = Some (Ok es') \<Longrightarrow> walk_inv rules V r0 [] es \<Longrightarrow> walk_inv rules V r0 [] es'"
proof (induction rules V roots es rule: walk_roots.induct)
  case (2 rules V root roots es)
  then show ?case
    using walk_root_inv [of rules V root es _ r0]
    by (auto simp: walk_inv_done split: option.splits sum.splits)
qed simp

text \<open>One root is walked without meeting a path twice, if no directory lists a name twice.\<close>

definition names_distinct :: "fs_view \<Rightarrow> bool" where
  "names_distinct V \<longleftrightarrow> (\<forall>p names. fs_read_dir V p = Ok names \<longrightarrow> distinct names)"

definition walk_unique :: "path \<Rightarrow> path list \<Rightarrow> source_entry list \<Rightarrow> bool" where
  "walk_unique root pending es \<longleftrightarrow>
     distinct (map se_relative_path es) \<and> distinct pending \<and> (\<forall>e \<in> set es. se_root e = root) \<and>
     (\<forall>e \<in> set es. se_relative_path e \<noteq> [] \<longrightarrow> root @ butlast (se_relative_path e) \<notin> set pending)"

lemma read_sorted_children_distinct:
  assumes "read_sorted_children V dir = Ok children" and "names_distinct V"
  shows "distinct children"
proof -
  obtain entries cs where dirs: "fs_read_dir V dir = Ok entries" and sorted: "children = sort cs"
    and all: "list_all2 (\<lambda>e c. \<exists>n. e = Ok n \<and> dir @ [Normal n] = c) entries cs"
    using assms(1) unfolding read_sorted_children_def
    by (auto simp: result_simps map_result_Ok_iff)
  have "distinct entries" using dirs assms(2) by (auto simp: names_distinct_def)
  from all this have "distinct cs"
  proof (induction rule: list_all2_induct)
    case (Cons e es c cs)
    have "c \<notin> set cs"
    proof
      assume "c \<in> set cs"
      then obtain i where i: "i < length cs" "cs ! i = c" by (auto simp: in_set_conv_nth)
      then have "es ! i \<in> set es" "\<exists>n. es ! i = Ok n \<and> dir @ [Normal n] = c"
        using Cons.hyps(2) by (auto simp: list_all2_conv_all_nth)
      then obtain e' where "e' \<in> set es" "\<exists>n. e' = Ok n \<and> dir @ [Normal n] = c" by blast
      then have "e' = e" using Cons.hyps(1) by auto
      with \<open>e' \<in> set es\<close> Cons.prems show False by simp
    qed
    then show ?case using Cons by simp
  qed simp
  then show ?thesis using sorted by simp
qed

lemma walk_unique_step:
  assumes inv: "walk_inv rules V root (dir # rest) es" and uniq: "walk_unique root (dir # rest) es"
    and abs: "is_absolute root" and names: "names_distinct V"
    and read: "read_sorted_children V dir = Ok children"
    and step: "walk_children rules V root children rest es = Some (Ok (pending', es'))"
  shows "walk_unique root pending' es'"
proof -
  obtain d where d: "d \<in> set es" "se_root d = root" "se_path d = dir" "entry_ok rules V d"
    using inv by (auto simp: walk_inv_def)
  let ?rel = "se_relative_path d"
  have dir: "dir = root @ ?rel" "\<forall>x \<in> set ?rel. is_normal x"
    using d by (auto simp: entry_ok_def)
  obtain ns where children: "set children = (\<lambda>n. dir @ [Normal n]) ` set ns"
    using read_sorted_children_Ok [OF read] by blast
  have "\<forall>c \<in> set children. \<exists>rel. c = root @ rel \<and> rel \<noteq> [] \<and> (\<forall>x \<in> set rel. is_normal x)"
    using children dir by (auto intro!: exI [of _ "?rel @ [Normal _]"])
  from walk_children_adds [OF step abs this] obtain new where
      es': "es' = es @ new"
    and pending': "pending' = rest @ map se_path (filter (\<lambda>e. entry_kind (se_metadata e) = Directory) new)"
    and sub: "subseq (map se_path new) children"
    and new: "\<forall>e \<in> set new. se_root e = root \<and> se_path e \<in> set children \<and> entry_ok rules V e"
    by blast
  have path: "se_path e = root @ se_relative_path e" if "e \<in> set es \<or> e \<in> set new" for e
    using that new inv uniq by (auto simp: walk_inv_def walk_unique_def entry_ok_def)
  have parent: "se_relative_path e \<noteq> [] \<and> root @ butlast (se_relative_path e) = dir" if "e \<in> set new" for e
  proof -
    have "root @ se_relative_path e \<in> set children" using new path that by auto
    then show ?thesis using children dir(1) by auto
  qed
  have fresh: "se_relative_path e \<noteq> se_relative_path e'" if "e \<in> set es" "e' \<in> set new" for e e'
    using parent [OF that(2)] uniq that(1) by (auto simp: walk_unique_def)
  have "distinct (map se_path new)"
    using sub read_sorted_children_distinct [OF read names]
    by (metis distinct_nthsI subseq_conv_nths)
  then have dnew: "distinct (map se_relative_path new)" "distinct (map se_path new)"
    using path by (auto simp: distinct_map inj_on_def)
  have old: "p \<in> se_path ` set es" if "p \<in> set rest" for p
    using that inv by (auto simp: walk_inv_def)
  have new_path: "se_path e \<notin> se_path ` set es" if "e \<in> set new" for e
  proof
    assume "se_path e \<in> se_path ` set es"
    then obtain x where "x \<in> set es" "se_path e = se_path x" by auto
    then have "se_relative_path x = se_relative_path e" using path that by simp
    with fresh \<open>x \<in> set es\<close> that show False by blast
  qed
  have par_old: "root @ butlast (se_relative_path e) \<in> se_path ` set es"
    if e: "e \<in> set es" and rel: "se_relative_path e \<noteq> []" for e
  proof -
    obtain i where i: "i < length es" "es ! i = e" using e by (auto simp: in_set_conv_nth)
    then have "has_parent (take i es) e" using inv by (auto simp: walk_inv_def parents_first_def)
    then obtain p where "p \<in> set (take i es)" "se_relative_path p = butlast (se_relative_path e)"
      using rel by (auto simp: has_parent_def)
    then show ?thesis using path by (metis imageI in_set_takeD)
  qed
  have "distinct pending'"
    using uniq old new_path dnew(2) pending'
    by (auto simp: walk_unique_def distinct_map intro: inj_on_subset)
  moreover have "root @ butlast (se_relative_path e) \<notin> set pending'"
    if "e \<in> set es'" "se_relative_path e \<noteq> []" for e
  proof (cases "e \<in> set new")
    case True
    then have "root @ butlast (se_relative_path e) = dir" using parent by simp
    moreover have "dir \<notin> set rest" using uniq by (simp add: walk_unique_def)
    moreover have "dir \<noteq> se_path e'" if "e' \<in> set new" for e'
      using children new that by fastforce
    ultimately show ?thesis using pending' by auto
  next
    case False
    then have e: "e \<in> set es" using that(1) es' by simp
    have "root @ butlast (se_relative_path e) \<notin> set rest" using uniq e that(2) by (simp add: walk_unique_def)
    moreover have "root @ butlast (se_relative_path e) \<notin> se_path ` set new"
      using par_old [OF e that(2)] new_path by (metis imageE)
    ultimately show ?thesis using pending' by auto
  qed
  ultimately show ?thesis
    using uniq dnew(1) fresh new es' unfolding walk_unique_def
    by (auto simp: disjoint_iff)
qed

lemma walk_pending_unique:
  assumes "walk_pending rules V root pending es = Some r"
    and "walk_inv rules V root pending es" and "walk_unique root pending es" and "is_absolute root"
    and "names_distinct V"
  shows "\<forall>es'. r = Ok es' \<longrightarrow> walk_unique root [] es'"
  using assms
proof (induction rules V root pending es r rule: walk_pending.raw_induct [rotated 1, consumes 1])
  case (1 walk_pending rules V root pending es r)
  show ?case
  proof (cases pending)
    case Nil
    then show ?thesis using 1 by auto
  next
    case (Cons dir rest)
    show ?thesis
    proof (cases "read_sorted_children V dir")
      case (Inl e)
      then show ?thesis using 1 Cons by auto
    next
      case (Inr children)
      then show ?thesis
        using 1 Cons walk_inv_step [of rules V root dir rest es children]
          walk_unique_step [of rules V root dir rest es children]
        by (auto split: option.splits sum.splits)
    qed
  qed
qed

lemma walk_single_root:
  assumes "walk rules V [root] = Some (Ok es)" and "names_distinct V"
  shows "distinct (map se_relative_path es) \<and> (\<forall>e \<in> set es. se_root e = root)"
proof -
  have run: "walk_root rules V root [] = Some (Ok es)"
    using assms(1) by (auto simp: walk_def split: option.splits sum.splits)
  obtain md where md: "capture_metadata V root = Ok md" and abs: "is_absolute root"
    using run by (cases "capture_metadata V root") (auto simp: walk_root_def split: if_splits)
  let ?e = "\<lparr>se_root = root, se_path = root, se_relative_path = [], se_metadata = md\<rparr>"
  have inv: "walk_inv rules V root [root] [?e]" if "entry_kind md = Directory"
    using md abs that by (auto simp: walk_inv_def entry_ok_def has_parent_def parents_first_def)
  have uniq: "walk_unique root [root] [?e]" by (simp add: walk_unique_def)
  show ?thesis
  proof (cases "entry_kind md = Directory")
    case True
    then have "walk_pending rules V root [root] [?e] = Some (Ok es)"
      using run abs md by (simp add: walk_root_def Let_def)
    from walk_pending_unique [OF this inv [OF True] uniq abs assms(2)] show ?thesis
      by (simp add: walk_unique_def)
  next
    case False
    then have "es = [?e]" using run abs md by (simp add: walk_root_def Let_def)
    then show ?thesis by simp
  qed
qed

section \<open>The walk returns\<close>

text \<open>
  Every directory has at most \<open>N\<close> components, so the depths still possible below the pending
  directories form a multiset that decreases with every directory that is read.
\<close>

definition dirs_bounded :: "fs_view \<Rightarrow> nat \<Rightarrow> bool" where
  "dirs_bounded V N \<longleftrightarrow>
     (\<forall>p md. fs_symlink_metadata V p = Ok md \<and> fm_type md = IsDir \<longrightarrow> length p \<le> N)"

lemma captured_dir_bounded:
  assumes "capture_metadata V p = Ok md" and "entry_kind md = Directory" and "dirs_bounded V N"
  shows "length p \<le> N"
proof -
  obtain m where m: "fs_symlink_metadata V p = Ok m" "entry_kind_of (fm_type m) = Directory"
    using capture_metadata_kind [OF assms(1)] assms(2) by auto
  then have "fm_type m = IsDir" by (cases "fm_type m") (simp_all add: entry_kind_of_def)
  with m(1) assms(3) show ?thesis by (auto simp: dirs_bounded_def)
qed

lemma walk_children_returns:
  assumes "\<forall>c \<in> set children. \<exists>rel. c = root @ rel"
  shows "walk_children rules V root children pending es \<noteq> None"
  using assms
  by (induction rules V root children pending es rule: walk_children.induct)
    (auto split: option.splits sum.splits)

lemma walk_children_pending:
  assumes "walk_children rules V root children pending es = Some (Ok (pending', es'))"
    and "dirs_bounded V N"
  shows "\<exists>more. pending' = pending @ more \<and> set more \<subseteq> set children \<and> (\<forall>p \<in> set more. length p \<le> N)"
  using assms
proof (induction rules V root children pending es rule: walk_children.induct)
  case (2 rules V root child children pending es)
  obtain rel where rel: "path_strip_prefix child root = Some rel"
    using "2.prems" by (auto split: option.splits)
  show ?case
  proof (cases "is_excluded rules rel")
    case True
    then show ?thesis using 2 rel by auto
  next
    case False
    then obtain md where md: "capture_metadata V child = Ok md"
      using "2.prems"(1) rel by (cases "capture_metadata V child") auto
    have dir: "length child \<le> N" if "entry_kind md = Directory"
      using captured_dir_bounded [OF md that "2.prems"(2)] .
    have md': "map_err (MetadataCapture child) (capture_metadata V child) = Ok md" by (simp add: md)
    from "2.IH"(2) [OF rel False md'] "2.prems" rel False md obtain more where
      "pending' = (if entry_kind md = Directory then pending @ [child] else pending) @ more"
      "set more \<subseteq> set children" "\<forall>p \<in> set more. length p \<le> N" by auto
    then show ?thesis using dir
      by (intro exI [of _ "if entry_kind md = Directory then child # more else more"]) auto
  qed
qed simp

definition depths_left :: "nat \<Rightarrow> path list \<Rightarrow> nat multiset" where
  "depths_left N pending = mset (map (\<lambda>p. N + 1 - length p) pending)"

lemma walk_pending_returns:
  assumes "dirs_bounded V N" and "\<forall>p \<in> set pending. \<exists>rel. p = root @ rel"
    and "\<forall>p \<in> set pending. length p \<le> N"
  shows "walk_pending rules V root pending es \<noteq> None"
  using assms(2,3)
proof (induction "depths_left N pending" arbitrary: pending es
    rule: wf_induct_rule [OF wf_mult [OF wf_less_than]])
  case (1 pending)
  show ?case
  proof (cases pending)
    case Nil
    then show ?thesis by (simp add: walk_pending.simps)
  next
    case (Cons dir rest)
    show ?thesis
    proof (cases "read_sorted_children V dir")
      case (Inl e)
      then show ?thesis using Cons by (simp add: walk_pending.simps)
    next
      case (Inr children)
      have below: "\<forall>c \<in> set children. (\<exists>rel. c = root @ rel) \<and> length c = length dir + 1"
        using read_sorted_children_Ok [OF Inr] "1.prems"(1) Cons by auto
      obtain r where r: "walk_children rules V root children rest es = Some r"
        using walk_children_returns [of children root rules V rest es] below by blast
      show ?thesis
      proof (cases r)
        case (Inl e)
        then show ?thesis using Cons Inr r by (subst walk_pending.simps) simp
      next
        case step: (Inr st)
        obtain pending' es' where st: "st = (pending', es')" by fastforce
        obtain more where more: "pending' = rest @ more" "set more \<subseteq> set children"
            "\<forall>p \<in> set more. length p \<le> N"
          using walk_children_pending [OF _ assms(1)] r step st by blast
        have "(depths_left N pending', depths_left N pending) \<in> mult less_than"
        proof -
          have "\<forall>x \<in># mset (map (\<lambda>p. N + 1 - length p) more). x < N + 1 - length dir"
            using more(2,3) below "1.prems"(2) Cons by fastforce
          then have "(depths_left N rest + mset (map (\<lambda>p. N + 1 - length p) more),
              depths_left N rest + {# N + 1 - length dir #}) \<in> mult less_than"
            by (intro one_step_implies_mult) auto
          then show ?thesis using more(1) Cons by (simp add: depths_left_def)
        qed
        moreover have "\<forall>p \<in> set pending'. \<exists>rel. p = root @ rel" "\<forall>p \<in> set pending'. length p \<le> N"
          using more below "1.prems" Cons by auto
        ultimately have "walk_pending rules V root pending' es' \<noteq> None" by (rule "1.hyps")
        then show ?thesis
          using Cons Inr r step st by (subst walk_pending.simps) simp
      qed
    qed
  qed
qed

lemma walk_root_returns:
  assumes "dirs_bounded V N"
  shows "walk_root rules V root es \<noteq> None"
proof (cases "is_absolute root")
  case True
  show ?thesis
  proof (cases "capture_metadata V root")
    case (Inr md)
    have "length root \<le> N" if "entry_kind md = Directory"
      using captured_dir_bounded [OF Inr that assms] .
    then show ?thesis
      using True Inr walk_pending_returns [OF assms, of "[root]" root rules]
      by (auto simp: walk_root_def Let_def)
  qed (simp add: walk_root_def True)
qed (simp add: walk_root_def)

lemma walk_roots_return: "dirs_bounded V N \<Longrightarrow> walk_roots rules V roots es \<noteq> None"
  using walk_root_returns
  by (induction rules V roots es rule: walk_roots.induct) (auto split: option.splits sum.splits)

section \<open>Properties\<close>

lemma walk_children_grows:
  "walk_children rules V root children pending es = Some (Ok (pending', es')) \<Longrightarrow> set es \<subseteq> set es'"
  by (induction rules V root children pending es rule: walk_children.induct)
    (auto split: option.splits sum.splits if_splits)

lemma walk_pending_grows:
  assumes "walk_pending rules V root pending es = Some r"
  shows "\<forall>es'. r = Ok es' \<longrightarrow> set es \<subseteq> set es'"
  using assms
proof (induction rules V root pending es r rule: walk_pending.raw_induct [rotated 1, consumes 1])
  case (1 walk_pending rules V root pending es r)
  show ?case
  proof (intro allI impI)
    fix es' assume r: "r = Ok es'"
    show "set es \<subseteq> set es'"
    proof (cases pending)
      case (Cons dir rest)
      then obtain children where children: "read_sorted_children V dir = Ok children"
        using "1"(2) r by (cases "read_sorted_children V dir") auto
      then obtain st where st: "walk_children rules V root children rest es = Some st"
        using "1"(2) r Cons by (cases "walk_children rules V root children rest es") auto
      then obtain pending1 es1 where st1: "st = Ok (pending1, es1)"
        using "1"(2) r Cons children by (cases st) auto
      have "walk_pending rules V root pending1 es1 = Some (Ok es')"
        using "1"(2) r Cons children st st1 by simp
      then have "set es1 \<subseteq> set es'" using "1"(1) by blast
      with walk_children_grows st st1 show ?thesis by blast
    qed (use "1"(2) r in auto)
  qed
qed

lemma walk_root_grows:
  assumes "walk_root rules V root es = Some (Ok es')"
  shows "set es \<subseteq> set es' \<and> (\<exists>e \<in> set es'. se_root e = root \<and> se_relative_path e = [])"
proof -
  obtain md where md: "capture_metadata V root = Ok md" "is_absolute root"
    using assms by (cases "capture_metadata V root") (auto simp: walk_root_def split: if_splits)
  let ?es = "es @ [\<lparr>se_root = root, se_path = root, se_relative_path = [], se_metadata = md\<rparr>]"
  have "es' = ?es \<or> walk_pending rules V root [root] ?es = Some (Ok es')"
    using assms md by (auto simp: walk_root_def Let_def split: if_splits)
  then have "set ?es \<subseteq> set es'" using walk_pending_grows by blast
  then show ?thesis by (intro conjI bexI [of _ "last ?es"]) auto
qed

lemma walk_roots_cover:
  "walk_roots rules V roots es = Some (Ok es') \<Longrightarrow> set es \<subseteq> set es' \<and>
    (\<forall>root \<in> set roots. \<exists>e \<in> set es'. se_root e = root \<and> se_relative_path e = [])"
proof (induction rules V roots es rule: walk_roots.induct)
  case (2 rules V root roots es)
  then obtain es1 where "walk_root rules V root es = Some (Ok es1)"
    and "walk_roots rules V roots es1 = Some (Ok es')"
    by (auto split: option.splits sum.splits)
  with 2 walk_root_grows [of rules V root es es1] show ?case by fastforce
qed simp

lemma walk_Ok:
  assumes "walk rules V roots = Some (Ok es)"
  shows "(\<forall>e \<in> set es. entry_ok rules V e) \<and> parents_first es \<and>
    (\<forall>e \<in> set es. entry_kind (se_metadata e) = Directory \<longrightarrow> children_accounted rules V es e)"
proof -
  have "walk_inv rules V [] [] []" by (simp add: walk_inv_done)
  from walk_roots_inv [OF assms [unfolded walk_def] this] show ?thesis by (simp add: walk_inv_done)
qed

lemma walk_ancestors:
  assumes "parents_first es" and "distinct (map se_relative_path es)"
    and "e \<in> set es" and "a \<in> set es" and "strict_prefix (se_relative_path a) (se_relative_path e)"
  shows "entry_kind (se_metadata a) = Directory"
  using assms(3,5)
proof (induction "length (se_relative_path e)" arbitrary: e rule: less_induct)
  case less
  have ne: "se_relative_path e \<noteq> []" using less.prems(2) by auto
  obtain i where "i < length es" "es ! i = e" using less.prems(1) by (auto simp: in_set_conv_nth)
  then have "has_parent (take i es) e" using assms(1) by (auto simp: parents_first_def)
  then obtain d where d: "d \<in> set es" "se_relative_path d = butlast (se_relative_path e)"
      "entry_kind (se_metadata d) = Directory"
    using ne by (auto simp: has_parent_def dest: in_set_takeD)
  have "prefix (se_relative_path a) (se_relative_path d)"
    using less.prems(2) ne d(2)
    by (metis append_butlast_last_id prefix_order.less_le prefix_snoc)
  then consider "se_relative_path a = se_relative_path d"
    | "strict_prefix (se_relative_path a) (se_relative_path d)" by (auto simp: strict_prefix_def)
  then show ?case
  proof cases
    case 1
    then have "a = d" using assms(2,4) d(1) by (metis distinct_map inj_onD)
    then show ?thesis using d(3) by simp
  next
    case 2
    have "length (se_relative_path d) < length (se_relative_path e)" using ne d(2) by simp
    then show ?thesis using less.hyps d(1) 2 by blast
  qed
qed

section \<open>Properties\<close>

text \<open>
  C23: the walk is sound and complete. Every entry describes a path below its root that no
  rule excludes, with the metadata read there; a directory comes before what it contains; every
  root is there, and every name in a walked directory is either excluded or has an entry.
\<close>

theorem walk_sound_complete:
  assumes "walk rules V roots = Some (Ok es)"
  shows "(\<forall>e \<in> set es. entry_ok rules V e) \<and> parents_first es \<and>
    (\<forall>root \<in> set roots. \<exists>e \<in> set es. se_root e = root \<and> se_relative_path e = []) \<and>
    (\<forall>e \<in> set es. entry_kind (se_metadata e) = Directory \<longrightarrow> children_accounted rules V es e)"
  using walk_Ok [OF assms] walk_roots_cover assms unfolding walk_def by blast

text \<open>
  C24: the walk returns, with entries or with an error, whenever there is a bound on the depth
  of directories.
\<close>

theorem walk_terminates:
  assumes "dirs_bounded V N"
  shows "walk rules V roots \<noteq> None"
  unfolding walk_def by (rule walk_roots_return [OF assms])

lemma sample_dirs_bounded: "dirs_bounded sample_fs 2"
  by (auto simp: dirs_bounded_def sample_fs_def sample_root_def sample_metadata_def split: if_splits)

theorem walk_terminates_witness: "walk [exclusion_rule_new ''*.tmp''] sample_fs [sample_root] \<noteq> None"
  by (rule walk_terminates [OF sample_dirs_bounded])

definition sample_entries :: "source_entry list" where
  "sample_entries =
     [\<lparr>se_root = sample_root, se_path = sample_root, se_relative_path = [],
       se_metadata = \<lparr>entry_kind = Directory, size_bytes = None, modified = Captured (timestamp_from 5),
         created = Unsupported, symlink_target = Unsupported,
         unix = Some \<lparr>mode = 0, uid = 0, gid = 0\<rparr>\<rparr>\<rparr>,
      \<lparr>se_root = sample_root, se_path = sample_root @ [Normal ''a''], se_relative_path = [Normal ''a''],
       se_metadata = \<lparr>entry_kind = RegularFile, size_bytes = Some 2, modified = Captured (timestamp_from 5),
         created = Unsupported, symlink_target = Unsupported,
         unix = Some \<lparr>mode = 0, uid = 0, gid = 0\<rparr>\<rparr>\<rparr>]"

lemma sample_walk: "walk [] sample_fs [sample_root] = Some (Ok sample_entries)"
  by (simp add: walk_def walk_root_def walk_pending.simps [of _ _ _ "_ # _"]
      walk_pending.simps [of _ _ _ "[]"] sample_entries_def
      capture_metadata_def sample_fs_def sample_root_def sample_metadata_def entry_kind_of_def
      metadata_value_from_time_def unix_metadata_of_def read_sorted_children_def
      path_strip_prefix_def is_excluded_def Let_def)

theorem walk_sound_complete_witness:
  "\<exists>e \<in> set sample_entries. se_root e = sample_root \<and> se_relative_path e = []"
  using walk_sound_complete [OF sample_walk] by simp

text \<open>
  C35: wildcard patterns. A match is never spurious: the value is an instance of the pattern,
  each star standing for some string. The converse holds for patterns without a star and for
  patterns that end in one; elsewhere the leftmost search of a middle part can miss an instance.
\<close>

theorem wildcard_matches_instances:
  "(wildcard_match p v \<longrightarrow> glob p v) \<and>
   (p \<noteq> [] \<and> (CHR ''*'' \<notin> set p \<or> suffix ''*'' p) \<longrightarrow> wildcard_match p v = glob p v)"
  using wildcard_match_glob glob_wildcard_match by blast

theorem wildcard_matches_instances_witness:
  "wildcard_match ''build-*'' ''build-42'' = glob ''build-*'' ''build-42''"
  using wildcard_matches_instances [of "''build-*''" "''build-42''"] by (simp add: suffix_def)

text \<open>
  The leftmost search makes the suffix pattern \<open>*.txt\<close> miss the file \<open>a.txt.txt\<close>, which
  is an instance of it: the file is backed up although the rule names it.
\<close>

lemma wildcard_suffix_missed:
  "glob ''*.txt'' ''a.txt.txt'' \<and> \<not> wildcard_match ''*.txt'' ''a.txt.txt''"
  by code_simp

end
