(* ===== verification/Ferry_Model.thy ===== *)
theory Ferry_Model
  imports Ferry_Crypto Ferry_Storage Ferry_Walker
begin

text \<open>
  The data of a repository as the core crate stores it: chunking parameters, chunk references,
  manifests, indexes, commit and forget markers, the bootstrap object and its key slots. The
  third-party code that turns these values into bytes (\<open>serde_json\<close>), cuts files
  (\<open>fastcdc\<close>) and compresses (\<open>zstd\<close>) is the record \<open>library\<close>; \<open>library_ok\<close> names the documented
  behaviour the proofs rely on.
\<close>

section \<open>Chunking\<close>

record chunking_config =
  min_size :: u64
  avg_size :: u64
  max_size :: u64

definition DEFAULT_MIN_CHUNK_SIZE :: u64 where "DEFAULT_MIN_CHUNK_SIZE = 512 * 1024"
definition DEFAULT_AVG_CHUNK_SIZE :: u64 where "DEFAULT_AVG_CHUNK_SIZE = 1024 * 1024"
definition DEFAULT_MAX_CHUNK_SIZE :: u64 where "DEFAULT_MAX_CHUNK_SIZE = 4 * 1024 * 1024"

definition chunking_config_default :: chunking_config where
  "chunking_config_default =
     \<lparr>min_size = DEFAULT_MIN_CHUNK_SIZE, avg_size = DEFAULT_AVG_CHUNK_SIZE,
      max_size = DEFAULT_MAX_CHUNK_SIZE\<rparr>"

record content_chunk =
  cc_offset :: u64
  cc_length :: u64
  cc_gear_hash :: u64

text \<open>The \<open>fastcdc\<close> crate: its size bounds, and the cuts (offset, length, hash) of an input.\<close>

record fastcdc_lib =
  MINIMUM_MIN :: u64
  MINIMUM_MAX :: u64
  AVERAGE_MIN :: u64
  AVERAGE_MAX :: u64
  MAXIMUM_MIN :: u64
  MAXIMUM_MAX :: u64
  fastcdc_cut :: "u64 \<Rightarrow> u64 \<Rightarrow> u64 \<Rightarrow> bytes \<Rightarrow> (nat \<times> nat \<times> u64) list"

definition chunking_validate :: "fastcdc_lib \<Rightarrow> chunking_config \<Rightarrow> core_error + unit" where
  "chunking_validate F c =
     (if min_size c < MINIMUM_MIN F then
        Err (InvalidChunkingConfig ''minimum chunk size is below the FastCDC lower bound'')
      else if min_size c > MINIMUM_MAX F then
        Err (InvalidChunkingConfig ''minimum chunk size is above the FastCDC upper bound'')
      else if avg_size c < AVERAGE_MIN F then
        Err (InvalidChunkingConfig ''average chunk size is below the FastCDC lower bound'')
      else if avg_size c > AVERAGE_MAX F then
        Err (InvalidChunkingConfig ''average chunk size is above the FastCDC upper bound'')
      else if max_size c < MAXIMUM_MIN F then
        Err (InvalidChunkingConfig ''maximum chunk size is below the FastCDC lower bound'')
      else if max_size c > MAXIMUM_MAX F then
        Err (InvalidChunkingConfig ''maximum chunk size is above the FastCDC upper bound'')
      else if min_size c > avg_size c then
        Err (InvalidChunkingConfig
          ''minimum chunk size must be less than or equal to average chunk size'')
      else if avg_size c > max_size c then
        Err (InvalidChunkingConfig
          ''average chunk size must be less than or equal to maximum chunk size'')
      else Ok ())"

definition chunk_bytes :: "fastcdc_lib \<Rightarrow> chunking_config \<Rightarrow> bytes \<Rightarrow> content_chunk list" where
  "chunk_bytes F c bs =
     map (\<lambda>(offset, len, hash). \<lparr>cc_offset = word_of_nat offset, cc_length = word_of_nat len,
                                  cc_gear_hash = hash\<rparr>)
       (fastcdc_cut F (min_size c) (avg_size c) (max_size c) bs)"

section \<open>Stored metadata\<close>

datatype compression_algorithm = Zstd

datatype repository_aead_algorithm = RepositoryXChaCha20Poly1305

record manifest_chunk_ref =
  mc_chunk_id :: string
  mc_object_key :: string
  mc_offset :: u64
  mc_length :: u64

record manifest_entry =
  me_root :: path
  me_path :: path
  me_relative_path :: path
  me_metadata :: entry_metadata
  me_chunks :: "manifest_chunk_ref list"

definition manifest_entry_from_source :: "source_entry \<Rightarrow> manifest_entry" where
  "manifest_entry_from_source e =
     \<lparr>me_root = se_root e, me_path = se_path e, me_relative_path = se_relative_path e,
      me_metadata = se_metadata e, me_chunks = []\<rparr>"

record snapshot_manifest_body =
  mb_created_at :: u64
  mb_tags :: "string list"
  mb_entries :: "manifest_entry list"
  mb_index_ids :: "string list"

record snapshot_manifest =
  sm_schema_version :: u16
  sm_snapshot_id :: string
  sm_body :: snapshot_manifest_body

record chunk_index_entry =
  ie_chunk_id :: string
  ie_object_key :: string
  ie_plaintext_length :: u64
  ie_compressed_length :: u64
  ie_stored_length :: u64
  ie_compression :: compression_algorithm
  ie_aead :: repository_aead_algorithm

record chunk_index =
  ci_schema_version :: u16
  ci_index_id :: string
  ci_chunks :: "chunk_index_entry list"

record snapshot_commit =
  sc_schema_version :: u16
  sc_snapshot_id :: string
  sc_manifest_object :: string

record snapshot_forget_marker =
  sf_schema_version :: u16
  sf_snapshot_id :: string
  sf_manifest_object :: string
  sf_commit_object :: string
  sf_forgotten_at :: u64

record stored_encrypted_object =
  so_algorithm :: repository_aead_algorithm
  so_nonce :: bytes
  so_ciphertext :: bytes

datatype stored_kdf_algorithm = StoredArgon2idV19

record stored_kdf_params =
  sk_algorithm :: stored_kdf_algorithm
  sk_memory_cost_kib :: u32
  sk_time_cost :: u32
  sk_parallelism :: u32

record stored_key_slot =
  ss_kdf :: stored_kdf_params
  ss_salt :: bytes
  ss_nonce :: bytes
  ss_wrapped_master_key :: bytes

record repository_bootstrap =
  rb_magic :: string
  rb_format_version :: u16
  rb_repository_id :: string
  rb_key_slots :: "stored_key_slot list"
  rb_features :: "string list"

record stored_external_key_slot =
  xs_magic :: string
  xs_format_version :: u16
  xs_repository_id :: string
  xs_key_slot_id :: string
  xs_key_slot :: stored_key_slot
  xs_master_key_check :: string

section \<open>Third-party code\<close>

record 'a codec =
  to_vec :: "'a \<Rightarrow> json_error + bytes"
  from_slice :: "bytes \<Rightarrow> json_error + 'a"

text \<open>What was serialised is read back as it was.\<close>

definition codec_ok :: "'a codec \<Rightarrow> bool" where
  "codec_ok c \<longleftrightarrow> (\<forall>x b. to_vec c x = Ok b \<longrightarrow> from_slice c b = Ok x)"

text \<open>
  \<open>zstd_decompress b n\<close> is \<open>zstd::bulk::decompress\<close> with capacity \<open>n\<close>.
\<close>

record library =
  lib_crypto :: crypto_prims
  lib_fastcdc :: fastcdc_lib
  zstd_compress :: "int \<Rightarrow> bytes \<Rightarrow> io_error + bytes"
  zstd_decompress :: "bytes \<Rightarrow> nat \<Rightarrow> io_error + bytes"
  object_codec :: "stored_encrypted_object codec"
  body_codec :: "snapshot_manifest_body codec"
  manifest_codec :: "snapshot_manifest codec"
  entries_codec :: "chunk_index_entry list codec"
  index_codec :: "chunk_index codec"
  commit_codec :: "snapshot_commit codec"
  forget_codec :: "snapshot_forget_marker codec"
  bootstrap_codec :: "repository_bootstrap codec"
  slot_codec :: "stored_external_key_slot codec"

definition zstd_ok :: "library \<Rightarrow> bool" where
  "zstd_ok L \<longleftrightarrow> (\<forall>level b c. zstd_compress L level b = Ok c \<longrightarrow>
     zstd_decompress L c (length b) = Ok b)"

definition codecs_ok :: "library \<Rightarrow> bool" where
  "codecs_ok L \<longleftrightarrow>
     codec_ok (object_codec L) \<and> codec_ok (manifest_codec L) \<and> codec_ok (index_codec L) \<and>
     codec_ok (commit_codec L) \<and> codec_ok (forget_codec L) \<and> codec_ok (bootstrap_codec L) \<and>
     codec_ok (slot_codec L)"

text \<open>\<open>tiles n offset cs\<close>: the cuts \<open>cs\<close> are adjacent and run from \<open>offset\<close> to \<open>n\<close>.\<close>

fun tiles :: "nat \<Rightarrow> nat \<Rightarrow> (nat \<times> nat \<times> u64) list \<Rightarrow> bool" where
  "tiles n offset [] = (offset = n)"
| "tiles n offset ((o', len, h) # cs) = (o' = offset \<and> tiles n (offset + len) cs)"

definition fastcdc_ok :: "fastcdc_lib \<Rightarrow> bool" where
  "fastcdc_ok F \<longleftrightarrow> (\<forall>mn av mx bs. tiles (length bs) 0 (fastcdc_cut F mn av mx bs))"

definition library_ok :: "library \<Rightarrow> bool" where
  "library_ok L \<longleftrightarrow> aead_correct (lib_crypto L) \<and> zstd_ok L \<and> codecs_ok L \<and> fastcdc_ok (lib_fastcdc L)"

lemma codec_okD: "codec_ok c \<Longrightarrow> to_vec c x = Ok b \<Longrightarrow> from_slice c b = Ok x"
  by (simp add: codec_ok_def)

lemma codec_ok_inj: "codec_ok c \<Longrightarrow> to_vec c x = Ok b \<Longrightarrow> to_vec c y = Ok b \<Longrightarrow> x = y"
  unfolding codec_ok_def by (metis sum.inject(2))

lemma tiles_bound: "tiles n offset cs \<Longrightarrow> offset \<le> n \<and> (\<forall>(o', len, h) \<in> set cs. o' + len \<le> n)"
  by (induction n offset cs rule: tiles.induct) auto

section \<open>Repository worlds\<close>

text \<open>A world: the state of the store and the number of calls of the random generator.\<close>

record 's world =
  w_store :: 's
  w_rng :: nat

definition on_store :: "('s, 'e, 'a) prog \<Rightarrow> ('s world, 'e, 'a) prog" where
  "on_store m w = (case m (w_store w) of (r, s) \<Rightarrow> (r, w\<lparr>w_store := s\<rparr>))"

definition on_rng :: "(nat, 'e, 'a) prog \<Rightarrow> ('s world, 'e, 'a) prog" where
  "on_rng m w = (case m (w_rng w) of (r, c) \<Rightarrow> (r, w\<lparr>w_rng := c\<rparr>))"

lemma on_store_Ok_iff [prog_simps]:
  "on_store m w = (Ok x, w') \<longleftrightarrow> (\<exists>s. m (w_store w) = (Ok x, s) \<and> w' = w\<lparr>w_store := s\<rparr>)"
  by (auto simp: on_store_def split: prod.splits)

lemma on_rng_Ok_iff [prog_simps]:
  "on_rng m w = (Ok x, w') \<longleftrightarrow> (\<exists>c. m (w_rng w) = (Ok x, c) \<and> w' = w\<lparr>w_rng := c\<rparr>)"
  by (auto simp: on_rng_def split: prod.splits)

lemma keeps_on_rng [keeps_intros]:
  assumes "\<And>w c. I w \<Longrightarrow> I (w\<lparr>w_rng := c\<rparr>)"
  shows "keeps I (on_rng m)"
  using assms by (auto simp: keeps_def on_rng_def split: prod.splits)

lemma keeps_on_store:
  assumes "\<And>w r s. I w \<Longrightarrow> m (w_store w) = (r, s) \<Longrightarrow> I (w\<lparr>w_store := s\<rparr>)"
  shows "keeps I (on_store m)"
  using assms by (auto simp: keeps_def on_store_def split: prod.splits)

end
