(* ===== verification/Ferry_Objects.thy ===== *)
theory Ferry_Objects
  imports Ferry_Model
begin

text \<open>
  Repository objects: their keys, their content ids, and the encrypted JSON objects that
  manifests, indexes and chunks are stored as. The facts say that an object that was written
  is read back, that the key of an object determines its id, and that reading depends only on
  the bytes the store holds.
\<close>

section \<open>Ids and keys\<close>

definition hex_digit :: "nat \<Rightarrow> char" where
  "hex_digit n = ''0123456789abcdef'' ! n"

definition hex_bytes :: "bytes \<Rightarrow> string" where
  "hex_bytes bs =
     concat (map (\<lambda>b. [hex_digit (unat (drop_bit 4 b)), hex_digit (unat (and b 0x0F))]) bs)"

definition object_key_for_id :: "string \<Rightarrow> string \<Rightarrow> core_error + object_key" where
  "object_key_for_id grp oid =
     bindR (ok_or (InvalidBackupPipelineConfig ''object id must be at least two characters'')
       (str_get_prefix oid 2)) (\<lambda>pre.
     map_err CoreObjectKey (object_key_new (grp @ ''/'' @ pre @ ''/'' @ oid)))"

definition object_key_for_commit :: "string \<Rightarrow> core_error + object_key" where
  "object_key_for_commit snapshot_id =
     map_err CoreObjectKey (object_key_new (''commits/'' @ snapshot_id))"

definition object_key_for_forget_marker :: "string \<Rightarrow> core_error + object_key" where
  "object_key_for_forget_marker snapshot_id =
     map_err CoreObjectKey (object_key_new (''forgets/'' @ snapshot_id))"

definition content_id_for_metadata ::
  "library \<Rightarrow> master_key \<Rightarrow> key_purpose \<Rightarrow> bytes \<Rightarrow> 'a codec \<Rightarrow> 'a \<Rightarrow> core_error + string" where
  "content_id_for_metadata L master purpose context codec x =
     bindR (map_err Serialization (to_vec codec x)) (\<lambda>bs.
     map_err Encryption (bindR (keyed_content_id (lib_crypto L) master purpose context bs)
       (\<lambda>cid. Ok (hex_bytes cid))))"

definition master_key_check :: "library \<Rightarrow> master_key \<Rightarrow> string \<Rightarrow> string \<Rightarrow> core_error + string" where
  "master_key_check L master repository_id key_slot_id =
     map_err Encryption (bindR (keyed_content_id (lib_crypto L) master KeySlotPurpose
       (as_bytes repository_id) (as_bytes key_slot_id)) (\<lambda>cid. Ok (hex_bytes cid)))"

section \<open>Encrypted objects\<close>

definition encode_encrypted_object :: "library \<Rightarrow> encrypted_object \<Rightarrow> core_error + bytes" where
  "encode_encrypted_object L e =
     (let algo = (case eo_algorithm e of XChaCha20Poly1305 \<Rightarrow> RepositoryXChaCha20Poly1305) in
      map_err Serialization (to_vec (object_codec L)
        \<lparr>so_algorithm = algo, so_nonce = eo_nonce e, so_ciphertext = eo_ciphertext e\<rparr>))"

definition encrypt_repository_object ::
  "library \<Rightarrow> subkey \<Rightarrow> object_kind \<Rightarrow> object_key \<Rightarrow> bytes \<Rightarrow> ('s world, core_error, bytes) prog" where
  "encrypt_repository_object L key k object_key plaintext =
     andThen (lift_result (map_err Encryption (object_context_new k (as_str object_key)))) (\<lambda>context.
     andThen (on_rng (map_error Encryption (encrypt_object (lib_crypto L) key context plaintext))) (\<lambda>encrypted.
     lift_result (encode_encrypted_object L encrypted)))"

definition decrypt_repository_object ::
  "library \<Rightarrow> subkey \<Rightarrow> object_kind \<Rightarrow> object_key \<Rightarrow> bytes \<Rightarrow> core_error + bytes" where
  "decrypt_repository_object L key k object_key bs =
     bindR (map_err (ObjectDecode object_key) (from_slice (object_codec L) bs)) (\<lambda>stored.
     let algo = (case so_algorithm stored of RepositoryXChaCha20Poly1305 \<Rightarrow> XChaCha20Poly1305);
         object = \<lparr>eo_algorithm = algo, eo_nonce = so_nonce stored,
                   eo_ciphertext = so_ciphertext stored\<rparr> in
     bindR (map_err Encryption (object_context_new k (as_str object_key))) (\<lambda>context.
     map_err (ObjectAuthentication object_key) (decrypt_object (lib_crypto L) key context object)))"

definition write_encrypted_json_object ::
  "library \<Rightarrow> 's store_ops \<Rightarrow> subkey \<Rightarrow> object_kind \<Rightarrow> object_key \<Rightarrow> 'a codec \<Rightarrow> 'a \<Rightarrow>
   ('s world, core_error, u64) prog" where
  "write_encrypted_json_object L store key k object_key codec x =
     andThen (lift_result (map_err Serialization (to_vec codec x))) (\<lambda>plaintext.
     andThen (encrypt_repository_object L key k object_key plaintext) (\<lambda>encrypted.
     andThen (on_store (map_error CoreStorage (put_if_absent store object_key encrypted))) (\<lambda>status.
     ret (case status of Created \<Rightarrow> word_of_nat (length encrypted) | AlreadyPresent \<Rightarrow> 0))))"

definition read_encrypted_json_object_with_bytes ::
  "library \<Rightarrow> 's store_ops \<Rightarrow> subkey \<Rightarrow> object_kind \<Rightarrow> object_key \<Rightarrow> 'a codec \<Rightarrow>
   ('s world, core_error, 'a \<times> u64) prog" where
  "read_encrypted_json_object_with_bytes L store key k object_key codec =
     andThen (on_store (map_error CoreStorage (get_object store object_key))) (\<lambda>encrypted.
     let bytes_read = word_of_nat (length encrypted) in
     andThen (lift_result (decrypt_repository_object L key k object_key encrypted)) (\<lambda>plaintext.
     andThen (lift_result (map_err (MetadataDecode object_key) (from_slice codec plaintext))) (\<lambda>x.
     ret (x, bytes_read))))"

definition read_encrypted_json_object ::
  "library \<Rightarrow> 's store_ops \<Rightarrow> subkey \<Rightarrow> object_kind \<Rightarrow> object_key \<Rightarrow> 'a codec \<Rightarrow>
   ('s world, core_error, 'a) prog" where
  "read_encrypted_json_object L store key k object_key codec =
     andThen (read_encrypted_json_object_with_bytes L store key k object_key codec) (\<lambda>(x, _). ret x)"

section \<open>Facts about ids and keys\<close>

lemma hex_digit_inj: "m < 16 \<Longrightarrow> n < 16 \<Longrightarrow> hex_digit m = hex_digit n \<longleftrightarrow> m = n"
  unfolding hex_digit_def by (subst nth_eq_iff_index_eq) auto

lemma nibbles_bound:
  fixes b :: u8
  shows "unat (drop_bit 4 b) < 16" "unat (and b 0x0F) < 16"
proof -
  have "unat b < 256" using unsigned_less [of b, where ?'a = nat] by simp
  then show "unat (drop_bit 4 b) < 16"
    by (simp add: drop_bit_eq_div unat_div_distrib)
  have "and b 0x0F = take_bit 4 b" by (simp add: take_bit_eq_mask mask_eq_exp_minus_1)
  then show "unat (and b 0x0F) < 16"
    by (simp add: take_bit_eq_mod unat_mod_distrib)
qed

lemma nibbles_inj:
  fixes b c :: u8
  assumes "drop_bit 4 b = drop_bit 4 c" and "and b 0x0F = and c 0x0F"
  shows "b = c"
proof -
  have m: "and x 0x0F = take_bit 4 x" for x :: u8 by (simp add: take_bit_eq_mask mask_eq_exp_minus_1)
  have "b = push_bit 4 (drop_bit 4 b) + take_bit 4 b" by (simp add: bits_ident)
  also have "\<dots> = push_bit 4 (drop_bit 4 c) + take_bit 4 c" using assms by (simp add: m)
  also have "\<dots> = c" by (simp add: bits_ident)
  finally show ?thesis .
qed

lemma hex_bytes_Cons:
  "hex_bytes (b # bs) = hex_digit (unat (drop_bit 4 b)) # hex_digit (unat (and b 0x0F)) # hex_bytes bs"
  by (simp add: hex_bytes_def)

lemma hex_bytes_Nil [simp]: "hex_bytes [] = []"
  by (simp add: hex_bytes_def)

lemma length_hex_bytes [simp]: "length (hex_bytes bs) = 2 * length bs"
  by (induction bs) (simp_all add: hex_bytes_Cons)

lemma hex_bytes_inj [simp]: "hex_bytes a = hex_bytes b \<longleftrightarrow> a = b"
proof
  show "hex_bytes a = hex_bytes b \<Longrightarrow> a = b"
  proof (induction a arbitrary: b)
    case Nil
    then show ?case by (cases b) (auto simp: hex_bytes_Cons)
  next
    case (Cons x a)
    then obtain y b' where b: "b = y # b'" by (cases b) (auto simp: hex_bytes_Cons)
    have "unat (drop_bit 4 x) = unat (drop_bit 4 y)" "unat (and x 0x0F) = unat (and y 0x0F)"
      using Cons.prems b nibbles_bound [of x] nibbles_bound [of y] hex_digit_inj
      by (auto simp: hex_bytes_Cons)
    then have "drop_bit 4 x = drop_bit 4 y" "and x 0x0F = and y 0x0F"
      by (blast intro: unsigned_word_eqI)+
    then have "x = y" by (rule nibbles_inj)
    with Cons b show ?case by (simp add: hex_bytes_Cons)
  qed
qed simp

lemma hex_alphabet_ok: "\<forall>c \<in> set ''0123456789abcdef''. key_byte_ok c \<and> is_ascii_hexdigit c
    \<and> \<not> is_continuation c \<and> c \<noteq> CHR ''.''"
  by (simp add: key_byte_ok_def is_ascii_alphanumeric_def is_ascii_hexdigit_def is_continuation_def)

lemma hex_digit_ok: "n < 16 \<Longrightarrow> key_byte_ok (hex_digit n) \<and> is_ascii_hexdigit (hex_digit n)
    \<and> \<not> is_continuation (hex_digit n) \<and> hex_digit n \<noteq> CHR ''.''"
  using nth_mem [of n "''0123456789abcdef''"] hex_alphabet_ok
  unfolding hex_digit_def by fastforce

lemma set_hex_bytes: "c \<in> set (hex_bytes bs) \<Longrightarrow> \<exists>n < 16. c = hex_digit n"
  using nibbles_bound by (induction bs) (auto simp: hex_bytes_Cons)

lemma hex_bytes_segment: "bs \<noteq> [] \<Longrightarrow> segment_ok (hex_bytes bs)"
  using hex_digit_ok set_hex_bytes [of _ bs]
  by (cases bs) (auto simp: segment_ok_def list_all_iff hex_bytes_Cons nibbles_bound)

lemma hex_digit_props [simp]:
  assumes "n < 16"
  shows "key_byte_ok (hex_digit n)" "is_ascii_hexdigit (hex_digit n)" "\<not> is_continuation (hex_digit n)"
    "hex_digit n \<noteq> CHR ''.''"
  using hex_digit_ok [OF assms] by simp_all

text \<open>What the key constructors accept and what the key tells about the id.\<close>

lemma str_get_prefix_Some: "str_get_prefix s n = Some p \<Longrightarrow> p = take n s \<and> n \<le> length s"
  by (auto simp: str_get_prefix_def is_char_boundary_def split: if_splits)

lemma object_key_for_id_Ok:
  assumes "object_key_for_id grp oid = Ok k"
  shows "k = ObjectKey (grp @ ''/'' @ take 2 oid @ ''/'' @ oid)" and "key_valid k" and "2 \<le> length oid"
  using assms
  by (auto simp: object_key_for_id_def result_simps key_valid_def dest: str_get_prefix_Some)

lemma object_key_for_id_inj:
  assumes "object_key_for_id grp a = Ok k" and "object_key_for_id grp b = Ok k"
  shows "a = b"
proof -
  have "take 2 a @ ''/'' @ a = take 2 b @ ''/'' @ b"
    using object_key_for_id_Ok(1) [OF assms(1)] object_key_for_id_Ok(1) [OF assms(2)] by simp
  moreover have "length (take 2 a) = 2" "length (take 2 b) = 2"
    using object_key_for_id_Ok(3) [OF assms(1)] object_key_for_id_Ok(3) [OF assms(2)] by simp_all
  ultimately show ?thesis by (simp add: append_eq_append_conv)
qed

lemma object_key_for_commit_Ok:
  "object_key_for_commit sid = Ok k \<Longrightarrow> k = ObjectKey (''commits/'' @ sid) \<and> key_valid k"
  by (auto simp: object_key_for_commit_def result_simps key_valid_def)

lemma object_key_for_forget_marker_Ok:
  "object_key_for_forget_marker sid = Ok k \<Longrightarrow> k = ObjectKey (''forgets/'' @ sid) \<and> key_valid k"
  by (auto simp: object_key_for_forget_marker_def result_simps key_valid_def)

lemma lowercase_ok: "c \<in> set ''abcdefghijklmnopqrstuvwxyz'' \<Longrightarrow> key_byte_ok c"
proof -
  have "\<forall>c \<in> set ''abcdefghijklmnopqrstuvwxyz''. key_byte_ok c"
    by (simp add: key_byte_ok_def is_ascii_alphanumeric_def)
  then show "c \<in> set ''abcdefghijklmnopqrstuvwxyz'' \<Longrightarrow> key_byte_ok c" by blast
qed

lemma lowercase_segment: "s \<noteq> [] \<Longrightarrow> \<forall>c \<in> set s. c \<in> set ''abcdefghijklmnopqrstuvwxyz-'' \<Longrightarrow> segment_ok s"
proof -
  have ok: "\<forall>c \<in> set ''abcdefghijklmnopqrstuvwxyz-''. key_byte_ok c \<and> c \<noteq> CHR ''.''"
    by (simp add: key_byte_ok_def is_ascii_alphanumeric_def)
  assume "s \<noteq> []" and letters: "\<forall>c \<in> set s. c \<in> set ''abcdefghijklmnopqrstuvwxyz-''"
  have "CHR ''.'' \<notin> set s" using letters ok by blast
  then have "s \<noteq> ''.''" "s \<noteq> ''..''" by force+
  moreover have "list_all key_byte_ok s" using letters ok unfolding list_all_iff by blast
  ultimately show "segment_ok s" using \<open>s \<noteq> []\<close> by (simp add: segment_ok_def)
qed

definition object_groups :: "string list" where
  "object_groups = [''objects/chunk'', ''objects/index'', ''objects/manifest'']"

lemma object_groups_ok: "g \<in> set object_groups \<Longrightarrow> list_all segment_ok (split_on CHR ''/'' g)"
proof -
  have "\<forall>g \<in> set object_groups. list_all segment_ok (split_on CHR ''/'' g)"
    by (simp add: object_groups_def segment_ok_def lowercase_ok)
  then show "g \<in> set object_groups \<Longrightarrow> ?thesis" by blast
qed

lemma object_key_for_hex_id:
  assumes "2 \<le> length oid" and "\<forall>c \<in> set oid. \<exists>n < 16. c = hex_digit n"
    and "grp \<in> set object_groups"
  shows "object_key_for_id grp oid = Ok (ObjectKey (grp @ ''/'' @ take 2 oid @ ''/'' @ oid))"
proof -
  obtain a b rest where oid: "oid = a # b # rest"
    using assms(1) by (cases oid; cases "tl oid") auto
  then have digits: "key_byte_ok a" "key_byte_ok b" "\<not> is_continuation b" "a \<noteq> CHR ''.''" "b \<noteq> CHR ''.''"
    using assms(2) by auto
  have free: "CHR ''/'' \<notin> set oid"
    using assms(2) hex_digit_props(1) key_byte_not_separator(1) by metis
  have bound: "is_char_boundary oid 2"
  proof (cases rest)
    case (Cons c cs)
    then have "\<not> is_continuation c" using assms(2) oid by auto
    then show ?thesis by (simp add: is_char_boundary_def oid Cons)
  qed (simp add: is_char_boundary_def oid)
  have "take 2 oid = [a, b]" by (simp add: oid)
  moreover have "split_on CHR ''/'' [a, b] = [[a, b]]" using free oid by (intro split_on_free) simp
  ultimately have segs: "split_on CHR ''/'' (grp @ ''/'' @ take 2 oid @ ''/'' @ oid)
      = split_on CHR ''/'' grp @ [[a, b], oid]"
    using split_on_join [of "CHR ''/''" grp "take 2 oid @ ''/'' @ oid"]
      split_on_join [of "CHR ''/''" "[a, b]" oid] split_on_free [OF free] by simp
  have "list_all key_byte_ok oid" using assms(2) by (auto simp: list_all_iff)
  then have "segment_ok oid" "segment_ok [a, b]"
    using digits oid by (auto simp: segment_ok_def)
  moreover have "list_all segment_ok (split_on CHR ''/'' grp)"
    using assms(3) by (rule object_groups_ok)
  ultimately have "object_key_new (grp @ ''/'' @ take 2 oid @ ''/'' @ oid)
      = Ok (ObjectKey (grp @ ''/'' @ take 2 oid @ ''/'' @ oid))"
    by (simp only: object_key_new_Ok segs) simp
  then show ?thesis
    using bound by (simp add: object_key_for_id_def str_get_prefix_def)
qed

section \<open>Reading back what was written\<close>

lemma object_key_context: "key_valid k \<Longrightarrow>
    object_context_new knd (as_str k) = Ok \<lparr>format_version = FORMAT_VERSION_V0, kind = knd, object_name = as_str k\<rparr>"
proof -
  assume valid: "key_valid k"
  then have "as_str k \<noteq> []" using segments_ok_shape(1) by (simp add: key_valid_def)
  moreover have "CHR 0x00 \<notin> set (as_str k)"
  proof
    assume "CHR 0x00 \<in> set (as_str k)"
    then obtain p where "p \<in> set (split_on CHR ''/'' (as_str k))" "CHR 0x00 \<in> set p"
      using segments_cover [of "CHR 0x00" "as_str k" "CHR ''/''"] by auto
    with valid have "key_byte_ok CHR 0x00"
      by (auto simp: key_valid_def list_all_iff segment_ok_def)
    then show False by (simp add: key_byte_ok_def is_ascii_alphanumeric_def)
  qed
  ultimately show ?thesis by (simp add: object_context_new_def object_context_for_format_def)
qed

lemma encrypt_repository_object_Ok:
  assumes "encrypt_repository_object L key knd k plain w = (Ok b, w')"
    and "aead_correct (lib_crypto L)" and "codec_ok (object_codec L)"
  shows "decrypt_repository_object L key knd k b = Ok plain"
  using assms(1,2) codec_okD [OF assms(3)]
  by (auto simp: encrypt_repository_object_def decrypt_repository_object_def prog_simps result_simps
      encrypt_object_def decrypt_object_def encode_encrypted_object_def encrypt_with_key_def
      decrypt_with_key_def aead_correct_def Let_def random_nonce_def random_bytes_def
      split: if_splits)

lemma encrypt_repository_object_store:
  "encrypt_repository_object L key knd k plain w = (r, w') \<Longrightarrow> w_store w' = w_store w"
  by (auto simp: encrypt_repository_object_def andThen_def on_rng_def lift_result_def split: prod.splits sum.splits)

lemma keeps_encrypt [keeps_intros]:
  assumes "\<And>w c. I w \<Longrightarrow> I (w\<lparr>w_rng := c\<rparr>)"
  shows "keeps I (encrypt_repository_object L key knd k plain)"
  unfolding encrypt_repository_object_def by (intro keeps_intros assms)

text \<open>\<open>json_bytes_read\<close>: reading the object \<open>b\<close> under key \<open>k\<close> yields the value.\<close>

definition json_bytes_read ::
  "library \<Rightarrow> subkey \<Rightarrow> object_kind \<Rightarrow> object_key \<Rightarrow> 'a codec \<Rightarrow> bytes \<Rightarrow> core_error + 'a" where
  "json_bytes_read L key knd k codec b =
     bindR (decrypt_repository_object L key knd k b) (\<lambda>plaintext.
     map_err (MetadataDecode k) (from_slice codec plaintext))"

lemma written_json_reads:
  assumes "to_vec codec x = Ok plain" and "codec_ok codec"
    and "encrypt_repository_object L key knd k plain w = (Ok b, w')"
    and "aead_correct (lib_crypto L)" and "codec_ok (object_codec L)"
  shows "json_bytes_read L key knd k codec b = Ok x"
  using encrypt_repository_object_Ok [OF assms(3,4,5)] codec_okD [OF assms(2,1)]
  by (simp add: json_bytes_read_def)

end
