(* ===== verification/Ferry_View.thy ===== *)
theory Ferry_View
  imports Ferry_Objects
begin

text \<open>
  The abstract repository: a map from keys to bytes with the pure operations of
  \<open>map_store_ops\<close>. Reading code is the same definition at the concrete store and at this map;
  \<open>simulates\<close> says that what it returns over a store is what it returns over the contents of the
  store, so that the meaning of stored snapshots can be studied on maps. \<open>stable\<close> says that a
  result is kept when the map grows, which is all that later backups do to it.
\<close>

section \<open>The abstract store\<close>

type_synonym object_map = "object_key \<Rightarrow> bytes option"

definition map_store_ops :: "object_map store_ops" where
  "map_store_ops =
     \<lparr>capabilities = capabilities_in_memory_fake,
      put_if_absent = (\<lambda>k b m. case m k of
          None \<Rightarrow> (Ok Created, m(k \<mapsto> b))
        | Some b' \<Rightarrow> if b' = b then (Ok AlreadyPresent, m) else (Err (ObjectAlreadyExists k), m)),
      get_object = (\<lambda>k m. (ok_or (ObjectNotFound k) (m k), m)),
      object_exists = (\<lambda>k m. (Ok (m k \<noteq> None), m)),
      delete_object = (\<lambda>k m. (Ok (), m(k := None))),
      list_prefix = (\<lambda>p m. (Ok (sorted_list_of_set {k. m k \<noteq> None \<and> prefix_contains p k}), m))\<rparr>"

definition repository_roots :: "string list" where
  "repository_roots = [''commits'', ''forgets'', ''key-slots'', ''objects'']"

text \<open>The keys the core crate uses.\<close>

definition repo_key :: "object_key \<Rightarrow> bool" where
  "repo_key k \<longleftrightarrow>
     as_str k = ''bootstrap'' \<or> list_ex (\<lambda>root. prefix (root @ ''/'') (as_str k)) repository_roots"

text \<open>A store on which a repository can live: it supports the keys the core crate uses.\<close>

locale repository_store = object_store ops contents inv usable
  for ops :: "'s store_ops" and contents and inv and usable +
  assumes repo_usable: "\<lbrakk>key_valid k; repo_key k\<rbrakk> \<Longrightarrow> usable k"
    and contents_usable: "\<lbrakk>inv s; contents s k = Some b\<rbrakk> \<Longrightarrow> usable k"

text \<open>The same over a store whose reads may lag behind.\<close>

locale eventual_repository = eventual_store ops contents inv usable
  for ops :: "'s store_ops" and contents and inv and usable +
  assumes repo_supported: "\<lbrakk>key_valid k; repo_key k\<rbrakk> \<Longrightarrow> usable k"

sublocale repository_store \<subseteq> eventual_repository
  by unfold_locales (rule repo_usable)

context repository_store
begin

lemma eventual: "eventual_repository ops contents inv usable"
  by unfold_locales

end

interpretation fake: repository_store fake_store_ops bt_get bt_wf "\<lambda>_. True"
  by unfold_locales (rule TrueI)+

interpretation retried_fake: repository_store retried_fake_ops "bt_get \<circ> ps_inner" "bt_wf \<circ> ps_inner"
  "\<lambda>_. True"
  by unfold_locales (rule TrueI)+

lemma prefix_contains_slash: "prefix_contains (ObjectKeyPrefix p) (ObjectKey (p @ ''/'' @ s))"
  by (simp add: prefix_contains_def strip_prefix_str_def)

lemma repo_key_under: "p \<in> set repository_roots \<Longrightarrow> repo_key (ObjectKey (p @ ''/'' @ s))"
  unfolding repo_key_def list_ex_iff by (metis append_assoc object_key.sel prefixI)

lemma repository_root_mem:
  "''commits'' \<in> set repository_roots"
  "''forgets'' \<in> set repository_roots" "''key-slots'' \<in> set repository_roots"
  "''objects'' \<in> set repository_roots"
  by (simp_all add: repository_roots_def)

lemma repo_key_commit: "object_key_for_commit sid = Ok k \<Longrightarrow> key_valid k \<and> repo_key k"
  using repo_key_under [OF repository_root_mem(1), of sid] object_key_for_commit_Ok [of sid k]
  by auto

lemma repo_key_forget: "object_key_for_forget_marker sid = Ok k \<Longrightarrow> key_valid k \<and> repo_key k"
  using repo_key_under [OF repository_root_mem(2), of sid] object_key_for_forget_marker_Ok [of sid k]
  by auto

lemma repo_key_object:
  assumes "object_key_for_id grp oid = Ok k" and "grp \<in> set object_groups"
  shows "key_valid k \<and> repo_key k"
proof -
  obtain g where "grp = ''objects'' @ ''/'' @ g"
    using assms(2) by (auto simp: object_groups_def)
  then have "repo_key k"
    using object_key_for_id_Ok(1) [OF assms(1)] repo_key_under [OF repository_root_mem(4)]
    by simp
  with object_key_for_id_Ok(2) [OF assms(1)] show ?thesis by simp
qed

section \<open>Results that survive growth\<close>

definition map_world :: "object_map \<Rightarrow> nat \<Rightarrow> object_map world" where
  "map_world m c = \<lparr>w_store = m, w_rng = c\<rparr>"

text \<open>A reader over maps: it leaves the world alone, and what it returns it returns over larger maps.\<close>

definition stable :: "(object_map world, 'e, 'a) prog \<Rightarrow> bool" where
  "stable p \<longleftrightarrow>
     (\<forall>w. snd (p w) = w) \<and>
     (\<forall>m m' c c' x. m \<subseteq>\<^sub>m m' \<longrightarrow> fst (p (map_world m c)) = Ok x \<longrightarrow> fst (p (map_world m' c')) = Ok x)"

named_theorems stable_intros

lemma stable_lift [stable_intros]: "stable (lift_result r)"
  and stable_ret [stable_intros]: "stable (ret x)"
  by (simp_all add: stable_def)

lemma stable_snd: "stable p \<Longrightarrow> p w = (r, w') \<Longrightarrow> w' = w"
  by (metis snd_conv stable_def)

lemma stable_eta: "stable p \<Longrightarrow> p w = (fst (p w), w)"
  by (metis prod.collapse stable_def)

lemma stable_andThen [stable_intros]:
  assumes m: "stable m" and f: "\<And>x. stable (f x)"
  shows "stable (andThen m f)"
proof -
  have eq: "andThen m f w = (case fst (m w) of Err e \<Rightarrow> (Err e, w) | Ok x \<Rightarrow> (fst (f x w), w))" for w
    using stable_eta [OF m, of w] stable_eta [OF f, of _ w]
    by (auto simp: andThen_def split: sum.splits prod.splits)
  show ?thesis
    unfolding stable_def
  proof (intro conjI allI impI)
    show "snd (andThen m f w) = w" for w by (simp add: eq split: sum.splits)
    fix a b c d y
    assume sub: "a \<subseteq>\<^sub>m b" and y: "fst (andThen m f (map_world a c)) = Ok y"
    then obtain x where "fst (m (map_world a c)) = Ok x" "fst (f x (map_world a c)) = Ok y"
      by (auto simp: eq split: sum.splits)
    then have "fst (m (map_world b d)) = Ok x" "fst (f x (map_world b d)) = Ok y"
      using m f sub unfolding stable_def by blast+
    then show "fst (andThen m f (map_world b d)) = Ok y" by (simp add: eq)
  qed
qed

lemma map_error_apply: "map_error g m w = (map_err g (fst (m w)), snd (m w))"
  by (simp add: map_error_def split: prod.splits)

lemma stable_map_error [stable_intros]: "stable m \<Longrightarrow> stable (map_error g m)"
  by (simp add: stable_def map_error_apply map_err_Ok_iff)

lemma stable_for_each [stable_intros]:
  "(\<And>acc x. stable (f acc x)) \<Longrightarrow> stable (for_each xs f acc)"
  by (induction xs arbitrary: acc) (simp_all add: stable_ret stable_andThen)

lemma stable_get [stable_intros]: "stable (on_store (map_error f (get_object map_store_ops k)))"
  by (auto simp: stable_def on_store_def map_error_def map_store_ops_def map_world_def map_le_def
      result_simps dom_def)

lemma stableD:
  assumes "stable p" and "m \<subseteq>\<^sub>m m'" and "p (map_world m c) = (Ok x, w)"
  shows "p (map_world m' c') = (Ok x, map_world m' c')"
  using assms stable_eta [OF assms(1)] unfolding stable_def by (metis fst_conv)

section \<open>Reading a store is reading its contents\<close>

named_theorems simulates_intros

context eventual_repository
begin

definition view :: "'s world \<Rightarrow> object_map world" where
  "view w = map_world (contents (w_store w)) (w_rng w)"

text \<open>
  \<open>simulates J p q Q\<close>: on contents that satisfy \<open>J\<close>, the program \<open>p\<close> over the store changes nothing that the contents show,
  and when it succeeds, \<open>q\<close> over the contents succeeds with the same value, which satisfies \<open>Q\<close>.
\<close>

definition simulates ::
  "(object_map \<Rightarrow> bool) \<Rightarrow> ('s world, 'e, 'a) prog \<Rightarrow> (object_map world, 'e, 'a) prog \<Rightarrow> ('a \<Rightarrow> bool) \<Rightarrow> bool" where
  "simulates J p q Q \<longleftrightarrow> (\<forall>w r w'. inv (w_store w) \<longrightarrow> J (contents (w_store w)) \<longrightarrow> p w = (r, w') \<longrightarrow>
     inv (w_store w') \<and> view w' = view w \<and>
     (\<forall>x. r = Ok x \<longrightarrow> q (view w) = (Ok x, view w) \<and> Q x))"

lemma simulatesD:
  assumes "simulates J p q Q" and "inv (w_store w)" and "J (contents (w_store w))" and "p w = (r, w')"
  shows "inv (w_store w')" "view w' = view w" "r = Ok x \<Longrightarrow> q (view w) = (Ok x, view w)"
    "r = Ok x \<Longrightarrow> Q x"
  using assms unfolding simulates_def by blast+

lemma simulates_weaken: "simulates J p q Q \<Longrightarrow> (\<And>x. Q x \<Longrightarrow> R x) \<Longrightarrow> simulates J p q R"
  unfolding simulates_def by blast

lemma simulates_lift [simulates_intros]: "simulates J (lift_result r) (lift_result r) (\<lambda>x. r = Ok x)"
  by (auto simp: simulates_def)

lemma simulates_ret [simulates_intros]: "simulates J (ret x) (ret x) (\<lambda>y. y = x)"
  by (auto simp: simulates_def)

lemma simulates_andThen [simulates_intros]:
  assumes m: "simulates J m m' Q" and f: "\<And>x. Q x \<Longrightarrow> simulates J (f x) (f' x) R"
  shows "simulates J (andThen m f) (andThen m' f') R"
  unfolding simulates_def
proof (intro allI impI)
  fix w r w'
  assume inv: "inv (w_store w)" and J: "J (contents (w_store w))" and run: "andThen m f w = (r, w')"
  obtain r1 w1 where m1: "m w = (r1, w1)" by fastforce
  have inv1: "inv (w_store w1)" and view1: "view w1 = view w"
    using simulatesD [OF m inv J m1] by blast+
  have J1: "J (contents (w_store w1))" using J view1 by (simp add: view_def map_world_def)
  show "inv (w_store w') \<and> view w' = view w \<and>
      (\<forall>x. r = Ok x \<longrightarrow> andThen m' f' (view w) = (Ok x, view w) \<and> R x)"
  proof (cases r1)
    case (Inl e)
    then show ?thesis using run m1 inv1 view1 by (auto simp: andThen_def)
  next
    case (Inr x)
    then have q: "m' (view w) = (Ok x, view w)" "Q x"
      using simulatesD(3,4) [OF m inv J m1] by blast+
    have "f x w1 = (r, w')" using run m1 Inr by (simp add: andThen_def)
    with f [OF q(2)] inv1 J1 show ?thesis
      using q(1) view1 unfolding simulates_def by (auto simp: andThen_def)
  qed
qed

lemma simulates_map_error [simulates_intros]:
  "simulates J m m' Q \<Longrightarrow> simulates J (map_error g m) (map_error g m') Q"
proof -
  assume m: "simulates J m m' Q"
  show ?thesis
    unfolding simulates_def
  proof (intro allI impI)
    fix w r w'
    assume inv: "inv (w_store w)" and J: "J (contents (w_store w))" and run: "map_error g m w = (r, w')"
    then obtain r1 where step: "m w = (r1, w')" and r: "r = map_err g r1"
      by (cases "m w") (auto simp: map_error_apply)
    show "inv (w_store w') \<and> view w' = view w \<and>
        (\<forall>x. r = Ok x \<longrightarrow> map_error g m' (view w) = (Ok x, view w) \<and> Q x)"
    proof (intro conjI allI impI)
      show "inv (w_store w')" "view w' = view w" using simulatesD [OF m inv J step] by blast+
      fix x assume "r = Ok x"
      then have ok: "r1 = Ok x" using r by (cases r1) auto
      then show "map_error g m' (view w) = (Ok x, view w)" and "Q x"
        using simulatesD(3,4) [OF m inv J step ok] by (simp_all add: map_error_def)
    qed
  qed
qed

lemma simulates_for_each:
  assumes "\<And>acc x. x \<in> set xs \<Longrightarrow> simulates J (f acc x) (f' acc x) (\<lambda>_. True)"
  shows "simulates J (for_each xs f acc) (for_each xs f' acc) (\<lambda>_. True)"
  using assms
proof (induction xs arbitrary: acc)
  case Nil
  show ?case unfolding for_each.simps by (rule simulates_weaken [OF simulates_ret]) simp
next
  case (Cons x xs)
  show ?case unfolding for_each.simps
    by (rule simulates_andThen [OF Cons.prems [of x]]) (simp_all add: Cons.IH Cons.prems)
qed

lemma simulates_get:
  assumes "usable k"
  shows "simulates J (on_store (map_error g (get_object ops k)))
    (on_store (map_error g (get_object map_store_ops k))) (\<lambda>_. True)"
proof -
  have "inv s' \<and> contents s' = contents s \<and> (\<forall>b. r = Ok b \<longrightarrow> contents s k = Some b)"
    if "inv s" "get_object ops k s = (r, s')" for s r s'
    using get_keeps [OF that(1) assms that(2)] get_reads [OF that(1) assms] that(2) by blast
  then show ?thesis
    by (auto simp: simulates_def on_store_def map_error_apply map_store_ops_def view_def map_world_def
        result_simps split: prod.splits) (metis prod.collapse)+
qed

text \<open>The rules for programs whose value does not matter to the continuation, in the order they are tried.\<close>

abbreviation sim :: "(object_map \<Rightarrow> bool) \<Rightarrow> ('s world, 'e, 'a) prog \<Rightarrow> (object_map world, 'e, 'a) prog \<Rightarrow> bool" where
  "sim J p q \<equiv> simulates J p q (\<lambda>_. True)"

lemma sim_bind_lift:
  "(\<And>x. r = Ok x \<Longrightarrow> sim J (f x) (f' x)) \<Longrightarrow> sim J (andThen (lift_result r) f) (andThen (lift_result r) f')"
  by (rule simulates_andThen [OF simulates_lift])

lemma sim_bind: "sim J m m' \<Longrightarrow> (\<And>x. sim J (f x) (f' x)) \<Longrightarrow> sim J (andThen m f) (andThen m' f')"
  by (rule simulates_andThen)

lemma sim_lift: "sim J (lift_result r) (lift_result r)"
  by (rule simulates_weaken [OF simulates_lift]) simp

lemma sim_ret: "sim J (ret x) (ret x)"
  by (rule simulates_weaken [OF simulates_ret]) simp

lemma sim_get: "key_valid k \<Longrightarrow> repo_key k \<Longrightarrow>
    sim J (on_store (map_error g (get_object ops k))) (on_store (map_error g (get_object map_store_ops k)))"
  by (rule simulates_get) (rule repo_supported)

lemmas sim_rules = sim_bind_lift sim_bind sim_lift sim_ret simulates_map_error simulates_for_each

lemma sim_read_json_with_bytes:
  "key_valid k \<Longrightarrow> repo_key k \<Longrightarrow>
    sim J (read_encrypted_json_object_with_bytes L ops key knd k codec)
        (read_encrypted_json_object_with_bytes L map_store_ops key knd k codec)"
  unfolding read_encrypted_json_object_with_bytes_def Let_def
  by (rule sim_bind [OF sim_get]) (assumption | rule sim_rules)+

lemma sim_read_json:
  "key_valid k \<Longrightarrow> repo_key k \<Longrightarrow>
    sim J (read_encrypted_json_object L ops key knd k codec)
        (read_encrypted_json_object L map_store_ops key knd k codec)"
  unfolding read_encrypted_json_object_def
  by (rule sim_bind [OF sim_read_json_with_bytes]) (auto intro: sim_rules)

text \<open>The effect of single calls, for programs that write: from contents \<open>m\<close> to the next ones.\<close>

abbreviation holds :: "(object_map \<Rightarrow> bool) \<Rightarrow> 's world \<Rightarrow> bool" where
  "holds A w \<equiv> inv (w_store w) \<and> A (contents (w_store w))"

lemma triple_reader:
  assumes "sim (\<lambda>_. True) p q"
  shows "triple (holds A) p (\<lambda>x. holds (\<lambda>m. A m \<and> (\<exists>n. q (map_world m n) = (Ok x, map_world m n)))) (holds A)"
proof (rule tripleI)
  fix w x w' assume w: "holds A w" and run: "p w = (Ok x, w')"
  then have "inv (w_store w')" "view w' = view w" "q (view w) = (Ok x, view w)"
    using simulatesD [OF assms _ _ run] by simp_all
  then show "holds (\<lambda>m. A m \<and> (\<exists>n. q (map_world m n) = (Ok x, map_world m n))) w'"
    using w by (auto simp: view_def map_world_def)
next
  fix w e w' assume "holds A w" "p w = (Err e, w')"
  then show "holds A w'"
    using simulatesD(1,2) [OF assms, of w "Err e" w'] by (simp add: view_def map_world_def)
qed

lemma triple_bind_rng:
  assumes "\<And>x n n'. g n = (Ok x, n') \<Longrightarrow> triple (holds A) (f x) Q E" and "\<And>w. holds A w \<Longrightarrow> E w"
  shows "triple (holds A) (andThen (on_rng g) f) Q E"
proof (rule tripleI)
  fix w y w' assume w: "holds A w" and "andThen (on_rng g) f w = (Ok y, w')"
  then obtain x n where "g (w_rng w) = (Ok x, n)" "f x (w\<lparr>w_rng := n\<rparr>) = (Ok y, w')"
    by (auto simp: andThen_Ok_iff on_rng_Ok_iff)
  then show "Q y w'" using tripleD(1) [OF assms(1), of _ x n "w\<lparr>w_rng := n\<rparr>"] w by simp
next
  fix w e w' assume w: "holds A w" and fail: "andThen (on_rng g) f w = (Err e, w')"
  obtain r n where g: "g (w_rng w) = (r, n)" by fastforce
  show "E w'"
  proof (cases r)
    case (Inl d)
    then have "w' = w\<lparr>w_rng := n\<rparr>" using g fail by (simp add: andThen_def on_rng_def)
    then show ?thesis using assms(2) w by simp
  next
    case (Inr x)
    then have "f x (w\<lparr>w_rng := n\<rparr>) = (Err e, w')" using g fail by (simp add: andThen_def on_rng_def)
    then show ?thesis using tripleD(2) [OF assms(1), of _ x n "w\<lparr>w_rng := n\<rparr>"] g Inr w by simp
  qed
qed

end

context repository_store
begin

text \<open>The callers sort the listing, so its order does not matter.\<close>

lemma simulates_list_sorted:
  assumes p: "listed_prefix p" and f: "\<And>ks. (\<And>k. k \<in> set ks \<Longrightarrow> usable k) \<Longrightarrow> simulates J (f ks) (f' ks) R"
  shows "simulates J (andThen (on_store (map_error g (list_prefix ops p))) (\<lambda>ks. f (sort ks)))
    (andThen (on_store (map_error g (list_prefix map_store_ops p))) (\<lambda>ks. f' (sort ks))) R"
  unfolding simulates_def
proof (intro allI impI)
  fix w r w'
  assume inv: "inv (w_store w)" and J: "J (contents (w_store w))"
    and run: "andThen (on_store (map_error g (list_prefix ops p))) (\<lambda>ks. f (sort ks)) w = (r, w')"
  obtain l s1 where list: "list_prefix ops p (w_store w) = (l, s1)" by fastforce
  let ?w1 = "w\<lparr>w_store := s1\<rparr>"
  have inv1: "inv (w_store ?w1)" and view1: "view ?w1 = view w"
    using list_frame [OF inv list] by (simp_all add: view_def)
  have J1: "J (contents (w_store ?w1))" using J list_frame [OF inv list] by simp
  show "inv (w_store w') \<and> view w' = view w \<and>
      (\<forall>x. r = Ok x \<longrightarrow>
        andThen (on_store (map_error g (list_prefix map_store_ops p))) (\<lambda>ks. f' (sort ks)) (view w)
          = (Ok x, view w) \<and> R x)"
  proof (cases l)
    case (Inl e)
    then show ?thesis
      using run list inv1 view1 by (auto simp: andThen_def on_store_def map_error_def)
  next
    case (Inr ks)
    have ks: "distinct ks" "set ks = {k. contents (w_store w) k \<noteq> None \<and> prefix_contains p k}"
      using list_ok [OF inv p list [unfolded Inr]] contents_usable [OF inv] by auto
    have us: "usable k" if "k \<in> set (sort ks)" for k
      using that ks(2) contents_usable [OF inv] by auto
    have "sort ks = sorted_list_of_set (set ks)"
      using ks(1) by (simp add: sorted_list_of_set_sort_remdups distinct_remdups_id)
    then have abs: "list_prefix map_store_ops p (w_store (view w)) = (Ok (sort ks), w_store (view w))"
      using ks(2) by (simp add: map_store_ops_def view_def map_world_def)
    have "f (sort ks) ?w1 = (r, w')"
      using run list Inr by (simp add: andThen_def on_store_def map_error_def)
    moreover have "simulates J (f (sort ks)) (f' (sort ks)) R" by (rule f) (rule us)
    ultimately have "inv (w_store w') \<and> view w' = view w \<and>
        (\<forall>x. r = Ok x \<longrightarrow> f' (sort ks) (view w) = (Ok x, view w) \<and> R x)"
      using inv1 J1 view1 unfolding simulates_def by metis
    then show ?thesis
      using abs by (auto simp: andThen_def on_store_def map_error_def sorted_sort_id)
  qed
qed

lemma triple_object_exists:
  assumes "usable k"
  shows "triple (holds A) (on_store (map_error g (object_exists ops k)))
    (\<lambda>e. holds (\<lambda>m. A m \<and> (e \<longleftrightarrow> m k \<noteq> None))) (holds A)"
proof (rule tripleI)
  fix w x w' assume w: "holds A w" and "on_store (map_error g (object_exists ops k)) w = (Ok x, w')"
  then obtain s' where s': "object_exists ops k (w_store w) = (Ok x, s')" "w' = w\<lparr>w_store := s'\<rparr>"
    by (auto simp: on_store_Ok_iff map_error_Ok_iff)
  show "holds (\<lambda>m. A m \<and> (x \<longleftrightarrow> m k \<noteq> None)) w'"
    using exists_frame [OF _ assms s'(1)] exists_ok [OF _ assms s'(1)] w s'(2) by simp
next
  fix w e w' assume w: "holds A w" and run: "on_store (map_error g (object_exists ops k)) w = (Err e, w')"
  obtain r s' where s': "object_exists ops k (w_store w) = (r, s')" by fastforce
  then have "w' = w\<lparr>w_store := s'\<rparr>" using run by (simp add: on_store_def map_error_def)
  then show "holds A w'" using exists_frame [OF _ assms s'] w by simp
qed

lemma triple_put_object:
  assumes "usable k"
  shows "triple (holds (\<lambda>m. m = m0)) (on_store (map_error g (put_if_absent ops k b)))
    (\<lambda>_. holds (\<lambda>m. (m = m0 \<or> m0 k = None \<and> m = m0(k \<mapsto> b)) \<and> m k = Some b))
    (holds (\<lambda>m. m = m0 \<or> m0 k = None \<and> m = m0(k \<mapsto> b)))"
proof (rule tripleI)
  fix w x w' assume w: "holds (\<lambda>m. m = m0) w" and "on_store (map_error g (put_if_absent ops k b)) w = (Ok x, w')"
  then obtain s' where s': "put_if_absent ops k b (w_store w) = (Ok x, s')" "w' = w\<lparr>w_store := s'\<rparr>"
    by (auto simp: on_store_Ok_iff map_error_Ok_iff)
  show "holds (\<lambda>m. (m = m0 \<or> m0 k = None \<and> m = m0(k \<mapsto> b)) \<and> m k = Some b) w'"
    using put_frame [OF _ assms s'(1)] put_ok [OF _ assms s'(1)] w s'(2) by simp
next
  fix w e w' assume w: "holds (\<lambda>m. m = m0) w" and run: "on_store (map_error g (put_if_absent ops k b)) w = (Err e, w')"
  obtain r s' where s': "put_if_absent ops k b (w_store w) = (r, s')" by fastforce
  then have "w' = w\<lparr>w_store := s'\<rparr>" using run by (simp add: on_store_def map_error_def)
  then show "holds (\<lambda>m. m = m0 \<or> m0 k = None \<and> m = m0(k \<mapsto> b)) w'" using put_frame [OF _ assms s'] w by simp
qed


end

lemma stable_read_json_with_bytes [stable_intros]:
  "stable (read_encrypted_json_object_with_bytes L map_store_ops key knd k codec)"
  unfolding read_encrypted_json_object_with_bytes_def Let_def by (intro stable_intros)

lemma stable_read_json [stable_intros]:
  "stable (read_encrypted_json_object L map_store_ops key knd k codec)"
  unfolding read_encrypted_json_object_def case_prod_beta by (intro stable_intros)

end
