(* ===== verification/Ferry_Snapshot.thy ===== *)
theory Ferry_Snapshot
  imports Ferry_Model
begin

text \<open>
  The pure part of snapshot handling in \<open>crates/fileferry-core/src/lib.rs\<close>: restore paths,
  manifest validation, the check of a chunk reference against its index entry, snapshot
  selection, summaries, directory listings and the metadata status. The facts say what a valid
  manifest is: its paths are distinct normalized relative paths, ancestors are directories and
  chunk lengths add up to the captured sizes.
\<close>

section \<open>Restore paths\<close>

fun normalize_components :: "path \<Rightarrow> path \<Rightarrow> core_error + path" where
  "normalize_components normalized [] = Ok normalized"
| "normalize_components normalized (c # cs) =
     (case c of
        CurDir \<Rightarrow> normalize_components normalized cs
      | Normal segment \<Rightarrow> normalize_components (path_join normalized [Normal segment]) cs
      | ParentDir \<Rightarrow> Err (InvalidRestoreRequest
          ''restore paths must not contain parent directory components'')
      | RootDir \<Rightarrow> Err (InvalidRestoreRequest
          ''restore paths must be relative to the snapshot root''))"

definition normalize_restore_path :: "path \<Rightarrow> core_error + path" where
  "normalize_restore_path p = normalize_components [] p"

definition normalize_restore_paths :: "path list \<Rightarrow> core_error + path list" where
  "normalize_restore_paths ps = map_result normalize_restore_path ps"

definition scoped_manifest_entries :: "snapshot_manifest \<Rightarrow> path list \<Rightarrow> manifest_entry list" where
  "scoped_manifest_entries manifest restore_paths =
     filter (\<lambda>entry. restore_paths = [] \<or>
         list_ex (\<lambda>p. p = [] \<or> me_relative_path entry = p \<or> path_starts_with (me_relative_path entry) p)
           restore_paths)
       (mb_entries (sm_body manifest))"

fun ensure_restore_paths_exist :: "snapshot_manifest \<Rightarrow> path list \<Rightarrow> core_error + unit" where
  "ensure_restore_paths_exist manifest [] = Ok ()"
| "ensure_restore_paths_exist manifest (restore_path # rest) =
     (if list_ex (\<lambda>entry. restore_path = [] \<or> me_relative_path entry = restore_path \<or>
            path_starts_with (me_relative_path entry) restore_path) (mb_entries (sm_body manifest))
      then ensure_restore_paths_exist manifest rest
      else Err (SnapshotPathNotFound (sm_snapshot_id manifest) restore_path))"

section \<open>Manifest validation\<close>

definition invalid_manifest :: "snapshot_manifest \<Rightarrow> object_key \<Rightarrow> path \<Rightarrow> string \<Rightarrow> core_error" where
  "invalid_manifest manifest object_key p reason =
     InvalidSnapshotManifest (sm_snapshot_id manifest) object_key (Some p) reason"

fun manifest_path_components ::
  "snapshot_manifest \<Rightarrow> object_key \<Rightarrow> path \<Rightarrow> path \<Rightarrow> path \<Rightarrow> core_error + path" where
  "manifest_path_components manifest object_key p normalized [] = Ok normalized"
| "manifest_path_components manifest object_key p normalized (c # cs) =
     (case c of
        Normal segment \<Rightarrow>
          manifest_path_components manifest object_key p (path_join normalized [Normal segment]) cs
      | _ \<Rightarrow> Err (invalid_manifest manifest object_key p ''entry path is not a normalized relative path''))"

definition validate_manifest_entry_path ::
  "snapshot_manifest \<Rightarrow> object_key \<Rightarrow> path \<Rightarrow> core_error + unit" where
  "validate_manifest_entry_path manifest object_key p =
     bindR (manifest_path_components manifest object_key p [] p) (\<lambda>normalized.
     if normalized \<noteq> p then
       Err (invalid_manifest manifest object_key p ''entry path is not a normalized relative path'')
     else Ok ())"

definition checked_add :: "u64 \<Rightarrow> u64 \<Rightarrow> u64 option" where
  "checked_add a b = (if unat a + unat b < 2 ^ 64 then Some (a + b) else None)"

fun chunk_total :: "u64 \<Rightarrow> manifest_chunk_ref list \<Rightarrow> u64 option" where
  "chunk_total acc [] = Some acc"
| "chunk_total acc (c # cs) =
     (case checked_add acc (mc_length c) of None \<Rightarrow> None | Some t \<Rightarrow> chunk_total t cs)"

definition validate_manifest_entry ::
  "snapshot_manifest \<Rightarrow> object_key \<Rightarrow> (path, entry_kind) btree_map \<Rightarrow> manifest_entry \<Rightarrow>
   core_error + (path, entry_kind) btree_map" where
  "validate_manifest_entry manifest object_key entry_kinds entry =
     (let rel = me_relative_path entry; knd = entry_kind (me_metadata entry);
          bad = (\<lambda>reason. Err (invalid_manifest manifest object_key rel reason)) in
      bindR (validate_manifest_entry_path manifest object_key rel) (\<lambda>_.
      if rel = [] \<and> knd \<noteq> Directory then bad ''root entry is not a directory''
      else if bt_get entry_kinds rel \<noteq> None then bad ''duplicate entry path''
      else if knd \<noteq> RegularFile \<and> me_chunks entry \<noteq> [] then
        bad ''non-file entry contains chunk references''
      else
        (case (knd, size_bytes (me_metadata entry)) of
           (RegularFile, Some len) \<Rightarrow>
             (case chunk_total 0 (me_chunks entry) of
                None \<Rightarrow> bad ''regular-file chunk lengths overflow''
              | Some captured_bytes \<Rightarrow>
                  if captured_bytes \<noteq> len then bad ''regular-file chunk lengths do not match captured size''
                  else Ok (bt_insert rel knd entry_kinds))
         | _ \<Rightarrow> Ok (bt_insert rel knd entry_kinds))))"

fun check_ancestors ::
  "snapshot_manifest \<Rightarrow> object_key \<Rightarrow> (path, entry_kind) btree_map \<Rightarrow> path \<Rightarrow> path list \<Rightarrow>
   core_error + unit" where
  "check_ancestors manifest object_key entry_kinds rel [] = Ok ()"
| "check_ancestors manifest object_key entry_kinds rel (ancestor # rest) =
     (if ancestor = [] then Ok ()
      else if (case bt_get entry_kinds ancestor of None \<Rightarrow> False | Some knd \<Rightarrow> knd \<noteq> Directory) then
        Err (invalid_manifest manifest object_key rel ''entry has a non-directory ancestor'')
      else check_ancestors manifest object_key entry_kinds rel rest)"

definition validate_snapshot_manifest :: "snapshot_manifest \<Rightarrow> object_key \<Rightarrow> core_error + unit" where
  "validate_snapshot_manifest manifest object_key =
     bindR (fold_result (validate_manifest_entry manifest object_key) [] (mb_entries (sm_body manifest)))
       (\<lambda>entry_kinds.
     bindR (map_result (\<lambda>entry. check_ancestors manifest object_key entry_kinds (me_relative_path entry)
              (drop 1 (path_ancestors (me_relative_path entry)))) (mb_entries (sm_body manifest)))
       (\<lambda>_. Ok ()))"

definition validate_indexed_chunk_reference ::
  "string \<Rightarrow> path \<Rightarrow> manifest_chunk_ref \<Rightarrow> chunk_index_entry \<Rightarrow> core_error + unit" where
  "validate_indexed_chunk_reference snapshot_id p chunk indexed =
     (let reason =
        (if ie_object_key indexed \<noteq> mc_object_key chunk then Some ''object key mismatch''
         else if ie_plaintext_length indexed \<noteq> mc_length chunk then Some ''plaintext length mismatch''
         else if ie_compression indexed \<noteq> Zstd then Some ''compression algorithm mismatch''
         else None)
      in case reason of
           Some r \<Rightarrow> Err (ChunkIndexMismatch snapshot_id p (mc_chunk_id chunk) (mc_object_key chunk) r)
         | None \<Rightarrow> Ok ())"

section \<open>Selection, summaries and listings\<close>

datatype snapshot_selection = SelectId string | SelectTag string | SelectLatest

fun selection_label :: "snapshot_selection \<Rightarrow> string" where
  "selection_label (SelectId snapshot_id) = ''id:'' @ snapshot_id"
| "selection_label (SelectTag tag) = ''tag:'' @ tag"
| "selection_label SelectLatest = ''latest''"

text \<open>\<open>compare_snapshot_manifests\<close> compares these keys.\<close>

definition snapshot_order_key :: "snapshot_manifest \<Rightarrow> u64 \<times> string" where
  "snapshot_order_key m = (mb_created_at (sm_body m), sm_snapshot_id m)"

definition select_snapshot ::
  "snapshot_manifest list \<Rightarrow> snapshot_selection \<Rightarrow> core_error + snapshot_manifest" where
  "select_snapshot manifests selection =
     (let selected =
        (case selection of
           SelectId snapshot_id \<Rightarrow> find (\<lambda>m. sm_snapshot_id m = snapshot_id) manifests
         | SelectTag tag \<Rightarrow> max_by_key snapshot_order_key
             (filter (\<lambda>m. tag \<in> set (mb_tags (sm_body m))) manifests)
         | SelectLatest \<Rightarrow> max_by_key snapshot_order_key manifests)
      in ok_or (SnapshotNotFound (selection_label selection)) selected)"

record snapshot_summary =
  su_snapshot_id :: string
  su_created_at :: u64
  su_tags :: "string list"
  su_source_count :: nat
  su_entry_count :: nat

definition snapshot_summary_of :: "snapshot_manifest \<Rightarrow> snapshot_summary" where
  "snapshot_summary_of m =
     \<lparr>su_snapshot_id = sm_snapshot_id m, su_created_at = mb_created_at (sm_body m),
      su_tags = mb_tags (sm_body m),
      su_source_count = length (filter (\<lambda>e. me_relative_path e = []) (mb_entries (sm_body m))),
      su_entry_count = length (mb_entries (sm_body m))\<rparr>"

definition snapshot_summaries :: "snapshot_manifest list \<Rightarrow> snapshot_summary list" where
  "snapshot_summaries manifests =
     sort_desc (\<lambda>s. (su_created_at s, su_snapshot_id s)) (map snapshot_summary_of manifests)"

datatype metadata_state = StatusComplete | StatusPartial | StatusUnsupported

text \<open>
  The loop over the captured values; the two flags are \<open>saw_captured\<close> and \<open>saw_unsupported\<close>,
  \<open>None\<close> is the early return of \<open>Partial\<close>.
\<close>

fun scan_values :: "unit metadata_value list \<Rightarrow> bool \<times> bool \<Rightarrow> (bool \<times> bool) option" where
  "scan_values [] flags = Some flags"
| "scan_values (v # vs) flags =
     (case v of
        Captured _ \<Rightarrow> scan_values vs (True, snd flags)
      | Unsupported \<Rightarrow> scan_values vs (fst flags, True)
      | Denied _ \<Rightarrow> None)"

definition metadata_status :: "entry_metadata \<Rightarrow> metadata_state" where
  "metadata_status md =
     (let shape = (\<lambda>v. map_metadata_value (\<lambda>_. ()) v);
          values = map shape [modified md, created md] @
            (if entry_kind md = Symlink then [map_metadata_value (\<lambda>_. ()) (symlink_target md)] else [])
      in case scan_values values (False, False) of
           None \<Rightarrow> StatusPartial
         | Some (False, True) \<Rightarrow> StatusUnsupported
         | Some (True, True) \<Rightarrow> StatusPartial
         | Some _ \<Rightarrow> StatusComplete)"

record snapshot_entry =
  sn_relative_path :: path
  sn_kind :: entry_kind
  sn_size_bytes :: "u64 option"
  sn_modified :: "timestamp metadata_value"
  sn_metadata_status :: metadata_state

definition snapshot_entry_from_manifest :: "manifest_entry \<Rightarrow> snapshot_entry" where
  "snapshot_entry_from_manifest e =
     \<lparr>sn_relative_path = me_relative_path e, sn_kind = entry_kind (me_metadata e),
      sn_size_bytes = size_bytes (me_metadata e), sn_modified = modified (me_metadata e),
      sn_metadata_status = metadata_status (me_metadata e)\<rparr>"

definition entry_parent :: "path \<Rightarrow> path" where
  "entry_parent p = (case path_parent p of None \<Rightarrow> [] | Some q \<Rightarrow> q)"

record snapshot_entry_listing =
  sl_snapshot_id :: string
  sl_path :: path
  sl_entries :: "snapshot_entry list"

definition list_snapshot_entries :: "snapshot_manifest \<Rightarrow> path \<Rightarrow> core_error + snapshot_entry_listing" where
  "list_snapshot_entries manifest requested =
     bindR (normalize_restore_path requested) (\<lambda>p.
     let all = mb_entries (sm_body manifest);
         exact_entry = (if p = [] then None else find (\<lambda>e. me_relative_path e = p) all);
         children = map snapshot_entry_from_manifest
           (filter (\<lambda>e. me_relative_path e \<noteq> [] \<and> entry_parent (me_relative_path e) = p) all)
     in bindR
          (case exact_entry of
             Some e \<Rightarrow>
               if entry_kind (me_metadata e) \<noteq> Directory then Ok [snapshot_entry_from_manifest e]
               else Ok children
           | None \<Rightarrow>
               if p = [] then Ok children
               else Err (SnapshotPathNotFound (sm_snapshot_id manifest) p))
          (\<lambda>entries. Ok \<lparr>sl_snapshot_id = sm_snapshot_id manifest, sl_path = p, sl_entries = entries\<rparr>))"

section \<open>Valid manifests\<close>

definition entry_valid :: "manifest_entry \<Rightarrow> bool" where
  "entry_valid e \<longleftrightarrow>
     (\<forall>c \<in> set (me_relative_path e). is_normal c) \<and>
     (me_relative_path e = [] \<longrightarrow> entry_kind (me_metadata e) = Directory) \<and>
     (entry_kind (me_metadata e) \<noteq> RegularFile \<longrightarrow> me_chunks e = []) \<and>
     (entry_kind (me_metadata e) = RegularFile \<longrightarrow>
        (\<forall>n. size_bytes (me_metadata e) = Some n \<longrightarrow>
           (\<Sum>c\<leftarrow>me_chunks e. unat (mc_length c)) = unat n))"

definition entries_valid :: "manifest_entry list \<Rightarrow> bool" where
  "entries_valid es \<longleftrightarrow>
     (\<forall>e \<in> set es. entry_valid e) \<and> distinct (map me_relative_path es) \<and>
     (\<forall>e \<in> set es. \<forall>a \<in> set es. me_relative_path a \<noteq> [] \<longrightarrow>
        strict_prefix (me_relative_path a) (me_relative_path e) \<longrightarrow>
        entry_kind (me_metadata a) = Directory)"

lemma normalize_components_Ok:
  "normalize_components acc p = Ok q \<longleftrightarrow>
     RootDir \<notin> set p \<and> ParentDir \<notin> set p \<and> q = acc @ filter is_normal p"
  by (induction acc p rule: normalize_components.induct) (auto split: component.splits)

lemma normalize_restore_path_Ok:
  "normalize_restore_path p = Ok q \<longleftrightarrow>
     RootDir \<notin> set p \<and> ParentDir \<notin> set p \<and> q = filter is_normal p"
  by (simp add: normalize_restore_path_def normalize_components_Ok)

lemma normalize_normal: "\<forall>c \<in> set p. is_normal c \<Longrightarrow> normalize_restore_path p = Ok p"
  by (auto simp: normalize_restore_path_Ok filter_id_conv)

lemma manifest_path_components_Ok:
  "manifest_path_components m k p acc cs = Ok q \<longleftrightarrow> (\<forall>c \<in> set cs. is_normal c) \<and> q = acc @ cs"
  by (induction m k p acc cs rule: manifest_path_components.induct) (auto split: component.splits)

lemma validate_manifest_entry_path_Ok:
  "validate_manifest_entry_path m k p = Ok u \<longleftrightarrow> (\<forall>c \<in> set p. is_normal c)"
  by (auto simp: validate_manifest_entry_path_def bindR_Ok_iff manifest_path_components_Ok)

lemma checked_add_Some: "checked_add a b = Some c \<longleftrightarrow> unat a + unat b = unat c"
proof -
  have "unat (a + b) = unat a + unat b" if "unat a + unat b < 2 ^ 64"
    using that unat_add_lem [of a b] by simp
  moreover have "unat c < 2 ^ 64" using unsigned_less [of c, where ?'a = nat] by simp
  ultimately show ?thesis
    by (auto simp: checked_add_def) (metis unsigned_word_eqI)
qed

lemma chunk_total_Some:
  "chunk_total acc cs = Some t \<longleftrightarrow> unat acc + (\<Sum>c\<leftarrow>cs. unat (mc_length c)) = unat t"
proof (induction acc cs rule: chunk_total.induct)
  case (1 acc)
  then show ?case by auto (metis unsigned_word_eqI)
next
  case (2 acc c cs)
  show ?case
  proof (cases "checked_add acc (mc_length c)")
    case None
    then have "2 ^ 64 \<le> unat acc + unat (mc_length c)"
      by (auto simp: checked_add_def split: if_splits)
    moreover have "unat t < 2 ^ 64" using unsigned_less [of t, where ?'a = nat] by simp
    ultimately show ?thesis using None by auto
  next
    case (Some a)
    then have "unat acc + unat (mc_length c) = unat a" by (simp add: checked_add_Some)
    then show ?thesis using "2.IH" [OF Some] Some by (simp add: add.assoc [symmetric])
  qed
qed

lemma chunk_length_check:
  "(case chunk_total 0 cs of None \<Rightarrow> Err x | Some b \<Rightarrow> if b \<noteq> n then Err y else Ok z) = Ok r \<longleftrightarrow>
     (\<Sum>c\<leftarrow>cs. unat (mc_length c)) = unat n \<and> r = z"
proof -
  have "chunk_total 0 cs = Some n \<longleftrightarrow> (\<Sum>c\<leftarrow>cs. unat (mc_length c)) = unat n"
    by (simp add: chunk_total_Some)
  then show ?thesis by (auto split: option.splits)
qed

lemma validate_manifest_entry_Ok:
  "validate_manifest_entry m k kinds e = Ok kinds' \<longleftrightarrow>
     entry_valid e \<and> bt_get kinds (me_relative_path e) = None \<and>
     kinds' = bt_insert (me_relative_path e) (entry_kind (me_metadata e)) kinds"
proof (cases "entry_kind (me_metadata e) = RegularFile")
  case True
  then show ?thesis
    by (cases "size_bytes (me_metadata e)")
      (auto simp: validate_manifest_entry_def entry_valid_def Let_def bindR_Ok_iff
        validate_manifest_entry_path_Ok chunk_length_check)
next
  case False
  then show ?thesis
    by (cases "entry_kind (me_metadata e)")
      (auto simp: validate_manifest_entry_def entry_valid_def Let_def bindR_Ok_iff
        validate_manifest_entry_path_Ok)
qed

definition entry_kinds_of :: "manifest_entry list \<Rightarrow> (path, entry_kind) btree_map \<Rightarrow> (path, entry_kind) btree_map" where
  "entry_kinds_of es kinds = fold (\<lambda>e. bt_insert (me_relative_path e) (entry_kind (me_metadata e))) es kinds"

lemma fold_validate_Ok:
  "fold_result (validate_manifest_entry m k) kinds es = Ok kinds' \<longleftrightarrow>
     (\<forall>e \<in> set es. entry_valid e \<and> bt_get kinds (me_relative_path e) = None) \<and>
     distinct (map me_relative_path es) \<and> kinds' = entry_kinds_of es kinds"
proof (induction es arbitrary: kinds)
  case (Cons e es)
  then show ?case
    by (auto simp: bindR_Ok_iff validate_manifest_entry_Ok entry_kinds_of_def image_iff)
qed (auto simp: entry_kinds_of_def)

lemma bt_get_entry_kinds:
  "distinct (map me_relative_path es) \<Longrightarrow> bt_get (entry_kinds_of es kinds) p =
     (case find (\<lambda>e. me_relative_path e = p) es of
        Some e \<Rightarrow> Some (entry_kind (me_metadata e)) | None \<Rightarrow> bt_get kinds p)"
proof (induction es arbitrary: kinds)
  case (Cons e es)
  have "find (\<lambda>e'. me_relative_path e' = me_relative_path e) es = None"
    using Cons.prems by (auto simp: find_None_iff) (metis imageI)
  with Cons show ?case by (auto simp: entry_kinds_of_def split: option.splits)
qed (simp add: entry_kinds_of_def)

lemma check_ancestors_Ok:
  assumes "\<forall>c \<in> set rel. is_normal c"
  shows "check_ancestors m k kinds rel (drop 1 (path_ancestors rel)) = Ok u \<longleftrightarrow>
    (\<forall>a. a \<noteq> [] \<longrightarrow> strict_prefix a rel \<longrightarrow> bt_get kinds a = None \<or> bt_get kinds a = Some Directory)"
proof -
  have root: "RootDir \<notin> set rel" using assms by auto
  have "check_ancestors m k kinds rel (map (\<lambda>n. take n rel) (rev [0..<j])) = Ok u \<longleftrightarrow>
      (\<forall>n. 0 < n \<longrightarrow> n < j \<longrightarrow> bt_get kinds (take n rel) = None \<or> bt_get kinds (take n rel) = Some Directory)"
    if "j \<le> length rel" for j
    using that
  proof (induction j)
    case (Suc j)
    show ?case
    proof (cases "j = 0")
      case False
      then have "take j rel \<noteq> []" using Suc.prems by auto
      then show ?thesis using Suc False by (auto simp: less_Suc_eq split: option.splits)
    qed simp
  qed simp
  from this [of "length rel"] have "check_ancestors m k kinds rel (drop 1 (path_ancestors rel)) = Ok u \<longleftrightarrow>
      (\<forall>n. 0 < n \<longrightarrow> n < length rel \<longrightarrow> bt_get kinds (take n rel) = None \<or> bt_get kinds (take n rel) = Some Directory)"
    by (simp add: path_ancestors_normal [OF root])
  moreover have "a \<noteq> [] \<and> strict_prefix a rel \<longleftrightarrow> (\<exists>n. 0 < n \<and> n < length rel \<and> a = take n rel)" for a
    by (auto simp: strict_prefix_def prefix_def) (metis append_take_drop_id drop_eq_Nil leD)
  ultimately show ?thesis by metis
qed

lemma map_result_Ok_unit:
  fixes f :: "'a \<Rightarrow> 'e + unit"
  shows "(\<exists>us. map_result f xs = Ok us) \<longleftrightarrow> (\<forall>x \<in> set xs. f x = Ok ())"
  by (induction xs) (auto simp: bindR_Ok_iff)

lemma validate_snapshot_manifest_iff:
  "validate_snapshot_manifest m k = Ok u \<longleftrightarrow> entries_valid (mb_entries (sm_body m))"
proof -
  let ?es = "mb_entries (sm_body m)"
  let ?kinds = "entry_kinds_of ?es []"
  have anc: "check_ancestors m k ?kinds (me_relative_path e) (drop 1 (path_ancestors (me_relative_path e))) = Ok ()
      \<longleftrightarrow> (\<forall>a \<in> set ?es. me_relative_path a \<noteq> [] \<longrightarrow>
        strict_prefix (me_relative_path a) (me_relative_path e) \<longrightarrow> entry_kind (me_metadata a) = Directory)"
    if "entry_valid e" and dist: "distinct (map me_relative_path ?es)" for e
  proof -
    have kind_iff: "bt_get ?kinds p = None \<or> bt_get ?kinds p = Some Directory \<longleftrightarrow>
        (\<forall>a \<in> set ?es. me_relative_path a = p \<longrightarrow> entry_kind (me_metadata a) = Directory)" for p
    proof (cases "find (\<lambda>e. me_relative_path e = p) ?es")
      case None
      then have "\<forall>a \<in> set ?es. me_relative_path a \<noteq> p" by (auto simp: find_None_iff)
      then show ?thesis by (simp add: bt_get_entry_kinds [OF dist] None)
    next
      case (Some a)
      then have a: "a \<in> set ?es" "me_relative_path a = p" by (auto simp: find_Some_iff)
      have unique: "b = a" if "b \<in> set ?es" "me_relative_path b = p" for b
        using that a dist unfolding distinct_map by (metis inj_onD)
      have kind: "bt_get ?kinds p = Some (entry_kind (me_metadata a))"
        by (simp add: bt_get_entry_kinds [OF dist] Some)
      show ?thesis unfolding kind option.inject option.distinct using unique a by blast
    qed
    have normal: "\<forall>c \<in> set (me_relative_path e). is_normal c" using that(1) by (simp add: entry_valid_def)
    show ?thesis unfolding check_ancestors_Ok [OF normal] kind_iff by blast
  qed
  let ?anc = "\<lambda>e. check_ancestors m k ?kinds (me_relative_path e) (drop 1 (path_ancestors (me_relative_path e)))"
  have "validate_snapshot_manifest m k = Ok u \<longleftrightarrow>
      (\<forall>e \<in> set ?es. entry_valid e) \<and> distinct (map me_relative_path ?es) \<and> (\<forall>e \<in> set ?es. ?anc e = Ok ())"
    unfolding validate_snapshot_manifest_def bindR_Ok_iff fold_validate_Ok bt_get_Nil
    using map_result_Ok_unit [of ?anc ?es] by auto
  then show ?thesis unfolding entries_valid_def using anc by blast
qed

section \<open>Properties\<close>

text \<open>
  C19: a snapshot manifest is accepted exactly when its entries form a file tree: normalized
  relative paths, none twice, a root that is a directory, only directories above other entries,
  chunks only on files, and the chunk lengths of a file adding up to its recorded size, with no
  32-, 64-bit or other overflow of the sum.
\<close>

theorem manifest_accepted_iff_tree:
  "validate_snapshot_manifest m k = Ok () \<longleftrightarrow> entries_valid (mb_entries (sm_body m))"
  by (rule validate_snapshot_manifest_iff)

definition selection_matches :: "snapshot_selection \<Rightarrow> snapshot_manifest \<Rightarrow> bool" where
  "selection_matches selection m =
     (case selection of
        SelectId snapshot_id \<Rightarrow> sm_snapshot_id m = snapshot_id
      | SelectTag tag \<Rightarrow> tag \<in> set (mb_tags (sm_body m))
      | SelectLatest \<Rightarrow> True)"

lemma select_snapshot_Ok:
  assumes "select_snapshot ms selection = Ok m"
  shows "m \<in> set ms \<and> selection_matches selection m"
  using assms
  by (cases selection)
    (auto simp: select_snapshot_def Let_def ok_or_Ok_iff selection_matches_def find_Some_iff
      dest!: max_by_key_mem)

lemma select_snapshot_newest:
  assumes "select_snapshot ms selection = Ok m" and "\<nexists>i. selection = SelectId i"
    and "m' \<in> set ms" "selection_matches selection m'"
  shows "snapshot_order_key m' \<le> snapshot_order_key m"
  using assms
  by (cases selection)
    (auto simp: select_snapshot_def Let_def ok_or_Ok_iff selection_matches_def
      intro: max_by_key_max)

lemma select_snapshot_Err:
  assumes "select_snapshot ms selection = Err e"
  shows "e = SnapshotNotFound (selection_label selection) \<and> (\<forall>m \<in> set ms. \<not> selection_matches selection m)"
  using assms
  by (cases selection)
    (auto simp: select_snapshot_def Let_def ok_or_def selection_matches_def find_None_iff
      filter_empty_conv split: option.splits)

text \<open>
  C32: selecting a snapshot. A selection by id returns a snapshot of that id; by tag, the
  newest that carries the tag; \<open>latest\<close>, the newest of all (by creation time, then id). It fails
  only when nothing matches.
\<close>

theorem selection_picks_newest_match:
  "case select_snapshot ms selection of
     Ok m \<Rightarrow> m \<in> set ms \<and> selection_matches selection m \<and>
       ((\<exists>i. selection = SelectId i) \<or>
        (\<forall>m' \<in> set (filter (selection_matches selection) ms). snapshot_order_key m' \<le> snapshot_order_key m))
   | Err e \<Rightarrow> e = SnapshotNotFound (selection_label selection) \<and>
       filter (selection_matches selection) ms = []"
proof (cases "select_snapshot ms selection")
  case (Inl e)
  then show ?thesis using select_snapshot_Err by (simp add: filter_empty_conv)
next
  case (Inr m)
  then show ?thesis using select_snapshot_Ok [OF Inr] select_snapshot_newest [OF Inr] by auto
qed

definition sample_manifest :: "string \<Rightarrow> u64 \<Rightarrow> string list \<Rightarrow> snapshot_manifest" where
  "sample_manifest i at tags =
     \<lparr>sm_schema_version = 0, sm_snapshot_id = i,
      sm_body = \<lparr>mb_created_at = at, mb_tags = tags, mb_entries = [], mb_index_ids = []\<rparr>\<rparr>"

theorem selection_picks_newest_match_witness:
  "select_snapshot [sample_manifest ''a'' 7 [''x''], sample_manifest ''b'' 9 []] SelectLatest =
     Ok (sample_manifest ''b'' 9 []) \<and>
   snapshot_order_key (sample_manifest ''a'' 7 [''x'']) \<le> snapshot_order_key (sample_manifest ''b'' 9 [])"
proof -
  have "select_snapshot [sample_manifest ''a'' 7 [''x''], sample_manifest ''b'' 9 []] SelectLatest =
     Ok (sample_manifest ''b'' 9 [])"
    by (simp add: select_snapshot_def sample_manifest_def snapshot_order_key_def)
  with selection_picks_newest_match [where selection = SelectLatest
      and ms = "[sample_manifest ''a'' 7 [''x''], sample_manifest ''b'' 9 []]"]
  show ?thesis by (simp add: selection_matches_def)
qed

text \<open>
  C34: a requested path is accepted exactly when it has neither a root nor a \<open>..\<close> component;
  what is looked up then consists of plain names only.
\<close>

theorem requested_paths_confined:
  "normalize_restore_path p = Ok q \<longleftrightarrow>
     RootDir \<notin> set p \<and> ParentDir \<notin> set p \<and> q = filter is_normal p"
  by (rule normalize_restore_path_Ok)

text \<open>
  C33: listing a directory of a valid manifest returns exactly its children, each once.
\<close>

theorem listing_shows_children:
  assumes "entries_valid (mb_entries (sm_body m))" and "list_snapshot_entries m p = Ok result"
    and "sl_path result = [] \<or>
      (\<exists>d \<in> set (mb_entries (sm_body m)). me_relative_path d = sl_path result \<and>
         entry_kind (me_metadata d) = Directory)"
  shows "distinct (map sn_relative_path (sl_entries result)) \<and>
    set (sl_entries result) = snapshot_entry_from_manifest `
      {e \<in> set (mb_entries (sm_body m)). \<exists>name. me_relative_path e = sl_path result @ [name]}"
proof -
  let ?es = "mb_entries (sm_body m)"
  let ?children = "filter (\<lambda>e. me_relative_path e \<noteq> [] \<and> entry_parent (me_relative_path e) = sl_path result) ?es"
  have unique: "distinct (map me_relative_path ?es)" and normal: "\<forall>e \<in> set ?es. entry_valid e"
    using assms(1) by (auto simp: entries_valid_def)
  have kind: "entry_kind (me_metadata e) = Directory"
    if found: "find (\<lambda>e. me_relative_path e = sl_path result) ?es = Some e" and ne: "sl_path result \<noteq> []" for e
  proof -
    have e: "e \<in> set ?es" "me_relative_path e = sl_path result" using found by (auto simp: find_Some_iff)
    obtain d where "d \<in> set ?es" "me_relative_path d = sl_path result" "entry_kind (me_metadata d) = Directory"
      using assms(3) ne by blast
    with e unique show ?thesis unfolding distinct_map by (metis inj_onD)
  qed
  have entries: "sl_entries result = map snapshot_entry_from_manifest ?children"
    using assms(2) kind
    by (auto simp: list_snapshot_entries_def bindR_Ok_iff Let_def split: if_splits option.splits)
  have paths: "map sn_relative_path (map snapshot_entry_from_manifest xs) = map me_relative_path xs" for xs
    by (simp add: snapshot_entry_from_manifest_def)
  have parent: "me_relative_path e \<noteq> [] \<and> entry_parent (me_relative_path e) = q \<longleftrightarrow>
      (\<exists>name. me_relative_path e = q @ [name])" if "e \<in> set ?es" for e q
  proof (cases "me_relative_path e" rule: rev_cases)
    case (snoc ys y)
    moreover have "is_normal y" using normal that snoc by (auto simp: entry_valid_def)
    ultimately show ?thesis by (auto simp: entry_parent_def is_normal_iff)
  qed simp
  have "set ?children = {e \<in> set ?es. \<exists>name. me_relative_path e = sl_path result @ [name]}"
    using parent by auto
  then show ?thesis
    unfolding entries paths set_map using unique by (simp add: distinct_map_filter)
qed

definition sample_dir_entry :: "path \<Rightarrow> manifest_entry" where
  "sample_dir_entry p =
     \<lparr>me_root = [RootDir], me_path = RootDir # p, me_relative_path = p,
      me_metadata = \<lparr>entry_kind = Directory, size_bytes = None, modified = Unsupported,
        created = Unsupported, symlink_target = Unsupported, unix = None\<rparr>,
      me_chunks = []\<rparr>"

definition sample_tree :: snapshot_manifest where
  "sample_tree =
     \<lparr>sm_schema_version = 0, sm_snapshot_id = ''s'',
      sm_body = \<lparr>mb_created_at = 0, mb_tags = [],
        mb_entries = [sample_dir_entry [], sample_dir_entry [Normal ''d''],
          sample_dir_entry [Normal ''d'', Normal ''e'']],
        mb_index_ids = []\<rparr>\<rparr>"

theorem listing_shows_children_witness:
  "set (sl_entries \<lparr>sl_snapshot_id = ''s'', sl_path = [Normal ''d''],
     sl_entries = [snapshot_entry_from_manifest (sample_dir_entry [Normal ''d'', Normal ''e''])]\<rparr>) =
   snapshot_entry_from_manifest ` {sample_dir_entry [Normal ''d'', Normal ''e'']}"
proof -
  let ?l = "\<lparr>sl_snapshot_id = ''s'', sl_path = [Normal ''d''],
     sl_entries = [snapshot_entry_from_manifest (sample_dir_entry [Normal ''d'', Normal ''e''])]\<rparr>"
  have "entries_valid (mb_entries (sm_body sample_tree))"
    by (simp add: sample_tree_def sample_dir_entry_def entries_valid_def entry_valid_def)
  moreover have "list_snapshot_entries sample_tree [Normal ''d''] = Ok ?l"
    by (simp add: list_snapshot_entries_def normalize_normal sample_tree_def sample_dir_entry_def
        entry_parent_def path_parent_def is_normal_def)
  moreover have "{e \<in> set (mb_entries (sm_body sample_tree)). \<exists>name. me_relative_path e = [Normal ''d''] @ [name]}
      = {sample_dir_entry [Normal ''d'', Normal ''e'']}"
    by (auto simp: sample_tree_def sample_dir_entry_def)
  moreover have "\<exists>d \<in> set (mb_entries (sm_body sample_tree)). me_relative_path d = [Normal ''d''] \<and>
         entry_kind (me_metadata d) = Directory"
    by (simp add: sample_tree_def sample_dir_entry_def)
  ultimately show ?thesis using listing_shows_children [of sample_tree "[Normal ''d'']" ?l] by simp
qed

end
