(* ===== verification/Ferry_Reader.thy ===== *)
theory Ferry_Reader
  imports Ferry_View Ferry_Snapshot
begin

text \<open>
  The reading half of \<open>BackupPipeline\<close>: snapshot manifests, chunk indexes, commit and forget
  markers, and the restore of file contents. Each operation is a program over the store record,
  so that it runs on a real store and on the abstract map alike.
\<close>

section \<open>Configuration\<close>

record backup_pipeline_config =
  pc_chunking :: chunking_config
  pc_compression_level :: int
  pc_repository_id :: string

definition DEFAULT_ZSTD_COMPRESSION_LEVEL :: int where
  "DEFAULT_ZSTD_COMPRESSION_LEVEL = 3"

definition pipeline_config_new :: "string \<Rightarrow> backup_pipeline_config" where
  "pipeline_config_new repository_id =
     \<lparr>pc_chunking = chunking_config_default, pc_compression_level = DEFAULT_ZSTD_COMPRESSION_LEVEL,
      pc_repository_id = repository_id\<rparr>"

definition pipeline_config_validate :: "fastcdc_lib \<Rightarrow> backup_pipeline_config \<Rightarrow> core_error + unit" where
  "pipeline_config_validate F c =
     bindR (chunking_validate F (pc_chunking c)) (\<lambda>_.
     if pc_repository_id c = [] then
       Err (InvalidBackupPipelineConfig ''repository id must not be empty'')
     else if CHR 0x00 \<in> set (pc_repository_id c) then
       Err (InvalidBackupPipelineConfig ''repository id must not contain NUL'')
     else Ok ())"

definition repository_context :: "backup_pipeline_config \<Rightarrow> bytes" where
  "repository_context c = as_bytes (pc_repository_id c)"

definition derive_key ::
  "library \<Rightarrow> backup_pipeline_config \<Rightarrow> master_key \<Rightarrow> key_purpose \<Rightarrow> core_error + subkey" where
  "derive_key L c master purpose =
     map_err Encryption (derive_subkey (lib_crypto L) master purpose (repository_context c))"

section \<open>Manifests and indexes\<close>

definition identity_check ::
  "string \<Rightarrow> object_key \<Rightarrow> string \<Rightarrow> string \<Rightarrow> string \<Rightarrow> core_error + unit" where
  "identity_check knd object_key expected stored actual =
     (if stored \<noteq> expected then Err (MetadataIdentityMismatch knd object_key expected stored)
      else if actual \<noteq> expected then Err (MetadataIdentityMismatch knd object_key expected actual)
      else Ok ())"

definition read_snapshot_manifest ::
  "library \<Rightarrow> backup_pipeline_config \<Rightarrow> 's store_ops \<Rightarrow> master_key \<Rightarrow> string \<Rightarrow>
   ('s world, core_error, snapshot_manifest) prog" where
  "read_snapshot_manifest L c store master snapshot_id =
     andThen (lift_result (derive_key L c master SnapshotMetadata)) (\<lambda>manifest_key.
     andThen (lift_result (object_key_for_id ''objects/manifest'' snapshot_id)) (\<lambda>object_key.
     andThen (read_encrypted_json_object L store manifest_key SnapshotManifestKind object_key (manifest_codec L)) (\<lambda>manifest.
     andThen (lift_result (content_id_for_metadata L master SnapshotMetadata (repository_context c)
                (body_codec L) (sm_body manifest))) (\<lambda>actual.
     andThen (lift_result (identity_check ''snapshot manifest'' object_key snapshot_id
                (sm_snapshot_id manifest) actual)) (\<lambda>_.
     andThen (lift_result (validate_snapshot_manifest manifest object_key)) (\<lambda>_.
     ret manifest))))))"

definition read_snapshot_manifest_with_bytes ::
  "library \<Rightarrow> backup_pipeline_config \<Rightarrow> 's store_ops \<Rightarrow> master_key \<Rightarrow> string \<Rightarrow>
   ('s world, core_error, snapshot_manifest \<times> u64) prog" where
  "read_snapshot_manifest_with_bytes L c store master snapshot_id =
     andThen (lift_result (derive_key L c master SnapshotMetadata)) (\<lambda>manifest_key.
     andThen (lift_result (object_key_for_id ''objects/manifest'' snapshot_id)) (\<lambda>object_key.
     andThen (read_encrypted_json_object_with_bytes L store manifest_key SnapshotManifestKind object_key
                (manifest_codec L)) (\<lambda>(manifest, bytes_read).
     andThen (lift_result (content_id_for_metadata L master SnapshotMetadata (repository_context c)
                (body_codec L) (sm_body manifest))) (\<lambda>actual.
     andThen (lift_result (identity_check ''snapshot manifest'' object_key snapshot_id
                (sm_snapshot_id manifest) actual)) (\<lambda>_.
     andThen (lift_result (validate_snapshot_manifest manifest object_key)) (\<lambda>_.
     ret (manifest, bytes_read)))))))"

definition read_chunk_index ::
  "library \<Rightarrow> backup_pipeline_config \<Rightarrow> 's store_ops \<Rightarrow> master_key \<Rightarrow> string \<Rightarrow>
   ('s world, core_error, chunk_index) prog" where
  "read_chunk_index L c store master index_id =
     andThen (lift_result (derive_key L c master IndexPurpose)) (\<lambda>index_key.
     andThen (lift_result (object_key_for_id ''objects/index'' index_id)) (\<lambda>object_key.
     andThen (read_encrypted_json_object L store index_key IndexKind object_key (index_codec L)) (\<lambda>index.
     andThen (lift_result (content_id_for_metadata L master IndexPurpose (repository_context c)
                (entries_codec L) (ci_chunks index))) (\<lambda>actual.
     andThen (lift_result (identity_check ''chunk index'' object_key index_id (ci_index_id index) actual)) (\<lambda>_.
     ret index)))))"

definition read_chunk_index_with_bytes ::
  "library \<Rightarrow> backup_pipeline_config \<Rightarrow> 's store_ops \<Rightarrow> master_key \<Rightarrow> string \<Rightarrow>
   ('s world, core_error, chunk_index \<times> u64) prog" where
  "read_chunk_index_with_bytes L c store master index_id =
     andThen (lift_result (derive_key L c master IndexPurpose)) (\<lambda>index_key.
     andThen (lift_result (object_key_for_id ''objects/index'' index_id)) (\<lambda>object_key.
     andThen (read_encrypted_json_object_with_bytes L store index_key IndexKind object_key (index_codec L)) (\<lambda>(index, bytes_read).
     andThen (lift_result (content_id_for_metadata L master IndexPurpose (repository_context c)
                (entries_codec L) (ci_chunks index))) (\<lambda>actual.
     andThen (lift_result (identity_check ''chunk index'' object_key index_id (ci_index_id index) actual)) (\<lambda>_.
     ret (index, bytes_read))))))"

definition referenced_object_read_error :: "object_key \<Rightarrow> core_error \<Rightarrow> core_error" where
  "referenced_object_read_error expected_key error =
     (case error of
        CoreStorage (ObjectNotFound _) \<Rightarrow> RepositoryReferencedObjectMissing expected_key
      | other \<Rightarrow> other)"

definition insert_index_entries ::
  "chunk_index_entry list \<Rightarrow> (string, chunk_index_entry) btree_map \<Rightarrow> (string, chunk_index_entry) btree_map" where
  "insert_index_entries es m = fold (\<lambda>e. bt_insert (ie_chunk_id e) e) es m"

definition load_chunk_index_entries ::
  "library \<Rightarrow> backup_pipeline_config \<Rightarrow> 's store_ops \<Rightarrow> master_key \<Rightarrow> snapshot_manifest \<Rightarrow>
   ('s world, core_error, (string, chunk_index_entry) btree_map) prog" where
  "load_chunk_index_entries L c store master manifest =
     for_each (mb_index_ids (sm_body manifest)) (\<lambda>entries index_id.
       andThen (lift_result (object_key_for_id ''objects/index'' index_id)) (\<lambda>expected_index_object.
       andThen (map_error (referenced_object_read_error expected_index_object)
                 (read_chunk_index L c store master index_id)) (\<lambda>index.
       ret (insert_index_entries (ci_chunks index) entries)))) []"

section \<open>Restoring contents\<close>

record restore_metadata_warning =
  rw_relative_path :: path
  rw_field :: string
  rw_reason :: string

record restored_directory =
  rd_relative_path :: path
  rd_modified :: "timestamp metadata_value"

record restored_file =
  rf_relative_path :: path
  rf_contents :: bytes
  rf_modified :: "timestamp metadata_value"

record restored_symlink =
  rs_relative_path :: path
  rs_target :: path

record restore_content_result =
  rc_snapshot_id :: string
  rc_selected_entries :: nat
  rc_directories :: "restored_directory list"
  rc_files :: "restored_file list"
  rc_symlinks :: "restored_symlink list"
  rc_metadata_warnings :: "restore_metadata_warning list"

text \<open>
  The plaintext of one chunk object, checked against the length and the id that the reader
  expects. The check and the restore differ only in the object key their errors carry.
\<close>

definition verified_plaintext ::
  "library \<Rightarrow> backup_pipeline_config \<Rightarrow> master_key \<Rightarrow> string \<Rightarrow> u64 \<Rightarrow> string option \<Rightarrow> path option \<Rightarrow>
   string option \<Rightarrow> bytes \<Rightarrow> core_error + bytes" where
  "verified_plaintext L c master chunk_id plaintext_length sid p key compressed =
     (let expected_len = unat plaintext_length in
      bindR (map_err (Decompression chunk_id sid p key) (zstd_decompress L compressed expected_len)) (\<lambda>plaintext.
      if length plaintext \<noteq> expected_len then Err (InvalidChunkLength chunk_id sid p key)
      else
        bindR (map_err Encryption (bindR (keyed_content_id (lib_crypto L) master ChunkIdentity
                 (repository_context c) plaintext) (\<lambda>cid. Ok (hex_bytes cid)))) (\<lambda>actual.
        if actual \<noteq> chunk_id then Err (ChunkIdentityMismatch chunk_id actual sid p key)
        else Ok plaintext)))"

definition restore_chunk ::
  "library \<Rightarrow> backup_pipeline_config \<Rightarrow> 's store_ops \<Rightarrow> master_key \<Rightarrow> subkey \<Rightarrow> string \<Rightarrow> path \<Rightarrow>
   (string, chunk_index_entry) btree_map \<Rightarrow> bytes \<Rightarrow> manifest_chunk_ref \<Rightarrow> ('s world, core_error, bytes) prog" where
  "restore_chunk L c store master chunk_key sid rel chunk_index contents chunk =
     andThen (lift_result (ok_or (MissingChunkIndexEntry sid rel (mc_chunk_id chunk) (mc_object_key chunk))
                (bt_get chunk_index (mc_chunk_id chunk)))) (\<lambda>indexed.
     andThen (lift_result (validate_indexed_chunk_reference sid rel chunk indexed)) (\<lambda>_.
     andThen (lift_result (map_err CoreObjectKey (object_key_new (mc_object_key chunk)))) (\<lambda>object_key.
     andThen (on_store (map_error (\<lambda>source. case source of
                  ObjectNotFound _ \<Rightarrow> RepositoryReferencedObjectMissing object_key
                | _ \<Rightarrow> CoreStorage source) (get_object store object_key))) (\<lambda>encrypted.
     andThen (lift_result (decrypt_repository_object L chunk_key Chunk object_key encrypted)) (\<lambda>compressed.
     andThen (lift_result (verified_plaintext L c master (mc_chunk_id chunk) (ie_plaintext_length indexed)
                (Some sid) (Some rel) (Some (ie_object_key indexed)) compressed)) (\<lambda>plaintext.
     ret (contents @ plaintext)))))))"

definition restore_entry ::
  "library \<Rightarrow> backup_pipeline_config \<Rightarrow> 's store_ops \<Rightarrow> master_key \<Rightarrow> subkey \<Rightarrow> string \<Rightarrow>
   (string, chunk_index_entry) btree_map \<Rightarrow> restore_content_result \<Rightarrow> manifest_entry \<Rightarrow>
   ('s world, core_error, restore_content_result) prog" where
  "restore_entry L c store master chunk_key sid chunk_index acc entry =
     (let rel = me_relative_path entry; md = me_metadata entry in
      case entry_kind md of
        Directory \<Rightarrow> ret (acc\<lparr>rc_directories := rc_directories acc @
            [\<lparr>rd_relative_path = rel, rd_modified = modified md\<rparr>]\<rparr>)
      | Symlink \<Rightarrow>
          (case symlink_target md of
             Captured target \<Rightarrow> ret (acc\<lparr>rc_symlinks := rc_symlinks acc @
               [\<lparr>rs_relative_path = rel, rs_target = target\<rparr>]\<rparr>)
           | Unsupported \<Rightarrow> ret (acc\<lparr>rc_metadata_warnings := rc_metadata_warnings acc @
               [\<lparr>rw_relative_path = rel, rw_field = ''symlink_target'',
                 rw_reason = ''symlink target was not captured''\<rparr>]\<rparr>)
           | Denied reason \<Rightarrow> ret (acc\<lparr>rc_metadata_warnings := rc_metadata_warnings acc @
               [\<lparr>rw_relative_path = rel, rw_field = ''symlink_target'',
                 rw_reason = ''symlink target was denied: '' @ reason\<rparr>]\<rparr>))
      | RegularFile \<Rightarrow>
          andThen (for_each (me_chunks entry) (restore_chunk L c store master chunk_key sid rel chunk_index) []) (\<lambda>contents.
          ret (acc\<lparr>rc_files := rc_files acc @
            [\<lparr>rf_relative_path = rel, rf_contents = contents, rf_modified = modified md\<rparr>]\<rparr>))
      | OtherEntry \<Rightarrow> ret acc)"

definition restore_snapshot_contents ::
  "library \<Rightarrow> backup_pipeline_config \<Rightarrow> 's store_ops \<Rightarrow> master_key \<Rightarrow> string \<Rightarrow> path list \<Rightarrow>
   ('s world, core_error, restore_content_result) prog" where
  "restore_snapshot_contents L c store master snapshot_id paths =
     andThen (lift_result (normalize_restore_paths paths)) (\<lambda>restore_paths.
     andThen (lift_result (object_key_for_id ''objects/manifest'' snapshot_id)) (\<lambda>expected_manifest_object.
     andThen (map_error (referenced_object_read_error expected_manifest_object)
                (read_snapshot_manifest L c store master snapshot_id)) (\<lambda>manifest.
     let scoped_entries = scoped_manifest_entries manifest restore_paths in
     andThen (lift_result (ensure_restore_paths_exist manifest restore_paths)) (\<lambda>_.
     andThen (load_chunk_index_entries L c store master manifest) (\<lambda>chunk_index.
     andThen (lift_result (derive_key L c master ChunkData)) (\<lambda>chunk_key.
     for_each scoped_entries
       (restore_entry L c store master chunk_key (sm_snapshot_id manifest) chunk_index)
       \<lparr>rc_snapshot_id = sm_snapshot_id manifest, rc_selected_entries = length scoped_entries,
        rc_directories = [], rc_files = [], rc_symlinks = [], rc_metadata_warnings = []\<rparr>))))))"

section \<open>Commit and forget markers\<close>

definition decode_at ::
  "(object_key \<Rightarrow> json_error \<Rightarrow> core_error) \<Rightarrow> 'a codec \<Rightarrow> object_key \<Rightarrow> bytes \<Rightarrow> core_error + 'a" where
  "decode_at e codec key bs = map_err (e key) (from_slice codec bs)"

definition read_snapshot_commit ::
  "library \<Rightarrow> 's store_ops \<Rightarrow> object_key \<Rightarrow> ('s world, core_error, snapshot_commit) prog" where
  "read_snapshot_commit L store commit_key =
     andThen (on_store (map_error CoreStorage (get_object store commit_key))) (\<lambda>bs.
     andThen (lift_result (decode_at CommitDecode (commit_codec L) commit_key bs)) (\<lambda>commit.
     lift_result
       (if sc_schema_version commit \<noteq> 0 then
          Err (InvalidCommitMarker commit_key ''unsupported commit marker schema version'')
        else Ok commit)))"

definition check_forget_marker ::
  "object_key \<Rightarrow> snapshot_forget_marker \<Rightarrow> core_error + snapshot_forget_marker" where
  "check_forget_marker marker_key marker =
     (if sf_schema_version marker \<noteq> 0 then
        Err (InvalidForgetMarker marker_key ''unsupported forget marker schema version'')
      else bindR (object_key_for_forget_marker (sf_snapshot_id marker)) (\<lambda>expected_marker_key.
      if expected_marker_key \<noteq> marker_key then
        Err (InvalidForgetMarker marker_key ''forget marker object key does not match snapshot id'')
      else bindR (object_key_for_id ''objects/manifest'' (sf_snapshot_id marker)) (\<lambda>expected_manifest_object.
      if sf_manifest_object marker \<noteq> as_str expected_manifest_object then
        Err (InvalidForgetMarker marker_key ''forget marker manifest object does not match snapshot id'')
      else bindR (object_key_for_commit (sf_snapshot_id marker)) (\<lambda>expected_commit_object.
      if sf_commit_object marker \<noteq> as_str expected_commit_object then
        Err (InvalidForgetMarker marker_key ''forget marker commit object does not match snapshot id'')
      else Ok marker))))"

definition read_snapshot_forget_marker ::
  "library \<Rightarrow> 's store_ops \<Rightarrow> object_key \<Rightarrow> ('s world, core_error, snapshot_forget_marker) prog" where
  "read_snapshot_forget_marker L store marker_key =
     andThen (on_store (map_error CoreStorage (get_object store marker_key))) (\<lambda>bs.
     andThen (lift_result (decode_at ForgetMarkerDecode (forget_codec L) marker_key bs)) (\<lambda>marker.
     lift_result (check_forget_marker marker_key marker)))"

definition read_forgotten_snapshot_ids ::
  "library \<Rightarrow> 's store_ops \<Rightarrow> ('s world, core_error, string list) prog" where
  "read_forgotten_snapshot_ids L store =
     andThen (lift_result (map_err CoreObjectKey (object_key_prefix_new ''forgets''))) (\<lambda>pre.
     andThen (on_store (map_error CoreStorage (list_prefix store pre))) (\<lambda>marker_keys.
     for_each (sort marker_keys) (\<lambda>snapshot_ids marker_key.
       andThen (read_snapshot_forget_marker L store marker_key) (\<lambda>marker.
       ret (bs_insert (sf_snapshot_id marker) snapshot_ids))) []))"

definition check_commit_marker ::
  "object_key \<Rightarrow> snapshot_commit \<Rightarrow> core_error + object_key" where
  "check_commit_marker commit_key commit =
     bindR (object_key_for_commit (sc_snapshot_id commit)) (\<lambda>expected_commit_key.
     if expected_commit_key \<noteq> commit_key then
       Err (InvalidCommitMarker commit_key ''commit object key does not match committed snapshot id'')
     else bindR (object_key_for_id ''objects/manifest'' (sc_snapshot_id commit)) (\<lambda>expected_manifest_object.
     if sc_manifest_object commit \<noteq> as_str expected_manifest_object then
       Err (InvalidCommitMarker expected_commit_key
         ''commit manifest object does not match committed snapshot id'')
     else Ok expected_manifest_object))"

definition read_committed_snapshot_manifests ::
  "library \<Rightarrow> backup_pipeline_config \<Rightarrow> 's store_ops \<Rightarrow> master_key \<Rightarrow>
   ('s world, core_error, snapshot_manifest list) prog" where
  "read_committed_snapshot_manifests L c store master =
     andThen (read_forgotten_snapshot_ids L store) (\<lambda>forgotten_snapshot_ids.
     andThen (lift_result (map_err CoreObjectKey (object_key_prefix_new ''commits''))) (\<lambda>pre.
     andThen (on_store (map_error CoreStorage (list_prefix store pre))) (\<lambda>commit_keys.
     andThen (for_each (sort commit_keys) (\<lambda>manifests commit_key.
       andThen (read_snapshot_commit L store commit_key) (\<lambda>commit.
       if sc_snapshot_id commit \<in> set forgotten_snapshot_ids then ret manifests
       else
         andThen (lift_result (check_commit_marker commit_key commit)) (\<lambda>expected_manifest_object.
         andThen (map_error (referenced_object_read_error expected_manifest_object)
                    (read_snapshot_manifest L c store master (sc_snapshot_id commit))) (\<lambda>manifest.
         ret (manifests @ [manifest]))))) []) (\<lambda>manifests.
     ret (sort_key snapshot_order_key manifests)))))"

section \<open>Reading depends on the contents only\<close>

lemma stable_read_snapshot_manifest [stable_intros]:
  "stable (read_snapshot_manifest L c map_store_ops master sid)"
  unfolding read_snapshot_manifest_def by (intro stable_intros)

lemma stable_read_chunk_index [stable_intros]:
  "stable (read_chunk_index L c map_store_ops master iid)"
  unfolding read_chunk_index_def by (intro stable_intros)

lemma stable_load_chunk_index_entries [stable_intros]:
  "stable (load_chunk_index_entries L c map_store_ops master manifest)"
  unfolding load_chunk_index_entries_def by (intro stable_intros)

lemma stable_restore_chunk [stable_intros]:
  "stable (restore_chunk L c map_store_ops master key sid rel idx contents chunk)"
  unfolding restore_chunk_def by (intro stable_intros)

lemma stable_restore_entry [stable_intros]:
  "stable (restore_entry L c map_store_ops master key sid idx acc e)"
  unfolding restore_entry_def Let_def
  by (cases "entry_kind (me_metadata e)"; cases "symlink_target (me_metadata e)")
    (auto intro!: stable_intros)

lemma stable_restore_snapshot_contents [stable_intros]:
  "stable (restore_snapshot_contents L c map_store_ops master sid paths)"
  unfolding restore_snapshot_contents_def Let_def by (intro stable_intros)

text \<open>The object keys a manifest refers to are keys of the core crate.\<close>

definition manifest_keys_ok :: "snapshot_manifest \<Rightarrow> bool" where
  "manifest_keys_ok m \<longleftrightarrow>
     (\<forall>e \<in> set (mb_entries (sm_body m)). \<forall>ch \<in> set (me_chunks e). repo_key (ObjectKey (mc_object_key ch)))"

definition well_keyed :: "library \<Rightarrow> backup_pipeline_config \<Rightarrow> master_key \<Rightarrow> object_map \<Rightarrow> bool" where
  "well_keyed L c master m \<longleftrightarrow>
     (\<forall>sid n x. fst (read_snapshot_manifest L c map_store_ops master sid (map_world m n)) = Ok x \<longrightarrow>
        manifest_keys_ok x)"

context eventual_repository
begin

lemma sim_read_snapshot_manifest:
  "sim J (read_snapshot_manifest L c ops master sid) (read_snapshot_manifest L c map_store_ops master sid)"
  unfolding read_snapshot_manifest_def
  by (rule sim_rules)+ (auto intro!: sim_rules sim_read_json dest: repo_key_object simp: object_groups_def)

lemma sim_read_chunk_index:
  "sim J (read_chunk_index L c ops master iid) (read_chunk_index L c map_store_ops master iid)"
  unfolding read_chunk_index_def
  by (rule sim_rules)+ (auto intro!: sim_rules sim_read_json dest: repo_key_object simp: object_groups_def)

lemma sim_load_chunk_index_entries:
  "sim J (load_chunk_index_entries L c ops master manifest)
     (load_chunk_index_entries L c map_store_ops master manifest)"
  unfolding load_chunk_index_entries_def
  by (rule sim_rules)+ (auto intro!: sim_rules sim_read_chunk_index)

lemma sim_restore_chunk:
  assumes "repo_key (ObjectKey (mc_object_key chunk))"
  shows "sim J (restore_chunk L c ops master key sid rel idx acc chunk)
     (restore_chunk L c map_store_ops master key sid rel idx acc chunk)"
  unfolding restore_chunk_def
  by (rule sim_rules)+
    (auto intro!: sim_rules sim_get simp: map_err_Ok_iff dest: object_key_new_valid simp: assms object_key_new_Ok key_valid_def)

lemma sim_restore_entry:
  assumes "\<forall>ch \<in> set (me_chunks e). repo_key (ObjectKey (mc_object_key ch))"
  shows "sim J (restore_entry L c ops master key sid idx acc e)
     (restore_entry L c map_store_ops master key sid idx acc e)"
proof (cases "entry_kind (me_metadata e)")
  case RegularFile
  then show ?thesis unfolding restore_entry_def Let_def
    using assms by (auto intro!: sim_bind sim_ret simulates_for_each sim_restore_chunk)
next
  case Symlink
  then show ?thesis unfolding restore_entry_def Let_def
    by (cases "symlink_target (me_metadata e)") (auto intro!: sim_ret)
qed (auto simp: restore_entry_def Let_def intro!: sim_ret)

lemma simulates_read_snapshot_manifest:
  "simulates (well_keyed L c master) (read_snapshot_manifest L c ops master sid)
     (read_snapshot_manifest L c map_store_ops master sid) manifest_keys_ok"
  unfolding simulates_def
proof (intro allI impI)
  fix w r w'
  assume inv: "inv (w_store w)" and J: "well_keyed L c master (contents (w_store w))"
    and run: "read_snapshot_manifest L c ops master sid w = (r, w')"
  note sims = simulatesD [OF sim_read_snapshot_manifest [where J = "well_keyed L c master"] inv J run]
  have "manifest_keys_ok x" if "r = Ok x" for x
  proof -
    have "fst (read_snapshot_manifest L c map_store_ops master sid (view w)) = Ok x"
      using sims(3) [OF that] by simp
    then show ?thesis using J unfolding well_keyed_def view_def by blast
  qed
  then show "inv (w_store w') \<and> view w' = view w \<and> (\<forall>x. r = Ok x \<longrightarrow>
      read_snapshot_manifest L c map_store_ops master sid (view w) = (Ok x, view w) \<and> manifest_keys_ok x)"
    using sims(1,2) sims(3) by blast
qed

lemma sim_restore_snapshot_contents:
  "sim (well_keyed L c master) (restore_snapshot_contents L c ops master sid paths)
     (restore_snapshot_contents L c map_store_ops master sid paths)"
  unfolding restore_snapshot_contents_def Let_def
proof (rule sim_bind_lift, rule sim_bind_lift,
    rule simulates_andThen [OF simulates_map_error [OF simulates_read_snapshot_manifest]], rule sim_bind_lift)
  fix restore_paths manifest u
  assume keys: "manifest_keys_ok manifest"
  have scoped: "\<forall>ch \<in> set (me_chunks e). repo_key (ObjectKey (mc_object_key ch))"
    if "e \<in> set (scoped_manifest_entries manifest restore_paths)" for e
    using that keys by (auto simp: manifest_keys_ok_def scoped_manifest_entries_def)
  show "sim (well_keyed L c master)
    (andThen (load_chunk_index_entries L c ops master manifest) (\<lambda>chunk_index.
       andThen (lift_result (derive_key L c master ChunkData)) (\<lambda>chunk_key.
       for_each (scoped_manifest_entries manifest restore_paths)
         (restore_entry L c ops master chunk_key (sm_snapshot_id manifest) chunk_index)
         \<lparr>rc_snapshot_id = sm_snapshot_id manifest,
          rc_selected_entries = length (scoped_manifest_entries manifest restore_paths),
          rc_directories = [], rc_files = [], rc_symlinks = [], rc_metadata_warnings = []\<rparr>)))
    (andThen (load_chunk_index_entries L c map_store_ops master manifest) (\<lambda>chunk_index.
       andThen (lift_result (derive_key L c master ChunkData)) (\<lambda>chunk_key.
       for_each (scoped_manifest_entries manifest restore_paths)
         (restore_entry L c map_store_ops master chunk_key (sm_snapshot_id manifest) chunk_index)
         \<lparr>rc_snapshot_id = sm_snapshot_id manifest,
          rc_selected_entries = length (scoped_manifest_entries manifest restore_paths),
          rc_directories = [], rc_files = [], rc_symlinks = [], rc_metadata_warnings = []\<rparr>)))"
    by (intro sim_bind [OF sim_load_chunk_index_entries] sim_bind_lift simulates_for_each
        sim_restore_entry scoped)
qed

lemma sim_read_snapshot_forget_marker: "usable k \<Longrightarrow>
    sim J (read_snapshot_forget_marker L ops k) (read_snapshot_forget_marker L map_store_ops k)"
  unfolding read_snapshot_forget_marker_def
  by (intro sim_bind_lift sim_bind sim_lift) (rule simulates_get)

lemma sim_read_snapshot_commit: "usable k \<Longrightarrow>
    sim J (read_snapshot_commit L ops k) (read_snapshot_commit L map_store_ops k)"
  unfolding read_snapshot_commit_def
  by (intro sim_bind_lift sim_bind sim_lift) (rule simulates_get)

end

context repository_store
begin

lemma sim_read_forgotten_snapshot_ids:
  "sim J (read_forgotten_snapshot_ids L ops) (read_forgotten_snapshot_ids L map_store_ops)"
  unfolding read_forgotten_snapshot_ids_def
  by (intro sim_bind_lift simulates_list_sorted simulates_for_each sim_bind sim_ret
      sim_read_snapshot_forget_marker) (erule listed_prefix_mapped, simp)

lemma sim_read_committed_snapshot_manifests:
  "sim J (read_committed_snapshot_manifests L c ops master)
     (read_committed_snapshot_manifests L c map_store_ops master)"
  unfolding read_committed_snapshot_manifests_def
proof (rule sim_bind [OF sim_read_forgotten_snapshot_ids], rule sim_bind_lift, rule simulates_list_sorted,
    erule listed_prefix_mapped, simp, intro sim_bind simulates_for_each sim_ret sim_read_snapshot_commit)
  fix forgotten commit_keys manifests commit_key commit
  show "sim J
    (if sc_snapshot_id commit \<in> set forgotten then ret manifests
     else andThen (lift_result (check_commit_marker commit_key commit)) (\<lambda>expected_manifest_object.
       andThen (map_error (referenced_object_read_error expected_manifest_object)
         (read_snapshot_manifest L c ops master (sc_snapshot_id commit))) (\<lambda>manifest.
       ret (manifests @ [manifest]))))
    (if sc_snapshot_id commit \<in> set forgotten then ret manifests
     else andThen (lift_result (check_commit_marker commit_key commit)) (\<lambda>expected_manifest_object.
       andThen (map_error (referenced_object_read_error expected_manifest_object)
         (read_snapshot_manifest L c map_store_ops master (sc_snapshot_id commit))) (\<lambda>manifest.
       ret (manifests @ [manifest]))))"
    by (cases "sc_snapshot_id commit \<in> set forgotten")
      (simp_all only: if_True if_False, (intro sim_bind_lift sim_bind simulates_map_error sim_ret
        sim_read_snapshot_manifest)+)
qed (assumption | simp)+

end

end
