(* ===== verification/Ferry_Backup.thy ===== *)
theory Ferry_Backup
  imports Ferry_Reader
begin

text \<open>
  The writing half of \<open>BackupPipeline\<close>: \<open>write_snapshot\<close> and the forget markers. A backup
  publishes the chunk objects, then the index, then the manifest and last the commit marker,
  each with \<open>put_if_absent\<close>; the order is the order of the definitions' steps. The clock is the
  argument \<open>now\<close>, in nanoseconds since the Unix epoch.
\<close>

section \<open>State of a backup\<close>

record backup_request =
  br_roots :: "path list"
  br_exclusion_rules :: "exclusion_rule list"
  br_tags :: "string list"

text \<open>The mutable variables of \<open>write_snapshot\<close>.\<close>

record backup_state =
  bk_manifest_entries :: "manifest_entry list"
  bk_index_entries :: "chunk_index_entry list"
  bk_objects_written :: nat
  bk_objects_reused :: nat
  bk_chunks_seen :: nat
  bk_bytes_scanned :: u64
  bk_bytes_uploaded :: u64
  bk_files :: nat
  bk_directories :: nat
  bk_symlinks :: nat
  bk_special :: nat

definition backup_state_init :: backup_state where
  "backup_state_init =
     \<lparr>bk_manifest_entries = [], bk_index_entries = [], bk_objects_written = 0,
      bk_objects_reused = 0, bk_chunks_seen = 0, bk_bytes_scanned = 0, bk_bytes_uploaded = 0,
      bk_files = 0, bk_directories = 0, bk_symlinks = 0, bk_special = 0\<rparr>"

record snapshot_write_result =
  wr_snapshot_id :: string
  wr_created_at :: u64
  wr_manifest_object :: object_key
  wr_index_object :: object_key
  wr_index_ids :: "string list"
  wr_commit_object :: object_key
  wr_chunk_objects_written :: nat
  wr_chunk_objects_reused :: nat
  wr_entries :: nat
  wr_entries_scanned :: nat
  wr_files_backed_up :: nat
  wr_directories_backed_up :: nat
  wr_symlinks_backed_up :: nat
  wr_special_entries_seen :: nat
  wr_bytes_scanned :: u64
  wr_bytes_uploaded :: u64
  wr_chunks_seen :: nat
  wr_chunks_written :: nat
  wr_chunks_reused :: nat
  wr_chunks :: nat

definition current_unix_seconds :: "system_time \<Rightarrow> core_error + u64" where
  "current_unix_seconds now =
     (if now < 0 then Err (SystemClock (SystemTimeError (nat (- now))))
      else Ok (word_of_int (now div 10 ^ 9)))"

section \<open>Chunks\<close>

text \<open>\<open>usize\<close> is 64 bits, so the two conversions of \<open>u64\<close> values succeed.\<close>

definition chunk_range :: "path \<Rightarrow> bytes \<Rightarrow> content_chunk \<Rightarrow> core_error + bytes" where
  "chunk_range p file_bytes chunk =
     (let start = unat (cc_offset chunk); len = unat (cc_length chunk) in
      if start + len < 2 ^ 64 \<and> start + len \<le> length file_bytes
      then Ok (take len (drop start file_bytes))
      else Err (InvalidChunkRange p))"

definition chunk_identity ::
  "library \<Rightarrow> backup_pipeline_config \<Rightarrow> master_key \<Rightarrow> bytes \<Rightarrow> core_error + string" where
  "chunk_identity L c master plaintext =
     map_err Encryption (bindR (keyed_content_id (lib_crypto L) master ChunkIdentity
       (repository_context c) plaintext) (\<lambda>cid. Ok (hex_bytes cid)))"

text \<open>Publish one chunk object unless it exists; the first flag counts a write, else a reuse.\<close>

definition publish_chunk ::
  "'s store_ops \<Rightarrow> object_key \<Rightarrow> bytes \<Rightarrow> ('s world, core_error, bool) prog" where
  "publish_chunk store object_key encrypted =
     andThen (on_store (map_error CoreStorage (object_exists store object_key))) (\<lambda>present.
     if \<not> present then
       andThen (on_store (map_error CoreStorage (put_if_absent store object_key encrypted))) (\<lambda>status.
       ret (case status of Created \<Rightarrow> True | AlreadyPresent \<Rightarrow> False))
     else ret False)"

definition backup_chunk ::
  "library \<Rightarrow> backup_pipeline_config \<Rightarrow> 's store_ops \<Rightarrow> master_key \<Rightarrow> subkey \<Rightarrow> bytes \<Rightarrow>
   backup_state \<times> manifest_entry \<Rightarrow> content_chunk \<Rightarrow>
   ('s world, core_error, backup_state \<times> manifest_entry) prog" where
  "backup_chunk L c store master chunk_key file_bytes acc chunk =
     (case acc of (st, entry) \<Rightarrow>
       andThen (lift_result (chunk_range (me_path entry) file_bytes chunk)) (\<lambda>plaintext.
       andThen (lift_result (chunk_identity L c master plaintext)) (\<lambda>chunk_id.
       andThen (lift_result (object_key_for_id ''objects/chunk'' chunk_id)) (\<lambda>object_key.
       andThen (lift_result (map_err (Compression (me_path entry))
                  (zstd_compress L (pc_compression_level c) plaintext))) (\<lambda>compressed.
       andThen (encrypt_repository_object L chunk_key Chunk object_key compressed) (\<lambda>encrypted.
       andThen (publish_chunk store object_key encrypted) (\<lambda>written.
       let chunk_ref = \<lparr>mc_chunk_id = chunk_id, mc_object_key = as_str object_key,
                        mc_offset = cc_offset chunk, mc_length = cc_length chunk\<rparr>;
           index_entry = \<lparr>ie_chunk_id = chunk_id, ie_object_key = as_str object_key,
                          ie_plaintext_length = cc_length chunk,
                          ie_compressed_length = word_of_nat (length compressed),
                          ie_stored_length = word_of_nat (length encrypted),
                          ie_compression = Zstd, ie_aead = RepositoryXChaCha20Poly1305\<rparr>
       in ret
         (st\<lparr>bk_chunks_seen := bk_chunks_seen st + 1,
             bk_objects_written := bk_objects_written st + (if written then 1 else 0),
             bk_objects_reused := bk_objects_reused st + (if written then 0 else 1),
             bk_bytes_uploaded := bk_bytes_uploaded st +
               (if written then word_of_nat (length encrypted) else 0),
             bk_index_entries := bk_index_entries st @ [index_entry]\<rparr>,
          entry\<lparr>me_chunks := me_chunks entry @ [chunk_ref]\<rparr>))))))))"

definition count_entry :: "entry_kind \<Rightarrow> backup_state \<Rightarrow> backup_state" where
  "count_entry knd st =
     (case knd of
        RegularFile \<Rightarrow> st\<lparr>bk_files := bk_files st + 1\<rparr>
      | Directory \<Rightarrow> st\<lparr>bk_directories := bk_directories st + 1\<rparr>
      | Symlink \<Rightarrow> st\<lparr>bk_symlinks := bk_symlinks st + 1\<rparr>
      | OtherEntry \<Rightarrow> st\<lparr>bk_special := bk_special st + 1\<rparr>)"

definition backup_entry ::
  "library \<Rightarrow> backup_pipeline_config \<Rightarrow> 's store_ops \<Rightarrow> fs_view \<Rightarrow> master_key \<Rightarrow> subkey \<Rightarrow>
   backup_state \<Rightarrow> manifest_entry \<Rightarrow> ('s world, core_error, backup_state) prog" where
  "backup_entry L c store V master chunk_key st entry =
     (let st = count_entry (entry_kind (me_metadata entry)) st in
      andThen
        (if entry_kind (me_metadata entry) = RegularFile then
           andThen (lift_result (map_err (FileRead (me_path entry)) (fs_read V (me_path entry)))) (\<lambda>file_bytes.
           for_each (chunk_bytes (lib_fastcdc L) (pc_chunking c) file_bytes)
             (backup_chunk L c store master chunk_key file_bytes)
             (st\<lparr>bk_bytes_scanned := bk_bytes_scanned st + word_of_nat (length file_bytes)\<rparr>, entry))
         else ret (st, entry))
        (\<lambda>(st, entry). ret (st\<lparr>bk_manifest_entries := bk_manifest_entries st @ [entry]\<rparr>)))"

section \<open>Publishing a snapshot\<close>

definition publish_index ::
  "library \<Rightarrow> backup_pipeline_config \<Rightarrow> 's store_ops \<Rightarrow> master_key \<Rightarrow> subkey \<Rightarrow> chunk_index_entry list \<Rightarrow>
   ('s world, core_error, string \<times> object_key \<times> u64) prog" where
  "publish_index L c store master index_key index_entries =
     andThen (lift_result (content_id_for_metadata L master IndexPurpose (repository_context c)
                (entries_codec L) index_entries)) (\<lambda>index_id.
     andThen (lift_result (object_key_for_id ''objects/index'' index_id)) (\<lambda>index_object.
     andThen (write_encrypted_json_object L store index_key IndexKind index_object (index_codec L)
                \<lparr>ci_schema_version = 0, ci_index_id = index_id, ci_chunks = index_entries\<rparr>) (\<lambda>uploaded.
     ret (index_id, index_object, uploaded))))"

definition publish_manifest ::
  "library \<Rightarrow> backup_pipeline_config \<Rightarrow> 's store_ops \<Rightarrow> master_key \<Rightarrow> subkey \<Rightarrow> snapshot_manifest_body \<Rightarrow>
   ('s world, core_error, string \<times> object_key \<times> u64) prog" where
  "publish_manifest L c store master manifest_key body =
     andThen (lift_result (content_id_for_metadata L master SnapshotMetadata (repository_context c)
                (body_codec L) body)) (\<lambda>snapshot_id.
     andThen (lift_result (object_key_for_id ''objects/manifest'' snapshot_id)) (\<lambda>manifest_object.
     andThen (write_encrypted_json_object L store manifest_key SnapshotManifestKind manifest_object
                (manifest_codec L)
                \<lparr>sm_schema_version = 0, sm_snapshot_id = snapshot_id, sm_body = body\<rparr>) (\<lambda>uploaded.
     ret (snapshot_id, manifest_object, uploaded))))"

definition publish_commit ::
  "library \<Rightarrow> 's store_ops \<Rightarrow> string \<Rightarrow> object_key \<Rightarrow> ('s world, core_error, object_key \<times> u64) prog" where
  "publish_commit L store snapshot_id manifest_object =
     andThen (lift_result (object_key_for_commit snapshot_id)) (\<lambda>commit_object.
     andThen (lift_result (map_err Serialization (to_vec (commit_codec L)
                \<lparr>sc_schema_version = 0, sc_snapshot_id = snapshot_id,
                 sc_manifest_object = as_str manifest_object\<rparr>))) (\<lambda>commit_bytes.
     andThen (on_store (map_error CoreStorage (put_if_absent store commit_object commit_bytes))) (\<lambda>status.
     ret (commit_object, if status = Created then word_of_nat (length commit_bytes) else 0))))"

definition sort_index_entries :: "chunk_index_entry list \<Rightarrow> chunk_index_entry list" where
  "sort_index_entries es = dedup_key ie_chunk_id (sort_key ie_chunk_id es)"

text \<open>Everything after the loop over the entries: the index, the manifest, the commit marker.\<close>

definition publish_snapshot ::
  "library \<Rightarrow> backup_pipeline_config \<Rightarrow> 's store_ops \<Rightarrow> system_time \<Rightarrow> master_key \<Rightarrow> string list \<Rightarrow>
   subkey \<Rightarrow> subkey \<Rightarrow> backup_state \<Rightarrow> ('s world, core_error, snapshot_write_result) prog" where
  "publish_snapshot L c store now master tags index_key manifest_key st =
     (let index_entries = sort_index_entries (bk_index_entries st) in
     andThen (publish_index L c store master index_key index_entries) (\<lambda>(index_id, index_object, index_bytes).
     andThen (lift_result (current_unix_seconds now)) (\<lambda>created_at.
     let body = \<lparr>mb_created_at = created_at, mb_tags = tags,
                 mb_entries = bk_manifest_entries st, mb_index_ids = [index_id]\<rparr> in
     andThen (publish_manifest L c store master manifest_key body) (\<lambda>(snapshot_id, manifest_object, manifest_bytes).
     andThen (publish_commit L store snapshot_id manifest_object) (\<lambda>(commit_object, commit_bytes).
     ret \<lparr>wr_snapshot_id = snapshot_id, wr_created_at = created_at,
          wr_manifest_object = manifest_object, wr_index_object = index_object,
          wr_index_ids = [index_id], wr_commit_object = commit_object,
          wr_chunk_objects_written = bk_objects_written st,
          wr_chunk_objects_reused = bk_objects_reused st,
          wr_entries = length (bk_manifest_entries st),
          wr_entries_scanned = length (bk_manifest_entries st),
          wr_files_backed_up = bk_files st, wr_directories_backed_up = bk_directories st,
          wr_symlinks_backed_up = bk_symlinks st, wr_special_entries_seen = bk_special st,
          wr_bytes_scanned = bk_bytes_scanned st,
          wr_bytes_uploaded = bk_bytes_uploaded st + index_bytes + manifest_bytes + commit_bytes,
          wr_chunks_seen = bk_chunks_seen st, wr_chunks_written = bk_objects_written st,
          wr_chunks_reused = bk_objects_reused st, wr_chunks = length index_entries\<rparr>)))))"

definition write_entries ::
  "library \<Rightarrow> backup_pipeline_config \<Rightarrow> 's store_ops \<Rightarrow> fs_view \<Rightarrow> system_time \<Rightarrow> master_key \<Rightarrow>
   string list \<Rightarrow> manifest_entry list \<Rightarrow> ('s world, core_error, snapshot_write_result) prog" where
  "write_entries L c store V now master tags entries =
     andThen (lift_result (derive_key L c master ChunkData)) (\<lambda>chunk_key.
     andThen (lift_result (derive_key L c master IndexPurpose)) (\<lambda>index_key.
     andThen (lift_result (derive_key L c master SnapshotMetadata)) (\<lambda>manifest_key.
     andThen (for_each entries (backup_entry L c store V master chunk_key) backup_state_init)
       (publish_snapshot L c store now master tags index_key manifest_key))))"

text \<open>\<open>None\<close> is a walk of the sources that does not return.\<close>

definition write_snapshot ::
  "library \<Rightarrow> backup_pipeline_config \<Rightarrow> 's store_ops \<Rightarrow> fs_view \<Rightarrow> system_time \<Rightarrow> master_key \<Rightarrow>
   backup_request \<Rightarrow> ('s world, core_error, snapshot_write_result) prog option" where
  "write_snapshot L c store V now master request =
     (case walk (br_exclusion_rules request) V (br_roots request) of
        None \<Rightarrow> None
      | Some (Err e) \<Rightarrow> Some (lift_result (Err e))
      | Some (Ok sources) \<Rightarrow>
          Some (write_entries L c store V now master (br_tags request)
            (map manifest_entry_from_source sources)))"

section \<open>Forget markers\<close>

record snapshot_forget_write =
  fw_snapshot_id :: string
  fw_marker_object :: string
  fw_created :: bool

definition write_forget_marker ::
  "library \<Rightarrow> 's store_ops \<Rightarrow> u64 \<Rightarrow> snapshot_forget_write list \<Rightarrow> string \<Rightarrow>
   ('s world, core_error, snapshot_forget_write list) prog" where
  "write_forget_marker L store forgotten_at markers snapshot_id =
     andThen (lift_result (object_key_for_forget_marker snapshot_id)) (\<lambda>marker_object.
     andThen (lift_result (object_key_for_id ''objects/manifest'' snapshot_id)) (\<lambda>manifest_object.
     andThen (lift_result (object_key_for_commit snapshot_id)) (\<lambda>commit_object.
     andThen (lift_result (map_err Serialization (to_vec (forget_codec L)
                \<lparr>sf_schema_version = 0, sf_snapshot_id = snapshot_id,
                 sf_manifest_object = as_str manifest_object, sf_commit_object = as_str commit_object,
                 sf_forgotten_at = forgotten_at\<rparr>))) (\<lambda>marker_bytes.
     andThen (on_store (map_error CoreStorage (put_if_absent store marker_object marker_bytes))) (\<lambda>status.
     ret (markers @ [\<lparr>fw_snapshot_id = snapshot_id, fw_marker_object = as_str marker_object,
                      fw_created = (status = Created)\<rparr>]))))))"

definition write_snapshot_forget_markers ::
  "library \<Rightarrow> 's store_ops \<Rightarrow> system_time \<Rightarrow> string list \<Rightarrow>
   ('s world, core_error, snapshot_forget_write list) prog" where
  "write_snapshot_forget_markers L store now snapshot_ids =
     (if snapshot_ids = [] then lift_result (Err ForgetNoSnapshotsMatched)
      else
        andThen (lift_result (current_unix_seconds now)) (\<lambda>forgotten_at.
        for_each (dedup_key (\<lambda>x. x) (sort snapshot_ids)) (write_forget_marker L store forgotten_at) []))"

end
