(* ===== verification/Ferry_Durability.thy ===== *)
theory Ferry_Durability
  imports Ferry_Backup
begin

text \<open>
  What a backup leaves behind. The first part says over the abstract map when a stored snapshot
  can be restored, and to what; the second follows \<open>write_entries\<close> over any store that meets
  the contract and shows that a commit marker is only ever published after everything a
  restore needs.
\<close>

section \<open>Sound contents\<close>

text \<open>
  Every chunk object decrypts and decompresses to data with the id it is stored under. \<open>D\<close> is the set
  of all chunks the repository ever holds.
\<close>

definition sound_at ::
  "library \<Rightarrow> backup_pipeline_config \<Rightarrow> master_key \<Rightarrow> bytes set \<Rightarrow> object_key \<Rightarrow> bytes \<Rightarrow> bool" where
  "sound_at L c master D k b \<longleftrightarrow>
     (\<forall>key cid. derive_key L c master ChunkData = Ok key \<longrightarrow>
        object_key_for_id ''objects/chunk'' cid = Ok k \<longrightarrow>
        (\<exists>compressed. \<exists>plain \<in> D. decrypt_repository_object L key Chunk k b = Ok compressed \<and>
           zstd_decompress L compressed (length plain) = Ok plain \<and>
           chunk_identity L c master plain = Ok cid))"

definition chunk_sound :: "library \<Rightarrow> backup_pipeline_config \<Rightarrow> master_key \<Rightarrow> bytes set \<Rightarrow> object_map \<Rightarrow> bool" where
  "chunk_sound L c master D m \<longleftrightarrow> (\<forall>k b. m k = Some b \<longrightarrow> sound_at L c master D k b)"

text \<open>The keyed hash does not collide on the chunks \<open>D\<close> of this repository.\<close>

definition collision_free :: "library \<Rightarrow> backup_pipeline_config \<Rightarrow> master_key \<Rightarrow> bytes set \<Rightarrow> bool" where
  "collision_free L c master D \<longleftrightarrow>
     (\<forall>p \<in> D. \<forall>q \<in> D. \<forall>cid. chunk_identity L c master p = Ok cid \<longrightarrow> chunk_identity L c master q = Ok cid \<longrightarrow> p = q)"

definition restorable ::
  "library \<Rightarrow> backup_pipeline_config \<Rightarrow> master_key \<Rightarrow> object_map \<Rightarrow> string \<Rightarrow> bool" where
  "restorable L c master m sid \<longleftrightarrow>
     (\<exists>r. fst (restore_snapshot_contents L c map_store_ops master sid [] (map_world m 0)) = Ok r)"

text \<open>Every snapshot with a commit marker can be restored.\<close>

definition commits_restorable ::
  "library \<Rightarrow> backup_pipeline_config \<Rightarrow> master_key \<Rightarrow> object_map \<Rightarrow> bool" where
  "commits_restorable L c master m \<longleftrightarrow>
     (\<forall>sid k. object_key_for_commit sid = Ok k \<longrightarrow> m k \<noteq> None \<longrightarrow> restorable L c master m sid)"

lemma collision_freeD:
  "collision_free L c master D \<Longrightarrow> p \<in> D \<Longrightarrow> q \<in> D \<Longrightarrow>
    chunk_identity L c master p = Ok cid \<Longrightarrow> chunk_identity L c master q = Ok cid \<Longrightarrow> p = q"
  unfolding collision_free_def by blast

lemma restore_mono:
  assumes "m \<subseteq>\<^sub>m m'" and "fst (restore_snapshot_contents L c map_store_ops master sid ps (map_world m n)) = Ok r"
  shows "fst (restore_snapshot_contents L c map_store_ops master sid ps (map_world m' n')) = Ok r"
  using stable_restore_snapshot_contents assms unfolding stable_def by blast

lemma restorable_mono: "m \<subseteq>\<^sub>m m' \<Longrightarrow> restorable L c master m sid \<Longrightarrow> restorable L c master m' sid"
  unfolding restorable_def using restore_mono by blast

section \<open>Restoring from a map\<close>

text \<open>\<open>chunk_ref_ok m idx ch plain\<close>: following the reference \<open>ch\<close> leads to the bytes \<open>plain\<close>.\<close>

definition chunk_ref_ok ::
  "library \<Rightarrow> backup_pipeline_config \<Rightarrow> master_key \<Rightarrow> bytes set \<Rightarrow> object_map \<Rightarrow>
   (string, chunk_index_entry) btree_map \<Rightarrow> manifest_chunk_ref \<Rightarrow> bytes \<Rightarrow> bool" where
  "chunk_ref_ok L c master D m idx ch plain \<longleftrightarrow>
     plain \<in> D \<and> chunk_identity L c master plain = Ok (mc_chunk_id ch) \<and>
     unat (mc_length ch) = length plain \<and>
     (\<exists>k ie. object_key_for_id ''objects/chunk'' (mc_chunk_id ch) = Ok k \<and> mc_object_key ch = as_str k \<and>
        m k \<noteq> None \<and> bt_get idx (mc_chunk_id ch) = Some ie \<and> ie_object_key ie = mc_object_key ch \<and>
        ie_plaintext_length ie = mc_length ch)"

lemma get_map_world:
  "on_store (map_error g (get_object map_store_ops k)) (map_world m n) =
     (map_err g (ok_or (ObjectNotFound k) (m k)), map_world m n)"
  by (simp add: on_store_def map_error_def map_store_ops_def map_world_def)

lemma chunk_id_key_new:
  "object_key_for_id grp cid = Ok k \<Longrightarrow> object_key_new (as_str k) = Ok k"
  using object_key_for_id_Ok(2) [of grp cid k] by (simp add: object_key_new_Ok key_valid_def)

lemma zstd_Zstd [simp]: "ie_compression ie = Zstd"
  by (cases "ie_compression ie") simp

lemma restore_chunk_Ok:
  assumes ref: "chunk_ref_ok L c master D m idx ch plain"
    and sound: "chunk_sound L c master D m" and free: "collision_free L c master D"
    and key: "derive_key L c master ChunkData = Ok key"
  shows "restore_chunk L c map_store_ops master key sid rel idx acc ch (map_world m n) =
    (Ok (acc @ plain), map_world m n)"
proof -
  obtain k ie b where k: "object_key_for_id ''objects/chunk'' (mc_chunk_id ch) = Ok k"
      "mc_object_key ch = as_str k" "m k = Some b"
    and ie: "bt_get idx (mc_chunk_id ch) = Some ie" "ie_object_key ie = mc_object_key ch"
      "ie_plaintext_length ie = mc_length ch"
    using ref by (auto simp: chunk_ref_ok_def)
  obtain compressed p where dec: "decrypt_repository_object L key Chunk k b = Ok compressed"
      "zstd_decompress L compressed (length p) = Ok p" "chunk_identity L c master p = Ok (mc_chunk_id ch)" "p \<in> D"
    using sound key k unfolding chunk_sound_def sound_at_def by blast
  have plain: "plain \<in> D" "chunk_identity L c master plain = Ok (mc_chunk_id ch)"
    and len: "unat (mc_length ch) = length plain"
    using ref by (simp_all add: chunk_ref_ok_def)
  have p: "p = plain" by (rule collision_freeD [OF free dec(4) plain(1) dec(3) plain(2)])
  have "verified_plaintext L c master (mc_chunk_id ch) (mc_length ch) a1 a2 a3 compressed = Ok plain" for a1 a2 a3
    using dec p len by (simp add: verified_plaintext_def Let_def chunk_identity_def)
  then show ?thesis
    using k ie dec(1) chunk_id_key_new [OF k(1)]
    by (simp add: restore_chunk_def validate_indexed_chunk_reference_def andThen_def get_map_world)
qed

lemma restore_chunks_Ok:
  assumes "list_all2 (chunk_ref_ok L c master D m idx) chs plains"
    and "chunk_sound L c master D m" and "collision_free L c master D"
    and "derive_key L c master ChunkData = Ok key"
  shows "for_each chs (restore_chunk L c map_store_ops master key sid rel idx) acc (map_world m n) =
    (Ok (acc @ concat plains), map_world m n)"
  using assms(1)
proof (induction arbitrary: acc rule: list_all2_induct)
  case (Cons ch chs plain plains)
  then show ?case
    by (simp add: andThen_def restore_chunk_Ok [OF Cons.hyps(1) assms(2-4)])
qed simp

text \<open>The result of restoring entries whose file contents are \<open>data\<close>.\<close>

definition restored_entry ::
  "(manifest_entry \<Rightarrow> bytes) \<Rightarrow> restore_content_result \<Rightarrow> manifest_entry \<Rightarrow> restore_content_result" where
  "restored_entry data acc entry =
     (let rel = me_relative_path entry; md = me_metadata entry in
      case entry_kind md of
        Directory \<Rightarrow> acc\<lparr>rc_directories := rc_directories acc @
            [\<lparr>rd_relative_path = rel, rd_modified = modified md\<rparr>]\<rparr>
      | Symlink \<Rightarrow>
          (case symlink_target md of
             Captured target \<Rightarrow> acc\<lparr>rc_symlinks := rc_symlinks acc @
               [\<lparr>rs_relative_path = rel, rs_target = target\<rparr>]\<rparr>
           | Unsupported \<Rightarrow> acc\<lparr>rc_metadata_warnings := rc_metadata_warnings acc @
               [\<lparr>rw_relative_path = rel, rw_field = ''symlink_target'',
                 rw_reason = ''symlink target was not captured''\<rparr>]\<rparr>
           | Denied reason \<Rightarrow> acc\<lparr>rc_metadata_warnings := rc_metadata_warnings acc @
               [\<lparr>rw_relative_path = rel, rw_field = ''symlink_target'',
                 rw_reason = ''symlink target was denied: '' @ reason\<rparr>]\<rparr>)
      | RegularFile \<Rightarrow> acc\<lparr>rc_files := rc_files acc @
            [\<lparr>rf_relative_path = rel, rf_contents = data entry, rf_modified = modified md\<rparr>]\<rparr>
      | OtherEntry \<Rightarrow> acc)"

definition file_restores ::
  "library \<Rightarrow> backup_pipeline_config \<Rightarrow> master_key \<Rightarrow> bytes set \<Rightarrow> object_map \<Rightarrow>
   (string, chunk_index_entry) btree_map \<Rightarrow> (manifest_entry \<Rightarrow> bytes) \<Rightarrow> manifest_entry \<Rightarrow> bool" where
  "file_restores L c master D m idx data e \<longleftrightarrow>
     (entry_kind (me_metadata e) = RegularFile \<longrightarrow>
        (\<exists>plains. list_all2 (chunk_ref_ok L c master D m idx) (me_chunks e) plains \<and> data e = concat plains))"

lemma restore_entry_Ok:
  assumes "file_restores L c master D m idx data e"
    and "chunk_sound L c master D m" and "collision_free L c master D"
    and "derive_key L c master ChunkData = Ok key"
  shows "restore_entry L c map_store_ops master key sid idx acc e (map_world m n) =
    (Ok (restored_entry data acc e), map_world m n)"
proof (cases "entry_kind (me_metadata e)")
  case RegularFile
  then obtain plains where "list_all2 (chunk_ref_ok L c master D m idx) (me_chunks e) plains" "data e = concat plains"
    using assms(1) by (auto simp: file_restores_def)
  then show ?thesis
    using RegularFile restore_chunks_Ok [OF _ assms(2-4)]
    by (simp add: restore_entry_def restored_entry_def Let_def andThen_def)
next
  case Symlink
  then show ?thesis
    by (cases "symlink_target (me_metadata e)") (simp_all add: restore_entry_def restored_entry_def Let_def)
qed (simp_all add: restore_entry_def restored_entry_def Let_def)

lemma restore_entries_Ok:
  assumes "\<forall>e \<in> set es. file_restores L c master D m idx data e"
    and "chunk_sound L c master D m" and "collision_free L c master D"
    and "derive_key L c master ChunkData = Ok key"
  shows "for_each es (restore_entry L c map_store_ops master key sid idx) acc (map_world m n) =
    (Ok (foldl (restored_entry data) acc es), map_world m n)"
  using assms(1)
  by (induction es arbitrary: acc) (simp_all add: andThen_def restore_entry_Ok [where data = data, OF _ assms(2-4)])

lemma rc_files_restored:
  "rc_files (foldl (restored_entry data) acc es) = rc_files acc @
     map (\<lambda>e. \<lparr>rf_relative_path = me_relative_path e, rf_contents = data e,
               rf_modified = modified (me_metadata e)\<rparr>)
       (filter (\<lambda>e. entry_kind (me_metadata e) = RegularFile) es)"
proof (induction es arbitrary: acc)
  case (Cons e es)
  then show ?case
    by (cases "entry_kind (me_metadata e)"; cases "symlink_target (me_metadata e)")
      (simp_all add: restored_entry_def Let_def)
qed simp

section \<open>Stored manifests and indexes\<close>

definition manifest_stored ::
  "library \<Rightarrow> backup_pipeline_config \<Rightarrow> master_key \<Rightarrow> object_map \<Rightarrow> snapshot_manifest \<Rightarrow> bool" where
  "manifest_stored L c master m manifest \<longleftrightarrow>
     (\<exists>key k b. derive_key L c master SnapshotMetadata = Ok key \<and>
        object_key_for_id ''objects/manifest'' (sm_snapshot_id manifest) = Ok k \<and> m k = Some b \<and>
        json_bytes_read L key SnapshotManifestKind k (manifest_codec L) b = Ok manifest \<and>
        content_id_for_metadata L master SnapshotMetadata (repository_context c) (body_codec L)
          (sm_body manifest) = Ok (sm_snapshot_id manifest))"

definition index_stored ::
  "library \<Rightarrow> backup_pipeline_config \<Rightarrow> master_key \<Rightarrow> object_map \<Rightarrow> chunk_index \<Rightarrow> bool" where
  "index_stored L c master m index \<longleftrightarrow>
     (\<exists>key k b. derive_key L c master IndexPurpose = Ok key \<and>
        object_key_for_id ''objects/index'' (ci_index_id index) = Ok k \<and> m k = Some b \<and>
        json_bytes_read L key IndexKind k (index_codec L) b = Ok index \<and>
        content_id_for_metadata L master IndexPurpose (repository_context c) (entries_codec L)
          (ci_chunks index) = Ok (ci_index_id index))"

lemma manifest_stored_mono: "m \<subseteq>\<^sub>m m' \<Longrightarrow> manifest_stored L c master m x \<Longrightarrow> manifest_stored L c master m' x"
  unfolding manifest_stored_def map_le_def by (metis domI)

lemma index_stored_mono: "m \<subseteq>\<^sub>m m' \<Longrightarrow> index_stored L c master m x \<Longrightarrow> index_stored L c master m' x"
  unfolding index_stored_def map_le_def by (metis domI)

lemma read_json_map:
  "read_encrypted_json_object L map_store_ops key knd k codec (map_world m n) =
     (bindR (map_err CoreStorage (ok_or (ObjectNotFound k) (m k))) (json_bytes_read L key knd k codec),
      map_world m n)"
  by (cases "m k"; cases "decrypt_repository_object L key knd k (the (m k))")
    (simp_all add: read_encrypted_json_object_def read_encrypted_json_object_with_bytes_def andThen_def
      get_map_world json_bytes_read_def Let_def split: sum.splits)

lemma read_manifest_stored:
  assumes "manifest_stored L c master m manifest" and "entries_valid (mb_entries (sm_body manifest))"
  shows "read_snapshot_manifest L c map_store_ops master (sm_snapshot_id manifest) (map_world m n) =
    (Ok manifest, map_world m n)"
proof -
  obtain key k b where "derive_key L c master SnapshotMetadata = Ok key"
      "object_key_for_id ''objects/manifest'' (sm_snapshot_id manifest) = Ok k" "m k = Some b"
      "json_bytes_read L key SnapshotManifestKind k (manifest_codec L) b = Ok manifest"
      "content_id_for_metadata L master SnapshotMetadata (repository_context c) (body_codec L)
          (sm_body manifest) = Ok (sm_snapshot_id manifest)"
    using assms(1) unfolding manifest_stored_def by blast
  moreover have "validate_snapshot_manifest manifest k = Ok ()"
    using assms(2) by (simp add: validate_snapshot_manifest_iff)
  ultimately show ?thesis
    by (simp add: read_snapshot_manifest_def andThen_def read_json_map identity_check_def)
qed

lemma read_index_stored:
  assumes "index_stored L c master m index"
  shows "read_chunk_index L c map_store_ops master (ci_index_id index) (map_world m n) =
    (Ok index, map_world m n)"
proof -
  obtain key k b where "derive_key L c master IndexPurpose = Ok key"
      "object_key_for_id ''objects/index'' (ci_index_id index) = Ok k" "m k = Some b"
      "json_bytes_read L key IndexKind k (index_codec L) b = Ok index"
      "content_id_for_metadata L master IndexPurpose (repository_context c) (entries_codec L)
          (ci_chunks index) = Ok (ci_index_id index)"
    using assms unfolding index_stored_def by blast
  then show ?thesis
    by (simp add: read_chunk_index_def andThen_def read_json_map identity_check_def)
qed

text \<open>
  The snapshot a backup publishes: manifest and index are there, and every file's chunks are reached through
  the index. Whether a restore accepts it is a matter of its entries alone.
\<close>

definition snapshot_complete ::
  "library \<Rightarrow> backup_pipeline_config \<Rightarrow> master_key \<Rightarrow> bytes set \<Rightarrow> object_map \<Rightarrow> (manifest_entry \<Rightarrow> bytes) \<Rightarrow>
   snapshot_manifest \<Rightarrow> bool" where
  "snapshot_complete L c master D m data manifest \<longleftrightarrow>
     manifest_stored L c master m manifest \<and> (\<exists>key. derive_key L c master ChunkData = Ok key) \<and>
     (\<exists>index. index_stored L c master m index \<and> mb_index_ids (sm_body manifest) = [ci_index_id index] \<and>
        (\<forall>e \<in> set (mb_entries (sm_body manifest)).
           file_restores L c master D m (insert_index_entries (ci_chunks index) []) data e))"

lemma restore_complete:
  assumes complete: "snapshot_complete L c master D m data manifest"
    and valid: "entries_valid (mb_entries (sm_body manifest))"
    and sound: "chunk_sound L c master D m" and free: "collision_free L c master D"
  shows "restore_snapshot_contents L c map_store_ops master (sm_snapshot_id manifest) [] (map_world m n) =
    (Ok (foldl (restored_entry data)
       \<lparr>rc_snapshot_id = sm_snapshot_id manifest,
        rc_selected_entries = length (mb_entries (sm_body manifest)),
        rc_directories = [], rc_files = [], rc_symlinks = [], rc_metadata_warnings = []\<rparr>
       (mb_entries (sm_body manifest))), map_world m n)"
proof -
  obtain key index where key: "derive_key L c master ChunkData = Ok key"
    and index: "index_stored L c master m index" "mb_index_ids (sm_body manifest) = [ci_index_id index]"
    and files: "\<forall>e \<in> set (mb_entries (sm_body manifest)).
       file_restores L c master D m (insert_index_entries (ci_chunks index) []) data e"
    and manifest: "manifest_stored L c master m manifest"
    using complete unfolding snapshot_complete_def by blast
  obtain mk where mk: "object_key_for_id ''objects/manifest'' (sm_snapshot_id manifest) = Ok mk"
    using manifest unfolding manifest_stored_def by blast
  obtain ik where ik: "object_key_for_id ''objects/index'' (ci_index_id index) = Ok ik"
    using index(1) unfolding index_stored_def by blast
  have load: "load_chunk_index_entries L c map_store_ops master manifest (map_world m n) =
      (Ok (insert_index_entries (ci_chunks index) []), map_world m n)"
    by (simp add: load_chunk_index_entries_def index(2) ik andThen_def map_error_def
        read_index_stored [OF index(1)])
  have "scoped_manifest_entries manifest [] = mb_entries (sm_body manifest)"
    by (simp add: scoped_manifest_entries_def)
  then show ?thesis
    by (simp add: restore_snapshot_contents_def Let_def normalize_restore_paths_def mk andThen_def map_error_def
        read_manifest_stored [OF manifest valid] load key restore_entries_Ok [OF files sound free key])
qed

text \<open>What a restore reads first is the manifest, and it refuses entries that are not a tree.\<close>

lemma restore_needs_valid:
  assumes manifest: "manifest_stored L c master m manifest"
    and run: "restore_snapshot_contents L c map_store_ops master (sm_snapshot_id manifest) [] (map_world m n) = (Ok rc, w)"
  shows "entries_valid (mb_entries (sm_body manifest))"
proof -
  obtain key k b where k: "derive_key L c master SnapshotMetadata = Ok key"
      "object_key_for_id ''objects/manifest'' (sm_snapshot_id manifest) = Ok k" "m k = Some b"
      "json_bytes_read L key SnapshotManifestKind k (manifest_codec L) b = Ok manifest"
      "content_id_for_metadata L master SnapshotMetadata (repository_context c) (body_codec L)
          (sm_body manifest) = Ok (sm_snapshot_id manifest)"
    using manifest unfolding manifest_stored_def by blast
  obtain x w1 where "read_snapshot_manifest L c map_store_ops master (sm_snapshot_id manifest) (map_world m n) = (Ok x, w1)"
    using run k(2)
    by (cases "read_snapshot_manifest L c map_store_ops master (sm_snapshot_id manifest) (map_world m n)"; cases "fst
        (read_snapshot_manifest L c map_store_ops master (sm_snapshot_id manifest) (map_world m n))")
      (simp_all add: restore_snapshot_contents_def Let_def normalize_restore_paths_def andThen_def map_error_def)
  then have "validate_snapshot_manifest manifest k = Ok ()"
    using k by (cases "validate_snapshot_manifest manifest k")
      (simp_all add: read_snapshot_manifest_def andThen_def read_json_map identity_check_def)
  then show ?thesis by (simp add: validate_snapshot_manifest_iff)
qed

lemma restorable_complete:
  assumes "snapshot_complete L c master D m data manifest" and "chunk_sound L c master D m"
    and "collision_free L c master D"
  shows "restorable L c master m (sm_snapshot_id manifest) \<longleftrightarrow> entries_valid (mb_entries (sm_body manifest))"
proof
  assume "restorable L c master m (sm_snapshot_id manifest)"
  then show "entries_valid (mb_entries (sm_body manifest))"
    using assms(1) restore_needs_valid unfolding restorable_def snapshot_complete_def by (metis prod.collapse)
next
  assume "entries_valid (mb_entries (sm_body manifest))"
  then show "restorable L c master m (sm_snapshot_id manifest)"
    using restore_complete [OF assms(1) _ assms(2,3), of 0] by (simp add: restorable_def)
qed

section \<open>Key groups\<close>

lemma object_key_not_commit:
  assumes "object_key_for_id grp oid = Ok k" and "grp \<in> set object_groups"
  shows "object_key_for_commit sid \<noteq> Ok k"
proof
  assume "object_key_for_commit sid = Ok k"
  then have "hd (as_str k) = CHR ''c''" using object_key_for_commit_Ok [of sid k] by auto
  moreover have "hd (as_str k) = CHR ''o''"
    using object_key_for_id_Ok(1) [OF assms(1)] assms(2) by (auto simp: object_groups_def)
  ultimately show False by simp
qed

lemma commit_key_inj:
  "object_key_for_commit a = Ok k \<Longrightarrow> object_key_for_commit b = Ok k \<Longrightarrow> a = b"
  using object_key_for_commit_Ok [of a k] object_key_for_commit_Ok [of b k] by auto

lemma chunk_key_only_chunk:
  assumes "object_key_for_id grp oid = Ok k" and "grp \<in> set object_groups" and "grp \<noteq> ''objects/chunk''"
  shows "sound_at L c master D k b"
proof -
  have "object_key_for_id ''objects/chunk'' cid \<noteq> Ok k" for cid
  proof
    assume "object_key_for_id ''objects/chunk'' cid = Ok k"
    then have "as_str k ! 8 = CHR ''c''" using object_key_for_id_Ok(1) [of "''objects/chunk''" cid k] by simp
    moreover have "as_str k ! 8 \<in> {CHR ''i'', CHR ''m''}"
      using object_key_for_id_Ok(1) [OF assms(1)] assms(2,3) by (auto simp: object_groups_def)
    ultimately show False by auto
  qed
  then show ?thesis by (simp add: sound_at_def)
qed

lemma commit_key_sound: "object_key_for_commit sid = Ok k \<Longrightarrow> sound_at L c master D k b"
  using object_key_not_commit [of "''objects/chunk''" _ k sid]
  by (auto simp: sound_at_def object_groups_def)

section \<open>Growing contents\<close>

definition upward :: "(object_map \<Rightarrow> bool) \<Rightarrow> bool" where
  "upward A \<longleftrightarrow> (\<forall>m m'. m \<subseteq>\<^sub>m m' \<longrightarrow> A m \<longrightarrow> A m')"

lemma upwardD: "upward A \<Longrightarrow> m \<subseteq>\<^sub>m m' \<Longrightarrow> A m \<Longrightarrow> A m'"
  unfolding upward_def by blast

lemma upward_conj: "upward A \<Longrightarrow> upward B \<Longrightarrow> upward (\<lambda>m. A m \<and> B m)"
  unfolding upward_def by blast

lemma upward_get: "upward (\<lambda>m. m k = Some b)" "upward (\<lambda>m. m k \<noteq> None)"
  unfolding upward_def map_le_def by (metis domI, metis domIff)

lemma upward_above: "upward (\<lambda>m. m0 \<subseteq>\<^sub>m m)"
  unfolding upward_def by (blast intro: map_le_trans)

lemma map_le_upd: "m k = None \<Longrightarrow> m \<subseteq>\<^sub>m m(k \<mapsto> b)"
  by (auto simp: map_le_def dom_def)

lemma chunk_sound_upd: "chunk_sound L c master D m \<Longrightarrow> sound_at L c master D k b \<Longrightarrow> chunk_sound L c master D (m(k \<mapsto> b))"
  by (auto simp: chunk_sound_def)

text \<open>
  What is known of the snapshots with a commit marker while a backup runs: they were committed before, in \<open>X\<close>,
  or they are complete, and their entries are a tree just when \<open>T\<close> holds.
\<close>

definition commit_known ::
  "library \<Rightarrow> backup_pipeline_config \<Rightarrow> master_key \<Rightarrow> bytes set \<Rightarrow> string set \<Rightarrow> bool \<Rightarrow> object_map \<Rightarrow> string \<Rightarrow> bool" where
  "commit_known L c master D X T m sid \<longleftrightarrow> sid \<in> X \<or>
     (\<exists>data manifest. snapshot_complete L c master D m data manifest \<and> sm_snapshot_id manifest = sid \<and>
        (entries_valid (mb_entries (sm_body manifest)) \<longleftrightarrow> T))"

definition commits_known ::
  "library \<Rightarrow> backup_pipeline_config \<Rightarrow> master_key \<Rightarrow> bytes set \<Rightarrow> string set \<Rightarrow> bool \<Rightarrow> object_map \<Rightarrow> bool" where
  "commits_known L c master D X T m \<longleftrightarrow>
     (\<forall>sid k. object_key_for_commit sid = Ok k \<longrightarrow> m k \<noteq> None \<longrightarrow> commit_known L c master D X T m sid)"

definition committed_ids :: "object_map \<Rightarrow> string set" where
  "committed_ids m = {sid. \<exists>k. object_key_for_commit sid = Ok k \<and> m k \<noteq> None}"

lemma commits_known_start: "commits_known L c master D (committed_ids m) T m"
  by (auto simp: commits_known_def commit_known_def committed_ids_def)

lemma chunk_ref_ok_mono:
  "m \<subseteq>\<^sub>m m' \<Longrightarrow> chunk_ref_ok L c master D m idx ch plain \<Longrightarrow> chunk_ref_ok L c master D m' idx ch plain"
  unfolding chunk_ref_ok_def map_le_def by (metis domIff)

lemma file_restores_mono:
  assumes "m \<subseteq>\<^sub>m m'" and "file_restores L c master D m idx data e"
  shows "file_restores L c master D m' idx data e"
  using assms(2) chunk_ref_ok_mono [OF assms(1)] unfolding file_restores_def by (metis list_all2_mono)

lemma snapshot_complete_mono:
  assumes "m \<subseteq>\<^sub>m m'" and "snapshot_complete L c master D m data manifest"
  shows "snapshot_complete L c master D m' data manifest"
  using assms(2) manifest_stored_mono [OF assms(1)] index_stored_mono [OF assms(1)] file_restores_mono [OF assms(1)]
  unfolding snapshot_complete_def by blast

lemma commit_known_mono: "m \<subseteq>\<^sub>m m' \<Longrightarrow> commit_known L c master D X T m sid \<Longrightarrow> commit_known L c master D X T m' sid"
  unfolding commit_known_def using snapshot_complete_mono by blast

lemma commits_known_upd:
  assumes "commits_known L c master D X T m" and "m k = None"
    and "\<And>sid. object_key_for_commit sid = Ok k \<Longrightarrow> commit_known L c master D X T m sid"
  shows "commits_known L c master D X T (m(k \<mapsto> b))"
  using assms commit_known_mono [OF map_le_upd [of m k b]]
  unfolding commits_known_def by (metis fun_upd_apply)

section \<open>Backed-up chunks\<close>

definition index_entry_ok ::
  "library \<Rightarrow> backup_pipeline_config \<Rightarrow> master_key \<Rightarrow> bytes set \<Rightarrow> object_map \<Rightarrow> chunk_index_entry \<Rightarrow> bool" where
  "index_entry_ok L c master D m ie \<longleftrightarrow>
     (\<exists>plain \<in> D. \<exists>k. chunk_identity L c master plain = Ok (ie_chunk_id ie) \<and>
        object_key_for_id ''objects/chunk'' (ie_chunk_id ie) = Ok k \<and> ie_object_key ie = as_str k \<and>
        unat (ie_plaintext_length ie) = length plain \<and> m k \<noteq> None)"

definition ref_ok ::
  "library \<Rightarrow> backup_pipeline_config \<Rightarrow> master_key \<Rightarrow> bytes set \<Rightarrow> string set \<Rightarrow> manifest_chunk_ref \<Rightarrow> bytes \<Rightarrow> bool" where
  "ref_ok L c master D ids ch plain \<longleftrightarrow>
     plain \<in> D \<and> chunk_identity L c master plain = Ok (mc_chunk_id ch) \<and> unat (mc_length ch) = length plain \<and>
     mc_chunk_id ch \<in> ids \<and>
     (\<exists>k. object_key_for_id ''objects/chunk'' (mc_chunk_id ch) = Ok k \<and> mc_object_key ch = as_str k)"

definition indexed_ids :: "backup_state \<Rightarrow> string set" where
  "indexed_ids st = ie_chunk_id ` set (bk_index_entries st)"

lemma index_entry_ok_mono:
  "m \<subseteq>\<^sub>m m' \<Longrightarrow> index_entry_ok L c master D m ie \<Longrightarrow> index_entry_ok L c master D m' ie"
  unfolding index_entry_ok_def map_le_def by (metis domIff)

lemma ref_ok_mono: "ref_ok L c master D ids ch plain \<Longrightarrow> ids \<subseteq> ids' \<Longrightarrow> ref_ok L c master D ids' ch plain"
  unfolding ref_ok_def by blast

text \<open>The data that a cut of the file selects.\<close>

definition cut_data :: "bytes \<Rightarrow> content_chunk \<Rightarrow> bytes" where
  "cut_data file ch = take (unat (cc_length ch)) (drop (unat (cc_offset ch)) file)"

lemma chunk_range_Ok:
  "chunk_range p file ch = Ok plain \<longleftrightarrow>
     plain = cut_data file ch \<and> unat (cc_offset ch) + unat (cc_length ch) < 2 ^ 64 \<and>
     unat (cc_offset ch) + unat (cc_length ch) \<le> length file"
  by (auto simp: chunk_range_def cut_data_def Let_def)

lemma cut_data_tiles:
  assumes "tiles (length file) start cuts" and "length file < 2 ^ 64"
  shows "concat (map (cut_data file)
      (map (\<lambda>(offset, len, hash). \<lparr>cc_offset = word_of_nat offset, cc_length = word_of_nat len,
                                  cc_gear_hash = hash\<rparr>) cuts)) = drop start file"
  using assms
proof (induction "length file" start cuts rule: tiles.induct)
  case (2 start o' len h cuts)
  have o': "o' = start" and rest: "tiles (length file) (start + len) cuts" using "2.prems" by auto
  have le: "start + len \<le> length file" using tiles_bound [OF rest] by simp
  then have "unat (word_of_nat start :: u64) = start" "unat (word_of_nat len :: u64) = len"
    using "2.prems"(2) by (simp_all add: unsigned_of_nat take_bit_nat_eq_self)
  then have "cut_data file \<lparr>cc_offset = word_of_nat o', cc_length = word_of_nat len, cc_gear_hash = h\<rparr>
      = take len (drop start file)"
    by (simp add: cut_data_def o')
  then show ?case
    using "2.hyps" [OF rest "2.prems"(2)]
    by simp (metis append_take_drop_id drop_drop add.commute)
qed simp

lemma chunk_bytes_cover:
  assumes "fastcdc_ok F" and "length file < 2 ^ 64"
  shows "concat (map (cut_data file) (chunk_bytes F cfg file)) = file"
  using cut_data_tiles [OF _ assms(2), of 0] assms(1)
  by (simp add: chunk_bytes_def fastcdc_ok_def)

definition backup_base ::
  "library \<Rightarrow> backup_pipeline_config \<Rightarrow> master_key \<Rightarrow> bytes set \<Rightarrow> object_map \<Rightarrow> backup_state \<Rightarrow> object_map \<Rightarrow> bool" where
  "backup_base L c master D m0 st m \<longleftrightarrow>
     m0 \<subseteq>\<^sub>m m \<and> (\<forall>ie \<in> set (bk_index_entries st). index_entry_ok L c master D m ie)"

lemma backup_base_cong: "bk_index_entries st = bk_index_entries st' \<Longrightarrow>
    backup_base L c master D m0 st = backup_base L c master D m0 st'"
  by (simp add: backup_base_def fun_eq_iff)

lemma upward_backup_base: "upward (backup_base L c master D m0 st)"
  unfolding upward_def backup_base_def
  by (metis index_entry_ok_mono map_le_trans)

text \<open>The entry's references spell out the bytes the file had when it was read.\<close>

definition entry_backed ::
  "library \<Rightarrow> backup_pipeline_config \<Rightarrow> master_key \<Rightarrow> bytes set \<Rightarrow> string set \<Rightarrow> fs_view \<Rightarrow> manifest_entry \<Rightarrow> bool" where
  "entry_backed L c master D ids V e \<longleftrightarrow>
     (if entry_kind (me_metadata e) = RegularFile then
        \<exists>file plains. fs_read V (me_path e) = Ok file \<and>
          list_all2 (ref_ok L c master D ids) (me_chunks e) plains \<and> concat plains = file
      else me_chunks e = [])"

lemma entry_backed_mono: "entry_backed L c master D ids V e \<Longrightarrow> ids \<subseteq> ids' \<Longrightarrow> entry_backed L c master D ids' V e"
  unfolding entry_backed_def
  by (auto split: if_splits) (metis list_all2_mono ref_ok_mono)

text \<open>The chunks of every file that can be read are among \<open>D\<close>.\<close>

definition chunks_within :: "library \<Rightarrow> backup_pipeline_config \<Rightarrow> bytes set \<Rightarrow> fs_view \<Rightarrow> bool" where
  "chunks_within L c D V \<longleftrightarrow> (\<forall>p b. fs_read V p = Ok b \<longrightarrow>
     (\<forall>ch \<in> set (chunk_bytes (lib_fastcdc L) (pc_chunking c) b). cut_data b ch \<in> D))"

definition files_bounded :: "fs_view \<Rightarrow> bool" where
  "files_bounded V \<longleftrightarrow> (\<forall>p b. fs_read V p = Ok b \<longrightarrow> length b < 2 ^ 64)"

abbreviation without_chunks :: "manifest_entry \<Rightarrow> manifest_entry" where
  "without_chunks e \<equiv> e\<lparr>me_chunks := []\<rparr>"

definition entries_backed ::
  "library \<Rightarrow> backup_pipeline_config \<Rightarrow> master_key \<Rightarrow> bytes set \<Rightarrow> fs_view \<Rightarrow> manifest_entry list \<Rightarrow> backup_state \<Rightarrow> bool" where
  "entries_backed L c master D V es st \<longleftrightarrow>
     map without_chunks (bk_manifest_entries st) = es \<and>
     (\<forall>e \<in> set (bk_manifest_entries st). entry_backed L c master D (indexed_ids st) V e)"

lemma count_entry_same [simp]:
  "bk_index_entries (count_entry knd st) = bk_index_entries st"
  "bk_manifest_entries (count_entry knd st) = bk_manifest_entries st"
  by (cases knd; simp add: count_entry_def)+

lemma entries_backed_snoc:
  assumes "entries_backed L c master D V es st" and "entry_backed L c master D (indexed_ids st') V e"
    and "without_chunks e = x" and "indexed_ids st \<subseteq> indexed_ids st'"
    and "bk_manifest_entries st' = bk_manifest_entries st @ [e]"
  shows "entries_backed L c master D V (es @ [x]) st'"
  using assms entry_backed_mono by (auto simp: entries_backed_def)

section \<open>From a finished backup to a stored snapshot\<close>

lemma bt_get_insert_index:
  "cid \<in> ie_chunk_id ` set es \<Longrightarrow>
    \<exists>ie \<in> set es. bt_get (insert_index_entries es m) cid = Some ie \<and> ie_chunk_id ie = cid"
proof (induction es rule: rev_induct)
  case (snoc x es)
  then show ?case
    by (cases "ie_chunk_id x = cid") (auto simp: insert_index_entries_def)
qed simp

lemma set_sort_index: "set (sort_index_entries es) \<subseteq> set es"
  using set_dedup_key_subset [of ie_chunk_id "sort_key ie_chunk_id es"] by (simp add: sort_index_entries_def)

lemma ids_sort_index [simp]: "ie_chunk_id ` set (sort_index_entries es) = ie_chunk_id ` set es"
  by (simp add: sort_index_entries_def)

lemma chunk_ref_indexed:
  assumes ref: "ref_ok L c master D (indexed_ids st) ch plain"
    and index: "\<forall>ie \<in> set (bk_index_entries st). index_entry_ok L c master D m ie"
    and free: "collision_free L c master D"
  shows "chunk_ref_ok L c master D m (insert_index_entries (sort_index_entries (bk_index_entries st)) []) ch plain"
proof -
  let ?es = "sort_index_entries (bk_index_entries st)"
  have "mc_chunk_id ch \<in> ie_chunk_id ` set ?es" using ref by (simp add: ref_ok_def indexed_ids_def)
  then obtain ie where ie: "ie \<in> set ?es" "bt_get (insert_index_entries ?es []) (mc_chunk_id ch) = Some ie"
      "ie_chunk_id ie = mc_chunk_id ch"
    using bt_get_insert_index [of _ ?es "[]"] by blast
  then have "index_entry_ok L c master D m ie" using index set_sort_index by blast
  then obtain p k where pk: "chunk_identity L c master p = Ok (mc_chunk_id ch)"
      "object_key_for_id ''objects/chunk'' (mc_chunk_id ch) = Ok k" "ie_object_key ie = as_str k"
      "unat (ie_plaintext_length ie) = length p" "m k \<noteq> None" "p \<in> D"
    using ie(3) by (auto simp: index_entry_ok_def)
  have plain: "plain \<in> D" "chunk_identity L c master plain = Ok (mc_chunk_id ch)"
    using ref by (simp_all add: ref_ok_def)
  have "p = plain" by (rule collision_freeD [OF free pk(6) plain(1) pk(1) plain(2)])
  then have "unat (ie_plaintext_length ie) = unat (mc_length ch)"
    using pk(4) ref by (simp add: ref_ok_def)
  then have "ie_plaintext_length ie = mc_length ch" by (rule unsigned_word_eqI)
  moreover have "mc_object_key ch = as_str k" using ref pk(2) by (auto simp: ref_ok_def)
  ultimately show ?thesis
    using ref pk ie(2) by (auto simp: chunk_ref_ok_def ref_ok_def)
qed

definition file_data :: "fs_view \<Rightarrow> manifest_entry \<Rightarrow> bytes" where
  "file_data V e = (case fs_read V (me_path e) of Ok b \<Rightarrow> b | Err _ \<Rightarrow> [])"

lemma backed_file_restores:
  assumes backed: "entry_backed L c master D (indexed_ids st) V e"
    and index: "\<forall>ie \<in> set (bk_index_entries st). index_entry_ok L c master D m ie"
    and free: "collision_free L c master D"
  shows "file_restores L c master D m (insert_index_entries (sort_index_entries (bk_index_entries st)) [])
    (file_data V) e"
  unfolding file_restores_def
proof
  assume "entry_kind (me_metadata e) = RegularFile"
  then obtain b plains where b: "fs_read V (me_path e) = Ok b"
    and refs: "list_all2 (ref_ok L c master D (indexed_ids st)) (me_chunks e) plains" "concat plains = b"
    using backed by (auto simp: entry_backed_def)
  have "list_all2 (chunk_ref_ok L c master D m (insert_index_entries (sort_index_entries (bk_index_entries st)) []))
      (me_chunks e) plains"
    using refs(1) by (rule list_all2_mono) (rule chunk_ref_indexed [OF _ index free])
  then show "\<exists>plains. list_all2 (chunk_ref_ok L c master D m
      (insert_index_entries (sort_index_entries (bk_index_entries st)) [])) (me_chunks e) plains \<and>
      file_data V e = concat plains"
    using b refs(2) by (auto simp: file_data_def)
qed

text \<open>
  When the entries of the walk make a valid manifest: they are one tree, with directories above every entry, and
  the recorded size of a file is the number of bytes that are read.
\<close>

definition sources_valid :: "fs_view \<Rightarrow> manifest_entry list \<Rightarrow> bool" where
  "sources_valid V es \<longleftrightarrow>
     distinct (map me_relative_path es) \<and>
     (\<forall>e \<in> set es. me_chunks e = [] \<and> (\<forall>x \<in> set (me_relative_path e). is_normal x) \<and>
        (me_relative_path e = [] \<longrightarrow> entry_kind (me_metadata e) = Directory) \<and>
        (\<forall>n b. entry_kind (me_metadata e) = RegularFile \<longrightarrow> size_bytes (me_metadata e) = Some n \<longrightarrow>
           fs_read V (me_path e) = Ok b \<longrightarrow> unat n = length b)) \<and>
     (\<forall>e \<in> set es. \<forall>a \<in> set es. me_relative_path a \<noteq> [] \<longrightarrow>
        strict_prefix (me_relative_path a) (me_relative_path e) \<longrightarrow>
        entry_kind (me_metadata a) = Directory)"

lemma ref_lengths:
  "list_all2 (ref_ok L c master D ids) chs plains \<Longrightarrow>
    (\<Sum>ch\<leftarrow>chs. unat (mc_length ch)) = length (concat plains)"
  by (induction rule: list_all2_induct) (simp_all add: ref_ok_def)

lemma entry_valid_backed:
  assumes b: "entry_backed L c master D ids V e"
  shows "entry_valid e \<longleftrightarrow> (\<forall>x \<in> set (me_relative_path e). is_normal x) \<and>
    (me_relative_path e = [] \<longrightarrow> entry_kind (me_metadata e) = Directory) \<and>
    (\<forall>n b. entry_kind (me_metadata e) = RegularFile \<longrightarrow> size_bytes (me_metadata e) = Some n \<longrightarrow>
       fs_read V (me_path e) = Ok b \<longrightarrow> unat n = length b)"
proof (cases "entry_kind (me_metadata e) = RegularFile")
  case reg: True
  obtain bs plains where bs: "fs_read V (me_path e) = Ok bs"
      "list_all2 (ref_ok L c master D ids) (me_chunks e) plains" "concat plains = bs"
    using b unfolding entry_backed_def if_P [OF reg] by blast
  then have "(\<Sum>ch\<leftarrow>me_chunks e. unat (mc_length ch)) = length bs" using ref_lengths by metis
  then show ?thesis using bs(1) reg by (auto simp: entry_valid_def)
next
  case False
  then show ?thesis using b by (simp add: entry_valid_def entry_backed_def)
qed

lemma entries_valid_backed:
  assumes backed: "entries_backed L c master D V es st"
  shows "entries_valid (bk_manifest_entries st) \<longleftrightarrow> sources_valid V es"
proof -
  let ?es = "bk_manifest_entries st"
  have es: "es = map without_chunks ?es" using backed by (simp add: entries_backed_def)
  have "(\<forall>e \<in> set ?es. entry_valid e) \<longleftrightarrow> (\<forall>e \<in> set ?es. (\<forall>x \<in> set (me_relative_path e). is_normal x) \<and>
        (me_relative_path e = [] \<longrightarrow> entry_kind (me_metadata e) = Directory) \<and>
        (\<forall>n b. entry_kind (me_metadata e) = RegularFile \<longrightarrow> size_bytes (me_metadata e) = Some n \<longrightarrow>
           fs_read V (me_path e) = Ok b \<longrightarrow> unat n = length b))"
    using backed by (intro ball_cong refl entry_valid_backed [where L = L and c = c and master = master and D = D and ids = "indexed_ids st"])
      (simp add: entries_backed_def)
  then show ?thesis
    unfolding sources_valid_def entries_valid_def es by (simp add: comp_def conj_left_commute)
qed

lemma upward_manifest_stored: "upward (\<lambda>m. manifest_stored L c master m x)"
  unfolding upward_def using manifest_stored_mono by blast

lemma upward_index_stored: "upward (\<lambda>m. index_stored L c master m x)"
  unfolding upward_def using index_stored_mono by blast

text \<open>What \<open>write_entries\<close> has published when it returns.\<close>

definition snapshot_published ::
  "library \<Rightarrow> backup_pipeline_config \<Rightarrow> master_key \<Rightarrow> bytes set \<Rightarrow> fs_view \<Rightarrow> manifest_entry list \<Rightarrow> object_map \<Rightarrow>
   snapshot_write_result \<Rightarrow> object_map \<Rightarrow> bool" where
  "snapshot_published L c master D V es m0 res m \<longleftrightarrow>
     m0 \<subseteq>\<^sub>m m \<and>
     (\<exists>manifest k. snapshot_complete L c master D m (file_data V) manifest \<and>
        sm_snapshot_id manifest = wr_snapshot_id res \<and>
        (entries_valid (mb_entries (sm_body manifest)) \<longleftrightarrow> sources_valid V es) \<and>
        map without_chunks (mb_entries (sm_body manifest)) = es \<and>
        object_key_for_commit (wr_snapshot_id res) = Ok k \<and> m k \<noteq> None) \<and>
     (\<forall>e \<in> set es. entry_kind (me_metadata e) = RegularFile \<longrightarrow> (\<exists>b. fs_read V (me_path e) = Ok b))"

context eventual_repository
begin

text \<open>The worlds a backup passes through, with facts \<open>A\<close> about the contents that growth keeps.\<close>

definition backup_world ::
  "library \<Rightarrow> backup_pipeline_config \<Rightarrow> master_key \<Rightarrow> bytes set \<Rightarrow> string set \<Rightarrow> bool \<Rightarrow> (object_map \<Rightarrow> bool) \<Rightarrow>
   's world \<Rightarrow> bool" where
  "backup_world L c master D X T A w \<longleftrightarrow>
     inv (w_store w) \<and> chunk_sound L c master D (contents (w_store w)) \<and>
     commits_known L c master D X T (contents (w_store w)) \<and> A (contents (w_store w))"

lemma backup_world_weaken:
  "backup_world L c master D X T A w \<Longrightarrow> (\<And>m. A m \<Longrightarrow> B m) \<Longrightarrow> backup_world L c master D X T B w"
  unfolding backup_world_def by blast

lemma triple_put:
  assumes up: "upward A" and key: "key_valid k" "repo_key k" and sound: "sound_at L c master D k b"
    and commit: "\<And>sid m. object_key_for_commit sid = Ok k \<Longrightarrow> A m \<Longrightarrow> chunk_sound L c master D m \<Longrightarrow>
      commit_known L c master D X T m sid"
  shows "triple (backup_world L c master D X T A) (on_store (map_error g (put_if_absent ops k b)))
    (\<lambda>_. backup_world L c master D X T (\<lambda>m. A m \<and> m k = Some b)) (backup_world L c master D X T A)"
proof -
  have keeps: "backup_world L c master D X T A (w\<lparr>w_store := s'\<rparr>)"
    if w: "backup_world L c master D X T A w" and put: "put_if_absent ops k b (w_store w) = (r, s')" for w r s'
  proof -
    let ?m = "contents (w_store w)"
    have inv: "inv (w_store w)" using w by (simp add: backup_world_def)
    from put_keeps [OF inv repo_supported [OF key] put]
    consider "inv s'" "contents s' = ?m" | "inv s'" "?m k = None" "contents s' = ?m(k \<mapsto> b)"
      by (elim conjE disjE)
    then show ?thesis
    proof cases
      case 1
      then show ?thesis using w by (simp add: backup_world_def)
    next
      case 2
      then show ?thesis
        using w up map_le_upd [of ?m k b, OF 2(2)] chunk_sound_upd [OF _ sound] commit
        unfolding backup_world_def
        by (auto intro: commits_known_upd dest: upwardD)
    qed
  qed
  have stored: "contents s' k = Some b"
    if "backup_world L c master D X T A w" "put_if_absent ops k b (w_store w) = (Ok st, s')" for w st s'
    using put_stores [OF _ repo_supported [OF key] that(2)] that(1) by (simp add: backup_world_def)
  show ?thesis
  proof (rule tripleI)
    fix w x w'
    assume w: "backup_world L c master D X T A w" and run: "on_store (map_error g (put_if_absent ops k b)) w = (Ok x, w')"
    obtain s' where s': "put_if_absent ops k b (w_store w) = (Ok x, s')" "w' = w\<lparr>w_store := s'\<rparr>"
      using run by (auto simp: on_store_Ok_iff map_error_Ok_iff)
    show "backup_world L c master D X T (\<lambda>m. A m \<and> m k = Some b) w'"
      using keeps [OF w s'(1)] stored [OF w s'(1)] s'(2) by (simp add: backup_world_def)
  next
    fix w e w'
    assume w: "backup_world L c master D X T A w" and run: "on_store (map_error g (put_if_absent ops k b)) w = (Err e, w')"
    obtain r s' where s': "put_if_absent ops k b (w_store w) = (r, s')" by fastforce
    then have "w' = w\<lparr>w_store := s'\<rparr>" using run by (simp add: on_store_def map_error_def)
    then show "backup_world L c master D X T A w'" using keeps [OF w s'] by simp
  qed
qed

lemma triple_exists:
  assumes key: "key_valid k" "repo_key k"
  shows "triple (backup_world L c master D X T A) (on_store (map_error g (object_exists ops k)))
    (\<lambda>e. backup_world L c master D X T (\<lambda>m. A m \<and> (e \<longrightarrow> m k \<noteq> None))) (backup_world L c master D X T A)"
proof (rule tripleI)
  fix w x w'
  assume w: "backup_world L c master D X T A w" and run: "on_store (map_error g (object_exists ops k)) w = (Ok x, w')"
  obtain s' where s': "object_exists ops k (w_store w) = (Ok x, s')" "w' = w\<lparr>w_store := s'\<rparr>"
    using run by (auto simp: on_store_Ok_iff map_error_Ok_iff)
  have "inv (w_store w)" using w by (simp add: backup_world_def)
  from exists_keeps [OF this repo_supported [OF key] s'(1)] exists_sees [OF this repo_supported [OF key]] s'(1)
  show "backup_world L c master D X T (\<lambda>m. A m \<and> (x \<longrightarrow> m k \<noteq> None)) w'"
    using w s'(2) by (simp add: backup_world_def)
next
  fix w e w'
  assume w: "backup_world L c master D X T A w" and run: "on_store (map_error g (object_exists ops k)) w = (Err e, w')"
  obtain r s' where s': "object_exists ops k (w_store w) = (r, s')" by fastforce
  then have "w' = w\<lparr>w_store := s'\<rparr>" using run by (simp add: on_store_def map_error_def)
  then show "backup_world L c master D X T A w'"
    using exists_keeps [OF _ repo_supported [OF key] s'] w by (simp add: backup_world_def)
qed

lemma triple_encrypt:
  "triple (backup_world L c master D X T A) (encrypt_repository_object L key knd k plain)
     (\<lambda>b w. backup_world L c master D X T A w \<and>
        (aead_correct (lib_crypto L) \<and> codec_ok (object_codec L) \<longrightarrow>
           decrypt_repository_object L key knd k b = Ok plain))
     (backup_world L c master D X T A)"
  by (rule tripleI)
    (auto simp: backup_world_def dest: encrypt_repository_object_store encrypt_repository_object_Ok)

lemma triple_publish_chunk:
  assumes up: "upward A" and k: "object_key_for_id ''objects/chunk'' cid = Ok k"
    and sound: "sound_at L c master D k b"
  shows "triple (backup_world L c master D X T A) (publish_chunk ops k b)
    (\<lambda>_. backup_world L c master D X T (\<lambda>m. A m \<and> m k \<noteq> None)) (backup_world L c master D X T A)"
proof -
  have group: "''objects/chunk'' \<in> set object_groups" by (simp add: object_groups_def)
  have key: "key_valid k" "repo_key k" using repo_key_object [OF k group] by simp_all
  have body: "triple (backup_world L c master D X T (\<lambda>m. A m \<and> (present \<longrightarrow> m k \<noteq> None)))
    (if \<not> present then andThen (on_store (map_error CoreStorage (put_if_absent ops k b)))
        (\<lambda>status. ret (case status of Created \<Rightarrow> True | AlreadyPresent \<Rightarrow> False))
     else ret False)
    (\<lambda>_. backup_world L c master D X T (\<lambda>m. A m \<and> m k \<noteq> None)) (backup_world L c master D X T A)" for present
  proof (cases present)
    case True
    then show ?thesis by (simp only: simp_thms if_False) (rule triple_ret, simp)
  next
    case False
    have "triple (backup_world L c master D X T A)
      (andThen (on_store (map_error CoreStorage (put_if_absent ops k b)))
        (\<lambda>status. ret (case status of Created \<Rightarrow> True | AlreadyPresent \<Rightarrow> False)))
      (\<lambda>_. backup_world L c master D X T (\<lambda>m. A m \<and> m k \<noteq> None)) (backup_world L c master D X T A)"
      by (rule triple_andThen [OF triple_put [OF up key sound]])
        (use object_key_not_commit [OF k group] in blast,
         rule triple_ret, auto elim: backup_world_weaken)
    with False show ?thesis by simp
  qed
  show ?thesis unfolding publish_chunk_def by (rule triple_andThen [OF triple_exists [OF key] body])
qed

definition chunk_loop ::
  "library \<Rightarrow> backup_pipeline_config \<Rightarrow> master_key \<Rightarrow> bytes set \<Rightarrow> string set \<Rightarrow> bool \<Rightarrow> object_map \<Rightarrow> bytes \<Rightarrow> backup_state \<Rightarrow> manifest_entry \<Rightarrow>
   content_chunk list \<Rightarrow> backup_state \<times> manifest_entry \<Rightarrow> 's world \<Rightarrow> bool" where
  "chunk_loop L c master D X T m0 file st0 e0 cuts acc w \<longleftrightarrow>
     (case acc of (st, e) \<Rightarrow>
        backup_world L c master D X T (backup_base L c master D m0 st) w \<and>
        e\<lparr>me_chunks := []\<rparr> = e0 \<and> bk_manifest_entries st = bk_manifest_entries st0 \<and>
        indexed_ids st0 \<subseteq> indexed_ids st \<and>
        list_all2 (ref_ok L c master D (indexed_ids st)) (me_chunks e) (map (cut_data file) cuts))"

lemma triple_backup_chunk:
  assumes lib: "library_ok L" and key: "derive_key L c master ChunkData = Ok key"
    and mem: "cut_data file ch \<in> D"
  shows "triple (chunk_loop L c master D X T m0 file st0 e0 cuts acc)
    (backup_chunk L c ops master key file acc ch)
    (chunk_loop L c master D X T m0 file st0 e0 (cuts @ [ch]))
    (backup_world L c master D X T (\<lambda>m. m0 \<subseteq>\<^sub>m m))"
proof -
  obtain st e where acc: "acc = (st, e)" by fastforce
  let ?W = "chunk_loop L c master D X T m0 file st0 e0 cuts (st, e)"
  let ?B = "backup_base L c master D m0 st"
  have fail: "backup_world L c master D X T (\<lambda>m. m0 \<subseteq>\<^sub>m m) w" if "?W w" for w
    using that by (auto simp: chunk_loop_def backup_base_def elim: backup_world_weaken)
  show ?thesis
    unfolding acc backup_chunk_def prod.case
  proof (intro triple_bind_lift fail)
    fix plain cid k comp
    assume plain: "chunk_range (me_path e) file ch = Ok plain"
      and cid: "chunk_identity L c master plain = Ok cid"
      and k: "object_key_for_id ''objects/chunk'' cid = Ok k"
      and comp: "map_err (Compression (me_path e)) (zstd_compress L (pc_compression_level c) plain) = Ok comp"
    have data: "plain = cut_data file ch" and len: "unat (cc_length ch) = length plain"
      using plain by (auto simp: chunk_range_Ok cut_data_def)
    have zstd: "zstd_decompress L comp (length plain) = Ok plain"
      using lib comp unfolding library_ok_def zstd_ok_def by (auto simp: map_err_Ok_iff)
    have sound: "sound_at L c master D k b" if dec: "decrypt_repository_object L key Chunk k b = Ok comp" for b
      unfolding sound_at_def
    proof (intro allI impI)
      fix key' cid' assume "derive_key L c master ChunkData = Ok key'" "object_key_for_id ''objects/chunk'' cid' = Ok k"
      then have "key' = key" "cid' = cid" using key object_key_for_id_inj [OF k] by auto
      then show "\<exists>compressed. \<exists>plain \<in> D. decrypt_repository_object L key' Chunk k b = Ok compressed \<and>
          zstd_decompress L compressed (length plain) = Ok plain \<and> chunk_identity L c master plain = Ok cid'"
        using dec zstd cid mem data by blast
    qed
    let ?ref = "\<lparr>mc_chunk_id = cid, mc_object_key = as_str k, mc_offset = cc_offset ch, mc_length = cc_length ch\<rparr>"
    let ?e' = "e\<lparr>me_chunks := me_chunks e @ [?ref]\<rparr>"
    let ?ie = "\<lambda>b. \<lparr>ie_chunk_id = cid, ie_object_key = as_str k, ie_plaintext_length = cc_length ch,
        ie_compressed_length = word_of_nat (length comp), ie_stored_length = word_of_nat (length b),
        ie_compression = Zstd, ie_aead = RepositoryXChaCha20Poly1305\<rparr>"
    have ie: "index_entry_ok L c master D m (?ie b)" if "m k \<noteq> None" for m b
      unfolding index_entry_ok_def using cid k len that mem data by auto
    have final: "chunk_loop L c master D X T m0 file st0 e0 (cuts @ [ch]) (st', ?e') w"
      if "?W w0" and "backup_world L c master D X T (\<lambda>m. ?B m \<and> m k \<noteq> None) w"
        and "bk_index_entries st' = bk_index_entries st @ [?ie b]"
        and "bk_manifest_entries st' = bk_manifest_entries st" for w0 w st' b
    proof -
      have ids: "indexed_ids st' = insert cid (indexed_ids st)"
        using that(3) by (simp add: indexed_ids_def)
      have "list_all2 (ref_ok L c master D (indexed_ids st')) (me_chunks e) (map (cut_data file) cuts)"
        using that(1) ids by (auto simp: chunk_loop_def elim!: list_all2_mono intro: ref_ok_mono)
      moreover have "ref_ok L c master D (indexed_ids st') ?ref (cut_data file ch)"
        using cid k len data ids mem by (simp add: ref_ok_def)
      moreover have "backup_world L c master D X T (backup_base L c master D m0 st') w"
        using that(2) by (rule backup_world_weaken) (auto simp: backup_base_def that(3) ie)
      ultimately show ?thesis
        using that(1,4) ids by (auto simp: chunk_loop_def intro: list_all2_appendI)
    qed
    show "triple ?W
      (andThen (encrypt_repository_object L key Chunk k comp) (\<lambda>encrypted.
       andThen (publish_chunk ops k encrypted) (\<lambda>written.
       let chunk_ref = ?ref; index_entry = ?ie encrypted
       in ret
         (st\<lparr>bk_chunks_seen := bk_chunks_seen st + 1,
             bk_objects_written := bk_objects_written st + (if written then 1 else 0),
             bk_objects_reused := bk_objects_reused st + (if written then 0 else 1),
             bk_bytes_uploaded := bk_bytes_uploaded st +
               (if written then word_of_nat (length encrypted) else 0),
             bk_index_entries := bk_index_entries st @ [index_entry]\<rparr>,
          e\<lparr>me_chunks := me_chunks e @ [chunk_ref]\<rparr>))))
      (chunk_loop L c master D X T m0 file st0 e0 (cuts @ [ch]))
      (backup_world L c master D X T (\<lambda>m. m0 \<subseteq>\<^sub>m m))"
    proof (cases "\<exists>w0. ?W w0")
      case False
      then show ?thesis by (auto intro: tripleI)
    next
      case True
      then obtain w0 where w0: "?W w0" by blast
      have crypto: "aead_correct (lib_crypto L) \<and> codec_ok (object_codec L)"
        using lib by (simp add: library_ok_def codecs_ok_def)
      have enc: "triple ?W (encrypt_repository_object L key Chunk k comp)
        (\<lambda>b w. backup_world L c master D X T ?B w \<and> decrypt_repository_object L key Chunk k b = Ok comp)
        (backup_world L c master D X T (\<lambda>m. m0 \<subseteq>\<^sub>m m))"
        by (rule triple_conseq [OF triple_encrypt [where A = ?B]])
          (use crypto in \<open>auto simp: chunk_loop_def backup_base_def elim: backup_world_weaken\<close>)
      show ?thesis
      proof (rule triple_andThen [OF enc])
        fix b
        show "triple
          (\<lambda>w. backup_world L c master D X T ?B w \<and> decrypt_repository_object L key Chunk k b = Ok comp)
          (andThen (publish_chunk ops k b) (\<lambda>written.
           let chunk_ref = ?ref; index_entry = ?ie b
           in ret
             (st\<lparr>bk_chunks_seen := bk_chunks_seen st + 1,
                 bk_objects_written := bk_objects_written st + (if written then 1 else 0),
                 bk_objects_reused := bk_objects_reused st + (if written then 0 else 1),
                 bk_bytes_uploaded := bk_bytes_uploaded st +
                   (if written then word_of_nat (length b) else 0),
                 bk_index_entries := bk_index_entries st @ [index_entry]\<rparr>,
              e\<lparr>me_chunks := me_chunks e @ [chunk_ref]\<rparr>)))
          (chunk_loop L c master D X T m0 file st0 e0 (cuts @ [ch]))
          (backup_world L c master D X T (\<lambda>m. m0 \<subseteq>\<^sub>m m))"
        proof (cases "decrypt_repository_object L key Chunk k b = Ok comp")
          case True
          have "triple (backup_world L c master D X T ?B) (publish_chunk ops k b)
            (\<lambda>_. backup_world L c master D X T (\<lambda>m. ?B m \<and> m k \<noteq> None))
            (backup_world L c master D X T (\<lambda>m. m0 \<subseteq>\<^sub>m m))"
            by (rule triple_conseq [OF triple_publish_chunk [OF upward_backup_base k sound [OF True]]])
              (auto simp: backup_base_def elim: backup_world_weaken)
          then have publish: "triple
            (\<lambda>w. backup_world L c master D X T ?B w \<and> decrypt_repository_object L key Chunk k b = Ok comp)
            (publish_chunk ops k b) (\<lambda>_. backup_world L c master D X T (\<lambda>m. ?B m \<and> m k \<noteq> None))
            (backup_world L c master D X T (\<lambda>m. m0 \<subseteq>\<^sub>m m))"
            by (rule triple_conseq) simp_all
          show ?thesis
            unfolding Let_def
            by (rule triple_andThen [OF publish], rule triple_ret, rule final [OF w0]) simp_all
        qed (auto intro: tripleI)
      qed
    qed
  qed
qed

definition entry_loop ::
  "library \<Rightarrow> backup_pipeline_config \<Rightarrow> master_key \<Rightarrow> bytes set \<Rightarrow> string set \<Rightarrow> bool \<Rightarrow> fs_view \<Rightarrow> object_map \<Rightarrow> manifest_entry list \<Rightarrow>
   backup_state \<Rightarrow> 's world \<Rightarrow> bool" where
  "entry_loop L c master D X T V m0 es st w \<longleftrightarrow>
     backup_world L c master D X T (backup_base L c master D m0 st) w \<and> entries_backed L c master D V es st"

lemma triple_backup_file:
  assumes lib: "library_ok L" and key: "derive_key L c master ChunkData = Ok key"
    and V: "files_bounded V" "chunks_within L c D V" and x: "me_chunks x = []" "entry_kind (me_metadata x) = RegularFile"
    and st: "entries_backed L c master D V es st0"
    and st1: "bk_index_entries st1 = bk_index_entries st0" "bk_manifest_entries st1 = bk_manifest_entries st0"
    and rd: "fs_read V (me_path x) = Ok file"
  shows "triple (backup_world L c master D X T (backup_base L c master D m0 st0))
    (for_each (chunk_bytes (lib_fastcdc L) (pc_chunking c) file) (backup_chunk L c ops master key file) (st1, x))
    (\<lambda>(st, e) w. entry_loop L c master D X T V m0 (es @ [x]) (st\<lparr>bk_manifest_entries := bk_manifest_entries st @ [e]\<rparr>) w)
    (backup_world L c master D X T (\<lambda>m. m0 \<subseteq>\<^sub>m m))"
proof -
  let ?cuts = "chunk_bytes (lib_fastcdc L) (pc_chunking c) file"
  have same: "indexed_ids st1 = indexed_ids st0" using st1 by (simp add: indexed_ids_def)
  have cover: "concat (map (cut_data file) ?cuts) = file"
    using chunk_bytes_cover [of "lib_fastcdc L" "file"] lib V(1) rd
    by (simp add: library_ok_def files_bounded_def)
  have init: "chunk_loop L c master D X T m0 file st1 x [] (st1, x) w"
    if "backup_world L c master D X T (backup_base L c master D m0 st0) w" for w
    using that x backup_base_cong [OF st1(1)] by (simp add: chunk_loop_def)
  have loop: "triple (chunk_loop L c master D X T m0 file st1 x [] (st1, x))
    (for_each ?cuts (backup_chunk L c ops master key file) (st1, x))
    (chunk_loop L c master D X T m0 file st1 x ([] @ ?cuts)) (backup_world L c master D X T (\<lambda>m. m0 \<subseteq>\<^sub>m m))"
    by (rule triple_for_each) (rule triple_backup_chunk [OF lib key], use V(2) rd in \<open>auto simp: chunks_within_def\<close>)
  have final: "entry_loop L c master D X T V m0 (es @ [x]) (st\<lparr>bk_manifest_entries := bk_manifest_entries st @ [e]\<rparr>) w"
    if "chunk_loop L c master D X T m0 file st1 x ?cuts (st, e) w" for st e w
  proof -
    let ?st = "st\<lparr>bk_manifest_entries := bk_manifest_entries st @ [e]\<rparr>"
    have e: "without_chunks e = x" using that by (simp add: chunk_loop_def)
    have kind: "me_metadata e = me_metadata x" "me_path e = me_path x" using e by auto
    have ids: "indexed_ids ?st = indexed_ids st" by (simp add: indexed_ids_def)
    have "entry_backed L c master D (indexed_ids st) V e"
      using that x kind rd cover unfolding entry_backed_def chunk_loop_def by auto
    then have "entries_backed L c master D V (es @ [x]) ?st"
      using st e that same st1 ids by (intro entries_backed_snoc [OF st]) (auto simp: chunk_loop_def)
    moreover have "backup_world L c master D X T (backup_base L c master D m0 ?st) w"
      using that backup_base_cong [of ?st st] by (simp add: chunk_loop_def)
    ultimately show ?thesis by (simp add: entry_loop_def)
  qed
  show ?thesis
    by (rule triple_conseq [OF loop]) (use init final in auto)
qed

lemma triple_backup_entry:
  assumes lib: "library_ok L" and key: "derive_key L c master ChunkData = Ok key"
    and V: "files_bounded V" "chunks_within L c D V" and x: "me_chunks x = []"
  shows "triple (entry_loop L c master D X T V m0 es st) (backup_entry L c ops V master key st x)
    (entry_loop L c master D X T V m0 (es @ [x])) (backup_world L c master D X T (\<lambda>m. m0 \<subseteq>\<^sub>m m))"
proof (cases "entries_backed L c master D V es st")
  case False
  then show ?thesis by (auto intro: tripleI simp: entry_loop_def)
next
  case backed: True
  let ?W = "backup_world L c master D X T (backup_base L c master D m0 st)"
  let ?st = "count_entry (entry_kind (me_metadata x)) st"
  have pre: "triple ?W m Q E \<Longrightarrow> triple (entry_loop L c master D X T V m0 es st) m Q E" for m :: "('s world, core_error, 'b) prog" and Q E
    by (erule triple_conseq) (auto simp: entry_loop_def)
  have fail: "backup_world L c master D X T (\<lambda>m. m0 \<subseteq>\<^sub>m m) w" if "?W w" for w
    using that by (rule backup_world_weaken) (simp add: backup_base_def)
  show ?thesis
  proof (cases "entry_kind (me_metadata x) = RegularFile")
    case True
    have body: "triple ?W
      (andThen (lift_result (map_err (FileRead (me_path x)) (fs_read V (me_path x)))) (\<lambda>file.
         for_each (chunk_bytes (lib_fastcdc L) (pc_chunking c) file) (backup_chunk L c ops master key file)
           (?st\<lparr>bk_bytes_scanned := bk_bytes_scanned ?st + word_of_nat (length file)\<rparr>, x)))
      (\<lambda>(st, e) w. entry_loop L c master D X T V m0 (es @ [x])
         (st\<lparr>bk_manifest_entries := bk_manifest_entries st @ [e]\<rparr>) w)
      (backup_world L c master D X T (\<lambda>m. m0 \<subseteq>\<^sub>m m))"
      by (rule triple_bind_lift)
        (rule triple_backup_file [OF lib key V x True backed], simp_all add: map_err_Ok_iff fail)
    show ?thesis
      unfolding backup_entry_def Let_def if_P [OF True]
      by (rule pre, rule triple_andThen [OF body]) (auto intro: triple_ret)
  next
    case False
    have "entry_loop L c master D X T V m0 (es @ [x]) (?st\<lparr>bk_manifest_entries := bk_manifest_entries ?st @ [x]\<rparr>) w"
      if "?W w" for w
    proof -
      let ?st' = "?st\<lparr>bk_manifest_entries := bk_manifest_entries ?st @ [x]\<rparr>"
      have "entries_backed L c master D V (es @ [x]) ?st'"
        using x False by (intro entries_backed_snoc [OF backed]) (auto simp: entry_backed_def indexed_ids_def)
      moreover have "backup_world L c master D X T (backup_base L c master D m0 ?st') w"
        using that backup_base_cong [of ?st' st] by simp
      ultimately show ?thesis by (simp add: entry_loop_def)
    qed
    then show ?thesis
      unfolding backup_entry_def Let_def if_not_P [OF False] andThen_ret prod.case
      by (intro pre triple_ret)
  qed
qed

lemma triple_write_json:
  assumes lib: "library_ok L" and codec: "codec_ok codec" and up: "upward A"
    and key: "key_valid k" "repo_key k" and sound: "\<And>b. sound_at L c master D k b"
    and commit: "\<And>sid. object_key_for_commit sid \<noteq> Ok k"
  shows "triple (backup_world L c master D X T A) (write_encrypted_json_object L ops sk knd k codec x)
    (\<lambda>_. backup_world L c master D X T (\<lambda>m. A m \<and> (\<exists>b. m k = Some b \<and> json_bytes_read L sk knd k codec b = Ok x)))
    (backup_world L c master D X T A)"
proof -
  have crypto: "aead_correct (lib_crypto L) \<and> codec_ok (object_codec L)"
    using lib by (simp add: library_ok_def codecs_ok_def)
  let ?good = "\<lambda>plain b. decrypt_repository_object L sk knd k b = Ok plain"
  have put: "triple (\<lambda>w. backup_world L c master D X T A w \<and> (aead_correct (lib_crypto L) \<and> codec_ok (object_codec L) \<longrightarrow> ?good plain b))
    (andThen (on_store (map_error CoreStorage (put_if_absent ops k b))) (\<lambda>status.
       ret (case status of Created \<Rightarrow> word_of_nat (length b) | AlreadyPresent \<Rightarrow> 0)))
    (\<lambda>_. backup_world L c master D X T (\<lambda>m. A m \<and> (\<exists>b. m k = Some b \<and> json_bytes_read L sk knd k codec b = Ok x)))
    (backup_world L c master D X T A)"
    if "to_vec codec x = Ok plain" for plain b
  proof (cases "?good plain b")
    case True
    then have read: "json_bytes_read L sk knd k codec b = Ok x"
      using codec_okD [OF codec that] by (simp add: json_bytes_read_def)
    have "triple (backup_world L c master D X T A)
      (andThen (on_store (map_error CoreStorage (put_if_absent ops k b))) (\<lambda>status.
         ret (case status of Created \<Rightarrow> word_of_nat (length b) | AlreadyPresent \<Rightarrow> 0)))
      (\<lambda>_. backup_world L c master D X T (\<lambda>m. A m \<and> (\<exists>b. m k = Some b \<and> json_bytes_read L sk knd k codec b = Ok x)))
      (backup_world L c master D X T A)"
      by (rule triple_andThen [OF triple_put [OF up key sound]])
        (use commit in blast, rule triple_ret, erule backup_world_weaken, use read in blast)
    then show ?thesis by (rule triple_conseq) simp_all
  next
    case False
    then show ?thesis using crypto by (auto intro: tripleI)
  qed
  show ?thesis
    unfolding write_encrypted_json_object_def
    by (rule triple_bind_lift, rule triple_andThen [OF triple_encrypt], rule put) (auto simp: map_err_Ok_iff)
qed

lemma triple_publish_index:
  assumes lib: "library_ok L" and up: "upward A" and key: "derive_key L c master IndexPurpose = Ok sk"
  shows "triple (backup_world L c master D X T A) (publish_index L c ops master sk entries)
    (\<lambda>(iid, _, _). backup_world L c master D X T (\<lambda>m. A m \<and> index_stored L c master m
       \<lparr>ci_schema_version = 0, ci_index_id = iid, ci_chunks = entries\<rparr>)) (backup_world L c master D X T A)"
  unfolding publish_index_def
proof (intro triple_bind_lift)
  fix iid k
  assume iid: "content_id_for_metadata L master IndexPurpose (repository_context c) (entries_codec L) entries = Ok iid"
    and k: "object_key_for_id ''objects/index'' iid = Ok k"
  let ?index = "\<lparr>ci_schema_version = 0, ci_index_id = iid, ci_chunks = entries\<rparr>"
  have grp: "''objects/index'' \<in> set object_groups" by (simp add: object_groups_def)
  have codec: "codec_ok (index_codec L)" using lib by (simp add: library_ok_def codecs_ok_def)
  note written = triple_write_json [OF lib codec up repo_key_object [OF k grp, THEN conjunct1]
      repo_key_object [OF k grp, THEN conjunct2] chunk_key_only_chunk [OF k grp] object_key_not_commit [OF k grp],
      where sk = sk and knd = IndexKind and x = ?index]
  show "triple (backup_world L c master D X T A)
    (andThen (write_encrypted_json_object L ops sk IndexKind k (index_codec L) ?index)
      (\<lambda>uploaded. ret (iid, k, uploaded)))
    (\<lambda>(iid, _, _). backup_world L c master D X T (\<lambda>m. A m \<and> index_stored L c master m
       \<lparr>ci_schema_version = 0, ci_index_id = iid, ci_chunks = entries\<rparr>)) (backup_world L c master D X T A)"
    by (rule triple_andThen [OF written])
      (simp, rule triple_ret, simp, erule backup_world_weaken,
       use iid k key in \<open>auto simp: index_stored_def\<close>)
qed auto

lemma triple_publish_manifest:
  assumes lib: "library_ok L" and up: "upward A" and key: "derive_key L c master SnapshotMetadata = Ok sk"
  shows "triple (backup_world L c master D X T A) (publish_manifest L c ops master sk body)
    (\<lambda>(sid, k, _) w. object_key_for_id ''objects/manifest'' sid = Ok k \<and>
       backup_world L c master D X T (\<lambda>m. A m \<and> manifest_stored L c master m
         \<lparr>sm_schema_version = 0, sm_snapshot_id = sid, sm_body = body\<rparr>) w) (backup_world L c master D X T A)"
  unfolding publish_manifest_def
proof (intro triple_bind_lift)
  fix sid k
  assume sid: "content_id_for_metadata L master SnapshotMetadata (repository_context c) (body_codec L) body = Ok sid"
    and k: "object_key_for_id ''objects/manifest'' sid = Ok k"
  let ?manifest = "\<lparr>sm_schema_version = 0, sm_snapshot_id = sid, sm_body = body\<rparr>"
  have grp: "''objects/manifest'' \<in> set object_groups" by (simp add: object_groups_def)
  have codec: "codec_ok (manifest_codec L)" using lib by (simp add: library_ok_def codecs_ok_def)
  note written = triple_write_json [OF lib codec up repo_key_object [OF k grp, THEN conjunct1]
      repo_key_object [OF k grp, THEN conjunct2] chunk_key_only_chunk [OF k grp] object_key_not_commit [OF k grp],
      where sk = sk and knd = SnapshotManifestKind and x = ?manifest]
  show "triple (backup_world L c master D X T A)
    (andThen (write_encrypted_json_object L ops sk SnapshotManifestKind k (manifest_codec L) ?manifest)
      (\<lambda>uploaded. ret (sid, k, uploaded)))
    (\<lambda>(sid, k, _) w. object_key_for_id ''objects/manifest'' sid = Ok k \<and>
       backup_world L c master D X T (\<lambda>m. A m \<and> manifest_stored L c master m
         \<lparr>sm_schema_version = 0, sm_snapshot_id = sid, sm_body = body\<rparr>) w) (backup_world L c master D X T A)"
    by (rule triple_andThen [OF written])
      (simp, rule triple_ret, simp add: k, erule backup_world_weaken,
       use sid k key in \<open>auto simp: manifest_stored_def\<close>)
qed auto

lemma triple_publish_commit:
  assumes up: "upward A"
    and rest: "\<And>m. A m \<Longrightarrow> chunk_sound L c master D m \<Longrightarrow> commit_known L c master D X T m sid"
  shows "triple (backup_world L c master D X T A) (publish_commit L ops sid manifest_object)
    (\<lambda>(k, _) w. object_key_for_commit sid = Ok k \<and> backup_world L c master D X T (\<lambda>m. A m \<and> m k \<noteq> None) w)
    (backup_world L c master D X T A)"
  unfolding publish_commit_def
proof (intro triple_bind_lift)
  fix k b
  assume k: "object_key_for_commit sid = Ok k"
  have commit: "commit_known L c master D X T m sid'"
    if "object_key_for_commit sid' = Ok k" "A m" "chunk_sound L c master D m" for sid' m
    using rest that commit_key_inj [OF k that(1)] by blast
  note put = triple_put [OF up repo_key_commit [OF k, THEN conjunct1] repo_key_commit [OF k, THEN conjunct2]
      commit_key_sound [OF k] commit]
  show "triple (backup_world L c master D X T A)
    (andThen (on_store (map_error CoreStorage (put_if_absent ops k b)))
      (\<lambda>status. ret (k, if status = Created then word_of_nat (length b) else 0)))
    (\<lambda>(k, _) w. object_key_for_commit sid = Ok k \<and> backup_world L c master D X T (\<lambda>m. A m \<and> m k \<noteq> None) w)
    (backup_world L c master D X T A)"
    by (rule triple_andThen [OF put], assumption+) (rule triple_ret, auto simp: k elim: backup_world_weaken)
qed auto

lemma triple_publish_snapshot:
  assumes lib: "library_ok L" and free: "collision_free L c master D"
    and T: "T = sources_valid V es" and ck: "derive_key L c master ChunkData = Ok ck"
    and ik: "derive_key L c master IndexPurpose = Ok ik"
    and mk: "derive_key L c master SnapshotMetadata = Ok mk"
  shows "triple (entry_loop L c master D X T V m0 es st)
    (publish_snapshot L c ops now master tags ik mk st)
    (\<lambda>res. backup_world L c master D X T (snapshot_published L c master D V es m0 res))
    (backup_world L c master D X T (\<lambda>m. m0 \<subseteq>\<^sub>m m))"
proof (cases "entries_backed L c master D V es st")
  case False
  then show ?thesis by (auto intro: tripleI simp: entry_loop_def)
next
  case backed: True
  let ?ies = "sort_index_entries (bk_index_entries st)"
  let ?A = "backup_base L c master D m0 st"
  let ?index = "\<lambda>iid. \<lparr>ci_schema_version = 0, ci_index_id = iid, ci_chunks = ?ies\<rparr>"
  let ?body = "\<lambda>iid t. \<lparr>mb_created_at = t, mb_tags = tags, mb_entries = bk_manifest_entries st, mb_index_ids = [iid]\<rparr>"
  let ?man = "\<lambda>sid iid t. \<lparr>sm_schema_version = 0, sm_snapshot_id = sid, sm_body = ?body iid t\<rparr>"
  let ?A1 = "\<lambda>iid m. ?A m \<and> index_stored L c master m (?index iid)"
  let ?A2 = "\<lambda>iid t sid m. ?A1 iid m \<and> manifest_stored L c master m (?man sid iid t)"
  have up1: "upward (?A1 iid)" for iid
    by (intro upward_conj upward_backup_base upward_index_stored)
  have up2: "upward (?A2 iid t sid)" for iid t sid
    by (intro upward_conj upward_backup_base upward_index_stored upward_manifest_stored)
  have valid: "entries_valid (bk_manifest_entries st) \<longleftrightarrow> T" unfolding T by (rule entries_valid_backed [OF backed])
  have complete: "snapshot_complete L c master D m (file_data V) (?man sid iid t)" if "?A2 iid t sid m" for iid t sid m
  proof -
    have "file_restores L c master D m (insert_index_entries ?ies []) (file_data V) e"
      if "e \<in> set (bk_manifest_entries st)" for e
      using backed that \<open>?A2 iid t sid m\<close>
      by (intro backed_file_restores free) (auto simp: entries_backed_def backup_base_def)
    then show ?thesis
      using that ck unfolding snapshot_complete_def
      by (intro conjI exI [of _ "?index iid"]) auto
  qed
  have base: "m0 \<subseteq>\<^sub>m m" if "?A m" for m using that by (simp add: backup_base_def)
  have files_read: "\<exists>b. fs_read V (me_path e) = Ok b" if "e \<in> set es" "entry_kind (me_metadata e) = RegularFile" for e
    using that backed by (fastforce simp: entries_backed_def entry_backed_def)
  have fail: "triple P m Q (backup_world L c master D X T B) \<Longrightarrow> (\<And>x. B x \<Longrightarrow> ?A x) \<Longrightarrow>
      triple P m Q (backup_world L c master D X T (\<lambda>m. m0 \<subseteq>\<^sub>m m))"
    for P Q B and m :: "('s world, core_error, 'x) prog"
    by (erule triple_conseq) (auto elim!: backup_world_weaken intro: base)
  have idx: "triple (entry_loop L c master D X T V m0 es st) (publish_index L c ops master ik ?ies)
    (\<lambda>(iid, _, _). backup_world L c master D X T (?A1 iid)) (backup_world L c master D X T (\<lambda>m. m0 \<subseteq>\<^sub>m m))"
    by (rule fail [OF triple_conseq [OF triple_publish_index [OF lib upward_backup_base ik]]])
      (auto simp: entry_loop_def)
  have commit: "triple (\<lambda>w. object_key_for_id ''objects/manifest'' sid = Ok k \<and> backup_world L c master D X T (?A2 iid t sid) w)
    (andThen (publish_commit L ops sid k) (\<lambda>(ck, cb). ret (res ck cb)))
    (\<lambda>res. backup_world L c master D X T (snapshot_published L c master D V es m0 res))
    (backup_world L c master D X T (\<lambda>m. m0 \<subseteq>\<^sub>m m))"
    if sid: "\<And>ck cb. wr_snapshot_id (res ck cb) = sid" for iid t sid k res
  proof -
    have rest: "commit_known L c master D X T m sid" if "?A2 iid t sid m" "chunk_sound L c master D m" for m
      unfolding commit_known_def using complete [OF that(1)] valid
      by (intro disjI2 exI [of _ "file_data V"] exI [of _ "?man sid iid t"]) simp
    have "snapshot_published L c master D V es m0 (res ck cb) m"
      if "?A2 iid t sid m" "object_key_for_commit sid = Ok ck" "m ck \<noteq> None" for ck cb m
      unfolding snapshot_published_def sid
      using that base complete [OF that(1)] backed files_read valid T
      by (intro conjI ballI impI exI [of _ "?man sid iid t"] exI [of _ ck]) (auto simp: entries_backed_def)
    then have "triple (backup_world L c master D X T (?A2 iid t sid))
      (andThen (publish_commit L ops sid k) (\<lambda>(ck, cb). ret (res ck cb)))
      (\<lambda>res. backup_world L c master D X T (snapshot_published L c master D V es m0 res))
      (backup_world L c master D X T (\<lambda>m. m0 \<subseteq>\<^sub>m m))"
      by (intro triple_andThen [OF fail [OF triple_publish_commit [OF up2 rest]]])
        (auto intro!: triple_ret elim!: backup_world_weaken)
    then show ?thesis by (rule triple_conseq) simp_all
  qed
  have man: "triple (backup_world L c master D X T (?A1 iid)) (publish_manifest L c ops master mk (?body iid t))
    (\<lambda>(sid, k, _) w. object_key_for_id ''objects/manifest'' sid = Ok k \<and> backup_world L c master D X T (?A2 iid t sid) w)
    (backup_world L c master D X T (\<lambda>m. m0 \<subseteq>\<^sub>m m))" for iid t
    by (rule fail [OF triple_publish_manifest [OF lib up1 mk]]) simp
  have weaken: "backup_world L c master D X T (\<lambda>m. m0 \<subseteq>\<^sub>m m) w" if "backup_world L c master D X T (?A1 iid) w" for iid w
    using that by (rule backup_world_weaken) (blast intro: base)
  show ?thesis
    unfolding publish_snapshot_def Let_def
  proof (rule triple_andThen [OF idx], unfold split_paired_all prod.case, rule triple_bind_lift)
    fix iid io ib t
    show "triple (backup_world L c master D X T (?A1 iid))
      (andThen (publish_manifest L c ops master mk (?body iid t)) (\<lambda>(sid, k, mb).
       andThen (publish_commit L ops sid k) (\<lambda>(ck, cb).
       ret \<lparr>wr_snapshot_id = sid, wr_created_at = t, wr_manifest_object = k, wr_index_object = io,
            wr_index_ids = [iid], wr_commit_object = ck,
            wr_chunk_objects_written = bk_objects_written st,
            wr_chunk_objects_reused = bk_objects_reused st,
            wr_entries = length (bk_manifest_entries st),
            wr_entries_scanned = length (bk_manifest_entries st),
            wr_files_backed_up = bk_files st, wr_directories_backed_up = bk_directories st,
            wr_symlinks_backed_up = bk_symlinks st, wr_special_entries_seen = bk_special st,
            wr_bytes_scanned = bk_bytes_scanned st,
            wr_bytes_uploaded = bk_bytes_uploaded st + ib + mb + cb,
            wr_chunks_seen = bk_chunks_seen st, wr_chunks_written = bk_objects_written st,
            wr_chunks_reused = bk_objects_reused st, wr_chunks = length ?ies\<rparr>)))
      (\<lambda>res. backup_world L c master D X T (snapshot_published L c master D V es m0 res))
      (backup_world L c master D X T (\<lambda>m. m0 \<subseteq>\<^sub>m m))"
      by (rule triple_andThen [OF man], unfold split_paired_all prod.case, rule commit) simp
  qed (rule weaken)
qed

theorem triple_write_entries:
  assumes lib: "library_ok L" and free: "collision_free L c master D" and V: "files_bounded V" "chunks_within L c D V"
    and T: "T = sources_valid V es" and no_chunks: "\<And>x. x \<in> set es \<Longrightarrow> me_chunks x = []"
  shows "triple (backup_world L c master D X T (\<lambda>m. m0 \<subseteq>\<^sub>m m))
    (write_entries L c ops V now master tags es)
    (\<lambda>res. backup_world L c master D X T (snapshot_published L c master D V es m0 res))
    (backup_world L c master D X T (\<lambda>m. m0 \<subseteq>\<^sub>m m))"
  unfolding write_entries_def
proof (intro triple_bind_lift)
  fix ck ik mk
  assume ck: "derive_key L c master ChunkData = Ok ck" and ik: "derive_key L c master IndexPurpose = Ok ik"
    and mk: "derive_key L c master SnapshotMetadata = Ok mk"
  have "triple (entry_loop L c master D X T V m0 [] backup_state_init)
    (for_each es (backup_entry L c ops V master ck) backup_state_init)
    (entry_loop L c master D X T V m0 ([] @ es)) (backup_world L c master D X T (\<lambda>m. m0 \<subseteq>\<^sub>m m))"
    by (rule triple_for_each, rule triple_backup_entry [OF lib ck V]) (use no_chunks in auto)
  then have loop: "triple (backup_world L c master D X T (\<lambda>m. m0 \<subseteq>\<^sub>m m))
    (for_each es (backup_entry L c ops V master ck) backup_state_init)
    (entry_loop L c master D X T V m0 es) (backup_world L c master D X T (\<lambda>m. m0 \<subseteq>\<^sub>m m))"
    by (rule triple_conseq)
      (auto simp: entry_loop_def entries_backed_def backup_state_init_def backup_base_def backup_world_def)
  show "triple (backup_world L c master D X T (\<lambda>m. m0 \<subseteq>\<^sub>m m))
    (andThen (for_each es (backup_entry L c ops V master ck) backup_state_init)
       (publish_snapshot L c ops now master tags ik mk))
    (\<lambda>res. backup_world L c master D X T (snapshot_published L c master D V es m0 res))
    (backup_world L c master D X T (\<lambda>m. m0 \<subseteq>\<^sub>m m))"
    by (rule triple_andThen [OF loop triple_publish_snapshot [OF lib free T ck ik mk]])
qed auto

end

section \<open>Backups of one tree\<close>

text \<open>A file system that does not change while it is read.\<close>

definition steady :: "fs_view \<Rightarrow> bool" where
  "steady V \<longleftrightarrow> names_distinct V \<and> files_bounded V \<and>
     (\<forall>p md b. fs_symlink_metadata V p = Ok md \<longrightarrow> fm_type md = IsFile \<longrightarrow> fs_read V p = Ok b \<longrightarrow>
        unat (fm_len md) = length b)"

lemma sources_valid_walk:
  assumes run: "walk rules V [root] = Some (Ok es)" and V: "steady V"
    and root: "capture_metadata V root = Ok rm" "entry_kind rm = Directory"
  shows "sources_valid V (map manifest_entry_from_source es)"
proof -
  have names: "names_distinct V" using V by (simp add: steady_def)
  have ok: "entry_ok rules V e" if "e \<in> set es" for e using walk_Ok [OF run] that by blast
  have first: "parents_first es" using walk_Ok [OF run] by blast
  have uniq: "distinct (map se_relative_path es)" "\<And>e. e \<in> set es \<Longrightarrow> se_root e = root"
    using walk_single_root [OF run names] by auto
  have "entry_kind (se_metadata e) = Directory" if "e \<in> set es" "se_relative_path e = []" for e
    using ok [OF that(1)] that uniq(2) root by (auto simp: entry_ok_def)
  moreover have "unat n = length b"
    if "e \<in> set es" "entry_kind (se_metadata e) = RegularFile" "size_bytes (se_metadata e) = Some n"
      "fs_read V (se_path e) = Ok b" for e n b
  proof -
    have "capture_metadata V (se_path e) = Ok (se_metadata e)" using ok [OF that(1)] unfolding entry_ok_def by blast
    from capture_metadata_kind [OF this] that V show ?thesis
      by (auto simp: steady_def split: if_splits)
  qed
  moreover have "entry_kind (se_metadata a) = Directory"
    if "e \<in> set es" "a \<in> set es" "strict_prefix (se_relative_path a) (se_relative_path e)" for e a
    using walk_ancestors [OF first uniq(1) that] .
  ultimately show ?thesis
    using uniq(1) ok
    by (auto simp: sources_valid_def manifest_entry_from_source_def comp_def entry_ok_def)
qed

lemma sources_no_chunks: "x \<in> set (map manifest_entry_from_source es) \<Longrightarrow> me_chunks x = []"
  by (auto simp: manifest_entry_from_source_def)

context eventual_repository
begin

text \<open>
  What a run of a backup leaves behind, for any sources and any outcome. A snapshot that has got its commit
  marker is complete, and its entries are a tree just when the entries of the walk are.
\<close>

lemma write_snapshot_outcome:
  assumes lib: "library_ok L" and free: "collision_free L c master D" and V: "files_bounded V" "chunks_within L c D V"
    and run: "write_snapshot L c ops V now master request = Some m" "m w = (r, w')"
    and w: "inv (w_store w)" "chunk_sound L c master D (contents (w_store w))"
  shows "inv (w_store w') \<and> chunk_sound L c master D (contents (w_store w')) \<and>
    contents (w_store w) \<subseteq>\<^sub>m contents (w_store w') \<and>
    (\<forall>sid \<in> committed_ids (contents (w_store w')) - committed_ids (contents (w_store w)). \<exists>es data manifest.
       walk (br_exclusion_rules request) V (br_roots request) = Some (Ok es) \<and>
       snapshot_complete L c master D (contents (w_store w')) data manifest \<and> sm_snapshot_id manifest = sid \<and>
       (entries_valid (mb_entries (sm_body manifest)) \<longleftrightarrow> sources_valid V (map manifest_entry_from_source es))) \<and>
    (\<forall>res. r = Ok res \<longrightarrow> (\<exists>es. walk (br_exclusion_rules request) V (br_roots request) = Some (Ok es) \<and>
       snapshot_published L c master D V (map manifest_entry_from_source es) (contents (w_store w)) res
         (contents (w_store w'))))"
proof -
  let ?m0 = "contents (w_store w)"
  consider (failed) e where "m = lift_result (Err e)"
    | (walked) es where "walk (br_exclusion_rules request) V (br_roots request) = Some (Ok es)"
        "m = write_entries L c ops V now master (br_tags request) (map manifest_entry_from_source es)"
    using run(1) by (auto simp: write_snapshot_def split: option.splits sum.splits)
  then show ?thesis
  proof cases
    case failed
    then show ?thesis using run(2) w by auto
  next
    case walked
    let ?es = "map manifest_entry_from_source es"
    let ?W = "backup_world L c master D (committed_ids ?m0) (sources_valid V ?es)"
    have "?W (\<lambda>m. ?m0 \<subseteq>\<^sub>m m) w"
      using w by (simp add: backup_world_def commits_known_start)
    note outcome = tripleD [OF triple_write_entries [OF lib free V refl sources_no_chunks,
        where now = now and tags = "br_tags request"] this]
    have after: "?W (\<lambda>m. ?m0 \<subseteq>\<^sub>m m) w'" and
      published: "\<forall>res. r = Ok res \<longrightarrow> snapshot_published L c master D V ?es ?m0 res (contents (w_store w'))"
      using outcome run(2) walked(2) by (cases r; force simp: backup_world_def snapshot_published_def)+
    have "\<exists>data manifest. snapshot_complete L c master D (contents (w_store w')) data manifest \<and>
        sm_snapshot_id manifest = sid \<and> (entries_valid (mb_entries (sm_body manifest)) \<longleftrightarrow> sources_valid V ?es)"
      if sid: "sid \<in> committed_ids (contents (w_store w')) - committed_ids ?m0" for sid
    proof -
      obtain k where "object_key_for_commit sid = Ok k" "contents (w_store w') k \<noteq> None"
        using sid by (auto simp: committed_ids_def)
      moreover have "commits_known L c master D (committed_ids ?m0) (sources_valid V ?es) (contents (w_store w'))"
        using after by (simp add: backup_world_def)
      ultimately have "commit_known L c master D (committed_ids ?m0) (sources_valid V ?es) (contents (w_store w')) sid"
        unfolding commits_known_def by blast
      then show ?thesis using sid unfolding commit_known_def by blast
    qed
    then show ?thesis
      using after published walked(1) unfolding backup_world_def by blast
  qed
qed

end

end
