(* ===== verification/Ferry_Sample.thy ===== *)
theory Ferry_Sample
  imports Ferry_Model
begin

text \<open>
  A concrete library: the hypotheses on third-party code that the statements use hold of it together,
  so each statement can be applied to a run of the program. Structured data is encoded by its position
  in a table, which keeps the codecs executable for data of any shape.
\<close>

definition table_codec :: "'a list \<Rightarrow> 'a codec" where
  "table_codec xs =
     \<lparr>to_vec = (\<lambda>x. if x \<in> set xs then Ok (replicate (length (takeWhile (\<lambda>y. y \<noteq> x) xs)) 1)
        else Err (JsonError ''unknown value'')),
      from_slice = (\<lambda>b. if length b < length xs then Ok (xs ! length b) else Err (JsonError ''unknown value''))\<rparr>"

lemma takeWhile_position: "x \<in> set xs \<Longrightarrow> length (takeWhile (\<lambda>y. y \<noteq> x) xs) < length xs \<and>
    xs ! length (takeWhile (\<lambda>y. y \<noteq> x) xs) = x"
  by (induction xs) auto

lemma table_codec_ok: "codec_ok (table_codec xs)"
  unfolding codec_ok_def table_codec_def using takeWhile_position [of _ xs]
  by (simp split: if_splits)

fun unblock :: "bytes \<Rightarrow> (bytes \<times> bytes) option" where
  "unblock (x # r) =
     (if x = 0 then Some ([], r)
      else case r of [] \<Rightarrow> None | b # r' \<Rightarrow> map_option (\<lambda>(bs, rest). (b # bs, rest)) (unblock r'))"
| "unblock [] = None"

lemma unblock_block [simp]: "unblock (block bs @ r) = Some (bs, r)"
  by (induction bs) simp_all

definition sealed_codec :: "stored_encrypted_object codec" where
  "sealed_codec =
     \<lparr>to_vec = (\<lambda>x. Ok (block (so_nonce x) @ so_ciphertext x)),
      from_slice = (\<lambda>b. case unblock b of
         None \<Rightarrow> Err (JsonError ''truncated'')
       | Some (n, c) \<Rightarrow> Ok \<lparr>so_algorithm = RepositoryXChaCha20Poly1305, so_nonce = n, so_ciphertext = c\<rparr>)\<rparr>"

lemma sealed_codec_ok: "codec_ok sealed_codec"
proof -
  have "x = \<lparr>so_algorithm = RepositoryXChaCha20Poly1305, so_nonce = so_nonce x, so_ciphertext = so_ciphertext x\<rparr>"
    for x :: stored_encrypted_object
    by (cases x; cases "so_algorithm x") simp
  then show ?thesis by (auto simp: codec_ok_def sealed_codec_def)
qed

definition sample_fastcdc :: fastcdc_lib where
  "sample_fastcdc =
     \<lparr>MINIMUM_MIN = 64, MINIMUM_MAX = 67108864, AVERAGE_MIN = 256, AVERAGE_MAX = 268435456,
      MAXIMUM_MIN = 1024, MAXIMUM_MAX = 1073741824,
      fastcdc_cut = (\<lambda>_ _ _ bs. if bs = [] then [] else [(0, length bs, 0)])\<rparr>"

text \<open>The tables hold the metadata values that a run writes.\<close>

record sample_tables =
  st_bodies :: "snapshot_manifest_body list"
  st_manifests :: "snapshot_manifest list"
  st_entries :: "chunk_index_entry list list"
  st_indexes :: "chunk_index list"
  st_commits :: "snapshot_commit list"
  st_forgets :: "snapshot_forget_marker list"
  st_bootstraps :: "repository_bootstrap list"
  st_slots :: "stored_external_key_slot list"

definition no_tables :: sample_tables where
  "no_tables = \<lparr>st_bodies = [], st_manifests = [], st_entries = [], st_indexes = [], st_commits = [],
     st_forgets = [], st_bootstraps = [], st_slots = []\<rparr>"

definition sample_library :: "sample_tables \<Rightarrow> library" where
  "sample_library t =
     \<lparr>lib_crypto = sample_prims, lib_fastcdc = sample_fastcdc,
      zstd_compress = (\<lambda>_ b. Ok b),
      zstd_decompress = (\<lambda>c n. if length c \<le> n then Ok c else Err (IoError OtherKind ''too large'')),
      object_codec = sealed_codec, body_codec = table_codec (st_bodies t),
      manifest_codec = table_codec (st_manifests t), entries_codec = table_codec (st_entries t),
      index_codec = table_codec (st_indexes t), commit_codec = table_codec (st_commits t),
      forget_codec = table_codec (st_forgets t), bootstrap_codec = table_codec (st_bootstraps t),
      slot_codec = table_codec (st_slots t)\<rparr>"

lemma sample_library_sel [simp]:
  "lib_crypto (sample_library t) = sample_prims"
  "lib_fastcdc (sample_library t) = sample_fastcdc"
  "zstd_compress (sample_library t) level b = Ok b"
  "object_codec (sample_library t) = sealed_codec"
  "body_codec (sample_library t) = table_codec (st_bodies t)"
  "manifest_codec (sample_library t) = table_codec (st_manifests t)"
  "entries_codec (sample_library t) = table_codec (st_entries t)"
  "index_codec (sample_library t) = table_codec (st_indexes t)"
  "commit_codec (sample_library t) = table_codec (st_commits t)"
  "forget_codec (sample_library t) = table_codec (st_forgets t)"
  "bootstrap_codec (sample_library t) = table_codec (st_bootstraps t)"
  "slot_codec (sample_library t) = table_codec (st_slots t)"
  by (simp_all add: sample_library_def)

lemma sample_fastcdc_ok: "fastcdc_ok sample_fastcdc"
  by (simp add: fastcdc_ok_def sample_fastcdc_def)

lemma sample_library_ok: "library_ok (sample_library t)"
  by (simp add: library_ok_def sample_aead_correct codecs_ok_def table_codec_ok sealed_codec_ok
      sample_fastcdc_ok zstd_ok_def sample_library_def)

end
