(* ===== verification/Ferry_Scenario.thy ===== *)
theory Ferry_Scenario
  imports Ferry_Durability Ferry_Sample
begin

text \<open>
  A concrete backup, step by step: the directory \<open>/r\<close> with its file \<open>a\<close> into an empty store. The
  statements about backups are applied to this run.
\<close>

definition sample_master :: master_key where
  "sample_master = MasterKey (replicate 32 1)"

definition sample_config :: backup_pipeline_config where
  "sample_config = pipeline_config_new ''r''"

definition sample_derived :: "key_purpose \<Rightarrow> subkey" where
  "sample_derived p = Subkey (take 32 (drop 17 (subkey_info p (as_bytes ''r'')) @ replicate 32 0))"

definition sample_id :: "bytes \<Rightarrow> string" where
  "sample_id bs = hex_bytes (take 32 (bs @ replicate 32 0))"

definition sample_key_for :: "string \<Rightarrow> bytes \<Rightarrow> object_key" where
  "sample_key_for grp bs = ObjectKey (grp @ ''/'' @ take 2 (sample_id bs) @ ''/'' @ sample_id bs)"

definition sample_object_bytes :: "key_purpose \<Rightarrow> object_kind \<Rightarrow> object_key \<Rightarrow> bytes \<Rightarrow> nat \<Rightarrow> bytes" where
  "sample_object_bytes p knd k plain n =
     (let nonce = replicate 24 (word_of_nat n);
          aad = object_aad \<lparr>format_version = FORMAT_VERSION_V0, kind = knd, object_name = as_str k\<rparr>
      in block nonce @ block (expose_subkey (sample_derived p)) @ block nonce @ block aad @ plain)"

lemma sample_derive [simp]:
  "derive_key (sample_library t) sample_config sample_master p = Ok (sample_derived p)"
  by (simp add: derive_key_def derive_subkey_def repository_context_def sample_config_def
      pipeline_config_new_def sample_derived_def)

lemma sample_derived_encrypts [simp]:
  "encrypt_with_key sample_prims (sample_derived p) n m a =
     Ok (block (expose_subkey (sample_derived p)) @ block n @ block a @ m)"
  unfolding sample_derived_def subkey.sel by (rule sample_encrypts) simp

lemma sample_encrypt [simp]:
  "key_valid k \<Longrightarrow> encrypt_repository_object (sample_library t) (sample_derived p) knd k plain w =
     (Ok (sample_object_bytes p knd k plain (w_rng w)), w\<lparr>w_rng := Suc (w_rng w)\<rparr>)"
  by (simp add: encrypt_repository_object_def object_key_context andThen_def on_rng_def map_error_def
      encrypt_object_def random_nonce_def XCHACHA20_POLY1305_NONCE_LEN_def encode_encrypted_object_def
      sealed_codec_def sample_object_bytes_def Let_def)

lemma sample_keyed_id [simp]:
  "keyed_content_id sample_prims sample_master p ctx bs = Ok (take 32 (bs @ replicate 32 0))"
  by (simp add: keyed_content_id_def derive_subkey_def)

lemma sample_chunk_identity [simp]: "chunk_identity (sample_library t) c sample_master bs = Ok (sample_id bs)"
  by (simp add: chunk_identity_def sample_id_def del: append_take_drop_id)

lemma sample_content_id:
  "to_vec codec x = Ok bs \<Longrightarrow> content_id_for_metadata (sample_library t) sample_master p ctx codec x = Ok (sample_id bs)"
  by (simp add: content_id_for_metadata_def sample_id_def)

lemma length_sample_id: "length (sample_id bs) = 64"
  by (simp add: sample_id_def)

lemma sample_key:
  assumes "grp \<in> set object_groups"
  shows "object_key_for_id grp (sample_id bs) = Ok (sample_key_for grp bs)"
    and "key_valid (sample_key_for grp bs)"
proof -
  show key: "object_key_for_id grp (sample_id bs) = Ok (sample_key_for grp bs)"
    unfolding sample_key_for_def
    by (rule object_key_for_hex_id [OF _ _ assms])
      (use length_sample_id [of bs] set_hex_bytes in \<open>auto simp: sample_id_def\<close>)
  show "key_valid (sample_key_for grp bs)" using object_key_for_id_Ok(2) [OF key] .
qed

section \<open>The objects of the run\<close>

definition sample_chunk_key :: object_key where "sample_chunk_key = sample_key_for ''objects/chunk'' [1, 2]"
definition sample_index_key :: object_key where "sample_index_key = sample_key_for ''objects/index'' []"
definition sample_manifest_key :: object_key where "sample_manifest_key = sample_key_for ''objects/manifest'' []"
definition sample_commit_key :: object_key where "sample_commit_key = ObjectKey (''commits/'' @ sample_id [])"

definition sample_chunk_object :: bytes where
  "sample_chunk_object = sample_object_bytes ChunkData Chunk sample_chunk_key [1, 2] 0"

definition sample_index_entry :: chunk_index_entry where
  "sample_index_entry =
     \<lparr>ie_chunk_id = sample_id [1, 2], ie_object_key = as_str sample_chunk_key, ie_plaintext_length = 2,
      ie_compressed_length = 2, ie_stored_length = word_of_nat (length sample_chunk_object),
      ie_compression = Zstd, ie_aead = RepositoryXChaCha20Poly1305\<rparr>"

definition sample_index :: chunk_index where
  "sample_index = \<lparr>ci_schema_version = 0, ci_index_id = sample_id [], ci_chunks = [sample_index_entry]\<rparr>"

definition sample_body :: snapshot_manifest_body where
  "sample_body =
     \<lparr>mb_created_at = 0, mb_tags = [''t''],
      mb_entries =
        [manifest_entry_from_source (sample_entries ! 0),
         (manifest_entry_from_source (sample_entries ! 1))\<lparr>me_chunks :=
           [\<lparr>mc_chunk_id = sample_id [1, 2], mc_object_key = as_str sample_chunk_key, mc_offset = 0, mc_length = 2\<rparr>]\<rparr>],
      mb_index_ids = [sample_id []]\<rparr>"

definition sample_written_manifest :: snapshot_manifest where
  "sample_written_manifest = \<lparr>sm_schema_version = 0, sm_snapshot_id = sample_id [], sm_body = sample_body\<rparr>"

definition sample_commit :: snapshot_commit where
  "sample_commit = \<lparr>sc_schema_version = 0, sc_snapshot_id = sample_id [], sc_manifest_object = as_str sample_manifest_key\<rparr>"

definition sample_lib :: library where
  "sample_lib = sample_library (no_tables\<lparr>st_bodies := [sample_body], st_manifests := [sample_written_manifest],
     st_entries := [[sample_index_entry]], st_indexes := [sample_index], st_commits := [sample_commit]\<rparr>)"

definition sample_request :: backup_request where
  "sample_request = \<lparr>br_roots = [sample_root], br_exclusion_rules = [], br_tags = [''t'']\<rparr>"

definition sample_index_object :: bytes where
  "sample_index_object = sample_object_bytes IndexPurpose IndexKind sample_index_key [] 1"

definition sample_manifest_object :: bytes where
  "sample_manifest_object = sample_object_bytes SnapshotMetadata SnapshotManifestKind sample_manifest_key [] 2"

definition sample_stored :: fake_store where
  "sample_stored = bt_insert sample_commit_key [] (bt_insert sample_manifest_key sample_manifest_object
     (bt_insert sample_index_key sample_index_object (bt_insert sample_chunk_key sample_chunk_object [])))"

section \<open>The steps\<close>

lemma sample_keys_distinct [simp]:
  "sample_chunk_key \<noteq> sample_index_key" "sample_chunk_key \<noteq> sample_manifest_key"
  "sample_index_key \<noteq> sample_manifest_key" "sample_commit_key \<noteq> sample_chunk_key"
  "sample_commit_key \<noteq> sample_index_key" "sample_commit_key \<noteq> sample_manifest_key"
  "sample_index_key \<noteq> sample_chunk_key" "sample_manifest_key \<noteq> sample_chunk_key"
  "sample_manifest_key \<noteq> sample_index_key" "sample_chunk_key \<noteq> sample_commit_key"
  "sample_index_key \<noteq> sample_commit_key" "sample_manifest_key \<noteq> sample_commit_key"
  by (simp_all add: sample_chunk_key_def sample_index_key_def sample_manifest_key_def sample_commit_key_def
      sample_key_for_def)

lemma sample_groups [simp]:
  "''objects/chunk'' \<in> set object_groups" "''objects/index'' \<in> set object_groups"
  "''objects/manifest'' \<in> set object_groups"
  by (simp_all add: object_groups_def)

lemma sample_keys [simp]:
  "object_key_for_id ''objects/chunk'' (sample_id [1, 2]) = Ok sample_chunk_key"
  "object_key_for_id ''objects/index'' (sample_id []) = Ok sample_index_key"
  "object_key_for_id ''objects/manifest'' (sample_id []) = Ok sample_manifest_key"
  "key_valid sample_chunk_key" "key_valid sample_index_key" "key_valid sample_manifest_key"
  unfolding sample_chunk_key_def sample_index_key_def sample_manifest_key_def
  by (rule sample_key, simp)+

lemma sample_commit_key [simp]: "object_key_for_commit (sample_id []) = Ok sample_commit_key"
proof -
  have seg: "segment_ok ''commits''" by (rule lowercase_segment) simp_all
  have "sample_id [] = hex_bytes (replicate 32 0)" by (simp add: sample_id_def)
  then have hex: "segment_ok (sample_id [])" by (simp add: hex_bytes_segment)
  have "split_on CHR ''/'' (''commits'' @ CHR ''/'' # sample_id []) = ''commits'' # split_on CHR ''/'' (sample_id [])"
    by (rule split_on_append) simp
  then have "list_all segment_ok (split_on CHR ''/'' (''commits/'' @ sample_id []))"
    using seg hex segment_ok_no_separator [OF hex] by (simp add: split_on_free)
  then show ?thesis
    by (simp add: object_key_for_commit_def map_err_Ok_iff object_key_new_Ok sample_commit_key_def)
qed

lemma fake_put_new [simp]:
  "bt_get s k = None \<Longrightarrow> put_if_absent fake_store_ops k b s = (Ok Created, bt_insert k b s)"
  by (simp add: fake_store_ops_def fake_put_if_absent_def)

lemma fake_exists_simp [simp]: "object_exists fake_store_ops k s = (Ok (bt_get s k \<noteq> None), s)"
  by (simp add: fake_store_ops_def fake_exists_def)

lemma sample_codecs [simp]:
  "to_vec (body_codec sample_lib) sample_body = Ok []"
  "to_vec (manifest_codec sample_lib) sample_written_manifest = Ok []"
  "to_vec (entries_codec sample_lib) [sample_index_entry] = Ok []"
  "to_vec (index_codec sample_lib) sample_index = Ok []"
  "to_vec (commit_codec sample_lib) sample_commit = Ok []"
  by (simp_all add: sample_lib_def table_codec_def)

lemma sample_file_chunk:
  "backup_chunk sample_lib sample_config fake_store_ops sample_master (sample_derived ChunkData) [1, 2] (st, e)
     \<lparr>cc_offset = 0, cc_length = 2, cc_gear_hash = 0\<rparr> \<lparr>w_store = [], w_rng = 0\<rparr> =
   (Ok (st\<lparr>bk_chunks_seen := bk_chunks_seen st + 1, bk_objects_written := bk_objects_written st + 1,
          bk_objects_reused := bk_objects_reused st,
          bk_bytes_uploaded := bk_bytes_uploaded st + word_of_nat (length sample_chunk_object),
          bk_index_entries := bk_index_entries st @ [sample_index_entry]\<rparr>,
        e\<lparr>me_chunks := me_chunks e @ [\<lparr>mc_chunk_id = sample_id [1, 2], mc_object_key = as_str sample_chunk_key,
            mc_offset = 0, mc_length = 2\<rparr>]\<rparr>),
    \<lparr>w_store = bt_insert sample_chunk_key sample_chunk_object [], w_rng = 1\<rparr>)"
  by (simp add: backup_chunk_def chunk_range_def sample_lib_def andThen_def publish_chunk_def on_store_def
      map_error_def sample_chunk_object_def sample_index_entry_def)

lemma sample_cuts: "chunk_bytes (lib_fastcdc sample_lib) cfg [1, 2] = [\<lparr>cc_offset = 0, cc_length = 2, cc_gear_hash = 0\<rparr>]"
  by (simp add: sample_lib_def chunk_bytes_def sample_fastcdc_def)

definition sample_state :: backup_state where
  "sample_state = backup_state_init\<lparr>bk_manifest_entries := mb_entries sample_body,
     bk_index_entries := [sample_index_entry], bk_objects_written := 1, bk_chunks_seen := 1,
     bk_bytes_scanned := 2, bk_bytes_uploaded := word_of_nat (length sample_chunk_object), bk_files := 1,
     bk_directories := 1\<rparr>"

lemma sample_loop:
  "for_each (map manifest_entry_from_source sample_entries)
     (backup_entry sample_lib sample_config fake_store_ops sample_fs sample_master (sample_derived ChunkData))
     backup_state_init \<lparr>w_store = [], w_rng = 0\<rparr> =
   (Ok sample_state, \<lparr>w_store = bt_insert sample_chunk_key sample_chunk_object [], w_rng = 1\<rparr>)"
  by (simp add: sample_entries_def manifest_entry_from_source_def backup_entry_def count_entry_def andThen_def
      sample_fs_def sample_root_def sample_cuts sample_file_chunk sample_state_def sample_body_def
      backup_state_init_def)

definition sample_result :: snapshot_write_result where
  "sample_result =
     \<lparr>wr_snapshot_id = sample_id [], wr_created_at = 0, wr_manifest_object = sample_manifest_key,
      wr_index_object = sample_index_key, wr_index_ids = [sample_id []], wr_commit_object = sample_commit_key,
      wr_chunk_objects_written = 1, wr_chunk_objects_reused = 0, wr_entries = 2, wr_entries_scanned = 2,
      wr_files_backed_up = 1, wr_directories_backed_up = 1, wr_symlinks_backed_up = 0,
      wr_special_entries_seen = 0, wr_bytes_scanned = 2,
      wr_bytes_uploaded = word_of_nat (length sample_chunk_object) + word_of_nat (length sample_index_object) +
        word_of_nat (length sample_manifest_object),
      wr_chunks_seen = 1, wr_chunks_written = 1, wr_chunks_reused = 0, wr_chunks = 1\<rparr>"

lemma sample_publish:
  "publish_snapshot sample_lib sample_config fake_store_ops 0 sample_master [''t'']
     (sample_derived IndexPurpose) (sample_derived SnapshotMetadata) sample_state
     \<lparr>w_store = bt_insert sample_chunk_key sample_chunk_object [], w_rng = 1\<rparr> =
   (Ok sample_result, \<lparr>w_store = sample_stored, w_rng = 3\<rparr>)"
proof -
  have ids: "content_id_for_metadata sample_lib sample_master p ctx (entries_codec sample_lib) [sample_index_entry] = Ok (sample_id [])"
    "content_id_for_metadata sample_lib sample_master p ctx (body_codec sample_lib) sample_body = Ok (sample_id [])" for p ctx
    unfolding sample_lib_def by (rule sample_content_id, simp add: table_codec_def)+
  have sorted: "sort_index_entries (bk_index_entries sample_state) = [sample_index_entry]"
    by (simp add: sort_index_entries_def sample_state_def)
  have enc: "encrypt_repository_object sample_lib (sample_derived p) knd k plain w =
     (Ok (sample_object_bytes p knd k plain (w_rng w)), w\<lparr>w_rng := Suc (w_rng w)\<rparr>)" if "key_valid k" for p knd k plain and w :: "fake_store world"
    using that by (simp add: sample_lib_def)
  have body: "\<lparr>mb_created_at = 0, mb_tags = [''t''], mb_entries = bk_manifest_entries sample_state,
      mb_index_ids = [sample_id []]\<rparr> = sample_body"
    by (simp add: sample_state_def sample_body_def)
  show ?thesis
    unfolding publish_snapshot_def Let_def sorted
    by (simp add: publish_index_def publish_manifest_def publish_commit_def write_encrypted_json_object_def
        andThen_def ids enc body on_store_def map_error_def current_unix_seconds_def
        sample_index_def [symmetric] sample_written_manifest_def [symmetric] sample_commit_def [symmetric]
        sample_result_def sample_stored_def sample_index_object_def sample_manifest_object_def
        del: bt_insert.simps One_nat_def)
      (simp add: sample_state_def sample_body_def backup_state_init_def del: bt_insert.simps)
qed

lemma sample_run:
  "write_snapshot sample_lib sample_config fake_store_ops sample_fs 0 sample_master sample_request =
     Some (write_entries sample_lib sample_config fake_store_ops sample_fs 0 sample_master [''t'']
       (map manifest_entry_from_source sample_entries))"
  by (simp add: write_snapshot_def sample_request_def sample_walk)

lemma sample_write:
  "write_entries sample_lib sample_config fake_store_ops sample_fs 0 sample_master [''t'']
     (map manifest_entry_from_source sample_entries) \<lparr>w_store = [], w_rng = 0\<rparr> =
   (Ok sample_result, \<lparr>w_store = sample_stored, w_rng = 3\<rparr>)"
proof -
  have keys: "derive_key sample_lib sample_config sample_master p = Ok (sample_derived p)" for p
    by (simp add: sample_lib_def)
  show ?thesis
    by (simp add: write_entries_def keys andThen_def sample_loop sample_publish del: bt_insert.simps One_nat_def)
qed

section \<open>The hypotheses hold of it\<close>

lemma sample_lib_ok: "library_ok sample_lib"
  unfolding sample_lib_def by (rule sample_library_ok)

lemma sample_collision_free: "collision_free sample_lib sample_config sample_master {[1, 2]}"
  by (simp add: collision_free_def)

lemma sample_chunks_within: "chunks_within sample_lib sample_config {[1, 2]} sample_fs"
  by (auto simp: chunks_within_def sample_fs_def sample_cuts cut_data_def split: if_splits)

lemma sample_steady: "steady sample_fs"
  by (auto simp: steady_def names_distinct_def files_bounded_def sample_fs_def sample_root_def
      sample_metadata_def split: if_splits)

lemma sample_root_directory:
  "\<exists>md. capture_metadata sample_fs sample_root = Ok md \<and> entry_kind md = Directory"
  by (simp add: capture_metadata_def sample_fs_def sample_metadata_def entry_kind_of_def)

lemma sample_start:
  "bt_wf []" "chunk_sound L c master D (bt_get [])" "commits_restorable L c master (bt_get [])"
  by (simp_all add: chunk_sound_def commits_restorable_def)

section \<open>Reading it back through the store\<close>

lemma sample_decrypt [simp]:
  assumes "key_valid k"
  shows "decrypt_repository_object sample_lib (sample_derived p) knd k (sample_object_bytes p knd k plain n) = Ok plain"
proof -
  have "encrypt_repository_object sample_lib (sample_derived p) knd k plain \<lparr>w_store = (), w_rng = n\<rparr> =
      (Ok (sample_object_bytes p knd k plain n), \<lparr>w_store = (), w_rng = Suc n\<rparr>)"
    using assms by (simp add: sample_lib_def)
  then show ?thesis
    by (rule encrypt_repository_object_Ok) (simp_all add: sample_lib_def sample_aead_correct sealed_codec_ok)
qed

lemma sample_keys_derive [simp]: "derive_key sample_lib sample_config sample_master p = Ok (sample_derived p)"
  by (simp add: sample_lib_def)

lemma sample_slices [simp]:
  "from_slice (manifest_codec sample_lib) [] = Ok sample_written_manifest"
  "from_slice (index_codec sample_lib) [] = Ok sample_index"
  by (simp_all add: sample_lib_def table_codec_def)

lemma sample_gets [simp]:
  "bt_get sample_stored sample_chunk_key = Some sample_chunk_object"
  "bt_get sample_stored sample_index_key = Some sample_index_object"
  "bt_get sample_stored sample_manifest_key = Some sample_manifest_object"
  by (simp_all add: sample_stored_def del: bt_insert.simps)

lemma fake_get_simp [simp]: "get_object fake_store_ops k s = (ok_or (ObjectNotFound k) (bt_get s k), s)"
  by (simp add: fake_store_ops_def fake_get_def)

abbreviation sample_world :: "fake_store world" where
  "sample_world \<equiv> \<lparr>w_store = sample_stored, w_rng = 3\<rparr>"

lemma sample_ids:
  "content_id_for_metadata sample_lib sample_master p ctx (body_codec sample_lib) sample_body = Ok (sample_id [])"
  "content_id_for_metadata sample_lib sample_master p ctx (entries_codec sample_lib) [sample_index_entry] = Ok (sample_id [])"
  unfolding sample_lib_def by (rule sample_content_id, simp add: table_codec_def)+

lemma sample_manifest_sel [simp]:
  "sm_snapshot_id sample_written_manifest = sample_id []" "sm_body sample_written_manifest = sample_body"
  "ci_index_id sample_index = sample_id []" "ci_chunks sample_index = [sample_index_entry]"
  "mb_index_ids sample_body = [sample_id []]"
  by (simp_all add: sample_written_manifest_def sample_index_def sample_body_def)

lemma sample_valid: "validate_snapshot_manifest sample_written_manifest k = Ok ()"
  by (simp add: validate_snapshot_manifest_iff sample_body_def entries_valid_def entry_valid_def
      sample_entries_def manifest_entry_from_source_def)

lemma sample_read_manifest:
  "read_snapshot_manifest sample_lib sample_config fake_store_ops sample_master (sample_id []) sample_world =
     (Ok sample_written_manifest, sample_world)"
  by (simp add: read_snapshot_manifest_def read_encrypted_json_object_def read_encrypted_json_object_with_bytes_def
      andThen_def on_store_def map_error_def sample_manifest_object_def sample_ids identity_check_def sample_valid)

lemma sample_read_index:
  "read_chunk_index sample_lib sample_config fake_store_ops sample_master (sample_id []) sample_world =
     (Ok sample_index, sample_world)"
  by (simp add: read_chunk_index_def read_encrypted_json_object_def read_encrypted_json_object_with_bytes_def
      andThen_def on_store_def map_error_def sample_index_object_def sample_ids identity_check_def)

lemma sample_load_index:
  "load_chunk_index_entries sample_lib sample_config fake_store_ops sample_master sample_written_manifest sample_world =
     (Ok [(sample_id [1, 2], sample_index_entry)], sample_world)"
  by (simp add: load_chunk_index_entries_def andThen_def map_error_def sample_read_index insert_index_entries_def
      sample_index_entry_def)

lemma sample_chunk_new: "object_key_new (as_str sample_chunk_key) = Ok sample_chunk_key"
  by (simp add: object_key_new_Ok sample_keys(4) [unfolded key_valid_def])

lemma sample_verified:
  "verified_plaintext sample_lib sample_config sample_master (sample_id [1, 2]) 2 a b k [1, 2] = Ok [1, 2]"
proof -
  have "bindR (keyed_content_id sample_prims sample_master ChunkIdentity ctx [1, 2]) (\<lambda>cid. Ok (hex_bytes cid)) =
      Ok (sample_id [1, 2])" for ctx
    by (simp add: sample_id_def del: append_take_drop_id)
  then show ?thesis by (simp add: verified_plaintext_def sample_lib_def sample_library_def)
qed

lemma sample_restore_chunk:
  "restore_chunk sample_lib sample_config fake_store_ops sample_master (sample_derived ChunkData) sid rel
     [(sample_id [1, 2], sample_index_entry)] acc
     \<lparr>mc_chunk_id = sample_id [1, 2], mc_object_key = as_str sample_chunk_key, mc_offset = 0, mc_length = 2\<rparr>
     sample_world = (Ok (acc @ [1, 2]), sample_world)"
proof -
  have "bt_get [(sample_id [1, 2], sample_index_entry)] (sample_id [1, 2]) = Some sample_index_entry"
    by (simp add: bt_get_def)
  moreover have "ie_object_key sample_index_entry = as_str sample_chunk_key" "ie_plaintext_length sample_index_entry = 2"
    by (simp_all add: sample_index_entry_def)
  ultimately show ?thesis
    by (simp add: restore_chunk_def validate_indexed_chunk_reference_def andThen_def on_store_def map_error_def
        sample_chunk_new sample_verified sample_chunk_object_def)
qed

definition sample_restored :: restore_content_result where
  "sample_restored =
     \<lparr>rc_snapshot_id = sample_id [], rc_selected_entries = 2,
      rc_directories = [\<lparr>rd_relative_path = [], rd_modified = modified (se_metadata (sample_entries ! 0))\<rparr>],
      rc_files = [\<lparr>rf_relative_path = [Normal ''a''], rf_contents = [1, 2],
        rf_modified = modified (se_metadata (sample_entries ! 1))\<rparr>],
      rc_symlinks = [], rc_metadata_warnings = []\<rparr>"

lemma sample_restore:
  "restore_snapshot_contents sample_lib sample_config fake_store_ops sample_master (sample_id []) [] sample_world =
     (Ok sample_restored, sample_world)"
proof -
  have scoped: "scoped_manifest_entries sample_written_manifest [] = mb_entries sample_body"
    by (simp add: scoped_manifest_entries_def)
  show ?thesis
    by (simp add: restore_snapshot_contents_def Let_def normalize_restore_paths_def andThen_def map_error_def
        sample_read_manifest scoped sample_load_index)
      (simp add: sample_body_def sample_entries_def manifest_entry_from_source_def restore_entry_def Let_def
        andThen_def sample_restore_chunk sample_restored_def)
qed

lemma sample_well_keyed: "well_keyed sample_lib sample_config sample_master m"
proof -
  have only: "x = sample_written_manifest" if "from_slice (manifest_codec sample_lib) b = Ok x" for b x
    using that by (simp add: sample_lib_def table_codec_def split: if_splits)
  have "repo_key sample_chunk_key"
    using repo_key_object [OF sample_keys(1)] by simp
  then have "manifest_keys_ok sample_written_manifest"
    by (auto simp: manifest_keys_ok_def sample_body_def sample_entries_def manifest_entry_from_source_def)
  moreover have "x = sample_written_manifest"
    if "fst (read_snapshot_manifest sample_lib sample_config map_store_ops sample_master sid w) = Ok x" for sid w x
    using that
    by (auto simp: read_snapshot_manifest_def read_encrypted_json_object_def read_encrypted_json_object_with_bytes_def
        andThen_def Let_def map_err_Ok_iff dest: only split: sum.splits prod.splits if_splits)
  ultimately show ?thesis unfolding well_keyed_def by blast
qed

end
