(* ===== verification/Ferry_History.thy ===== *)
theory Ferry_History
  imports Ferry_Durability Ferry_Scenario
begin

text \<open>
  Histories of a repository: any number of backups of any sources and of forget requests, in any order and with
  any outcome, on a store that meets the contract, be it with reads that lag behind. Every snapshot that a backup
  reported stays complete; it can be restored, to the bytes its files had, just when its sources are one tree.
\<close>

section \<open>Forget markers keep the repository\<close>

lemma forget_key_not_commit:
  assumes "object_key_for_forget_marker sid = Ok k"
  shows "object_key_for_commit sid' \<noteq> Ok k"
  using object_key_for_forget_marker_Ok [OF assms] object_key_for_commit_Ok [of sid' k] by auto

lemma forget_key_sound:
  assumes k: "object_key_for_forget_marker sid = Ok k"
  shows "sound_at L c master D k b"
proof -
  have "object_key_for_id ''objects/chunk'' cid \<noteq> Ok k" for cid
    using object_key_for_forget_marker_Ok [OF k] object_key_for_id_Ok(1) [of "''objects/chunk''" cid k] by auto
  then show ?thesis by (simp add: sound_at_def)
qed

context eventual_repository
begin

lemma triple_write_forget_marker:
  assumes up: "upward A"
  shows "triple (backup_world L c master D X T A) (write_forget_marker L ops t markers sid)
    (\<lambda>_. backup_world L c master D X T A) (backup_world L c master D X T A)"
  unfolding write_forget_marker_def
proof (intro triple_bind_lift)
  fix k mk ck b
  assume k: "object_key_for_forget_marker sid = Ok k"
  have "triple (backup_world L c master D X T A) (on_store (map_error g (put_if_absent ops k b)))
    (\<lambda>_. backup_world L c master D X T A) (backup_world L c master D X T A)" for g
    by (rule triple_conseq [OF triple_put [OF up repo_key_forget [OF k, THEN conjunct1]
        repo_key_forget [OF k, THEN conjunct2] forget_key_sound [OF k]]])
      (use forget_key_not_commit [OF k] in \<open>auto elim: backup_world_weaken\<close>)
  then show "triple (backup_world L c master D X T A)
    (andThen (on_store (map_error CoreStorage (put_if_absent ops k b)))
      (\<lambda>status. ret (markers @ [\<lparr>fw_snapshot_id = sid, fw_marker_object = as_str k,
         fw_created = (status = Created)\<rparr>])))
    (\<lambda>_. backup_world L c master D X T A) (backup_world L c master D X T A)"
    by (rule triple_andThen) (rule triple_ret)
qed auto

lemma triple_write_forget_markers:
  assumes up: "upward A"
  shows "triple (backup_world L c master D X T A) (write_snapshot_forget_markers L ops now ids)
    (\<lambda>_. backup_world L c master D X T A) (backup_world L c master D X T A)"
proof (cases "ids = []")
  case False
  have "triple (backup_world L c master D X T A) (for_each xs (write_forget_marker L ops t) acc)
    (\<lambda>_. backup_world L c master D X T A) (backup_world L c master D X T A)" for xs t acc
    by (rule triple_for_each [where J = "\<lambda>_ _. backup_world L c master D X T A"])
      (rule triple_write_forget_marker [OF up])
  then show ?thesis
    unfolding write_snapshot_forget_markers_def if_not_P [OF False]
    by (intro triple_bind_lift) auto
qed (auto simp: write_snapshot_forget_markers_def intro!: tripleI)

end

section \<open>Snapshots stay restorable while the contents grow\<close>

lemma snapshot_published_mono:
  assumes "m \<subseteq>\<^sub>m m'" and "snapshot_published L c master D V es m0 res m"
  shows "snapshot_published L c master D V es m0 res m'"
proof -
  have "m' k \<noteq> None" if "m k \<noteq> None" for k using assms(1) that unfolding map_le_def by (metis domIff)
  then show ?thesis
    using assms(2) snapshot_complete_mono [OF assms(1)] map_le_trans [OF _ assms(1)]
    unfolding snapshot_published_def by blast
qed

section \<open>Histories\<close>

text \<open>
  What a backup is given: a view of the file system in which a path has one metadata and one contents, which
  need not agree with each other. There may be any roots: directories, files, several of them, overlapping ones.
  A file has less than \<open>2 ^ 64\<close> bytes, and its chunks are among \<open>D\<close>.
\<close>

definition source_bounded :: "library \<Rightarrow> backup_pipeline_config \<Rightarrow> bytes set \<Rightarrow> fs_view \<Rightarrow> bool" where
  "source_bounded L c D V \<longleftrightarrow> files_bounded V \<and> chunks_within L c D V"

text \<open>One directory whose files have the recorded sizes.\<close>

definition tree_source ::
  "library \<Rightarrow> backup_pipeline_config \<Rightarrow> bytes set \<Rightarrow> fs_view \<Rightarrow> backup_request \<Rightarrow> bool" where
  "tree_source L c D V request \<longleftrightarrow> steady V \<and> chunks_within L c D V \<and>
     (\<exists>root md. br_roots request = [root] \<and> capture_metadata V root = Ok md \<and> entry_kind md = Directory)"

lemma tree_source_bounded: "tree_source L c D V request \<Longrightarrow> source_bounded L c D V"
  by (simp add: tree_source_def source_bounded_def steady_def)

lemma tree_source_valid:
  assumes "tree_source L c D V request"
    and "walk (br_exclusion_rules request) V (br_roots request) = Some (Ok es)"
  shows "sources_valid V (map manifest_entry_from_source es)"
  using assms sources_valid_walk unfolding tree_source_def by auto

record backup_report =
  rp_view :: fs_view
  rp_request :: backup_request
  rp_result :: snapshot_write_result

text \<open>
  \<open>repository_history L c store master D w0 reports w\<close>: from the world \<open>w0\<close> to \<open>w\<close> by backups and
  forget requests; \<open>reports\<close> are the backups that succeeded, oldest first.
\<close>

inductive repository_history ::
  "library \<Rightarrow> backup_pipeline_config \<Rightarrow> 's store_ops \<Rightarrow> master_key \<Rightarrow> bytes set \<Rightarrow> 's world \<Rightarrow>
   backup_report list \<Rightarrow> 's world \<Rightarrow> bool"
  for L c store master D w0 where
  start: "repository_history L c store master D w0 [] w0"
| backed_up: "repository_history L c store master D w0 reports w \<Longrightarrow> source_bounded L c D V \<Longrightarrow>
    write_snapshot L c store V now master request = Some m \<Longrightarrow> m w = (Ok res, w') \<Longrightarrow>
    repository_history L c store master D w0
      (reports @ [\<lparr>rp_view = V, rp_request = request, rp_result = res\<rparr>]) w'"
| failed: "repository_history L c store master D w0 reports w \<Longrightarrow> source_bounded L c D V \<Longrightarrow>
    write_snapshot L c store V now master request = Some m \<Longrightarrow> m w = (Err e, w') \<Longrightarrow>
    repository_history L c store master D w0 reports w'"
| forgot: "repository_history L c store master D w0 reports w \<Longrightarrow>
    write_snapshot_forget_markers L store now ids w = (r, w') \<Longrightarrow>
    repository_history L c store master D w0 reports w'"

text \<open>What a reported backup leaves in the contents for good.\<close>

definition report_kept ::
  "library \<Rightarrow> backup_pipeline_config \<Rightarrow> master_key \<Rightarrow> bytes set \<Rightarrow> backup_report \<Rightarrow> object_map \<Rightarrow> bool" where
  "report_kept L c master D rp m \<longleftrightarrow>
     (\<exists>es m0. walk (br_exclusion_rules (rp_request rp)) (rp_view rp) (br_roots (rp_request rp)) = Some (Ok es) \<and>
        snapshot_published L c master D (rp_view rp) (map manifest_entry_from_source es) m0 (rp_result rp) m)"

lemma report_kept_mono: "m \<subseteq>\<^sub>m m' \<Longrightarrow> report_kept L c master D rp m \<Longrightarrow> report_kept L c master D rp m'"
  unfolding report_kept_def using snapshot_published_mono by blast

context eventual_repository
begin

abbreviation repository_ok ::
  "library \<Rightarrow> backup_pipeline_config \<Rightarrow> master_key \<Rightarrow> bytes set \<Rightarrow> object_map \<Rightarrow> 's world \<Rightarrow> bool" where
  "repository_ok L c master D m0 \<equiv> backup_world L c master D UNIV True (\<lambda>m. m0 \<subseteq>\<^sub>m m)"

lemma repository_ok_iff:
  "backup_world L c master D UNIV True A w \<longleftrightarrow>
     inv (w_store w) \<and> chunk_sound L c master D (contents (w_store w)) \<and> A (contents (w_store w))"
  by (auto simp: backup_world_def commits_known_def commit_known_def)

lemma backup_outcome:
  assumes lib: "library_ok L" and free: "collision_free L c master D" and src: "source_bounded L c D V"
    and run: "write_snapshot L c ops V now master request = Some m" "m w = (r, w')"
    and w: "repository_ok L c master D m0 w"
  shows "repository_ok L c master D m0 w' \<and> contents (w_store w) \<subseteq>\<^sub>m contents (w_store w') \<and>
    (\<forall>res. r = Ok res \<longrightarrow> report_kept L c master D
       \<lparr>rp_view = V, rp_request = request, rp_result = res\<rparr> (contents (w_store w')))"
proof -
  have V: "files_bounded V" "chunks_within L c D V" using src by (simp_all add: source_bounded_def)
  have "inv (w_store w)" "chunk_sound L c master D (contents (w_store w))" "m0 \<subseteq>\<^sub>m contents (w_store w)"
    using w by (simp_all add: repository_ok_iff)
  note out = this(3) write_snapshot_outcome [OF lib free V run this(1,2)]
  have "report_kept L c master D \<lparr>rp_view = V, rp_request = request, rp_result = res\<rparr> (contents (w_store w'))"
    if "r = Ok res" for res
    using out(2) that by (simp add: report_kept_def) blast
  then show ?thesis
    using out map_le_trans [OF out(1)] by (simp add: repository_ok_iff)
qed

lemma history_invariant:
  assumes lib: "library_ok L" and free: "collision_free L c master D"
    and w0: "inv (w_store w0)" "chunk_sound L c master D (contents (w_store w0))"
    and run: "repository_history L c ops master D w0 reports w"
  shows "repository_ok L c master D (contents (w_store w0)) w \<and>
    (\<forall>rp \<in> set reports. report_kept L c master D rp (contents (w_store w)))"
  using run
proof induction
  case start
  then show ?case using w0 by (simp add: repository_ok_iff)
next
  case (backed_up reports w V now request m res w')
  note out = backup_outcome [OF lib free backed_up.hyps(2-4) backed_up.IH [THEN conjunct1]]
  have "report_kept L c master D rp (contents (w_store w'))"
    if "rp \<in> set (reports @ [\<lparr>rp_view = V, rp_request = request, rp_result = res\<rparr>])" for rp
    using that backed_up.IH out report_kept_mono by auto
  then show ?case using out by blast
next
  case (failed reports w V now request m e w')
  note out = backup_outcome [OF lib free failed.hyps(2-4) failed.IH [THEN conjunct1]]
  then show ?case using failed.IH report_kept_mono by blast
next
  case (forgot reports w now ids r w')
  let ?above = "\<lambda>m. contents (w_store w0) \<subseteq>\<^sub>m m \<and> contents (w_store w) \<subseteq>\<^sub>m m"
  let ?W = "backup_world L c master D UNIV True ?above"
  have above: "?W w" using forgot.IH by (simp add: repository_ok_iff)
  have "triple ?W (write_snapshot_forget_markers L ops now ids) (\<lambda>_. ?W) ?W"
    by (intro triple_write_forget_markers upward_conj upward_above)
  note writes = tripleD [OF this above]
  have after: "?W w'"
    by (cases r) (use writes forgot.hyps(2) in simp_all)
  then have "contents (w_store w) \<subseteq>\<^sub>m contents (w_store w')" by (simp add: repository_ok_iff)
  then show ?case
    using forgot.IH after report_kept_mono by (auto simp: repository_ok_iff)
qed

end

lemma entries_match:
  "map without_chunks xs = map manifest_entry_from_source es \<Longrightarrow>
    list_all2 (\<lambda>x e. me_relative_path x = se_relative_path e \<and> me_path x = se_path e \<and>
      me_metadata x = se_metadata e) xs es"
proof (induction xs arbitrary: es)
  case (Cons x xs)
  then obtain e es' where "es = e # es'" "without_chunks x = manifest_entry_from_source e"
      "map without_chunks xs = map manifest_entry_from_source es'"
    by (cases es) auto
  then show ?case using Cons.IH by (cases x) (simp add: manifest_entry_from_source_def)
qed simp

text \<open>
  Restoring a kept report gives the bytes that its files had, if the restore accepts its entries, and it does so
  just when the entries of the walk are one tree with the recorded sizes.
\<close>

abbreviation files_of_walk :: "backup_report \<Rightarrow> source_entry list \<Rightarrow> restore_content_result \<Rightarrow> bool" where
  "files_of_walk rp es rc \<equiv>
     list_all2 (\<lambda>f e. rf_relative_path f = se_relative_path e \<and>
        fs_read (rp_view rp) (se_path e) = Ok (rf_contents f) \<and> rf_modified f = modified (se_metadata e))
      (rc_files rc) (filter (\<lambda>e. entry_kind (se_metadata e) = RegularFile) es)"

lemma report_restores:
  assumes kept: "report_kept L c master D rp m" and sound: "chunk_sound L c master D m"
    and free: "collision_free L c master D"
  shows "\<exists>es r. walk (br_exclusion_rules (rp_request rp)) (rp_view rp) (br_roots (rp_request rp)) = Some (Ok es) \<and>
    restore_snapshot_contents L c map_store_ops master (wr_snapshot_id (rp_result rp)) [] (map_world m n) =
      (r, map_world m n) \<and>
    ((\<exists>rc. r = Ok rc) \<longleftrightarrow> sources_valid (rp_view rp) (map manifest_entry_from_source es)) \<and>
    (\<forall>rc. r = Ok rc \<longrightarrow> files_of_walk rp es rc)"
proof -
  let ?run = "restore_snapshot_contents L c map_store_ops master (wr_snapshot_id (rp_result rp)) [] (map_world m n)"
  obtain es m0 where es: "walk (br_exclusion_rules (rp_request rp)) (rp_view rp) (br_roots (rp_request rp)) = Some (Ok es)"
    and pub: "snapshot_published L c master D (rp_view rp) (map manifest_entry_from_source es) m0 (rp_result rp) m"
    using kept unfolding report_kept_def by blast
  let ?valid = "sources_valid (rp_view rp) (map manifest_entry_from_source es)"
  obtain manifest where man: "snapshot_complete L c master D m (file_data (rp_view rp)) manifest"
      "sm_snapshot_id manifest = wr_snapshot_id (rp_result rp)"
      "map without_chunks (mb_entries (sm_body manifest)) = map manifest_entry_from_source es"
      "entries_valid (mb_entries (sm_body manifest)) \<longleftrightarrow> ?valid"
    using pub unfolding snapshot_published_def by blast
  have read: "\<exists>b. fs_read (rp_view rp) (se_path e) = Ok b"
    if "e \<in> set es" "entry_kind (se_metadata e) = RegularFile" for e
    using pub that by (auto simp: snapshot_published_def manifest_entry_from_source_def)
  let ?me = "mb_entries (sm_body manifest)"
  have same: "list_all2 (\<lambda>x e. me_relative_path x = se_relative_path e \<and> me_path x = se_path e \<and>
      me_metadata x = se_metadata e) ?me es"
    using man(3) by (rule entries_match)
  have files: "list_all2 (\<lambda>f e. rf_relative_path f = se_relative_path e \<and>
        fs_read (rp_view rp) (se_path e) = Ok (rf_contents f) \<and> rf_modified f = modified (se_metadata e))
      (map (\<lambda>x. \<lparr>rf_relative_path = me_relative_path x, rf_contents = file_data (rp_view rp) x,
         rf_modified = modified (me_metadata x)\<rparr>) (filter (\<lambda>x. entry_kind (me_metadata x) = RegularFile) ?me))
      (filter (\<lambda>e. entry_kind (se_metadata e) = RegularFile) es)"
    using same read
  proof (induction rule: list_all2_induct)
    case (Cons x xs e es)
    then show ?case using Cons.prems [of e]
      by (cases "fs_read (rp_view rp) (se_path e)") (auto simp: file_data_def)
  qed simp
  have "?run = (fst ?run, map_world m n)" by (rule stable_eta [OF stable_restore_snapshot_contents])
  moreover have "?valid" if "fst ?run = Ok rc" for rc
    using restore_needs_valid [of L c master m manifest n rc] man(1,2,4) that calculation
    by (simp add: snapshot_complete_def)
  moreover have "\<exists>rc. fst ?run = Ok rc \<and> files_of_walk rp es rc" if "?valid"
    using restore_complete [OF man(1) _ sound free, of n] man(4) that files unfolding man(2)
    by (simp add: rc_files_restored)
  ultimately show ?thesis
    using es by (intro exI [of _ es] exI [of _ "fst ?run"]) force
qed

section \<open>The statements\<close>

text \<open>
  C1: histories of backups and forget requests. The backups may be of any sources: several roots, single files,
  files whose size has changed after it was recorded. Whatever happened, the snapshot of every reported backup
  restores, if it restores, to exactly the regular files of the walk, with the same relative paths, the bytes
  that were read and the modification times, in the order of the walk. It does restore just when the entries of the
  walk are one tree whose files have the recorded sizes, so always when the source was one directory whose
  files do not change their size. The store may have reads and listings that lag behind.
\<close>

theorem reported_backups_restore:
  assumes store: "eventual_repository ops contents invar usable"
    and lib: "library_ok L" and free: "collision_free L c master D"
    and w0: "invar (w_store w0)" "chunk_sound L c master D (contents (w_store w0))"
    and run: "repository_history L c ops master D w0 reports w" and rp: "rp \<in> set reports"
  shows "\<exists>es r. walk (br_exclusion_rules (rp_request rp)) (rp_view rp) (br_roots (rp_request rp)) = Some (Ok es) \<and>
    restore_snapshot_contents L c map_store_ops master (wr_snapshot_id (rp_result rp)) []
      (map_world (contents (w_store w)) n) = (r, map_world (contents (w_store w)) n) \<and>
    (\<forall>rc. r = Ok rc \<longrightarrow> list_all2 (\<lambda>f e. rf_relative_path f = se_relative_path e \<and>
        fs_read (rp_view rp) (se_path e) = Ok (rf_contents f) \<and> rf_modified f = modified (se_metadata e))
      (rc_files rc) (filter (\<lambda>e. entry_kind (se_metadata e) = RegularFile) es)) \<and>
    ((\<exists>rc. r = Ok rc) \<longleftrightarrow> sources_valid (rp_view rp) (map manifest_entry_from_source es)) \<and>
    (tree_source L c D (rp_view rp) (rp_request rp) \<longrightarrow> (\<exists>rc. r = Ok rc))"
proof -
  note inv = eventual_repository.history_invariant [OF store lib free w0 run]
  have kept: "report_kept L c master D rp (contents (w_store w))" using inv rp by blast
  have sound: "chunk_sound L c master D (contents (w_store w))"
    using inv by (simp add: eventual_repository.repository_ok_iff [OF store])
  show ?thesis using report_restores [OF kept sound free, of n] tree_source_valid by blast
qed

lemma sample_source: "tree_source sample_lib sample_config {[1, 2]} sample_fs sample_request"
  using sample_steady sample_chunks_within sample_root_directory
  by (simp add: tree_source_def sample_request_def)

lemma sample_stored_wf: "bt_wf sample_stored"
  by (simp add: sample_stored_def del: bt_insert.simps)

definition sample_report :: backup_report where
  "sample_report = \<lparr>rp_view = sample_fs, rp_request = sample_request, rp_result = sample_result\<rparr>"

lemma sample_history:
  "repository_history sample_lib sample_config fake_store_ops sample_master {[1, 2]} \<lparr>w_store = [], w_rng = 0\<rparr>
     [sample_report] \<lparr>w_store = sample_stored, w_rng = 3\<rparr>"
  using backed_up [OF start tree_source_bounded [OF sample_source] sample_run sample_write] by (simp add: sample_report_def)

theorem reported_backups_restore_witness:
  "\<exists>es rc. walk [] sample_fs [sample_root] = Some (Ok es) \<and>
    restore_snapshot_contents sample_lib sample_config map_store_ops sample_master (sample_id []) []
      (map_world (bt_get sample_stored) 0) = (Ok rc, map_world (bt_get sample_stored) 0) \<and>
    list_all2 (\<lambda>f e. rf_relative_path f = se_relative_path e \<and>
        fs_read sample_fs (se_path e) = Ok (rf_contents f) \<and> rf_modified f = modified (se_metadata e))
      (rc_files rc) (filter (\<lambda>e. entry_kind (se_metadata e) = RegularFile) es)"
  using reported_backups_restore [OF fake.eventual sample_lib_ok sample_collision_free _ _
      sample_history, of sample_report 0] sample_start sample_source
  by (simp add: sample_report_def sample_request_def sample_result_def) blast

text \<open>
  C2: whatever a backup of any sources returns, success or any error, and wherever it stopped: the store keeps
  everything it held, every chunk object still holds data with the id in its key, and every snapshot that could
  be restored still can. A commit marker that is new belongs to a complete snapshot: its manifest, its index and
  all its chunks are there, and it can be restored just when the entries of the walk are one tree whose files have the
  recorded sizes. So a backup of one steady directory keeps every committed snapshot restorable.
\<close>

theorem backup_never_breaks_repository:
  assumes store: "eventual_repository ops contents invar usable"
    and lib: "library_ok L" and free: "collision_free L c master D" and src: "source_bounded L c D V"
    and run: "write_snapshot L c ops V now master request = Some m" "m w = (r, w')"
    and w: "invar (w_store w)" "chunk_sound L c master D (contents (w_store w))"
  shows "let before = contents (w_store w); after = contents (w_store w') in
    invar (w_store w') \<and> before \<subseteq>\<^sub>m after \<and> chunk_sound L c master D after \<and>
    (\<forall>sid. restorable L c master before sid \<longrightarrow> restorable L c master after sid) \<and>
    (\<forall>sid \<in> committed_ids after - committed_ids before. \<exists>es data manifest.
       walk (br_exclusion_rules request) V (br_roots request) = Some (Ok es) \<and>
       snapshot_complete L c master D after data manifest \<and> sm_snapshot_id manifest = sid \<and>
       (restorable L c master after sid \<longleftrightarrow> sources_valid V (map manifest_entry_from_source es))) \<and>
    (tree_source L c D V request \<longrightarrow> commits_restorable L c master before \<longrightarrow> commits_restorable L c master after)"
proof -
  let ?m = "contents (w_store w)" and ?m' = "contents (w_store w')"
  note out = eventual_repository.write_snapshot_outcome [OF store lib free src [unfolded source_bounded_def, THEN conjunct1]
      src [unfolded source_bounded_def, THEN conjunct2] run w]
  have grown: "?m \<subseteq>\<^sub>m ?m'" and sound: "chunk_sound L c master D ?m'" using out by blast+
  have kept: "restorable L c master ?m' sid" if "restorable L c master ?m sid" for sid
    using restorable_mono [OF grown that] .
  have new: "\<exists>es data manifest. walk (br_exclusion_rules request) V (br_roots request) = Some (Ok es) \<and>
       snapshot_complete L c master D ?m' data manifest \<and> sm_snapshot_id manifest = sid \<and>
       (restorable L c master ?m' sid \<longleftrightarrow> sources_valid V (map manifest_entry_from_source es))"
    if "sid \<in> committed_ids ?m' - committed_ids ?m" for sid
    using out that restorable_complete [OF _ sound free] by metis
  have "restorable L c master ?m' sid"
    if "tree_source L c D V request" "commits_restorable L c master ?m" "sid \<in> committed_ids ?m'" for sid
  proof (cases "sid \<in> committed_ids ?m")
    case True
    then show ?thesis using that(2) kept unfolding commits_restorable_def committed_ids_def by blast
  next
    case False
    then show ?thesis using new [of sid] that tree_source_valid by blast
  qed
  then have "commits_restorable L c master ?m'" if "tree_source L c D V request" "commits_restorable L c master ?m"
    using that unfolding commits_restorable_def committed_ids_def by blast
  then show ?thesis unfolding Let_def using out kept new by blast
qed

theorem backup_never_breaks_repository_witness:
  "bt_wf sample_stored \<and> bt_get [] \<subseteq>\<^sub>m bt_get sample_stored \<and>
    chunk_sound sample_lib sample_config sample_master {[1, 2]} (bt_get sample_stored) \<and>
    commits_restorable sample_lib sample_config sample_master (bt_get sample_stored)"
  using backup_never_breaks_repository [OF fake.eventual sample_lib_ok sample_collision_free
      tree_source_bounded [OF sample_source] sample_run sample_write] sample_start sample_source
  by (simp add: Let_def)

text \<open>
  C3: restoring through a store that meets the contract is restoring from its contents: the store is left
  as it was, and a result it returns is the result over the abstract map, also when the reads of the store lag
  behind. The references of the stored manifests must be keys of the repository.
\<close>

theorem restore_reads_contents:
  assumes store: "eventual_repository ops contents invar usable"
    and w: "invar (w_store w)" "well_keyed L c master (contents (w_store w))"
    and run: "restore_snapshot_contents L c ops master sid paths w = (r, w')"
  shows "invar (w_store w') \<and> contents (w_store w') = contents (w_store w) \<and>
    (\<forall>rc. r = Ok rc \<longrightarrow> restore_snapshot_contents L c map_store_ops master sid paths
       (map_world (contents (w_store w)) (w_rng w)) = (Ok rc, map_world (contents (w_store w)) (w_rng w)))"
  using eventual_repository.simulatesD(1-3)
      [OF store eventual_repository.sim_restore_snapshot_contents [OF store] w run]
  by (auto simp: eventual_repository.view_def [OF store] map_world_def)

theorem restore_reads_contents_witness:
  "bt_wf sample_stored \<and> restore_snapshot_contents sample_lib sample_config map_store_ops sample_master
     (sample_id []) [] (map_world (bt_get sample_stored) 3) = (Ok sample_restored, map_world (bt_get sample_stored) 3)"
  using restore_reads_contents [OF fake.eventual _ _ sample_restore]
    sample_well_keyed sample_stored_wf
  by simp

end
