(* ===== verification/Ferry_Bootstrap.thy ===== *)
theory Ferry_Bootstrap
  imports Ferry_View Ferry_Sample
begin

text \<open>
  Creating and opening a repository (\<open>create_repository\<close>, \<open>open_repository\<close> and
  \<open>add_repository_key_slot\<close> of the core crate): the bootstrap object, the key slots stored in it and
  beside it, and which master key an unlock returns.
\<close>

definition REPOSITORY_MAGIC :: string where "REPOSITORY_MAGIC = ''fileferry''"
definition REPOSITORY_FORMAT_VERSION_V0 :: u16 where
  "REPOSITORY_FORMAT_VERSION_V0 = FORMAT_VERSION_V0"
definition REPOSITORY_ID_BYTES :: nat where "REPOSITORY_ID_BYTES = 32"
definition KEY_SLOT_ID_BYTES :: nat where "KEY_SLOT_ID_BYTES = 32"
definition KEY_SLOT_PREFIX :: string where "KEY_SLOT_PREFIX = ''key-slots''"

record opened_repository =
  or_repository_id :: string
  or_master_key :: master_key
  or_key_slots :: nat

record repository_init_result =
  ri_repository :: opened_repository
  ri_format_version :: u16
  ri_key_slots :: nat
  ri_created :: bool

record key_add_result =
  ka_repository_id :: string
  ka_key_slot_id :: string
  ka_key_slots :: nat
  ka_kdf :: kdf_params

definition bootstrap_object_key :: "core_error + object_key" where
  "bootstrap_object_key = map_err CoreObjectKey (object_key_new ''bootstrap'')"

definition key_slot_object_key :: "string \<Rightarrow> core_error + object_key" where
  "key_slot_object_key key_slot_id =
     map_err CoreObjectKey (object_key_new (KEY_SLOT_PREFIX @ ''/'' @ key_slot_id))"

definition key_slot_prefix :: "core_error + object_key_prefix" where
  "key_slot_prefix = map_err CoreObjectKey (object_key_prefix_new KEY_SLOT_PREFIX)"

section \<open>Stored key slots\<close>

definition from_kdf_params :: "kdf_params \<Rightarrow> stored_kdf_params" where
  "from_kdf_params p =
     \<lparr>sk_algorithm = (case algorithm p of Argon2idV19 \<Rightarrow> StoredArgon2idV19),
      sk_memory_cost_kib = memory_cost_kib p, sk_time_cost = time_cost p, sk_parallelism = parallelism p\<rparr>"

definition to_kdf_params :: "stored_kdf_params \<Rightarrow> core_error + kdf_params" where
  "to_kdf_params p =
     Ok \<lparr>algorithm = (case sk_algorithm p of StoredArgon2idV19 \<Rightarrow> Argon2idV19),
         memory_cost_kib = sk_memory_cost_kib p, time_cost = sk_time_cost p, parallelism = sk_parallelism p\<rparr>"

definition fixed_bytes :: "nat \<Rightarrow> bytes \<Rightarrow> string \<Rightarrow> core_error + bytes" where
  "fixed_bytes n bs reason =
     (if length bs = n then Ok bs else Err (InvalidRepositoryBootstrap reason))"

definition from_key_slot :: "key_slot \<Rightarrow> stored_key_slot" where
  "from_key_slot s =
     \<lparr>ss_kdf = from_kdf_params (kdf s), ss_salt = salt s, ss_nonce = nonce s,
      ss_wrapped_master_key = wrapped_master_key s\<rparr>"

definition to_key_slot :: "stored_key_slot \<Rightarrow> core_error + key_slot" where
  "to_key_slot s =
     bindR (fixed_bytes KDF_SALT_LEN (ss_salt s) ''key slot salt has an invalid length'') (\<lambda>slt.
     bindR (fixed_bytes XCHACHA20_POLY1305_NONCE_LEN (ss_nonce s) ''key slot nonce has an invalid length'') (\<lambda>n.
     bindR (to_kdf_params (ss_kdf s)) (\<lambda>p.
     Ok \<lparr>kdf = p, salt = slt, nonce = n, wrapped_master_key = ss_wrapped_master_key s\<rparr>)))"

section \<open>The bootstrap object\<close>

definition bootstrap_validate :: "repository_bootstrap \<Rightarrow> core_error + unit" where
  "bootstrap_validate b =
     (if rb_magic b \<noteq> REPOSITORY_MAGIC then
        Err (InvalidRepositoryBootstrap ''repository magic is not recognized'')
      else if rb_format_version b \<noteq> REPOSITORY_FORMAT_VERSION_V0 then
        Err (UnsupportedRepositoryFormat (rb_format_version b))
      else if length (rb_repository_id b) \<noteq> REPOSITORY_ID_BYTES * 2 \<or>
          \<not> list_all is_ascii_hexdigit (rb_repository_id b) then
        Err (InvalidRepositoryBootstrap ''repository id is invalid'')
      else if rb_key_slots b = [] then
        Err (InvalidRepositoryBootstrap ''repository has no key slots'')
      else if rb_features b \<noteq> [] then Err UnsupportedRepositoryFeatures
      else Ok ())"

definition bootstrap_get_error :: "storage_error \<Rightarrow> core_error" where
  "bootstrap_get_error source =
     (case source of ObjectNotFound _ \<Rightarrow> RepositoryNotInitialized | _ \<Rightarrow> CoreStorage source)"

definition load_repository_bootstrap ::
  "library \<Rightarrow> 's store_ops \<Rightarrow> ('s world, core_error, repository_bootstrap) prog" where
  "load_repository_bootstrap L store =
     andThen (lift_result bootstrap_object_key) (\<lambda>key.
     andThen (on_store (map_error bootstrap_get_error (get_object store key))) (\<lambda>bs.
     andThen (lift_result (map_err RepositoryBootstrapDecode (from_slice (bootstrap_codec L) bs))) (\<lambda>bootstrap.
     andThen (lift_result (bootstrap_validate bootstrap)) (\<lambda>_. ret bootstrap))))"

section \<open>The slots beside the bootstrap object\<close>

record repository_key_slot =
  ks_object_key :: "object_key option"
  ks_key_slot_id :: "string option"
  ks_stored :: stored_key_slot
  ks_master_key_check :: "string option"

definition verify_master_key ::
  "library \<Rightarrow> repository_key_slot \<Rightarrow> master_key \<Rightarrow> string \<Rightarrow> core_error + unit" where
  "verify_master_key L slot master repository_id =
     (case (ks_object_key slot, ks_key_slot_id slot, ks_master_key_check slot) of
        (Some object_key, Some key_slot_id, Some expected) \<Rightarrow>
          bindR (master_key_check L master repository_id key_slot_id) (\<lambda>actual.
          if actual \<noteq> expected then
            Err (InvalidKeySlot object_key ''key slot does not unlock this repository master key'')
          else Ok ())
      | _ \<Rightarrow> Ok ())"

definition external_slot_validate ::
  "stored_external_key_slot \<Rightarrow> object_key \<Rightarrow> string \<Rightarrow> core_error + unit" where
  "external_slot_validate s key repository_id =
     (if xs_magic s \<noteq> REPOSITORY_MAGIC then
        Err (InvalidKeySlot key ''repository magic is not recognized'')
      else if xs_format_version s \<noteq> REPOSITORY_FORMAT_VERSION_V0 then
        Err (UnsupportedRepositoryFormat (xs_format_version s))
      else if xs_repository_id s \<noteq> repository_id then
        Err (InvalidKeySlot key ''repository id does not match bootstrap'')
      else if length (xs_key_slot_id s) \<noteq> KEY_SLOT_ID_BYTES * 2 \<or>
          \<not> list_all is_ascii_hexdigit (xs_key_slot_id s) then
        Err (InvalidKeySlot key ''key slot id is invalid'')
      else bindR (key_slot_object_key (xs_key_slot_id s)) (\<lambda>expected_key.
        if expected_key \<noteq> key then
          Err (InvalidKeySlot key ''key slot id does not match object key'')
        else if length (xs_master_key_check s) \<noteq> 64 \<or>
            \<not> list_all is_ascii_hexdigit (xs_master_key_check s) then
          Err (InvalidKeySlot key ''master key check is invalid'')
        else Ok ()))"

definition bootstrap_slots :: "repository_bootstrap \<Rightarrow> repository_key_slot list" where
  "bootstrap_slots bootstrap =
     map (\<lambda>stored. \<lparr>ks_object_key = None, ks_key_slot_id = None, ks_stored = stored,
                    ks_master_key_check = None\<rparr>) (rb_key_slots bootstrap)"

definition external_slot ::
  "library \<Rightarrow> 's store_ops \<Rightarrow> string \<Rightarrow> repository_key_slot list \<Rightarrow> object_key \<Rightarrow>
   ('s world, core_error, repository_key_slot list) prog" where
  "external_slot L store repository_id slots key =
     andThen (on_store (map_error CoreStorage (get_object store key))) (\<lambda>bs.
     andThen (lift_result (map_err (KeySlotDecode key) (from_slice (slot_codec L) bs))) (\<lambda>external.
     andThen (lift_result (external_slot_validate external key repository_id)) (\<lambda>_.
     ret (slots @ [\<lparr>ks_object_key = Some key, ks_key_slot_id = Some (xs_key_slot_id external),
                    ks_stored = xs_key_slot external,
                    ks_master_key_check = Some (xs_master_key_check external)\<rparr>]))))"

definition repository_key_slots ::
  "library \<Rightarrow> 's store_ops \<Rightarrow> repository_bootstrap \<Rightarrow>
   ('s world, core_error, repository_key_slot list) prog" where
  "repository_key_slots L store bootstrap =
     andThen (lift_result key_slot_prefix) (\<lambda>p.
     andThen (on_store (map_error CoreStorage (list_prefix store p))) (\<lambda>external_keys.
     for_each (sort external_keys) (external_slot L store (rb_repository_id bootstrap))
       (bootstrap_slots bootstrap)))"

section \<open>Opening, creating, adding a slot\<close>

text \<open>The loop over the slots: the first one that unlocks decides.\<close>

fun unlock_slots ::
  "library \<Rightarrow> string \<Rightarrow> string \<Rightarrow> repository_key_slot list \<Rightarrow> core_error + master_key" where
  "unlock_slots L passphrase repository_id [] = Err (RepositoryUnlock DecryptionFailed)"
| "unlock_slots L passphrase repository_id (slot # slots) =
     bindR (to_key_slot (ks_stored slot)) (\<lambda>key_slot.
     case unlock_master_key (lib_crypto L) passphrase key_slot of
       Ok master \<Rightarrow> bindR (verify_master_key L slot master repository_id) (\<lambda>_. Ok master)
     | Err DecryptionFailed \<Rightarrow> unlock_slots L passphrase repository_id slots
     | Err source \<Rightarrow> Err (RepositoryUnlock source))"

definition open_repository ::
  "library \<Rightarrow> 's store_ops \<Rightarrow> string \<Rightarrow> ('s world, core_error, opened_repository) prog" where
  "open_repository L store passphrase =
     andThen (load_repository_bootstrap L store) (\<lambda>bootstrap.
     andThen (repository_key_slots L store bootstrap) (\<lambda>slots.
     andThen (lift_result (unlock_slots L passphrase (rb_repository_id bootstrap) slots)) (\<lambda>master.
     ret \<lparr>or_repository_id = rb_repository_id bootstrap, or_master_key = master,
          or_key_slots = length slots\<rparr>)))"

definition open_existing ::
  "library \<Rightarrow> 's store_ops \<Rightarrow> string \<Rightarrow> ('s world, core_error, repository_init_result) prog" where
  "open_existing L store passphrase =
     andThen (open_repository L store passphrase) (\<lambda>opened.
     ret \<lparr>ri_repository = opened, ri_format_version = REPOSITORY_FORMAT_VERSION_V0,
          ri_key_slots = or_key_slots opened, ri_created = False\<rparr>)"

definition create_repository ::
  "library \<Rightarrow> 's store_ops \<Rightarrow> string \<Rightarrow> kdf_params \<Rightarrow>
   ('s world, core_error, repository_init_result) prog" where
  "create_repository L store passphrase p =
     andThen (lift_result bootstrap_object_key) (\<lambda>key.
     andThen (on_store (map_error CoreStorage (object_exists store key))) (\<lambda>present.
     if present then open_existing L store passphrase
     else
       andThen (on_rng (random_bytes (lib_crypto L) REPOSITORY_ID_BYTES)) (\<lambda>id_bytes.
       let repository_id = hex_bytes id_bytes in
       andThen (on_rng (map_error Encryption (create_master_key (lib_crypto L) passphrase p))) (\<lambda>(master, slot).
       let bootstrap = \<lparr>rb_magic = REPOSITORY_MAGIC, rb_format_version = REPOSITORY_FORMAT_VERSION_V0,
             rb_repository_id = repository_id, rb_key_slots = [from_key_slot slot], rb_features = []\<rparr> in
       andThen (lift_result (map_err Serialization (to_vec (bootstrap_codec L) bootstrap))) (\<lambda>bs.
       andThen (on_store (map_error CoreStorage (put_if_absent store key bs))) (\<lambda>status.
       case status of
         Created \<Rightarrow>
           ret \<lparr>ri_repository = \<lparr>or_repository_id = repository_id, or_master_key = master, or_key_slots = 1\<rparr>,
                ri_format_version = REPOSITORY_FORMAT_VERSION_V0, ri_key_slots = 1, ri_created = True\<rparr>
       | AlreadyPresent \<Rightarrow> open_existing L store passphrase))))))"

definition add_repository_key_slot ::
  "library \<Rightarrow> 's store_ops \<Rightarrow> string \<Rightarrow> string \<Rightarrow> kdf_params \<Rightarrow>
   ('s world, core_error, key_add_result) prog" where
  "add_repository_key_slot L store current_passphrase new_passphrase p =
     andThen (open_repository L store current_passphrase) (\<lambda>opened.
     andThen (on_rng (map_error Encryption
       (create_key_slot (lib_crypto L) (or_master_key opened) new_passphrase p))) (\<lambda>slot.
     andThen (on_rng (random_bytes (lib_crypto L) KEY_SLOT_ID_BYTES)) (\<lambda>id_bytes.
     let key_slot_id = hex_bytes id_bytes in
     andThen (lift_result (key_slot_object_key key_slot_id)) (\<lambda>object_key.
     andThen (lift_result (master_key_check L (or_master_key opened) (or_repository_id opened) key_slot_id)) (\<lambda>check.
     let stored = \<lparr>xs_magic = REPOSITORY_MAGIC, xs_format_version = REPOSITORY_FORMAT_VERSION_V0,
           xs_repository_id = or_repository_id opened, xs_key_slot_id = key_slot_id,
           xs_key_slot = from_key_slot slot, xs_master_key_check = check\<rparr> in
     andThen (lift_result (map_err Serialization (to_vec (slot_codec L) stored))) (\<lambda>bs.
     andThen (on_store (map_error CoreStorage (put_if_absent store object_key bs))) (\<lambda>status.
     let created = (case status of Created \<Rightarrow> True | AlreadyPresent \<Rightarrow> False) in
     ret \<lparr>ka_repository_id = or_repository_id opened, ka_key_slot_id = key_slot_id,
          ka_key_slots = or_key_slots opened + (if created then 1 else 0), ka_kdf = p\<rparr>)))))))"

section \<open>Genuine slots\<close>

text \<open>What Argon2 documents: with accepted parameters it derives a key of the requested length.\<close>

definition argon2_total :: "crypto_prims \<Rightarrow> bool" where
  "argon2_total P \<longleftrightarrow> (\<forall>mc tc pl pw s. argon2_params_ok P mc tc pl \<longrightarrow>
     (\<exists>out. argon2id_hash P mc tc pl pw s = Some out \<and> length out = SUBKEY_LEN))"

text \<open>The hypotheses on the library that the statements of this theory share.\<close>

definition unlock_lib_ok :: "library \<Rightarrow> bool" where
  "unlock_lib_ok L \<longleftrightarrow> aead_correct (lib_crypto L) \<and> aead_authentic (lib_crypto L) \<and>
     output_lengths (lib_crypto L) \<and> argon2_total (lib_crypto L) \<and>
     codec_ok (bootstrap_codec L) \<and> codec_ok (slot_codec L)"

definition genuine_slot :: "library \<Rightarrow> master_key \<Rightarrow> stored_key_slot \<Rightarrow> bool" where
  "genuine_slot L M s \<longleftrightarrow>
     (\<exists>slot pw p n n'. s = from_key_slot slot \<and> create_key_slot (lib_crypto L) M pw p n = (Ok slot, n'))"

definition opens :: "library \<Rightarrow> string \<Rightarrow> master_key \<Rightarrow> stored_key_slot \<Rightarrow> bool" where
  "opens L pw M s \<longleftrightarrow> (\<exists>slot. to_key_slot s = Ok slot \<and> unlock_master_key (lib_crypto L) pw slot = Ok M)"

lemma create_key_slot_lengths:
  "output_lengths P \<Longrightarrow> create_key_slot P M pw p n = (Ok slot, n') \<Longrightarrow>
    length (salt slot) = KDF_SALT_LEN \<and> length (nonce slot) = XCHACHA20_POLY1305_NONCE_LEN"
  by (auto simp: create_key_slot_def prog_simps random_nonce_def random_bytes_def output_lengths_def)

lemma to_from_key_slot:
  "length (salt slot) = KDF_SALT_LEN \<Longrightarrow> length (nonce slot) = XCHACHA20_POLY1305_NONCE_LEN \<Longrightarrow>
    to_key_slot (from_key_slot slot) = Ok slot"
  by (cases "algorithm (kdf slot)"; cases slot)
    (simp add: to_key_slot_def from_key_slot_def fixed_bytes_def from_kdf_params_def to_kdf_params_def)

text \<open>Unlocking a genuine slot gives the master key it wraps, or a decryption failure.\<close>

lemma genuine_unlock:
  assumes P: "aead_correct P" "aead_authentic P" "argon2_total P"
    and M: "length (expose_master M) = MASTER_KEY_LEN"
    and slot: "create_key_slot P M pw p n = (Ok slot, n')"
  shows "unlock_master_key P pw' slot = Ok M \<or> unlock_master_key P pw' slot = Err DecryptionFailed"
proof -
  obtain wk where slot: "kdf slot = p" "kdf_validate p = Ok ()"
    "derive_passphrase_key P pw (salt slot) p = Ok wk"
    "encrypt_with_key P wk (nonce slot) (expose_master M) (key_slot_aad p (salt slot)) = Ok (wrapped_master_key slot)"
    using slot by (rule create_key_slot_Ok)
  have "argon2_params_ok P (memory_cost_kib p) (time_cost p) (parallelism p)"
    using slot(3) by (simp add: derive_passphrase_key_def split: if_splits)
  then obtain out where out: "argon2id_hash P (memory_cost_kib p) (time_cost p) (parallelism p) (as_bytes pw') (salt slot) = Some out"
      "length out = SUBKEY_LEN"
    using P(3) unfolding argon2_total_def by blast
  then have wk': "derive_passphrase_key P pw' (salt slot) p = Ok (Subkey out)"
    using \<open>argon2_params_ok P (memory_cost_kib p) (time_cost p) (parallelism p)\<close>
    by (simp add: derive_passphrase_key_def)
  let ?d = "decrypt_with_key P (Subkey out) (nonce slot) (wrapped_master_key slot) (key_slot_aad p (salt slot))"
  have "?d = Ok m \<Longrightarrow> m = expose_master M" for m
    using decrypt_with_key_authentic [OF P(2) slot(4)] decrypt_encrypt_with_key [OF P(1) slot(4)]
    by (metis sum.inject(2))
  then have "?d = Ok (expose_master M) \<or> ?d = Err DecryptionFailed"
    using out(2)
    by (cases "xchacha_decrypt P out (nonce slot) (key_slot_aad p (salt slot)) (wrapped_master_key slot)")
      (auto simp: decrypt_with_key_def)
  then show ?thesis
    using slot(1,2) wk' M by (auto simp: unlock_master_key_def master_key_from_secret_slice_def)
qed

lemma genuine_slot_opens:
  assumes "unlock_lib_ok L" and "length (expose_master M) = MASTER_KEY_LEN" and "genuine_slot L M s"
  obtains slot where "to_key_slot s = Ok slot"
    "unlock_master_key (lib_crypto L) pw slot = (if opens L pw M s then Ok M else Err DecryptionFailed)"
proof -
  obtain slot pw0 p n n' where s: "s = from_key_slot slot"
    and created: "create_key_slot (lib_crypto L) M pw0 p n = (Ok slot, n')"
    using assms(3) unfolding genuine_slot_def by blast
  have "to_key_slot s = Ok slot"
    using create_key_slot_lengths [OF _ created] assms(1) unfolding s unlock_lib_ok_def
    by (blast intro: to_from_key_slot)
  moreover from this genuine_unlock [OF _ _ _ assms(2) created, of pw] assms(1)
  have "unlock_master_key (lib_crypto L) pw slot = (if opens L pw M s then Ok M else Err DecryptionFailed)"
    by (auto simp: opens_def unlock_lib_ok_def)
  ultimately show ?thesis by (rule that)
qed

lemma created_slot_opens:
  assumes "unlock_lib_ok L" and "length (expose_master M) = MASTER_KEY_LEN"
    and "create_key_slot (lib_crypto L) M pw p n = (Ok slot, n')"
  shows "genuine_slot L M (from_key_slot slot)" and "opens L pw M (from_key_slot slot)"
proof -
  show "genuine_slot L M (from_key_slot slot)" using assms(3) unfolding genuine_slot_def by blast
  have "to_key_slot (from_key_slot slot) = Ok slot"
    using create_key_slot_lengths [OF _ assms(3)] assms(1) unfolding unlock_lib_ok_def
    by (blast intro: to_from_key_slot)
  moreover have "unlock_master_key (lib_crypto L) pw slot = Ok M"
    using unlock_created_slot [OF _ assms(2,3)] assms(1) by (simp add: unlock_lib_ok_def)
  ultimately show "opens L pw M (from_key_slot slot)" unfolding opens_def by blast
qed

definition slot_ok :: "library \<Rightarrow> master_key \<Rightarrow> string \<Rightarrow> repository_key_slot \<Rightarrow> bool" where
  "slot_ok L M rid s \<longleftrightarrow> genuine_slot L M (ks_stored s) \<and> verify_master_key L s M rid = Ok ()"

lemma unlock_slots_result:
  assumes "unlock_lib_ok L" and "length (expose_master M) = MASTER_KEY_LEN"
    and "\<forall>s \<in> set slots. slot_ok L M rid s"
  shows "unlock_slots L pw rid slots =
    (if \<exists>s \<in> set slots. opens L pw M (ks_stored s) then Ok M else Err (RepositoryUnlock DecryptionFailed))"
  using assms(3)
proof (induction slots)
  case (Cons s slots)
  then have s: "genuine_slot L M (ks_stored s)" "verify_master_key L s M rid = Ok ()"
    by (simp_all add: slot_ok_def)
  obtain slot where slot: "to_key_slot (ks_stored s) = Ok slot"
    "unlock_master_key (lib_crypto L) pw slot =
       (if opens L pw M (ks_stored s) then Ok M else Err DecryptionFailed)"
    using genuine_slot_opens [OF assms(1,2) s(1)] by blast
  then show ?case using Cons s(2) by simp
qed simp

section \<open>Sound repositories\<close>

text \<open>
  \<open>repository_sound L M rid m\<close>: the bootstrap object names the repository \<open>rid\<close> and, like every object
  below \<open>key-slots\<close>, wraps the master key \<open>M\<close>.
\<close>

definition BOOTSTRAP_KEY :: object_key where
  "BOOTSTRAP_KEY = ObjectKey ''bootstrap''"

definition is_slot_key :: "object_key \<Rightarrow> bool" where
  "is_slot_key k \<longleftrightarrow> prefix_contains (ObjectKeyPrefix KEY_SLOT_PREFIX) k"

definition external_ok :: "library \<Rightarrow> master_key \<Rightarrow> string \<Rightarrow> object_key \<Rightarrow> stored_external_key_slot \<Rightarrow> bool" where
  "external_ok L M rid k x \<longleftrightarrow>
     external_slot_validate x k rid = Ok () \<and> genuine_slot L M (xs_key_slot x) \<and>
     master_key_check L M rid (xs_key_slot_id x) = Ok (xs_master_key_check x)"

definition repository_sound :: "library \<Rightarrow> master_key \<Rightarrow> string \<Rightarrow> object_map \<Rightarrow> bool" where
  "repository_sound L M rid m \<longleftrightarrow>
     (\<exists>b boot. m BOOTSTRAP_KEY = Some b \<and> from_slice (bootstrap_codec L) b = Ok boot \<and>
        bootstrap_validate boot = Ok () \<and> rb_repository_id boot = rid \<and>
        (\<forall>s \<in> set (rb_key_slots boot). genuine_slot L M s)) \<and>
     (\<forall>k b. m k = Some b \<longrightarrow> is_slot_key k \<longrightarrow>
        (\<exists>x. from_slice (slot_codec L) b = Ok x \<and> external_ok L M rid k x))"

text \<open>The slots of a repository that a passphrase opens.\<close>

definition passphrase_opens :: "library \<Rightarrow> master_key \<Rightarrow> object_map \<Rightarrow> string \<Rightarrow> bool" where
  "passphrase_opens L M m pw \<longleftrightarrow>
     (\<exists>b boot. m BOOTSTRAP_KEY = Some b \<and> from_slice (bootstrap_codec L) b = Ok boot \<and>
        (\<exists>s \<in> set (rb_key_slots boot). opens L pw M s)) \<or>
     (\<exists>k b x. m k = Some b \<and> is_slot_key k \<and> from_slice (slot_codec L) b = Ok x \<and> opens L pw M (xs_key_slot x))"

lemma slot_segment: "segment_ok KEY_SLOT_PREFIX"
  by (rule lowercase_segment) (simp_all add: KEY_SLOT_PREFIX_def)

lemma bootstrap_object_key_Ok: "bootstrap_object_key = Ok BOOTSTRAP_KEY"
proof -
  have "segment_ok ''bootstrap''" by (rule lowercase_segment) simp_all
  then show ?thesis
    by (simp add: bootstrap_object_key_def map_err_Ok_iff object_key_new_Ok BOOTSTRAP_KEY_def)
qed

lemma key_slot_prefix_Ok: "key_slot_prefix = Ok (ObjectKeyPrefix KEY_SLOT_PREFIX)"
proof -
  have "split_on CHR ''/'' KEY_SLOT_PREFIX = [KEY_SLOT_PREFIX]" by (simp add: KEY_SLOT_PREFIX_def)
  then have "validate_key KEY_SLOT_PREFIX True = Ok ()"
    using slot_segment segments_ok_shape [of KEY_SLOT_PREFIX]
    by (simp add: validate_key_def segment_ok_def)
  then show ?thesis by (simp add: key_slot_prefix_def object_key_prefix_new_def)
qed

lemma key_slot_object_key_Ok:
  "key_slot_object_key kid = Ok k \<Longrightarrow> k = ObjectKey (KEY_SLOT_PREFIX @ ''/'' @ kid) \<and> key_valid k"
  by (auto simp: key_slot_object_key_def map_err_Ok_iff object_key_new_Ok key_valid_def)

lemma bootstrap_key_repo [simp]: "key_valid BOOTSTRAP_KEY" "repo_key BOOTSTRAP_KEY"
proof -
  show "key_valid BOOTSTRAP_KEY"
    using bootstrap_object_key_Ok
    by (simp add: bootstrap_object_key_def map_err_Ok_iff object_key_new_Ok BOOTSTRAP_KEY_def key_valid_def)
  show "repo_key BOOTSTRAP_KEY"
    by (simp add: repo_key_def BOOTSTRAP_KEY_def)
qed

lemma bootstrap_not_slot [simp]: "\<not> is_slot_key BOOTSTRAP_KEY"
  by (simp add: is_slot_key_def BOOTSTRAP_KEY_def prefix_contains_def strip_prefix_str_def KEY_SLOT_PREFIX_def)

lemma slot_object_key_slot: "key_slot_object_key kid = Ok k \<Longrightarrow> is_slot_key k \<and> key_valid k \<and> repo_key k \<and> k \<noteq> BOOTSTRAP_KEY"
proof -
  assume "key_slot_object_key kid = Ok k"
  then have k: "k = ObjectKey (KEY_SLOT_PREFIX @ ''/'' @ kid)" "key_valid k" using key_slot_object_key_Ok by blast+
  then have "is_slot_key k" unfolding is_slot_key_def by (metis prefix_contains_slash)
  moreover have "repo_key k" using k(1) repo_key_under [OF repository_root_mem(3)] by (simp add: KEY_SLOT_PREFIX_def)
  ultimately show ?thesis using k(2) bootstrap_not_slot by metis
qed

section \<open>Opening a sound repository\<close>

lemma external_slots_Ok:
  assumes sound: "\<forall>k \<in> set ks. \<exists>b x. m k = Some b \<and> from_slice (slot_codec L) b = Ok x \<and> external_ok L M rid k x"
  shows "\<exists>slots. for_each ks (external_slot L map_store_ops rid) acc (map_world m n) = (Ok (acc @ slots), map_world m n) \<and>
    (\<forall>s \<in> set slots. slot_ok L M rid s) \<and>
    (\<forall>pw. (\<exists>s \<in> set slots. opens L pw M (ks_stored s)) \<longleftrightarrow>
       (\<exists>k \<in> set ks. \<exists>b x. m k = Some b \<and> from_slice (slot_codec L) b = Ok x \<and> opens L pw M (xs_key_slot x)))"
  using sound
proof (induction ks arbitrary: acc)
  case (Cons k ks)
  then obtain b x where b: "m k = Some b" "from_slice (slot_codec L) b = Ok x" and x: "external_ok L M rid k x"
    by auto
  let ?s = "\<lparr>ks_object_key = Some k, ks_key_slot_id = Some (xs_key_slot_id x), ks_stored = xs_key_slot x,
      ks_master_key_check = Some (xs_master_key_check x)\<rparr>"
  have step: "external_slot L map_store_ops rid acc k (map_world m n) = (Ok (acc @ [?s]), map_world m n)" for acc
    using b x by (simp add: external_slot_def external_ok_def andThen_def on_store_def map_error_def
        map_store_ops_def map_world_def)
  have ok: "slot_ok L M rid ?s"
    using x by (simp add: slot_ok_def external_ok_def verify_master_key_def)
  obtain slots where "for_each ks (external_slot L map_store_ops rid) (acc @ [?s]) (map_world m n) =
      (Ok ((acc @ [?s]) @ slots), map_world m n)"
    "\<forall>s \<in> set slots. slot_ok L M rid s"
    "\<forall>pw. (\<exists>s \<in> set slots. opens L pw M (ks_stored s)) \<longleftrightarrow>
       (\<exists>k \<in> set ks. \<exists>b x. m k = Some b \<and> from_slice (slot_codec L) b = Ok x \<and> opens L pw M (xs_key_slot x))"
    using Cons.IH [of "acc @ [?s]"] Cons.prems by auto
  then show ?case
    using step ok b by (intro exI [of _ "?s # slots"]) (simp add: andThen_def)
qed simp

lemma open_sound:
  assumes lib: "unlock_lib_ok L" and M: "length (expose_master M) = MASTER_KEY_LEN"
    and sound: "repository_sound L M rid m" and fin: "finite (dom m)"
  shows "(passphrase_opens L M m pw \<longrightarrow> (\<exists>slots. open_repository L map_store_ops pw (map_world m n) =
       (Ok \<lparr>or_repository_id = rid, or_master_key = M, or_key_slots = slots\<rparr>, map_world m n))) \<and>
    (\<not> passphrase_opens L M m pw \<longrightarrow> open_repository L map_store_ops pw (map_world m n) =
       (Err (RepositoryUnlock DecryptionFailed), map_world m n))"
proof -
  obtain b boot where b: "m BOOTSTRAP_KEY = Some b" "from_slice (bootstrap_codec L) b = Ok boot"
      "bootstrap_validate boot = Ok ()" "rb_repository_id boot = rid"
    and boot: "\<forall>s \<in> set (rb_key_slots boot). genuine_slot L M s"
    and ext: "\<forall>k b. m k = Some b \<longrightarrow> is_slot_key k \<longrightarrow> (\<exists>x. from_slice (slot_codec L) b = Ok x \<and> external_ok L M rid k x)"
    using sound unfolding repository_sound_def by blast
  let ?ks = "sorted_list_of_set {k. m k \<noteq> None \<and> prefix_contains (ObjectKeyPrefix KEY_SLOT_PREFIX) k}"
  have "finite {k. m k \<noteq> None \<and> prefix_contains (ObjectKeyPrefix KEY_SLOT_PREFIX) k}"
    by (rule finite_subset [OF _ fin]) auto
  then have ks: "set ?ks = {k. m k \<noteq> None \<and> is_slot_key k}" by (simp add: is_slot_key_def)
  have load: "load_repository_bootstrap L map_store_ops (map_world m n) = (Ok boot, map_world m n)"
    using b by (simp add: load_repository_bootstrap_def bootstrap_object_key_Ok andThen_def on_store_def
        map_error_def map_store_ops_def map_world_def)
  have ext': "\<forall>k \<in> set ?ks. \<exists>b x. m k = Some b \<and> from_slice (slot_codec L) b = Ok x \<and> external_ok L M rid k x"
  proof
    fix k assume "k \<in> set ?ks"
    then obtain b where "m k = Some b" "is_slot_key k" unfolding ks by blast
    then show "\<exists>b x. m k = Some b \<and> from_slice (slot_codec L) b = Ok x \<and> external_ok L M rid k x"
      using ext by blast
  qed
  obtain slots where slots: "for_each ?ks (external_slot L map_store_ops rid) (bootstrap_slots boot) (map_world m n) =
      (Ok (bootstrap_slots boot @ slots), map_world m n)" "\<forall>s \<in> set slots. slot_ok L M rid s"
    "\<And>pw. (\<exists>s \<in> set slots. opens L pw M (ks_stored s)) \<longleftrightarrow>
       (\<exists>k \<in> set ?ks. \<exists>b x. m k = Some b \<and> from_slice (slot_codec L) b = Ok x \<and> opens L pw M (xs_key_slot x))"
    using external_slots_Ok [OF ext', of "bootstrap_slots boot" n] by blast
  have list: "repository_key_slots L map_store_ops boot (map_world m n) = (Ok (bootstrap_slots boot @ slots), map_world m n)"
    using slots(1) b(4) by (simp add: repository_key_slots_def key_slot_prefix_Ok andThen_def on_store_def
        map_error_def map_store_ops_def map_world_def sorted_sort_id)
  have ok: "\<forall>s \<in> set (bootstrap_slots boot @ slots). slot_ok L M rid s"
    using slots(2) boot by (auto simp: bootstrap_slots_def slot_ok_def verify_master_key_def)
  have opened: "(\<exists>s \<in> set (bootstrap_slots boot @ slots). opens L pw M (ks_stored s)) \<longleftrightarrow> passphrase_opens L M m pw"
  proof -
    have "(\<exists>s \<in> set (bootstrap_slots boot). opens L pw M (ks_stored s)) \<longleftrightarrow>
        (\<exists>s \<in> set (rb_key_slots boot). opens L pw M s)"
      by (simp add: bootstrap_slots_def)
    moreover have "(\<exists>s \<in> set (rb_key_slots boot). opens L pw M s) \<longleftrightarrow>
        (\<exists>b boot. m BOOTSTRAP_KEY = Some b \<and> from_slice (bootstrap_codec L) b = Ok boot \<and>
          (\<exists>s \<in> set (rb_key_slots boot). opens L pw M s))"
      using b(1,2) by force
    moreover have "(\<exists>s \<in> set slots. opens L pw M (ks_stored s)) \<longleftrightarrow>
        (\<exists>k b x. m k = Some b \<and> is_slot_key k \<and> from_slice (slot_codec L) b = Ok x \<and> opens L pw M (xs_key_slot x))"
      unfolding slots(3) ks by blast
    ultimately show ?thesis unfolding passphrase_opens_def set_append bex_Un by blast
  qed
  show ?thesis
    using unlock_slots_result [OF lib M ok, of pw] load list opened b(4)
    by (simp add: open_repository_def andThen_def)
qed

text \<open>A repository that opens to one master key, with the passphrases of its slots and no others.\<close>

definition opens_to :: "library \<Rightarrow> master_key \<Rightarrow> string \<Rightarrow> object_map \<Rightarrow> bool" where
  "opens_to L M rid m \<longleftrightarrow>
     (\<forall>pw n. if passphrase_opens L M m pw
        then \<exists>slots. fst (open_repository L map_store_ops pw (map_world m n)) =
          Ok \<lparr>or_repository_id = rid, or_master_key = M, or_key_slots = slots\<rparr>
        else fst (open_repository L map_store_ops pw (map_world m n)) = Err (RepositoryUnlock DecryptionFailed))"

lemma open_sound_opens_to:
  assumes "unlock_lib_ok L" and "length (expose_master M) = MASTER_KEY_LEN"
    and "repository_sound L M rid m" and "finite (dom m)"
  shows "opens_to L M rid m"
  unfolding opens_to_def
proof (intro allI)
  fix pw n
  show "if passphrase_opens L M m pw
    then \<exists>slots. fst (open_repository L map_store_ops pw (map_world m n)) =
      Ok \<lparr>or_repository_id = rid, or_master_key = M, or_key_slots = slots\<rparr>
    else fst (open_repository L map_store_ops pw (map_world m n)) = Err (RepositoryUnlock DecryptionFailed)"
    using open_sound [OF assms, of pw n] by (cases "passphrase_opens L M m pw") force+
qed

lemma opens_toD:
  assumes "opens_to L M rid m"
  shows "passphrase_opens L M m pw \<Longrightarrow> \<exists>slots. fst (open_repository L map_store_ops pw (map_world m n)) =
      Ok \<lparr>or_repository_id = rid, or_master_key = M, or_key_slots = slots\<rparr>"
    and "fst (open_repository L map_store_ops pw (map_world m n)) = Ok opened \<Longrightarrow>
      or_master_key opened = M \<and> or_repository_id opened = rid \<and> passphrase_opens L M m pw"
proof -
  have "if passphrase_opens L M m pw
    then \<exists>slots. fst (open_repository L map_store_ops pw (map_world m n)) =
      Ok \<lparr>or_repository_id = rid, or_master_key = M, or_key_slots = slots\<rparr>
    else fst (open_repository L map_store_ops pw (map_world m n)) = Err (RepositoryUnlock DecryptionFailed)"
    using assms unfolding opens_to_def by blast
  then show "passphrase_opens L M m pw \<Longrightarrow> \<exists>slots. fst (open_repository L map_store_ops pw (map_world m n)) =
      Ok \<lparr>or_repository_id = rid, or_master_key = M, or_key_slots = slots\<rparr>"
    and "fst (open_repository L map_store_ops pw (map_world m n)) = Ok opened \<Longrightarrow>
      or_master_key opened = M \<and> or_repository_id opened = rid \<and> passphrase_opens L M m pw"
    by (auto split: if_splits)
qed

lemma passphrase_opens_mono: "m \<subseteq>\<^sub>m m' \<Longrightarrow> passphrase_opens L M m pw \<Longrightarrow> passphrase_opens L M m' pw"
  unfolding passphrase_opens_def map_le_def by (metis domI)

text \<open>Only the bootstrap and the key slots matter.\<close>

lemma repository_sound_cong:
  assumes "m BOOTSTRAP_KEY = m' BOOTSTRAP_KEY" and "\<And>k. is_slot_key k \<Longrightarrow> m k = m' k"
  shows "repository_sound L M rid m \<longleftrightarrow> repository_sound L M rid m'"
  using assms unfolding repository_sound_def by auto

lemma passphrase_opens_cong:
  assumes "m BOOTSTRAP_KEY = m' BOOTSTRAP_KEY" and "\<And>k. is_slot_key k \<Longrightarrow> m k = m' k"
  shows "passphrase_opens L M m pw \<longleftrightarrow> passphrase_opens L M m' pw"
  using assms unfolding passphrase_opens_def by auto

section \<open>Creating a repository, and adding slots\<close>

lemma hex_bytes_hexdigits [simp]: "list_all is_ascii_hexdigit (hex_bytes bs)"
  using set_hex_bytes [of _ bs] hex_digit_ok unfolding list_all_iff by blast

lemma keyed_id_length:
  "output_lengths (lib_crypto L) \<Longrightarrow> master_key_check L M rid kid = Ok check \<Longrightarrow>
    length check = 64 \<and> list_all is_ascii_hexdigit check"
  by (auto simp: master_key_check_def keyed_content_id_def output_lengths_def result_simps)

lemma new_bootstrap_sound:
  assumes lib: "unlock_lib_ok L" and M: "length (expose_master M) = MASTER_KEY_LEN"
    and slot: "create_key_slot (lib_crypto L) M pw p n = (Ok slot, n')"
    and b: "to_vec (bootstrap_codec L)
      \<lparr>rb_magic = REPOSITORY_MAGIC, rb_format_version = REPOSITORY_FORMAT_VERSION_V0,
       rb_repository_id = hex_bytes rid, rb_key_slots = [from_key_slot slot], rb_features = []\<rparr> = Ok b"
    and rid: "length rid = REPOSITORY_ID_BYTES"
    and none: "\<And>k. is_slot_key k \<Longrightarrow> m k = None" and here: "m BOOTSTRAP_KEY = Some b"
  shows "repository_sound L M (hex_bytes rid) m" and "passphrase_opens L M m pw"
proof -
  let ?boot = "\<lparr>rb_magic = REPOSITORY_MAGIC, rb_format_version = REPOSITORY_FORMAT_VERSION_V0,
       rb_repository_id = hex_bytes rid, rb_key_slots = [from_key_slot slot], rb_features = []\<rparr>"
  have dec: "from_slice (bootstrap_codec L) b = Ok ?boot"
    using codec_okD [OF _ b] lib by (simp add: unlock_lib_ok_def)
  have valid: "bootstrap_validate ?boot = Ok ()"
    using rid by (simp add: bootstrap_validate_def)
  note opens = created_slot_opens [OF lib M slot]
  show "repository_sound L M (hex_bytes rid) m"
    unfolding repository_sound_def using here dec valid opens(1) none
    by (intro conjI exI [of _ b] exI [of _ ?boot]) auto
  show "passphrase_opens L M m pw"
    unfolding passphrase_opens_def using here dec opens(2)
    by (intro disjI1 exI [of _ b] exI [of _ ?boot]) simp
qed

text \<open>One more genuine slot keeps a repository sound.\<close>

lemma added_slot_sound:
  assumes lib: "unlock_lib_ok L" and M: "length (expose_master M) = MASTER_KEY_LEN"
    and slot: "create_key_slot (lib_crypto L) M pw p n = (Ok slot, n')"
    and kid: "length kid = KEY_SLOT_ID_BYTES" and k: "key_slot_object_key (hex_bytes kid) = Ok k"
    and check: "master_key_check L M rid (hex_bytes kid) = Ok check"
    and b: "to_vec (slot_codec L)
      \<lparr>xs_magic = REPOSITORY_MAGIC, xs_format_version = REPOSITORY_FORMAT_VERSION_V0,
       xs_repository_id = rid, xs_key_slot_id = hex_bytes kid, xs_key_slot = from_key_slot slot,
       xs_master_key_check = check\<rparr> = Ok b"
    and sound: "repository_sound L M rid m"
  shows "repository_sound L M rid (m(k \<mapsto> b))" and "passphrase_opens L M (m(k \<mapsto> b)) pw"
proof -
  let ?x = "\<lparr>xs_magic = REPOSITORY_MAGIC, xs_format_version = REPOSITORY_FORMAT_VERSION_V0,
       xs_repository_id = rid, xs_key_slot_id = hex_bytes kid, xs_key_slot = from_key_slot slot,
       xs_master_key_check = check\<rparr>"
  note opens = created_slot_opens [OF lib M slot]
  have dec: "from_slice (slot_codec L) b = Ok ?x"
    using codec_okD [OF _ b] lib by (simp add: unlock_lib_ok_def)
  have "external_slot_validate ?x k rid = Ok ()"
    using kid k keyed_id_length [OF _ check] lib
    by (simp add: external_slot_validate_def unlock_lib_ok_def)
  then have x: "external_ok L M rid k ?x" using opens(1) check by (simp add: external_ok_def)
  have k': "is_slot_key k" "k \<noteq> BOOTSTRAP_KEY" using slot_object_key_slot [OF k] by auto
  show "repository_sound L M rid (m(k \<mapsto> b))"
    using sound dec x k'(2) unfolding repository_sound_def by (simp add: eq_commute [of BOOTSTRAP_KEY])
  show "passphrase_opens L M (m(k \<mapsto> b)) pw"
    unfolding passphrase_opens_def using dec opens(2) k'(1)
    by (intro disjI2 exI [of _ k] exI [of _ b] exI [of _ ?x]) simp
qed

text \<open>The state of a fresh repository, after every outcome of its creation.\<close>

definition fresh_repository :: "library \<Rightarrow> string \<Rightarrow> object_map \<Rightarrow> master_key \<Rightarrow> string \<Rightarrow> object_map \<Rightarrow> bool" where
  "fresh_repository L pw m0 M rid m \<longleftrightarrow> m0 \<subseteq>\<^sub>m m \<and> length (expose_master M) = MASTER_KEY_LEN \<and>
     repository_sound L M rid m \<and> passphrase_opens L M m pw"

context repository_store
begin

lemma sim_open_repository:
  "sim (\<lambda>_. True) (open_repository L ops pw) (open_repository L map_store_ops pw)"
proof -
  have load: "sim (\<lambda>_. True) (load_repository_bootstrap L ops) (load_repository_bootstrap L map_store_ops)"
    unfolding load_repository_bootstrap_def bootstrap_object_key_Ok
    by (intro sim_bind_lift sim_bind sim_get sim_ret) auto
  have slot: "sim (\<lambda>_. True) (external_slot L ops rid acc k) (external_slot L map_store_ops rid acc k)"
    if "usable k" for rid acc k
    unfolding external_slot_def
    by (rule sim_bind [OF simulates_get [OF that]]) (assumption | rule sim_rules)+
  have slots: "sim (\<lambda>_. True) (repository_key_slots L ops boot) (repository_key_slots L map_store_ops boot)" for boot
    unfolding repository_key_slots_def
  proof (rule sim_bind_lift)
    fix pr assume "key_slot_prefix = Ok pr"
    then have valid: "listed_prefix pr"
      unfolding key_slot_prefix_def by (rule listed_prefix_mapped) (simp add: KEY_SLOT_PREFIX_def)
    show "sim (\<lambda>_. True)
      (andThen (on_store (map_error CoreStorage (list_prefix ops pr))) (\<lambda>ks.
         for_each (sort ks) (external_slot L ops (rb_repository_id boot)) (bootstrap_slots boot)))
      (andThen (on_store (map_error CoreStorage (list_prefix map_store_ops pr))) (\<lambda>ks.
         for_each (sort ks) (external_slot L map_store_ops (rb_repository_id boot)) (bootstrap_slots boot)))"
      by (rule simulates_list_sorted [of _ _ "\<lambda>ks. for_each ks _ _" "\<lambda>ks. for_each ks _ _", OF valid])
        (rule simulates_for_each, rule slot, blast)
  qed
  show ?thesis
    unfolding open_repository_def
    by (rule sim_bind [OF load], rule sim_bind [OF slots]) (assumption | rule sim_rules)+
qed

text \<open>Whatever slot a passphrase opens, the key it gives is the repository's.\<close>

lemma open_repository_genuine:
  assumes lib: "unlock_lib_ok L" and M: "length (expose_master M) = MASTER_KEY_LEN"
    and w: "inv (w_store w)" "repository_sound L M rid (contents (w_store w))" "finite (dom (contents (w_store w)))"
    and run: "open_repository L ops pw w = (Ok opened, w')"
  shows "or_master_key opened = M \<and> or_repository_id opened = rid \<and>
    inv (w_store w') \<and> contents (w_store w') = contents (w_store w)"
proof -
  have "inv (w_store w')" "view w' = view w" "open_repository L map_store_ops pw (view w) = (Ok opened, view w)"
    using simulatesD [OF sim_open_repository w(1) _ run] by simp_all
  moreover from this open_sound [OF lib M w(2,3), of pw "w_rng w"]
  have "or_master_key opened = M \<and> or_repository_id opened = rid"
    by (cases "passphrase_opens L M (contents (w_store w)) pw") (auto simp: view_def)
  ultimately show ?thesis by (simp add: view_def map_world_def)
qed

lemma triple_open_existing:
  assumes lib: "unlock_lib_ok L" and fin: "\<And>m. A m \<Longrightarrow> finite (dom m)"
    and A: "\<And>m. A m \<Longrightarrow> fresh_repository L pw m0 M rid m"
  shows "triple (holds A) (open_existing L ops pw)
    (\<lambda>res. holds (fresh_repository L pw m0 (or_master_key (ri_repository res)) (or_repository_id (ri_repository res))))
    (holds (\<lambda>m. \<exists>M rid. fresh_repository L pw m0 M rid m))"
proof -
  have genuine: "fresh_repository L pw m0 (or_master_key opened) (or_repository_id opened) m"
    if "A m" "open_repository L map_store_ops pw (map_world m n) = (Ok opened, map_world m n)" for m n opened
  proof -
    have m: "fresh_repository L pw m0 M rid m" using A that(1) .
    then have "length (expose_master M) = MASTER_KEY_LEN" "repository_sound L M rid m"
      by (simp_all add: fresh_repository_def)
    from open_sound [OF lib this fin [OF that(1)], of pw n] that(2)
    have "or_master_key opened = M \<and> or_repository_id opened = rid"
      by (cases "passphrase_opens L M m pw") auto
    then show ?thesis using m by simp
  qed
  have opened: "triple (holds A) (open_repository L ops pw)
    (\<lambda>opened. holds (fresh_repository L pw m0 (or_master_key opened) (or_repository_id opened)))
    (holds (\<lambda>m. \<exists>M rid. fresh_repository L pw m0 M rid m))"
    by (rule triple_conseq [OF triple_reader [OF sim_open_repository, of A L pw]])
      (use A genuine in blast)+
  show ?thesis
    unfolding open_existing_def by (rule triple_andThen [OF opened triple_ret]) simp
qed

lemma triple_create_repository:
  assumes lib: "unlock_lib_ok L" and fin: "finite (dom m0)"
    and none: "m0 BOOTSTRAP_KEY = None" "\<And>k. is_slot_key k \<Longrightarrow> m0 k = None"
  shows "triple (holds (\<lambda>m. m = m0)) (create_repository L ops pw p)
    (\<lambda>res. holds (fresh_repository L pw m0 (or_master_key (ri_repository res)) (or_repository_id (ri_repository res))))
    (holds (\<lambda>m. m = m0 \<or> (\<exists>M rid. fresh_repository L pw m0 M rid m)))"
proof -
  let ?Q = "\<lambda>res. holds (fresh_repository L pw m0 (or_master_key (ri_repository res)) (or_repository_id (ri_repository res)))"
  let ?E = "holds (\<lambda>m. m = m0 \<or> (\<exists>M rid. fresh_repository L pw m0 M rid m))"
  let ?result = "\<lambda>rid M. \<lparr>ri_repository = \<lparr>or_repository_id = hex_bytes rid, or_master_key = M, or_key_slots = 1\<rparr>,
                ri_format_version = REPOSITORY_FORMAT_VERSION_V0, ri_key_slots = 1, ri_created = True\<rparr>"
  let ?boot = "\<lambda>rid slot. \<lparr>rb_magic = REPOSITORY_MAGIC, rb_format_version = REPOSITORY_FORMAT_VERSION_V0,
       rb_repository_id = hex_bytes rid, rb_key_slots = [from_key_slot slot], rb_features = []\<rparr>"
  have usable: "usable BOOTSTRAP_KEY" by (rule repo_usable) simp_all
  have start: "holds (\<lambda>m. m = m0) w \<Longrightarrow> ?E w" for w by simp
  have publish: "triple (holds (\<lambda>m. m = m0))
      (andThen (on_store (map_error CoreStorage (put_if_absent ops BOOTSTRAP_KEY b))) (\<lambda>status.
        case status of Created \<Rightarrow> ret (?result rid M) | AlreadyPresent \<Rightarrow> open_existing L ops pw)) ?Q ?E"
    if rid: "length rid = REPOSITORY_ID_BYTES" and M: "length (expose_master M) = MASTER_KEY_LEN"
      and slot: "create_key_slot (lib_crypto L) M pw p n = (Ok slot, n')"
      and b: "to_vec (bootstrap_codec L) (?boot rid slot) = Ok b" for rid M slot n n' b
  proof -
    let ?m = "m0(BOOTSTRAP_KEY \<mapsto> b)"
    have none': "\<And>k. is_slot_key k \<Longrightarrow> ?m k = None" using none(2) by auto
    have fresh: "fresh_repository L pw m0 M (hex_bytes rid) ?m"
      using M none(1) new_bootstrap_sound [where m = ?m, OF lib M slot b rid none']
      by (auto simp: fresh_repository_def map_le_def dom_def)
    have put: "triple (holds (\<lambda>m. m = m0)) (on_store (map_error CoreStorage (put_if_absent ops BOOTSTRAP_KEY b)))
        (\<lambda>_. holds (\<lambda>m. m = ?m)) ?E"
      by (rule triple_conseq [OF triple_put_object [OF usable, of m0 CoreStorage b]])
        (use none(1) fresh in auto)
    have existing: "triple (holds (\<lambda>m. m = ?m)) (open_existing L ops pw) ?Q ?E"
      by (rule triple_conseq [OF triple_open_existing [OF lib, of "\<lambda>m. m = ?m" pw m0 M "hex_bytes rid"]])
        (use fin fresh in auto)
    have created: "triple (holds (\<lambda>m. m = ?m)) (ret (?result rid M)) ?Q ?E"
      by (rule triple_ret) (use fresh in auto)
    show ?thesis
    proof (rule triple_andThen [OF put])
      fix status show "triple (holds (\<lambda>m. m = ?m))
        (case status of Created \<Rightarrow> ret (?result rid M) | AlreadyPresent \<Rightarrow> open_existing L ops pw) ?Q ?E"
        using existing created by (cases status) simp_all
    qed
  qed
  have generated: "length (expose_master M) = MASTER_KEY_LEN \<and> (\<exists>n n'. create_key_slot (lib_crypto L) M pw p n = (Ok slot, n'))"
    if "create_master_key (lib_crypto L) pw p n = (Ok (M, slot), n')" for M slot n n'
    using that lib
    by (auto simp: create_master_key_def master_key_generate_def prog_simps random_bytes_def unlock_lib_ok_def
        output_lengths_def)
  have fresh_id: "length rid = REPOSITORY_ID_BYTES"
    if "random_bytes (lib_crypto L) REPOSITORY_ID_BYTES n = (Ok rid, n')" for rid n n'
    using that lib by (auto simp: random_bytes_def unlock_lib_ok_def output_lengths_def)
  have absent: "triple (holds (\<lambda>m. m = m0))
      (andThen (on_rng (random_bytes (lib_crypto L) REPOSITORY_ID_BYTES)) (\<lambda>rid.
       andThen (on_rng (map_error Encryption (create_master_key (lib_crypto L) pw p))) (\<lambda>(M, slot).
       andThen (lift_result (map_err Serialization (to_vec (bootstrap_codec L) (?boot rid slot)))) (\<lambda>b.
       andThen (on_store (map_error CoreStorage (put_if_absent ops BOOTSTRAP_KEY b))) (\<lambda>status.
        case status of Created \<Rightarrow> ret (?result rid M) | AlreadyPresent \<Rightarrow> open_existing L ops pw))))) ?Q ?E"
  proof (rule triple_bind_rng [OF triple_bind_rng], unfold split_paired_all prod.case)
    fix rid n n' M slot n2 n2'
    assume rid: "random_bytes (lib_crypto L) REPOSITORY_ID_BYTES n = (Ok rid, n')"
      and "map_error Encryption (create_master_key (lib_crypto L) pw p) n2 = (Ok (M, slot), n2')"
    then obtain n3 n3' where "length (expose_master M) = MASTER_KEY_LEN"
        "create_key_slot (lib_crypto L) M pw p n3 = (Ok slot, n3')"
      using generated by (force simp: map_error_Ok_iff)
    note created = publish [OF fresh_id [OF rid] this]
    show "triple (holds (\<lambda>m. m = m0))
      (andThen (lift_result (map_err Serialization (to_vec (bootstrap_codec L) (?boot rid slot)))) (\<lambda>b.
       andThen (on_store (map_error CoreStorage (put_if_absent ops BOOTSTRAP_KEY b))) (\<lambda>status.
        case status of Created \<Rightarrow> ret (?result rid M) | AlreadyPresent \<Rightarrow> open_existing L ops pw))) ?Q ?E"
      by (rule triple_bind_lift, rule created, simp only: map_err_Ok_iff, erule start)
  qed (use start in auto)
  show ?thesis
    unfolding create_repository_def bootstrap_object_key_Ok Let_def andThen_lift_Ok
  proof (rule triple_andThen)
    show "triple (holds (\<lambda>m. m = m0)) (on_store (map_error CoreStorage (object_exists ops BOOTSTRAP_KEY)))
      (\<lambda>e. holds (\<lambda>m. m = m0 \<and> (e \<longleftrightarrow> m BOOTSTRAP_KEY \<noteq> None))) ?E"
      by (rule triple_conseq [OF triple_object_exists [OF usable, where A = "\<lambda>m. m = m0"]]) auto
  next
    fix e
    show "triple (holds (\<lambda>m. m = m0 \<and> (e \<longleftrightarrow> m BOOTSTRAP_KEY \<noteq> None)))
      (if e then open_existing L ops pw else
       andThen (on_rng (random_bytes (lib_crypto L) REPOSITORY_ID_BYTES)) (\<lambda>rid.
       andThen (on_rng (map_error Encryption (create_master_key (lib_crypto L) pw p))) (\<lambda>(M, slot).
       andThen (lift_result (map_err Serialization (to_vec (bootstrap_codec L) (?boot rid slot)))) (\<lambda>b.
       andThen (on_store (map_error CoreStorage (put_if_absent ops BOOTSTRAP_KEY b))) (\<lambda>status.
        case status of Created \<Rightarrow> ret (?result rid M) | AlreadyPresent \<Rightarrow> open_existing L ops pw))))) ?Q ?E"
    proof (cases e)
      case True
      then have "\<not> holds (\<lambda>m. m = m0 \<and> (e \<longleftrightarrow> m BOOTSTRAP_KEY \<noteq> None)) w" for w using none(1) by auto
      then show ?thesis by (intro tripleI) blast+
    next
      case False
      then show ?thesis unfolding if_not_P [OF False] by (intro triple_conseq [OF absent]) auto
    qed
  qed
qed

lemma triple_add_key_slot:
  assumes lib: "unlock_lib_ok L" and M: "length (expose_master M) = MASTER_KEY_LEN"
    and fin: "finite (dom m0)" and sound: "repository_sound L M rid m0"
  shows "triple (holds (\<lambda>m. m = m0)) (add_repository_key_slot L ops pw new_pw p)
    (\<lambda>res. holds (\<lambda>m. m0 \<subseteq>\<^sub>m m \<and> repository_sound L M rid m \<and> passphrase_opens L M m new_pw \<and> finite (dom m)))
    (holds (\<lambda>m. m0 \<subseteq>\<^sub>m m \<and> repository_sound L M rid m \<and> finite (dom m)))"
proof -
  let ?Q = "\<lambda>res. holds (\<lambda>m. m0 \<subseteq>\<^sub>m m \<and> repository_sound L M rid m \<and> passphrase_opens L M m new_pw \<and> finite (dom m))"
  let ?E = "holds (\<lambda>m. m0 \<subseteq>\<^sub>m m \<and> repository_sound L M rid m \<and> finite (dom m))"
  have start: "holds (\<lambda>m. m = m0) w \<Longrightarrow> ?E w" for w using sound fin by simp
  have genuine: "or_master_key opened = M \<and> or_repository_id opened = rid"
    if "open_repository L map_store_ops pw (map_world m0 n) = (Ok opened, map_world m0 n)" for opened n
    using that open_sound [OF lib M sound fin, of pw n]
    by (cases "passphrase_opens L M m0 pw") auto
  have opened: "triple (holds (\<lambda>m. m = m0)) (open_repository L ops pw)
    (\<lambda>opened. holds (\<lambda>m. m = m0 \<and> or_master_key opened = M \<and> or_repository_id opened = rid)) ?E"
    by (rule triple_conseq [OF triple_reader [OF sim_open_repository, of "\<lambda>m. m = m0" L pw]])
      (use genuine start in auto)
  show ?thesis
    unfolding add_repository_key_slot_def
  proof (rule triple_andThen [OF opened])
    fix opened
    let ?stored = "\<lambda>kid slot check. \<lparr>xs_magic = REPOSITORY_MAGIC, xs_format_version = REPOSITORY_FORMAT_VERSION_V0,
       xs_repository_id = rid, xs_key_slot_id = hex_bytes kid, xs_key_slot = from_key_slot slot,
       xs_master_key_check = check\<rparr>"
    let ?rest = "\<lambda>slot kid. let key_slot_id = hex_bytes kid in
       andThen (lift_result (key_slot_object_key key_slot_id)) (\<lambda>object_key.
       andThen (lift_result (master_key_check L (or_master_key opened) (or_repository_id opened) key_slot_id)) (\<lambda>check.
       let stored = \<lparr>xs_magic = REPOSITORY_MAGIC, xs_format_version = REPOSITORY_FORMAT_VERSION_V0,
           xs_repository_id = or_repository_id opened, xs_key_slot_id = key_slot_id,
           xs_key_slot = from_key_slot slot, xs_master_key_check = check\<rparr> in
       andThen (lift_result (map_err Serialization (to_vec (slot_codec L) stored))) (\<lambda>bs.
       andThen (on_store (map_error CoreStorage (put_if_absent ops object_key bs))) (\<lambda>status.
       let created = (case status of Created \<Rightarrow> True | AlreadyPresent \<Rightarrow> False) in
       ret \<lparr>ka_repository_id = or_repository_id opened, ka_key_slot_id = key_slot_id,
            ka_key_slots = or_key_slots opened + (if created then 1 else 0), ka_kdf = p\<rparr>))))"
    have publish: "triple (holds (\<lambda>m. m = m0)) (?rest slot kid) ?Q ?E"
      if o: "or_master_key opened = M" "or_repository_id opened = rid"
        and slot: "create_key_slot (lib_crypto L) M new_pw p n = (Ok slot, n')"
        and kid: "length kid = KEY_SLOT_ID_BYTES" for slot kid n n'
      unfolding Let_def o
    proof (intro triple_bind_lift start)
      fix k check b
      assume k: "key_slot_object_key (hex_bytes kid) = Ok k"
        and check: "master_key_check L M rid (hex_bytes kid) = Ok check"
        and "map_err Serialization (to_vec (slot_codec L) (?stored kid slot check)) = Ok b"
      then have b: "to_vec (slot_codec L) (?stored kid slot check) = Ok b" by (simp add: map_err_Ok_iff)
      note added = added_slot_sound [OF lib M slot kid k check b sound]
      have k': "usable k" using slot_object_key_slot [OF k] by (intro repo_usable) auto
      have grow: "m0 k = None \<Longrightarrow> m0 \<subseteq>\<^sub>m m0(k \<mapsto> b)" by (auto simp: map_le_def dom_def)
      have same: "m0 k = Some b \<Longrightarrow> m0(k \<mapsto> b) = m0" by auto
      have put: "triple (holds (\<lambda>m. m = m0)) (on_store (map_error CoreStorage (put_if_absent ops k b)))
        (\<lambda>_. holds (\<lambda>m. m0 \<subseteq>\<^sub>m m \<and> m = m0(k \<mapsto> b))) ?E"
        by (rule triple_conseq [OF triple_put_object [OF k', of m0 CoreStorage b]])
          (use grow same sound added(1) fin in auto)
      show "triple (holds (\<lambda>m. m = m0))
        (andThen (on_store (map_error CoreStorage (put_if_absent ops k b))) (\<lambda>status.
         ret \<lparr>ka_repository_id = rid, ka_key_slot_id = hex_bytes kid,
              ka_key_slots = or_key_slots opened +
                (if case status of Created \<Rightarrow> True | AlreadyPresent \<Rightarrow> False then 1 else 0), ka_kdf = p\<rparr>)) ?Q ?E"
        by (rule triple_andThen [OF put triple_ret]) (use added fin in auto)
    qed simp_all
    show "triple (holds (\<lambda>m. m = m0 \<and> or_master_key opened = M \<and> or_repository_id opened = rid))
      (andThen (on_rng (map_error Encryption (create_key_slot (lib_crypto L) (or_master_key opened) new_pw p)))
        (\<lambda>slot. andThen (on_rng (random_bytes (lib_crypto L) KEY_SLOT_ID_BYTES)) (?rest slot))) ?Q ?E"
    proof (cases "or_master_key opened = M \<and> or_repository_id opened = rid")
      case True
      have "triple (holds (\<lambda>m. m = m0))
        (andThen (on_rng (map_error Encryption (create_key_slot (lib_crypto L) (or_master_key opened) new_pw p)))
          (\<lambda>slot. andThen (on_rng (random_bytes (lib_crypto L) KEY_SLOT_ID_BYTES)) (?rest slot))) ?Q ?E"
      proof (rule triple_bind_rng [OF triple_bind_rng])
        fix slot n n' kid n2 n2'
        assume "map_error Encryption (create_key_slot (lib_crypto L) (or_master_key opened) new_pw p) n = (Ok slot, n')"
          and kid: "random_bytes (lib_crypto L) KEY_SLOT_ID_BYTES n2 = (Ok kid, n2' :: nat)"
        then have slot: "create_key_slot (lib_crypto L) M new_pw p n = (Ok slot, n')"
          using True by (simp add: map_error_Ok_iff)
        have "length kid = KEY_SLOT_ID_BYTES"
          using kid lib by (auto simp: random_bytes_def unlock_lib_ok_def output_lengths_def)
        then show "triple (holds (\<lambda>m. m = m0)) (?rest slot kid) ?Q ?E"
          using True slot by (intro publish) auto
      qed (use start in auto)
      then show ?thesis by (rule triple_conseq) simp_all
    next
      case False
      then show ?thesis by (intro tripleI) blast+
    qed
  qed
qed

end

section \<open>A concrete repository\<close>

definition sample_boot_slot :: key_slot where
  "sample_boot_slot =
     \<lparr>kdf = kdf_for_tests, salt = replicate 16 2, nonce = replicate 24 3,
      wrapped_master_key = block (take 32 (as_bytes ''pw'' @ replicate 32 0)) @ block (replicate 24 3) @
        block (key_slot_aad kdf_for_tests (replicate 16 2)) @ replicate 32 1\<rparr>"

definition sample_boot :: repository_bootstrap where
  "sample_boot =
     \<lparr>rb_magic = REPOSITORY_MAGIC, rb_format_version = REPOSITORY_FORMAT_VERSION_V0,
      rb_repository_id = hex_bytes (replicate 32 0), rb_key_slots = [from_key_slot sample_boot_slot],
      rb_features = []\<rparr>"

text \<open>The slot that a run with the passphrase \<open>qw\<close> adds.\<close>

definition sample_added_slot :: key_slot where
  "sample_added_slot =
     \<lparr>kdf = kdf_for_tests, salt = replicate 16 4, nonce = replicate 24 5,
      wrapped_master_key = block (take 32 (as_bytes ''qw'' @ replicate 32 0)) @ block (replicate 24 5) @
        block (key_slot_aad kdf_for_tests (replicate 16 4)) @ replicate 32 1\<rparr>"

definition sample_external_slot :: stored_external_key_slot where
  "sample_external_slot =
     \<lparr>xs_magic = REPOSITORY_MAGIC, xs_format_version = REPOSITORY_FORMAT_VERSION_V0,
      xs_repository_id = hex_bytes (replicate 32 0), xs_key_slot_id = hex_bytes (replicate 32 6),
      xs_key_slot = from_key_slot sample_added_slot,
      xs_master_key_check = (case master_key_check (sample_library no_tables) (MasterKey (replicate 32 1))
        (hex_bytes (replicate 32 0)) (hex_bytes (replicate 32 6)) of Ok check \<Rightarrow> check | Err _ \<Rightarrow> [])\<rparr>"

definition sample_boot_library :: library where
  "sample_boot_library =
     sample_library (no_tables\<lparr>st_bootstraps := [sample_boot], st_slots := [sample_external_slot]\<rparr>)"

definition sample_empty :: "fake_store world" where
  "sample_empty = \<lparr>w_store = [], w_rng = 0\<rparr>"

definition sample_initialized :: "fake_store world" where
  "sample_initialized = \<lparr>w_store = [(BOOTSTRAP_KEY, [])], w_rng = 4\<rparr>"

lemma sample_argon2_total: "argon2_total sample_prims"
  by (auto simp: argon2_total_def SUBKEY_LEN_def min_def)

lemma sample_unlock_lib: "unlock_lib_ok (sample_library t)"
  by (simp add: unlock_lib_ok_def sample_aead_correct sample_aead_authentic sample_output_lengths
      sample_argon2_total table_codec_ok)

lemma sample_boot_lib_ok: "unlock_lib_ok sample_boot_library"
  unfolding sample_boot_library_def by (rule sample_unlock_lib)

lemma sample_create_master:
  "create_master_key sample_prims ''pw'' kdf_for_tests (Suc 0) = (Ok (MasterKey (replicate 32 1), sample_boot_slot), 4)"
  by (simp add: create_master_key_def master_key_generate_def MASTER_KEY_LEN_def create_key_slot_def andThen_def
      random_nonce_def XCHACHA20_POLY1305_NONCE_LEN_def KDF_SALT_LEN_def sample_boot_slot_def
      kdf_validate_def kdf_for_tests_def)

lemma sample_create:
  "create_repository sample_boot_library fake_store_ops ''pw'' kdf_for_tests sample_empty =
     (Ok \<lparr>ri_repository = \<lparr>or_repository_id = hex_bytes (replicate 32 0), or_master_key = MasterKey (replicate 32 1),
            or_key_slots = 1\<rparr>, ri_format_version = REPOSITORY_FORMAT_VERSION_V0, ri_key_slots = 1, ri_created = True\<rparr>,
      sample_initialized)"
  by (simp add: create_repository_def bootstrap_object_key_Ok andThen_def on_store_def on_rng_def map_error_def
      sample_empty_def sample_initialized_def fake_store_ops_def fake_exists_def fake_put_if_absent_def
      sample_boot_library_def REPOSITORY_ID_BYTES_def sample_create_master table_codec_def no_tables_def
      sample_boot_def [symmetric] Let_def)

lemma sample_add:
  "case add_repository_key_slot sample_boot_library fake_store_ops ''pw'' ''qw'' kdf_for_tests sample_initialized of
     (Ok _, _) \<Rightarrow> True | _ \<Rightarrow> False"
  by code_simp

section \<open>Properties\<close>

text \<open>
  C15: initialising an empty store. If it succeeds, the repository wraps the returned master key
  under the passphrase; if it fails or is cut off at any call, the store is still empty or already
  holds such a repository, never a half-made one.
\<close>

theorem repository_creation_safe:
  assumes "repository_store ops contents invar usable" and "unlock_lib_ok L"
    and "invar (w_store w)" and "finite (dom (contents (w_store w)))"
    and "contents (w_store w) BOOTSTRAP_KEY = None"
    and "\<forall>k. is_slot_key k \<longrightarrow> contents (w_store w) k = None"
    and "create_repository L ops pw p w = (r, w')"
  shows "invar (w_store w') \<and>
    (case r of
       Ok res \<Rightarrow> fresh_repository L pw (contents (w_store w)) (or_master_key (ri_repository res))
         (or_repository_id (ri_repository res)) (contents (w_store w'))
     | Err _ \<Rightarrow> contents (w_store w') = contents (w_store w) \<or>
         (\<exists>M rid. fresh_repository L pw (contents (w_store w)) M rid (contents (w_store w'))))"
proof -
  note run = tripleD [OF repository_store.triple_create_repository [OF assms(1,2,4,5), of pw p], of w]
  show ?thesis using run assms(3,6,7) by (cases r) auto
qed

theorem repository_creation_safe_witness:
  "fresh_repository sample_boot_library ''pw'' Map.empty (MasterKey (replicate 32 1))
     (hex_bytes (replicate 32 0)) (bt_get [(BOOTSTRAP_KEY, [])])"
proof -
  have empty: "bt_get [] = Map.empty" by (simp add: fun_eq_iff)
  have lib: "unlock_lib_ok sample_boot_library" unfolding sample_boot_library_def by (rule sample_unlock_lib)
  show ?thesis
    using repository_creation_safe [OF fake.repository_store_axioms lib _ _ _ _ sample_create]
    by (simp add: sample_empty_def sample_initialized_def empty)
qed

text \<open>
  C16: a repository opens to the key it was created with. After a successful creation in an empty store, and
  as long as the bootstrap and the key slots are as they were then: opening over the store returns, if it
  returns, the master key and the id that the creation returned, whatever passphrase it is given; when reads
  succeed the passphrase of the creation does open it, every passphrase without a slot is refused with a
  decryption error, and the contents stay as they are.
\<close>

theorem opening_returns_the_master_key:
  assumes store: "repository_store ops contents invar usable" and lib: "unlock_lib_ok L"
    and empty: "invar (w_store w0)" "finite (dom (contents (w_store w0)))" "contents (w_store w0) BOOTSTRAP_KEY = None"
      "\<forall>k. is_slot_key k \<longrightarrow> contents (w_store w0) k = None"
    and created: "create_repository L ops pw p w0 = (Ok res, w1)"
    and later: "invar (w_store w)" "finite (dom (contents (w_store w)))"
      "contents (w_store w) BOOTSTRAP_KEY = contents (w_store w1) BOOTSTRAP_KEY"
      "\<forall>k. is_slot_key k \<longrightarrow> contents (w_store w) k = contents (w_store w1) k"
    and opened: "open_repository L ops q w = (r, w')"
  shows "let M = or_master_key (ri_repository res); rid = or_repository_id (ri_repository res); m = contents (w_store w) in
    contents (w_store w') = m \<and>
    (\<forall>opened. r = Ok opened \<longrightarrow> or_master_key opened = M \<and> or_repository_id opened = rid) \<and>
    (\<exists>slots. fst (open_repository L map_store_ops pw (map_world m n)) =
       Ok \<lparr>or_repository_id = rid, or_master_key = M, or_key_slots = slots\<rparr>) \<and>
    opens_to L M rid m"
proof -
  let ?M = "or_master_key (ri_repository res)" and ?rid = "or_repository_id (ri_repository res)"
    and ?m = "contents (w_store w)"
  have "fresh_repository L pw (contents (w_store w0)) ?M ?rid (contents (w_store w1))"
    using tripleD(1) [OF repository_store.triple_create_repository [OF store lib empty(2,3), of pw p] _ created] empty(1,4)
    by blast
  then have M: "length (expose_master ?M) = MASTER_KEY_LEN" and sound: "repository_sound L ?M ?rid ?m"
    and pw: "passphrase_opens L ?M ?m pw"
    using repository_sound_cong [of ?m "contents (w_store w1)"] passphrase_opens_cong [of ?m "contents (w_store w1)"] later(3,4)
    by (simp_all add: fresh_repository_def)
  have opens: "opens_to L ?M ?rid ?m" by (rule open_sound_opens_to [OF lib M sound later(2)])
  note sim = eventual_repository.simulatesD [OF repository_store.eventual [OF store]
      repository_store.sim_open_repository [OF store] later(1) _ opened]
  have "contents (w_store w') = ?m"
    using sim(2) by (simp add: eventual_repository.view_def [OF repository_store.eventual [OF store]] map_world_def)
  moreover have "or_master_key opened = ?M \<and> or_repository_id opened = ?rid" if "r = Ok opened" for opened
    using opens_toD(2) [OF opens, of q "w_rng w" opened] sim(3) [OF _ that]
    by (simp add: eventual_repository.view_def [OF repository_store.eventual [OF store]])
  ultimately show ?thesis
    unfolding Let_def using opens opens_toD(1) [OF opens pw] by blast
qed

lemma finite_dom_bt_get: "finite (dom (bt_get m))"
proof (rule finite_subset)
  show "dom (bt_get m) \<subseteq> fst ` set m" using bt_get_None_iff [of m] by (auto simp: dom_def)
qed simp

lemma sample_sound:
  "repository_sound sample_boot_library (MasterKey (replicate 32 1)) (hex_bytes (replicate 32 0))
     (bt_get (w_store sample_initialized)) \<and>
   passphrase_opens sample_boot_library (MasterKey (replicate 32 1)) (bt_get (w_store sample_initialized)) ''pw''"
proof -
  have empty: "bt_get [] = Map.empty" by (simp add: fun_eq_iff)
  have lib: "unlock_lib_ok sample_boot_library" unfolding sample_boot_library_def by (rule sample_unlock_lib)
  have "triple (fake.holds (\<lambda>m. m = Map.empty)) (create_repository sample_boot_library fake_store_ops ''pw'' kdf_for_tests)
    (\<lambda>res. fake.holds (fresh_repository sample_boot_library ''pw'' Map.empty (or_master_key (ri_repository res)) (or_repository_id (ri_repository res))))
    (fake.holds (\<lambda>m. m = Map.empty \<or> (\<exists>M rid. fresh_repository sample_boot_library ''pw'' Map.empty M rid m)))"
    by (rule fake.triple_create_repository [OF lib]) simp_all
  from tripleD(1) [OF this _ sample_create] show ?thesis
    by (simp add: sample_empty_def empty fresh_repository_def MASTER_KEY_LEN_def)
qed

theorem opening_returns_the_master_key_witness:
  "\<exists>slots. fst (open_repository sample_boot_library map_store_ops ''pw''
     (map_world (bt_get (w_store sample_initialized)) 4)) =
     Ok \<lparr>or_repository_id = hex_bytes (replicate 32 0), or_master_key = MasterKey (replicate 32 1), or_key_slots = slots\<rparr>"
proof -
  obtain r w' where run: "open_repository sample_boot_library fake_store_ops ''pw'' sample_initialized = (r, w')"
    by fastforce
  have start: "bt_wf (w_store sample_empty)" "finite (dom (bt_get (w_store sample_empty)))"
    "bt_get (w_store sample_empty) BOOTSTRAP_KEY = None"
    "\<forall>k. is_slot_key k \<longrightarrow> bt_get (w_store sample_empty) k = None" "bt_wf (w_store sample_initialized)"
    by (simp_all add: sample_empty_def sample_initialized_def bt_wf_def dom_def)
  show ?thesis
    using opening_returns_the_master_key [OF fake.repository_store_axioms sample_boot_lib_ok start(1-4) sample_create
        start(5) finite_dom_bt_get refl _ run, of 4]
    unfolding Let_def by simp
qed

text \<open>
  C17: adding a key slot. Whatever happens, the repository keeps all its objects, every passphrase that opened
  it still opens it, and whatever is opened over the store is its one master key; once the call succeeds the
  new passphrase opens the repository to that key as well.
\<close>

theorem added_passphrase_opens:
  assumes store: "repository_store ops contents invar usable" and lib: "unlock_lib_ok L"
    and M: "length (expose_master M) = MASTER_KEY_LEN" and w: "invar (w_store w)"
      "finite (dom (contents (w_store w)))" "repository_sound L M rid (contents (w_store w))"
    and run: "add_repository_key_slot L ops pw new_pw p w = (r, w')"
  shows "contents (w_store w) \<subseteq>\<^sub>m contents (w_store w') \<and> repository_sound L M rid (contents (w_store w')) \<and>
    (\<forall>q n opened. fst (open_repository L map_store_ops q (map_world (contents (w_store w)) n)) = Ok opened \<longrightarrow>
       (\<exists>slots. fst (open_repository L map_store_ops q (map_world (contents (w_store w')) n)) =
          Ok \<lparr>or_repository_id = rid, or_master_key = M, or_key_slots = slots\<rparr>)) \<and>
    (\<forall>res n. r = Ok res \<longrightarrow>
       (\<exists>slots. fst (open_repository L map_store_ops new_pw (map_world (contents (w_store w')) n)) =
          Ok \<lparr>or_repository_id = rid, or_master_key = M, or_key_slots = slots\<rparr>)) \<and>
    (\<forall>q opened w''. open_repository L ops q w' = (Ok opened, w'') \<longrightarrow>
       or_master_key opened = M \<and> or_repository_id opened = rid)"
proof -
  let ?m = "contents (w_store w)" and ?m' = "contents (w_store w')"
  note added = tripleD [OF repository_store.triple_add_key_slot [OF store lib M w(2,3), of pw new_pw p], of w]
  have after: "invar (w_store w')" "?m \<subseteq>\<^sub>m ?m'" "repository_sound L M rid ?m'" "finite (dom ?m')"
    using added w(1) run by (cases r; simp)+
  have new: "passphrase_opens L M ?m' new_pw" if "r = Ok res" for res
    using added(1) w(1) run that by simp
  have before: "opens_to L M rid ?m" by (rule open_sound_opens_to [OF lib M w(3,2)])
  have opens: "opens_to L M rid ?m'" by (rule open_sound_opens_to [OF lib M after(3,4)])
  have "passphrase_opens L M ?m' q"
    if "fst (open_repository L map_store_ops q (map_world ?m n)) = Ok opened" for q n opened
    using opens_toD(2) [OF before that] passphrase_opens_mono [OF after(2)] by blast
  moreover have "or_master_key opened = M \<and> or_repository_id opened = rid"
    if "open_repository L ops q w' = (Ok opened, w'')" for q opened w''
    using repository_store.open_repository_genuine [OF store lib M after(1,3,4) that] by blast
  ultimately show ?thesis
    using after(2,3) opens_toD(1) [OF opens] new by blast
qed

theorem added_passphrase_opens_witness:
  "\<exists>slots. fst (open_repository sample_boot_library map_store_ops ''qw''
     (map_world (bt_get (w_store (snd (add_repository_key_slot sample_boot_library fake_store_ops ''pw'' ''qw''
       kdf_for_tests sample_initialized)))) 0)) =
     Ok \<lparr>or_repository_id = hex_bytes (replicate 32 0), or_master_key = MasterKey (replicate 32 1), or_key_slots = slots\<rparr>"
proof -
  have len: "length (expose_master (MasterKey (replicate 32 1))) = MASTER_KEY_LEN"
    by (simp add: MASTER_KEY_LEN_def)
  have inv: "bt_wf (w_store sample_initialized)" by (simp add: sample_initialized_def bt_wf_def)
  obtain res w' where run: "add_repository_key_slot sample_boot_library fake_store_ops ''pw'' ''qw'' kdf_for_tests
      sample_initialized = (Ok res, w')" using sample_add by (auto split: prod.splits sum.splits)
  show ?thesis
    using added_passphrase_opens [OF fake.repository_store_axioms sample_boot_lib_ok len inv finite_dom_bt_get
        conjunct1 [OF sample_sound] run]
    by (simp add: run)
qed

end
