(* ===== verification/Ferry_Policy.thy ===== *)
theory Ferry_Policy
  imports Ferry_Std "HOL-Library.Signed_Division"
begin

text \<open>
  The retention policy of \<open>crates/fileferry-policy/src/lib.rs\<close>: its rules, the textual
  specification (\<open>FromStr\<close>), the calendar buckets and the plan that keeps or forgets each
  snapshot. The second half gives the declarative reading of a plan (\<open>matching_reasons\<close>) and
  proves that the loops compute it.
\<close>

section \<open>Data\<close>

datatype policy_error =
    EmptyPolicy
  | UnknownRule (error_name: string)
  | MissingValue (error_name: string)
  | DuplicateRule (error_name: string)
  | InvalidCount (error_name: string) (error_value: string)
  | InvalidTag (error_name: string) (error_value: string)

text \<open>\<open>RetentionCount(NonZeroU32)\<close>; every constructor of the program goes through \<open>NonZeroU32::new\<close>.\<close>

datatype retention_count = RetentionCount (count_get: u32)

definition count_ok :: "retention_count \<Rightarrow> bool" where
  "count_ok c \<longleftrightarrow> count_get c \<noteq> 0"

definition retention_count_new :: "u32 \<Rightarrow> policy_error + retention_count" where
  "retention_count_new value =
     (if value \<noteq> 0 then Ok (RetentionCount value)
      else Err (InvalidCount ''count'' (show_nat (unat value))))"

record retention_policy =
  keep_last :: "retention_count option"
  keep_hourly :: "retention_count option"
  keep_daily :: "retention_count option"
  keep_weekly :: "retention_count option"
  keep_monthly :: "retention_count option"
  keep_yearly :: "retention_count option"
  keep_tags :: "string list"

definition retention_policy_default :: retention_policy where
  "retention_policy_default =
     \<lparr> keep_last = None, keep_hourly = None, keep_daily = None, keep_weekly = None,
       keep_monthly = None, keep_yearly = None, keep_tags = [] \<rparr>"

record retention_snapshot =
  ret_snapshot_id :: string
  ret_created_at :: u64
  ret_tags :: "string list"

datatype retention_action = Keep | Forget

record retention_decision =
  dec_snapshot_id :: string
  dec_created_at :: u64
  dec_tags :: "string list"
  dec_action :: retention_action
  dec_reasons :: "string list"

record retention_plan =
  plan_decisions :: "retention_decision list"

definition plan_kept :: "retention_plan \<Rightarrow> retention_decision list" where
  "plan_kept p = filter (\<lambda>d. dec_action d = Keep) (plan_decisions p)"

definition plan_forgotten :: "retention_plan \<Rightarrow> retention_decision list" where
  "plan_forgotten p = filter (\<lambda>d. dec_action d = Forget) (plan_decisions p)"

definition policy_is_empty :: "retention_policy \<Rightarrow> bool" where
  "policy_is_empty p \<longleftrightarrow>
     keep_last p = None \<and> keep_hourly p = None \<and> keep_daily p = None \<and> keep_weekly p = None \<and>
     keep_monthly p = None \<and> keep_yearly p = None \<and> keep_tags p = []"

section \<open>Parsing a policy\<close>

text \<open>\<open>str::split_once(char)\<close>: at the first occurrence.\<close>

definition split_once :: "char \<Rightarrow> string \<Rightarrow> (string \<times> string) option" where
  "split_once c s =
     (case dropWhile (\<lambda>x. x \<noteq> c) s of [] \<Rightarrow> None | _ # rest \<Rightarrow> Some (takeWhile (\<lambda>x. x \<noteq> c) s, rest))"

definition is_ascii_control :: "char \<Rightarrow> bool" where
  "is_ascii_control c \<longleftrightarrow> (of_char c :: nat) < 32 \<or> (of_char c :: nat) = 127"

definition normalize_rule_name :: "string \<Rightarrow> string" where
  "normalize_rule_name name = map (\<lambda>c. if c = CHR ''_'' then CHR ''-'' else c) (trim name)"

definition ensure_unique_scalar ::
  "string list \<Rightarrow> string \<Rightarrow> policy_error + string list" where
  "ensure_unique_scalar seen name =
     (if name \<notin> set seen then Ok (bs_insert name seen) else Err (DuplicateRule name))"

definition parse_count :: "string \<Rightarrow> string \<Rightarrow> policy_error + retention_count" where
  "parse_count name value =
     bindR (ok_or (InvalidCount name value) (parse_unsigned (2 ^ 32 - 1) value)) (\<lambda>parsed.
       if parsed = 0 then Err (InvalidCount name value)
       else Ok (RetentionCount (word_of_nat parsed)))"

definition parse_tag :: "string \<Rightarrow> string \<Rightarrow> policy_error + string" where
  "parse_tag name raw =
     (let value = trim raw in
      if value = [] \<or> CHR 0x00 \<in> set value \<or> CHR '','' \<in> set value \<or> list_ex is_ascii_control value
      then Err (InvalidTag name value) else Ok value)"

definition policy_validate :: "retention_policy \<Rightarrow> policy_error + retention_policy" where
  "policy_validate p =
     (if policy_is_empty p then Err EmptyPolicy
      else bindR (map_result (parse_tag ''keep-tag'') (keep_tags p)) (\<lambda>_. Ok p))"

definition apply_rule ::
  "retention_policy \<times> string list \<Rightarrow> string \<Rightarrow> string \<Rightarrow>
   policy_error + (retention_policy \<times> string list)" where
  "apply_rule st name value =
     (case st of (policy, seen) \<Rightarrow>
        let scalar = (\<lambda>set_field.
              bindR (ensure_unique_scalar seen name) (\<lambda>seen'.
              bindR (parse_count name value) (\<lambda>parsed.
              Ok (set_field (Some parsed) policy, seen')))) in
        if name = ''keep-last'' then scalar (\<lambda>v p. p\<lparr>keep_last := v\<rparr>)
        else if name = ''keep-hourly'' then scalar (\<lambda>v p. p\<lparr>keep_hourly := v\<rparr>)
        else if name = ''keep-daily'' then scalar (\<lambda>v p. p\<lparr>keep_daily := v\<rparr>)
        else if name = ''keep-weekly'' then scalar (\<lambda>v p. p\<lparr>keep_weekly := v\<rparr>)
        else if name = ''keep-monthly'' then scalar (\<lambda>v p. p\<lparr>keep_monthly := v\<rparr>)
        else if name = ''keep-yearly'' then scalar (\<lambda>v p. p\<lparr>keep_yearly := v\<rparr>)
        else if name = ''keep-tag'' then
          bindR (parse_tag name value) (\<lambda>tag. Ok (policy\<lparr>keep_tags := keep_tags policy @ [tag]\<rparr>, seen))
        else Err (UnknownRule name))"

definition parse_rule ::
  "retention_policy \<times> string list \<Rightarrow> string \<Rightarrow> policy_error + (retention_policy \<times> string list)" where
  "parse_rule st raw =
     (let raw_rule = trim raw in
      if raw_rule = [] then Ok st
      else bindR (ok_or (MissingValue raw_rule) (split_once CHR ''='' raw_rule)) (\<lambda>(raw_name, raw_value).
        let name = normalize_rule_name raw_name; value = trim raw_value in
        if value = [] then Err (MissingValue name) else apply_rule st name value))"

definition parse_spec :: "string \<Rightarrow> policy_error + retention_policy" where
  "parse_spec spec =
     bindR (fold_result parse_rule (retention_policy_default, []) (split_on CHR '','' spec)) (\<lambda>(policy, _).
       policy_validate policy)"

section \<open>Calendar buckets\<close>

text \<open>
  All quantities are \<open>i64\<close> and stay far from its bounds, because a day number is a \<open>u64\<close> number
  of seconds divided by 86400; Rust's division truncates (\<open>sdiv\<close>). Only the cast of the year to
  \<open>i32\<close> can change a value.
\<close>

definition civil_from_days :: "int \<Rightarrow> int \<times> int \<times> int" where
  "civil_from_days days_since_unix_epoch =
     (let z = days_since_unix_epoch + 719468;
          era = (if z \<ge> 0 then z else z - 146096) sdiv 146097;
          day_of_era = z - era * 146097;
          year_of_era = (day_of_era - day_of_era sdiv 1460 + day_of_era sdiv 36524
                           - day_of_era sdiv 146096) sdiv 365;
          year = year_of_era + era * 400;
          day_of_year = day_of_era - (365 * year_of_era + year_of_era sdiv 4 - year_of_era sdiv 100);
          month_param = (5 * day_of_year + 2) sdiv 153;
          day = day_of_year - (153 * month_param + 2) sdiv 5 + 1;
          month = month_param + (if month_param < 10 then 3 else - 9);
          year = year + (if month \<le> 2 then 1 else 0)
      in (signed_take_bit 31 year, take_bit 32 month, take_bit 32 day))"

definition civil_from_unix_seconds :: "u64 \<Rightarrow> int \<times> int \<times> int" where
  "civil_from_unix_seconds seconds = civil_from_days (sint (seconds div 86400))"

definition hour_bucket :: "retention_snapshot \<Rightarrow> int" where
  "hour_bucket s = sint (ret_created_at s div 3600)"

definition day_bucket :: "retention_snapshot \<Rightarrow> int" where
  "day_bucket s = sint (ret_created_at s div 86400)"

definition week_bucket :: "retention_snapshot \<Rightarrow> int" where
  "week_bucket s = sint (ret_created_at s div 604800)"

definition month_bucket :: "retention_snapshot \<Rightarrow> int" where
  "month_bucket s =
     (case civil_from_unix_seconds (ret_created_at s) of (year, month, _) \<Rightarrow> year * 12 + month)"

definition year_bucket :: "retention_snapshot \<Rightarrow> int" where
  "year_bucket s = (case civil_from_unix_seconds (ret_created_at s) of (year, _, _) \<Rightarrow> year)"

section \<open>Planning\<close>

type_synonym reason_map = "(string, string list) btree_map"

definition keep_reason :: "reason_map \<Rightarrow> retention_snapshot \<Rightarrow> string \<Rightarrow> reason_map" where
  "keep_reason m s reason =
     (let old = (case bt_get m (ret_snapshot_id s) of None \<Rightarrow> [] | Some rs \<Rightarrow> rs) in
      bt_insert (ret_snapshot_id s) (bs_insert reason old) m)"

fun periodic_loop ::
  "(retention_snapshot \<Rightarrow> int) \<Rightarrow> nat \<Rightarrow> string \<Rightarrow> int list \<Rightarrow> retention_snapshot list \<Rightarrow>
   reason_map \<Rightarrow> reason_map" where
  "periodic_loop bucket limit reason kept [] m = m"
| "periodic_loop bucket limit reason kept (s # ss) m =
     (if bucket s \<in> set kept then periodic_loop bucket limit reason kept ss m
      else let kept' = bs_insert (bucket s) kept; m' = keep_reason m s reason in
        if limit \<le> length kept' then m' else periodic_loop bucket limit reason kept' ss m')"

definition keep_periodic ::
  "retention_snapshot list \<Rightarrow> retention_count option \<Rightarrow> string \<Rightarrow> (retention_snapshot \<Rightarrow> int) \<Rightarrow>
   reason_map \<Rightarrow> reason_map" where
  "keep_periodic ordered limit reason bucket m =
     (case limit of None \<Rightarrow> m
      | Some c \<Rightarrow> periodic_loop bucket (unat (count_get c)) reason [] ordered m)"

definition keep_latest ::
  "retention_snapshot list \<Rightarrow> retention_count option \<Rightarrow> reason_map \<Rightarrow> reason_map" where
  "keep_latest ordered limit m =
     (case limit of None \<Rightarrow> m
      | Some c \<Rightarrow> fold (\<lambda>s m. keep_reason m s ''keep-last'') (take (unat (count_get c)) ordered) m)"

definition keep_tagged :: "retention_snapshot list \<Rightarrow> string \<Rightarrow> reason_map \<Rightarrow> reason_map" where
  "keep_tagged ordered tag m =
     fold (\<lambda>s m. keep_reason m s (''keep-tag:'' @ tag)) (filter (\<lambda>s. tag \<in> set (ret_tags s)) ordered) m"

definition not_matched :: string where
  "not_matched = ''not-matched-by-keep-rule''"

definition decision_of :: "retention_snapshot \<Rightarrow> string list option \<Rightarrow> retention_decision" where
  "decision_of s found =
     (let reasons = (case found of Some rs \<Rightarrow> rs | None \<Rightarrow> [not_matched]) in
      \<lparr> dec_snapshot_id = ret_snapshot_id s, dec_created_at = ret_created_at s,
        dec_tags = ret_tags s,
        dec_action = (if not_matched \<in> set reasons then Forget else Keep),
        dec_reasons = reasons \<rparr>)"


text \<open>The reasons are moved out of the map: a second snapshot with the same id finds none.\<close>

fun decide :: "retention_snapshot list \<Rightarrow> reason_map \<Rightarrow> retention_decision list" where
  "decide [] m = []"
| "decide (s # ss) m =
     decision_of s (bt_get m (ret_snapshot_id s)) # decide ss (bt_remove (ret_snapshot_id s) m)"

definition newest_first :: "retention_snapshot list \<Rightarrow> retention_snapshot list" where
  "newest_first ss = sort_desc (\<lambda>s. (ret_created_at s, ret_snapshot_id s)) ss"

definition collect_reasons :: "retention_policy \<Rightarrow> retention_snapshot list \<Rightarrow> reason_map" where
  "collect_reasons p ordered =
     (let m = keep_latest ordered (keep_last p) [];
          m = keep_periodic ordered (keep_hourly p) ''keep-hourly'' hour_bucket m;
          m = keep_periodic ordered (keep_daily p) ''keep-daily'' day_bucket m;
          m = keep_periodic ordered (keep_weekly p) ''keep-weekly'' week_bucket m;
          m = keep_periodic ordered (keep_monthly p) ''keep-monthly'' month_bucket m;
          m = keep_periodic ordered (keep_yearly p) ''keep-yearly'' year_bucket m
      in fold (keep_tagged ordered) (keep_tags p) m)"

definition plan :: "retention_policy \<Rightarrow> retention_snapshot list \<Rightarrow> retention_plan" where
  "plan p snapshots =
     (let ordered = newest_first snapshots in
      \<lparr> plan_decisions = decide ordered (collect_reasons p ordered) \<rparr>)"

section \<open>What a plan means\<close>

text \<open>
  \<open>periodic_match bucket n ordered s\<close>: \<open>s\<close> opens a new bucket, and fewer than \<open>n\<close> buckets were
  opened by the snapshots before it.
\<close>

definition periodic_match ::
  "(retention_snapshot \<Rightarrow> int) \<Rightarrow> nat \<Rightarrow> retention_snapshot list \<Rightarrow> retention_snapshot \<Rightarrow> bool" where
  "periodic_match bucket n ordered s \<longleftrightarrow>
     (let before = takeWhile (\<lambda>x. x \<noteq> s) ordered in
      s \<in> set ordered \<and> bucket s \<notin> bucket ` set before \<and> card (bucket ` set before) < n)"

definition count_rule :: "retention_count option \<Rightarrow> (nat \<Rightarrow> bool) \<Rightarrow> string \<Rightarrow> string set" where
  "count_rule c applies reason =
     (case c of None \<Rightarrow> {} | Some k \<Rightarrow> if applies (unat (count_get k)) then {reason} else {})"

definition matching_reasons ::
  "retention_policy \<Rightarrow> retention_snapshot list \<Rightarrow> retention_snapshot \<Rightarrow> string set" where
  "matching_reasons p ordered s =
     count_rule (keep_last p) (\<lambda>n. s \<in> set (take n ordered)) ''keep-last'' \<union>
     count_rule (keep_hourly p) (\<lambda>n. periodic_match hour_bucket n ordered s) ''keep-hourly'' \<union>
     count_rule (keep_daily p) (\<lambda>n. periodic_match day_bucket n ordered s) ''keep-daily'' \<union>
     count_rule (keep_weekly p) (\<lambda>n. periodic_match week_bucket n ordered s) ''keep-weekly'' \<union>
     count_rule (keep_monthly p) (\<lambda>n. periodic_match month_bucket n ordered s) ''keep-monthly'' \<union>
     count_rule (keep_yearly p) (\<lambda>n. periodic_match year_bucket n ordered s) ''keep-yearly'' \<union>
     (\<lambda>tag. ''keep-tag:'' @ tag) ` (set (keep_tags p) \<inter> set (ret_tags s))"

definition policy_counts_ok :: "retention_policy \<Rightarrow> bool" where
  "policy_counts_ok p \<longleftrightarrow>
     (\<forall>c \<in> {keep_last p, keep_hourly p, keep_daily p, keep_weekly p, keep_monthly p, keep_yearly p}.
        case c of None \<Rightarrow> True | Some k \<Rightarrow> count_ok k)"

section \<open>The collected reasons\<close>

definition reasons_at :: "reason_map \<Rightarrow> string \<Rightarrow> string set" where
  "reasons_at m k = (case bt_get m k of None \<Rightarrow> {} | Some rs \<Rightarrow> set rs)"

definition reasons_wf :: "reason_map \<Rightarrow> bool" where
  "reasons_wf m \<longleftrightarrow> bt_wf m \<and> (\<forall>k rs. bt_get m k = Some rs \<longrightarrow> rs \<noteq> [] \<and> sorted_wrt (<) rs)"

lemma reasons_at_Nil: "reasons_at [] k = {}"
  by (simp add: reasons_at_def)

lemma reasons_at_keep [simp]:
  "reasons_at (keep_reason m s r) k =
     (if k = ret_snapshot_id s then insert r (reasons_at m k) else reasons_at m k)"
  by (auto simp: reasons_at_def keep_reason_def Let_def split: option.splits)

lemma reasons_wf_keep: "reasons_wf m \<Longrightarrow> reasons_wf (keep_reason m s r)"
proof -
  assume wf: "reasons_wf m"
  let ?old = "case bt_get m (ret_snapshot_id s) of None \<Rightarrow> [] | Some rs \<Rightarrow> rs"
  have "sorted_wrt (<) ?old" using wf by (auto simp: reasons_wf_def split: option.splits)
  then have "sorted_wrt (<) (bs_insert r ?old)"
    by (simp add: strict_sorted_iff sorted_bs_insert distinct_bs_insert)
  moreover have "bs_insert r ?old \<noteq> []"
    by (metis set_bs_insert empty_set insert_not_empty)
  ultimately show ?thesis
    using wf by (auto simp: reasons_wf_def keep_reason_def Let_def)
qed

lemma fold_keep_reasons_at:
  "reasons_at (fold (\<lambda>s m. keep_reason m s r) ss m) k =
     reasons_at m k \<union> (if k \<in> ret_snapshot_id ` set ss then {r} else {})"
  by (induction ss arbitrary: m) auto

lemma fold_reasons_wf:
  "reasons_wf m \<Longrightarrow> (\<And>x m. reasons_wf m \<Longrightarrow> reasons_wf (f x m)) \<Longrightarrow> reasons_wf (fold f xs m)"
  by (induction xs arbitrary: m) auto

lemma periodic_loop_wf:
  "reasons_wf m \<Longrightarrow> reasons_wf (periodic_loop bucket n r kept ss m)"
  by (induction bucket n r kept ss m rule: periodic_loop.induct) (auto simp: Let_def reasons_wf_keep)

lemma keep_periodic_wf: "reasons_wf m \<Longrightarrow> reasons_wf (keep_periodic ordered c r bucket m)"
  by (simp add: keep_periodic_def periodic_loop_wf split: option.splits)

lemma collect_reasons_wf: "reasons_wf (collect_reasons p ordered)"
proof -
  have base: "reasons_wf []" by (simp add: reasons_wf_def)
  have "reasons_wf (keep_latest ordered c m)" if "reasons_wf m" for c m
    using that by (simp add: keep_latest_def fold_reasons_wf reasons_wf_keep split: option.splits)
  moreover have "reasons_wf (keep_tagged ordered t m)" if "reasons_wf m" for t m
    using that by (simp add: keep_tagged_def fold_reasons_wf reasons_wf_keep)
  ultimately show ?thesis
    by (simp add: collect_reasons_def Let_def base keep_periodic_wf fold_reasons_wf)
qed

lemma length_bs_insert: "length (bs_insert x kept) = (if x \<in> set kept then length kept else Suc (length kept))"
  by (simp add: bs_insert_def insort_insert_key_def)

lemma periodic_loop_frame:
  "k \<notin> ret_snapshot_id ` set ss \<Longrightarrow> reasons_at (periodic_loop bucket n r kept ss m) k = reasons_at m k"
  by (induction bucket n r kept ss m rule: periodic_loop.induct) (auto simp: Let_def)

lemma periodic_match_late:
  assumes "s \<notin> set past" and "s \<in> set ss" and "n \<le> card (bucket ` set past)"
  shows "\<not> periodic_match bucket n (past @ ss) s"
proof -
  have "takeWhile (\<lambda>y. y \<noteq> s) (past @ ss) = past @ takeWhile (\<lambda>y. y \<noteq> s) ss"
    using assms(1) by (subst takeWhile_append2) auto
  then have "bucket ` set past \<subseteq> bucket ` set (takeWhile (\<lambda>y. y \<noteq> s) (past @ ss))" by auto
  then have "n \<le> card (bucket ` set (takeWhile (\<lambda>y. y \<noteq> s) (past @ ss)))"
    using assms(3) card_mono [of "bucket ` set (takeWhile (\<lambda>y. y \<noteq> s) (past @ ss))"]
    by (meson List.finite_set finite_imageI le_trans)
  then show ?thesis by (simp add: periodic_match_def Let_def)
qed

text \<open>The loop after it went through \<open>past\<close>, with \<open>kept\<close> the buckets that \<open>past\<close> opened.\<close>

lemma periodic_loop_reasons:
  assumes "distinct (map ret_snapshot_id (past @ ss))"
    and "set kept = bucket ` set past" and "distinct kept" and "length kept < n"
    and "s \<in> set ss"
  shows "reasons_at (periodic_loop bucket n r kept ss m) (ret_snapshot_id s) =
    reasons_at m (ret_snapshot_id s) \<union> (if periodic_match bucket n (past @ ss) s then {r} else {})"
  using assms
proof (induction bucket n r kept ss m arbitrary: past rule: periodic_loop.induct)
  case (2 bucket n r kept x ss m)
  have x_new: "x \<notin> set past" using "2.prems"(1) by auto
  have len: "length kept = card (bucket ` set past)"
    using "2.prems"(2,3) by (metis distinct_card)
  have before_x: "takeWhile (\<lambda>y. y \<noteq> x) (past @ x # ss) = past"
    using x_new by (subst takeWhile_append2) auto
  have match_x: "periodic_match bucket n (past @ x # ss) x \<longleftrightarrow> bucket x \<notin> set kept"
    using "2.prems"(2,4) len before_x by (simp add: periodic_match_def Let_def)
  have frame: "ret_snapshot_id x \<notin> ret_snapshot_id ` set ss" using "2.prems"(1) by auto
  have other: "s \<in> set ss \<and> ret_snapshot_id s \<noteq> ret_snapshot_id x" if "s \<noteq> x"
    using "2.prems"(5) that frame by (metis imageI set_ConsD)
  have dist: "distinct (map ret_snapshot_id ((past @ [x]) @ ss))" using "2.prems"(1) by simp
  show ?case
  proof (cases "bucket x \<in> set kept")
    case True
    have opened: "set kept = bucket ` set (past @ [x])" using True "2.prems"(2) by auto
    show ?thesis
    proof (cases "s = x")
      case True
      then show ?thesis using \<open>bucket x \<in> set kept\<close> match_x frame by (simp add: periodic_loop_frame)
    next
      case False
      then show ?thesis
        using "2.IH"(1) [OF True dist opened "2.prems"(3,4)] True other by simp
    qed
  next
    case new: False
    let ?kept = "bs_insert (bucket x) kept"
    have opened: "set ?kept = bucket ` set (past @ [x])" using "2.prems"(2) by auto
    have dk: "distinct ?kept" using "2.prems"(3) by (rule distinct_bs_insert)
    show ?thesis
    proof (cases "n \<le> length ?kept")
      case True
      have "n \<le> card (bucket ` set (past @ [x]))" using True dk opened by (metis distinct_card)
      moreover have "s \<notin> set (past @ [x])" if "s \<noteq> x" using other [OF that] dist by auto
      ultimately have "\<not> periodic_match bucket n (past @ x # ss) s" if "s \<noteq> x"
        using periodic_match_late [of s "past @ [x]" ss n bucket] other that by simp
      then show ?thesis
        using True new match_x other by (cases "s = x") (simp_all add: Let_def)
    next
      case False
      show ?thesis
      proof (cases "s = x")
        case True
        then show ?thesis using False new match_x frame by (simp add: Let_def periodic_loop_frame)
      next
        case neq: False
        have "length ?kept < n" using False by simp
        then show ?thesis
          using "2.IH"(2) [OF new refl refl False dist opened dk] False new other [OF neq] by (simp add: Let_def)
      qed
    qed
  qed
qed simp

lemma keep_periodic_reasons:
  assumes "distinct (map ret_snapshot_id ordered)" and "case c of None \<Rightarrow> True | Some k \<Rightarrow> count_ok k"
    and "s \<in> set ordered"
  shows "reasons_at (keep_periodic ordered c r bucket m) (ret_snapshot_id s) =
    reasons_at m (ret_snapshot_id s) \<union> count_rule c (\<lambda>n. periodic_match bucket n ordered s) r"
proof (cases c)
  case (Some k)
  then have "0 < unat (count_get k)" using assms(2) by (simp add: count_ok_def unat_gt_0)
  with Some assms show ?thesis
    by (simp add: keep_periodic_def count_rule_def periodic_loop_reasons [where past = "[]", simplified])
qed (simp add: keep_periodic_def count_rule_def)

lemma same_id_same:
  "distinct (map ret_snapshot_id xs) \<Longrightarrow> s \<in> set xs \<Longrightarrow> set ys \<subseteq> set xs \<Longrightarrow>
    ret_snapshot_id s \<in> ret_snapshot_id ` set ys \<longleftrightarrow> s \<in> set ys"
  by (auto simp: distinct_map inj_on_def) 

lemma keep_latest_reasons:
  assumes "distinct (map ret_snapshot_id ordered)" and "s \<in> set ordered"
  shows "reasons_at (keep_latest ordered c m) (ret_snapshot_id s) =
    reasons_at m (ret_snapshot_id s) \<union> count_rule c (\<lambda>n. s \<in> set (take n ordered)) ''keep-last''"
  using same_id_same [OF assms set_take_subset]
  by (auto simp: keep_latest_def count_rule_def fold_keep_reasons_at split: option.splits)

lemma keep_tagged_one:
  assumes "distinct (map ret_snapshot_id ordered)" and "s \<in> set ordered"
  shows "reasons_at (keep_tagged ordered t m) (ret_snapshot_id s) =
    reasons_at m (ret_snapshot_id s) \<union> (if t \<in> set (ret_tags s) then {''keep-tag:'' @ t} else {})"
proof -
  let ?tagged = "filter (\<lambda>s. t \<in> set (ret_tags s)) ordered"
  have "ret_snapshot_id s \<in> ret_snapshot_id ` set ?tagged \<longleftrightarrow> t \<in> set (ret_tags s)"
    using same_id_same [OF assms, of ?tagged] assms(2) by simp
  then show ?thesis by (simp only: keep_tagged_def fold_keep_reasons_at)
qed

lemma keep_tagged_reasons:
  assumes "distinct (map ret_snapshot_id ordered)" and "s \<in> set ordered"
  shows "reasons_at (fold (keep_tagged ordered) tags m) (ret_snapshot_id s) =
    reasons_at m (ret_snapshot_id s) \<union> (\<lambda>tag. ''keep-tag:'' @ tag) ` (set tags \<inter> set (ret_tags s))"
proof (induction tags arbitrary: m)
  case (Cons t tags)
  show ?case unfolding fold_Cons comp_apply Cons.IH keep_tagged_one [OF assms] by auto
qed simp

lemma collect_reasons_at:
  assumes "distinct (map ret_snapshot_id ordered)" and "policy_counts_ok p" and "s \<in> set ordered"
  shows "reasons_at (collect_reasons p ordered) (ret_snapshot_id s) = matching_reasons p ordered s"
  using assms(2)
  by (simp add: collect_reasons_def Let_def matching_reasons_def policy_counts_ok_def
      keep_tagged_reasons [OF assms(1,3)] keep_latest_reasons [OF assms(1,3)]
      keep_periodic_reasons [OF assms(1) _ assms(3)] reasons_at_Nil)


lemma decide_distinct:
  "distinct (map ret_snapshot_id ss) \<Longrightarrow>
    decide ss m = map (\<lambda>s. decision_of s (bt_get m (ret_snapshot_id s))) ss"
proof (induction ss arbitrary: m)
  case (Cons x ss)
  have "ret_snapshot_id s \<noteq> ret_snapshot_id x" if "s \<in> set ss" for s
    using Cons.prems that by (metis distinct.simps(2) imageI list.set_map list.simps(9))
  with Cons show ?case by (simp add: bt_get_remove)
qed simp

lemma reasons_list: "reasons_wf m \<Longrightarrow> bt_get m k = (if reasons_at m k = {} then None else Some (sorted_list_of_set (reasons_at m k)))"
  by (auto simp: reasons_wf_def reasons_at_def strict_sorted_iff sorted_list_of_set_sort_remdups
      distinct_remdups_id sorted_sort_id split: option.splits)

lemma matching_reasons_hd: "r \<in> matching_reasons p ordered s \<Longrightarrow> hd r = CHR ''k''"
  unfolding matching_reasons_def count_rule_def
  by (elim UnE imageE) (simp_all split: option.splits if_splits)

lemma not_matched_no_rule: "not_matched \<notin> matching_reasons p ordered s"
  using matching_reasons_hd [of not_matched p ordered s] by (auto simp: not_matched_def)

lemma finite_matching_reasons: "finite (matching_reasons p ordered s)"
  by (simp add: matching_reasons_def count_rule_def split: option.splits)

text \<open>What a plan decides about a snapshot, read off the rules.\<close>

definition expected_decision ::
  "retention_policy \<Rightarrow> retention_snapshot list \<Rightarrow> retention_snapshot \<Rightarrow> retention_decision" where
  "expected_decision p ordered s =
     (let reasons = matching_reasons p ordered s in
      \<lparr> dec_snapshot_id = ret_snapshot_id s, dec_created_at = ret_created_at s,
        dec_tags = ret_tags s,
        dec_action = (if reasons = {} then Forget else Keep),
        dec_reasons = (if reasons = {} then [not_matched] else sorted_list_of_set reasons) \<rparr>)"

lemma decision_expected:
  assumes "distinct (map ret_snapshot_id ordered)" and "policy_counts_ok p" and "s \<in> set ordered"
  shows "decision_of s (bt_get (collect_reasons p ordered) (ret_snapshot_id s)) =
    expected_decision p ordered s"
proof -
  have get: "bt_get (collect_reasons p ordered) (ret_snapshot_id s) =
    (if matching_reasons p ordered s = {} then None
     else Some (sorted_list_of_set (matching_reasons p ordered s)))"
    by (simp add: reasons_list collect_reasons_wf collect_reasons_at [OF assms])
  show ?thesis
    using not_matched_no_rule [of p ordered s] finite_matching_reasons [of p ordered s]
    by (simp add: get decision_of_def expected_decision_def Let_def)
qed

lemma distinct_map_mset:
  assumes "mset xs = mset ys"
  shows "distinct (map f xs) \<longleftrightarrow> distinct (map f ys)"
  by (rule mset_eq_imp_distinct_iff) (simp add: assms)

lemma plan_expected:
  assumes "distinct (map ret_snapshot_id ss)" and "policy_counts_ok p"
  shows "plan_decisions (plan p ss) = map (expected_decision p (newest_first ss)) (newest_first ss)"
proof -
  have "distinct (map ret_snapshot_id (newest_first ss))"
    unfolding newest_first_def
    by (rule distinct_map_mset [THEN iffD2, OF mset_sort_desc assms(1)])
  with assms(2) show ?thesis
    by (simp add: plan_def Let_def decide_distinct decision_expected)
qed

lemma hd_takeWhile_neq: "takeWhile (\<lambda>x. x \<noteq> y) (y # xs) = []"
  by simp

lemma matching_reasons_newest:
  assumes "policy_counts_ok p" and "ordered \<noteq> []"
    and "\<not> policy_is_empty (p\<lparr>keep_tags := []\<rparr>)"
  shows "matching_reasons p ordered (hd ordered) \<noteq> {}"
proof -
  obtain x xs where x: "ordered = x # xs" using assms(2) by (cases ordered) auto
  have first: "periodic_match bucket (unat (count_get k)) ordered (hd ordered)" if "count_ok k" for bucket k
    using that by (simp add: periodic_match_def x count_ok_def unat_gt_0)
  have latest: "hd ordered \<in> set (take (unat (count_get k)) ordered)" if "count_ok k" for k
    using that by (cases "unat (count_get k)") (simp_all add: x count_ok_def unat_eq_0)
  from assms(1,3) show ?thesis
    by (auto simp: matching_reasons_def count_rule_def policy_counts_ok_def policy_is_empty_def
        first latest split: option.splits)
qed

section \<open>Accepted specifications\<close>

lemma parse_count_ok: "parse_count name value = Ok c \<Longrightarrow> count_ok c"
  using parse_unsigned_bound [of "2 ^ 32 - 1" "value"]
  by (auto simp: parse_count_def result_simps count_ok_def split: if_splits)
    (auto simp: word_of_nat_eq_0_iff dvd_imp_le)

definition tag_clean :: "string \<Rightarrow> bool" where
  "tag_clean t \<longleftrightarrow> t \<noteq> [] \<and> CHR '','' \<notin> set t \<and> \<not> list_ex is_ascii_control t"

lemma parse_tag_clean: "parse_tag name raw = Ok t \<Longrightarrow> tag_clean t"
  by (auto simp: parse_tag_def tag_clean_def Let_def split: if_splits)

definition policy_wf :: "retention_policy \<Rightarrow> bool" where
  "policy_wf p \<longleftrightarrow> policy_counts_ok p \<and> list_all tag_clean (keep_tags p)"

lemma policy_wf_default: "policy_wf retention_policy_default"
  by (simp add: policy_wf_def policy_counts_ok_def retention_policy_default_def)

lemma apply_rule_wf: "apply_rule st name value = Ok st' \<Longrightarrow> policy_wf (fst st) \<Longrightarrow> policy_wf (fst st')"
  by (cases st)
    (auto simp: apply_rule_def Let_def result_simps policy_wf_def policy_counts_ok_def
      parse_count_ok parse_tag_clean split: if_splits)

lemma parse_rule_wf: "parse_rule st raw = Ok st' \<Longrightarrow> policy_wf (fst st) \<Longrightarrow> policy_wf (fst st')"
  by (auto simp: parse_rule_def Let_def result_simps dest: apply_rule_wf split: if_splits)

lemma parse_spec_wf:
  assumes "parse_spec spec = Ok p"
  shows "policy_wf p \<and> \<not> policy_is_empty p"
proof -
  obtain st where st: "fold_result parse_rule (retention_policy_default, []) (split_on CHR '','' spec) = Ok st"
    and valid: "policy_validate (fst st) = Ok p"
    using assms by (auto simp: parse_spec_def result_simps)
  have "policy_wf (fst st)"
    using fold_result_inv [OF st, where I = "\<lambda>s. policy_wf (fst s)"] policy_wf_default parse_rule_wf
    by auto
  with valid show ?thesis by (auto simp: policy_validate_def result_simps split: if_splits)
qed

text \<open>The order of a plan, written out.\<close>

lemma newest_first_descending:
  "sorted_wrt (\<lambda>x y. ret_created_at y < ret_created_at x \<or>
     ret_created_at y = ret_created_at x \<and> ret_snapshot_id y \<le> ret_snapshot_id x) (newest_first ss)"
  unfolding newest_first_def
  by (rule sorted_wrt_mono_rel [OF _ sort_desc_descending]) auto

lemma newest_first_hd:
  assumes "ss \<noteq> []"
  shows "hd (newest_first ss) \<in> set ss" and "x \<in> set ss \<Longrightarrow> ret_created_at x < ret_created_at (hd (newest_first ss)) \<or>
     ret_created_at x = ret_created_at (hd (newest_first ss)) \<and> ret_snapshot_id x \<le> ret_snapshot_id (hd (newest_first ss))"
proof -
  have same: "set (newest_first ss) = set ss" by (simp add: newest_first_def)
  then have "newest_first ss \<noteq> []" using assms by auto
  then obtain y ys where ys: "newest_first ss = y # ys" by (cases "newest_first ss") auto
  then show "hd (newest_first ss) \<in> set ss" using same by auto
  show "ret_created_at x < ret_created_at (hd (newest_first ss)) \<or>
     ret_created_at x = ret_created_at (hd (newest_first ss)) \<and> ret_snapshot_id x \<le> ret_snapshot_id (hd (newest_first ss))"
    if "x \<in> set ss"
    using that newest_first_descending [of ss] unfolding same [symmetric] ys by auto
qed

section \<open>Properties\<close>

text \<open>
  C25: the plan decides every snapshot, newest first, by the rules alone: it keeps a snapshot
  with exactly the rules that select it as reasons, in order, and forgets the ones no rule selects. Newest
  first is by the time of creation, and by the id among snapshots of one time. A periodic rule selects the newest snapshot of each of its first \<open>n\<close> periods.
\<close>

theorem plan_follows_rules:
  assumes "distinct (map ret_snapshot_id ss)" and "policy_counts_ok p"
  shows "plan_decisions (plan p ss) = map (expected_decision p (newest_first ss)) (newest_first ss) \<and>
    mset (newest_first ss) = mset ss \<and>
    sorted_wrt (\<lambda>x y. ret_created_at y < ret_created_at x \<or>
      ret_created_at y = ret_created_at x \<and> ret_snapshot_id y \<le> ret_snapshot_id x) (newest_first ss)"
  using plan_expected [OF assms] newest_first_descending [of ss] by (simp add: newest_first_def)

definition sample_history :: "retention_snapshot list" where
  "sample_history =
     [\<lparr>ret_snapshot_id = ''a'', ret_created_at = 100, ret_tags = []\<rparr>,
      \<lparr>ret_snapshot_id = ''b'', ret_created_at = 90000, ret_tags = [''x'']\<rparr>]"

definition sample_policy :: retention_policy where
  "sample_policy = retention_policy_default\<lparr>keep_last := Some (RetentionCount 1)\<rparr>"

theorem plan_follows_rules_witness:
  "plan_decisions (plan sample_policy sample_history) =
     map (expected_decision sample_policy (newest_first sample_history)) (newest_first sample_history)"
proof -
  have "distinct (map ret_snapshot_id sample_history)" by (simp add: sample_history_def)
  moreover have "policy_counts_ok sample_policy"
    by (simp add: sample_policy_def retention_policy_default_def policy_counts_ok_def count_ok_def)
  ultimately show ?thesis using plan_follows_rules by blast
qed

text \<open>
  C26: a retention specification that parses gives a policy with at least one rule, positive
  counts and tags without commas or control characters; and a policy with any counting rule keeps the newest
  snapshot: the first decision of the plan is to keep the snapshot that is at least as new as every other, with
  the greatest id among those of its time.
\<close>

theorem parsed_policy_keeps_newest:
  assumes "parse_spec spec = Ok p" and "distinct (map ret_snapshot_id ss)" and "ss \<noteq> []"
    and "\<not> policy_is_empty (p\<lparr>keep_tags := []\<rparr>)"
  shows "policy_wf p \<and> \<not> policy_is_empty p \<and>
    (\<exists>s \<in> set ss. \<exists>d ds. plan_decisions (plan p ss) = d # ds \<and> dec_action d = Keep \<and>
       dec_snapshot_id d = ret_snapshot_id s \<and> dec_created_at d = ret_created_at s \<and>
       (\<forall>x \<in> set ss. ret_created_at x < ret_created_at s \<or>
          ret_created_at x = ret_created_at s \<and> ret_snapshot_id x \<le> ret_snapshot_id s))"
proof -
  have p: "policy_wf p" "\<not> policy_is_empty p" using parse_spec_wf [OF assms(1)] by auto
  have counts: "policy_counts_ok p" using p(1) by (simp add: policy_wf_def)
  have ne: "newest_first ss \<noteq> []"
    using assms(3) set_sort_desc [of _ ss] unfolding newest_first_def by (metis set_empty)
  let ?s = "hd (newest_first ss)"
  have "matching_reasons p (newest_first ss) ?s \<noteq> {}"
    using matching_reasons_newest [OF counts ne assms(4)] .
  then have d: "dec_action (expected_decision p (newest_first ss) ?s) = Keep"
    "dec_snapshot_id (expected_decision p (newest_first ss) ?s) = ret_snapshot_id ?s"
    "dec_created_at (expected_decision p (newest_first ss) ?s) = ret_created_at ?s"
    by (simp_all add: expected_decision_def Let_def)
  have "plan_decisions (plan p ss) = expected_decision p (newest_first ss) ?s #
      map (expected_decision p (newest_first ss)) (tl (newest_first ss))"
    unfolding plan_expected [OF assms(2) counts] list.map(2) [symmetric] list.collapse [OF ne] ..
  then show ?thesis using p d newest_first_hd [OF assms(3)] by blast
qed

lemma sample_spec: "parse_spec ''keep-last=1'' = Ok sample_policy"
  by (simp add: parse_spec_def parse_rule_def trim_graphic split_once_def normalize_rule_name_def
      apply_rule_def ensure_unique_scalar_def parse_count_def parse_unsigned_def digit_value_def
      policy_validate_def policy_is_empty_def retention_policy_default_def sample_policy_def Let_def)

theorem parsed_policy_keeps_newest_witness:
  "\<exists>s \<in> set sample_history. dec_action (hd (plan_decisions (plan sample_policy sample_history))) = Keep \<and>
     dec_snapshot_id (hd (plan_decisions (plan sample_policy sample_history))) = ret_snapshot_id s \<and>
     (\<forall>x \<in> set sample_history. ret_created_at x \<le> ret_created_at s)"
proof -
  have "distinct (map ret_snapshot_id sample_history)" "sample_history \<noteq> []"
    by (simp_all add: sample_history_def)
  moreover have "\<not> policy_is_empty (sample_policy\<lparr>keep_tags := []\<rparr>)"
    by (simp add: sample_policy_def policy_is_empty_def)
  ultimately obtain s d ds where "s \<in> set sample_history" "plan_decisions (plan sample_policy sample_history) = d # ds"
      "dec_action d = Keep" "dec_snapshot_id d = ret_snapshot_id s"
      "\<forall>x \<in> set sample_history. ret_created_at x < ret_created_at s \<or>
          ret_created_at x = ret_created_at s \<and> ret_snapshot_id x \<le> ret_snapshot_id s"
    using parsed_policy_keeps_newest [OF sample_spec] by metis
  then show ?thesis by (intro bexI [of _ s]) auto
qed

end
