(* ===== verification/Ferry_Check.thy ===== *)
theory Ferry_Check
  imports Ferry_Scenario
begin

text \<open>
  \<open>check_repository\<close>: every commit marker with its manifest and indexes is read and validated, then the
  chunk objects it leads to are decrypted and compared with their ids, all of them or a leading part
  of the ids in order. A full check that passes means that every committed snapshot can be restored.
\<close>

section \<open>Options\<close>

text \<open>\<open>usize\<close> is 64 bits; counts of objects in memory stay below it.\<close>

datatype check_read_data_subset = SubsetCount nat | SubsetPercent u8

datatype check_read_data_selection = FullData | SubsetData check_read_data_subset

datatype check_read_data_mode = MetadataOnlyMode | SubsetMode | FullMode

record check_repository_options =
  co_read_data :: check_read_data_selection

definition check_options_full :: check_repository_options where
  "check_options_full = \<lparr>co_read_data = FullData\<rparr>"

definition check_options_subset :: "check_read_data_subset \<Rightarrow> check_repository_options" where
  "check_options_subset s = \<lparr>co_read_data = SubsetData s\<rparr>"

definition selection_mode :: "check_read_data_selection \<Rightarrow> check_read_data_mode" where
  "selection_mode s = (case s of FullData \<Rightarrow> FullMode | SubsetData _ \<Rightarrow> SubsetMode)"

definition subset_count :: "nat \<Rightarrow> core_error + check_read_data_subset" where
  "subset_count n =
     (if n = 0 then Err (InvalidCheckDataSubset ''count must be greater than zero'') else Ok (SubsetCount n))"

definition subset_percent :: "u8 \<Rightarrow> core_error + check_read_data_subset" where
  "subset_percent p =
     (if \<not> (1 \<le> p \<and> p \<le> 100) then Err (InvalidCheckDataSubset ''percent must be between 1 and 100'')
      else Ok (SubsetPercent p))"

definition subset_label_of :: "check_read_data_subset \<Rightarrow> string" where
  "subset_label_of s = (case s of SubsetCount n \<Rightarrow> show_nat n | SubsetPercent p \<Rightarrow> show_nat (unat p) @ ''%'')"

definition selection_subset_label :: "check_read_data_selection \<Rightarrow> string option" where
  "selection_subset_label s = (case s of FullData \<Rightarrow> None | SubsetData part \<Rightarrow> Some (subset_label_of part))"

text \<open>The product saturates at \<open>usize::MAX\<close>.\<close>

definition selected_count :: "check_read_data_subset \<Rightarrow> nat \<Rightarrow> nat" where
  "selected_count s chunks_total =
     (case s of
        SubsetCount n \<Rightarrow> min n chunks_total
      | SubsetPercent p \<Rightarrow>
          if chunks_total = 0 then 0
          else min ((min (chunks_total * unat p) (2 ^ 64 - 1) + 99) div 100) chunks_total)"

section \<open>Targets\<close>

record chunk_reference_context =
  cx_snapshot_id :: string
  cx_path :: path
  cx_object_key :: string

record chunk_check_target =
  ct_indexed :: chunk_index_entry
  ct_context :: chunk_reference_context

datatype check_finding_severity = WarningFinding | ErrorFinding

record check_finding =
  cf_code :: string
  cf_severity :: check_finding_severity
  cf_object_key :: "string option"
  cf_snapshot_id :: "string option"
  cf_path :: "path option"
  cf_message :: string

record repository_check_result =
  cr_repository_id :: string
  cr_checked_at :: u64
  cr_metadata_objects :: nat
  cr_chunk_objects :: nat
  cr_bytes_read :: u64
  cr_mode :: check_read_data_mode
  cr_subset :: "string option"
  cr_errors :: "check_finding list"
  cr_warnings :: "check_finding list"

text \<open>The mutable variables of the loop over the commit markers.\<close>

record check_state =
  cs_metadata :: nat
  cs_bytes :: u64
  cs_targets :: "(string, chunk_check_target) btree_map"

definition check_read_error :: "object_key \<Rightarrow> core_error \<Rightarrow> core_error" where
  "check_read_error expected_key error =
     (case error of
        CoreStorage (ObjectNotFound _) \<Rightarrow> RepositoryCheckMissingObject expected_key
      | other \<Rightarrow> other)"

definition select_check_chunk_ids ::
  "(string, chunk_check_target) btree_map \<Rightarrow> check_read_data_selection \<Rightarrow> string list" where
  "select_check_chunk_ids targets selection =
     take (case selection of FullData \<Rightarrow> length targets
           | SubsetData part \<Rightarrow> selected_count part (length targets))
       (map fst targets)"

definition check_index ::
  "library \<Rightarrow> backup_pipeline_config \<Rightarrow> 's store_ops \<Rightarrow> master_key \<Rightarrow>
   (string, chunk_index_entry) btree_map \<times> nat \<times> u64 \<Rightarrow> string \<Rightarrow>
   ('s world, core_error, (string, chunk_index_entry) btree_map \<times> nat \<times> u64) prog" where
  "check_index L c store master acc index_id =
     (case acc of (entries, metadata, bytes) \<Rightarrow>
       andThen (lift_result (object_key_for_id ''objects/index'' index_id)) (\<lambda>expected_index_object.
       andThen (map_error (check_read_error expected_index_object)
                 (read_chunk_index_with_bytes L c store master index_id)) (\<lambda>(index, index_bytes).
       ret (insert_index_entries (ci_chunks index) entries, metadata + 1, bytes + index_bytes))))"

definition note_chunk ::
  "(string, chunk_index_entry) btree_map \<Rightarrow> string \<Rightarrow> path \<Rightarrow> (string, chunk_reference_context) btree_map \<Rightarrow>
   manifest_chunk_ref \<Rightarrow> core_error + (string, chunk_reference_context) btree_map" where
  "note_chunk index_entries sid rel contexts chunk =
     bindR (ok_or (MissingChunkIndexEntry sid rel (mc_chunk_id chunk) (mc_object_key chunk))
              (bt_get index_entries (mc_chunk_id chunk))) (\<lambda>indexed.
     bindR (validate_indexed_chunk_reference sid rel chunk indexed) (\<lambda>_.
     Ok (bt_or_insert (mc_chunk_id chunk)
           \<lparr>cx_snapshot_id = sid, cx_path = rel, cx_object_key = mc_object_key chunk\<rparr> contexts)))"

definition note_entry ::
  "(string, chunk_index_entry) btree_map \<Rightarrow> string \<Rightarrow> (string, chunk_reference_context) btree_map \<Rightarrow>
   manifest_entry \<Rightarrow> core_error + (string, chunk_reference_context) btree_map" where
  "note_entry index_entries sid contexts entry =
     (if entry_kind (me_metadata entry) \<noteq> RegularFile then Ok contexts
      else fold_result (note_chunk index_entries sid (me_relative_path entry)) contexts (me_chunks entry))"

definition note_target ::
  "(string, chunk_index_entry) btree_map \<Rightarrow> (string, chunk_check_target) btree_map \<Rightarrow>
   string \<times> chunk_reference_context \<Rightarrow> core_error + (string, chunk_check_target) btree_map" where
  "note_target index_entries targets item =
     (case item of (chunk_id, cx) \<Rightarrow>
       bindR (ok_or (MissingChunkIndexEntry (cx_snapshot_id cx) (cx_path cx) chunk_id (cx_object_key cx))
                (bt_get index_entries chunk_id)) (\<lambda>indexed.
       Ok (bt_or_insert chunk_id \<lparr>ct_indexed = indexed, ct_context = cx\<rparr> targets)))"

definition note_manifest ::
  "(string, chunk_index_entry) btree_map \<Rightarrow> snapshot_manifest \<Rightarrow> (string, chunk_check_target) btree_map \<Rightarrow>
   core_error + (string, chunk_check_target) btree_map" where
  "note_manifest index_entries manifest targets =
     bindR (fold_result (note_entry index_entries (sm_snapshot_id manifest)) [] (mb_entries (sm_body manifest)))
       (fold_result (note_target index_entries) targets)"

definition check_snapshot ::
  "library \<Rightarrow> backup_pipeline_config \<Rightarrow> 's store_ops \<Rightarrow> master_key \<Rightarrow> check_state \<Rightarrow> string \<Rightarrow> object_key \<Rightarrow>
   ('s world, core_error, check_state) prog" where
  "check_snapshot L c store master st snapshot_id expected_manifest_object =
     andThen (map_error (check_read_error expected_manifest_object)
               (read_snapshot_manifest_with_bytes L c store master snapshot_id)) (\<lambda>(manifest, manifest_bytes).
     andThen (for_each (mb_index_ids (sm_body manifest)) (check_index L c store master)
               ([], cs_metadata st + 1, cs_bytes st + manifest_bytes)) (\<lambda>(index_entries, metadata, bytes).
     andThen (lift_result (note_manifest index_entries manifest (cs_targets st))) (\<lambda>targets.
     ret \<lparr>cs_metadata = metadata, cs_bytes = bytes, cs_targets = targets\<rparr>)))"

definition check_commit ::
  "library \<Rightarrow> backup_pipeline_config \<Rightarrow> 's store_ops \<Rightarrow> master_key \<Rightarrow> check_state \<Rightarrow> object_key \<Rightarrow>
   ('s world, core_error, check_state) prog" where
  "check_commit L c store master st commit_key =
     andThen (on_store (map_error CoreStorage (get_object store commit_key))) (\<lambda>commit_bytes.
     andThen (lift_result (decode_at CommitDecode (commit_codec L) commit_key commit_bytes)) (\<lambda>commit.
     if sc_schema_version commit \<noteq> 0 then
       lift_result (Err (InvalidCommitMarker commit_key ''unsupported commit marker schema version''))
     else
       andThen (lift_result (check_commit_marker commit_key commit))
         (check_snapshot L c store master
           (st\<lparr>cs_metadata := cs_metadata st + 1, cs_bytes := cs_bytes st + word_of_nat (length commit_bytes)\<rparr>)
           (sc_snapshot_id commit))))"

section \<open>Chunk objects\<close>

definition check_chunk ::
  "library \<Rightarrow> backup_pipeline_config \<Rightarrow> 's store_ops \<Rightarrow> master_key \<Rightarrow> subkey \<Rightarrow>
   (string, chunk_check_target) btree_map \<Rightarrow> nat \<times> u64 \<Rightarrow> string \<Rightarrow> ('s world, core_error, nat \<times> u64) prog" where
  "check_chunk L c store master chunk_key targets acc chunk_id =
     (let target = the (bt_get targets chunk_id); indexed = ct_indexed target; cx = ct_context target in
      andThen (lift_result (map_err CoreObjectKey (object_key_new (ie_object_key indexed)))) (\<lambda>object_key.
      andThen (on_store (map_error (\<lambda>source. case source of
                   ObjectNotFound _ \<Rightarrow> RepositoryCheckMissingObject object_key
                 | _ \<Rightarrow> CoreStorage source) (get_object store object_key))) (\<lambda>encrypted.
      andThen (lift_result (decrypt_repository_object L chunk_key Chunk object_key encrypted)) (\<lambda>compressed.
      andThen (lift_result (verified_plaintext L c master chunk_id (ie_plaintext_length indexed)
                 (Some (cx_snapshot_id cx)) (Some (cx_path cx)) (Some (cx_object_key cx)) compressed)) (\<lambda>_.
      ret (fst acc + 1, snd acc + word_of_nat (length encrypted)))))))"

definition check_repository_with_options ::
  "library \<Rightarrow> backup_pipeline_config \<Rightarrow> 's store_ops \<Rightarrow> system_time \<Rightarrow> master_key \<Rightarrow> check_repository_options \<Rightarrow>
   ('s world, core_error, repository_check_result) prog" where
  "check_repository_with_options L c store now master options =
     andThen (lift_result (derive_key L c master ChunkData)) (\<lambda>chunk_key.
     andThen (lift_result (map_err CoreObjectKey (object_key_prefix_new ''commits''))) (\<lambda>pre.
     andThen (on_store (map_error CoreStorage (list_prefix store pre))) (\<lambda>commit_keys.
     andThen (for_each (sort commit_keys) (check_commit L c store master)
                \<lparr>cs_metadata = 0, cs_bytes = 0, cs_targets = []\<rparr>) (\<lambda>st.
     andThen (for_each (select_check_chunk_ids (cs_targets st) (co_read_data options))
                (check_chunk L c store master chunk_key (cs_targets st)) (0, cs_bytes st)) (\<lambda>(chunks, bytes).
     andThen (lift_result (current_unix_seconds now)) (\<lambda>checked_at.
     ret \<lparr>cr_repository_id = pc_repository_id c, cr_checked_at = checked_at,
          cr_metadata_objects = cs_metadata st, cr_chunk_objects = chunks, cr_bytes_read = bytes,
          cr_mode = selection_mode (co_read_data options),
          cr_subset = selection_subset_label (co_read_data options),
          cr_errors = [], cr_warnings = []\<rparr>))))))"

definition check_repository ::
  "library \<Rightarrow> backup_pipeline_config \<Rightarrow> 's store_ops \<Rightarrow> system_time \<Rightarrow> master_key \<Rightarrow>
   ('s world, core_error, repository_check_result) prog" where
  "check_repository L c store now master =
     check_repository_with_options L c store now master check_options_full"

section \<open>The subset that is read\<close>

lemma selected_count_le: "selected_count s chunks_total \<le> chunks_total"
  by (simp add: selected_count_def split: check_read_data_subset.split)

lemma selected_count_pos:
  assumes "0 < chunks_total" and "s = SubsetCount n \<and> 0 < n \<or> s = SubsetPercent p \<and> 0 < p"
  shows "0 < selected_count s chunks_total"
proof -
  have "0 < min (chunks_total * unat p) (2 ^ 64 - 1)" if "0 < p"
    using assms(1) that by (simp add: unat_gt_0)
  then have "0 < (min (chunks_total * unat p) (2 ^ 64 - 1) + 99) div 100" if "0 < p"
    using that by (simp add: div_greater_zero_iff)
  then show ?thesis using assms by (auto simp: selected_count_def)
qed

lemma selected_count_percent:
  assumes "chunks_total * 100 < 2 ^ 64" and "p \<le> 100"
  shows "selected_count (SubsetPercent p) chunks_total = (chunks_total * unat p + 99) div 100"
proof -
  have "unat p \<le> 100" using assms(2) by (simp add: word_le_nat_alt)
  then have le: "chunks_total * unat p \<le> chunks_total * 100" by simp
  then have "(chunks_total * unat p + 99) div 100 \<le> (chunks_total * 100 + 99) div 100"
    by (intro div_le_mono) simp
  then have "(chunks_total * unat p + 99) div 100 \<le> chunks_total" by simp
  then show ?thesis using assms le by (auto simp: selected_count_def)
qed

section \<open>What a check reads, a restore reads\<close>

lemma with_bytes_manifest:
  "read_snapshot_manifest_with_bytes L c store master sid w = (Ok (manifest, bytes), w') \<Longrightarrow>
    read_snapshot_manifest L c store master sid w = (Ok manifest, w')"
  unfolding read_snapshot_manifest_with_bytes_def read_snapshot_manifest_def read_encrypted_json_object_def
  by (auto simp: prog_simps split: prod.splits)

lemma with_bytes_index:
  "read_chunk_index_with_bytes L c store master iid w = (Ok (index, bytes), w') \<Longrightarrow>
    read_chunk_index L c store master iid w = (Ok index, w')"
  unfolding read_chunk_index_with_bytes_def read_chunk_index_def read_encrypted_json_object_def
  by (auto simp: prog_simps split: prod.splits)

lemma check_index_Ok:
  "check_index L c store master (es, a, b) iid w = (Ok r, w') \<longleftrightarrow>
     (\<exists>k index bytes. object_key_for_id ''objects/index'' iid = Ok k \<and>
        read_chunk_index_with_bytes L c store master iid w = (Ok (index, bytes), w') \<and>
        r = (insert_index_entries (ci_chunks index) es, a + 1, b + bytes))"
  by (auto simp: check_index_def prog_simps)

lemma check_indexes_load:
  "for_each ids (check_index L c store master) (es, a, b) w = (Ok (es', a', b'), w') \<Longrightarrow>
    for_each ids (\<lambda>entries index_id.
       andThen (lift_result (object_key_for_id ''objects/index'' index_id)) (\<lambda>expected_index_object.
       andThen (map_error (referenced_object_read_error expected_index_object)
                 (read_chunk_index L c store master index_id)) (\<lambda>index.
       ret (insert_index_entries (ci_chunks index) entries)))) es w = (Ok es', w')"
proof (induction ids arbitrary: es a b w)
  case (Cons iid ids)
  obtain k index bytes w1 where step: "object_key_for_id ''objects/index'' iid = Ok k"
      "read_chunk_index_with_bytes L c store master iid w = (Ok (index, bytes), w1)"
    and rest: "for_each ids (check_index L c store master)
      (insert_index_entries (ci_chunks index) es, a + 1, b + bytes) w1 = (Ok (es', a', b'), w')"
    using Cons.prems unfolding for_each.simps andThen_Ok_iff check_index_Ok by blast
  show ?case
    using step(1) with_bytes_index [OF step(2)] Cons.IH [OF rest] by (simp add: andThen_def map_error_def)
qed (simp add: prog_simps)

lemma check_index_loads:
  assumes "for_each (mb_index_ids (sm_body manifest)) (check_index L c store master) ([], a, b) w = (Ok (es', a', b'), w')"
  shows "load_chunk_index_entries L c store master manifest w = (Ok es', w')"
  unfolding load_chunk_index_entries_def by (rule check_indexes_load [OF assms])

lemma stable_check_index: "stable (check_index L c map_store_ops master acc iid)"
proof -
  have "stable (read_chunk_index_with_bytes L c map_store_ops master iid)"
    unfolding read_chunk_index_with_bytes_def case_prod_beta by (intro stable_intros)
  then show ?thesis
    unfolding check_index_def case_prod_beta by (intro stable_intros)
qed

lemma stable_read_manifest_with_bytes [stable_intros]:
  "stable (read_snapshot_manifest_with_bytes L c map_store_ops master sid)"
  unfolding read_snapshot_manifest_with_bytes_def case_prod_beta by (intro stable_intros)

lemma stable_if: "stable p \<Longrightarrow> stable q \<Longrightarrow> stable (if P then p else q)"
  by simp

lemma stable_check_commit [stable_intros]: "stable (check_commit L c map_store_ops master st k)"
  unfolding check_commit_def check_snapshot_def case_prod_beta
  by (intro stable_intros stable_if stable_check_index)

lemma stable_check_chunk [stable_intros]: "stable (check_chunk L c map_store_ops master key targets acc cid)"
  unfolding check_chunk_def Let_def by (intro stable_intros)

section \<open>Contexts and targets\<close>

text \<open>A property of single elements that each step establishes and later steps keep.\<close>

lemma fold_result_each:
  assumes "fold_result f acc xs = Ok r" and "x \<in> set xs"
    and "\<And>acc acc'. f acc x = Ok acc' \<Longrightarrow> P acc'"
    and "\<And>acc y acc'. y \<in> set xs \<Longrightarrow> P acc \<Longrightarrow> f acc y = Ok acc' \<Longrightarrow> P acc'"
  shows "P r"
  using assms
proof (induction xs arbitrary: acc)
  case (Cons y xs)
  from Cons.prems(1) obtain acc' where acc': "f acc y = Ok acc'" "fold_result f acc' xs = Ok r"
    by (auto simp: bindR_Ok_iff)
  show ?case
  proof (cases "x \<in> set xs")
    case True
    show ?thesis
    proof (rule Cons.IH [OF acc'(2) True])
      show "P b" if "f a x = Ok b" for a b using that by (rule Cons.prems(3))
      show "P b" if "z \<in> set xs" "P a" "f a z = Ok b" for a z b
        by (rule Cons.prems(4) [OF _ that(2,3)]) (simp add: that(1))
    qed
  next
    case False
    then have "f acc x = Ok acc'" using Cons.prems(2) acc'(1) by simp
    then have after: "P acc'" by (rule Cons.prems(3))
    show ?thesis
    proof (rule fold_result_inv [OF acc'(2), where I = P])
      show "P acc'" by (rule after)
      show "P b" if "z \<in> set xs" "P a" "f a z = Ok b" for a z b
        by (rule Cons.prems(4) [OF _ that(2,3)]) (simp add: that(1))
    qed
  qed
qed simp

lemma note_chunk_Ok:
  "note_chunk es sid rel cxs ch = Ok cxs' \<longleftrightarrow>
     (\<exists>ie. bt_get es (mc_chunk_id ch) = Some ie \<and> validate_indexed_chunk_reference sid rel ch ie = Ok ()) \<and>
     cxs' = bt_or_insert (mc_chunk_id ch) \<lparr>cx_snapshot_id = sid, cx_path = rel, cx_object_key = mc_object_key ch\<rparr> cxs"
  by (auto simp: note_chunk_def result_simps)

definition chunk_noted ::
  "(string, chunk_index_entry) btree_map \<Rightarrow> string \<Rightarrow> (string, 'x) btree_map \<Rightarrow> path \<Rightarrow> manifest_chunk_ref \<Rightarrow> bool" where
  "chunk_noted es sid m rel ch \<longleftrightarrow>
     (\<exists>ie. bt_get es (mc_chunk_id ch) = Some ie \<and> validate_indexed_chunk_reference sid rel ch ie = Ok ()) \<and>
     bt_get m (mc_chunk_id ch) \<noteq> None"

definition entries_noted ::
  "(string, chunk_index_entry) btree_map \<Rightarrow> string \<Rightarrow> (string, 'x) btree_map \<Rightarrow> manifest_entry list \<Rightarrow> bool" where
  "entries_noted es sid m entries \<longleftrightarrow>
     (\<forall>e \<in> set entries. entry_kind (me_metadata e) = RegularFile \<longrightarrow>
        (\<forall>ch \<in> set (me_chunks e). chunk_noted es sid m (me_relative_path e) ch))"

lemma note_entry_keeps:
  assumes "note_entry es sid cxs e = Ok cxs'" and "bt_get cxs cid \<noteq> None"
  shows "bt_get cxs' cid \<noteq> None"
proof (cases "entry_kind (me_metadata e) = RegularFile")
  case True
  then have "fold_result (note_chunk es sid (me_relative_path e)) cxs (me_chunks e) = Ok cxs'"
    using assms(1) by (simp add: note_entry_def)
  then show ?thesis
    by (rule fold_result_inv [where I = "\<lambda>m. bt_get m cid \<noteq> None"])
      (use assms(2) in \<open>auto simp: note_chunk_Ok bt_get_or_insert\<close>)
qed (use assms in \<open>simp add: note_entry_def\<close>)

lemma note_entry_notes:
  assumes "note_entry es sid cxs e = Ok cxs'" and "entry_kind (me_metadata e) = RegularFile" and "ch \<in> set (me_chunks e)"
  shows "chunk_noted es sid cxs' (me_relative_path e) ch"
proof -
  have "fold_result (note_chunk es sid (me_relative_path e)) cxs (me_chunks e) = Ok cxs'"
    using assms(1,2) by (simp add: note_entry_def)
  then show ?thesis
    by (rule fold_result_each [OF _ assms(3)])
      (auto simp: chunk_noted_def note_chunk_Ok bt_get_or_insert)
qed

lemma entries_noted_contexts:
  assumes "fold_result (note_entry es sid) [] entries = Ok cxs"
  shows "entries_noted es sid cxs entries"
  unfolding entries_noted_def
proof (intro ballI impI)
  fix e ch
  assume e: "e \<in> set entries" "entry_kind (me_metadata e) = RegularFile" "ch \<in> set (me_chunks e)"
  show "chunk_noted es sid cxs (me_relative_path e) ch"
    by (rule fold_result_each [OF assms e(1)])
      (use note_entry_notes [OF _ e(2,3)] note_entry_keeps in \<open>auto simp: chunk_noted_def\<close>)
qed

lemma note_target_Ok:
  "note_target es ts (cid, cx) = Ok ts' \<longleftrightarrow>
     (\<exists>ie. bt_get es cid = Some ie \<and> ts' = bt_or_insert cid \<lparr>ct_indexed = ie, ct_context = cx\<rparr> ts)"
  by (auto simp: note_target_def result_simps)

lemma note_targets:
  assumes run: "fold_result (note_target es) ts cxs = Ok ts'"
  shows "bt_get ts cid \<noteq> None \<Longrightarrow> bt_get ts' cid \<noteq> None"
    and "bt_get cxs cid \<noteq> None \<Longrightarrow> bt_get ts' cid \<noteq> None"
    and "bt_get ts' cid = Some t \<Longrightarrow>
      bt_get ts cid = Some t \<or> bt_get es cid = Some (ct_indexed t) \<and> bt_get cxs cid \<noteq> None"
proof -
  show "bt_get ts cid \<noteq> None \<Longrightarrow> bt_get ts' cid \<noteq> None"
    by (rule fold_result_inv [OF run, where I = "\<lambda>m. bt_get m cid \<noteq> None"])
      (auto simp: note_target_Ok bt_get_or_insert)
  have "bt_get ts' cid \<noteq> None" if "(cid, cx) \<in> set cxs" for cx
    by (rule fold_result_each [OF run that]) (auto simp: note_target_Ok bt_get_or_insert)
  then show "bt_get cxs cid \<noteq> None \<Longrightarrow> bt_get ts' cid \<noteq> None"
    by (auto simp: bt_get_None_iff)
  have "\<forall>t. bt_get ts' cid = Some t \<longrightarrow>
      bt_get ts cid = Some t \<or> bt_get es cid = Some (ct_indexed t) \<and> cid \<in> fst ` set cxs"
    by (rule fold_result_inv [OF run, where I = "\<lambda>m. \<forall>t. bt_get m cid = Some t \<longrightarrow>
        bt_get ts cid = Some t \<or> bt_get es cid = Some (ct_indexed t) \<and> cid \<in> fst ` set cxs"])
      (force simp: note_target_Ok bt_get_or_insert split: if_splits)+
  then show "bt_get ts' cid = Some t \<Longrightarrow>
      bt_get ts cid = Some t \<or> bt_get es cid = Some (ct_indexed t) \<and> bt_get cxs cid \<noteq> None"
    by (auto simp: bt_get_None_iff)
qed

section \<open>A full check that passes\<close>

text \<open>\<open>indexed_by m cid e\<close>: some index that can be read from \<open>m\<close> lists \<open>e\<close> for the chunk \<open>cid\<close>.\<close>

definition indexed_by ::
  "library \<Rightarrow> backup_pipeline_config \<Rightarrow> master_key \<Rightarrow> object_map \<Rightarrow> string \<Rightarrow> chunk_index_entry \<Rightarrow> bool" where
  "indexed_by L c master m cid e \<longleftrightarrow> ie_chunk_id e = cid \<and>
     (\<exists>iid i n. fst (read_chunk_index L c map_store_ops master iid (map_world m n)) = Ok i \<and> e \<in> set (ci_chunks i))"

text \<open>The indexes agree on where a chunk is and how long it is. A check reads one entry for each chunk.\<close>

definition indexes_agree :: "library \<Rightarrow> backup_pipeline_config \<Rightarrow> master_key \<Rightarrow> object_map \<Rightarrow> bool" where
  "indexes_agree L c master m \<longleftrightarrow>
     (\<forall>cid e f. indexed_by L c master m cid e \<longrightarrow> indexed_by L c master m cid f \<longrightarrow>
        ie_object_key e = ie_object_key f \<and> ie_plaintext_length e = ie_plaintext_length f)"

lemma bt_get_insert_index_entries:
  "bt_get (insert_index_entries es m) cid = Some e \<Longrightarrow> bt_get m cid = Some e \<or> e \<in> set es \<and> ie_chunk_id e = cid"
  unfolding insert_index_entries_def
  by (induction es arbitrary: m) (fastforce split: if_splits)+

lemma loaded_indexed:
  assumes "load_chunk_index_entries L c map_store_ops master manifest (map_world m n) = (Ok es, w')"
    and "bt_get es cid = Some e"
  shows "indexed_by L c master m cid e"
proof -
  let ?step = "\<lambda>entries index_id.
       andThen (lift_result (object_key_for_id ''objects/index'' index_id)) (\<lambda>expected_index_object.
       andThen (map_error (referenced_object_read_error expected_index_object)
                 (read_chunk_index L c map_store_ops master index_id)) (\<lambda>index.
       ret (insert_index_entries (ci_chunks index) entries)))"
  let ?J = "\<lambda>(_ :: string list) (es :: (string, chunk_index_entry) btree_map) (w :: object_map world). w = map_world m n \<and>
      (\<forall>cid e. bt_get es cid = Some e \<longrightarrow> indexed_by L c master m cid e)"
  have "triple (?J past es) (?step es iid) (\<lambda>es'. ?J (past @ [iid]) es') (\<lambda>_. True)" for past :: "string list" and es iid
  proof (rule tripleI)
    fix w es' w' assume w: "?J past es w" and run: "?step es iid w = (Ok es', w')"
    then obtain index where read: "read_chunk_index L c map_store_ops master iid (map_world m n) = (Ok index, w')"
        and es': "es' = insert_index_entries (ci_chunks index) es"
      by (auto simp: prog_simps)
    have "w' = map_world m n" by (rule stable_snd [OF stable_read_chunk_index read])
    moreover have "indexed_by L c master m cid e" if "bt_get es' cid = Some e" for cid e
      using bt_get_insert_index_entries [OF that [unfolded es']] w read
      unfolding indexed_by_def by (metis fst_conv)
    ultimately show "?J (past @ [iid]) es' w'" by blast
  qed simp
  note loop = tripleD(1) [OF triple_for_each [where J = ?J and past = "[]", OF this]]
  have "?J (mb_index_ids (sm_body manifest)) es w'"
    using loop [OF _ assms(1) [unfolded load_chunk_index_entries_def]] by simp
  then show ?thesis using assms(2) by blast
qed

text \<open>The commit \<open>k\<close> leads to a manifest and indexes whose chunks are all among the targets.\<close>

definition commit_covered ::
  "library \<Rightarrow> backup_pipeline_config \<Rightarrow> master_key \<Rightarrow> object_map \<Rightarrow> (string, chunk_check_target) btree_map \<Rightarrow>
   object_key \<Rightarrow> bool" where
  "commit_covered L c master m targets k \<longleftrightarrow>
     (\<exists>sid manifest es n. object_key_for_commit sid = Ok k \<and>
        read_snapshot_manifest L c map_store_ops master sid (map_world m n) = (Ok manifest, map_world m n) \<and>
        load_chunk_index_entries L c map_store_ops master manifest (map_world m n) = (Ok es, map_world m n) \<and>
        entries_noted es (sm_snapshot_id manifest) targets (mb_entries (sm_body manifest)))"

lemma commit_covered_mono:
  assumes "commit_covered L c master m targets k" and "\<And>cid. bt_get targets cid \<noteq> None \<Longrightarrow> bt_get targets' cid \<noteq> None"
  shows "commit_covered L c master m targets' k"
  using assms unfolding commit_covered_def entries_noted_def chunk_noted_def by blast

lemma check_commit_marker_Ok:
  "check_commit_marker k commit = Ok mk \<Longrightarrow> object_key_for_commit (sc_snapshot_id commit) = Ok k"
  by (auto simp: check_commit_marker_def result_simps split: if_splits)

lemma check_commit_covers:
  assumes run: "check_commit L c map_store_ops master st k (map_world m n) = (Ok st', w')"
  shows "commit_covered L c master m (cs_targets st') k"
    and "bt_get (cs_targets st) cid \<noteq> None \<Longrightarrow> bt_get (cs_targets st') cid \<noteq> None"
    and "bt_get (cs_targets st') cid = Some t \<Longrightarrow>
      bt_get (cs_targets st) cid = Some t \<or> indexed_by L c master m cid (ct_indexed t)"
proof -
  let ?w = "map_world m n"
  obtain bs commit mk manifest mbytes es a b cxs w1 w2 where
      get: "on_store (map_error CoreStorage (get_object map_store_ops k)) ?w = (Ok bs, ?w)"
    and marker: "check_commit_marker k commit = Ok mk"
    and man: "read_snapshot_manifest_with_bytes L c map_store_ops master (sc_snapshot_id commit) ?w = (Ok (manifest, mbytes), w1)"
    and idx: "for_each (mb_index_ids (sm_body manifest)) (check_index L c map_store_ops master)
        ([], cs_metadata st + 2, cs_bytes st + word_of_nat (length bs) + mbytes) w1 = (Ok (es, a, b), w2)"
    and cxs: "fold_result (note_entry es (sm_snapshot_id manifest)) [] (mb_entries (sm_body manifest)) = Ok cxs"
    and ts: "fold_result (note_target es) (cs_targets st) cxs = Ok (cs_targets st')"
  proof -
    from run obtain bs w0 where get: "on_store (map_error CoreStorage (get_object map_store_ops k)) ?w = (Ok bs, w0)"
      unfolding check_commit_def andThen_Ok_iff by blast
    have "w0 = ?w" by (rule stable_snd [OF stable_get get])
    then show thesis
      using run get that
      by (auto simp: check_commit_def check_snapshot_def note_manifest_def bindR_Ok_iff andThen_Ok_iff
          map_error_Ok_iff split: if_splits prod.splits)
  qed
  have w1: "w1 = ?w" by (rule stable_snd [OF stable_read_manifest_with_bytes man])
  have load: "load_chunk_index_entries L c map_store_ops master manifest ?w = (Ok es, w2)"
    using check_index_loads [OF idx] by (simp add: w1)
  moreover have "w2 = ?w" by (rule stable_snd [OF stable_load_chunk_index_entries load])
  moreover have "read_snapshot_manifest L c map_store_ops master (sc_snapshot_id commit) ?w = (Ok manifest, ?w)"
    using with_bytes_manifest [OF man] by (simp add: w1)
  moreover have "entries_noted es (sm_snapshot_id manifest) (cs_targets st') (mb_entries (sm_body manifest))"
    using entries_noted_contexts [OF cxs] note_targets(2) [OF ts]
    unfolding entries_noted_def chunk_noted_def by blast
  ultimately show "commit_covered L c master m (cs_targets st') k"
    using check_commit_marker_Ok [OF marker] unfolding commit_covered_def by blast
  show "bt_get (cs_targets st) cid \<noteq> None \<Longrightarrow> bt_get (cs_targets st') cid \<noteq> None"
    by (rule note_targets(1) [OF ts])
  show "bt_get (cs_targets st') cid = Some t \<Longrightarrow>
      bt_get (cs_targets st) cid = Some t \<or> indexed_by L c master m cid (ct_indexed t)"
    using note_targets(3) [OF ts] loaded_indexed [OF load] by blast
qed

lemma check_commits_cover:
  assumes "for_each ks (check_commit L c map_store_ops master) st (map_world m n) = (Ok st', w')"
    and "cs_targets st = []"
  shows "\<forall>k \<in> set ks. commit_covered L c master m (cs_targets st') k"
    and "\<forall>cid t. bt_get (cs_targets st') cid = Some t \<longrightarrow> indexed_by L c master m cid (ct_indexed t)"
    and "w' = map_world m n"
proof -
  let ?J = "\<lambda>past st (w :: object_map world). w = map_world m n \<and>
      (\<forall>k \<in> set past. commit_covered L c master m (cs_targets st) k) \<and>
      (\<forall>cid t. bt_get (cs_targets st) cid = Some t \<longrightarrow> indexed_by L c master m cid (ct_indexed t))"
  have "triple (?J past st) (check_commit L c map_store_ops master st k) (\<lambda>st'. ?J (past @ [k]) st') (\<lambda>_. True)" for past st k
  proof (rule tripleI)
    fix w st' w' assume J: "?J past st w" and run: "check_commit L c map_store_ops master st k w = (Ok st', w')"
    then have run': "check_commit L c map_store_ops master st k (map_world m n) = (Ok st', w')" by simp
    note step = check_commit_covers [OF run']
    have "w' = map_world m n" by (rule stable_snd [OF stable_check_commit run'])
    moreover have "commit_covered L c master m (cs_targets st') k'" if "k' \<in> set (past @ [k])" for k'
      using that J step(1) commit_covered_mono [OF _ step(2)] by auto
    moreover have "indexed_by L c master m cid (ct_indexed t)" if "bt_get (cs_targets st') cid = Some t" for cid t
      using step(3) [OF that] J by blast
    ultimately show "?J (past @ [k]) st' w'" by blast
  qed simp
  note loop = tripleD(1) [OF triple_for_each [where J = ?J and past = "[]", OF this]]
  have "?J ks st' w'" using loop [OF _ assms(1)] assms(2) by simp
  then show "\<forall>k \<in> set ks. commit_covered L c master m (cs_targets st') k"
    "\<forall>cid t. bt_get (cs_targets st') cid = Some t \<longrightarrow> indexed_by L c master m cid (ct_indexed t)"
    "w' = map_world m n" by blast+
qed

text \<open>The object of a target decrypts to data of the indexed length and with the id of the target.\<close>

definition chunk_verified ::
  "library \<Rightarrow> backup_pipeline_config \<Rightarrow> master_key \<Rightarrow> subkey \<Rightarrow> object_map \<Rightarrow> string \<Rightarrow> chunk_index_entry \<Rightarrow> bool" where
  "chunk_verified L c master key m cid ie \<longleftrightarrow>
     (\<exists>k b compressed plain. object_key_new (ie_object_key ie) = Ok k \<and> m k = Some b \<and>
        decrypt_repository_object L key Chunk k b = Ok compressed \<and>
        (\<forall>sid p name. verified_plaintext L c master cid (ie_plaintext_length ie) sid p name compressed = Ok plain))"

lemma verified_plaintext_context:
  "verified_plaintext L c master cid len a b k compressed = Ok plain \<Longrightarrow>
    verified_plaintext L c master cid len a' b' k' compressed = Ok plain"
  by (auto simp: verified_plaintext_def Let_def result_simps split: if_splits)

lemma check_chunk_verifies:
  assumes "check_chunk L c map_store_ops master key targets acc cid (map_world m n) = (Ok r, w')"
  shows "chunk_verified L c master key m cid (ct_indexed (the (bt_get targets cid)))"
proof -
  obtain k b compressed plain sid p name where
      "object_key_new (ie_object_key (ct_indexed (the (bt_get targets cid)))) = Ok k" "m k = Some b"
      "decrypt_repository_object L key Chunk k b = Ok compressed"
      "verified_plaintext L c master cid (ie_plaintext_length (ct_indexed (the (bt_get targets cid)))) sid p name
        compressed = Ok plain"
    using assms
    by (auto simp: check_chunk_def Let_def andThen_Ok_iff get_map_world map_err_Ok_iff ok_or_Ok_iff)
  then show ?thesis unfolding chunk_verified_def using verified_plaintext_context by blast
qed

lemma check_chunks_verify:
  assumes "for_each cids (check_chunk L c map_store_ops master key targets) acc (map_world m n) = (Ok r, w')"
    and "cid \<in> set cids"
  shows "chunk_verified L c master key m cid (ct_indexed (the (bt_get targets cid)))"
  using assms
proof (induction cids arbitrary: acc)
  case (Cons x cids)
  then obtain a w1 where x: "check_chunk L c map_store_ops master key targets acc x (map_world m n) = (Ok a, w1)"
      "for_each cids (check_chunk L c map_store_ops master key targets) a w1 = (Ok r, w')"
    by (auto simp: andThen_Ok_iff)
  have "w1 = map_world m n" by (rule stable_snd [OF stable_check_chunk x(1)])
  then show ?case using Cons.IH [of a] Cons.prems(2) x check_chunk_verifies [OF x(1)] by auto
qed simp

lemma restore_verified_chunk:
  assumes noted: "bt_get es (mc_chunk_id ch) = Some ie" "validate_indexed_chunk_reference sid rel ch ie = Ok ()"
    and ok: "chunk_verified L c master key m (mc_chunk_id ch) ie"
  shows "\<exists>plain. restore_chunk L c map_store_ops master key sid rel es acc ch (map_world m n) =
    (Ok (acc @ plain), map_world m n)"
proof -
  have same: "mc_object_key ch = ie_object_key ie"
    using noted(2) by (auto simp: validate_indexed_chunk_reference_def Let_def split: if_splits)
  obtain k b compressed plain where "object_key_new (ie_object_key ie) = Ok k" "m k = Some b"
      "decrypt_repository_object L key Chunk k b = Ok compressed"
      "\<And>sid p name. verified_plaintext L c master (mc_chunk_id ch) (ie_plaintext_length ie) sid p name compressed = Ok plain"
    using ok unfolding chunk_verified_def by blast
  then show ?thesis
    using noted by (simp add: restore_chunk_def andThen_def get_map_world same)
qed

lemma for_each_succeeds:
  assumes "\<And>x acc. x \<in> set xs \<Longrightarrow> \<exists>acc'. f acc x w = (Ok acc', w)"
  shows "\<exists>acc'. for_each xs f acc w = (Ok acc', w)"
  using assms
proof (induction xs arbitrary: acc)
  case (Cons x xs)
  obtain a where "f acc x w = (Ok a, w)" using Cons.prems [of x acc] by auto
  then show ?case using Cons.IH [of a] Cons.prems by (simp add: andThen_def)
qed simp

lemma restore_noted_entry:
  assumes noted: "entry_kind (me_metadata e) = RegularFile \<Longrightarrow>
      (\<forall>ch \<in> set (me_chunks e). \<exists>ie. bt_get es (mc_chunk_id ch) = Some ie \<and>
        validate_indexed_chunk_reference sid (me_relative_path e) ch ie = Ok () \<and>
        chunk_verified L c master key m (mc_chunk_id ch) ie)"
  shows "\<exists>acc'. restore_entry L c map_store_ops master key sid es acc e (map_world m n) = (Ok acc', map_world m n)"
proof (cases "entry_kind (me_metadata e)")
  case RegularFile
  have "\<exists>contents. for_each (me_chunks e) (restore_chunk L c map_store_ops master key sid (me_relative_path e) es) []
      (map_world m n) = (Ok contents, map_world m n)"
    by (rule for_each_succeeds) (use noted [OF RegularFile] restore_verified_chunk in blast)
  then show ?thesis using RegularFile by (auto simp: restore_entry_def Let_def andThen_def)
next
  case Symlink
  then show ?thesis
    by (cases "symlink_target (me_metadata e)") (simp_all add: restore_entry_def Let_def)
qed (simp_all add: restore_entry_def Let_def)

lemma covered_restorable:
  assumes cov: "commit_covered L c master m targets k" and sid: "object_key_for_commit sid = Ok k"
    and key: "derive_key L c master ChunkData = Ok key"
    and indexed: "\<And>cid t. bt_get targets cid = Some t \<Longrightarrow>
      indexed_by L c master m cid (ct_indexed t) \<and> chunk_verified L c master key m cid (ct_indexed t)"
    and agree: "indexes_agree L c master m"
  shows "restorable L c master m sid"
proof -
  obtain manifest es n where
      man: "read_snapshot_manifest L c map_store_ops master sid (map_world m n) = (Ok manifest, map_world m n)"
    and load: "load_chunk_index_entries L c map_store_ops master manifest (map_world m n) = (Ok es, map_world m n)"
    and noted: "entries_noted es (sm_snapshot_id manifest) targets (mb_entries (sm_body manifest))"
    using cov commit_key_inj [OF _ sid] unfolding commit_covered_def by blast
  let ?w = "map_world m n"
  have entry: "\<exists>acc'. restore_entry L c map_store_ops master key (sm_snapshot_id manifest) es acc e ?w = (Ok acc', ?w)"
    if e: "e \<in> set (mb_entries (sm_body manifest))" for e acc
  proof (rule restore_noted_entry, rule ballI)
    fix ch assume regular: "entry_kind (me_metadata e) = RegularFile" and ch: "ch \<in> set (me_chunks e)"
    then have "chunk_noted es (sm_snapshot_id manifest) targets (me_relative_path e) ch"
      using noted e unfolding entries_noted_def by blast
    then obtain ie t where ie: "bt_get es (mc_chunk_id ch) = Some ie"
        "validate_indexed_chunk_reference (sm_snapshot_id manifest) (me_relative_path e) ch ie = Ok ()"
        and t: "bt_get targets (mc_chunk_id ch) = Some t"
      unfolding chunk_noted_def by blast
    have "ie_object_key ie = ie_object_key (ct_indexed t) \<and> ie_plaintext_length ie = ie_plaintext_length (ct_indexed t)"
      using agree loaded_indexed [OF load ie(1)] indexed [OF t] unfolding indexes_agree_def by blast
    then have "chunk_verified L c master key m (mc_chunk_id ch) ie"
      using indexed [OF t] unfolding chunk_verified_def by simp
    then show "\<exists>ie. bt_get es (mc_chunk_id ch) = Some ie \<and>
        validate_indexed_chunk_reference (sm_snapshot_id manifest) (me_relative_path e) ch ie = Ok () \<and>
        chunk_verified L c master key m (mc_chunk_id ch) ie"
      using ie by blast
  qed
  obtain mk where mk: "object_key_for_id ''objects/manifest'' sid = Ok mk"
    using man by (auto simp: read_snapshot_manifest_def andThen_Ok_iff)
  have scoped: "scoped_manifest_entries manifest [] = mb_entries (sm_body manifest)"
    by (simp add: scoped_manifest_entries_def)
  have "\<exists>rc. for_each (mb_entries (sm_body manifest))
      (restore_entry L c map_store_ops master key (sm_snapshot_id manifest) es) acc ?w = (Ok rc, ?w)" for acc
    by (rule for_each_succeeds) (rule entry)
  then obtain rc where "for_each (mb_entries (sm_body manifest))
      (restore_entry L c map_store_ops master key (sm_snapshot_id manifest) es)
      \<lparr>rc_snapshot_id = sm_snapshot_id manifest, rc_selected_entries = length (mb_entries (sm_body manifest)),
       rc_directories = [], rc_files = [], rc_symlinks = [], rc_metadata_warnings = []\<rparr> ?w = (Ok rc, ?w)"
    by blast
  then have "fst (restore_snapshot_contents L c map_store_ops master sid [] ?w) = Ok rc"
    by (simp add: restore_snapshot_contents_def Let_def normalize_restore_paths_def mk andThen_def map_error_def
        man scoped load key)
  then have "fst (restore_snapshot_contents L c map_store_ops master sid [] (map_world m 0)) = Ok rc"
    by (rule restore_mono [OF map_le_refl])
  then show ?thesis unfolding restorable_def by blast
qed

lemma commit_listed:
  assumes "object_key_for_commit sid = Ok k" and "object_key_prefix_new ''commits'' = Ok pre"
  shows "prefix_contains pre k"
proof -
  have "pre = ObjectKeyPrefix ''commits''" using assms(2) by (auto simp: object_key_prefix_new_def result_simps)
  then show ?thesis
    using object_key_for_commit_Ok [OF assms(1)] prefix_contains_slash [of "''commits''" sid] by simp
qed

lemma full_check_restorable:
  assumes run: "check_repository L c map_store_ops now master (map_world m n) = (Ok res, w')"
    and pre: "object_key_prefix_new ''commits'' = Ok pre" and fin: "finite {k. m k \<noteq> None \<and> prefix_contains pre k}"
    and agree: "indexes_agree L c master m"
  shows "commits_restorable L c master m"
proof -
  let ?w = "map_world m n"
  obtain key st a b w1 w2 where key: "derive_key L c master ChunkData = Ok key"
    and commits: "for_each (sort (sorted_list_of_set {k. m k \<noteq> None \<and> prefix_contains pre k}))
        (check_commit L c map_store_ops master) \<lparr>cs_metadata = 0, cs_bytes = 0, cs_targets = []\<rparr> ?w = (Ok st, w1)"
    and chunks: "for_each (map fst (cs_targets st)) (check_chunk L c map_store_ops master key (cs_targets st))
        (0, cs_bytes st) w1 = (Ok (a, b), w2)"
    using run pre
    by (auto simp: check_repository_def check_repository_with_options_def check_options_full_def
        select_check_chunk_ids_def andThen_Ok_iff map_err_Ok_iff on_store_Ok_iff map_error_Ok_iff
        map_store_ops_def map_world_def)
  note cover = check_commits_cover [OF commits]
  have targets: "indexed_by L c master m cid (ct_indexed t) \<and> chunk_verified L c master key m cid (ct_indexed t)"
    if "bt_get (cs_targets st) cid = Some t" for cid t
  proof -
    have "cid \<in> set (map fst (cs_targets st))"
      using that by (auto simp: bt_get_def dest: map_of_SomeD intro: rev_image_eqI)
    from check_chunks_verify [OF chunks [unfolded cover(3) [OF check_state.select_convs(3)]] this]
    show ?thesis using cover(2) that by simp
  qed
  show ?thesis
    unfolding commits_restorable_def
  proof (intro allI impI)
    fix sid k assume k: "object_key_for_commit sid = Ok k" "m k \<noteq> None"
    have "k \<in> set (sort (sorted_list_of_set {k. m k \<noteq> None \<and> prefix_contains pre k}))"
      using k fin commit_listed [OF k(1) pre] by simp
    then have "commit_covered L c master m (cs_targets st) k" using cover(1) by simp
    then show "restorable L c master m sid" by (rule covered_restorable [OF _ k(1) key targets agree])
  qed
qed

section \<open>Checking a store is checking its contents\<close>

definition targets_keyed :: "(string, chunk_check_target) btree_map \<Rightarrow> bool" where
  "targets_keyed ts \<longleftrightarrow> (\<forall>cid t. bt_get ts cid = Some t \<longrightarrow> repo_key (ObjectKey (ie_object_key (ct_indexed t))))"

lemma validate_same_key:
  "validate_indexed_chunk_reference sid rel ch ie = Ok u \<Longrightarrow> ie_object_key ie = mc_object_key ch"
  by (auto simp: validate_indexed_chunk_reference_def Let_def split: if_splits)

lemma contexts_keyed:
  assumes run: "fold_result (note_entry es sid) [] (mb_entries (sm_body manifest)) = Ok cxs"
    and keys: "manifest_keys_ok manifest"
  shows "\<forall>cid. bt_get cxs cid \<noteq> None \<longrightarrow> (\<forall>ie. bt_get es cid = Some ie \<longrightarrow> repo_key (ObjectKey (ie_object_key ie)))"
proof -
  let ?I = "\<lambda>cxs :: (string, chunk_reference_context) btree_map. \<forall>cid. bt_get cxs cid \<noteq> None \<longrightarrow>
      (\<forall>ie. bt_get es cid = Some ie \<longrightarrow> repo_key (ObjectKey (ie_object_key ie)))"
  have step: "?I cxs'" if e: "e \<in> set (mb_entries (sm_body manifest))" and I: "?I cxs"
    and noted: "note_entry es sid cxs e = Ok cxs'" for e cxs cxs'
  proof (cases "entry_kind (me_metadata e) = RegularFile")
    case True
    then have "fold_result (note_chunk es sid (me_relative_path e)) cxs (me_chunks e) = Ok cxs'"
      using noted by (simp add: note_entry_def)
    then show ?thesis
    proof (rule fold_result_inv [where I = ?I])
      fix acc ch acc' assume ch: "ch \<in> set (me_chunks e)" and acc: "?I acc"
        and run: "note_chunk es sid (me_relative_path e) acc ch = Ok acc'"
      have "repo_key (ObjectKey (mc_object_key ch))" using keys e ch by (simp add: manifest_keys_ok_def)
      then show "?I acc'"
        using run acc by (auto simp: note_chunk_Ok bt_get_or_insert dest!: validate_same_key split: if_splits)
    qed (rule I)
  qed (use I noted in \<open>simp add: note_entry_def\<close>)
  show ?thesis by (rule fold_result_inv [OF run, where I = ?I]) (use step in auto)
qed

lemma targets_keyed_notes:
  assumes cxs: "fold_result (note_entry es sid) [] (mb_entries (sm_body manifest)) = Ok cxs"
    and keys: "manifest_keys_ok manifest"
    and ts: "fold_result (note_target es) ts cxs = Ok ts'" and "targets_keyed ts"
  shows "targets_keyed ts'"
  using contexts_keyed [OF cxs keys] note_targets(3) [OF ts] assms(4) unfolding targets_keyed_def by blast

context repository_store
begin

lemma simulates_for_each_inv:
  assumes "\<And>acc x. x \<in> set xs \<Longrightarrow> I acc \<Longrightarrow> simulates J (f acc x) (f' acc x) I" and "I acc"
  shows "simulates J (for_each xs f acc) (for_each xs f' acc) I"
  using assms
proof (induction xs arbitrary: acc)
  case Nil
  then show ?case unfolding for_each.simps by (intro simulates_weaken [OF simulates_ret]) simp
next
  case (Cons x xs)
  have "simulates J (f acc x) (f' acc x) I" by (rule Cons.prems(1)) (simp_all add: Cons.prems(2))
  moreover have "simulates J (for_each xs f a) (for_each xs f' a) I" if "I a" for a
    by (rule Cons.IH [OF Cons.prems(1) that]) simp_all
  ultimately show ?case unfolding for_each.simps by (rule simulates_andThen)
qed

lemma sim_read_manifest_with_bytes:
  "sim J (read_snapshot_manifest_with_bytes L c ops master sid)
     (read_snapshot_manifest_with_bytes L c map_store_ops master sid)"
  unfolding read_snapshot_manifest_with_bytes_def case_prod_beta
  by (rule sim_rules)+ (auto intro!: sim_rules sim_read_json_with_bytes dest: repo_key_object simp: object_groups_def)

lemma sim_check_index:
  "sim J (check_index L c ops master acc iid) (check_index L c map_store_ops master acc iid)"
proof -
  have "sim J (read_chunk_index_with_bytes L c ops master iid) (read_chunk_index_with_bytes L c map_store_ops master iid)"
    unfolding read_chunk_index_with_bytes_def case_prod_beta
    by (rule sim_rules)+ (auto intro!: sim_rules sim_read_json_with_bytes dest: repo_key_object simp: object_groups_def)
  then show ?thesis
    unfolding check_index_def case_prod_beta by (intro sim_bind_lift sim_bind simulates_map_error sim_ret)
qed

lemma simulates_read_manifest_with_bytes:
  "simulates (well_keyed L c master) (read_snapshot_manifest_with_bytes L c ops master sid)
     (read_snapshot_manifest_with_bytes L c map_store_ops master sid) (\<lambda>x. manifest_keys_ok (fst x))"
  unfolding simulates_def
proof (intro allI impI)
  fix w r w'
  assume inv: "inv (w_store w)" and J: "well_keyed L c master (contents (w_store w))"
    and run: "read_snapshot_manifest_with_bytes L c ops master sid w = (r, w')"
  note sims = simulatesD [OF sim_read_manifest_with_bytes [where J = "well_keyed L c master"] inv J run]
  have "manifest_keys_ok (fst x)" if "r = Ok x" for x
  proof -
    have "read_snapshot_manifest L c map_store_ops master sid (view w) = (Ok (fst x), view w)"
      using sims(3) [OF that] with_bytes_manifest by (metis prod.collapse)
    then show ?thesis using J unfolding well_keyed_def view_def by (metis fst_conv)
  qed
  then show "inv (w_store w') \<and> view w' = view w \<and> (\<forall>x. r = Ok x \<longrightarrow>
      read_snapshot_manifest_with_bytes L c map_store_ops master sid (view w) = (Ok x, view w) \<and> manifest_keys_ok (fst x))"
    using sims(1,2) sims(3) by blast
qed

lemma sim_check_snapshot:
  assumes "targets_keyed (cs_targets st)"
  shows "simulates (well_keyed L c master) (check_snapshot L c ops master st sid mk)
    (check_snapshot L c map_store_ops master st sid mk) (\<lambda>st'. targets_keyed (cs_targets st'))"
  unfolding check_snapshot_def case_prod_beta
proof (rule simulates_andThen [OF simulates_map_error [OF simulates_read_manifest_with_bytes]],
    rule simulates_andThen [OF simulates_for_each [OF sim_check_index]],
    rule simulates_andThen [OF simulates_lift], rule simulates_weaken [OF simulates_ret])
  fix m x targets st'
  assume "manifest_keys_ok (fst m)" "note_manifest (fst x) (fst m) (cs_targets st) = Ok targets"
    "st' = \<lparr>cs_metadata = fst (snd x), cs_bytes = snd (snd x), cs_targets = targets\<rparr>"
  then show "targets_keyed (cs_targets st')"
    using targets_keyed_notes assms by (auto simp: note_manifest_def bindR_Ok_iff)
qed

lemma sim_check_commit:
  assumes "usable k" and st: "targets_keyed (cs_targets st)"
  shows "simulates (well_keyed L c master) (check_commit L c ops master st k) (check_commit L c map_store_ops master st k)
    (\<lambda>st'. targets_keyed (cs_targets st'))"
  unfolding check_commit_def
proof (rule simulates_andThen [OF simulates_get [OF assms(1)]], rule simulates_andThen [OF simulates_lift])
  fix bs commit
  let ?st = "st\<lparr>cs_metadata := cs_metadata st + 1, cs_bytes := cs_bytes st + word_of_nat (length bs)\<rparr>"
  have ok: "simulates (well_keyed L c master)
      (andThen (lift_result (check_commit_marker k commit)) (check_snapshot L c ops master ?st (sc_snapshot_id commit)))
      (andThen (lift_result (check_commit_marker k commit)) (check_snapshot L c map_store_ops master ?st (sc_snapshot_id commit)))
      (\<lambda>st'. targets_keyed (cs_targets st'))"
    by (rule simulates_andThen [OF simulates_lift sim_check_snapshot]) (simp add: st)
  have bad: "simulates (well_keyed L c master) (lift_result (Err e)) (lift_result (Err e))
      (\<lambda>st' :: check_state. targets_keyed (cs_targets st'))" for e :: core_error
    by (rule simulates_weaken [OF simulates_lift]) simp
  show "simulates (well_keyed L c master)
      (if sc_schema_version commit \<noteq> 0 then
         lift_result (Err (InvalidCommitMarker k ''unsupported commit marker schema version''))
       else andThen (lift_result (check_commit_marker k commit)) (check_snapshot L c ops master ?st (sc_snapshot_id commit)))
      (if sc_schema_version commit \<noteq> 0 then
         lift_result (Err (InvalidCommitMarker k ''unsupported commit marker schema version''))
       else andThen (lift_result (check_commit_marker k commit)) (check_snapshot L c map_store_ops master ?st (sc_snapshot_id commit)))
      (\<lambda>st'. targets_keyed (cs_targets st'))"
    using ok bad by simp
qed

lemma sim_check_chunk:
  assumes "targets_keyed targets" and "cid \<in> set (map fst targets)"
  shows "sim J (check_chunk L c ops master key targets acc cid) (check_chunk L c map_store_ops master key targets acc cid)"
proof -
  obtain t where t: "bt_get targets cid = Some t"
    using assms(2) by (cases "bt_get targets cid") (auto simp: bt_get_None_iff)
  have "key_valid k \<and> repo_key k" if "object_key_new (ie_object_key (ct_indexed t)) = Ok k" for k
    using assms(1) t that by (auto simp: targets_keyed_def object_key_new_Ok key_valid_def)
  then show ?thesis
    unfolding check_chunk_def Let_def t option.sel
    by (rule_tac sim_bind_lift) (auto intro!: sim_rules sim_get simp: map_err_Ok_iff)
qed

lemma sim_check_repository:
  "sim (well_keyed L c master) (check_repository_with_options L c ops now master options)
     (check_repository_with_options L c map_store_ops now master options)"
  unfolding check_repository_with_options_def
proof (rule sim_bind_lift, rule sim_bind_lift, rule simulates_list_sorted, erule listed_prefix_mapped, simp)
  fix chunk_key pre ks
  assume us: "\<And>k. k \<in> set ks \<Longrightarrow> usable k"
  let ?start = "\<lparr>cs_metadata = 0, cs_bytes = 0, cs_targets = []\<rparr>"
  have loop: "simulates (well_keyed L c master) (for_each ks (check_commit L c ops master) ?start)
      (for_each ks (check_commit L c map_store_ops master) ?start) (\<lambda>st. targets_keyed (cs_targets st))"
    by (rule simulates_for_each_inv [OF sim_check_commit]) (auto simp: us targets_keyed_def)
  have chunks: "sim (well_keyed L c master)
      (for_each (select_check_chunk_ids ts sel) (check_chunk L c ops master chunk_key ts) acc)
      (for_each (select_check_chunk_ids ts sel) (check_chunk L c map_store_ops master chunk_key ts) acc)"
    if "targets_keyed ts" for ts sel acc
    by (rule simulates_for_each, rule sim_check_chunk [OF that])
      (auto simp: select_check_chunk_ids_def dest: in_set_takeD)
  show "sim (well_keyed L c master)
    (andThen (for_each ks (check_commit L c ops master) ?start) (\<lambda>st.
     andThen (for_each (select_check_chunk_ids (cs_targets st) (co_read_data options))
                (check_chunk L c ops master chunk_key (cs_targets st)) (0, cs_bytes st)) (\<lambda>(chunks, bytes).
     andThen (lift_result (current_unix_seconds now)) (\<lambda>checked_at.
     ret \<lparr>cr_repository_id = pc_repository_id c, cr_checked_at = checked_at,
          cr_metadata_objects = cs_metadata st, cr_chunk_objects = chunks, cr_bytes_read = bytes,
          cr_mode = selection_mode (co_read_data options),
          cr_subset = selection_subset_label (co_read_data options),
          cr_errors = [], cr_warnings = []\<rparr>))))
    (andThen (for_each ks (check_commit L c map_store_ops master) ?start) (\<lambda>st.
     andThen (for_each (select_check_chunk_ids (cs_targets st) (co_read_data options))
                (check_chunk L c map_store_ops master chunk_key (cs_targets st)) (0, cs_bytes st)) (\<lambda>(chunks, bytes).
     andThen (lift_result (current_unix_seconds now)) (\<lambda>checked_at.
     ret \<lparr>cr_repository_id = pc_repository_id c, cr_checked_at = checked_at,
          cr_metadata_objects = cs_metadata st, cr_chunk_objects = chunks, cr_bytes_read = bytes,
          cr_mode = selection_mode (co_read_data options),
          cr_subset = selection_subset_label (co_read_data options),
          cr_errors = [], cr_warnings = []\<rparr>))))"
    by (rule simulates_andThen [OF loop], unfold case_prod_beta, intro sim_bind chunks sim_bind_lift sim_ret)
qed

lemma check_sound:
  assumes w: "inv (w_store w)" "well_keyed L c master (contents (w_store w))"
    and agree: "indexes_agree L c master (contents (w_store w))"
    and run: "check_repository L c ops now master w = (Ok res, w')"
  shows "inv (w_store w') \<and> contents (w_store w') = contents (w_store w) \<and>
    commits_restorable L c master (contents (w_store w))"
proof -
  let ?m = "contents (w_store w)"
  note sims = simulatesD [OF sim_check_repository w run [unfolded check_repository_def]]
  from run obtain pre ks w1 where pre: "object_key_prefix_new ''commits'' = Ok pre"
      and ks: "on_store (map_error CoreStorage (list_prefix ops pre)) w = (Ok ks, w1)"
    by (auto simp: check_repository_def check_repository_with_options_def andThen_Ok_iff map_err_Ok_iff)
  then obtain s1 where "list_prefix ops pre (w_store w) = (Ok ks, s1)"
    by (auto simp: on_store_Ok_iff map_error_Ok_iff)
  then have "set ks = {k. usable k \<and> ?m k \<noteq> None \<and> prefix_contains pre k}"
    using list_ok [OF w(1) listed_prefix_new [OF pre]] by blast
  then have "set ks = {k. ?m k \<noteq> None \<and> prefix_contains pre k}"
    using contents_usable [OF w(1)] by auto
  then have fin: "finite {k. ?m k \<noteq> None \<and> prefix_contains pre k}" by (metis List.finite_set)
  have "check_repository L c map_store_ops now master (map_world ?m (w_rng w)) =
      (Ok res, map_world ?m (w_rng w))"
    using sims(3) by (simp add: check_repository_def view_def)
  then have "commits_restorable L c master ?m"
    by (rule full_check_restorable [OF _ pre fin agree])
  then show ?thesis using sims(1,2) by (simp add: view_def map_world_def)
qed

end

section \<open>The statements\<close>

text \<open>
  C6: when a full check of a repository passes, every snapshot with a commit marker can be restored
  completely, on any store that meets the contract; the check changes nothing. The stored references
  are keys of the repository and the indexes agree on where each chunk is, which holds of what backups
  write; the check reads each chunk once, under the first index that names it.
\<close>

theorem full_check_proves_restorable:
  assumes store: "repository_store ops contents invar usable"
    and w: "invar (w_store w)" "well_keyed L c master (contents (w_store w))"
    and agree: "indexes_agree L c master (contents (w_store w))"
    and run: "check_repository L c ops now master w = (Ok res, w')"
  shows "invar (w_store w') \<and> contents (w_store w') = contents (w_store w) \<and>
    commits_restorable L c master (contents (w_store w))"
  by (rule repository_store.check_sound [OF store w agree run])

section \<open>A check of the concrete repository\<close>

lemma commits_prefix: "object_key_prefix_new ''commits'' = Ok (ObjectKeyPrefix ''commits'')"
proof -
  have "segment_ok ''commits''" by (rule lowercase_segment) simp_all
  then have "validate_key ''commits'' True = Ok ()"
    using segments_ok_shape [of "''commits''"] by (simp add: validate_key_def segment_ok_def)
  then show ?thesis by (simp add: object_key_prefix_new_def)
qed

lemmas commits_prefix_valid = object_key_prefix_new_valid [OF commits_prefix, THEN conjunct1]

lemma sample_listing: "list_prefix fake_store_ops (ObjectKeyPrefix ''commits'') sample_stored = (Ok [sample_commit_key], sample_stored)"
proof -
  obtain ks where list: "list_prefix fake_store_ops (ObjectKeyPrefix ''commits'') sample_stored = (Ok ks, sample_stored)"
    by (simp add: fake_store_ops_def fake_list_prefix_def)
  have keys: "bt_get sample_stored k \<noteq> None \<longleftrightarrow>
      k \<in> {sample_commit_key, sample_manifest_key, sample_index_key, sample_chunk_key}" for k
    by (auto simp: sample_stored_def simp del: bt_insert.simps split: if_splits)
  have "prefix_contains (ObjectKeyPrefix ''commits'') sample_commit_key"
    by (simp add: sample_commit_key_def prefix_contains_def strip_prefix_str_def)
  moreover have "\<not> prefix_contains (ObjectKeyPrefix ''commits'') k"
    if "k \<in> {sample_manifest_key, sample_index_key, sample_chunk_key}" for k
    using that by (auto simp: sample_manifest_key_def sample_index_key_def sample_chunk_key_def sample_key_for_def
        prefix_contains_def strip_prefix_str_def)
  moreover have "distinct ks \<and> set ks = {k. True \<and> bt_get sample_stored k \<noteq> None \<and> prefix_contains (ObjectKeyPrefix ''commits'') k}"
    by (rule fake.list_exact [OF _ _ list]) (simp_all add: sample_stored_def commits_prefix_valid del: bt_insert.simps)
  ultimately have "distinct ks" "set ks = {sample_commit_key}" unfolding keys by auto
  then have "ks = [sample_commit_key]" by (cases ks; cases "tl ks") auto
  with list show ?thesis by simp
qed

lemma sample_markers [simp]:
  "decode_at CommitDecode (commit_codec sample_lib) k [] = Ok sample_commit"
  "check_commit_marker sample_commit_key sample_commit = Ok sample_manifest_key"
  "sc_schema_version sample_commit = 0" "sc_snapshot_id sample_commit = sample_id []"
  "bt_get sample_stored sample_commit_key = Some []"
  by (simp_all add: decode_at_def sample_lib_def table_codec_def check_commit_marker_def sample_commit_def
      sample_stored_def del: bt_insert.simps)

lemma sample_read_with_bytes:
  "read_snapshot_manifest_with_bytes sample_lib sample_config fake_store_ops sample_master (sample_id []) sample_world =
     (Ok (sample_written_manifest, word_of_nat (length sample_manifest_object)), sample_world)"
  "read_chunk_index_with_bytes sample_lib sample_config fake_store_ops sample_master (sample_id []) sample_world =
     (Ok (sample_index, word_of_nat (length sample_index_object)), sample_world)"
  by (simp_all add: read_snapshot_manifest_with_bytes_def read_chunk_index_with_bytes_def
      read_encrypted_json_object_with_bytes_def andThen_def on_store_def map_error_def sample_manifest_object_def
      sample_index_object_def sample_ids identity_check_def sample_valid)

definition sample_target :: chunk_check_target where
  "sample_target = \<lparr>ct_indexed = sample_index_entry,
     ct_context = \<lparr>cx_snapshot_id = sample_id [], cx_path = [Normal ''a''], cx_object_key = as_str sample_chunk_key\<rparr>\<rparr>"

lemma sample_noted:
  "note_manifest [(sample_id [1, 2], sample_index_entry)] sample_written_manifest [] = Ok [(sample_id [1, 2], sample_target)]"
  by (simp add: note_manifest_def sample_body_def sample_entries_def manifest_entry_from_source_def note_entry_def
      note_chunk_def bt_get_def validate_indexed_chunk_reference_def sample_index_entry_def bt_or_insert_def
      note_target_def sample_target_def)

lemma sample_check_commit:
  "check_commit sample_lib sample_config fake_store_ops sample_master
     \<lparr>cs_metadata = 0, cs_bytes = 0, cs_targets = []\<rparr> sample_commit_key sample_world =
   (Ok \<lparr>cs_metadata = 3, cs_bytes = word_of_nat (length sample_manifest_object) + word_of_nat (length sample_index_object),
        cs_targets = [(sample_id [1, 2], sample_target)]\<rparr>, sample_world)"
proof -
  have insert: "insert_index_entries [sample_index_entry] [] = [(sample_id [1, 2], sample_index_entry)]"
    by (simp add: insert_index_entries_def sample_index_entry_def)
  show ?thesis
    by (simp add: check_commit_def check_snapshot_def check_index_def andThen_def on_store_def map_error_def
        sample_read_with_bytes insert sample_noted)
qed

lemma sample_check_chunk:
  "check_chunk sample_lib sample_config fake_store_ops sample_master (sample_derived ChunkData)
     [(sample_id [1, 2], sample_target)] acc (sample_id [1, 2]) sample_world =
   (Ok (fst acc + 1, snd acc + word_of_nat (length sample_chunk_object)), sample_world)"
proof -
  have "the (bt_get [(sample_id [1, 2], sample_target)] (sample_id [1, 2])) = sample_target"
    by (simp add: bt_get_def)
  moreover have "ie_object_key (ct_indexed sample_target) = as_str sample_chunk_key"
      "ie_plaintext_length (ct_indexed sample_target) = 2"
    by (simp_all add: sample_target_def sample_index_entry_def)
  ultimately show ?thesis
    by (simp add: check_chunk_def Let_def andThen_def on_store_def map_error_def sample_chunk_new
        sample_chunk_object_def sample_verified)
qed

lemma sample_check:
  "check_repository sample_lib sample_config fake_store_ops 0 sample_master sample_world =
     (Ok \<lparr>cr_repository_id = ''r'', cr_checked_at = 0, cr_metadata_objects = 3, cr_chunk_objects = 1,
         cr_bytes_read = word_of_nat (length sample_manifest_object) + word_of_nat (length sample_index_object) +
           word_of_nat (length sample_chunk_object),
         cr_mode = FullMode, cr_subset = None, cr_errors = [], cr_warnings = []\<rparr>, sample_world)"
proof -
  have "pc_repository_id sample_config = ''r''" by (simp add: sample_config_def pipeline_config_new_def)
  then show ?thesis
    by (simp add: check_repository_def check_repository_with_options_def check_options_full_def andThen_def
        on_store_def map_error_def commits_prefix sample_listing sample_check_commit select_check_chunk_ids_def
        sample_check_chunk current_unix_seconds_def selection_mode_def selection_subset_label_def)
qed

lemma sample_indexes_agree: "indexes_agree sample_lib sample_config sample_master m"
proof -
  have only: "i = sample_index" if "from_slice (index_codec sample_lib) b = Ok i" for b i
    using that by (simp add: sample_lib_def table_codec_def split: if_splits)
  have "i = sample_index"
    if "fst (read_chunk_index sample_lib sample_config map_store_ops sample_master iid w) = Ok i" for iid w i
    using that
    by (auto simp: read_chunk_index_def read_encrypted_json_object_def read_encrypted_json_object_with_bytes_def
        andThen_def Let_def map_err_Ok_iff dest: only split: sum.splits prod.splits if_splits)
  then have "e = sample_index_entry" if "indexed_by sample_lib sample_config sample_master m cid e" for cid e
    using that unfolding indexed_by_def by fastforce
  then show ?thesis unfolding indexes_agree_def by metis
qed

theorem full_check_proves_restorable_witness:
  "bt_wf sample_stored \<and> commits_restorable sample_lib sample_config sample_master (bt_get sample_stored)"
  using full_check_proves_restorable [OF fake.repository_store_axioms _ _ _ sample_check]
    sample_well_keyed sample_indexes_agree
  by (simp add: sample_stored_def del: bt_insert.simps)

text \<open>
  C28: the part of the chunks that a percentage check reads: a leading part of the ids in ascending order,
  the percentage of the number of chunks rounded up, never more than there are, and never none when there
  are some. The product must fit the machine, which it does for any number of chunks in memory.
\<close>

theorem percentage_subset_rounds_up:
  assumes "subset_percent p = Ok s" and "100 * length ts < 2 ^ 64"
  shows "prefix (select_check_chunk_ids ts (SubsetData s)) (map fst ts) \<and>
    (select_check_chunk_ids ts (SubsetData s) = [] \<longleftrightarrow> ts = []) \<and>
    length ts * unat p \<le> 100 * length (select_check_chunk_ids ts (SubsetData s)) \<and>
    100 * length (select_check_chunk_ids ts (SubsetData s)) < length ts * unat p + 100"
proof -
  let ?k = "length (select_check_chunk_ids ts (SubsetData s))" and ?n = "length ts * unat p"
  have s: "s = SubsetPercent p" and p: "1 \<le> p" "p \<le> 100"
    using assms(1) by (auto simp: subset_percent_def split: if_splits)
  have "?k = selected_count s (length ts)"
    using selected_count_le [of s "length ts"] by (simp add: select_check_chunk_ids_def)
  then have k: "?k = (?n + 99) div 100"
    using selected_count_percent [of "length ts" p] assms(2) p(2) by (simp add: s mult.commute)
  have "0 < unat p" using p(1) by (simp add: word_le_nat_alt)
  then have "?k = 0 \<longleftrightarrow> ts = []" unfolding k by (cases ts) (auto simp: div_eq_0_iff)
  moreover have "?n \<le> 100 * ?k" "100 * ?k < ?n + 100" unfolding k by linarith+
  moreover have "prefix (select_check_chunk_ids ts (SubsetData s)) (map fst ts)"
    by (simp add: select_check_chunk_ids_def take_is_prefix)
  ultimately show ?thesis by auto
qed

lemma sample_percent: "subset_percent 50 = Ok (SubsetPercent 50)"
  by (simp add: subset_percent_def)

theorem percentage_subset_rounds_up_witness:
  "select_check_chunk_ids [(''a'', sample_target), (''b'', sample_target), (''c'', sample_target)]
     (SubsetData (SubsetPercent 50)) = [''a'', ''b'']"
proof -
  let ?ts = "[(''a'', sample_target), (''b'', sample_target), (''c'', sample_target)]"
  let ?xs = "select_check_chunk_ids ?ts (SubsetData (SubsetPercent 50))"
  have "prefix ?xs [''a'', ''b'', ''c'']" "length ?xs = 2"
    using percentage_subset_rounds_up [OF sample_percent, of ?ts] by simp_all
  then have "?xs = take 2 [''a'', ''b'', ''c'']" by (metis append_eq_conv_conj prefix_def)
  then show ?thesis by simp
qed

end
