(* ===== verification/Ferry_Files.thy ===== *)
theory Ferry_Files
  imports Ferry_Platform
begin

text \<open>
  The part of \<open>std::fs\<close> that the local store and the restore write through: a tree of named nodes
  with symbolic links that are followed as POSIX does, files as inodes that hard links share, and
  modification times. Every call may fail for a reason of its own: \<open>os_fault\<close> decides by the number
  of the call, with any text, and how many bytes a failing write leaves. Paths are absolute.
\<close>

section \<open>The file system\<close>

datatype fs_node = DirNode | FileNode nat | LinkNode path | SpecialNode

record os =
  os_tree :: "(path, fs_node) btree_map"
  os_data :: "nat \<Rightarrow> bytes"
  os_next :: nat
  os_times :: "path \<Rightarrow> system_time option"
  os_fault :: "nat \<Rightarrow> (string \<times> nat) option"
  os_calls :: nat

definition node_type :: "fs_node \<Rightarrow> file_type" where
  "node_type n = (case n of DirNode \<Rightarrow> IsDir | FileNode _ \<Rightarrow> IsFile | LinkNode _ \<Rightarrow> IsSymlink | SpecialNode \<Rightarrow> IsOther)"

definition node_at :: "os \<Rightarrow> path \<Rightarrow> fs_node option" where
  "node_at s p = bt_get (os_tree s) p"

definition ENOENT :: io_error where "ENOENT = IoError NotFound ''No such file or directory''"
definition EEXIST :: io_error where "EEXIST = IoError AlreadyExists ''File exists''"
definition ENOTDIR :: io_error where "ENOTDIR = IoError OtherKind ''Not a directory''"
definition EISDIR :: io_error where "EISDIR = IoError OtherKind ''Is a directory''"
definition ELOOP :: io_error where "ELOOP = IoError OtherKind ''Too many levels of symbolic links''"
definition EPERM :: io_error where "EPERM = IoError OtherKind ''Operation not permitted''"

lemmas errno_defs = ENOENT_def EEXIST_def ENOTDIR_def EISDIR_def ELOOP_def EPERM_def

text \<open>Path resolution; \<open>n\<close> bounds the number of links that are followed, 40 on Linux.\<close>

function resolve :: "nat \<Rightarrow> (path \<Rightarrow> fs_node option) \<Rightarrow> path \<Rightarrow> component list \<Rightarrow> io_error + path" where
  "resolve n t acc [] = Ok acc"
| "resolve n t acc (RootDir # cs) = resolve n t [RootDir] cs"
| "resolve n t acc (CurDir # cs) = resolve n t acc cs"
| "resolve n t acc (ParentDir # cs) = resolve n t (if length acc > 1 then butlast acc else acc) cs"
| "resolve n t acc (Normal s # cs) =
     (let p = acc @ [Normal s] in
      case t p of
        Some (LinkNode target) \<Rightarrow>
          (case n of 0 \<Rightarrow> Err ELOOP | Suc m \<Rightarrow> resolve m t acc (target @ cs))
      | Some DirNode \<Rightarrow> resolve n t p cs
      | Some _ \<Rightarrow> if cs = [] then Ok p else Err ENOTDIR
      | None \<Rightarrow> if cs = [] then Ok p else Err ENOENT)"
  by pat_completeness auto
termination by (relation "measures [\<lambda>(n, _, _, _). n, \<lambda>(_, _, _, cs). length cs]") auto

definition MAX_LINKS :: nat where "MAX_LINKS = 40"

text \<open>The node that \<open>p\<close> names, a last link not followed.\<close>

definition locate :: "(path \<Rightarrow> fs_node option) \<Rightarrow> path \<Rightarrow> io_error + path" where
  "locate t p =
     (if p = [] then Err ENOENT
      else case last p of
        Normal s \<Rightarrow>
          bindR (resolve MAX_LINKS t [] (butlast p)) (\<lambda>d.
          case t d of
            Some DirNode \<Rightarrow> Ok (d @ [Normal s])
          | None \<Rightarrow> Err ENOENT
          | Some _ \<Rightarrow> Err ENOTDIR)
      | _ \<Rightarrow> resolve MAX_LINKS t [] p)"

section \<open>Calls\<close>

definition syscall :: "(os, io_error, 'a) prog \<Rightarrow> (os, io_error, 'a) prog" where
  "syscall f s =
     (case os_fault s (os_calls s) of
        Some (message, _) \<Rightarrow> (Err (IoError OtherKind message), s\<lparr>os_calls := Suc (os_calls s)\<rparr>)
      | None \<Rightarrow> f (s\<lparr>os_calls := Suc (os_calls s)\<rparr>))"

definition put_node :: "path \<Rightarrow> fs_node \<Rightarrow> os \<Rightarrow> os" where
  "put_node p nd s = s\<lparr>os_tree := bt_insert p nd (os_tree s), os_times := (os_times s)(p := None, butlast p := None)\<rparr>"

definition new_file :: "path \<Rightarrow> os \<Rightarrow> os" where
  "new_file p s = (put_node p (FileNode (os_next s)) s)
     \<lparr>os_data := (os_data s)(os_next s := []), os_next := Suc (os_next s)\<rparr>"

text \<open>\<open>fs::symlink_metadata\<close> and \<open>fs::metadata\<close>, as far as the callers look: the type.\<close>

definition os_lstat :: "path \<Rightarrow> (os, io_error, file_type) prog" where
  "os_lstat p = syscall (\<lambda>s.
     (bindR (locate (node_at s) p) (\<lambda>q. ok_or ENOENT (map_option node_type (node_at s q))), s))"

definition os_stat :: "path \<Rightarrow> (os, io_error, file_type) prog" where
  "os_stat p = syscall (\<lambda>s.
     (bindR (resolve MAX_LINKS (node_at s) [] p) (\<lambda>q. ok_or ENOENT (map_option node_type (node_at s q))), s))"

definition os_mkdir :: "path \<Rightarrow> (os, io_error, unit) prog" where
  "os_mkdir p = syscall (\<lambda>s.
     case locate (node_at s) p of
       Err e \<Rightarrow> (Err e, s)
     | Ok q \<Rightarrow> (case node_at s q of None \<Rightarrow> (Ok (), put_node q DirNode s) | Some _ \<Rightarrow> (Err EEXIST, s)))"

text \<open>\<open>Path::is_dir\<close> is false on any error.\<close>

definition os_is_dir :: "path \<Rightarrow> os \<Rightarrow> bool \<times> os" where
  "os_is_dir p s = (case os_stat p s of (Ok ty, s') \<Rightarrow> (ty = IsDir, s') | (Err _, s') \<Rightarrow> (False, s'))"

text \<open>\<open>fs::create_dir_all\<close>: make the directory, and its missing ancestors first when there are any.\<close>

definition mkdir_or_dir :: "path \<Rightarrow> (os, io_error, unit) prog" where
  "mkdir_or_dir p s =
     (case os_mkdir p s of
        (Ok _, s') \<Rightarrow> (Ok (), s')
      | (Err e, s') \<Rightarrow> (case os_is_dir p s' of (True, s'') \<Rightarrow> (Ok (), s'') | (False, s'') \<Rightarrow> (Err e, s'')))"

function os_create_dir_all :: "path \<Rightarrow> (os, io_error, unit) prog" where
  "os_create_dir_all p s =
     (if p = [] then (Ok (), s)
      else case os_mkdir p s of
        (Ok _, s1) \<Rightarrow> (Ok (), s1)
      | (Err e, s1) \<Rightarrow>
          if io_kind e = NotFound then
            (case path_parent p of
               None \<Rightarrow> (Err (IoError OtherKind ''failed to create whole tree''), s1)
             | Some parent \<Rightarrow> andThen (os_create_dir_all parent) (\<lambda>_. mkdir_or_dir p) s1)
          else (case os_is_dir p s1 of (True, s2) \<Rightarrow> (Ok (), s2) | (False, s2) \<Rightarrow> (Err e, s2)))"
  by pat_completeness auto
termination by (relation "measure (\<lambda>(p, s). length p)") (auto simp: path_parent_def split: if_splits)

declare os_create_dir_all.simps [simp del]

text \<open>Opening for writing with \<open>create_new\<close>, and with \<open>create\<close> and \<open>truncate\<close>; the value is the inode.\<close>

definition os_create_new :: "path \<Rightarrow> (os, io_error, nat) prog" where
  "os_create_new p = syscall (\<lambda>s.
     case locate (node_at s) p of
       Err e \<Rightarrow> (Err e, s)
     | Ok q \<Rightarrow> (case node_at s q of
           None \<Rightarrow> (Ok (os_next s), new_file q s)
         | Some _ \<Rightarrow> (Err EEXIST, s)))"

definition os_create_truncate :: "path \<Rightarrow> (os, io_error, nat) prog" where
  "os_create_truncate p = syscall (\<lambda>s.
     case resolve MAX_LINKS (node_at s) [] p of
       Err e \<Rightarrow> (Err e, s)
     | Ok q \<Rightarrow> (case node_at s q of
           None \<Rightarrow> (case node_at s (butlast q) of
               Some DirNode \<Rightarrow> (Ok (os_next s), new_file q s)
             | None \<Rightarrow> (Err ENOENT, s) | Some _ \<Rightarrow> (Err ENOTDIR, s))
         | Some (FileNode i) \<Rightarrow> (Ok i, s\<lparr>os_data := (os_data s)(i := []), os_times := (os_times s)(q := None)\<rparr>)
         | Some DirNode \<Rightarrow> (Err EISDIR, s)
         | Some _ \<Rightarrow> (Err EPERM, s)))"

text \<open>\<open>write_all\<close> to a file just opened; a failing write leaves the first bytes.\<close>

definition os_write_all :: "nat \<Rightarrow> bytes \<Rightarrow> (os, io_error, unit) prog" where
  "os_write_all i bs s =
     (let s' = s\<lparr>os_calls := Suc (os_calls s)\<rparr> in
      case os_fault s (os_calls s) of
        Some (message, k) \<Rightarrow> (Err (IoError OtherKind message), s'\<lparr>os_data := (os_data s)(i := take k bs)\<rparr>)
      | None \<Rightarrow> (Ok (), s'\<lparr>os_data := (os_data s)(i := bs)\<rparr>))"

definition os_sync_all :: "nat \<Rightarrow> (os, io_error, unit) prog" where
  "os_sync_all i = syscall (\<lambda>s. (Ok (), s))"

definition os_read :: "path \<Rightarrow> (os, io_error, bytes) prog" where
  "os_read p = syscall (\<lambda>s.
     (bindR (resolve MAX_LINKS (node_at s) [] p) (\<lambda>q.
        case node_at s q of
          None \<Rightarrow> Err ENOENT
        | Some (FileNode i) \<Rightarrow> Ok (os_data s i)
        | Some DirNode \<Rightarrow> Err EISDIR
        | Some _ \<Rightarrow> Err EPERM), s))"

definition os_hard_link :: "path \<Rightarrow> path \<Rightarrow> (os, io_error, unit) prog" where
  "os_hard_link original link = syscall (\<lambda>s.
     case bindR (locate (node_at s) original) (\<lambda>p. ok_or ENOENT (node_at s p)) of
       Err e \<Rightarrow> (Err e, s)
     | Ok nd \<Rightarrow>
         (case locate (node_at s) link of
            Err e \<Rightarrow> (Err e, s)
          | Ok q \<Rightarrow>
              if node_at s q \<noteq> None then (Err EEXIST, s)
              else case nd of FileNode i \<Rightarrow> (Ok (), put_node q (FileNode i) s) | _ \<Rightarrow> (Err EPERM, s)))"

definition os_remove_file :: "path \<Rightarrow> (os, io_error, unit) prog" where
  "os_remove_file p = syscall (\<lambda>s.
     case locate (node_at s) p of
       Err e \<Rightarrow> (Err e, s)
     | Ok q \<Rightarrow> (case node_at s q of
           None \<Rightarrow> (Err ENOENT, s)
         | Some DirNode \<Rightarrow> (Err EISDIR, s)
         | Some _ \<Rightarrow> (Ok (), s\<lparr>os_tree := bt_remove q (os_tree s), os_times := (os_times s)(butlast q := None)\<rparr>)))"

definition os_symlink :: "path \<Rightarrow> path \<Rightarrow> (os, io_error, unit) prog" where
  "os_symlink target link = syscall (\<lambda>s.
     case locate (node_at s) link of
       Err e \<Rightarrow> (Err e, s)
     | Ok q \<Rightarrow> (case node_at s q of None \<Rightarrow> (Ok (), put_node q (LinkNode target) s) | Some _ \<Rightarrow> (Err EEXIST, s)))"

text \<open>Opening a file for writing or a directory for reading, and setting its modification time.\<close>

definition os_open_existing :: "bool \<Rightarrow> path \<Rightarrow> (os, io_error, path) prog" where
  "os_open_existing for_writing p = syscall (\<lambda>s.
     (bindR (resolve MAX_LINKS (node_at s) [] p) (\<lambda>q.
        case node_at s q of
          None \<Rightarrow> Err ENOENT
        | Some DirNode \<Rightarrow> if for_writing then Err EISDIR else Ok q
        | Some _ \<Rightarrow> Ok q), s))"

definition os_set_times :: "path \<Rightarrow> system_time \<Rightarrow> (os, io_error, unit) prog" where
  "os_set_times q t = syscall (\<lambda>s. (Ok (), s\<lparr>os_times := (os_times s)(q := Some t)\<rparr>))"

text \<open>The entries of a directory with their types, as \<open>read_dir\<close> yields them.\<close>

definition child_names :: "os \<Rightarrow> path \<Rightarrow> string list" where
  "child_names s d = remdups (List.map_filter (\<lambda>(p, _).
     if p \<noteq> [] \<and> butlast p = d then (case last p of Normal c \<Rightarrow> Some c | _ \<Rightarrow> None) else None) (os_tree s))"

definition children :: "os \<Rightarrow> path \<Rightarrow> (string \<times> file_type) list" where
  "children s d = map (\<lambda>c. (c, node_type (the (node_at s (d @ [Normal c]))))) (child_names s d)"

definition os_read_dir :: "path \<Rightarrow> (os, io_error, (string \<times> file_type) list) prog" where
  "os_read_dir p = syscall (\<lambda>s.
     (bindR (resolve MAX_LINKS (node_at s) [] p) (\<lambda>q.
        case node_at s q of
          None \<Rightarrow> Err ENOENT
        | Some DirNode \<Rightarrow> Ok (children s q)
        | Some _ \<Rightarrow> Err ENOTDIR), s))"

text \<open>A call whose success tells nothing, such as the next step of an iterator.\<close>

definition os_touch :: "(os, io_error, unit) prog" where
  "os_touch = syscall (\<lambda>s. (Ok (), s))"

section \<open>Well-formed trees\<close>

definition named :: "component \<Rightarrow> bool" where
  "named c = (case c of Normal s \<Rightarrow> segment_wf s | _ \<Rightarrow> False)"

lemma named_iff: "named c \<longleftrightarrow> (\<exists>s. c = Normal s \<and> segment_wf s)"
  by (cases c) (simp_all add: named_def)

definition canonical :: "path \<Rightarrow> bool" where
  "canonical p \<longleftrightarrow> (\<exists>ns. p = RootDir # ns \<and> (\<forall>c \<in> set ns. named c))"

definition tree_wf :: "(path \<Rightarrow> fs_node option) \<Rightarrow> bool" where
  "tree_wf t \<longleftrightarrow> t [RootDir] = Some DirNode \<and> (\<forall>p. t p \<noteq> None \<longrightarrow> canonical p) \<and>
     (\<forall>p c. t (p @ [c]) \<noteq> None \<longrightarrow> p \<noteq> [] \<longrightarrow> t p = Some DirNode)"

definition os_wf :: "os \<Rightarrow> bool" where
  "os_wf s \<longleftrightarrow> bt_wf (os_tree s) \<and> tree_wf (node_at s) \<and> (\<forall>p i. node_at s p = Some (FileNode i) \<longrightarrow> i < os_next s)"

text \<open>No component of the path is a symbolic link.\<close>

definition link_free :: "(path \<Rightarrow> fs_node option) \<Rightarrow> path \<Rightarrow> bool" where
  "link_free t p \<longleftrightarrow> (\<forall>a target. prefix a p \<longrightarrow> t a \<noteq> Some (LinkNode target))"

lemma canonical_append: "canonical (p @ [c]) \<Longrightarrow> p \<noteq> [] \<Longrightarrow> canonical p \<and> named c"
  by (cases p) (auto simp: canonical_def)

lemma canonical_extend: "canonical p \<Longrightarrow> \<forall>c \<in> set q. named c \<Longrightarrow> canonical (p @ q)"
  by (auto simp: canonical_def)

lemma canonical_not_Nil: "canonical p \<Longrightarrow> p \<noteq> []"
  by (auto simp: canonical_def)

lemma canonical_root_or_snoc:
  assumes "canonical p"
  obtains (root) "p = [RootDir]" | (child) q s where "p = q @ [Normal s]" "canonical q"
proof -
  obtain ns where p: "p = RootDir # ns" "\<forall>c \<in> set ns. named c" using assms by (auto simp: canonical_def)
  show ?thesis
  proof (cases ns rule: rev_cases)
    case Nil
    then show ?thesis using p root by simp
  next
    case (snoc ms c)
    then obtain s where "c = Normal s" using p(2) by (auto simp: named_iff)
    then show ?thesis using child [of "RootDir # ms" s] snoc p by (simp add: canonical_def)
  qed
qed

lemma tree_wf_parent: "tree_wf t \<Longrightarrow> t (p @ [c]) \<noteq> None \<Longrightarrow> p \<noteq> [] \<Longrightarrow> t p = Some DirNode"
  unfolding tree_wf_def by blast

lemma tree_wf_ancestor:
  assumes "tree_wf t" and "t (a @ cs) \<noteq> None" and "a \<noteq> []" and "cs \<noteq> []"
  shows "t a = Some DirNode"
  using assms(2,4)
proof (induction cs rule: rev_induct)
  case (snoc c cs)
  have "t (a @ cs) = Some DirNode"
    using tree_wf_parent [OF assms(1), of "a @ cs" c] snoc.prems assms(3) by simp
  then show ?case using snoc.IH by (cases "cs = []") simp_all
qed simp

lemma link_free_prefix: "link_free t p \<Longrightarrow> prefix q p \<Longrightarrow> link_free t q"
  unfolding link_free_def by (meson prefix_order.trans)

lemma link_freeD: "link_free t p \<Longrightarrow> t p \<noteq> Some (LinkNode x)"
  unfolding link_free_def by blast

lemma resolve_link_free:
  assumes "tree_wf t" and "canonical (acc @ cs)" and "acc \<noteq> []" and "link_free t (acc @ cs)"
  shows "resolve n t acc cs = Ok (acc @ cs) \<or>
    resolve n t acc cs \<in> {Err ENOENT, Err ENOTDIR} \<and> t (acc @ cs) = None"
  using assms(2-4)
proof (induction cs arbitrary: acc)
  case (Cons c cs)
  obtain a acc' where "acc = a # acc'" using Cons.prems(2) by (cases acc) auto
  then obtain s where c: "c = Normal s" using Cons.prems(1) by (auto simp: canonical_def named_iff)
  let ?p = "acc @ [c]"
  have pre: "link_free t ?p" by (rule link_free_prefix [OF Cons.prems(3)]) simp
  have IH: "resolve n t ?p cs = Ok (acc @ c # cs) \<or>
      resolve n t ?p cs \<in> {Err ENOENT, Err ENOTDIR} \<and> t (acc @ c # cs) = None"
    using Cons.IH [of ?p] Cons.prems by simp
  have dir: "t (acc @ Normal s # cs) = None" if "t (acc @ [Normal s]) \<noteq> Some DirNode" "cs \<noteq> []"
    using tree_wf_ancestor [OF assms(1), of ?p cs] that c by (cases "t (acc @ Normal s # cs)") auto
  show ?case
  proof (cases "t ?p")
    case None
    then show ?thesis using dir c by (cases "cs = []") auto
  next
    case (Some nd)
    then show ?thesis using IH dir c link_freeD [OF pre]
      by (cases nd; cases "cs = []") auto
  qed
qed simp

lemma resolve_absolute:
  assumes "tree_wf t" and "canonical p" and "link_free t p"
  shows "resolve n t [] p = Ok p \<or> resolve n t [] p \<in> {Err ENOENT, Err ENOTDIR} \<and> t p = None"
proof -
  obtain ns where p: "p = RootDir # ns" using assms(2) by (auto simp: canonical_def)
  show ?thesis using resolve_link_free [OF assms(1), of "[RootDir]" ns n] assms(2,3) by (simp add: p)
qed

lemma locate_link_free:
  assumes wf: "tree_wf t" and p: "canonical (d @ [Normal s])" "canonical d" and free: "link_free t d"
  shows "locate t (d @ [Normal s]) = Ok (d @ [Normal s]) \<and> t d = Some DirNode \<or>
    locate t (d @ [Normal s]) \<in> {Err ENOENT, Err ENOTDIR} \<and> t (d @ [Normal s]) = None"
proof -
  have none: "t (d @ [Normal s]) = None" if "t d \<noteq> Some DirNode"
    using that tree_wf_parent [OF wf] canonical_not_Nil [OF p(2)] by blast
  consider "resolve MAX_LINKS t [] d = Ok d" | "resolve MAX_LINKS t [] d \<in> {Err ENOENT, Err ENOTDIR}" "t d = None"
    using resolve_absolute [OF wf p(2) free, of MAX_LINKS] by (elim disjE conjE)
  then show ?thesis
  proof cases
    case 1
    show ?thesis
    proof (cases "t d")
      case None
      then show ?thesis using 1 none by (simp add: locate_def)
    next
      case (Some nd)
      then show ?thesis using 1 none by (cases nd) (simp_all add: locate_def)
    qed
  next
    case 2
    then show ?thesis using none by (auto simp: locate_def)
  qed
qed

lemma locate_root [simp]: "locate t [RootDir] = Ok [RootDir]"
  by (simp add: locate_def)

text \<open>The two resolutions of a path without links, by what is at the path.\<close>

lemma locate_cases:
  assumes wf: "tree_wf t" and p: "canonical p" and clear: "link_free t (butlast p)"
  obtains (found) nd where "t p = Some nd" "locate t p = Ok p"
  | (free) "t p = None" "locate t p = Ok p" "t (butlast p) = Some DirNode" "p \<noteq> [RootDir]"
  | (missing) e where "t p = None" "locate t p = Err e" "e = ENOENT \<or> e = ENOTDIR"
  using p
proof (cases p rule: canonical_root_or_snoc)
  case root
  then show ?thesis using found wf by (simp add: tree_wf_def)
next
  case (child q s)
  then show ?thesis
    using locate_link_free [OF wf _ child(2), of s] p clear child(1) found that(2) missing by (cases "t p") auto
qed

lemma resolve_cases:
  assumes wf: "tree_wf t" and p: "canonical p" and free: "link_free t p"
  obtains (found) nd where "t p = Some nd" "resolve n t [] p = Ok p"
  | (missing) "t p = None" "resolve n t [] p = Ok p \<or> resolve n t [] p = Err ENOENT \<or> resolve n t [] p = Err ENOTDIR"
  using resolve_absolute [OF wf p free, of n] by (cases "t p") auto

section \<open>What the calls do\<close>

text \<open>\<open>same_files\<close>: nothing that a call can see has changed but the number of calls.\<close>

definition same_files :: "os \<Rightarrow> os \<Rightarrow> bool" where
  "same_files s s' \<longleftrightarrow> os_tree s' = os_tree s \<and> os_data s' = os_data s \<and> os_next s' = os_next s \<and>
     os_times s' = os_times s"

named_theorems files_simps

lemma same_files_refl [simp]: "same_files s s"
  by (simp add: same_files_def)

lemma same_files_trans: "same_files a b \<Longrightarrow> same_files b c \<Longrightarrow> same_files a c"
  by (simp add: same_files_def)

lemma same_files_calls [simp]: "same_files s (t\<lparr>os_calls := n\<rparr>) \<longleftrightarrow> same_files s t"
  "same_files (s\<lparr>os_calls := n\<rparr>) t \<longleftrightarrow> same_files s t"
  by (simp_all add: same_files_def)

lemma same_filesD [files_simps]:
  assumes "same_files s s'"
  shows "node_at s' = node_at s" "os_data s' = os_data s" "os_next s' = os_next s" "os_times s' = os_times s"
    "os_wf s' = os_wf s"
proof -
  show at: "node_at s' = node_at s" using assms by (simp add: same_files_def node_at_def fun_eq_iff)
  show "os_data s' = os_data s" "os_next s' = os_next s" "os_times s' = os_times s"
    using assms by (simp_all add: same_files_def)
  then show "os_wf s' = os_wf s" using assms by (simp add: os_wf_def at same_files_def)
qed

lemma node_at_calls [simp]: "node_at (s\<lparr>os_calls := n\<rparr>) = node_at s"
  "node_at (s\<lparr>os_data := d\<rparr>) = node_at s" "node_at (s\<lparr>os_times := ts\<rparr>) = node_at s"
  "node_at (s\<lparr>os_next := n\<rparr>) = node_at s"
  by (simp_all add: node_at_def fun_eq_iff)

lemma os_wf_calls [simp]: "os_wf (s\<lparr>os_calls := n\<rparr>) = os_wf s" "os_wf (s\<lparr>os_data := d\<rparr>) = os_wf s"
  "os_wf (s\<lparr>os_times := ts\<rparr>) = os_wf s"
  by (simp_all add: os_wf_def)

lemma node_at_put [simp]: "node_at (put_node p nd s) = (node_at s)(p \<mapsto> nd)"
  by (simp add: node_at_def put_node_def fun_eq_iff)

lemma put_node_sel [simp]: "os_data (put_node p nd s) = os_data s" "os_next (put_node p nd s) = os_next s"
  by (simp_all add: put_node_def)

lemma new_file_sel [simp]:
  "node_at (new_file p s) = (node_at s)(p \<mapsto> FileNode (os_next s))"
  "os_data (new_file p s) = (os_data s)(os_next s := [])" "os_next (new_file p s) = Suc (os_next s)"
  by (simp_all add: new_file_def)

lemma tree_wf_put:
  assumes wf: "tree_wf t" and p: "t p = None" "t (butlast p) = Some DirNode" "canonical p"
  shows "tree_wf (t(p \<mapsto> nd))"
proof -
  have root: "p \<noteq> [RootDir]" using wf p(1) by (auto simp: tree_wf_def)
  have "(t(p \<mapsto> nd)) q = Some DirNode" if "(t(p \<mapsto> nd)) (q @ [c]) \<noteq> None" "q \<noteq> []" for q c
  proof (cases "q @ [c] = p")
    case True
    then have "butlast p = q" by auto
    then show ?thesis using p(2) True by auto
  next
    case False
    then have "t q = Some DirNode" using that tree_wf_parent [OF wf] by simp
    then show ?thesis using p(1) by auto
  qed
  then show ?thesis using wf p(3) root by (auto simp: tree_wf_def)
qed

lemma os_wf_put:
  assumes "os_wf s" and "node_at s p = None" "node_at s (butlast p) = Some DirNode" "canonical p"
    and "\<And>i. nd = FileNode i \<Longrightarrow> i < os_next s"
  shows "os_wf (put_node p nd s)"
proof -
  have "bt_wf (os_tree (put_node p nd s))" using assms(1) by (simp add: os_wf_def put_node_def)
  moreover have "tree_wf (node_at (put_node p nd s))"
    using tree_wf_put [of "node_at s" p nd] assms(1-4) by (simp add: os_wf_def)
  ultimately show ?thesis using assms(1,5) by (auto simp: os_wf_def)
qed

lemma os_wf_new_file:
  assumes "os_wf s" and "node_at s p = None" "node_at s (butlast p) = Some DirNode" "canonical p"
  shows "os_wf (new_file p s)"
proof -
  have "bt_wf (os_tree (new_file p s))" using assms(1) by (simp add: os_wf_def new_file_def put_node_def)
  moreover have "tree_wf (node_at (new_file p s))"
    using tree_wf_put [of "node_at s" p "FileNode (os_next s)"] assms by (simp add: os_wf_def)
  moreover have "i < os_next (new_file p s)" if "node_at (new_file p s) q = Some (FileNode i)" for q i
    using assms(1) that by (auto simp: os_wf_def less_Suc_eq split: if_splits)
  ultimately show ?thesis by (simp add: os_wf_def)
qed

lemma os_wf_remove:
  assumes wf: "os_wf s" and p: "node_at s p = Some nd" "nd \<noteq> DirNode"
  shows "os_wf (s\<lparr>os_tree := bt_remove p (os_tree s), os_times := ts\<rparr>)"
proof -
  have at: "node_at (s\<lparr>os_tree := bt_remove p (os_tree s), os_times := ts\<rparr>) = (node_at s)(p := None)"
    by (simp add: node_at_def bt_get_remove fun_eq_iff)
  have "p \<noteq> [RootDir]" using wf p by (auto simp: os_wf_def tree_wf_def)
  moreover have "q \<noteq> p" if "node_at s (q @ [c]) \<noteq> None" "q \<noteq> []" for q c
    using tree_wf_parent [of "node_at s" q c] that wf p by (auto simp: os_wf_def)
  moreover have "node_at s q = Some DirNode" if "node_at s (q @ [c]) \<noteq> None" "q \<noteq> []" for q c
    using tree_wf_parent [of "node_at s" q c] that wf by (simp add: os_wf_def)
  moreover have "node_at s [RootDir] = Some DirNode" "\<forall>q. node_at s q \<noteq> None \<longrightarrow> canonical q"
    using wf by (auto simp: os_wf_def tree_wf_def)
  ultimately have "tree_wf ((node_at s)(p := None))"
    unfolding tree_wf_def by (metis fun_upd_apply)
  then show ?thesis using wf unfolding os_wf_def at by auto
qed

lemma syscall_cases:
  assumes "syscall f s = (r, s')"
  obtains (fault) message where "r = Err (IoError OtherKind message)" "same_files s s'"
  | (call) "f (s\<lparr>os_calls := Suc (os_calls s)\<rparr>) = (r, s')"
  using assms by (cases "os_fault s (os_calls s)") (auto simp: syscall_def)

lemma os_lstat_spec:
  assumes run: "os_lstat p s = (r, s')" and wf: "os_wf s" and p: "canonical p" "link_free (node_at s) (butlast p)"
  shows "same_files s s' \<and> (\<forall>ty. r = Ok ty \<longrightarrow> map_option node_type (node_at s p) = Some ty) \<and>
    (\<forall>e. r = Err e \<longrightarrow> io_kind e = NotFound \<longrightarrow> node_at s p = None)"
  using run unfolding os_lstat_def
proof (cases rule: syscall_cases)
  case call
  have "tree_wf (node_at s)" using wf by (simp add: os_wf_def)
  then show ?thesis using call by (cases rule: locate_cases [OF _ p]) auto
qed auto

lemma os_stat_spec:
  assumes run: "os_stat p s = (r, s')" and wf: "os_wf s" and p: "canonical p" "link_free (node_at s) p"
  shows "same_files s s' \<and> (\<forall>ty. r = Ok ty \<longrightarrow> map_option node_type (node_at s p) = Some ty) \<and>
    (\<forall>e. r = Err e \<longrightarrow> io_kind e = NotFound \<longrightarrow> node_at s p = None)"
  using run unfolding os_stat_def
proof (cases rule: syscall_cases)
  case call
  have "tree_wf (node_at s)" using wf by (simp add: os_wf_def)
  then show ?thesis using call by (cases rule: resolve_cases [OF _ p, of MAX_LINKS]) auto
qed auto

lemma os_mkdir_spec:
  assumes run: "os_mkdir p s = (r, s')" and wf: "os_wf s" and p: "canonical p" "link_free (node_at s) (butlast p)"
  shows "(\<exists>e. r = Err e) \<and> same_files s s' \<or>
    r = Ok () \<and> node_at s p = None \<and> node_at s (butlast p) = Some DirNode \<and> same_files (put_node p DirNode s) s'"
  using run unfolding os_mkdir_def
proof (cases rule: syscall_cases)
  case call
  have "tree_wf (node_at s)" using wf by (simp add: os_wf_def)
  then show ?thesis using call
    by (cases rule: locate_cases [OF _ p]) (auto simp: put_node_def same_files_def)
qed auto

lemma os_create_new_spec:
  assumes run: "os_create_new p s = (r, s')" and wf: "os_wf s" and p: "canonical p" "link_free (node_at s) (butlast p)"
  shows "(\<exists>e. r = Err e) \<and> same_files s s' \<or>
    r = Ok (os_next s) \<and> node_at s p = None \<and> node_at s (butlast p) = Some DirNode \<and> same_files (new_file p s) s'"
  using run unfolding os_create_new_def
proof (cases rule: syscall_cases)
  case call
  have "tree_wf (node_at s)" using wf by (simp add: os_wf_def)
  then show ?thesis using call
    by (cases rule: locate_cases [OF _ p]) (auto simp: put_node_def new_file_def same_files_def)
qed auto

lemma os_create_truncate_spec:
  assumes run: "os_create_truncate p s = (r, s')" and wf: "os_wf s" and p: "canonical p" "link_free (node_at s) p"
  shows "(\<exists>e. r = Err e) \<and> same_files s s' \<or>
    r = Ok (os_next s) \<and> node_at s p = None \<and> node_at s (butlast p) = Some DirNode \<and> same_files (new_file p s) s' \<or>
    (\<exists>i. r = Ok i \<and> node_at s p = Some (FileNode i) \<and>
       same_files (s\<lparr>os_data := (os_data s)(i := []), os_times := (os_times s)(p := None)\<rparr>) s')"
  using run unfolding os_create_truncate_def
proof (cases rule: syscall_cases)
  case call
  have "tree_wf (node_at s)" using wf by (simp add: os_wf_def)
  then show ?thesis using call
    by (cases rule: resolve_cases [OF _ p, of MAX_LINKS])
      (auto simp: put_node_def new_file_def same_files_def split: fs_node.splits option.splits)
qed auto

lemma os_write_all_spec:
  assumes "os_write_all i bs s = (r, s')"
  shows "node_at s' = node_at s \<and> os_next s' = os_next s \<and> os_times s' = os_times s \<and> (os_wf s' \<longleftrightarrow> os_wf s) \<and>
    (\<exists>b. os_data s' = (os_data s)(i := b) \<and> (r = Ok () \<longrightarrow> b = bs))"
  using assms by (auto simp: os_write_all_def Let_def split: option.splits)

lemma os_sync_all_spec: "os_sync_all i s = (r, s') \<Longrightarrow> same_files s s'"
  unfolding os_sync_all_def by (cases rule: syscall_cases) auto

lemma os_read_spec:
  assumes run: "os_read p s = (r, s')" and wf: "os_wf s" and p: "canonical p" "link_free (node_at s) p"
  shows "same_files s s' \<and> (\<forall>b. r = Ok b \<longrightarrow> (\<exists>i. node_at s p = Some (FileNode i) \<and> b = os_data s i)) \<and>
    (\<forall>e. r = Err e \<longrightarrow> io_kind e = NotFound \<longrightarrow> node_at s p = None)"
  using run unfolding os_read_def
proof (cases rule: syscall_cases)
  case call
  have "tree_wf (node_at s)" using wf by (simp add: os_wf_def)
  then show ?thesis using call
    by (cases rule: resolve_cases [OF _ p, of MAX_LINKS]) (auto simp: errno_defs split: fs_node.splits)
qed auto

lemma os_hard_link_spec:
  assumes run: "os_hard_link a b s = (r, s')" and wf: "os_wf s"
    and a: "canonical a" "link_free (node_at s) (butlast a)" and b: "canonical b" "link_free (node_at s) (butlast b)"
  shows "(\<exists>e. r = Err e \<and> (io_kind e = AlreadyExists \<longrightarrow> node_at s b \<noteq> None)) \<and> same_files s s' \<or>
    r = Ok () \<and> (\<exists>i. node_at s a = Some (FileNode i) \<and> same_files (put_node b (FileNode i) s) s') \<and>
      node_at s b = None \<and> node_at s (butlast b) = Some DirNode"
  using run unfolding os_hard_link_def
proof (cases rule: syscall_cases)
  case call
  have wf': "tree_wf (node_at s)" using wf by (simp add: os_wf_def)
  show ?thesis
  proof (cases rule: locate_cases [OF wf' a])
    case (1 nd)
    then show ?thesis using call
      by (cases rule: locate_cases [OF wf' b])
        (auto simp: errno_defs put_node_def same_files_def split: fs_node.splits)
  qed (use call in \<open>auto simp: errno_defs\<close>)
qed auto

lemma os_remove_file_spec:
  assumes run: "os_remove_file p s = (r, s')" and wf: "os_wf s" and p: "canonical p" "link_free (node_at s) (butlast p)"
  shows "(\<exists>e. r = Err e \<and> (io_kind e = NotFound \<longrightarrow> node_at s p = None)) \<and> same_files s s' \<or>
    r = Ok () \<and> (\<exists>nd. node_at s p = Some nd \<and> nd \<noteq> DirNode) \<and>
      node_at s' = (node_at s)(p := None) \<and> os_data s' = os_data s \<and> os_next s' = os_next s \<and> os_wf s'"
  using run unfolding os_remove_file_def
proof (cases rule: syscall_cases)
  case call
  have wf': "tree_wf (node_at s)" using wf by (simp add: os_wf_def)
  show ?thesis
  proof (cases rule: locate_cases [OF wf' p])
    case (1 nd)
    have at: "node_at (s\<lparr>os_calls := n, os_tree := bt_remove p (os_tree s), os_times := ts\<rparr>) = (node_at s)(p := None)" for n ts
      by (simp add: node_at_def bt_get_remove fun_eq_iff)
    have "os_wf (s\<lparr>os_calls := n, os_tree := bt_remove p (os_tree s), os_times := ts\<rparr>)" if "nd \<noteq> DirNode" for n ts
      using os_wf_remove [of "s\<lparr>os_calls := n\<rparr>" p nd ts] wf 1 that by simp
    then show ?thesis using call 1 at by (cases nd) (auto simp: errno_defs)
  qed (use call in \<open>auto simp: errno_defs\<close>)
qed auto

lemma os_symlink_spec:
  assumes run: "os_symlink target p s = (r, s')" and wf: "os_wf s" and p: "canonical p" "link_free (node_at s) (butlast p)"
  shows "(\<exists>e. r = Err e) \<and> same_files s s' \<or>
    r = Ok () \<and> node_at s p = None \<and> node_at s (butlast p) = Some DirNode \<and> same_files (put_node p (LinkNode target) s) s'"
  using run unfolding os_symlink_def
proof (cases rule: syscall_cases)
  case call
  have "tree_wf (node_at s)" using wf by (simp add: os_wf_def)
  then show ?thesis using call
    by (cases rule: locate_cases [OF _ p]) (auto simp: put_node_def same_files_def)
qed auto

section \<open>Creating directories\<close>

definition dirs_added :: "os \<Rightarrow> os \<Rightarrow> path \<Rightarrow> bool" where
  "dirs_added s s' p \<longleftrightarrow> os_wf s' \<and> os_data s' = os_data s \<and> os_next s' = os_next s \<and>
     (\<forall>q. node_at s' q = node_at s q \<or> node_at s q = None \<and> prefix q p \<and> node_at s' q = Some DirNode)"

lemma dirs_added_same: "os_wf s \<Longrightarrow> same_files s s' \<Longrightarrow> dirs_added s s' p"
  by (simp add: dirs_added_def files_simps)

lemma dirs_addedD:
  "dirs_added s s' p \<Longrightarrow> node_at s' q = node_at s q \<or> node_at s q = None \<and> prefix q p \<and> node_at s' q = Some DirNode"
  by (simp add: dirs_added_def)

lemma dirs_added_trans:
  assumes "dirs_added a b p" and "dirs_added b c q" and "prefix p q"
  shows "dirs_added a c q"
proof -
  have "node_at c x = node_at a x \<or> node_at a x = None \<and> prefix x q \<and> node_at c x = Some DirNode" for x
  proof (cases "node_at b x = node_at a x")
    case True
    then show ?thesis using dirs_addedD [OF assms(2), of x] by simp
  next
    case False
    then have b: "node_at a x = None" "prefix x p" "node_at b x = Some DirNode"
      using dirs_addedD [OF assms(1), of x] by simp_all
    have "node_at c x = node_at b x \<or> node_at b x = None"
      using dirs_addedD [OF assms(2), of x] by auto
    then show ?thesis using b prefix_order.trans [OF b(2) assms(3)] by simp
  qed
  then show ?thesis using assms(1,2) unfolding dirs_added_def by simp
qed

lemma dirs_added_prefix: "dirs_added a b p \<Longrightarrow> prefix p q \<Longrightarrow> dirs_added a b q"
  unfolding dirs_added_def by (meson prefix_order.trans)

lemma dirs_added_link_free:
  assumes "dirs_added s s' p" and "link_free (node_at s) q"
  shows "link_free (node_at s') q"
  unfolding link_free_def
proof (intro allI impI)
  fix a x assume "prefix a q"
  then have "node_at s a \<noteq> Some (LinkNode x)" using assms(2) by (simp add: link_free_def)
  moreover have "node_at s' a = node_at s a \<or> node_at s' a = Some DirNode"
    using dirs_addedD [OF assms(1), of a] by auto
  ultimately show "node_at s' a \<noteq> Some (LinkNode x)" by auto
qed

lemma mkdir_added:
  assumes "os_wf s" and "canonical p" and "node_at s p = None" "node_at s (butlast p) = Some DirNode"
    and "same_files (put_node p DirNode s) s'"
  shows "dirs_added s s' p \<and> node_at s' p = Some DirNode"
proof -
  have "os_wf (put_node p DirNode s)" by (rule os_wf_put [OF assms(1,3,4,2)]) simp
  then show ?thesis using assms(3,5) by (auto simp: dirs_added_def files_simps)
qed

lemma os_is_dir_spec:
  assumes "os_is_dir p s = (b, s')" and "os_wf s" and "canonical p" and "link_free (node_at s) p"
  shows "same_files s s' \<and> (b \<longrightarrow> node_at s p = Some DirNode)"
proof -
  obtain r where r: "os_stat p s = (r, s')" using assms(1) by (auto simp: os_is_dir_def split: prod.splits sum.splits)
  have dir: "nd = DirNode" if "node_type nd = IsDir" for nd using that by (cases nd) (simp_all add: node_type_def)
  from os_stat_spec [OF r assms(2-4)] show ?thesis
    using assms(1) r dir by (auto simp: os_is_dir_def split: sum.splits)
qed

lemma mkdir_or_dir_spec:
  assumes run: "mkdir_or_dir p s = (r, s')" and wf: "os_wf s" and p: "canonical p" "link_free (node_at s) p"
  shows "dirs_added s s' p \<and> (r = Ok () \<longrightarrow> node_at s' p = Some DirNode)"
proof -
  obtain r1 s1 where mk: "os_mkdir p s = (r1, s1)" by fastforce
  have par: "link_free (node_at s) (butlast p)" by (rule link_free_prefix [OF p(2)]) (simp add: prefixeq_butlast)
  from os_mkdir_spec [OF mk wf p(1) par] show ?thesis
  proof (elim disjE conjE exE)
    fix e assume e: "r1 = Err e" and same: "same_files s s1"
    obtain b s2 where d: "os_is_dir p s1 = (b, s2)" by fastforce
    have "same_files s1 s2 \<and> (b \<longrightarrow> node_at s1 p = Some DirNode)"
      by (rule os_is_dir_spec [OF d]) (use wf p same in \<open>simp_all add: files_simps\<close>)
    moreover have "s' = s2" "r = Ok () \<longrightarrow> b" using run mk e d by (auto simp: mkdir_or_dir_def split: bool.splits)
    ultimately show ?thesis
      using same wf dirs_added_same [OF wf same_files_trans [OF same]] by (auto simp: files_simps)
  next
    assume "r1 = Ok ()" and new: "node_at s p = None" "node_at s (butlast p) = Some DirNode"
      "same_files (put_node p DirNode s) s1"
    then have "s' = s1" using run mk by (simp add: mkdir_or_dir_def)
    then show ?thesis using mkdir_added [OF wf p(1) new] by simp
  qed
qed

lemma os_create_dir_all_spec:
  assumes "os_create_dir_all p s = (r, s')" and "os_wf s" and "canonical p" and "link_free (node_at s) p"
  shows "dirs_added s s' p \<and> (r = Ok () \<longrightarrow> node_at s' p = Some DirNode)"
  using assms
proof (induction p arbitrary: s r s' rule: rev_induct)
  case (snoc c d)
  let ?p = "d @ [c]"
  note run = snoc.prems(1) and wf = snoc.prems(2) and p = snoc.prems(3,4)
  have par: "link_free (node_at s) (butlast ?p)" by (rule link_free_prefix [OF p(2)]) simp
  obtain r1 s1 where mk: "os_mkdir ?p s = (r1, s1)" by fastforce
  from os_mkdir_spec [OF mk wf p(1) par] show ?case
  proof (elim disjE conjE exE)
    assume "r1 = Ok ()" and new: "node_at s ?p = None" "node_at s (butlast ?p) = Some DirNode"
      "same_files (put_node ?p DirNode s) s1"
    then have "s' = s1" using run mk by (simp add: os_create_dir_all.simps [of ?p])
    then show ?thesis using mkdir_added [OF wf p(1) new] by simp
  next
    fix e assume e: "r1 = Err e" and same: "same_files s s1"
    have s1: "dirs_added s s1 q" "os_wf s1" "link_free (node_at s1) ?p" for q
      using dirs_added_same [OF wf same] same wf p by (simp_all add: files_simps)
    show ?thesis
    proof (cases "io_kind e = NotFound")
      case False
      obtain b s2 where d: "os_is_dir ?p s1 = (b, s2)" by fastforce
      have "same_files s1 s2 \<and> (b \<longrightarrow> node_at s1 ?p = Some DirNode)"
        by (rule os_is_dir_spec [OF d s1(2) p(1) s1(3)])
      moreover have "s' = s2" "r = Ok () \<longrightarrow> b"
        using run mk e d False by (auto simp: os_create_dir_all.simps [of ?p] split: bool.splits)
      ultimately show ?thesis
        using same wf dirs_added_same [OF wf same_files_trans [OF same]] by (auto simp: files_simps)
    next
      case True
      show ?thesis
      proof (cases "c = RootDir")
        case True
        then have "s' = s1" "r \<noteq> Ok ()"
          using run mk e \<open>io_kind e = NotFound\<close> by (auto simp: os_create_dir_all.simps [of "d @ [RootDir]"] path_parent_def)
        then show ?thesis using s1 by simp
      next
        case nonroot: False
        then have d: "d \<noteq> []" using p(1) by (auto simp: canonical_def)
        have dc: "canonical d" using canonical_append [OF p(1) d] by blast
        have eq: "andThen (os_create_dir_all d) (\<lambda>_. mkdir_or_dir ?p) s1 = (r, s')"
          using run mk e True nonroot by (simp add: os_create_dir_all.simps [of ?p])
        obtain r2 s2 where rec: "os_create_dir_all d s1 = (r2, s2)" by fastforce
        have free: "link_free (node_at s1) d" by (rule link_free_prefix [OF s1(3)]) simp
        note IH = snoc.IH [OF rec s1(2) dc free]
        have s2: "dirs_added s s2 d" by (rule dirs_added_trans [OF s1(1) IH [THEN conjunct1] prefix_order.refl])
        show ?thesis
        proof (cases r2)
          case (Inl x)
          then have "s' = s2" "r \<noteq> Ok ()" using eq rec by (auto simp: andThen_def)
          then show ?thesis using dirs_added_prefix [OF s2] by simp
        next
          case (Inr u)
          then have "mkdir_or_dir ?p s2 = (r, s')" using eq rec by (simp add: andThen_def)
          from mkdir_or_dir_spec [OF this _ p(1)] have
            "dirs_added s2 s' ?p \<and> (r = Ok () \<longrightarrow> node_at s' ?p = Some DirNode)"
            using s2 dirs_added_link_free [OF s2 p(2)] by (simp add: dirs_added_def)
          then show ?thesis using dirs_added_trans [OF s2] by simp
        qed
      qed
    qed
  qed
qed (simp add: canonical_def)

section \<open>Reading directories\<close>

lemma os_touch_spec: "os_touch s = (r, s') \<Longrightarrow> same_files s s'"
  unfolding os_touch_def by (cases rule: syscall_cases) auto

lemma set_map_filter_iff: "y \<in> set (List.map_filter f xs) \<longleftrightarrow> (\<exists>x \<in> set xs. f x = Some y)"
  by (induction xs) (auto simp: List.map_filter_simps split: option.splits)

lemma set_child_names: "c \<in> set (child_names s d) \<longleftrightarrow> node_at s (d @ [Normal c]) \<noteq> None"
proof -
  have snoc: "(if p \<noteq> [] \<and> butlast p = d then (case last p of Normal c \<Rightarrow> Some c | _ \<Rightarrow> None) else None) = Some c
      \<longleftrightarrow> p = d @ [Normal c]" for p
    by (cases p rule: rev_cases) (auto split: component.splits)
  have "c \<in> set (child_names s d) \<longleftrightarrow> d @ [Normal c] \<in> fst ` set (os_tree s)"
    unfolding child_names_def set_remdups set_map_filter_iff by (force simp: snoc image_iff split_beta)
  then show ?thesis by (simp add: node_at_def bt_get_None_iff)
qed

lemma distinct_child_names: "distinct (child_names s d)"
  by (simp add: child_names_def)

lemma os_read_dir_Ok:
  assumes "os_read_dir d s = (Ok es, s')"
  shows "same_files s s' \<and> (\<exists>q. resolve MAX_LINKS (node_at s) [] d = Ok q \<and> node_at s q = Some DirNode \<and>
    es = children s q)"
  using assms unfolding os_read_dir_def
proof (cases rule: syscall_cases)
  case call
  have kids: "children (s\<lparr>os_calls := n\<rparr>) q = children s q" for n q
    by (simp add: children_def child_names_def node_at_def)
  obtain q where "resolve MAX_LINKS (node_at s) [] d = Ok q" "s' = s\<lparr>os_calls := Suc (os_calls s)\<rparr>"
    and "(case node_at s q of None \<Rightarrow> Err ENOENT | Some DirNode \<Rightarrow> Ok (children s' q) | Some _ \<Rightarrow> Err ENOTDIR) = Ok es"
    using call by (auto simp: bindR_Ok_iff)
  then show ?thesis by (auto simp: kids split: option.splits fs_node.splits)
qed auto

text \<open>Directories below a directory that resolves resolve too.\<close>

lemma resolve_child:
  assumes "resolve n t acc cs = Ok q" and "t q = Some DirNode" and "t (q @ [Normal c]) = Some DirNode"
  shows "resolve n t acc (cs @ [Normal c]) = Ok (q @ [Normal c])"
  using assms
proof (induction n t acc cs rule: resolve.induct)
  case (5 n t acc s cs)
  then show ?case
    by (auto simp: Let_def split: option.splits fs_node.splits nat.splits if_splits)
qed simp_all

end
