(* ===== verification/Ferry_Restore.thy ===== *)
theory Ferry_Restore
  imports Ferry_Reader Ferry_Files
begin

text \<open>
  \<open>restore_snapshot_to_destination\<close>: the contents of a snapshot are read from the store, every
  destination is checked before anything is written, then directories, files and symbolic links are
  created on the file system of \<open>Ferry_Files\<close>, and modification times are set last.
\<close>

section \<open>Requests and results\<close>

datatype restore_overwrite_policy = FailIfExists | OverwriteFiles

record restore_destination_request =
  dr_snapshot_id :: string
  dr_paths :: "path list"
  dr_destination :: path
  dr_overwrite :: restore_overwrite_policy
  dr_dry_run :: bool
  dr_verify :: bool

datatype restore_destination_action = WouldWrite | Written

record restore_destination_directory =
  dd_relative_path :: path
  dd_destination_path :: path
  dd_modified :: "timestamp metadata_value"
  dd_action :: restore_destination_action

record restore_destination_file =
  df_relative_path :: path
  df_destination_path :: path
  df_bytes :: u64
  df_modified :: "timestamp metadata_value"
  df_action :: restore_destination_action
  df_verified :: bool

record restore_destination_symlink =
  ds_relative_path :: path
  ds_destination_path :: path
  ds_target :: path
  ds_action :: restore_destination_action

record restore_destination_result =
  de_snapshot_id :: string
  de_selected_entries :: nat
  de_directories :: "restore_destination_directory list"
  de_files :: "restore_destination_file list"
  de_symlinks :: "restore_destination_symlink list"
  de_metadata_planned :: nat
  de_metadata_applied :: nat
  de_metadata_warnings :: "restore_metadata_warning list"
  de_bytes :: u64
  de_dry_run :: bool
  de_verified_files :: nat

datatype restored_metadata_target = TargetFile | TargetDirectory

section \<open>Checks before writing\<close>

definition validate_restore_destination_root :: "path \<Rightarrow> core_error + unit" where
  "validate_restore_destination_root destination =
     ensure (is_absolute destination) (RestoreDestinationNotAbsolute destination)"

definition safe_destination_path :: "path \<Rightarrow> path \<Rightarrow> core_error + path" where
  "safe_destination_path destination relative_path =
     bindR (normalize_restore_path relative_path) (\<lambda>relative_path.
     let destination_path = path_join destination relative_path in
     if path_starts_with destination_path destination then Ok destination_path
     else Err (RestoreDestinationEscapesRoot destination_path))"

text \<open>The loop over the components of the parent; the cursor is the path walked so far.\<close>

fun check_ancestor_links :: "path \<Rightarrow> path \<Rightarrow> path \<Rightarrow> component list \<Rightarrow> (os, core_error, unit) prog" where
  "check_ancestor_links root p cursor [] = ret ()"
| "check_ancestor_links root p cursor (c # cs) =
     (let cursor = path_join cursor [c] in
      if \<not> path_starts_with cursor root then check_ancestor_links root p cursor cs
      else andThen (outcome_of (os_lstat cursor)) (\<lambda>r.
        case r of
          Ok ty \<Rightarrow>
            if ty = IsSymlink then lift_result (Err (RestoreDestinationSymlink p cursor))
            else if ty = IsDir then check_ancestor_links root p cursor cs
            else lift_result (Err (RestoreDestinationKind cursor))
        | Err source \<Rightarrow>
            if io_kind source = NotFound then ret ()
            else lift_result (Err (RestoreDestinationWrite cursor source))))"

definition ensure_no_symlink_ancestor :: "path \<Rightarrow> path \<Rightarrow> (os, core_error, unit) prog" where
  "ensure_no_symlink_ancestor root p =
     andThen (lift_result (ok_or (RestoreDestinationEscapesRoot p) (path_parent p)))
       (check_ancestor_links root p [])"

definition ensure_restore_destination_safe ::
  "path \<Rightarrow> path \<Rightarrow> restore_overwrite_policy \<Rightarrow> (os, core_error, unit) prog" where
  "ensure_restore_destination_safe root p overwrite =
     andThen (ensure_no_symlink_ancestor root p) (\<lambda>_.
     andThen (outcome_of (os_lstat p)) (\<lambda>r. lift_result (case r of
         Ok ty \<Rightarrow>
           if ty = IsSymlink then Err (RestoreDestinationSymlink p p)
           else if ty = IsFile then
             (case overwrite of FailIfExists \<Rightarrow> Err (RestoreDestinationExists p) | OverwriteFiles \<Rightarrow> Ok ())
           else Err (RestoreDestinationKind p)
       | Err source \<Rightarrow>
           if io_kind source = NotFound then Ok () else Err (RestoreDestinationWrite p source))))"

definition ensure_restore_directory_destination_safe :: "path \<Rightarrow> path \<Rightarrow> (os, core_error, unit) prog" where
  "ensure_restore_directory_destination_safe root p =
     andThen (ensure_no_symlink_ancestor root p) (\<lambda>_.
     andThen (outcome_of (os_lstat p)) (\<lambda>r. lift_result (case r of
         Ok ty \<Rightarrow>
           if ty = IsSymlink then Err (RestoreDestinationSymlink p p)
           else if ty = IsDir then Ok ()
           else Err (RestoreDestinationKind p)
       | Err source \<Rightarrow>
           if io_kind source = NotFound then Ok () else Err (RestoreDestinationWrite p source))))"

definition ensure_restore_symlink_destination_safe :: "path \<Rightarrow> path \<Rightarrow> (os, core_error, unit) prog" where
  "ensure_restore_symlink_destination_safe root p =
     andThen (ensure_no_symlink_ancestor root p) (\<lambda>_.
     andThen (outcome_of (os_lstat p)) (\<lambda>r. lift_result (case r of
         Ok ty \<Rightarrow>
           if ty = IsSymlink then Err (RestoreDestinationSymlink p p)
           else Err (RestoreDestinationExists p)
       | Err source \<Rightarrow>
           if io_kind source = NotFound then Ok () else Err (RestoreDestinationWrite p source))))"

section \<open>Writing\<close>

definition create_restored_directory :: "path \<Rightarrow> (os, core_error, unit) prog" where
  "create_restored_directory p = map_error (RestoreDestinationWrite p) (os_create_dir_all p)"

definition create_parent :: "path \<Rightarrow> (os, core_error, unit) prog" where
  "create_parent p =
     (case path_parent p of
        Some parent \<Rightarrow> map_error (RestoreDestinationWrite parent) (os_create_dir_all parent)
      | None \<Rightarrow> ret ())"

definition verify_restored_file :: "path \<Rightarrow> bytes \<Rightarrow> (os, core_error, unit) prog" where
  "verify_restored_file p contents =
     andThen (map_error (RestoreVerificationRead p) (os_read p)) (\<lambda>restored.
     lift_result (if restored \<noteq> contents then Err (RestoreVerificationMismatch p) else Ok ()))"

definition write_restored_file ::
  "path \<Rightarrow> bytes \<Rightarrow> restore_overwrite_policy \<Rightarrow> bool \<Rightarrow> (os, core_error, unit) prog" where
  "write_restored_file p contents overwrite verify =
     andThen (create_parent p) (\<lambda>_.
     andThen (map_error (RestoreDestinationWrite p)
                (case overwrite of FailIfExists \<Rightarrow> os_create_new p | OverwriteFiles \<Rightarrow> os_create_truncate p)) (\<lambda>opened.
     andThen (map_error (RestoreDestinationWrite p) (os_write_all opened contents)) (\<lambda>_.
     andThen (map_error (RestoreDestinationWrite p) (os_sync_all opened)) (\<lambda>_.
     if verify then verify_restored_file p contents else ret ()))))"

definition create_restored_symlink :: "path \<Rightarrow> path \<Rightarrow> (os, core_error, unit) prog" where
  "create_restored_symlink target p =
     andThen (create_parent p) (\<lambda>_. map_error (RestoreDestinationWrite p) (os_symlink target p))"

section \<open>Modification times\<close>

definition modified_warning :: "path \<Rightarrow> string \<Rightarrow> restore_metadata_warning" where
  "modified_warning relative_path reason =
     \<lparr>rw_relative_path = relative_path, rw_field = ''modified'', rw_reason = reason\<rparr>"

definition restored_modified_time_or_warn ::
  "path \<Rightarrow> timestamp metadata_value \<Rightarrow> restore_metadata_warning list \<Rightarrow>
   system_time option \<times> restore_metadata_warning list" where
  "restored_modified_time_or_warn relative_path mtime warnings =
     (case mtime of
        Captured timestamp \<Rightarrow>
          (case system_time_from_timestamp timestamp of
             Some t \<Rightarrow> (Some t, warnings)
           | None \<Rightarrow> (None, warnings @ [modified_warning relative_path
               ''modified timestamp is outside the supported system time range'']))
      | Unsupported \<Rightarrow> (None, warnings @ [modified_warning relative_path ''modified timestamp was not captured''])
      | Denied reason \<Rightarrow> (None, warnings @ [modified_warning relative_path
          (''modified timestamp was denied during backup: '' @ reason)]))"

definition plan_restored_modified_timestamp ::
  "path \<Rightarrow> timestamp metadata_value \<Rightarrow> restore_metadata_warning list \<Rightarrow> restore_metadata_warning list" where
  "plan_restored_modified_timestamp relative_path mtime warnings =
     snd (restored_modified_time_or_warn relative_path mtime warnings)"

definition set_restored_modified_timestamp ::
  "path \<Rightarrow> restored_metadata_target \<Rightarrow> system_time \<Rightarrow> (os, io_error, unit) prog" where
  "set_restored_modified_timestamp p target t =
     andThen (os_open_existing (target = TargetFile) p) (\<lambda>opened. os_set_times opened t)"

text \<open>The number of times applied and the warnings so far; a failure is only a warning.\<close>

definition apply_restored_modified_timestamp ::
  "path \<Rightarrow> path \<Rightarrow> timestamp metadata_value \<Rightarrow> restored_metadata_target \<Rightarrow> nat \<times> restore_metadata_warning list \<Rightarrow>
   (os, core_error, nat \<times> restore_metadata_warning list) prog" where
  "apply_restored_modified_timestamp p relative_path mtime target acc =
     (case restored_modified_time_or_warn relative_path mtime (snd acc) of
        (None, warnings) \<Rightarrow> ret (fst acc, warnings)
      | (Some t, warnings) \<Rightarrow>
          andThen (outcome_of (set_restored_modified_timestamp p target t)) (\<lambda>r.
          ret (case r of
                 Ok _ \<Rightarrow> (fst acc + 1, warnings)
               | Err source \<Rightarrow> (fst acc, warnings @ [modified_warning relative_path
                   (''modified timestamp could not be applied: '' @ io_message source)]))))"

section \<open>The restore\<close>

definition planned_action :: "restore_destination_request \<Rightarrow> restore_destination_action" where
  "planned_action request = (if dr_dry_run request then WouldWrite else Written)"

definition prepare_directory ::
  "restore_destination_request \<Rightarrow> (restored_directory \<times> path) list \<Rightarrow> restored_directory \<Rightarrow>
   (os, core_error, (restored_directory \<times> path) list) prog" where
  "prepare_directory request prepared directory =
     andThen (lift_result (safe_destination_path (dr_destination request) (rd_relative_path directory))) (\<lambda>p.
     andThen (ensure_restore_directory_destination_safe (dr_destination request) p) (\<lambda>_.
     ret (prepared @ [(directory, p)])))"

definition prepare_file ::
  "restore_destination_request \<Rightarrow> (restored_file \<times> path) list \<Rightarrow> restored_file \<Rightarrow>
   (os, core_error, (restored_file \<times> path) list) prog" where
  "prepare_file request prepared rf =
     andThen (lift_result (safe_destination_path (dr_destination request) (rf_relative_path rf))) (\<lambda>p.
     andThen (ensure_restore_destination_safe (dr_destination request) p (dr_overwrite request)) (\<lambda>_.
     ret (prepared @ [(rf, p)])))"

definition prepare_symlink ::
  "restore_destination_request \<Rightarrow> (restored_symlink \<times> path) list \<Rightarrow> restored_symlink \<Rightarrow>
   (os, core_error, (restored_symlink \<times> path) list) prog" where
  "prepare_symlink request prepared symlink =
     andThen (lift_result (safe_destination_path (dr_destination request) (rs_relative_path symlink))) (\<lambda>p.
     andThen (ensure_restore_symlink_destination_safe (dr_destination request) p) (\<lambda>_.
     ret (prepared @ [(symlink, p)])))"

definition write_directory ::
  "restore_destination_request \<Rightarrow> restore_destination_directory list \<Rightarrow> restored_directory \<times> path \<Rightarrow>
   (os, core_error, restore_destination_directory list) prog" where
  "write_directory request planned prepared =
     (case prepared of (directory, p) \<Rightarrow>
        andThen (if dr_dry_run request then ret () else create_restored_directory p) (\<lambda>_.
        ret (planned @ [\<lparr>dd_relative_path = rd_relative_path directory, dd_destination_path = p,
                         dd_modified = rd_modified directory, dd_action = planned_action request\<rparr>])))"

definition write_file ::
  "restore_destination_request \<Rightarrow> restore_destination_file list \<Rightarrow> restored_file \<times> path \<Rightarrow>
   (os, core_error, restore_destination_file list) prog" where
  "write_file request planned prepared =
     (case prepared of (rf, p) \<Rightarrow>
        andThen (if dr_dry_run request then ret ()
                 else write_restored_file p (rf_contents rf) (dr_overwrite request) (dr_verify request)) (\<lambda>_.
        ret (planned @ [\<lparr>df_relative_path = rf_relative_path rf, df_destination_path = p,
                         df_bytes = word_of_nat (length (rf_contents rf)), df_modified = rf_modified rf,
                         df_action = planned_action request,
                         df_verified = (dr_verify request \<and> \<not> dr_dry_run request)\<rparr>])))"

definition write_symlink ::
  "restore_destination_request \<Rightarrow> restore_destination_symlink list \<Rightarrow> restored_symlink \<times> path \<Rightarrow>
   (os, core_error, restore_destination_symlink list) prog" where
  "write_symlink request planned prepared =
     (case prepared of (symlink, p) \<Rightarrow>
        andThen (if dr_dry_run request then ret () else create_restored_symlink (rs_target symlink) p) (\<lambda>_.
        ret (planned @ [\<lparr>ds_relative_path = rs_relative_path symlink, ds_destination_path = p,
                         ds_target = rs_target symlink, ds_action = planned_action request\<rparr>])))"

text \<open>The times of the files, then of the directories: writing into a directory would change its time.\<close>

definition apply_times ::
  "restore_destination_file list \<Rightarrow> restore_destination_directory list \<Rightarrow> restore_metadata_warning list \<Rightarrow>
   (os, core_error, nat \<times> restore_metadata_warning list) prog" where
  "apply_times planned_files planned_directories warnings =
     andThen (for_each planned_files (\<lambda>acc f. apply_restored_modified_timestamp
                (df_destination_path f) (df_relative_path f) (df_modified f) TargetFile acc) (0, warnings)) (\<lambda>acc.
     for_each planned_directories (\<lambda>acc d. apply_restored_modified_timestamp
                (dd_destination_path d) (dd_relative_path d) (dd_modified d) TargetDirectory acc) acc)"

definition plan_times ::
  "restore_destination_file list \<Rightarrow> restore_destination_directory list \<Rightarrow> restore_metadata_warning list \<Rightarrow>
   restore_metadata_warning list" where
  "plan_times planned_files planned_directories warnings =
     foldl (\<lambda>ws d. plan_restored_modified_timestamp (dd_relative_path d) (dd_modified d) ws)
       (foldl (\<lambda>ws f. plan_restored_modified_timestamp (df_relative_path f) (df_modified f) ws) warnings planned_files)
       planned_directories"

text \<open>Everything after the contents have been read.\<close>

definition place_contents ::
  "restore_destination_request \<Rightarrow> restore_content_result \<Rightarrow> (os, core_error, restore_destination_result) prog" where
  "place_contents request contents =
     andThen (for_each (rc_directories contents) (prepare_directory request) []) (\<lambda>prepared_directories.
     andThen (for_each (rc_files contents) (prepare_file request) []) (\<lambda>prepared_files.
     andThen (for_each (rc_symlinks contents) (prepare_symlink request) []) (\<lambda>prepared_symlinks.
     andThen (for_each prepared_directories (write_directory request) []) (\<lambda>planned_directories.
     andThen (for_each prepared_files (write_file request) []) (\<lambda>planned_files.
     andThen (for_each prepared_symlinks (write_symlink request) []) (\<lambda>planned_symlinks.
     andThen (if dr_dry_run request
              then ret (0, plan_times planned_files planned_directories (rc_metadata_warnings contents))
              else apply_times planned_files planned_directories (rc_metadata_warnings contents)) (\<lambda>(applied, warnings).
     ret \<lparr>de_snapshot_id = rc_snapshot_id contents, de_selected_entries = rc_selected_entries contents,
          de_directories = planned_directories, de_files = planned_files, de_symlinks = planned_symlinks,
          de_metadata_planned = length planned_files + length planned_directories,
          de_metadata_applied = applied, de_metadata_warnings = warnings,
          de_bytes = sum_list (map df_bytes planned_files), de_dry_run = dr_dry_run request,
          de_verified_files = (if dr_verify request \<and> \<not> dr_dry_run request
            then length (rc_files contents) else 0)\<rparr>)))))))"

text \<open>A machine: the store and the file system.\<close>

record 's host =
  ho_world :: "'s world"
  ho_os :: os

definition in_world :: "('s world, 'e, 'a) prog \<Rightarrow> ('s host, 'e, 'a) prog" where
  "in_world m h = (case m (ho_world h) of (r, w) \<Rightarrow> (r, h\<lparr>ho_world := w\<rparr>))"

definition in_os :: "(os, 'e, 'a) prog \<Rightarrow> ('s host, 'e, 'a) prog" where
  "in_os m h = (case m (ho_os h) of (r, o') \<Rightarrow> (r, h\<lparr>ho_os := o'\<rparr>))"

definition restore_snapshot_to_destination ::
  "library \<Rightarrow> backup_pipeline_config \<Rightarrow> 's store_ops \<Rightarrow> master_key \<Rightarrow> restore_destination_request \<Rightarrow>
   ('s host, core_error, restore_destination_result) prog" where
  "restore_snapshot_to_destination L c store master request =
     andThen (lift_result (validate_restore_destination_root (dr_destination request))) (\<lambda>_.
     andThen (in_world (restore_snapshot_contents L c store master (dr_snapshot_id request) (dr_paths request))) (\<lambda>contents.
     in_os (place_contents request contents)))"

end
