(* ===== verification/Ferry_Local.thy ===== *)
theory Ferry_Local
  imports Ferry_View Ferry_Files
begin

text \<open>
  \<open>LocalStore\<close>: objects as files below a root directory, published by a hard link from a temporary
  file, on the file system of \<open>Ferry_Files\<close>. The store meets the contract of \<open>object_store\<close> whatever
  calls fail, which covers a process that dies at any point: from then on every call fails.
\<close>

section \<open>Paths\<close>

text \<open>The state of a process: the file system and the static counter of \<open>temp_path\<close>.\<close>

record local_state =
  lc_os :: os
  lc_next_temp :: u64

definition object_path :: "path \<Rightarrow> object_key \<Rightarrow> path" where
  "object_path root key = path_join root (key_relative_path key)"

definition prefix_path :: "path \<Rightarrow> object_key_prefix \<Rightarrow> path" where
  "prefix_path root p = path_join root (prefix_relative_path p)"

definition temp_dir :: "path \<Rightarrow> path" where
  "temp_dir root = path_join root [Normal ''.fileferry-tmp'']"

definition temp_name :: "nat \<Rightarrow> object_key \<Rightarrow> u64 \<Rightarrow> string" where
  "temp_name pid key n =
     show_nat pid @ ''-'' @ map (\<lambda>c. if c = CHR ''/'' then CHR ''_'' else c) (as_str key) @ ''-'' @
       show_nat (unat n) @ ''.part''"

definition temp_path :: "path \<Rightarrow> nat \<Rightarrow> object_key \<Rightarrow> (local_state, 'e, path) prog" where
  "temp_path root pid key = (\<lambda>s.
     (Ok (path_join (temp_dir root) [Normal (temp_name pid key (lc_next_temp s))]),
      s\<lparr>lc_next_temp := lc_next_temp s + 1\<rparr>))"

definition on_os :: "(os, 'e, 'a) prog \<Rightarrow> (local_state, 'e, 'a) prog" where
  "on_os m = (\<lambda>s. case m (lc_os s) of (r, o') \<Rightarrow> (r, s\<lparr>lc_os := o'\<rparr>))"

section \<open>Operations\<close>

definition remove_temp :: "path \<Rightarrow> (local_state, storage_error, unit) prog" where
  "remove_temp p =
     andThen (outcome_of (on_os (os_remove_file p))) (\<lambda>r. lift_result
       (case r of
          Ok _ \<Rightarrow> Ok ()
        | Err source \<Rightarrow>
            if io_kind source = NotFound then Ok () else Err (StorageIo ''remove temporary object'' source)))"

definition read_existing_for_compare :: "object_key \<Rightarrow> path \<Rightarrow> (local_state, storage_error, bytes) prog" where
  "read_existing_for_compare key p = on_os (map_error (object_io ''read existing object'' key) (os_read p))"

definition publish_temp :: "object_key \<Rightarrow> bytes \<Rightarrow> path \<Rightarrow> path \<Rightarrow> (local_state, storage_error, put_status) prog" where
  "publish_temp key bs temp p =
     andThen (outcome_of (on_os (os_hard_link temp p))) (\<lambda>r.
     case r of
       Ok _ \<Rightarrow> andThen (remove_temp temp) (\<lambda>_. ret Created)
     | Err source \<Rightarrow>
         andThen (remove_temp temp) (\<lambda>_.
         if io_kind source = AlreadyExists then
           andThen (read_existing_for_compare key p) (\<lambda>existing.
           lift_result (if existing = bs then Ok AlreadyPresent else Err (ObjectAlreadyExists key)))
         else lift_result (Err (object_io ''publish object'' key source))))"

definition local_put :: "path \<Rightarrow> nat \<Rightarrow> object_key \<Rightarrow> bytes \<Rightarrow> (local_state, storage_error, put_status) prog" where
  "local_put root pid key bs =
     andThen (temp_path root pid key) (\<lambda>temp.
     andThen (case path_parent (object_path root key) of
                Some parent \<Rightarrow> on_os (map_error (object_io ''create object parent'' key) (os_create_dir_all parent))
              | None \<Rightarrow> ret ()) (\<lambda>_.
     andThen (on_os (map_error (StorageIo ''create temporary object directory'') (os_create_dir_all (temp_dir root)))) (\<lambda>_.
     andThen (on_os (map_error (StorageIo ''create temporary object'') (os_create_new temp))) (\<lambda>h.
     andThen (on_os (map_error (StorageIo ''write temporary object'') (os_write_all h bs))) (\<lambda>_.
     andThen (on_os (map_error (StorageIo ''sync temporary object'') (os_sync_all h))) (\<lambda>_.
     publish_temp key bs temp (object_path root key)))))))"

definition local_get :: "path \<Rightarrow> object_key \<Rightarrow> (local_state, storage_error, bytes) prog" where
  "local_get root key = on_os (map_error (object_io ''read object'' key) (os_read (object_path root key)))"

definition local_exists :: "path \<Rightarrow> object_key \<Rightarrow> (local_state, storage_error, bool) prog" where
  "local_exists root key =
     andThen (outcome_of (on_os (os_stat (object_path root key)))) (\<lambda>r. lift_result
       (case r of
          Ok ty \<Rightarrow> Ok (ty = IsFile)
        | Err source \<Rightarrow>
            if io_kind source = NotFound then Ok False else Err (object_io ''stat object'' key source)))"

definition local_delete :: "path \<Rightarrow> object_key \<Rightarrow> (local_state, storage_error, unit) prog" where
  "local_delete root key =
     andThen (outcome_of (on_os (os_remove_file (object_path root key)))) (\<lambda>r. lift_result
       (case r of
          Ok _ \<Rightarrow> Ok ()
        | Err source \<Rightarrow>
            if io_kind source = NotFound then Ok () else Err (object_io ''delete object'' key source)))"

section \<open>Listing\<close>

text \<open>\<open>Path::display\<close>.\<close>

definition path_display :: "path \<Rightarrow> string" where
  "path_display p =
     (case p of RootDir # rest \<Rightarrow> ''/'' @ join_with CHR ''/'' (map component_str rest)
      | _ \<Rightarrow> join_with CHR ''/'' (map component_str p))"

definition push_object_path :: "path \<Rightarrow> path \<Rightarrow> object_key list \<Rightarrow> storage_error + object_key list" where
  "push_object_path root p outp =
     bindR (ok_or (InvalidObjectKey (path_display p) ''object path is outside the storage root'')
              (path_strip_prefix p root)) (\<lambda>relative.
     bindR (object_key_new (join_with CHR ''/'' (map component_str relative))) (\<lambda>key.
     Ok (outp @ [key])))"

definition collect_entry ::
  "path \<Rightarrow> path \<Rightarrow> path list \<times> object_key list \<Rightarrow> string \<times> file_type \<Rightarrow>
   (local_state, storage_error, path list \<times> object_key list) prog" where
  "collect_entry root current acc entry =
     (case acc of (stack, outp) \<Rightarrow> case entry of (name, ty) \<Rightarrow>
       andThen (on_os (map_error (StorageIo ''read object directory entry'') os_touch)) (\<lambda>_.
       let p = path_join current [Normal name] in
       andThen (on_os (map_error (StorageIo ''read object file type'') os_touch)) (\<lambda>_.
       if ty = IsDir then ret (stack @ [p], outp)
       else if ty = IsFile then
         andThen (lift_result (push_object_path root p outp)) (\<lambda>outp. ret (stack, outp))
       else ret (stack, outp))))"

text \<open>One round of the loop: the directory on top of the stack, entry by entry.\<close>

definition collect_directory ::
  "path \<Rightarrow> path \<Rightarrow> path list \<times> object_key list \<Rightarrow> (local_state, storage_error, path list \<times> object_key list) prog" where
  "collect_directory root current acc =
     andThen (on_os (map_error (StorageIo ''read object directory'') (os_read_dir current))) (\<lambda>entries.
     andThen (for_each entries (collect_entry root current) acc) (\<lambda>acc.
     andThen (on_os (map_error (StorageIo ''read object directory entry'') os_touch)) (\<lambda>_.
     ret acc)))"

lemma on_os_Ok_iff: "on_os m s = (Ok x, s') \<longleftrightarrow> (\<exists>o'. m (lc_os s) = (Ok x, o') \<and> s' = s\<lparr>lc_os := o'\<rparr>)"
  by (auto simp: on_os_def split: prod.splits)

lemma on_os_touch:
  "on_os (map_error f os_touch) s = (Ok u, s') \<Longrightarrow> same_files (lc_os s) (lc_os s')"
  using os_touch_spec [of "lc_os s"] by (auto simp: on_os_Ok_iff map_error_Ok_iff)

lemma collect_entry_Ok:
  assumes "collect_entry root d (stack, outp) (c, ty) s = (Ok (stack', out2), s')"
  shows "same_files (lc_os s) (lc_os s') \<and>
    stack' = stack @ (if ty = IsDir then [d @ [Normal c]] else []) \<and>
    (if ty = IsFile then push_object_path root (d @ [Normal c]) outp = Ok out2 else out2 = outp)"
  using assms
  by (auto simp: collect_entry_def andThen_Ok_iff dest!: on_os_touch intro: same_files_trans split: if_splits)

lemma collect_entries_Ok:
  assumes "for_each es (collect_entry root d) (stack, outp) s = (Ok (stack', out2), s')"
  shows "same_files (lc_os s) (lc_os s') \<and>
    stack' = stack @ map (\<lambda>e. d @ [Normal (fst e)]) (filter (\<lambda>e. snd e = IsDir) es)"
  using assms
proof (induction es arbitrary: stack outp s)
  case (Cons e es)
  obtain c ty where e: "e = (c, ty)" by fastforce
  obtain st out s1 where step: "collect_entry root d (stack, outp) (c, ty) s = (Ok (st, out), s1)"
    "for_each es (collect_entry root d) (st, out) s1 = (Ok (stack', out2), s')"
    using Cons.prems by (auto simp: andThen_Ok_iff e)
  show ?case
    using collect_entry_Ok [OF step(1)] Cons.IH [OF step(2)] same_files_trans by (auto simp: e)
qed simp

text \<open>The nodes below a path: each round takes a directory off the stack and adds what is below it.\<close>

definition below :: "os \<Rightarrow> path \<Rightarrow> nat" where
  "below s p = (case resolve MAX_LINKS (node_at s) [] p of
     Ok q \<Rightarrow> card {x. node_at s x \<noteq> None \<and> prefix q x} | Err _ \<Rightarrow> 0)"

lemma finite_nodes: "finite {x. node_at s x \<noteq> None \<and> P x}"
proof -
  have "{x. node_at s x \<noteq> None \<and> P x} \<subseteq> fst ` set (os_tree s)"
    by (auto simp: node_at_def bt_get_def dest: map_of_SomeD intro: rev_image_eqI)
  then show ?thesis by (rule finite_subset) simp
qed

lemma below_same: "same_files s s' \<Longrightarrow> below s' p = below s p"
  by (simp add: below_def files_simps cong: sum.case_cong)

lemma below_children:
  assumes q: "resolve MAX_LINKS (node_at s) [] d = Ok q" "node_at s q = Some DirNode"
  shows "(\<Sum>c\<leftarrow>filter (\<lambda>c. node_at s (q @ [Normal c]) = Some DirNode) (child_names s q). below s (d @ [Normal c]))
    < below s d"
proof -
  let ?cs = "filter (\<lambda>c. node_at s (q @ [Normal c]) = Some DirNode) (child_names s q)"
  let ?B = "\<lambda>c. {x. node_at s x \<noteq> None \<and> prefix (q @ [Normal c]) x}"
  have eq: "below s (d @ [Normal c]) = card (?B c)" if "c \<in> set ?cs" for c
    using that resolve_child [OF q] by (simp add: below_def)
  have "(\<Sum>c\<leftarrow>?cs. below s (d @ [Normal c])) = (\<Sum>c\<leftarrow>?cs. card (?B c))"
    by (intro arg_cong [where f = sum_list] map_cong refl eq)
  also have "\<dots> = (\<Sum>c \<in> set ?cs. card (?B c))"
    by (rule sum_list_distinct_conv_sum_set) (simp add: distinct_child_names)
  also have "\<dots> = card (\<Union>c \<in> set ?cs. ?B c)"
  proof (rule card_UN_disjoint [symmetric])
    show "\<forall>i \<in> set ?cs. \<forall>j \<in> set ?cs. i \<noteq> j \<longrightarrow> ?B i \<inter> ?B j = {}"
      by (auto simp: prefix_def)
    show "\<forall>i \<in> set ?cs. finite (?B i)" using finite_nodes by blast
  qed simp
  also have "\<dots> < card {x. node_at s x \<noteq> None \<and> prefix q x}"
  proof (rule psubset_card_mono [OF finite_nodes])
    have "(\<Union>c \<in> set ?cs. ?B c) \<subseteq> {x. node_at s x \<noteq> None \<and> prefix q x}"
      by (auto dest: append_prefixD)
    moreover have "q \<notin> (\<Union>c \<in> set ?cs. ?B c)" by (auto simp: prefix_def)
    moreover have "q \<in> {x. node_at s x \<noteq> None \<and> prefix q x}" using q(2) by simp
    ultimately show "(\<Union>c \<in> set ?cs. ?B c) \<subset> {x. node_at s x \<noteq> None \<and> prefix q x}"
      by blast
  qed
  finally show ?thesis using q(1) by (simp add: below_def)
qed

lemma collect_directory_below:
  assumes "collect_directory root d (stack, outp) s = (Ok (stack', out2), s')"
  shows "(\<Sum>p\<leftarrow>stack'. below (lc_os s') p) < (\<Sum>p\<leftarrow>stack. below (lc_os s) p) + below (lc_os s) d"
proof -
  obtain entries s1 s2 where dir: "on_os (map_error (StorageIo ''read object directory'') (os_read_dir d)) s = (Ok entries, s1)"
    and loop: "for_each entries (collect_entry root d) (stack, outp) s1 = (Ok (stack', out2), s2)"
    and "end": "on_os (map_error (StorageIo ''read object directory entry'') os_touch) s2 = (Ok (), s')"
    using assms by (auto simp: collect_directory_def andThen_Ok_iff)
  obtain o' where rd: "os_read_dir d (lc_os s) = (Ok entries, o')" "s1 = s\<lparr>lc_os := o'\<rparr>"
    using dir by (auto simp: on_os_Ok_iff map_error_Ok_iff)
  have "same_files (lc_os s) (lc_os s1) \<and> (\<exists>q. resolve MAX_LINKS (node_at (lc_os s)) [] d = Ok q \<and>
      node_at (lc_os s) q = Some DirNode \<and> entries = children (lc_os s) q)"
    using os_read_dir_Ok [OF rd(1)] by (simp add: rd(2))
  then obtain q where q: "resolve MAX_LINKS (node_at (lc_os s)) [] d = Ok q" "node_at (lc_os s) q = Some DirNode"
      "entries = children (lc_os s) q" and same1: "same_files (lc_os s) (lc_os s1)" by blast
  note es = collect_entries_Ok [OF loop]
  have same: "same_files (lc_os s) (lc_os s')"
    using same_files_trans [OF same1] same_files_trans es on_os_touch [OF "end"] by blast
  have dirs: "node_type nd = IsDir \<longleftrightarrow> nd = DirNode" for nd by (cases nd) (simp_all add: node_type_def)
  have "stack' = stack @ map (\<lambda>c. d @ [Normal c])
      (filter (\<lambda>c. node_at (lc_os s) (q @ [Normal c]) = Some DirNode) (child_names (lc_os s) q))"
  proof -
    have "filter (\<lambda>e. snd e = IsDir) entries = map (\<lambda>c. (c, IsDir))
        (filter (\<lambda>c. node_at (lc_os s) (q @ [Normal c]) = Some DirNode) (child_names (lc_os s) q))"
    proof -
      have "filter (\<lambda>c. node_type (the (node_at (lc_os s) (q @ [Normal c]))) = IsDir) (child_names (lc_os s) q)
          = filter (\<lambda>c. node_at (lc_os s) (q @ [Normal c]) = Some DirNode) (child_names (lc_os s) q)"
        by (rule filter_cong) (auto simp: set_child_names dirs)
      then show ?thesis
        by (auto simp: q(3) children_def filter_map comp_def intro!: map_cong)
          (simp add: dirs)
    qed
    then show ?thesis using es by (simp add: comp_def)
  qed
  then show ?thesis
    using below_children [OF q(1,2)] by (simp add: below_same [OF same] comp_def)
qed

function collect_files :: "path \<Rightarrow> path list \<Rightarrow> object_key list \<Rightarrow> (local_state, storage_error, object_key list) prog" where
  "collect_files root stack outp s =
     (if stack = [] then (Ok outp, s)
      else case collect_directory root (last stack) (butlast stack, outp) s of
        (Err e, s') \<Rightarrow> (Err e, s')
      | (Ok (stack', out2), s') \<Rightarrow> collect_files root stack' out2 s')"
  by pat_completeness auto
termination
proof (relation "measure (\<lambda>(root, stack, outp, s). \<Sum>p\<leftarrow>stack. below (lc_os s) p)", goal_cases)
  case 1 show ?case by simp
next
  case (2 root stack outp s x s' y stack' out2)
  then have "collect_directory root (last stack) (butlast stack, outp) s = (Ok (stack', out2), s')"
    and "stack \<noteq> []" by auto
  from collect_directory_below [OF this(1)] this(2) show ?case
    by (cases stack rule: rev_cases) simp_all
qed

declare collect_files.simps [simp del]

definition local_list_prefix :: "path \<Rightarrow> object_key_prefix \<Rightarrow> (local_state, storage_error, object_key list) prog" where
  "local_list_prefix root p =
     andThen (outcome_of (on_os (os_stat (prefix_path root p)))) (\<lambda>r.
     andThen (case r of
                Ok ty \<Rightarrow>
                  if ty = IsFile then lift_result (push_object_path root (prefix_path root p) [])
                  else if ty = IsDir then collect_files root [prefix_path root p] []
                  else ret []
              | Err source \<Rightarrow>
                  if io_kind source = NotFound then ret [] else lift_result (Err (StorageIo ''stat prefix'' source))) (\<lambda>outp.
     ret (sort (filter (\<lambda>key. prefix_contains p key \<and> \<not> prefix ''.fileferry-tmp/'' (as_str key)) outp))))"

definition local_store_ops :: "path \<Rightarrow> nat \<Rightarrow> local_state store_ops" where
  "local_store_ops root pid =
     \<lparr>capabilities = capabilities_local_filesystem,
      put_if_absent = local_put root pid,
      get_object = local_get root,
      object_exists = local_exists root,
      delete_object = local_delete root,
      list_prefix = local_list_prefix root\<rparr>"

end
