(* ===== verification/Ferry_LocalStore.thy ===== *)
theory Ferry_LocalStore
  imports Ferry_Local "HOL-Library.Multiset"
begin

text \<open>
  \<open>LocalStore\<close> meets the contract of \<open>object_store\<close>, whatever calls fail. A put publishes its object by
  the single hard link from the completely written temporary file; what a put that fails at any other
  call leaves behind is a file below the temporary directory, which no operation sees.
\<close>

section \<open>Objects as files\<close>

text \<open>The keys of the store: a key below the temporary directory is none.\<close>

definition usable_key :: "object_key \<Rightarrow> bool" where
  "usable_key k \<longleftrightarrow> key_valid k \<and> \<not> prefix ''.fileferry-tmp/'' (as_str k)"

definition file_at :: "os \<Rightarrow> path \<Rightarrow> bytes option" where
  "file_at s p = (case node_at s p of Some (FileNode i) \<Rightarrow> Some (os_data s i) | _ \<Rightarrow> None)"

definition stored_files :: "path \<Rightarrow> os \<Rightarrow> object_key \<Rightarrow> bytes option" where
  "stored_files root s k = (if usable_key k then file_at s (object_path root k) else None)"

definition local_contents :: "path \<Rightarrow> local_state \<Rightarrow> object_key \<Rightarrow> bytes option" where
  "local_contents root s = stored_files root (lc_os s)"

text \<open>The root is an absolute path, and no link leads to it or lies below it.\<close>

definition root_clear :: "path \<Rightarrow> os \<Rightarrow> bool" where
  "root_clear root s \<longleftrightarrow> os_wf s \<and> canonical root \<and>
     (\<forall>p target. node_at s p = Some (LinkNode target) \<longrightarrow> \<not> prefix p root \<and> \<not> prefix root p)"

definition local_inv :: "path \<Rightarrow> local_state \<Rightarrow> bool" where
  "local_inv root s \<longleftrightarrow> root_clear root (lc_os s)"

lemma object_path_valid:
  assumes "key_valid k"
  shows "object_path root k = root @ map Normal (split_on CHR ''/'' (as_str k))"
  using assms by (simp add: object_path_def key_relative_path_valid path_join_normal)

lemma object_path_inj: "key_valid j \<Longrightarrow> key_valid k \<Longrightarrow> object_path root j = object_path root k \<longleftrightarrow> j = k"
  using key_relative_path_inj [of j k]
  by (auto simp: object_path_def key_relative_path_valid path_join_normal)

lemma temp_dir_eq: "temp_dir root = root @ [Normal ''.fileferry-tmp'']"
  by (simp add: temp_dir_def path_join_segment)

lemma prefix_segments: "prefix (split_on c p) (split_on c s) \<longleftrightarrow> s = p \<or> prefix (p @ [c]) s"
proof
  assume "prefix (split_on c p) (split_on c s)"
  then obtain zs where zs: "split_on c s = split_on c p @ zs" by (auto simp: prefix_def)
  show "s = p \<or> prefix (p @ [c]) s"
  proof (cases "zs = []")
    case True
    then show ?thesis using split_on_inj zs by auto
  next
    case False
    have "\<forall>z \<in> set zs. c \<notin> set z" using split_on_parts [of _ c s] zs by auto
    then have "split_on c s = split_on c (p @ c # join_with c zs)"
      using split_join [OF False] by (simp add: zs split_on_join)
    then have "s = p @ c # join_with c zs" by (rule split_on_inj)
    then show ?thesis by simp
  qed
next
  assume "s = p \<or> prefix (p @ [c]) s"
  then show "prefix (split_on c p) (split_on c s)" by (auto simp: prefix_def split_on_join)
qed

lemma strict_prefix_snoc: "strict_prefix p (p @ [c])"
  by (simp add: strict_prefix_def)

lemma usable_not_temp:
  assumes "usable_key k"
  shows "\<not> strict_prefix (temp_dir root) (object_path root k)"
proof
  let ?t = "''.fileferry-tmp''"
  have split: "split_on CHR ''/'' ?t = [?t]" by simp
  assume "strict_prefix (temp_dir root) (object_path root k)"
  then have "prefix [?t] (split_on CHR ''/'' (as_str k))" "[?t] \<noteq> split_on CHR ''/'' (as_str k)"
    using assms by (cases "split_on CHR ''/'' (as_str k)"; auto simp: usable_key_def object_path_valid temp_dir_eq strict_prefix_def)+
  then show False using prefix_segments [of "CHR ''/''" ?t "as_str k"] assms by (auto simp: split usable_key_def)
qed

lemma segments_named: "key_valid k \<Longrightarrow> \<forall>c \<in> set (map Normal (split_on CHR ''/'' (as_str k))). named c"
  by (auto simp: key_valid_def list_all_iff named_iff intro: segment_ok_wf)

lemma root_clear_link_free: "root_clear root s \<Longrightarrow> prefix root p \<or> prefix p root \<Longrightarrow> link_free (node_at s) p"
  unfolding link_free_def root_clear_def
  by (metis prefix_order.trans prefix_same_cases)

lemma object_path_clear:
  assumes "root_clear root s" and "key_valid k"
  shows "canonical (object_path root k)" and "link_free (node_at s) (object_path root k)"
    and "link_free (node_at s) (butlast (object_path root k))"
proof -
  show "canonical (object_path root k)"
    unfolding object_path_valid [OF assms(2)]
    by (rule canonical_extend [OF _ segments_named [OF assms(2)]]) (use assms(1) in \<open>simp add: root_clear_def\<close>)
  show free: "link_free (node_at s) (object_path root k)"
    using assms by (simp add: root_clear_link_free object_path_valid)
  show "link_free (node_at s) (butlast (object_path root k))"
    by (rule link_free_prefix [OF free]) (rule prefixeq_butlast)
qed

section \<open>Reading and deleting\<close>

lemma on_os_cases:
  assumes "on_os m s = (r, s')"
  obtains o' where "m (lc_os s) = (r, o')" "s' = s\<lparr>lc_os := o'\<rparr>"
  using assms by (auto simp: on_os_def split: prod.splits)

text \<open>Calls that leave the objects alone: the tree outside the temporary directory keeps its files.\<close>

definition objects_kept :: "path \<Rightarrow> os \<Rightarrow> os \<Rightarrow> bool" where
  "objects_kept root s s' \<longleftrightarrow> root_clear root s' \<and>
     (\<forall>p. \<not> strict_prefix (temp_dir root) p \<longrightarrow> file_at s' p = file_at s p)"

lemma objects_keptD: "objects_kept root s s' \<Longrightarrow> root_clear root s' \<and> stored_files root s' = stored_files root s"
  by (auto simp: objects_kept_def stored_files_def usable_not_temp fun_eq_iff)

lemma objects_kept_trans: "objects_kept root a b \<Longrightarrow> objects_kept root b c \<Longrightarrow> objects_kept root a c"
  by (simp add: objects_kept_def)

lemma file_at_Some: "file_at s p = Some b \<longleftrightarrow> (\<exists>i. node_at s p = Some (FileNode i) \<and> b = os_data s i)"
  and file_at_None: "file_at s p = None \<longleftrightarrow> (\<forall>i. node_at s p \<noteq> Some (FileNode i))"
  by (auto simp: file_at_def split: option.splits fs_node.splits)

lemma file_at_cong:
  "node_at s' p = node_at s p \<Longrightarrow> (\<And>i. node_at s p = Some (FileNode i) \<Longrightarrow> os_data s' i = os_data s i) \<Longrightarrow>
     file_at s' p = file_at s p"
  by (auto simp: file_at_def split: option.split fs_node.split)

lemma node_type_file: "node_type nd = IsFile \<longleftrightarrow> (\<exists>i. nd = FileNode i)"
  by (cases nd) (simp_all add: node_type_def)

lemma file_at_same: "same_files s s' \<Longrightarrow> file_at s' p = file_at s p"
  unfolding file_at_def by (simp only: same_filesD)

lemma objects_kept_same: "root_clear root s \<Longrightarrow> same_files s s' \<Longrightarrow> objects_kept root s s'"
  by (simp add: objects_kept_def root_clear_def file_at_same files_simps)

lemma get_spec:
  assumes run: "local_get root k s = (r, s')" and ok: "local_inv root s" "usable_key k"
  shows "local_inv root s' \<and> local_contents root s' = local_contents root s \<and>
    (\<forall>b. r = Ok b \<longrightarrow> local_contents root s k = Some b) \<and>
    (\<forall>j. r = Err (ObjectNotFound j) \<longrightarrow> local_contents root s k = None)"
proof -
  have k: "key_valid k" using ok(2) by (simp add: usable_key_def)
  obtain x o' where x: "os_read (object_path root k) (lc_os s) = (x, o')" "s' = s\<lparr>lc_os := o'\<rparr>"
    "r = map_err (object_io ''read object'' k) x"
    using run unfolding local_get_def by (elim on_os_cases map_error_cases) auto
  note clear = ok(1) [unfolded local_inv_def]
  note spec = os_read_spec [OF x(1) _ object_path_clear(1,2) [OF clear k]]
  have "os_wf (lc_os s)" using clear by (simp add: root_clear_def)
  note spec = spec [OF this]
  have "objects_kept root (lc_os s) o'" using objects_kept_same [OF clear] spec by blast
  then have kept: "local_inv root s' \<and> local_contents root s' = local_contents root s"
    using objects_keptD by (simp add: local_inv_def local_contents_def x(2))
  show ?thesis
  proof (cases x)
    case (Inl e)
    then show ?thesis using kept spec ok(2)
      by (auto simp: x(3) object_io_def local_contents_def stored_files_def file_at_def split: if_splits)
  next
    case (Inr b)
    then show ?thesis using kept spec ok(2)
      by (auto simp: x(3) local_contents_def stored_files_def file_at_def)
  qed
qed

lemma exists_spec:
  assumes run: "local_exists root k s = (r, s')" and ok: "local_inv root s" "usable_key k"
  shows "local_inv root s' \<and> local_contents root s' = local_contents root s \<and>
    (\<forall>e. r = Ok e \<longrightarrow> (e \<longleftrightarrow> local_contents root s k \<noteq> None))"
proof -
  have k: "key_valid k" using ok(2) by (simp add: usable_key_def)
  note clear = ok(1) [unfolded local_inv_def]
  have wf: "os_wf (lc_os s)" using clear by (simp add: root_clear_def)
  obtain x o' where x: "os_stat (object_path root k) (lc_os s) = (x, o')" "s' = s\<lparr>lc_os := o'\<rparr>"
    "r = (case x of Ok ty \<Rightarrow> Ok (ty = IsFile)
      | Err source \<Rightarrow> if io_kind source = NotFound then Ok False else Err (object_io ''stat object'' k source))"
    using run unfolding local_exists_def
    by (cases rule: andThen_cases) (auto elim!: outcome_cases on_os_cases simp: lift_result_def)
  note spec = os_stat_spec [OF x(1) wf object_path_clear(1,2) [OF clear k]]
  have "objects_kept root (lc_os s) o'" using objects_kept_same [OF clear] spec by blast
  then have kept: "local_inv root s' \<and> local_contents root s' = local_contents root s"
    using objects_keptD by (simp add: local_inv_def local_contents_def x(2))
  have "e \<longleftrightarrow> local_contents root s k \<noteq> None" if "r = Ok e" for e
  proof (cases x)
    case (Inl err)
    then show ?thesis using that spec ok(2)
      by (auto simp: x(3) local_contents_def stored_files_def file_at_def split: if_splits)
  next
    case (Inr ty)
    then obtain nd where "node_at (lc_os s) (object_path root k) = Some nd" "ty = node_type nd" using spec by auto
    then show ?thesis using that ok(2) Inr
      by (auto simp: x(3) local_contents_def stored_files_def file_at_None node_type_file simp del: not_None_eq)
  qed
  then show ?thesis using kept by blast
qed

lemma delete_spec:
  assumes run: "local_delete root k s = (r, s')" and ok: "local_inv root s" "usable_key k"
  shows "local_inv root s' \<and> (local_contents root s' = local_contents root s \<or>
      local_contents root s' = (local_contents root s)(k := None)) \<and>
    (\<forall>u. r = Ok u \<longrightarrow> local_contents root s' k = None)"
proof -
  have k: "key_valid k" using ok(2) by (simp add: usable_key_def)
  note clear = ok(1) [unfolded local_inv_def]
  have wf: "os_wf (lc_os s)" using clear by (simp add: root_clear_def)
  let ?p = "object_path root k"
  obtain x o' where x: "os_remove_file ?p (lc_os s) = (x, o')" "s' = s\<lparr>lc_os := o'\<rparr>"
    "r = (case x of Ok _ \<Rightarrow> Ok ()
      | Err source \<Rightarrow> if io_kind source = NotFound then Ok () else Err (object_io ''delete object'' k source))"
    using run unfolding local_delete_def
    by (cases rule: andThen_cases) (auto elim!: outcome_cases on_os_cases simp: lift_result_def)
  from os_remove_file_spec [OF x(1) wf object_path_clear(1,3) [OF clear k]] show ?thesis
  proof (elim disjE conjE exE)
    fix e assume e: "x = Err e" "io_kind e = NotFound \<longrightarrow> node_at (lc_os s) ?p = None"
      and same: "same_files (lc_os s) o'"
    have "local_inv root s' \<and> local_contents root s' = local_contents root s"
      using objects_keptD [OF objects_kept_same [OF clear same]] by (simp add: local_inv_def local_contents_def x(2))
    then show ?thesis using e ok(2)
      by (auto simp: x(3) local_contents_def stored_files_def file_at_def split: if_splits)
  next
    fix nd assume removed: "node_at o' = (node_at (lc_os s))(?p := None)" "os_data o' = os_data (lc_os s)" "os_wf o'"
    have "root_clear root o'" using clear removed by (auto simp: root_clear_def)
    moreover have "stored_files root o' = (stored_files root (lc_os s))(k := None)"
    proof
      fix j
      show "stored_files root o' j = ((stored_files root (lc_os s))(k := None)) j"
        using object_path_inj [of j k root] k removed file_at_cong [of o' "object_path root j" "lc_os s"]
        by (cases "j = k") (auto simp: stored_files_def file_at_None usable_key_def)
    qed
    ultimately show ?thesis by (simp add: local_inv_def local_contents_def x(2))
  qed
qed

section \<open>Publishing\<close>

lemma objects_kept_dirs: "root_clear root s \<Longrightarrow> dirs_added s s' p \<Longrightarrow> objects_kept root s s'"
proof -
  assume clear: "root_clear root s" and added: "dirs_added s s' p"
  have "file_at s' q = file_at s q" for q
    using dirs_addedD [OF added, of q] added file_at_cong [of s' q s]
    by (elim disjE) (auto simp: file_at_def dirs_added_def)
  moreover have "node_at s q = Some (LinkNode t)" if "node_at s' q = Some (LinkNode t)" for q t
    using dirs_addedD [OF added, of q] that by auto
  ultimately show ?thesis using clear added by (auto simp: objects_kept_def root_clear_def dirs_added_def)
qed

lemma set_show_nat: "x \<in> set (show_nat n) \<Longrightarrow> \<exists>d < 10. x = digit_char d"
proof (induction n rule: show_nat.induct)
  case (1 n)
  have last: "\<exists>d < 10. digit_char (n mod 10) = digit_char d" by (rule exI [of _ "n mod 10"]) simp
  then show ?case using 1 by (cases "n < 10") (auto simp: show_nat.simps [of n] simp del: ex_simps)
qed

lemma temp_name_segment: "segment_wf (temp_name pid k i)"
proof -
  have "digit_value CHR ''/'' = None" by (simp add: digit_value_def)
  then have "CHR ''/'' \<notin> set (show_nat n)" for n
    using set_show_nat digit_value_digit_char by (metis option.distinct(1))
  moreover have "CHR ''-'' \<in> set (temp_name pid k i)" by (simp add: temp_name_def)
  ultimately show ?thesis by (auto simp: segment_wf_def temp_name_def)
qed

lemma temp_clear:
  assumes "root_clear root s" and n: "segment_wf n"
  shows "canonical (temp_dir root)" "link_free (node_at s) (temp_dir root)"
    "canonical (temp_dir root @ [Normal n])" "link_free (node_at s) (butlast (temp_dir root @ [Normal n]))"
proof -
  have root: "canonical root" using assms by (simp add: root_clear_def)
  show "canonical (temp_dir root)" "canonical (temp_dir root @ [Normal n])"
    using canonical_extend [OF root] n by (simp_all add: temp_dir_eq named_def segment_wf_def)
  show "link_free (node_at s) (temp_dir root)" by (rule root_clear_link_free [OF assms(1)]) (simp add: temp_dir_eq)
  then show "link_free (node_at s) (butlast (temp_dir root @ [Normal n]))" by simp
qed

text \<open>A file below the temporary directory comes and goes.\<close>

lemma objects_kept_temp:
  assumes "root_clear root s" and "os_wf s'" and "strict_prefix (temp_dir root) t"
    and "node_at s' = (node_at s)(t := nd)" and "\<And>target. nd \<noteq> Some (LinkNode target)"
    and "\<And>p i. \<not> strict_prefix (temp_dir root) p \<Longrightarrow> node_at s p = Some (FileNode i) \<Longrightarrow> os_data s' i = os_data s i"
  shows "objects_kept root s s'"
proof -
  have "file_at s' p = file_at s p" if "\<not> strict_prefix (temp_dir root) p" for p
    by (rule file_at_cong) (use assms(3,4,6) that in auto)
  then show ?thesis using assms(1,2,4,5) by (auto simp: objects_kept_def root_clear_def)
qed

lemma create_temp:
  assumes run: "os_create_new t s = (r, s')" and clear: "root_clear root s" and t: "t = temp_dir root @ [Normal n]" "segment_wf n"
  shows "objects_kept root s s' \<and> (\<forall>h. r = Ok h \<longrightarrow> node_at s' t = Some (FileNode h) \<and>
    (\<forall>p. node_at s' p = Some (FileNode h) \<longrightarrow> strict_prefix (temp_dir root) p))"
proof -
  have wf: "os_wf s" using clear by (simp add: root_clear_def)
  from os_create_new_spec [OF run wf] temp_clear(3,4) [OF clear t(2)] t
  consider e where "r = Err e" "same_files s s'"
    | "r = Ok (os_next s)" "node_at s t = None" "node_at s (butlast t) = Some DirNode" "same_files (new_file t s) s'"
    by auto
  then show ?thesis
  proof cases
    case 1
    then show ?thesis using objects_kept_same [OF clear] by simp
  next
    case 2
    have wf': "os_wf s'"
      using os_wf_new_file [OF wf 2(2,3)] temp_clear(3) [OF clear t(2)] t 2(4) by (simp add: files_simps)
    have fresh: "node_at s p \<noteq> Some (FileNode (os_next s))" for p
      using wf by (auto simp: os_wf_def)
    have "objects_kept root s s'"
      by (rule objects_kept_temp [OF clear wf', of t "Some (FileNode (os_next s))"])
        (use fresh t in \<open>auto simp: same_filesD [OF 2(4)] strict_prefix_snoc\<close>)
    then show ?thesis using fresh t 2(1) by (auto simp: same_filesD [OF 2(4)] strict_prefix_snoc split: if_splits)
  qed
qed

lemma write_temp:
  assumes "os_write_all h bs s = (r, s')" and clear: "root_clear root s"
    and h: "\<And>p. node_at s p = Some (FileNode h) \<Longrightarrow> strict_prefix (temp_dir root) p"
  shows "objects_kept root s s' \<and> node_at s' = node_at s \<and> (r = Ok () \<longrightarrow> os_data s' h = bs)"
proof -
  obtain b where w: "node_at s' = node_at s" "os_wf s' \<longleftrightarrow> os_wf s" "os_data s' = (os_data s)(h := b)" "r = Ok () \<longrightarrow> b = bs"
    using os_write_all_spec [OF assms(1)] by auto
  have "file_at s' p = file_at s p" if "\<not> strict_prefix (temp_dir root) p" for p
    by (rule file_at_cong) (use h that w in auto)
  then show ?thesis using w clear by (auto simp: objects_kept_def root_clear_def)
qed

lemma remove_temp_kept:
  assumes run: "remove_temp t s = (r, s')" and clear: "root_clear root (lc_os s)" and t: "t = temp_dir root @ [Normal n]" "segment_wf n"
  shows "objects_kept root (lc_os s) (lc_os s') \<and> (\<forall>e. r = Err e \<longrightarrow> (\<forall>j. e \<noteq> ObjectAlreadyExists j))"
proof -
  have wf: "os_wf (lc_os s)" using clear by (simp add: root_clear_def)
  obtain x o' where x: "os_remove_file t (lc_os s) = (x, o')" "s' = s\<lparr>lc_os := o'\<rparr>"
    "r = (case x of Ok _ \<Rightarrow> Ok ()
      | Err source \<Rightarrow> if io_kind source = NotFound then Ok () else Err (StorageIo ''remove temporary object'' source))"
    using run unfolding remove_temp_def
    by (cases rule: andThen_cases) (auto elim!: outcome_cases on_os_cases simp: lift_result_def)
  have "objects_kept root (lc_os s) o'"
  proof -
    from os_remove_file_spec [OF x(1) wf] temp_clear(3,4) [OF clear t(2)] t
    consider "same_files (lc_os s) o'"
      | "node_at o' = (node_at (lc_os s))(t := None)" "os_data o' = os_data (lc_os s)" "os_wf o'"
      by auto
    then show ?thesis
    proof cases
      case 1
      then show ?thesis by (rule objects_kept_same [OF clear])
    next
      case 2
      show ?thesis by (rule objects_kept_temp [OF clear 2(3), of t None]) (use 2 t in \<open>auto simp: strict_prefix_snoc\<close>)
    qed
  qed
  then show ?thesis by (auto simp: x split: sum.splits if_splits)
qed

text \<open>What the contract says of a put that has run.\<close>

definition put_done :: "path \<Rightarrow> object_key \<Rightarrow> bytes \<Rightarrow> os \<Rightarrow> storage_error + put_status \<Rightarrow> os \<Rightarrow> bool" where
  "put_done root k bs s r s' \<longleftrightarrow> root_clear root s' \<and>
     (stored_files root s' = stored_files root s \<or>
      stored_files root s k = None \<and> stored_files root s' = (stored_files root s)(k \<mapsto> bs)) \<and>
     (\<forall>st. r = Ok st \<longrightarrow> stored_files root s' k = Some bs) \<and>
     (r = Ok Created \<longrightarrow> stored_files root s k = None) \<and>
     (\<forall>j. r = Err (ObjectAlreadyExists j) \<longrightarrow> j = k \<and> (\<exists>b. stored_files root s k = Some b \<and> b \<noteq> bs))"

lemma put_done_before: "objects_kept root a b \<Longrightarrow> put_done root k bs b r c \<Longrightarrow> put_done root k bs a r c"
  using objects_keptD [of root a b] unfolding put_done_def by auto

lemma put_failed: "objects_kept root s s' \<Longrightarrow> (\<And>j. e \<noteq> ObjectAlreadyExists j) \<Longrightarrow> put_done root k bs s (Err e) s'"
  using objects_keptD by (auto simp: put_done_def)

lemma hard_link_publishes:
  assumes clear: "root_clear root s" and k: "usable_key k" and wf': "os_wf s'"
    and link: "node_at s' = (node_at s)(object_path root k \<mapsto> FileNode h)" "os_data s' = os_data s"
    and free: "node_at s (object_path root k) = None"
  shows "root_clear root s' \<and> stored_files root s' = (stored_files root s)(k \<mapsto> os_data s h) \<and> stored_files root s k = None"
proof -
  have "stored_files root s' j = ((stored_files root s)(k \<mapsto> os_data s h)) j" for j
    using object_path_inj [of j k root] k link file_at_cong [of s' "object_path root j" s]
    by (cases "j = k") (auto simp: stored_files_def file_at_Some usable_key_def)
  then show ?thesis using clear wf' link free by (auto simp: root_clear_def stored_files_def file_at_None)
qed

lemma compare_done:
  assumes run: "andThen (read_existing_for_compare k (object_path root k)) (\<lambda>existing.
      lift_result (if existing = bs then Ok AlreadyPresent else Err (ObjectAlreadyExists k))) s = (r, s')"
    and clear: "root_clear root (lc_os s)" and k: "usable_key k"
  shows "put_done root k bs (lc_os s) r (lc_os s')"
proof -
  have kv: "key_valid k" using k by (simp add: usable_key_def)
  have wf: "os_wf (lc_os s)" using clear by (simp add: root_clear_def)
  obtain z s1 where z: "read_existing_for_compare k (object_path root k) s = (z, s1)" by fastforce
  then obtain y o1 where y: "os_read (object_path root k) (lc_os s) = (y, o1)" "s1 = s\<lparr>lc_os := o1\<rparr>"
    "z = map_err (object_io ''read existing object'' k) y"
    unfolding read_existing_for_compare_def by (elim on_os_cases map_error_cases) auto
  have r: "s' = s1" "r = (case y of Ok existing \<Rightarrow> (if existing = bs then Ok AlreadyPresent else Err (ObjectAlreadyExists k))
      | Err e \<Rightarrow> Err (object_io ''read existing object'' k e))"
    using run z y(3) by (cases y; simp add: andThen_def lift_result_def)+
  note spec = os_read_spec [OF y(1) wf object_path_clear(1,2) [OF clear kv]]
  have "objects_kept root (lc_os s) o1" using objects_kept_same [OF clear] spec by blast
  then show ?thesis using spec k objects_keptD [of root "lc_os s" o1]
    by (cases y) (auto simp: y(2) r put_done_def stored_files_def file_at_Some object_io_def split: if_splits)
qed

lemma publish_done:
  assumes run: "publish_temp k bs t (object_path root k) s = (r, s')"
    and clear: "root_clear root (lc_os s)" and k: "usable_key k" and t: "t = temp_dir root @ [Normal n]" "segment_wf n"
    and h: "node_at (lc_os s) t = Some (FileNode h)" "os_data (lc_os s) h = bs"
  shows "put_done root k bs (lc_os s) r (lc_os s')"
proof -
  let ?p = "object_path root k"
  have kv: "key_valid k" using k by (simp add: usable_key_def)
  have wf: "os_wf (lc_os s)" using clear by (simp add: root_clear_def)
  obtain x o1 where x: "os_hard_link t ?p (lc_os s) = (x, o1)"
    and rest: "(case x of
       Ok _ \<Rightarrow> andThen (remove_temp t) (\<lambda>_. ret Created)
     | Err source \<Rightarrow>
         andThen (remove_temp t) (\<lambda>_.
         if io_kind source = AlreadyExists then
           andThen (read_existing_for_compare k ?p) (\<lambda>existing.
           lift_result (if existing = bs then Ok AlreadyPresent else Err (ObjectAlreadyExists k)))
         else lift_result (Err (object_io ''publish object'' k source)))) (s\<lparr>lc_os := o1\<rparr>) = (r, s')"
    using run unfolding publish_temp_def
    by (cases rule: andThen_cases) (auto elim!: outcome_cases on_os_cases)
  from os_hard_link_spec [OF x wf temp_clear(3,4) [OF clear t(2), folded t(1)] object_path_clear(1,3) [OF clear kv]]
  consider e where "x = Err e" "io_kind e = AlreadyExists \<longrightarrow> node_at (lc_os s) ?p \<noteq> None" "same_files (lc_os s) o1"
    | "x = Ok ()" "same_files (put_node ?p (FileNode h) (lc_os s)) o1"
      "node_at (lc_os s) ?p = None" "node_at (lc_os s) (butlast ?p) = Some DirNode"
    using h(1) by auto
  then show ?thesis
  proof cases
    case 1
    have clear1: "root_clear root o1" using objects_kept_same [OF clear 1(3)] by (simp add: objects_kept_def)
    have kept1: "objects_kept root (lc_os s) o1" by (rule objects_kept_same [OF clear 1(3)])
    from rest 1(1) have rest: "andThen (remove_temp t) (\<lambda>_.
         if io_kind e = AlreadyExists then
           andThen (read_existing_for_compare k ?p) (\<lambda>existing.
           lift_result (if existing = bs then Ok AlreadyPresent else Err (ObjectAlreadyExists k)))
         else lift_result (Err (object_io ''publish object'' k e))) (s\<lparr>lc_os := o1\<rparr>) = (r, s')" by simp
    from rest show ?thesis
    proof (cases rule: andThen_cases)
      case (fail e')
      note rm = remove_temp_kept [OF fail(1) _ t]
      then have "objects_kept root o1 (lc_os s')" "\<And>j. e' \<noteq> ObjectAlreadyExists j" using clear1 by auto
      then show ?thesis using put_failed objects_kept_trans [OF kept1] fail(2) by simp
    next
      case (step u s2)
      have kept2: "objects_kept root (lc_os s) (lc_os s2)"
        using remove_temp_kept [OF step(1) _ t] clear1 objects_kept_trans [OF kept1] by simp
      show ?thesis
      proof (cases "io_kind e = AlreadyExists")
        case False
        then show ?thesis using step(2) put_failed [OF kept2]
          by (auto simp: lift_result_def object_io_def)
      next
        case True
        have clear2: "root_clear root (lc_os s2)" using kept2 by (simp add: objects_kept_def)
        have "put_done root k bs (lc_os s2) r (lc_os s')"
          by (rule compare_done [OF _ clear2 k]) (use step(2) True in simp)
        then show ?thesis by (rule put_done_before [OF kept2])
      qed
    qed
  next
    case 2
    have "os_wf o1"
      unfolding same_filesD(5) [OF 2(2)]
      by (rule os_wf_put [OF wf 2(3,4) object_path_clear(1) [OF clear kv]]) (use wf h(1) in \<open>auto simp: os_wf_def\<close>)
    then have pub: "root_clear root o1" "stored_files root o1 = (stored_files root (lc_os s))(k \<mapsto> bs)"
      "stored_files root (lc_os s) k = None"
      using hard_link_publishes [OF clear k, of o1 h] 2(3) h(2) by (auto simp: same_filesD [OF 2(2)])
    from rest 2(1) have "andThen (remove_temp t) (\<lambda>_. ret Created) (s\<lparr>lc_os := o1\<rparr>) = (r, s')" by simp
    then obtain y where y: "remove_temp t (s\<lparr>lc_os := o1\<rparr>) = (y, s')" "r = (case y of Ok _ \<Rightarrow> Ok Created | Err e \<Rightarrow> Err e)"
      by (cases rule: andThen_cases) (auto simp: ret_def)
    have "objects_kept root o1 (lc_os s')" "\<forall>e. y = Err e \<longrightarrow> (\<forall>j. e \<noteq> ObjectAlreadyExists j)"
      using remove_temp_kept [OF y(1) _ t] pub(1) by simp_all
    then show ?thesis using objects_keptD pub by (auto simp: put_done_def y(2) split: sum.splits)
  qed
qed

text \<open>One call of a put that leaves the objects alone.\<close>

lemma put_step:
  assumes run: "andThen (on_os (map_error g m)) f s = (r, s')"
    and kept: "\<And>y o1. m (lc_os s) = (y, o1) \<Longrightarrow> objects_kept root (lc_os s) o1"
    and g: "\<And>e j. g e \<noteq> ObjectAlreadyExists j"
    and rest: "\<And>x o1. \<lbrakk>m (lc_os s) = (Ok x, o1); root_clear root o1; f x (s\<lparr>lc_os := o1\<rparr>) = (r, s')\<rbrakk> \<Longrightarrow>
      put_done root k bs o1 r (lc_os s')"
  shows "put_done root k bs (lc_os s) r (lc_os s')"
proof -
  obtain y o1 where y: "m (lc_os s) = (y, o1)" by fastforce
  have clear1: "root_clear root o1" using kept [OF y] by (simp add: objects_kept_def)
  show ?thesis
  proof (cases y)
    case (Inl e)
    then have "r = Err (g e)" "s' = s\<lparr>lc_os := o1\<rparr>"
      using run y by (auto simp: andThen_def on_os_def map_error_def)
    then show ?thesis using put_failed [OF kept [OF y] g] by simp
  next
    case (Inr x)
    then have "f x (s\<lparr>lc_os := o1\<rparr>) = (r, s')" using run y by (auto simp: andThen_def on_os_def map_error_def)
    then show ?thesis using put_done_before [OF kept [OF y]] rest clear1 y Inr by blast
  qed
qed

lemma create_dirs_kept:
  assumes "os_create_dir_all p s = (y, s')" and "root_clear root s" and "canonical p" "link_free (node_at s) p"
  shows "objects_kept root s s'"
  by (rule objects_kept_dirs) (use assms os_create_dir_all_spec in \<open>auto simp: root_clear_def\<close>)

lemma put_created:
  assumes "andThen (on_os (map_error (StorageIo ''create temporary object'') (os_create_new t))) (\<lambda>h.
      andThen (on_os (map_error (StorageIo ''write temporary object'') (os_write_all h bs))) (\<lambda>_.
      andThen (on_os (map_error (StorageIo ''sync temporary object'') (os_sync_all h))) (\<lambda>_.
      publish_temp k bs t (object_path root k)))) s = (r, s')"
    and clear: "root_clear root (lc_os s)" and k: "usable_key k" and t: "t = temp_dir root @ [Normal n]" "segment_wf n"
  shows "put_done root k bs (lc_os s) r (lc_os s')"
  using assms(1)
proof (rule put_step)
  fix h o1 assume new: "os_create_new t (lc_os s) = (Ok h, o1)" and clear1: "root_clear root o1"
  have h: "node_at o1 t = Some (FileNode h)" "\<And>p. node_at o1 p = Some (FileNode h) \<Longrightarrow> strict_prefix (temp_dir root) p"
    using create_temp [OF new clear t] by auto
  assume "andThen (on_os (map_error (StorageIo ''write temporary object'') (os_write_all h bs))) (\<lambda>_.
      andThen (on_os (map_error (StorageIo ''sync temporary object'') (os_sync_all h))) (\<lambda>_.
      publish_temp k bs t (object_path root k))) (s\<lparr>lc_os := o1\<rparr>) = (r, s')"
  then have "put_done root k bs (lc_os (s\<lparr>lc_os := o1\<rparr>)) r (lc_os s')"
  proof (rule put_step)
    fix u o2 assume wr: "os_write_all h bs (lc_os (s\<lparr>lc_os := o1\<rparr>)) = (Ok u, o2)" and clear2: "root_clear root o2"
    have data: "node_at o2 = node_at o1" "os_data o2 h = bs"
      using write_temp [OF wr _ h(2)] clear1 by simp_all
    assume "andThen (on_os (map_error (StorageIo ''sync temporary object'') (os_sync_all h))) (\<lambda>_.
      publish_temp k bs t (object_path root k)) (s\<lparr>lc_os := o1\<rparr>\<lparr>lc_os := o2\<rparr>) = (r, s')"
    then have "put_done root k bs (lc_os (s\<lparr>lc_os := o1\<rparr>\<lparr>lc_os := o2\<rparr>)) r (lc_os s')"
    proof (rule put_step)
      fix v o3 assume sync: "os_sync_all h (lc_os (s\<lparr>lc_os := o1\<rparr>\<lparr>lc_os := o2\<rparr>)) = (Ok v, o3)" and clear3: "root_clear root o3"
      have same: "same_files o2 o3" using os_sync_all_spec [OF sync] by simp
      assume "publish_temp k bs t (object_path root k) (s\<lparr>lc_os := o1\<rparr>\<lparr>lc_os := o2\<rparr>\<lparr>lc_os := o3\<rparr>) = (r, s')"
      from publish_done [OF this _ k t, of h] clear3 h(1) data
      show "put_done root k bs o3 r (lc_os s')" by (simp add: same_filesD [OF same])
    qed (use os_sync_all_spec objects_kept_same [OF clear2] in auto)
    then show "put_done root k bs o2 r (lc_os s')" by simp
  qed (use write_temp [OF _ _ h(2)] clear1 in auto)
  then show "put_done root k bs o1 r (lc_os s')" by simp
qed (use create_temp [OF _ clear t] in auto)

lemma put_spec:
  assumes run: "local_put root pid k bs s = (r, s')" and ok: "local_inv root s" "usable_key k"
  shows "put_done root k bs (lc_os s) r (lc_os s')"
proof -
  have kv: "key_valid k" using ok(2) by (simp add: usable_key_def)
  have clear: "root_clear root (lc_os s)" using ok(1) by (simp add: local_inv_def)
  define t where "t = temp_dir root @ [Normal (temp_name pid k (lc_next_temp s))]"
  let ?p = "object_path root k"
  let ?s0 = "s\<lparr>lc_next_temp := lc_next_temp s + 1\<rparr>"
  obtain ys y where ys: "split_on CHR ''/'' (as_str k) = ys @ [y]"
    using split_on_not_Nil [of "CHR ''/''" "as_str k"] by (cases "split_on CHR ''/'' (as_str k)" rule: rev_cases) auto
  then have path: "?p = (root @ map Normal ys) @ [Normal y]" by (simp add: object_path_valid [OF kv])
  have parent: "path_parent ?p = Some (butlast ?p)" unfolding path path_parent_snoc butlast_snoc by simp
  have "canonical (butlast ?p)"
    unfolding path butlast_snoc
    by (rule canonical_extend) (use clear segments_named [OF kv] ys in \<open>auto simp: root_clear_def\<close>)
  note up = this object_path_clear(3) [OF clear kv]
  have "andThen (on_os (map_error (object_io ''create object parent'' k) (os_create_dir_all (butlast ?p)))) (\<lambda>_.
     andThen (on_os (map_error (StorageIo ''create temporary object directory'') (os_create_dir_all (temp_dir root)))) (\<lambda>_.
     andThen (on_os (map_error (StorageIo ''create temporary object'') (os_create_new t))) (\<lambda>h.
     andThen (on_os (map_error (StorageIo ''write temporary object'') (os_write_all h bs))) (\<lambda>_.
     andThen (on_os (map_error (StorageIo ''sync temporary object'') (os_sync_all h))) (\<lambda>_.
     publish_temp k bs t ?p))))) ?s0 = (r, s')"
    using run by (simp add: local_put_def temp_path_def andThen_def parent t_def path_join_segment)
  then have "put_done root k bs (lc_os ?s0) r (lc_os s')"
  proof (rule put_step)
    fix u1 o1 assume clear1: "root_clear root o1"
    assume "andThen (on_os (map_error (StorageIo ''create temporary object directory'') (os_create_dir_all (temp_dir root)))) (\<lambda>_.
     andThen (on_os (map_error (StorageIo ''create temporary object'') (os_create_new t))) (\<lambda>h.
     andThen (on_os (map_error (StorageIo ''write temporary object'') (os_write_all h bs))) (\<lambda>_.
     andThen (on_os (map_error (StorageIo ''sync temporary object'') (os_sync_all h))) (\<lambda>_.
     publish_temp k bs t ?p)))) (?s0\<lparr>lc_os := o1\<rparr>) = (r, s')"
    then have "put_done root k bs (lc_os (?s0\<lparr>lc_os := o1\<rparr>)) r (lc_os s')"
    proof (rule put_step)
      fix u2 o2 assume clear2: "root_clear root o2"
      assume "andThen (on_os (map_error (StorageIo ''create temporary object'') (os_create_new t))) (\<lambda>h.
       andThen (on_os (map_error (StorageIo ''write temporary object'') (os_write_all h bs))) (\<lambda>_.
       andThen (on_os (map_error (StorageIo ''sync temporary object'') (os_sync_all h))) (\<lambda>_.
       publish_temp k bs t ?p))) (?s0\<lparr>lc_os := o1\<rparr>\<lparr>lc_os := o2\<rparr>) = (r, s')"
      then have "put_done root k bs (lc_os (?s0\<lparr>lc_os := o1\<rparr>\<lparr>lc_os := o2\<rparr>)) r (lc_os s')"
        by (rule put_created) (use clear2 ok(2) t_def temp_name_segment in simp_all)
      then show "put_done root k bs o2 r (lc_os s')" by simp
    qed (use create_dirs_kept [OF _ clear1 temp_clear(1,2) [OF clear1 temp_name_segment]] in \<open>simp_all add: object_io_def\<close>)
    then show "put_done root k bs o1 r (lc_os s')" by simp
  qed (use create_dirs_kept [OF _ clear up] in \<open>simp_all add: object_io_def\<close>)
  then show ?thesis by simp
qed

section \<open>What a put touches\<close>

text \<open>
  From the file system \<open>s0\<close> on: besides the object, which is a new file, the temporary file and missing
  directories above them appear, and the data of the files that were there is as it was.
\<close>

definition put_touches :: "path \<Rightarrow> object_key \<Rightarrow> path \<Rightarrow> os \<Rightarrow> os \<Rightarrow> bool" where
  "put_touches root k t s0 s \<longleftrightarrow> root_clear root s \<and> os_next s0 \<le> os_next s \<and>
     (\<forall>i < os_next s0. os_data s i = os_data s0 i) \<and>
     (\<forall>p. node_at s p = node_at s0 p \<or> node_at s0 p = None \<and>
        (p = object_path root k \<and> (\<exists>i. node_at s p = Some (FileNode i)) \<or> p = t \<or>
         node_at s p = Some DirNode \<and> (strict_prefix p (object_path root k) \<or> prefix p (temp_dir root))))"

lemma put_touches_start: "root_clear root s \<Longrightarrow> put_touches root k t s s"
  by (simp add: put_touches_def)

lemma put_touches_at:
  "put_touches root k t s0 s \<Longrightarrow> node_at s p = node_at s0 p \<or> node_at s0 p = None \<and>
     (p = object_path root k \<and> (\<exists>i. node_at s p = Some (FileNode i)) \<or> p = t \<or>
      node_at s p = Some DirNode \<and> (strict_prefix p (object_path root k) \<or> prefix p (temp_dir root)))"
  unfolding put_touches_def by blast

lemma put_touches_absent: "put_touches root k t s0 s \<Longrightarrow> node_at s p = None \<Longrightarrow> node_at s0 p = None"
  using put_touches_at [of root k t s0 s p] by auto

lemma put_touches_same: "put_touches root k t s0 s \<Longrightarrow> same_files s s' \<Longrightarrow> put_touches root k t s0 s'"
  using objects_kept_same [of root s s'] by (simp add: put_touches_def same_filesD objects_kept_def)

lemma put_touches_dirs:
  assumes T: "put_touches root k t s0 s" and run: "os_create_dir_all p s = (r, s')"
    and p: "canonical p" "link_free (node_at s) p"
    and below: "\<And>q. prefix q p \<Longrightarrow> strict_prefix q (object_path root k) \<or> prefix q (temp_dir root)"
  shows "put_touches root k t s0 s'"
proof -
  have clear: "root_clear root s" using T by (simp add: put_touches_def)
  then have added: "dirs_added s s' p" using os_create_dir_all_spec [OF run _ p] by (simp add: root_clear_def)
  have "node_at s' q = node_at s0 q \<or> node_at s0 q = None \<and>
        (q = object_path root k \<and> (\<exists>i. node_at s' q = Some (FileNode i)) \<or> q = t \<or>
         node_at s' q = Some DirNode \<and> (strict_prefix q (object_path root k) \<or> prefix q (temp_dir root)))" for q
    using dirs_addedD [OF added, of q]
  proof (elim disjE conjE)
    assume "node_at s' q = node_at s q"
    then show ?thesis using put_touches_at [OF T, of q] by simp
  next
    assume "node_at s q = None" "prefix q p" "node_at s' q = Some DirNode"
    then show ?thesis using put_touches_absent [OF T, of q] below by blast
  qed
  then show ?thesis
    using T added create_dirs_kept [OF run clear p] by (simp add: put_touches_def dirs_added_def objects_kept_def)
qed

lemma put_touches_create:
  assumes T: "put_touches root k t s0 s" and run: "os_create_new t s = (r, s')"
    and t: "t = temp_dir root @ [Normal n]" "segment_wf n"
  shows "put_touches root k t s0 s' \<and> (\<forall>h. r = Ok h \<longrightarrow> node_at s0 t = None \<and> os_next s0 \<le> h \<and>
    node_at s' t = Some (FileNode h) \<and> (\<forall>p. node_at s' p = Some (FileNode h) \<longrightarrow> strict_prefix (temp_dir root) p))"
proof -
  have clear: "root_clear root s" using T by (simp add: put_touches_def)
  then have wf: "os_wf s" by (simp add: root_clear_def)
  have clear': "root_clear root s'" using create_temp [OF run clear t] by (simp add: objects_kept_def)
  from os_create_new_spec [OF run wf] temp_clear(3,4) [OF clear t(2)] t
  consider e where "r = Err e" "same_files s s'"
    | "r = Ok (os_next s)" "node_at s t = None" "same_files (new_file t s) s'" by auto
  then show ?thesis
  proof cases
    case 1
    then show ?thesis using put_touches_same [OF T] by simp
  next
    case 2
    have none: "node_at s0 t = None" by (rule put_touches_absent [OF T 2(2)])
    have "node_at s' = (node_at s)(t \<mapsto> FileNode (os_next s))" "os_data s' = (os_data s)(os_next s := [])"
      "os_next s' = Suc (os_next s)"
      by (simp_all add: same_filesD [OF 2(3)])
    then have "put_touches root k t s0 s'" using T clear' none by (auto simp: put_touches_def)
    then show ?thesis using T create_temp [OF run clear t] none 2(1) by (auto simp: put_touches_def)
  qed
qed

lemma put_touches_write:
  assumes T: "put_touches root k t s0 s" and run: "os_write_all h bs s = (r, s')" and h: "os_next s0 \<le> h"
    and own: "\<And>p. node_at s p = Some (FileNode h) \<Longrightarrow> strict_prefix (temp_dir root) p"
  shows "put_touches root k t s0 s' \<and> node_at s' = node_at s"
proof -
  have clear: "root_clear root s" using T by (simp add: put_touches_def)
  have "root_clear root s'" using write_temp [OF run clear own] by (simp add: objects_kept_def)
  then show ?thesis using os_write_all_spec [OF run] T h by (auto simp: put_touches_def)
qed

lemma put_touches_link:
  assumes T: "put_touches root k t s0 s" and run: "os_hard_link t (object_path root k) s = (r, s')" and k: "usable_key k"
    and t: "t = temp_dir root @ [Normal n]" "segment_wf n"
  shows "put_touches root k t s0 s'"
proof -
  let ?p = "object_path root k"
  have clear: "root_clear root s" using T by (simp add: put_touches_def)
  then have wf: "os_wf s" by (simp add: root_clear_def)
  have kv: "key_valid k" using k by (simp add: usable_key_def)
  from os_hard_link_spec [OF run wf temp_clear(3,4) [OF clear t(2), folded t(1)] object_path_clear(1,3) [OF clear kv]]
  consider "same_files s s'"
    | h where "node_at s t = Some (FileNode h)" "same_files (put_node ?p (FileNode h) s) s'" "node_at s ?p = None"
      "node_at s (butlast ?p) = Some DirNode" by auto
  then show ?thesis
  proof cases
    case 1
    then show ?thesis by (rule put_touches_same [OF T])
  next
    case 2
    have wf': "os_wf s'"
      unfolding same_filesD(5) [OF 2(2)]
      by (rule os_wf_put [OF wf 2(3,4) object_path_clear(1) [OF clear kv]]) (use wf 2(1) in \<open>auto simp: os_wf_def\<close>)
    have s': "node_at s' = (node_at s)(?p \<mapsto> FileNode h)" "os_data s' = os_data s" "os_next s' = os_next s"
      by (simp_all add: same_filesD [OF 2(2)])
    have "root_clear root s'" using hard_link_publishes [OF clear k wf' s'(1,2) 2(3)] by simp
    then show ?thesis using T s' put_touches_absent [OF T 2(3)] by (auto simp: put_touches_def)
  qed
qed

lemma put_touches_remove:
  assumes T: "put_touches root k t s0 (lc_os s)" and run: "remove_temp t s = (r, s')" and none: "node_at s0 t = None"
    and t: "t = temp_dir root @ [Normal n]" "segment_wf n"
  shows "put_touches root k t s0 (lc_os s') \<and> (r = Ok () \<longrightarrow> node_at (lc_os s') t = None)"
proof -
  have clear: "root_clear root (lc_os s)" using T by (simp add: put_touches_def)
  then have wf: "os_wf (lc_os s)" by (simp add: root_clear_def)
  obtain x s1 where x: "os_remove_file t (lc_os s) = (x, s1)" "s' = s\<lparr>lc_os := s1\<rparr>"
    "r = (case x of Ok _ \<Rightarrow> Ok ()
      | Err source \<Rightarrow> if io_kind source = NotFound then Ok () else Err (StorageIo ''remove temporary object'' source))"
    using run unfolding remove_temp_def
    by (cases rule: andThen_cases) (auto elim!: outcome_cases on_os_cases simp: lift_result_def)
  have clear': "root_clear root s1" using remove_temp_kept [OF run clear t] x(2) by (simp add: objects_kept_def)
  from os_remove_file_spec [OF x(1) wf] temp_clear(3,4) [OF clear t(2)] t
  consider e where "x = Err e" "io_kind e = NotFound \<longrightarrow> node_at (lc_os s) t = None" "same_files (lc_os s) s1"
    | "x = Ok ()" "node_at s1 = (node_at (lc_os s))(t := None)" "os_data s1 = os_data (lc_os s)" "os_next s1 = os_next (lc_os s)"
    by auto
  then show ?thesis
  proof cases
    case 1
    then show ?thesis using put_touches_same [OF T 1(3)] by (simp add: x(2,3) same_filesD [OF 1(3)] split: if_splits)
  next
    case 2
    then show ?thesis using T clear' none by (auto simp: put_touches_def x(2))
  qed
qed

lemma triple_on_os:
  assumes "\<And>s r s'. A s \<Longrightarrow> m s = (r, s') \<Longrightarrow> E s' \<and> (\<forall>x. r = Ok x \<longrightarrow> Q x s')"
  shows "triple (\<lambda>s. A (lc_os s)) (on_os (map_error g m)) (\<lambda>x s. Q x (lc_os s)) (\<lambda>s. E (lc_os s))"
proof (rule tripleI)
  fix s x s' assume "A (lc_os s)" "on_os (map_error g m) s = (Ok x, s')"
  then show "Q x (lc_os s')" using assms [of "lc_os s"] by (auto simp: map_error_Ok_iff elim!: on_os_cases)
next
  fix s e s' assume A: "A (lc_os s)" and run: "on_os (map_error g m) s = (Err e, s')"
  obtain r s1 where "m (lc_os s) = (r, s1)" by fastforce
  then show "E (lc_os s')" using assms [OF A] run by (auto simp: on_os_def map_error_def)
qed

lemma publish_touches:
  assumes T: "put_touches root k t s0 (lc_os s)" and none: "node_at s0 t = None" and k: "usable_key k"
    and t: "t = temp_dir root @ [Normal n]" "segment_wf n"
    and run: "publish_temp k bs t (object_path root k) s = (r, s')"
  shows "put_touches root k t s0 (lc_os s') \<and> (\<forall>st. r = Ok st \<longrightarrow> node_at (lc_os s') t = None)"
proof -
  let ?T = "\<lambda>s. put_touches root k t s0 (lc_os s)"
  have link: "triple ?T (outcome_of (on_os (os_hard_link t (object_path root k)))) (\<lambda>_. ?T) ?T"
    by (rule tripleI) (auto elim!: outcome_cases on_os_cases intro: put_touches_link [OF _ _ k t])
  have remove: "triple ?T (remove_temp t) (\<lambda>_ s. ?T s \<and> node_at (lc_os s) t = None) ?T"
    by (rule tripleI) (use put_touches_remove [OF _ _ none t] in auto)
  have compare: "triple (\<lambda>s. ?T s \<and> node_at (lc_os s) t = None) (read_existing_for_compare k (object_path root k))
      (\<lambda>_ s. ?T s \<and> node_at (lc_os s) t = None) ?T"
    unfolding read_existing_for_compare_def
  proof (rule triple_on_os)
    fix o1 y o2 assume o1: "put_touches root k t s0 o1 \<and> node_at o1 t = None" and y: "os_read (object_path root k) o1 = (y, o2)"
    have clear: "root_clear root o1" and kv: "key_valid k" using o1 k by (simp_all add: put_touches_def usable_key_def)
    then have "same_files o1 o2"
      using os_read_spec [OF y _ object_path_clear(1,2) [OF clear kv]] by (simp add: root_clear_def)
    then show "put_touches root k t s0 o2 \<and> (\<forall>x. y = Ok x \<longrightarrow> put_touches root k t s0 o2 \<and> node_at o2 t = None)"
      using o1 put_touches_same [of root k t s0 o1 o2] by (simp add: same_filesD)
  qed
  have "triple ?T (publish_temp k bs t (object_path root k)) (\<lambda>_ s. ?T s \<and> node_at (lc_os s) t = None) ?T"
    unfolding publish_temp_def
  proof (rule triple_andThen [OF link])
    fix x
    show "triple ?T
      (case x of
         Ok _ \<Rightarrow> andThen (remove_temp t) (\<lambda>_. ret Created)
       | Err source \<Rightarrow>
           andThen (remove_temp t) (\<lambda>_.
           if io_kind source = AlreadyExists then
             andThen (read_existing_for_compare k (object_path root k)) (\<lambda>existing.
             lift_result (if existing = bs then Ok AlreadyPresent else Err (ObjectAlreadyExists k)))
           else lift_result (Err (object_io ''publish object'' k source))))
      (\<lambda>_ s. ?T s \<and> node_at (lc_os s) t = None) ?T"
    proof (cases x)
      case (Inl source)
      show ?thesis
        unfolding Inl sum.case
        by (rule triple_andThen [OF remove], cases "io_kind source = AlreadyExists")
          (simp_all, rule triple_andThen [OF compare], (rule triple_lift, auto)+)
    next
      case (Inr u)
      show ?thesis unfolding Inr sum.case by (rule triple_andThen [OF remove]) (rule triple_ret, simp)
    qed
  qed
  from tripleD [OF this T] run show ?thesis by (cases r) auto
qed

text \<open>The calls of a put, step by step; \<open>put_open\<close> is the state while the temporary file is open.\<close>

definition put_open :: "path \<Rightarrow> object_key \<Rightarrow> path \<Rightarrow> os \<Rightarrow> nat \<Rightarrow> os \<Rightarrow> bool" where
  "put_open root k t s0 h s \<longleftrightarrow> put_touches root k t s0 s \<and> node_at s0 t = None \<and> os_next s0 \<le> h \<and>
     (\<forall>p. node_at s p = Some (FileNode h) \<longrightarrow> strict_prefix (temp_dir root) p)"

abbreviation touched :: "path \<Rightarrow> object_key \<Rightarrow> path \<Rightarrow> os \<Rightarrow> local_state \<Rightarrow> bool" where
  "touched root k t s0 s \<equiv> put_touches root k t s0 (lc_os s)"

lemma triple_put_dirs:
  assumes p: "\<And>s. root_clear root s \<Longrightarrow> canonical p \<and> link_free (node_at s) p"
    and below: "\<And>q. prefix q p \<Longrightarrow> strict_prefix q (object_path root k) \<or> prefix q (temp_dir root)"
  shows "triple (touched root k t s0) (on_os (map_error g (os_create_dir_all p))) (\<lambda>_. touched root k t s0) (touched root k t s0)"
proof (rule triple_on_os)
  fix s r s' assume T: "put_touches root k t s0 s" and run: "os_create_dir_all p s = (r, s')"
  then have "canonical p \<and> link_free (node_at s) p" by (intro p) (simp add: put_touches_def)
  then have "put_touches root k t s0 s'" using put_touches_dirs [OF T run _ _ below] by blast
  then show "put_touches root k t s0 s' \<and> (\<forall>x. r = Ok x \<longrightarrow> put_touches root k t s0 s')" by simp
qed

lemma triple_put_create:
  assumes t: "t = temp_dir root @ [Normal n]" "segment_wf n"
  shows "triple (touched root k t s0) (on_os (map_error g (os_create_new t))) (\<lambda>h s. put_open root k t s0 h (lc_os s))
    (touched root k t s0)"
proof (rule triple_on_os)
  fix s r s' assume "put_touches root k t s0 s" and "os_create_new t s = (r, s')"
  from put_touches_create [OF this t]
  show "put_touches root k t s0 s' \<and> (\<forall>h. r = Ok h \<longrightarrow> put_open root k t s0 h s')" by (simp add: put_open_def)
qed

lemma triple_put_write:
  "triple (\<lambda>s. put_open root k t s0 h (lc_os s)) (on_os (map_error g (os_write_all h bs)))
    (\<lambda>_ s. put_open root k t s0 h (lc_os s)) (touched root k t s0)"
proof (rule triple_on_os)
  fix s r s' assume s: "put_open root k t s0 h s" and run: "os_write_all h bs s = (r, s')"
  have "put_touches root k t s0 s' \<and> node_at s' = node_at s"
    by (rule put_touches_write [OF _ run]) (use s in \<open>simp_all add: put_open_def\<close>)
  then show "put_touches root k t s0 s' \<and> (\<forall>x. r = Ok x \<longrightarrow> put_open root k t s0 h s')"
    using s by (simp add: put_open_def)
qed

lemma triple_put_sync:
  "triple (\<lambda>s. put_open root k t s0 h (lc_os s)) (on_os (map_error g (os_sync_all h)))
    (\<lambda>_ s. touched root k t s0 s \<and> node_at s0 t = None) (touched root k t s0)"
proof (rule triple_on_os)
  fix s r s' assume s: "put_open root k t s0 h s" and "os_sync_all h s = (r, s')"
  then have "put_touches root k t s0 s'"
    using put_touches_same [OF _ os_sync_all_spec] unfolding put_open_def by blast
  then show "put_touches root k t s0 s' \<and> (\<forall>x. r = Ok x \<longrightarrow> put_touches root k t s0 s' \<and> node_at s0 t = None)"
    using s by (simp add: put_open_def)
qed

lemma triple_put_publish:
  assumes k: "usable_key k" and t: "t = temp_dir root @ [Normal n]" "segment_wf n"
  shows "triple (\<lambda>s. touched root k t s0 s \<and> node_at s0 t = None) (publish_temp k bs t (object_path root k))
    (\<lambda>_ s. touched root k t s0 s \<and> node_at (lc_os s) t = None) (touched root k t s0)"
proof (rule tripleI)
  fix s x s' assume s: "touched root k t s0 s \<and> node_at s0 t = None" and run: "publish_temp k bs t (object_path root k) s = (Ok x, s')"
  from publish_touches [OF conjunct1 [OF s] conjunct2 [OF s] k t run]
  show "touched root k t s0 s' \<and> node_at (lc_os s') t = None" by simp
next
  fix s e s' assume s: "touched root k t s0 s \<and> node_at s0 t = None" and run: "publish_temp k bs t (object_path root k) s = (Err e, s')"
  from publish_touches [OF conjunct1 [OF s] conjunct2 [OF s] k t run] show "touched root k t s0 s'" by simp
qed

lemma put_touched:
  assumes run: "local_put root pid k bs s = (r, s')" and ok: "local_inv root s" "usable_key k"
    and t: "t = temp_dir root @ [Normal (temp_name pid k (lc_next_temp s))]"
  shows "put_touches root k t (lc_os s) (lc_os s') \<and> (\<forall>st. r = Ok st \<longrightarrow> node_at (lc_os s') t = None)"
proof -
  let ?p = "object_path root k" and ?T = "touched root k t (lc_os s)"
  have kv: "key_valid k" using ok(2) by (simp add: usable_key_def)
  have clear: "root_clear root (lc_os s)" using ok(1) by (simp add: local_inv_def)
  obtain ys y where ys: "split_on CHR ''/'' (as_str k) = ys @ [y]"
    using split_on_not_Nil [of "CHR ''/''" "as_str k"] by (cases "split_on CHR ''/'' (as_str k)" rule: rev_cases) auto
  then have path: "?p = (root @ map Normal ys) @ [Normal y]" by (simp add: object_path_valid [OF kv])
  have parent: "path_parent ?p = Some (butlast ?p)" unfolding path path_parent_snoc butlast_snoc by simp
  have up: "canonical (butlast ?p)"
    unfolding path butlast_snoc
    by (rule canonical_extend) (use clear segments_named [OF kv] ys in \<open>auto simp: root_clear_def\<close>)
  have above: "strict_prefix q ?p" if "prefix q (butlast ?p)" for q
    using that strict_prefix_snoc unfolding path butlast_snoc by (metis prefix_order.le_less_trans)
  have dirs: "triple ?T (on_os (map_error g (os_create_dir_all (butlast ?p)))) (\<lambda>_. ?T) ?T" for g
    by (rule triple_put_dirs) (use up object_path_clear(3) [OF _ kv] above in blast)+
  have temp: "triple ?T (on_os (map_error g (os_create_dir_all (temp_dir root)))) (\<lambda>_. ?T) ?T" for g
    by (rule triple_put_dirs) (use temp_clear(1,2) [OF _ temp_name_segment] in blast)+
  note steps = triple_andThen [OF dirs triple_andThen [OF temp triple_andThen [OF triple_put_create [OF t temp_name_segment]
    triple_andThen [OF triple_put_write triple_andThen [OF triple_put_sync triple_put_publish [OF ok(2) t temp_name_segment]]]]]]
  have "local_put root pid k bs s =
     andThen (on_os (map_error (object_io ''create object parent'' k) (os_create_dir_all (butlast ?p)))) (\<lambda>_.
     andThen (on_os (map_error (StorageIo ''create temporary object directory'') (os_create_dir_all (temp_dir root)))) (\<lambda>_.
     andThen (on_os (map_error (StorageIo ''create temporary object'') (os_create_new t))) (\<lambda>h.
     andThen (on_os (map_error (StorageIo ''write temporary object'') (os_write_all h bs))) (\<lambda>_.
     andThen (on_os (map_error (StorageIo ''sync temporary object'') (os_sync_all h))) (\<lambda>_.
     publish_temp k bs t ?p))))) (s\<lparr>lc_next_temp := lc_next_temp s + 1\<rparr>)"
    by (simp add: local_put_def temp_path_def andThen_def parent t path_join_segment)
  with tripleD [OF steps, of "s\<lparr>lc_next_temp := lc_next_temp s + 1\<rparr>"] run put_touches_start [OF clear]
  show ?thesis by (cases r) auto
qed

section \<open>Listing\<close>

text \<open>A listing reads only.\<close>

definition reads_only :: "(local_state, 'e, 'a) prog \<Rightarrow> bool" where
  "reads_only m \<longleftrightarrow> (\<forall>s0. keeps (\<lambda>s. same_files s0 (lc_os s)) m)"

lemma reads_onlyD: "reads_only m \<Longrightarrow> m s = (r, s') \<Longrightarrow> same_files (lc_os s) (lc_os s')"
  unfolding reads_only_def by (metis keepsD same_files_refl)

lemma reads_only_os:
  assumes "\<And>s r s'. m s = (r, s') \<Longrightarrow> same_files s s'"
  shows "reads_only (on_os (map_error g m))"
  unfolding reads_only_def keeps_def
proof (intro allI impI)
  fix s0 and s :: local_state assume "same_files s0 (lc_os s)"
  moreover obtain r o1 where "m (lc_os s) = (r, o1)" by fastforce
  ultimately show "same_files s0 (lc_os (snd (on_os (map_error g m) s)))"
    using assms same_files_trans by (fastforce simp: on_os_def map_error_def)
qed

lemma reads_only_andThen: "reads_only m \<Longrightarrow> (\<And>x. reads_only (f x)) \<Longrightarrow> reads_only (andThen m f)"
  by (simp add: reads_only_def keeps_andThen)

lemma reads_only_pure: "reads_only (ret x)" "reads_only (lift_result r)"
  by (simp_all add: reads_only_def keeps_ret keeps_lift)

lemma read_dir_same: "os_read_dir p s = (r, s') \<Longrightarrow> same_files s s'"
  unfolding os_read_dir_def by (cases rule: syscall_cases) auto

lemma reads_calls: "reads_only (on_os (map_error g os_touch))" "reads_only (on_os (map_error g (os_read_dir p)))"
  by (rule reads_only_os, erule os_touch_spec, rule reads_only_os, erule read_dir_same)

lemmas reads_only_intros = reads_only_andThen reads_only_pure reads_calls

lemma collect_entry_reads: "reads_only (collect_entry root d acc e)"
  unfolding collect_entry_def Let_def by (cases acc; cases e) (auto intro!: reads_only_intros)

lemma collect_directory_reads: "reads_only (collect_directory root d acc)"
proof -
  have "reads_only (for_each es (collect_entry root d) acc)" for es
    using collect_entry_reads unfolding reads_only_def by (intro allI keeps_for_each) blast
  then show ?thesis unfolding collect_directory_def by (intro reads_only_intros)
qed

lemma collect_files_reads: "collect_files root stack outp s = (r, s') \<Longrightarrow> same_files (lc_os s) (lc_os s')"
proof (induction root stack outp s arbitrary: r s' rule: collect_files.induct)
  case (1 root stack outp s)
  obtain y s1 where dir: "collect_directory root (last stack) (butlast stack, outp) s = (y, s1)" by fastforce
  have same: "same_files (lc_os s) (lc_os s1)" by (rule reads_onlyD [OF collect_directory_reads dir])
  show ?case
  proof (cases "stack = []")
    case True
    then show ?thesis using "1.prems" by (simp add: collect_files.simps [of root "[]"])
  next
    case False
    show ?thesis
    proof (cases y)
      case (Inl e)
      then show ?thesis using "1.prems" dir False same by (simp add: collect_files.simps [of root stack])
    next
      case (Inr b)
      obtain st out2 where b: "b = (st, out2)" by fastforce
      have "collect_files root st out2 s1 = (r, s')"
        using "1.prems" dir False by (simp add: collect_files.simps [of root stack] Inr b)
      then have "same_files (lc_os s1) (lc_os s')" by (rule "1.IH" [OF False dir [symmetric] Inr b [symmetric]])
      then show ?thesis by (rule same_files_trans [OF same])
    qed
  qed
qed

text \<open>The key that is pushed for a file is the key whose object it is.\<close>

lemma push_object_path_key:
  assumes push: "push_object_path root (root @ rel) outp = Ok out2" and rel: "\<forall>c \<in> set rel. named c"
  obtains k where "out2 = outp @ [k]" "key_valid k" "object_path root k = root @ rel"
proof -
  have "\<exists>ss. rel = map Normal ss \<and> (\<forall>s \<in> set ss. CHR ''/'' \<notin> set s)"
    by (rule exI [of _ "map component_str rel"]) (use rel in \<open>auto simp: named_iff segment_wf_def intro!: map_idI [symmetric]\<close>)
  then obtain ss where ss: "rel = map Normal ss" "\<forall>s \<in> set ss. CHR ''/'' \<notin> set s" by blast
  have "map component_str rel = ss" by (simp add: ss comp_def)
  then have k: "out2 = outp @ [ObjectKey (join_with CHR ''/'' ss)]" "list_all segment_ok (split_on CHR ''/'' (join_with CHR ''/'' ss))"
    using push by (auto simp: push_object_path_def bindR_Ok_iff object_key_new_Ok)
  have "ss \<noteq> []" using k(2) by (auto simp: segment_ok_def)
  then have "split_on CHR ''/'' (join_with CHR ''/'' ss) = ss" using split_join ss(2) by blast
  then show ?thesis using that k by (simp add: key_valid_def object_path_valid ss(1))
qed

text \<open>The entries of a directory, in any order: the keys of its files are appended.\<close>

lemma collect_entries_keys:
  assumes run: "for_each es (collect_entry root (root @ rel)) (stack, outp) s = (Ok (st2, out2), s')"
    and rel: "\<forall>c \<in> set rel. named c" "\<forall>e \<in> set es. segment_wf (fst e)"
  shows "\<exists>ks. out2 = outp @ ks \<and> list_all key_valid ks \<and>
    map (object_path root) ks = map (\<lambda>e. root @ rel @ [Normal (fst e)]) (filter (\<lambda>e. snd e = IsFile) es)"
  using run rel(2)
proof (induction es arbitrary: stack outp s)
  case (Cons e es)
  obtain c ty where e: "e = (c, ty)" by fastforce
  obtain st out1 s1 where step: "collect_entry root (root @ rel) (stack, outp) (c, ty) s = (Ok (st, out1), s1)"
    "for_each es (collect_entry root (root @ rel)) (st, out1) s1 = (Ok (st2, out2), s')"
    using Cons.prems(1) by (auto simp: andThen_Ok_iff e)
  obtain ks where ks: "out2 = out1 @ ks" "list_all key_valid ks"
    "map (object_path root) ks = map (\<lambda>e. root @ rel @ [Normal (fst e)]) (filter (\<lambda>e. snd e = IsFile) es)"
    using Cons.IH [OF step(2)] Cons.prems(2) by auto
  show ?case
  proof (cases "ty = IsFile")
    case True
    have "push_object_path root (root @ rel @ [Normal c]) outp = Ok out1"
      using collect_entry_Ok [OF step(1)] True by simp
    moreover have "\<forall>x \<in> set (rel @ [Normal c]). named x" using rel(1) Cons.prems(2) by (auto simp: e named_iff)
    ultimately obtain k where k: "out1 = outp @ [k]" "key_valid k" "object_path root k = root @ rel @ [Normal c]"
      using push_object_path_key by blast
    then show ?thesis using ks True by (intro exI [of _ "k # ks"]) (simp add: e)
  next
    case False
    then show ?thesis using ks collect_entry_Ok [OF step(1)] by (simp add: e)
  qed
qed simp

definition files_below :: "os \<Rightarrow> path \<Rightarrow> path set" where
  "files_below s d = {x. (\<exists>i. node_at s x = Some (FileNode i)) \<and> prefix d x}"

lemma finite_files_below: "finite (files_below s d)"
proof -
  have "files_below s d \<subseteq> {x. node_at s x \<noteq> None \<and> True}" by (auto simp: files_below_def)
  then show ?thesis by (rule finite_subset) (rule finite_nodes)
qed

lemma mset_set_UN:
  assumes "distinct xs" and "\<And>x. finite (F x)" and "\<And>x y. x \<noteq> y \<Longrightarrow> F x \<inter> F y = {}"
  shows "mset_set (\<Union>x \<in> set xs. F x) = (\<Sum>x\<leftarrow>xs. mset_set (F x))"
  using assms(1)
proof (induction xs)
  case (Cons x xs)
  have "F x \<inter> F y = {}" if "y \<in> set xs" for y
    by (rule assms(3)) (use that Cons.prems in auto)
  then have "F x \<inter> (\<Union>y \<in> set xs. F y) = {}" by blast
  then show ?case using Cons assms(2) by (simp add: mset_set_Union)
qed simp

abbreviation child_files :: "os \<Rightarrow> path \<Rightarrow> string list" where
  "child_files s d \<equiv> filter (\<lambda>c. \<exists>i. node_at s (d @ [Normal c]) = Some (FileNode i)) (child_names s d)"

abbreviation child_dirs :: "os \<Rightarrow> path \<Rightarrow> string list" where
  "child_dirs s d \<equiv> filter (\<lambda>c. node_at s (d @ [Normal c]) = Some DirNode) (child_names s d)"

lemma files_below_directory:
  assumes wf: "os_wf s" and d: "node_at s d = Some DirNode"
  shows "mset_set (files_below s d) = mset (map (\<lambda>c. d @ [Normal c]) (child_files s d)) +
    (\<Sum>c\<leftarrow>child_dirs s d. mset_set (files_below s (d @ [Normal c])))"
proof -
  let ?A = "(\<lambda>c. d @ [Normal c]) ` set (child_files s d)" and ?B = "\<lambda>c. files_below s (d @ [Normal c])"
  have tree: "tree_wf (node_at s)" using wf by (simp add: os_wf_def)
  have dn: "d \<noteq> []" using tree d by (auto simp: tree_wf_def canonical_def)
  have split: "files_below s d = ?A \<union> (\<Union>c \<in> set (child_dirs s d). ?B c)"
  proof (rule set_eqI, rule iffI)
    fix x assume "x \<in> files_below s d"
    then obtain i zs where x: "node_at s x = Some (FileNode i)" "x = d @ zs" by (auto simp: files_below_def prefix_def)
    then obtain a ys where zs: "zs = a # ys" using d by (cases zs) auto
    have "canonical x" using tree x(1) by (auto simp: tree_wf_def)
    then have "named a" using dn by (cases d) (auto simp: x(2) zs canonical_def)
    then obtain c where a: "a = Normal c" by (auto simp: named_iff)
    show "x \<in> ?A \<union> (\<Union>c \<in> set (child_dirs s d). ?B c)"
    proof (cases "ys = []")
      case True
      then show ?thesis using x zs a by (auto simp: set_child_names)
    next
      case False
      have "node_at s (d @ [Normal c]) = Some DirNode"
        by (rule tree_wf_ancestor [OF tree, of _ ys]) (use x zs a False in auto)
      then show ?thesis using x zs a by (auto simp: set_child_names files_below_def)
    qed
  qed (auto simp: files_below_def dest: append_prefixD)
  have disj: "?B c \<inter> ?B c' = {}" if "c \<noteq> c'" for c c'
    using that by (auto simp: files_below_def prefix_def)
  have "?A \<inter> (\<Union>c \<in> set (child_dirs s d). ?B c) = {}"
    by (auto simp: files_below_def prefix_def)
  then have "mset_set (files_below s d) = mset_set ?A + mset_set (\<Union>c \<in> set (child_dirs s d). ?B c)"
    unfolding split by (intro mset_set_Union) (simp_all add: finite_files_below)
  moreover have "mset_set ?A = mset (map (\<lambda>c. d @ [Normal c]) (child_files s d))"
    using mset_set_set [of "map (\<lambda>c. d @ [Normal c]) (child_files s d)"]
    by (simp add: distinct_map distinct_child_names inj_on_def del: set_filter)
  moreover have "mset_set (\<Union>c \<in> set (child_dirs s d). ?B c) = (\<Sum>c\<leftarrow>child_dirs s d. mset_set (?B c))"
    by (rule mset_set_UN) (simp_all add: distinct_child_names finite_files_below disj)
  ultimately show ?thesis by simp
qed

text \<open>One round, then the loop: the keys of all files below the directories of the stack, each once.\<close>

definition dirs_ok :: "path \<Rightarrow> os \<Rightarrow> path list \<Rightarrow> bool" where
  "dirs_ok root s ds \<longleftrightarrow> (\<forall>d \<in> set ds. prefix root d \<and> node_at s d = Some DirNode)"

lemma collect_directory_keys:
  assumes run: "collect_directory root d (stack, outp) s = (Ok (st2, out2), s')"
    and clear: "root_clear root (lc_os s)" and ok: "dirs_ok root (lc_os s) (stack @ [d])"
  shows "dirs_ok root (lc_os s) st2 \<and> (\<exists>ks. out2 = outp @ ks \<and> list_all key_valid ks \<and>
    mset (map (object_path root) ks) + (\<Sum>x\<leftarrow>st2. mset_set (files_below (lc_os s) x)) =
    (\<Sum>x\<leftarrow>stack @ [d]. mset_set (files_below (lc_os s) x)))"
proof -
  let ?s = "lc_os s"
  have wf: "os_wf ?s" using clear by (simp add: root_clear_def)
  then have tree: "tree_wf (node_at ?s)" by (simp add: os_wf_def)
  obtain rel where d: "d = root @ rel" "node_at ?s d = Some DirNode"
    using ok by (auto simp: dirs_ok_def prefix_def)
  have can: "canonical d" using tree d(2) by (auto simp: tree_wf_def)
  have rn: "root \<noteq> []" using clear by (auto simp: root_clear_def canonical_def)
  have rel: "\<forall>c \<in> set rel. named c" using can rn by (cases root) (auto simp: d(1) canonical_def)
  obtain es s1 s2 where dir: "on_os (map_error (StorageIo ''read object directory'') (os_read_dir d)) s = (Ok es, s1)"
    and loop: "for_each es (collect_entry root d) (stack, outp) s1 = (Ok (st2, out2), s2)"
    using run by (auto simp: collect_directory_def andThen_Ok_iff)
  obtain o' where rd: "os_read_dir d ?s = (Ok es, o')" "s1 = s\<lparr>lc_os := o'\<rparr>"
    using dir by (auto simp: on_os_Ok_iff map_error_Ok_iff)
  have free: "link_free (node_at ?s) d" by (rule root_clear_link_free [OF clear]) (simp add: d(1))
  have es: "es = children ?s d"
    using os_read_dir_Ok [OF rd(1)] resolve_absolute [OF tree can free, of MAX_LINKS] d(2) by auto
  have names: "segment_wf (fst e)" if "e \<in> set es" for e
  proof -
    have "node_at ?s (d @ [Normal (fst e)]) \<noteq> None" using that by (auto simp: es children_def set_child_names)
    then have "canonical (d @ [Normal (fst e)])" using tree unfolding tree_wf_def by blast
    from canonical_append [OF this canonical_not_Nil [OF can]] show ?thesis by (simp add: named_iff)
  qed
  have dirs: "node_type nd = IsDir \<longleftrightarrow> nd = DirNode" for nd by (cases nd) (simp_all add: node_type_def)
  have "map fst (filter (\<lambda>e. snd e = IsDir) es) = child_dirs ?s d"
    unfolding es children_def filter_map map_map comp_def fst_conv snd_conv
    by (simp, rule filter_cong) (auto simp: set_child_names dirs)
  moreover have "st2 = stack @ map (\<lambda>c. d @ [Normal c]) (map fst (filter (\<lambda>e. snd e = IsDir) es))"
    using collect_entries_Ok [OF loop] by (simp add: comp_def)
  ultimately have st2: "st2 = stack @ map (\<lambda>c. d @ [Normal c]) (child_dirs ?s d)" by simp
  have files: "map fst (filter (\<lambda>e. snd e = IsFile) es) = child_files ?s d"
    unfolding es children_def filter_map map_map comp_def fst_conv snd_conv
    by (simp, rule filter_cong) (auto simp: set_child_names node_type_file)
  obtain ks where ks: "out2 = outp @ ks" "list_all key_valid ks"
    "map (object_path root) ks = map (\<lambda>e. root @ rel @ [Normal (fst e)]) (filter (\<lambda>e. snd e = IsFile) es)"
    using collect_entries_keys [OF loop [unfolded d(1)] rel] names by blast
  have "map (object_path root) ks = map (\<lambda>c. d @ [Normal c]) (child_files ?s d)"
    unfolding ks(3) files [symmetric] by (simp add: d(1) comp_def)
  then have "mset (map (object_path root) ks) + (\<Sum>x\<leftarrow>st2. mset_set (files_below ?s x)) =
      (\<Sum>x\<leftarrow>stack @ [d]. mset_set (files_below ?s x))"
    using files_below_directory [OF wf d(2)] by (simp add: st2 comp_def)
  moreover have "dirs_ok root ?s st2" using ok by (auto simp: st2 dirs_ok_def d(1))
  ultimately show ?thesis using ks by blast
qed

lemma collect_files_keys:
  assumes "collect_files root stack outp s = (Ok out2, s')"
    and "root_clear root (lc_os s)" and "dirs_ok root (lc_os s) stack"
  shows "\<exists>ks. out2 = outp @ ks \<and> list_all key_valid ks \<and>
    mset (map (object_path root) ks) = (\<Sum>x\<leftarrow>stack. mset_set (files_below (lc_os s) x))"
  using assms
proof (induction root stack outp s arbitrary: s' rule: collect_files.induct)
  case (1 root stack outp s)
  show ?case
  proof (cases "stack = []")
    case True
    then show ?thesis using "1.prems" by (simp add: collect_files.simps [of root "[]"])
  next
    case False
    then obtain st out1 s1 where dir: "collect_directory root (last stack) (butlast stack, outp) s = (Ok (st, out1), s1)"
      and rest: "collect_files root st out1 s1 = (Ok out2, s')"
      using "1.prems"(1) by (auto simp: collect_files.simps [of root stack] split: prod.splits sum.splits)
    have stack: "butlast stack @ [last stack] = stack" using False by simp
    obtain ks where ks: "out1 = outp @ ks" "list_all key_valid ks" "dirs_ok root (lc_os s) st"
      "mset (map (object_path root) ks) + (\<Sum>x\<leftarrow>st. mset_set (files_below (lc_os s) x)) =
        (\<Sum>x\<leftarrow>stack. mset_set (files_below (lc_os s) x))"
      using collect_directory_keys [OF dir "1.prems"(2)] "1.prems"(3) unfolding stack by blast
    have same: "same_files (lc_os s) (lc_os s1)" by (rule reads_onlyD [OF collect_directory_reads dir])
    have below: "files_below (lc_os s1) = files_below (lc_os s)"
      by (simp add: files_below_def fun_eq_iff same_filesD [OF same])
    have "\<exists>ks'. out2 = out1 @ ks' \<and> list_all key_valid ks' \<and>
        mset (map (object_path root) ks') = (\<Sum>x\<leftarrow>st. mset_set (files_below (lc_os s1) x))"
      by (rule "1.IH" [OF False dir [symmetric] refl refl rest])
        (use "1.prems"(2) ks(3) in \<open>simp_all add: root_clear_def dirs_ok_def same_filesD [OF same]\<close>)
    then obtain ks' where "out2 = out1 @ ks'" "list_all key_valid ks'"
      "mset (map (object_path root) ks') = (\<Sum>x\<leftarrow>st. mset_set (files_below (lc_os s) x))"
      unfolding below by blast
    then show ?thesis using ks by (intro exI [of _ "ks @ ks'"]) simp
  qed
qed

lemma prefix_path_valid:
  assumes "prefix_valid p"
  obtains ss where "prefix_path root p = root @ map Normal ss" "list_all segment_ok ss"
    "\<And>k. key_valid k \<Longrightarrow> prefix_contains p k \<longleftrightarrow> prefix (prefix_path root p) (object_path root k)"
proof (cases "prefix_str p = []")
  case True
  then have "prefix_path root p = root @ map Normal []"
    by (simp add: prefix_path_def prefix_relative_path_def collect_path_def path_join_normal)
  then show ?thesis using that [of "[]"] True by (simp add: prefix_contains_def object_path_valid)
next
  case False
  let ?ss = "split_on CHR ''/'' (prefix_str p)"
  have "validate_key (prefix_str p) False = Ok ()" using assms False by (simp add: prefix_valid_def validate_key_def)
  then have ok: "list_all segment_ok ?ss" by (simp add: validate_key_False_Ok)
  then have "filter (\<lambda>part. part \<noteq> []) ?ss = ?ss"
    by (intro filter_True) (auto simp: list_all_iff segment_ok_def)
  then have path: "prefix_path root p = root @ map Normal ?ss"
    using collect_path_segments [OF ok] by (simp add: prefix_path_def prefix_relative_path_def path_join_normal)
  have "prefix_contains p k \<longleftrightarrow> prefix (prefix_path root p) (object_path root k)" if "key_valid k" for k
  proof -
    have "prefix (map Normal xs) (map Normal ys) \<longleftrightarrow> prefix xs ys" for xs ys
      by (induction xs ys rule: list_induct2') auto
    moreover have "prefix_contains p k \<longleftrightarrow> as_str k = prefix_str p \<or> prefix (prefix_str p @ ''/'') (as_str k)"
      using False by (auto simp: prefix_contains_def strip_prefix_str_Some prefix_def split: option.splits)
        (auto simp: strip_prefix_str_def split: if_splits)
    ultimately show ?thesis using prefix_segments [of "CHR ''/''" "prefix_str p" "as_str k"] that
      by (simp add: path object_path_valid)
  qed
  then show ?thesis using that path ok by blast
qed

lemma files_below_leaf:
  assumes "os_wf s" and "node_at s d \<noteq> Some DirNode" and "d \<noteq> []"
  shows "files_below s d = (if file_at s d = None then {} else {d})"
proof -
  have "x = d" if mem: "x \<in> files_below s d" for x
  proof (rule ccontr)
    assume "x \<noteq> d"
    obtain i zs where x: "node_at s x = Some (FileNode i)" "x = d @ zs"
      using mem unfolding files_below_def prefix_def by blast
    then have "node_at s d = Some DirNode"
      using tree_wf_ancestor [of "node_at s" d zs] assms(1,3) \<open>x \<noteq> d\<close> by (simp add: os_wf_def)
    then show False using assms(2) by simp
  qed
  then show ?thesis by (auto simp: files_below_def file_at_None)
qed

lemma list_reads: "reads_only (local_list_prefix root p)"
proof -
  have "reads_only (outcome_of (on_os (os_stat q)))" for q
    unfolding reads_only_def keeps_def
  proof (intro allI impI)
    fix s0 and s :: local_state assume s0: "same_files s0 (lc_os s)"
    obtain r o1 where "os_stat q (lc_os s) = (r, o1)" by fastforce
    moreover from this have "same_files (lc_os s) o1" unfolding os_stat_def by (cases rule: syscall_cases) auto
    ultimately show "same_files s0 (lc_os (snd (outcome_of (on_os (os_stat q)) s)))"
      using same_files_trans [OF s0] by (simp add: outcome_of_def on_os_def)
  qed
  moreover have "reads_only (collect_files root stack outp)" for stack outp
    unfolding reads_only_def keeps_def
    by (metis collect_files_reads same_files_trans surjective_pairing)
  ultimately show ?thesis
    unfolding local_list_prefix_def
    by (intro reads_only_intros) (auto intro: reads_only_intros split: sum.split)
qed

text \<open>What the prefix names: a file, a directory with files below it, or nothing.\<close>

lemma listed_files:
  assumes run: "local_list_prefix root p s = (Ok ks, s')" and clear: "root_clear root (lc_os s)" and p: "prefix_valid p"
  obtains outp where "ks = sort (filter (\<lambda>key. prefix_contains p key \<and> \<not> prefix ''.fileferry-tmp/'' (as_str key)) outp)"
    "list_all key_valid outp" "mset (map (object_path root) outp) = mset_set (files_below (lc_os s) (prefix_path root p))"
proof -
  let ?s = "lc_os s" and ?p = "prefix_path root p"
  obtain ss where ss: "?p = root @ map Normal ss" "list_all segment_ok ss" by (rule prefix_path_valid [OF p])
  have wf: "os_wf ?s" and root: "canonical root" using clear by (simp_all add: root_clear_def)
  have named: "\<forall>c \<in> set (map Normal ss). named c" using ss(2) by (auto simp: list_all_iff named_iff intro: segment_ok_wf)
  have can: "canonical ?p" unfolding ss(1) by (rule canonical_extend [OF root named])
  have free: "link_free (node_at ?s) ?p" by (rule root_clear_link_free [OF clear]) (simp add: ss(1))
  obtain x o1 outp where x: "os_stat ?p ?s = (x, o1)"
    and out: "(case x of
        Ok ty \<Rightarrow> if ty = IsFile then lift_result (push_object_path root ?p [])
          else if ty = IsDir then collect_files root [?p] [] else ret []
      | Err source \<Rightarrow> if io_kind source = NotFound then ret [] else lift_result (Err (StorageIo ''stat prefix'' source)))
      (s\<lparr>lc_os := o1\<rparr>) = (Ok outp, s')"
    and ks: "ks = sort (filter (\<lambda>key. prefix_contains p key \<and> \<not> prefix ''.fileferry-tmp/'' (as_str key)) outp)"
    using run by (auto simp: local_list_prefix_def andThen_Ok_iff outcome_of_def on_os_def ret_def split: prod.splits)
  note spec = os_stat_spec [OF x wf can free]
  have "list_all key_valid outp \<and> mset (map (object_path root) outp) = mset_set (files_below ?s ?p)"
  proof (cases "node_at ?s ?p = Some DirNode")
    case True
    then have "x = Ok IsDir" using spec out by (auto simp: node_type_def split: sum.splits if_splits)
    then have "collect_files root [?p] [] (s\<lparr>lc_os := o1\<rparr>) = (Ok outp, s')" using out by simp
    moreover have same: "same_files ?s o1" using spec by blast
    moreover have "root_clear root o1" "dirs_ok root o1 [?p]"
      using clear True by (simp_all add: root_clear_def dirs_ok_def ss(1) same_filesD [OF same])
    ultimately show ?thesis using collect_files_keys [of root "[?p]" "[]" "s\<lparr>lc_os := o1\<rparr>" outp s']
      by (simp add: files_below_def same_filesD [OF same])
  next
    case False
    note leaf = files_below_leaf [OF wf False canonical_not_Nil [OF can]]
    show ?thesis
    proof (cases "file_at ?s ?p")
      case None
      then have "outp = []" using spec out False
        by (auto simp: file_at_None node_type_def ret_def lift_result_def split: sum.splits if_splits fs_node.splits)
      then show ?thesis by (simp add: leaf None)
    next
      case (Some b)
      then have "x = Ok IsFile" using spec out
        by (auto simp: file_at_Some node_type_def lift_result_def ret_def split: sum.splits if_splits)
      then have "push_object_path root (root @ map Normal ss) [] = Ok outp" using out by (simp add: lift_result_def ss(1))
      from push_object_path_key [OF this named] obtain k where
        "outp = [] @ [k]" "key_valid k" "object_path root k = root @ map Normal ss" by blast
      then show ?thesis by (simp add: leaf Some ss(1) [symmetric])
    qed
  qed
  then show ?thesis using that ks by blast
qed

lemma list_spec:
  assumes run: "local_list_prefix root p s = (Ok ks, s')" and clear: "local_inv root s" and p: "prefix_valid p"
  shows "distinct ks \<and> set ks = {k. usable_key k \<and> local_contents root s k \<noteq> None \<and> prefix_contains p k}"
proof -
  obtain outp where ks: "ks = sort (filter (\<lambda>key. prefix_contains p key \<and> \<not> prefix ''.fileferry-tmp/'' (as_str key)) outp)"
    and valid: "list_all key_valid outp"
    and files: "mset (map (object_path root) outp) = mset_set (files_below (lc_os s) (prefix_path root p))"
    using listed_files [OF run clear [unfolded local_inv_def] p] by blast
  have paths: "object_path root ` set outp = files_below (lc_os s) (prefix_path root p)"
    using arg_cong [OF files, of set_mset] finite_files_below by simp
  have "distinct (map (object_path root) outp)"
    unfolding distinct_count_atmost_1 files by (simp add: paths count_mset_set' finite_files_below)
  then have "distinct outp" by (simp add: distinct_map)
  then have "distinct ks" by (simp add: ks)
  moreover
  obtain under: "\<And>k. key_valid k \<Longrightarrow> prefix_contains p k \<longleftrightarrow> prefix (prefix_path root p) (object_path root k)"
    using prefix_path_valid [OF p] by metis
  have mem: "k \<in> set outp \<longleftrightarrow> key_valid k \<and> file_at (lc_os s) (object_path root k) \<noteq> None \<and> prefix_contains p k" for k
  proof -
    have "j = k" if "j \<in> set outp" "key_valid k" "object_path root k = object_path root j" for j
      using that valid object_path_inj [of j k root] by (simp add: list_all_iff)
    then have "k \<in> set outp \<longleftrightarrow> key_valid k \<and> object_path root k \<in> object_path root ` set outp"
      using valid by (auto simp: list_all_iff)
    then show ?thesis using under by (auto simp: paths files_below_def file_at_None)
  qed
  have "set ks = {k. usable_key k \<and> local_contents root s k \<noteq> None \<and> prefix_contains p k}"
    by (auto simp: ks mem usable_key_def local_contents_def stored_files_def)
  ultimately show ?thesis by blast
qed

section \<open>The contract\<close>

lemma local_ops_sel [simp]:
  "put_if_absent (local_store_ops root pid) = local_put root pid" "get_object (local_store_ops root pid) = local_get root"
  "object_exists (local_store_ops root pid) = local_exists root" "delete_object (local_store_ops root pid) = local_delete root"
  "list_prefix (local_store_ops root pid) = local_list_prefix root"
  by (simp_all add: local_store_ops_def)

lemma put_contract:
  assumes "local_inv root s" and "usable_key k" and "local_put root pid k b s = (r, s')"
  shows "local_inv root s'"
    and "local_contents root s' = local_contents root s \<or>
      local_contents root s k = None \<and> local_contents root s' = (local_contents root s)(k \<mapsto> b)"
    and "r = Ok st \<Longrightarrow> local_contents root s' k = Some b" and "r = Ok Created \<Longrightarrow> local_contents root s k = None"
    and "r = Err (ObjectAlreadyExists j) \<Longrightarrow> j = k \<and> (\<exists>b'. local_contents root s k = Some b' \<and> b' \<noteq> b)"
  using put_spec [OF assms(3,1,2)] unfolding put_done_def local_inv_def local_contents_def by blast+

lemma list_frame:
  assumes "local_inv root s" and "local_list_prefix root p s = (r, s')"
  shows "local_inv root s' \<and> local_contents root s' = local_contents root s"
  using objects_keptD [OF objects_kept_same [OF assms(1) [unfolded local_inv_def] reads_onlyD [OF list_reads assms(2)]]]
  by (simp add: local_inv_def local_contents_def)

interpretation disk: object_store "local_store_ops root pid" "local_contents root" "local_inv root" usable_key
  for root pid
proof (unfold_locales, goal_cases)
  case (1 s k b r s') then show ?case using put_contract(1,2) by simp
next
  case (2 s k b st s') then show ?case using put_contract(3) by simp
next
  case (3 s k b s') then show ?case using put_contract(4) by simp
next
  case (4 s k b j s') then show ?case using put_contract(5) by simp
next
  case (5 s k rg s') then show ?case using get_spec by simp
next
  case (6 s k b s') then show ?case using get_spec [of root k s "Ok b" s'] by simp
next
  case (7 s k j s') then show ?case using get_spec [of root k s "Err (ObjectNotFound j)" s'] by simp
next
  case (8 s k re s') then show ?case using exists_spec by simp
next
  case (9 s k e s') then show ?case using exists_spec [of root k s "Ok e" s'] by simp
next
  case (10 s k rd s') then show ?case using delete_spec by simp
next
  case (11 s k u s') then show ?case using delete_spec [of root k s "Ok u" s'] by simp
next
  case (12 s p rl s') then show ?case using list_frame by simp
next
  case (13 s p ks s') then show ?case using list_spec by (simp add: listed_prefix_def)
qed

interpretation disk: exact_listing "local_store_ops root pid" "local_contents root" "local_inv root" usable_key
  for root pid
  by unfold_locales (use list_spec in simp)

interpretation disk: repository_store "local_store_ops root pid" "local_contents root" "local_inv root" usable_key
  for root pid
proof
  fix k assume "key_valid k" "repo_key k"
  then show "usable_key k" by (auto simp: usable_key_def repo_key_def repository_roots_def prefix_def)
next
  fix s k b assume "local_contents root s k = Some b"
  then show "usable_key k" by (auto simp: local_contents_def stored_files_def split: if_splits)
qed

section \<open>Properties\<close>

text \<open>
  C12: the local store meets the contract of a repository store, for every root directory and every process,
  whatever calls of the file system fail: no object is overwritten, a put that reports success has stored
  its bytes, reads answer from the stored objects, and a listing has exactly the keys below its prefix.
\<close>

theorem local_store_meets_contract:
  "repository_store (local_store_ops root pid) (local_contents root) (local_inv root) usable_key \<and>
   exact_listing (local_store_ops root pid) (local_contents root) (local_inv root) usable_key"
  using disk.repository_store_axioms disk.exact_listing_axioms by blast

text \<open>
  C13: what a put to the local store does to the file system, wherever it is cut off or fails: every path is as it was,
  or there was nothing before and now there is the complete object at the path of its key, the temporary file of
  this put, or a missing directory above one of them. No file that was there changes its bytes. A put that returns
  leaves no temporary file of its own.
\<close>

theorem interrupted_put_atomic:
  assumes "local_inv root s" and "usable_key k" and "local_put root pid k b s = (r, s')"
  shows "let temp = path_join (temp_dir root) [Normal (temp_name pid k (lc_next_temp s))] in
    (\<forall>p. node_at (lc_os s') p = node_at (lc_os s) p \<or>
       node_at (lc_os s) p = None \<and>
         (p = object_path root k \<and> file_at (lc_os s') p = Some b \<or> p = temp \<or>
          node_at (lc_os s') p = Some DirNode \<and> (strict_prefix p (object_path root k) \<or> prefix p (temp_dir root)))) \<and>
    (\<forall>p bytes. file_at (lc_os s) p = Some bytes \<longrightarrow> file_at (lc_os s') p = Some bytes) \<and>
    (\<forall>st. r = Ok st \<longrightarrow> file_at (lc_os s') (object_path root k) = Some b \<and> node_at (lc_os s') temp = None)"
proof -
  let ?t = "temp_dir root @ [Normal (temp_name pid k (lc_next_temp s))]" and ?p = "object_path root k"
  note touched = put_touched [OF assms(3,1,2) refl]
  have T: "put_touches root k ?t (lc_os s) (lc_os s')" and put: "put_done root k b (lc_os s) r (lc_os s')"
    using touched put_spec [OF assms(3,1,2)] by simp_all
  have wf: "os_wf (lc_os s)" using assms(1) by (simp add: local_inv_def root_clear_def)
  have obj: "stored_files root o' k = file_at o' ?p" for o'
    using assms(2) by (simp add: stored_files_def usable_key_def)
  have complete: "file_at (lc_os s') ?p = Some b" if "node_at (lc_os s) ?p = None" "node_at (lc_os s') ?p = Some (FileNode i)" for i
    using put that obj unfolding put_done_def by (auto simp: file_at_def fun_upd_def dest: fun_cong [where x = k] split: if_splits)
  have kept: "file_at (lc_os s') p = Some bytes" if old: "file_at (lc_os s) p = Some bytes" for p bytes
  proof -
    obtain i where i: "node_at (lc_os s) p = Some (FileNode i)" "bytes = os_data (lc_os s) i"
      using old by (auto simp: file_at_Some)
    then have "i < os_next (lc_os s)" using wf by (auto simp: os_wf_def)
    then show ?thesis using i T put_touches_at [OF T, of p] by (auto simp: put_touches_def file_at_Some)
  qed
  have "r = Ok st \<Longrightarrow> file_at (lc_os s') ?p = Some b" for st using put obj by (auto simp: put_done_def)
  moreover have "node_at (lc_os s') p = node_at (lc_os s) p \<or> node_at (lc_os s) p = None \<and>
       (p = ?p \<and> file_at (lc_os s') p = Some b \<or> p = ?t \<or>
        node_at (lc_os s') p = Some DirNode \<and> (strict_prefix p ?p \<or> prefix p (temp_dir root)))" for p
    using put_touches_at [OF T, of p] complete by blast
  ultimately show ?thesis
    using kept touched unfolding Let_def path_join_segment by blast
qed

text \<open>A disk with the empty directory \<open>/r\<close> whose call number 7, the removal of the temporary file, fails.\<close>

definition sample_disk :: local_state where
  "sample_disk =
     \<lparr>lc_os = \<lparr>os_tree = bt_insert [RootDir, Normal ''r''] DirNode (bt_insert [RootDir] DirNode []), os_data = (\<lambda>_. []), os_next = 0,
        os_times = (\<lambda>_. None), os_fault = (\<lambda>n. if n = 7 then Some (''I/O error'', 0) else None), os_calls = 0\<rparr>,
      lc_next_temp = 0\<rparr>"

lemma sample_disk_inv: "local_inv [RootDir, Normal ''r''] sample_disk"
proof -
  have at: "node_at (lc_os sample_disk) p = (if p = [RootDir] \<or> p = [RootDir, Normal ''r''] then Some DirNode else None)" for p
    by (simp add: node_at_def sample_disk_def del: bt_insert.simps)
  have "bt_wf (os_tree (lc_os sample_disk))" by (simp add: sample_disk_def del: bt_insert.simps)
  moreover have "canonical [RootDir, Normal ''r'']" by (simp add: canonical_def named_def segment_wf_def)
  ultimately show ?thesis
    by (auto simp: local_inv_def root_clear_def os_wf_def tree_wf_def at canonical_def named_def segment_wf_def split: if_splits)
qed

lemma sample_put_fails:
  "fst (local_put [RootDir, Normal ''r''] 1 (ObjectKey ''x'') [1, 2] sample_disk) =
     Err (StorageIo ''remove temporary object'' (IoError OtherKind ''I/O error''))"
  by code_simp

lemma sample_put_stored:
  "os_data (lc_os (snd (local_put [RootDir, Normal ''r''] 1 (ObjectKey ''x'') [1, 2] sample_disk))) 0 = [1, 2] \<and>
   node_at (lc_os (snd (local_put [RootDir, Normal ''r''] 1 (ObjectKey ''x'') [1, 2] sample_disk)))
     [RootDir, Normal ''r'', Normal ''x''] = Some (FileNode 0)"
  by code_simp

theorem interrupted_put_atomic_witness:
  "fst (local_put [RootDir, Normal ''r''] 1 (ObjectKey ''x'') [1, 2] sample_disk) =
     Err (StorageIo ''remove temporary object'' (IoError OtherKind ''I/O error'')) \<and>
   file_at (lc_os (snd (local_put [RootDir, Normal ''r''] 1 (ObjectKey ''x'') [1, 2] sample_disk)))
     [RootDir, Normal ''r'', Normal ''x''] = Some [1, 2]"
proof -
  let ?r = "[RootDir, Normal ''r'']" and ?s = "snd (local_put [RootDir, Normal ''r''] 1 (ObjectKey ''x'') [1, 2] sample_disk)"
  have k: "usable_key (ObjectKey ''x'')" by code_simp
  have path: "object_path ?r (ObjectKey ''x'') = [RootDir, Normal ''r'', Normal ''x'']" by code_simp
  have none: "node_at (lc_os sample_disk) [RootDir, Normal ''r'', Normal ''x''] = None" by code_simp
  have "local_put ?r 1 (ObjectKey ''x'') [1, 2] sample_disk =
      (fst (local_put ?r 1 (ObjectKey ''x'') [1, 2] sample_disk), ?s)" by simp
  note put = interrupted_put_atomic [OF sample_disk_inv k this, unfolded Let_def, THEN conjunct1, THEN spec,
      of "[RootDir, Normal ''r'', Normal ''x'']"]
  have "\<not> node_at (lc_os ?s) [RootDir, Normal ''r'', Normal ''x''] = Some DirNode"
    "path_join (temp_dir ?r) [Normal (temp_name 1 (ObjectKey ''x'') (lc_next_temp sample_disk))] \<noteq>
      [RootDir, Normal ''r'', Normal ''x'']"
    using sample_put_stored by (simp_all add: path_join_segment temp_dir_eq)
  then show ?thesis using put sample_put_fails sample_put_stored none unfolding path by auto
qed

end
