(* ===== verification/Ferry_Restored.thy ===== *)
theory Ferry_Restored
  imports Ferry_Restore Ferry_LocalStore
begin

text \<open>
  What a restore does to the file system. A dry run changes nothing; a restore that is interrupted
  anywhere has only added below the destination; a successful one has put every selected entry in place,
  and the times that were applied are the times of the snapshot.
\<close>

section \<open>Programs that only look\<close>

definition observes :: "(os, 'e, 'a) prog \<Rightarrow> bool" where
  "observes m \<longleftrightarrow> (\<forall>s0. keeps (same_files s0) m)"

lemma observesD: "observes m \<Longrightarrow> m s = (r, s') \<Longrightarrow> same_files s s'"
  unfolding observes_def by (metis keepsD same_files_refl)

lemma observesI: "(\<And>s r s'. m s = (r, s') \<Longrightarrow> same_files s s') \<Longrightarrow> observes m"
  unfolding observes_def keeps_def by (metis same_files_trans surjective_pairing)

lemma observes_seq:
  "observes m \<Longrightarrow> (\<And>x. observes (f x)) \<Longrightarrow> observes (andThen m f)"
  "observes (ret x)" "observes (lift_result q)"
  "observes m \<Longrightarrow> observes (map_error g m)"
  "(\<And>acc x. observes (h acc x)) \<Longrightarrow> observes (for_each xs h acc)"
  by (simp_all add: observes_def keeps_andThen keeps_ret keeps_lift keeps_map_error keeps_for_each)

lemma observes_outcome: "observes m \<Longrightarrow> observes (outcome_of m)"
  by (rule observesI) (auto dest: observesD elim!: outcome_cases)

lemma observes_lstat: "observes (os_lstat p)"
  by (rule observesI) (auto simp: os_lstat_def elim!: syscall_cases)

lemma observes_Pair: "observes (Pair r)"
  by (rule observesI) simp

lemmas observes_intros = observes_seq observes_outcome observes_lstat observes_Pair

lemma observes_check: "observes (check_ancestor_links root p cursor cs)"
proof (induction cs arbitrary: cursor)
  case (Cons c cs)
  then show ?case
    by (auto simp: Let_def intro!: observes_intros split: sum.split)
qed (simp add: observes_seq)

lemma observes_safe:
  "observes (ensure_restore_destination_safe root p overwrite)"
  "observes (ensure_restore_directory_destination_safe root p)"
  "observes (ensure_restore_symlink_destination_safe root p)"
  unfolding ensure_restore_destination_safe_def ensure_restore_directory_destination_safe_def
    ensure_restore_symlink_destination_safe_def ensure_no_symlink_ancestor_def
  by (intro observes_intros observes_check)+

lemma observes_prepare:
  "observes (for_each ds (prepare_directory request) ps)"
  "observes (for_each fs (prepare_file request) ps')"
  "observes (for_each ls (prepare_symlink request) ps'')"
  unfolding prepare_directory_def prepare_file_def prepare_symlink_def
  by (intro observes_intros observes_safe)+

lemma observes_dry_run:
  assumes "dr_dry_run request"
  shows "observes (place_contents request contents)"
  unfolding place_contents_def write_directory_def write_file_def write_symlink_def case_prod_beta
  using assms by (auto intro!: observes_intros observes_prepare)

section \<open>What may have changed\<close>

text \<open>
  Nodes stay; new nodes are below the root or directories above it, with new inodes; a new node that is no
  directory is listed in \<open>K\<close>; the data of the old inodes is the same but for \<open>T\<close>.
\<close>

definition changed :: "path \<Rightarrow> nat set \<Rightarrow> (path \<times> file_type) set \<Rightarrow> os \<Rightarrow> os \<Rightarrow> bool" where
  "changed root T K s s' \<longleftrightarrow> os_wf s' \<and> os_next s \<le> os_next s' \<and>
     (\<forall>p nd. node_at s p = Some nd \<longrightarrow> node_at s' p = Some nd) \<and>
     (\<forall>p nd. node_at s' p = Some nd \<longrightarrow> node_at s p = Some nd \<or>
        node_at s p = None \<and> (prefix root p \<or> prefix p root \<and> nd = DirNode) \<and>
        (\<forall>i. nd = FileNode i \<longrightarrow> os_next s \<le> i) \<and> (nd \<noteq> DirNode \<longrightarrow> (p, node_type nd) \<in> K)) \<and>
     (\<forall>i < os_next s. i \<notin> T \<longrightarrow> os_data s' i = os_data s i)"

lemma changed_wf: "changed root T K s s' \<Longrightarrow> os_wf s'"
  and changed_next: "changed root T K s s' \<Longrightarrow> os_next s \<le> os_next s'"
  and changed_stays: "changed root T K s s' \<Longrightarrow> node_at s p = Some nd \<Longrightarrow> node_at s' p = Some nd"
  and changed_new: "changed root T K s s' \<Longrightarrow> node_at s' p = Some nd \<Longrightarrow> node_at s p = Some nd \<or>
    node_at s p = None \<and> (prefix root p \<or> prefix p root \<and> nd = DirNode) \<and>
        (\<forall>i. nd = FileNode i \<longrightarrow> os_next s \<le> i) \<and> (nd \<noteq> DirNode \<longrightarrow> (p, node_type nd) \<in> K)"
  and changed_data: "changed root T K s s' \<Longrightarrow> i < os_next s \<Longrightarrow> i \<notin> T \<Longrightarrow> os_data s' i = os_data s i"
  unfolding changed_def by blast+

lemma changed_same: "os_wf s \<Longrightarrow> same_files s s' \<Longrightarrow> changed root T K s s'"
  by (simp add: changed_def files_simps)

lemma changed_trans:
  assumes ab: "changed root T K a b" and bc: "changed root T' K b c"
    and T': "\<And>i. i \<in> T' \<Longrightarrow> i < os_next a \<Longrightarrow> i \<in> T"
  shows "changed root T K a c"
proof -
  have "node_at a p = Some nd \<or>
    node_at a p = None \<and> (prefix root p \<or> prefix p root \<and> nd = DirNode) \<and>
        (\<forall>i. nd = FileNode i \<longrightarrow> os_next a \<le> i) \<and> (nd \<noteq> DirNode \<longrightarrow> (p, node_type nd) \<in> K)"
    if nd: "node_at c p = Some nd" for p nd
  proof (cases "node_at b p = Some nd")
    case True
    then show ?thesis by (rule changed_new [OF ab])
  next
    case False
    then have b: "node_at b p = None" and new: "prefix root p \<or> prefix p root \<and> nd = DirNode"
        "\<And>i. nd = FileNode i \<Longrightarrow> os_next b \<le> i" "nd \<noteq> DirNode \<Longrightarrow> (p, node_type nd) \<in> K"
      using changed_new [OF bc nd] by blast+
    have "node_at a p = None" using changed_stays [OF ab] b by (cases "node_at a p") auto
    then show ?thesis using new changed_next [OF ab] by (auto dest: order_trans)
  qed
  moreover have "node_at c p = Some nd" if "node_at a p = Some nd" for p nd
    using that changed_stays [OF ab] changed_stays [OF bc] by blast
  moreover have "os_data c i = os_data a i" if "i < os_next a" "i \<notin> T" for i
    using changed_data [OF ab that] changed_data [OF bc, of i] T' that changed_next [OF ab] by auto
  ultimately show ?thesis
    unfolding changed_def using changed_wf [OF bc] changed_next [OF ab] changed_next [OF bc] by auto
qed

lemma changed_weaken:
  assumes "changed root T K s s'" and "T \<subseteq> T'" and "K \<subseteq> K'"
  shows "changed root T' K' s s'"
proof -
  have "node_at s p = Some nd \<or>
    node_at s p = None \<and> (prefix root p \<or> prefix p root \<and> nd = DirNode) \<and>
        (\<forall>i. nd = FileNode i \<longrightarrow> os_next s \<le> i) \<and> (nd \<noteq> DirNode \<longrightarrow> (p, node_type nd) \<in> K')"
    if "node_at s' p = Some nd" for p nd
    using changed_new [OF assms(1) that] assms(3) by blast
  moreover have "os_data s' i = os_data s i" if "i < os_next s" "i \<notin> T'" for i
    using changed_data [OF assms(1) that(1)] that(2) assms(2) by blast
  ultimately show ?thesis
    using changed_wf [OF assms(1)] changed_next [OF assms(1)] changed_stays [OF assms(1)] unfolding changed_def by blast
qed

lemma changed_dirs:
  assumes wf: "os_wf s" and added: "dirs_added s s' p" and p: "prefix root p \<or> prefix p root"
  shows "changed root T K s s'"
proof -
  have "prefix root q \<or> prefix q root" if "prefix q p" for q
    using that p prefix_same_cases prefix_order.trans by metis
  then show ?thesis using added dirs_addedD [OF added]
    unfolding changed_def dirs_added_def by (metis fs_node.distinct(1,3) option.distinct(1) option.inject order_refl)
qed

lemma changed_put:
  assumes wf: "os_wf s" and p: "canonical p" "node_at s p = None" "node_at s (butlast p) = Some DirNode" "prefix root p"
    and same: "same_files (put_node p nd s) s'" and nd: "\<And>i. nd \<noteq> FileNode i"
    and K: "nd \<noteq> DirNode \<Longrightarrow> (p, node_type nd) \<in> K"
  shows "changed root T K s s'"
proof -
  have "os_wf (put_node p nd s)" by (rule os_wf_put [OF wf p(2,3,1)]) (simp add: nd)
  then show ?thesis using p(2,4) nd K by (auto simp: changed_def same_filesD [OF same])
qed

lemma changed_file:
  assumes wf: "os_wf s" and p: "canonical p" "node_at s p = None" "node_at s (butlast p) = Some DirNode" "prefix root p"
    and same: "same_files (new_file p s) s'" and K: "(p, IsFile) \<in> K"
  shows "changed root T K s s'"
  using os_wf_new_file [OF wf p(2,3,1)] p(2,4) K by (auto simp: changed_def node_type_def same_filesD [OF same])

lemma changed_links:
  assumes "changed root T K s s'" and "link_free (node_at s) p" and "\<And>q. (q, IsSymlink) \<in> K \<Longrightarrow> \<not> prefix q p"
  shows "link_free (node_at s') p"
  unfolding link_free_def
proof (intro allI impI notI)
  fix a x assume a: "prefix a p" "node_at s' a = Some (LinkNode x)"
  then have "node_at s a \<noteq> Some (LinkNode x)" using assms(2) by (simp add: link_free_def)
  then show False using changed_new [OF assms(1) a(2)] assms(3) a(1) by (auto simp: node_type_def)
qed

section \<open>Writing one entry\<close>

lemma comparable_prefix: "prefix root p \<Longrightarrow> prefix q p \<Longrightarrow> prefix root q \<or> prefix q root"
  using prefix_same_cases by blast

lemma parent_canonical: "canonical p \<Longrightarrow> path_parent p = Some q \<Longrightarrow> q = butlast p \<and> canonical q"
  by (cases p rule: canonical_root_or_snoc) (auto simp: path_parent_def)

lemma create_parent_changed:
  assumes run: "create_parent p s = (r, s')" and wf: "os_wf s"
    and p: "canonical p" "link_free (node_at s) (butlast p)" "prefix root p"
  shows "changed root T K s s'"
proof (cases "path_parent p")
  case None
  then show ?thesis using run changed_same [OF wf, of s] by (simp add: create_parent_def)
next
  case (Some q)
  note q = parent_canonical [OF p(1) Some]
  obtain x where x: "os_create_dir_all q s = (x, s')"
    using run by (auto simp: create_parent_def Some elim!: map_error_cases)
  have "link_free (node_at s) q" using p(2) q by simp
  then have "dirs_added s s' q" using os_create_dir_all_spec [OF x wf conjunct2 [OF q]] by blast
  moreover have "prefix root q \<or> prefix q root" by (rule comparable_prefix [OF p(3)]) (simp add: q prefixeq_butlast)
  ultimately show ?thesis by (rule changed_dirs [OF wf])
qed

lemma create_directory_changed:
  assumes run: "create_restored_directory p s = (r, s')" and wf: "os_wf s"
    and p: "canonical p" "link_free (node_at s) p" "prefix root p"
  shows "changed root T K s s' \<and> (r = Ok () \<longrightarrow> node_at s' p = Some DirNode)"
proof -
  obtain x where x: "os_create_dir_all p s = (x, s')" "r = map_err (RestoreDestinationWrite p) x"
    using run by (auto simp: create_restored_directory_def elim!: map_error_cases)
  note spec = os_create_dir_all_spec [OF x(1) wf p(1,2)]
  have "changed root T K s s'" by (rule changed_dirs [OF wf]) (use spec p(3) in auto)
  then show ?thesis using spec x(2) by (cases x) simp_all
qed

lemma write_all_changed:
  assumes "os_write_all i bs s = (r, s')" and "os_wf s"
  shows "changed root {i} K s s' \<and> (r = Ok () \<longrightarrow> os_data s' i = bs)"
  using os_write_all_spec [OF assms(1)] assms(2) by (auto simp: changed_def)

definition overwritten :: "restore_overwrite_policy \<Rightarrow> os \<Rightarrow> path \<Rightarrow> nat set" where
  "overwritten overwrite s p = (case overwrite of OverwriteFiles \<Rightarrow> {i. node_at s p = Some (FileNode i)} | FailIfExists \<Rightarrow> {})"

lemma open_changed:
  assumes run: "(case overwrite of FailIfExists \<Rightarrow> os_create_new p | OverwriteFiles \<Rightarrow> os_create_truncate p) s = (r, s')"
    and wf: "os_wf s" and p: "canonical p" "link_free (node_at s) p" "prefix root p" and K: "(p, IsFile) \<in> K"
  shows "changed root (overwritten overwrite s p) K s s' \<and>
    (\<forall>h. r = Ok h \<longrightarrow> node_at s' p = Some (FileNode h) \<and> (h \<in> overwritten overwrite s p \<or> os_next s \<le> h))"
proof -
  have par: "link_free (node_at s) (butlast p)" by (rule link_free_prefix [OF p(2)]) (rule prefixeq_butlast)
  consider (err) e where "r = Err e" "same_files s s'"
    | (new) "r = Ok (os_next s)" "node_at s p = None" "node_at s (butlast p) = Some DirNode" "same_files (new_file p s) s'"
    | (old) i where "r = Ok i" "overwrite = OverwriteFiles" "node_at s p = Some (FileNode i)"
        "same_files (s\<lparr>os_data := (os_data s)(i := []), os_times := (os_times s)(p := None)\<rparr>) s'"
  proof (cases overwrite)
    case FailIfExists
    then have "os_create_new p s = (r, s')" using run by simp
    from os_create_new_spec [OF this wf p(1) par] show ?thesis
      by (elim disjE conjE exE) (rule err, assumption+, rule new, assumption+)
  next
    case OverwriteFiles
    then have "os_create_truncate p s = (r, s')" using run by simp
    from os_create_truncate_spec [OF this wf p(1,2)] show ?thesis
      by (elim disjE conjE exE) (rule err, assumption+, rule new, assumption+, rule old [OF _ OverwriteFiles], assumption+)
  qed
  then show ?thesis
  proof cases
    case err
    then show ?thesis using changed_same [OF wf] by simp
  next
    case new
    then show ?thesis using changed_file [OF wf p(1) new(2,3) p(3) new(4) K] by (simp add: same_filesD [OF new(4)])
  next
    case old
    then show ?thesis using wf by (simp add: changed_def overwritten_def same_filesD [OF old(4)])
  qed
qed

lemma verify_same: "verify_restored_file p contents s = (r, s') \<Longrightarrow> same_files s s'"
proof -
  have "observes (os_read p)" by (rule observesI) (auto simp: os_read_def elim!: syscall_cases)
  then have "observes (verify_restored_file p contents)"
    unfolding verify_restored_file_def by (intro observes_intros)
  then show "verify_restored_file p contents s = (r, s') \<Longrightarrow> same_files s s'" by (rule observesD)
qed

lemma write_file_changed:
  assumes run: "write_restored_file p contents overwrite verify s = (r, s')" and wf: "os_wf s"
    and p: "canonical p" "link_free (node_at s) p" "prefix root p"
  shows "changed root (overwritten overwrite s p) {(p, IsFile)} s s' \<and>
    (r = Ok () \<longrightarrow> (\<exists>h. node_at s' p = Some (FileNode h) \<and> os_data s' h = contents))"
proof -
  let ?T = "overwritten overwrite s p"
  have par: "link_free (node_at s) (butlast p)" by (rule link_free_prefix [OF p(2)]) (rule prefixeq_butlast)
  show ?thesis
    using run unfolding write_restored_file_def
  proof (cases rule: andThen_cases)
    case (fail e)
    then show ?thesis using create_parent_changed [OF fail(1) wf p(1) par p(3)] by simp
  next
    case (step u s1)
    have c1: "changed root ?T {(p, IsFile)} s s1" by (rule create_parent_changed [OF step(1) wf p(1) par p(3)])
    note wf1 = changed_wf [OF c1]
    have p1: "link_free (node_at s1) p" by (rule changed_links [OF c1 p(2)]) simp
    have T1: "i \<in> ?T" if "i \<in> overwritten overwrite s1 p" "i < os_next s" for i
      using that changed_new [OF c1, of p "FileNode i"] by (cases overwrite) (auto simp: overwritten_def)
    from step(2) show ?thesis
    proof (cases rule: andThen_cases)
      case (fail e)
      then obtain x where "(case overwrite of FailIfExists \<Rightarrow> os_create_new p | OverwriteFiles \<Rightarrow> os_create_truncate p) s1 = (x, s')"
        by (auto elim: map_error_cases)
      from open_changed [OF this wf1 p(1) p1 p(3), of "{(p, IsFile)}"] show ?thesis using fail changed_trans [OF c1 _ T1] by blast
    next
      case opened: (step h s2)
      then have "(case overwrite of FailIfExists \<Rightarrow> os_create_new p | OverwriteFiles \<Rightarrow> os_create_truncate p) s1 = (Ok h, s2)"
        by (simp add: map_error_Ok_iff)
      from open_changed [OF this wf1 p(1) p1 p(3), of "{(p, IsFile)}"] have o: "changed root (overwritten overwrite s1 p) {(p, IsFile)} s1 s2"
        "node_at s2 p = Some (FileNode h)" "h \<in> overwritten overwrite s1 p \<or> os_next s1 \<le> h" by auto
      have c2: "changed root ?T {(p, IsFile)} s s2" by (rule changed_trans [OF c1 o(1) T1])
      have hT: "i \<in> ?T" if "i \<in> {h}" "i < os_next s" for i
        using that o(3) T1 changed_next [OF c1] by auto
      obtain x s3 where w: "os_write_all h contents s2 = (x, s3)" by fastforce
      note ws = write_all_changed [OF w changed_wf [OF c2], of root "{(p, IsFile)}"]
      have c3: "changed root ?T {(p, IsFile)} s s3" by (rule changed_trans [OF c2 conjunct1 [OF ws] hT])
      have end_same: "same_files s3 s'" if "x = Ok ()"
      proof -
        have obs: "observes (andThen (map_error (RestoreDestinationWrite p) (os_sync_all h))
            (\<lambda>_. if verify then verify_restored_file p contents else ret ()))"
          by (intro observes_intros observesI) (auto dest: os_sync_all_spec verify_same simp: observes_intros split: if_splits)
        have wr: "map_error (RestoreDestinationWrite p) (os_write_all h contents) s2 = (Ok (), s3)"
          by (simp add: map_error_Ok_iff w that)
        show ?thesis using opened(2)
          unfolding andThen_stepI [where m = "map_error (RestoreDestinationWrite p) (os_write_all h contents)" and w = s2, OF wr]
          by (rule observesD [OF obs])
      qed
      show ?thesis
      proof (cases x)
        case (Inl e)
        then have "s' = s3" "r \<noteq> Ok ()" using opened(2) w by (auto simp: andThen_def map_error_def)
        then show ?thesis using c3 by simp
      next
        case (Inr u)
        then have same: "same_files s3 s'" using end_same by simp
        have "changed root ?T {(p, IsFile)} s s'" by (rule changed_trans [OF c3 changed_same [OF changed_wf [OF c3] same, where T = "{}"]]) simp
        moreover have "node_at s' p = Some (FileNode h)" "os_data s' h = contents"
          using changed_stays [OF conjunct1 [OF ws] o(2)] ws Inr by (simp_all add: same_filesD [OF same])
        ultimately show ?thesis by blast
      qed
    qed
  qed
qed

lemma create_symlink_changed:
  assumes run: "create_restored_symlink target p s = (r, s')" and wf: "os_wf s"
    and p: "canonical p" "link_free (node_at s) (butlast p)" "prefix root p"
  shows "changed root T {(p, IsSymlink)} s s' \<and> (r = Ok () \<longrightarrow> node_at s' p = Some (LinkNode target))"
  using run unfolding create_restored_symlink_def
proof (cases rule: andThen_cases)
  case (fail e)
  then show ?thesis using create_parent_changed [OF fail(1) wf p] by simp
next
  case (step u s1)
  have c1: "changed root T {} s s1" by (rule create_parent_changed [OF step(1) wf p])
  have p1: "link_free (node_at s1) (butlast p)" by (rule changed_links [OF c1 p(2)]) simp
  obtain x where x: "os_symlink target p s1 = (x, s')" "r = map_err (RestoreDestinationWrite p) x"
    using step(2) by (auto elim: map_error_cases)
  have c1': "changed root T {(p, IsSymlink)} s s1" by (rule changed_weaken [OF c1]) simp_all
  from os_symlink_spec [OF x(1) changed_wf [OF c1] p(1) p1] show ?thesis
  proof (elim disjE conjE exE)
    fix e assume "x = Err e" "same_files s1 s'"
    then show ?thesis
      using changed_trans [OF c1' changed_same [OF changed_wf [OF c1], where T = "{}"]] x(2) by simp
  next
    assume new: "x = Ok ()" "node_at s1 p = None" "node_at s1 (butlast p) = Some DirNode"
      "same_files (put_node p (LinkNode target) s1) s'"
    have "changed root {} {(p, IsSymlink)} s1 s'"
      by (rule changed_put [OF changed_wf [OF c1] p(1) new(2,3) p(3) new(4)]) (simp_all add: node_type_def)
    from changed_trans [OF c1' this] show ?thesis by (simp add: same_filesD [OF new(4)])
  qed
qed

section \<open>What the checks establish\<close>

lemma link_free_snoc: "link_free t (p @ [c]) \<longleftrightarrow> link_free t p \<and> (\<forall>x. t (p @ [c]) \<noteq> Some (LinkNode x))"
  by (auto simp: link_free_def)

lemma link_free_missing:
  assumes wf: "tree_wf t" and p: "link_free t p" "t (p @ [c]) = None" "p \<noteq> [] \<or> c = RootDir"
  shows "link_free t (p @ c # cs)"
  unfolding link_free_def
proof (intro allI impI notI)
  fix a x assume a: "prefix a (p @ c # cs)" "t a = Some (LinkNode x)"
  have "\<not> prefix a p" using p(1) a(2) by (auto simp: link_free_def)
  then have "prefix (p @ [c]) a" using a(1) by (auto simp: prefix_append prefix_Cons)
  then obtain zs where zs: "a = (p @ [c]) @ zs" by (auto simp: prefix_def)
  then have "zs \<noteq> []" using p(2) a(2) by auto
  then show False using tree_wf_ancestor [OF wf, of "p @ [c]" zs] zs a(2) p(2) by simp
qed

lemma check_links_clear:
  assumes run: "check_ancestor_links root p cursor cs s = (Ok u, s')" and wf: "os_wf s"
    and can: "canonical (cursor @ cs)" and root: "prefix (cursor @ cs) p" "prefix root p"
    and above: "link_free (node_at s) (butlast root)" and free: "link_free (node_at s) cursor"
  shows "link_free (node_at s) (cursor @ cs)"
  using run wf can root above free
proof (induction cs arbitrary: cursor s)
  case (Cons c cs)
  note wf = Cons.prems(2)
  have tree: "tree_wf (node_at s)" using wf by (simp add: os_wf_def)
  have c: "cursor = [] \<and> c = RootDir \<or> cursor \<noteq> [] \<and> named c"
    using Cons.prems(3) by (cases cursor) (auto simp: canonical_def)
  then have join: "path_join cursor [c] = cursor @ [c]" by (auto simp: path_join_def named_iff is_absolute_def)
  have can: "canonical (cursor @ [c])" using Cons.prems(3) by (cases cursor) (auto simp: canonical_def)
  have step: "link_free (node_at s) (cursor @ c # cs)"
    if "check_ancestor_links root p (cursor @ [c]) cs t = (Ok u, s')" "same_files s t"
      "\<And>x. node_at s (cursor @ [c]) \<noteq> Some (LinkNode x)" for t
  proof -
    have "link_free (node_at t) ((cursor @ [c]) @ cs)"
      by (rule Cons.IH [OF that(1)])
        (use Cons.prems that(3) in \<open>simp_all add: same_filesD [OF that(2)] link_free_snoc\<close>)
    then show ?thesis by (simp add: same_filesD [OF that(2)])
  qed
  show ?case
  proof (cases "prefix root (cursor @ [c])")
    case False
    have "prefix (cursor @ [c]) p"
      by (rule prefix_order.trans [OF _ Cons.prems(4)]) (simp add: prefix_def)
    then have "prefix (cursor @ [c]) root"
      using comparable_prefix [OF Cons.prems(5)] False by blast
    then have "prefix (cursor @ [c]) (butlast root)"
      using False by (cases root rule: rev_cases) auto
    then have "node_at s (cursor @ [c]) \<noteq> Some (LinkNode x)" for x
      using Cons.prems(6) by (auto simp: link_free_def)
    moreover have "check_ancestor_links root p (cursor @ [c]) cs s = (Ok u, s')"
      using Cons.prems(1) False by (simp add: join path_starts_with_def)
    ultimately show ?thesis using step [of s] by simp
  next
    case True
    obtain x t where x: "os_lstat (cursor @ [c]) s = (x, t)" by fastforce
    note spec = os_lstat_spec [OF x wf can]
    have spec: "same_files s t \<and> (\<forall>ty. x = Ok ty \<longrightarrow> map_option node_type (node_at s (cursor @ [c])) = Some ty) \<and>
      (\<forall>e. x = Err e \<longrightarrow> io_kind e = NotFound \<longrightarrow> node_at s (cursor @ [c]) = None)"
      by (rule spec) (use Cons.prems(7) in simp)
    have run: "(case x of
          Ok ty \<Rightarrow>
            if ty = IsSymlink then lift_result (Err (RestoreDestinationSymlink p (cursor @ [c])))
            else if ty = IsDir then check_ancestor_links root p (cursor @ [c]) cs
            else lift_result (Err (RestoreDestinationKind (cursor @ [c])))
        | Err source \<Rightarrow>
            if io_kind source = NotFound then ret ()
            else lift_result (Err (RestoreDestinationWrite (cursor @ [c]) source))) t = (Ok u, s')"
      using Cons.prems(1) True x by (simp add: Let_def join path_starts_with_def andThen_def outcome_of_def del: prefix_snoc)
    show ?thesis
    proof (cases x)
      case (Inl e)
      then have "node_at s (cursor @ [c]) = None" using run spec by (auto split: if_splits)
      then show ?thesis using link_free_missing [OF tree Cons.prems(7)] c by blast
    next
      case (Inr ty)
      then have ty: "ty = IsDir" "check_ancestor_links root p (cursor @ [c]) cs t = (Ok u, s')"
        using run by (auto split: if_splits)
      obtain nd where nd: "node_at s (cursor @ [c]) = Some nd" "node_type nd = ty" using spec Inr by auto
      then have "node_at s (cursor @ [c]) \<noteq> Some (LinkNode x)" for x using ty(1) by (auto simp: node_type_def)
      then show ?thesis using step [OF ty(2)] spec by simp
    qed
  qed
qed simp

lemma parent_checked:
  assumes run: "ensure_no_symlink_ancestor root p s = (Ok u, s')" and wf: "os_wf s"
    and p: "canonical p" "prefix root p" and above: "link_free (node_at s) (butlast root)"
  shows "same_files s s' \<and> link_free (node_at s) (butlast p)"
proof -
  obtain q where q: "path_parent p = Some q" "check_ancestor_links root p [] q s = (Ok u, s')"
    using run by (auto simp: ensure_no_symlink_ancestor_def andThen_Ok_iff ok_or_Ok_iff)
  note pc = parent_canonical [OF p(1) q(1)]
  have tree: "tree_wf (node_at s)" using wf by (simp add: os_wf_def)
  have "node_at s [] = None" using tree by (auto simp: tree_wf_def canonical_def)
  then have "link_free (node_at s) []" by (simp add: link_free_def)
  then have "link_free (node_at s) ([] @ q)"
    by (intro check_links_clear [OF q(2) wf _ _ p(2) above])
      (simp_all add: conjunct2 [OF pc] prefixeq_butlast [of p, folded conjunct1 [OF pc]])
  then show ?thesis using parent_canonical [OF p(1) q(1)] observesD [OF observes_check q(2)] by simp
qed

text \<open>The three checks: what is at the destination, and that no link leads to it.\<close>

lemma lstat_checked:
  assumes run: "andThen (ensure_no_symlink_ancestor root p) (\<lambda>_. andThen (outcome_of (os_lstat p)) (\<lambda>r. lift_result (f r))) s
      = (Ok u, s')" and wf: "os_wf s"
    and p: "canonical p" "prefix root p" and above: "link_free (node_at s) (butlast root)"
    and missing: "\<And>e. f (Err e) = Ok u \<Longrightarrow> io_kind e = NotFound"
  shows "same_files s s' \<and> link_free (node_at s) (butlast p) \<and>
    (node_at s p = None \<or> (\<exists>nd. node_at s p = Some nd \<and> f (Ok (node_type nd)) = Ok u))"
proof -
  obtain s1 x where par: "ensure_no_symlink_ancestor root p s = (Ok (), s1)" and x: "os_lstat p s1 = (x, s')" "f x = Ok u"
    using run by (auto simp: andThen_Ok_iff lift_result_def elim: outcome_cases)
  note parent = parent_checked [OF par wf p above]
  then have same: "same_files s s1" by simp
  have "same_files s1 s' \<and> (\<forall>ty. x = Ok ty \<longrightarrow> map_option node_type (node_at s1 p) = Some ty) \<and>
    (\<forall>e. x = Err e \<longrightarrow> io_kind e = NotFound \<longrightarrow> node_at s1 p = None)"
    by (rule os_lstat_spec [OF x(1)]) (use wf p parent in \<open>simp_all add: same_filesD [OF same]\<close>)
  then show ?thesis using parent same_files_trans [OF same] x(2) missing
    by (cases x) (auto simp: same_filesD [OF same])
qed

lemma snoc_link_free: "canonical p \<Longrightarrow> link_free t p \<longleftrightarrow> link_free t (butlast p) \<and> (\<forall>x. t p \<noteq> Some (LinkNode x))"
  using link_free_snoc [of t "butlast p" "last p"] by (cases p rule: rev_cases) (auto simp: canonical_def)

lemma found_missing:
  "(if io_kind e = NotFound then Ok () else Err (RestoreDestinationWrite p e)) = Ok u \<Longrightarrow> io_kind e = NotFound"
  by (simp split: if_splits)

lemma file_checked:
  assumes "ensure_restore_destination_safe root p overwrite s = (Ok u, s')" and "os_wf s"
    and "canonical p" "prefix root p" and "link_free (node_at s) (butlast root)"
  shows "same_files s s' \<and> link_free (node_at s) p \<and>
    (node_at s p = None \<or> overwrite = OverwriteFiles \<and> (\<exists>i. node_at s p = Some (FileNode i)))"
proof -
  note c = lstat_checked [OF assms(1) [unfolded ensure_restore_destination_safe_def] assms(2-5), unfolded sum.case, OF found_missing]
  have "same_files s s' \<and> link_free (node_at s) (butlast p) \<and>
    (node_at s p = None \<or> (\<exists>nd. node_at s p = Some nd \<and> (
           if node_type nd = IsSymlink then Err (RestoreDestinationSymlink p p)
           else if node_type nd = IsFile then
             (case overwrite of FailIfExists \<Rightarrow> Err (RestoreDestinationExists p) | OverwriteFiles \<Rightarrow> Ok ())
           else Err (RestoreDestinationKind p)) = Ok u))"
    by (rule c)
  then show ?thesis
  proof (elim conjE disjE exE)
    fix nd assume "same_files s s'" "link_free (node_at s) (butlast p)" "node_at s p = Some nd"
      "(if node_type nd = IsSymlink then Err (RestoreDestinationSymlink p p)
           else if node_type nd = IsFile then
             (case overwrite of FailIfExists \<Rightarrow> Err (RestoreDestinationExists p) | OverwriteFiles \<Rightarrow> Ok ())
           else Err (RestoreDestinationKind p)) = Ok u"
    then show ?thesis using snoc_link_free [OF assms(3)]
      by (cases nd; cases overwrite) (simp_all add: node_type_def)
  qed (simp add: snoc_link_free [OF assms(3)])
qed

lemma directory_checked:
  assumes "ensure_restore_directory_destination_safe root p s = (Ok u, s')" and "os_wf s"
    and "canonical p" "prefix root p" and "link_free (node_at s) (butlast root)"
  shows "same_files s s' \<and> link_free (node_at s) p \<and> (node_at s p = None \<or> node_at s p = Some DirNode)"
proof -
  note c = lstat_checked [OF assms(1) [unfolded ensure_restore_directory_destination_safe_def] assms(2-5), unfolded sum.case, OF found_missing]
  have "same_files s s' \<and> link_free (node_at s) (butlast p) \<and>
    (node_at s p = None \<or> (\<exists>nd. node_at s p = Some nd \<and> (
           if node_type nd = IsSymlink then Err (RestoreDestinationSymlink p p)
           else if node_type nd = IsDir then Ok ()
           else Err (RestoreDestinationKind p)) = Ok u))"
    by (rule c)
  then show ?thesis
  proof (elim conjE disjE exE)
    fix nd assume "same_files s s'" "link_free (node_at s) (butlast p)" "node_at s p = Some nd"
      "(if node_type nd = IsSymlink then Err (RestoreDestinationSymlink p p)
           else if node_type nd = IsDir then Ok () else Err (RestoreDestinationKind p)) = Ok u"
    then show ?thesis using snoc_link_free [OF assms(3)] by (cases nd) (simp_all add: node_type_def)
  qed (simp add: snoc_link_free [OF assms(3)])
qed

lemma symlink_checked:
  assumes "ensure_restore_symlink_destination_safe root p s = (Ok u, s')" and "os_wf s"
    and "canonical p" "prefix root p" and "link_free (node_at s) (butlast root)"
  shows "same_files s s' \<and> link_free (node_at s) (butlast p) \<and> node_at s p = None"
proof -
  note c = lstat_checked [OF assms(1) [unfolded ensure_restore_symlink_destination_safe_def] assms(2-5), unfolded sum.case, OF found_missing]
  have "same_files s s' \<and> link_free (node_at s) (butlast p) \<and>
    (node_at s p = None \<or> (\<exists>nd. node_at s p = Some nd \<and> (
           if node_type nd = IsSymlink then Err (RestoreDestinationSymlink p p)
           else Err (RestoreDestinationExists p)) = Ok u))"
    by (rule c)
  then show ?thesis by (auto split: if_splits)
qed

section \<open>The prepared entries\<close>

lemma for_each_prepared:
  assumes run: "for_each xs f acc s1 = (Ok ps, s2)" and same: "same_files s s1"
    and step: "\<And>acc x t r t'. \<lbrakk>x \<in> set xs; f acc x t = (Ok r, t'); same_files s t\<rbrakk> \<Longrightarrow>
      r = acc @ [(x, g x)] \<and> P x \<and> same_files s t'"
  shows "ps = acc @ map (\<lambda>x. (x, g x)) xs \<and> (\<forall>x \<in> set xs. P x) \<and> same_files s s2"
  using run same step
proof (induction xs arbitrary: acc s1)
  case (Cons x xs)
  obtain r t where x: "f acc x s1 = (Ok r, t)" "for_each xs f r t = (Ok ps, s2)"
    using Cons.prems(1) by (auto simp: andThen_Ok_iff)
  have r: "r = acc @ [(x, g x)] \<and> P x \<and> same_files s t"
    by (rule Cons.prems(3) [OF _ x(1) Cons.prems(2)]) simp
  have "ps = r @ map (\<lambda>x. (x, g x)) xs \<and> (\<forall>x \<in> set xs. P x) \<and> same_files s s2"
  proof (rule Cons.IH [OF x(2)])
    show "same_files s t" using r by blast
    show "r = acc @ [(x, g x)] \<and> P x \<and> same_files s t'"
      if "x \<in> set xs" "f acc x t = (Ok r, t')" "same_files s t" for acc x t r t'
      by (rule Cons.prems(3) [OF _ that(2,3)]) (simp add: that(1))
  qed
  then show ?case using r by simp
qed simp

definition named_path :: "path \<Rightarrow> bool" where
  "named_path p \<longleftrightarrow> (\<forall>c \<in> set p. named c)"

lemma safe_destination_named:
  assumes "named_path rel"
  shows "safe_destination_path d rel = Ok (d @ rel)"
proof -
  have "\<forall>c \<in> set rel. is_normal c" using assms by (auto simp: named_path_def named_iff)
  then show ?thesis by (simp add: safe_destination_path_def normalize_normal path_join_normal Let_def)
qed

text \<open>The destination is an absolute path in normal form, and no link leads to it.\<close>

definition destination_ok :: "os \<Rightarrow> path \<Rightarrow> bool" where
  "destination_ok s d \<longleftrightarrow> os_wf s \<and> canonical d \<and> link_free (node_at s) (butlast d)"

lemma destination_same: "same_files s t \<Longrightarrow> destination_ok t d \<longleftrightarrow> destination_ok s d"
  by (simp add: destination_ok_def same_filesD)

lemma canonical_destination: "canonical d \<Longrightarrow> named_path rel \<Longrightarrow> canonical (d @ rel)"
  unfolding named_path_def by (rule canonical_extend)

abbreviation (input) at_dest :: "restore_destination_request \<Rightarrow> path \<Rightarrow> path" where
  "at_dest request rel \<equiv> dr_destination request @ rel"

lemma prepared_directories:
  assumes run: "for_each ds (prepare_directory request) [] s = (Ok ps, s')"
    and ok: "destination_ok s (dr_destination request)" and names: "\<forall>d \<in> set ds. named_path (rd_relative_path d)"
  shows "ps = map (\<lambda>d. (d, at_dest request (rd_relative_path d))) ds \<and> (\<forall>d \<in> set ds.
      link_free (node_at s) (at_dest request (rd_relative_path d))) \<and> same_files s s'"
proof -
  let ?g = "\<lambda>d. at_dest request (rd_relative_path d)"
  have "ps = [] @ map (\<lambda>d. (d, ?g d)) ds \<and> (\<forall>d \<in> set ds. link_free (node_at s) (?g d)) \<and> same_files s s'"
  proof (rule for_each_prepared [OF run])
    fix acc d t r t' assume d: "d \<in> set ds" and step: "prepare_directory request acc d t = (Ok r, t')" and same: "same_files s t"
    have "safe_destination_path (dr_destination request) (rd_relative_path d) = Ok (?g d)"
      using safe_destination_named names d by blast
    then have e: "ensure_restore_directory_destination_safe (dr_destination request) (?g d) t = (Ok (), t')" "r = acc @ [(d, ?g d)]"
      using step by (auto simp: prepare_directory_def andThen_Ok_iff ret_def)
    have "same_files t t' \<and> link_free (node_at t) (?g d) \<and> (node_at t (?g d) = None \<or> node_at t (?g d) = Some DirNode)"
      by (rule directory_checked [OF e(1)])
        (use ok names d canonical_destination in \<open>auto simp: destination_ok_def same_filesD [OF same]\<close>)
    then show "r = acc @ [(d, ?g d)] \<and> link_free (node_at s) (?g d) \<and> same_files s t'"
      using e(2) same_files_trans [OF same] by (simp add: same_filesD [OF same])
  qed simp
  then show ?thesis by simp
qed

lemma prepared_files:
  assumes run: "for_each fs (prepare_file request) [] s = (Ok ps, s')"
    and ok: "destination_ok s (dr_destination request)" and names: "\<forall>f \<in> set fs. named_path (rf_relative_path f)"
  shows "ps = map (\<lambda>f. (f, at_dest request (rf_relative_path f))) fs \<and> (\<forall>f \<in> set fs.
      link_free (node_at s) (at_dest request (rf_relative_path f)) \<and>
      (dr_overwrite request = FailIfExists \<longrightarrow> node_at s (at_dest request (rf_relative_path f)) = None)) \<and> same_files s s'"
proof -
  let ?g = "\<lambda>f. at_dest request (rf_relative_path f)"
  have "ps = [] @ map (\<lambda>f. (f, ?g f)) fs \<and> (\<forall>f \<in> set fs. link_free (node_at s) (?g f) \<and>
      (dr_overwrite request = FailIfExists \<longrightarrow> node_at s (?g f) = None)) \<and> same_files s s'"
  proof (rule for_each_prepared [OF run])
    fix acc f t r t' assume f: "f \<in> set fs" and step: "prepare_file request acc f t = (Ok r, t')" and same: "same_files s t"
    have "safe_destination_path (dr_destination request) (rf_relative_path f) = Ok (?g f)"
      using safe_destination_named names f by blast
    then have e: "ensure_restore_destination_safe (dr_destination request) (?g f) (dr_overwrite request) t = (Ok (), t')"
      "r = acc @ [(f, ?g f)]"
      using step by (auto simp: prepare_file_def andThen_Ok_iff ret_def)
    have "same_files t t' \<and> link_free (node_at t) (?g f) \<and>
      (node_at t (?g f) = None \<or> dr_overwrite request = OverwriteFiles \<and> (\<exists>i. node_at t (?g f) = Some (FileNode i)))"
      by (rule file_checked [OF e(1)])
        (use ok names f canonical_destination in \<open>auto simp: destination_ok_def same_filesD [OF same]\<close>)
    then show "r = acc @ [(f, ?g f)] \<and> (link_free (node_at s) (?g f) \<and>
        (dr_overwrite request = FailIfExists \<longrightarrow> node_at s (?g f) = None)) \<and> same_files s t'"
      using e(2) same_files_trans [OF same] by (auto simp: same_filesD [OF same])
  qed simp
  then show ?thesis by simp
qed

lemma prepared_symlinks:
  assumes run: "for_each ls (prepare_symlink request) [] s = (Ok ps, s')"
    and ok: "destination_ok s (dr_destination request)" and names: "\<forall>l \<in> set ls. named_path (rs_relative_path l)"
  shows "ps = map (\<lambda>l. (l, at_dest request (rs_relative_path l))) ls \<and> (\<forall>l \<in> set ls.
      link_free (node_at s) (at_dest request (rs_relative_path l))) \<and> same_files s s'"
proof -
  let ?g = "\<lambda>l. at_dest request (rs_relative_path l)"
  have "ps = [] @ map (\<lambda>l. (l, ?g l)) ls \<and> (\<forall>l \<in> set ls. link_free (node_at s) (?g l)) \<and> same_files s s'"
  proof (rule for_each_prepared [OF run])
    fix acc l t r t' assume l: "l \<in> set ls" and step: "prepare_symlink request acc l t = (Ok r, t')" and same: "same_files s t"
    have can: "canonical (?g l)" using ok names l canonical_destination by (auto simp: destination_ok_def)
    have "safe_destination_path (dr_destination request) (rs_relative_path l) = Ok (?g l)"
      using safe_destination_named names l by blast
    then have e: "ensure_restore_symlink_destination_safe (dr_destination request) (?g l) t = (Ok (), t')" "r = acc @ [(l, ?g l)]"
      using step by (auto simp: prepare_symlink_def andThen_Ok_iff ret_def)
    have "same_files t t' \<and> link_free (node_at t) (butlast (?g l)) \<and> node_at t (?g l) = None"
      by (rule symlink_checked [OF e(1)]) (use ok can in \<open>auto simp: destination_ok_def same_filesD [OF same]\<close>)
    then show "r = acc @ [(l, ?g l)] \<and> link_free (node_at s) (?g l) \<and> same_files s t'"
      using e(2) same_files_trans [OF same] snoc_link_free [OF can] by (simp add: same_filesD [OF same])
  qed simp
  then show ?thesis by simp
qed

section \<open>Times\<close>

definition same_nodes :: "os \<Rightarrow> os \<Rightarrow> bool" where
  "same_nodes s s' \<longleftrightarrow> node_at s' = node_at s \<and> os_data s' = os_data s \<and> os_next s' = os_next s \<and> (os_wf s' \<longleftrightarrow> os_wf s)"

lemma same_nodes_files: "same_files s s' \<Longrightarrow> same_nodes s s'"
  by (simp add: same_nodes_def same_filesD)

lemma same_nodes_trans: "same_nodes a b \<Longrightarrow> same_nodes b c \<Longrightarrow> same_nodes a c"
  by (simp add: same_nodes_def)

lemma changed_same_nodes: "os_wf s \<Longrightarrow> same_nodes s s' \<Longrightarrow> changed root T K s s'"
  by (simp add: same_nodes_def changed_def)

lemma set_time_spec:
  assumes run: "set_restored_modified_timestamp p target t s = (r, s')" and wf: "os_wf s"
    and p: "canonical p" "link_free (node_at s) p"
  shows "same_nodes s s' \<and> os_times s' = (if r = Ok () then (os_times s)(p := Some t) else os_times s)"
  using run unfolding set_restored_modified_timestamp_def
proof (cases rule: andThen_cases)
  case (fail e)
  then have "same_files s s'" unfolding os_open_existing_def by (auto elim: syscall_cases)
  then show ?thesis using fail(2) by (simp add: same_nodes_files same_filesD)
next
  case (step q s1)
  have tree: "tree_wf (node_at s)" using wf by (simp add: os_wf_def)
  have same: "same_files s s1" using step(1) unfolding os_open_existing_def by (auto elim: syscall_cases)
  have "resolve MAX_LINKS (node_at s) [] p = Ok q"
    using step(1) unfolding os_open_existing_def
  proof (cases rule: syscall_cases)
    case call
    then obtain x where x: "resolve MAX_LINKS (node_at s) [] p = Ok x"
      "(case node_at s x of None \<Rightarrow> Err ENOENT
        | Some DirNode \<Rightarrow> if target = TargetFile then Err EISDIR else Ok x | Some _ \<Rightarrow> Ok x) = Ok q"
      by (auto simp: bindR_Ok_iff)
    then obtain nd where "node_at s x = Some nd" by (cases "node_at s x") auto
    then show ?thesis using x by (cases nd) (auto split: if_splits)
  qed simp
  then have q: "q = p" using resolve_absolute [OF tree p, of MAX_LINKS] by auto
  from step(2) show ?thesis
    unfolding os_set_times_def
  proof (cases rule: syscall_cases)
    case (fault m)
    then show ?thesis using same_files_trans [OF same] by (auto simp: same_nodes_files same_filesD)
  next
    case call
    then show ?thesis using same by (auto simp: q same_nodes_def same_filesD [OF same])
  qed
qed

definition time_restored :: "timestamp metadata_value \<Rightarrow> os \<Rightarrow> path \<Rightarrow> bool" where
  "time_restored md s p \<longleftrightarrow> (\<exists>ts t. md = Captured ts \<and> system_time_from_timestamp ts = Some t \<and> os_times s p = Some t)"

lemma apply_time_spec:
  assumes run: "apply_restored_modified_timestamp p rel md target acc s = (r, s')" and wf: "os_wf s"
    and p: "canonical p" "link_free (node_at s) p"
  shows "\<exists>n ws. r = Ok (n, ws) \<and> same_nodes s s' \<and> n \<le> fst acc + 1 \<and> (\<forall>q. q \<noteq> p \<longrightarrow> os_times s' q = os_times s q) \<and>
    (n = fst acc + 1 \<longrightarrow> time_restored md s' p)"
proof -
  obtain tm ws where w: "restored_modified_time_or_warn rel md (snd acc) = (tm, ws)" by fastforce
  show ?thesis
  proof (cases tm)
    case None
    then show ?thesis using run w by (auto simp: apply_restored_modified_timestamp_def ret_def same_nodes_def)
  next
    case (Some t)
    obtain x where x: "set_restored_modified_timestamp p target t s = (x, s')"
      "r = Ok (case x of Ok _ \<Rightarrow> (fst acc + 1, ws) | Err source \<Rightarrow> (fst acc, ws @ [modified_warning rel
                   (''modified timestamp could not be applied: '' @ io_message source)]))"
      using run w Some by (auto simp: apply_restored_modified_timestamp_def ret_def andThen_def outcome_of_def split: prod.splits)
    have "\<exists>ts. md = Captured ts \<and> system_time_from_timestamp ts = Some t"
      using w Some by (auto simp: restored_modified_time_or_warn_def split: metadata_value.splits option.splits)
    then show ?thesis using set_time_spec [OF x(1) wf p] x(2)
      by (cases x) (auto simp: time_restored_def)
  qed
qed

lemma apply_times_loop:
  assumes run: "for_each xs (\<lambda>acc x. apply_restored_modified_timestamp (g x) (rl x) (md x) target acc) acc s = (r, s')"
    and wf: "os_wf s" and paths: "\<And>x. x \<in> set xs \<Longrightarrow> canonical (g x) \<and> link_free (node_at s) (g x)"
    and dist: "distinct (map g xs)"
  shows "\<exists>n ws. r = Ok (n, ws) \<and> same_nodes s s' \<and> n \<le> fst acc + length xs \<and>
    (\<forall>q. q \<notin> g ` set xs \<longrightarrow> os_times s' q = os_times s q) \<and>
    (n = fst acc + length xs \<longrightarrow> (\<forall>x \<in> set xs. time_restored (md x) s' (g x)))"
  using run wf paths dist
proof (induction xs arbitrary: acc s)
  case Nil
  then show ?case by (cases acc) (auto simp: ret_def same_nodes_def)
next
  case (Cons x xs)
  obtain r1 s1 where x: "apply_restored_modified_timestamp (g x) (rl x) (md x) target acc s = (r1, s1)" by fastforce
  have px: "canonical (g x)" "link_free (node_at s) (g x)" using Cons.prems(3) [of x] by simp_all
  from apply_time_spec [OF x Cons.prems(2) px] obtain n1 ws1 where one: "r1 = Ok (n1, ws1)" "same_nodes s s1"
    "n1 \<le> fst acc + 1" "\<And>q. q \<noteq> g x \<Longrightarrow> os_times s1 q = os_times s q" "n1 = fst acc + 1 \<Longrightarrow> time_restored (md x) s1 (g x)"
    by blast
  have "for_each xs (\<lambda>acc x. apply_restored_modified_timestamp (g x) (rl x) (md x) target acc) (n1, ws1) s1 = (r, s')"
    using Cons.prems(1) x one(1) by (simp add: andThen_def)
  then have "\<exists>n ws. r = Ok (n, ws) \<and> same_nodes s1 s' \<and> n \<le> fst (n1, ws1) + length xs \<and>
    (\<forall>q. q \<notin> g ` set xs \<longrightarrow> os_times s' q = os_times s1 q) \<and>
    (n = fst (n1, ws1) + length xs \<longrightarrow> (\<forall>x \<in> set xs. time_restored (md x) s' (g x)))"
    by (rule Cons.IH) (use Cons.prems one(2) in \<open>auto simp: same_nodes_def\<close>)
  then obtain n ws where rest: "r = Ok (n, ws)" "same_nodes s1 s'" "n \<le> n1 + length xs"
    "\<And>q. q \<notin> g ` set xs \<Longrightarrow> os_times s' q = os_times s1 q"
    "n = n1 + length xs \<Longrightarrow> \<forall>x \<in> set xs. time_restored (md x) s' (g x)" by auto
  have gx: "os_times s' (g x) = os_times s1 (g x)" by (rule rest(4)) (use Cons.prems(4) in simp)
  have "os_times s' q = os_times s q" if "q \<notin> g ` set (x # xs)" for q
    using that rest(4) [of q] one(4) [of q] by simp
  moreover have "\<forall>y \<in> set (x # xs). time_restored (md y) s' (g y)" if "n = fst acc + length (x # xs)"
  proof -
    have "n1 = fst acc + 1" "n = n1 + length xs" using that one(3) rest(3) by simp_all
    then show ?thesis using one(5) rest(5) gx by (simp add: time_restored_def)
  qed
  moreover have "same_nodes s s'" using same_nodes_trans [OF one(2) rest(2)] .
  moreover have "n \<le> fst acc + length (x # xs)" using one(3) rest(3) by simp
  ultimately show ?case using rest(1) by blast
qed

section \<open>Placing the contents\<close>

definition entry_paths :: "restore_content_result \<Rightarrow> path list" where
  "entry_paths c = map rd_relative_path (rc_directories c) @ map rf_relative_path (rc_files c) @
     map rs_relative_path (rc_symlinks c)"

definition leaf_paths :: "restore_content_result \<Rightarrow> path list" where
  "leaf_paths c = map rf_relative_path (rc_files c) @ map rs_relative_path (rc_symlinks c)"

text \<open>What a valid manifest gives: distinct paths of names, and only directories have something below them.\<close>

definition contents_wf :: "restore_content_result \<Rightarrow> bool" where
  "contents_wf c \<longleftrightarrow> (\<forall>p \<in> set (entry_paths c). named_path p) \<and> distinct (entry_paths c) \<and>
     (\<forall>p \<in> set (leaf_paths c). p \<noteq> [] \<and> (\<forall>q \<in> set (entry_paths c). \<not> strict_prefix p q))"

definition new_kinds :: "restore_destination_request \<Rightarrow> restore_content_result \<Rightarrow> (path \<times> file_type) set" where
  "new_kinds request c = (\<lambda>f. (at_dest request (rf_relative_path f), IsFile)) ` set (rc_files c) \<union>
     (\<lambda>l. (at_dest request (rs_relative_path l), IsSymlink)) ` set (rc_symlinks c)"

text \<open>The files that are replaced: none unless overwriting is asked for.\<close>

definition replaced :: "restore_destination_request \<Rightarrow> restore_content_result \<Rightarrow> os \<Rightarrow> nat set" where
  "replaced request c s = (\<Union>f \<in> set (rc_files c). overwritten (dr_overwrite request) s (at_dest request (rf_relative_path f)))"

abbreviation (input) placing :: "restore_destination_request \<Rightarrow> restore_content_result \<Rightarrow> os \<Rightarrow> os \<Rightarrow> bool" where
  "placing request c s t \<equiv> changed (dr_destination request) (replaced request c s) (new_kinds request c) s t"

definition ready :: "restore_destination_request \<Rightarrow> restore_content_result \<Rightarrow> os \<Rightarrow> bool" where
  "ready request c s \<longleftrightarrow> os_wf s \<and> canonical (dr_destination request) \<and> contents_wf c \<and>
     (\<forall>p \<in> set (entry_paths c). link_free (node_at s) (at_dest request p))"

lemma ready_canonical: "ready request c s \<Longrightarrow> p \<in> set (entry_paths c) \<Longrightarrow> canonical (at_dest request p)"
  by (simp add: ready_def contents_wf_def canonical_destination)

lemma leaf_entry: "p \<in> set (leaf_paths c) \<Longrightarrow> p \<in> set (entry_paths c)"
  by (auto simp: leaf_paths_def entry_paths_def)

lemma symlink_paths:
  assumes "contents_wf c" and "l \<in> set (rc_symlinks c)"
  shows "q \<in> set (map rd_relative_path (rc_directories c) @ map rf_relative_path (rc_files c)) \<Longrightarrow> \<not> prefix (rs_relative_path l) q"
    and "q \<in> set (entry_paths c) \<Longrightarrow> \<not> strict_prefix (rs_relative_path l) q"
proof -
  have leaf: "rs_relative_path l \<in> set (leaf_paths c)" using assms(2) by (simp add: leaf_paths_def)
  show no: "q \<in> set (entry_paths c) \<Longrightarrow> \<not> strict_prefix (rs_relative_path l) q" for q
    using assms(1) leaf by (simp add: contents_wf_def)
  assume q: "q \<in> set (map rd_relative_path (rc_directories c) @ map rf_relative_path (rc_files c))"
  then have "q \<noteq> rs_relative_path l" using assms by (auto simp: contents_wf_def entry_paths_def)
  moreover have "q \<in> set (entry_paths c)" using q by (auto simp: entry_paths_def)
  ultimately show "\<not> prefix (rs_relative_path l) q" using no by (auto simp: strict_prefix_def)
qed

lemma placing_links:
  assumes ready: "ready request c s" and now: "placing request c s t"
  shows "q \<in> set (map rd_relative_path (rc_directories c) @ map rf_relative_path (rc_files c)) \<Longrightarrow>
      link_free (node_at t) (at_dest request q)"
    and "l \<in> set (rc_symlinks c) \<Longrightarrow> link_free (node_at t) (butlast (at_dest request (rs_relative_path l)))"
proof -
  have wf: "contents_wf c" using ready by (simp add: ready_def)
  have free: "link_free (node_at s) (at_dest request q)" if "q \<in> set (entry_paths c)" for q
    using ready that by (simp add: ready_def)
  show "link_free (node_at t) (at_dest request q)"
    if q: "q \<in> set (map rd_relative_path (rc_directories c) @ map rf_relative_path (rc_files c))"
  proof (rule changed_links [OF now free])
    show "q \<in> set (entry_paths c)" using q by (auto simp: entry_paths_def)
    show "\<not> prefix x (at_dest request q)" if "(x, IsSymlink) \<in> new_kinds request c" for x
      using that symlink_paths(1) [OF wf _ q] by (auto simp: new_kinds_def)
  qed
  assume l: "l \<in> set (rc_symlinks c)"
  then have mem: "rs_relative_path l \<in> set (entry_paths c)" by (simp add: entry_paths_def)
  have ne: "rs_relative_path l \<noteq> []" using wf l by (auto simp: contents_wf_def leaf_paths_def)
  show "link_free (node_at t) (butlast (at_dest request (rs_relative_path l)))"
  proof (rule changed_links [OF now link_free_prefix [OF free [OF mem] prefixeq_butlast]], rule notI)
    fix x assume "(x, IsSymlink) \<in> new_kinds request c" "prefix x (butlast (at_dest request (rs_relative_path l)))"
    then obtain k where k: "k \<in> set (rc_symlinks c)" "prefix (rs_relative_path k) (butlast (rs_relative_path l))"
      using ne by (auto simp: new_kinds_def butlast_append)
    then have "strict_prefix (rs_relative_path k) (rs_relative_path l)"
      using ne by (cases "rs_relative_path l" rule: rev_cases) (auto simp: strict_prefix_def prefix_def)
    then show False using symlink_paths(2) [OF wf k(1) mem] by simp
  qed
qed

lemma placing_step:
  assumes "placing request c s t" and "changed (dr_destination request) T K t t'" and "K \<subseteq> new_kinds request c"
    and "\<And>i. i \<in> T \<Longrightarrow> i < os_next s \<Longrightarrow> i \<in> replaced request c s"
  shows "placing request c s t'"
  by (rule changed_trans [OF assms(1) changed_weaken [OF assms(2) order_refl assms(3)] assms(4)])

text \<open>The entries in place, phase by phase.\<close>

definition dirs_placed :: "restore_destination_request \<Rightarrow> restored_directory list \<Rightarrow> os \<Rightarrow> bool" where
  "dirs_placed request ds t \<longleftrightarrow> (\<forall>d \<in> set ds. node_at t (at_dest request (rd_relative_path d)) = Some DirNode)"

definition files_placed :: "restore_destination_request \<Rightarrow> restored_file list \<Rightarrow> os \<Rightarrow> bool" where
  "files_placed request fs t \<longleftrightarrow> (\<forall>f \<in> set fs. file_at t (at_dest request (rf_relative_path f)) = Some (rf_contents f))"

definition links_placed :: "restore_destination_request \<Rightarrow> restored_symlink list \<Rightarrow> os \<Rightarrow> bool" where
  "links_placed request ls t \<longleftrightarrow>
     (\<forall>l \<in> set ls. node_at t (at_dest request (rs_relative_path l)) = Some (LinkNode (rs_target l)))"

lemma dirs_stay: "changed root T K s t \<Longrightarrow> dirs_placed request ds s \<Longrightarrow> dirs_placed request ds t"
  by (auto simp: dirs_placed_def dest: changed_stays)

lemma links_stay: "changed root T K s t \<Longrightarrow> links_placed request ls s \<Longrightarrow> links_placed request ls t"
  by (auto simp: links_placed_def dest: changed_stays)

lemma file_stays:
  assumes "changed root T K s t" and "os_wf s" and "file_at s p = Some b" and "\<And>i. node_at s p = Some (FileNode i) \<Longrightarrow> i \<notin> T"
  shows "file_at t p = Some b"
proof -
  obtain i where i: "node_at s p = Some (FileNode i)" "b = os_data s i" using assms(3) by (auto simp: file_at_Some)
  then have "i < os_next s" using assms(2) by (auto simp: os_wf_def)
  then show ?thesis using changed_data [OF assms(1)] changed_stays [OF assms(1) i(1)] assms(4) i by (auto simp: file_at_Some)
qed

lemma files_stay:
  assumes "changed root {} K s t" and "os_wf s" and "files_placed request fs s"
  shows "files_placed request fs t"
  using assms(3) file_stays [OF assms(1,2)] by (auto simp: files_placed_def)

definition planned_directory :: "restore_destination_request \<Rightarrow> restored_directory \<Rightarrow> restore_destination_directory" where
  "planned_directory request d =
     \<lparr>dd_relative_path = rd_relative_path d, dd_destination_path = at_dest request (rd_relative_path d),
      dd_modified = rd_modified d, dd_action = planned_action request\<rparr>"

definition planned_file :: "restore_destination_request \<Rightarrow> restored_file \<Rightarrow> restore_destination_file" where
  "planned_file request f =
     \<lparr>df_relative_path = rf_relative_path f, df_destination_path = at_dest request (rf_relative_path f),
      df_bytes = word_of_nat (length (rf_contents f)), df_modified = rf_modified f,
      df_action = planned_action request, df_verified = (dr_verify request \<and> \<not> dr_dry_run request)\<rparr>"

abbreviation (input) to_dest :: "restore_destination_request \<Rightarrow> ('a \<Rightarrow> path) \<Rightarrow> 'a list \<Rightarrow> ('a \<times> path) list" where
  "to_dest request rel xs \<equiv> map (\<lambda>x. (x, at_dest request (rel x))) xs"

text \<open>No two destinations are hard links of one file.\<close>

definition unaliased :: "restore_destination_request \<Rightarrow> restore_content_result \<Rightarrow> os \<Rightarrow> bool" where
  "unaliased request c t \<longleftrightarrow> (\<forall>f \<in> set (rc_files c). \<forall>g \<in> set (rc_files c). \<forall>i.
     node_at t (at_dest request (rf_relative_path f)) = Some (FileNode i) \<longrightarrow>
     node_at t (at_dest request (rf_relative_path g)) = Some (FileNode i) \<longrightarrow> rf_relative_path f = rf_relative_path g)"

lemma unaliased_keep: "changed root T {} t t' \<Longrightarrow> unaliased request c t \<Longrightarrow> unaliased request c t'"
proof -
  assume new: "changed root T {} t t'" and apart: "unaliased request c t"
  have "node_at t p = Some (FileNode i)" if "node_at t' p = Some (FileNode i)" for p i
    using changed_new [OF new that] by simp
  then show "unaliased request c t'" using apart unfolding unaliased_def by blast
qed

lemma directories_written:
  assumes ready: "ready request c s" and wet: "\<not> dr_dry_run request"
  shows "triple (\<lambda>t. placing request c s t \<and> (unaliased request c s \<longrightarrow> unaliased request c t))
    (for_each (to_dest request rd_relative_path (rc_directories c)) (write_directory request) [])
    (\<lambda>planned t. placing request c s t \<and> dirs_placed request (rc_directories c) t \<and>
       (unaliased request c s \<longrightarrow> unaliased request c t) \<and> planned = map (planned_directory request) (rc_directories c)) (placing request c s)"
proof -
  let ?J = "\<lambda>(past :: (restored_directory \<times> path) list) planned t. placing request c s t \<and> dirs_placed request (map fst past) t \<and>
    (unaliased request c s \<longrightarrow> unaliased request c t) \<and> planned = map (\<lambda>x. planned_directory request (fst x)) past"
  have "triple (?J [] []) (for_each (to_dest request rd_relative_path (rc_directories c)) (write_directory request) [])
      (?J ([] @ to_dest request rd_relative_path (rc_directories c))) (placing request c s)"
  proof (rule triple_for_each [where J = ?J])
    fix past x planned assume mem: "set (past @ [x]) \<subseteq> set ([] @ to_dest request rd_relative_path (rc_directories c))"
    then obtain d where x: "x = (d, at_dest request (rd_relative_path d))" "d \<in> set (rc_directories c)" by auto
    let ?p = "at_dest request (rd_relative_path d)"
    have entry: "rd_relative_path d \<in> set (entry_paths c)" using x(2) by (simp add: entry_paths_def)
    have one: "placing request c s t' \<and> (r = Ok () \<longrightarrow> node_at t' ?p = Some DirNode) \<and> dirs_placed request ds t' \<and>
        (unaliased request c t \<longrightarrow> unaliased request c t')"
      if J: "placing request c s t" "dirs_placed request ds t" and run: "create_restored_directory ?p t = (r, t')" for t r t' ds
    proof -
      have "link_free (node_at t) ?p" by (rule placing_links(1) [OF ready J(1)]) (use x(2) in simp)
      then have "changed (dr_destination request) {} {} t t' \<and> (r = Ok () \<longrightarrow> node_at t' ?p = Some DirNode)"
        by (intro create_directory_changed [OF run changed_wf [OF J(1)] ready_canonical [OF ready entry]]) simp_all
      then show ?thesis using placing_step [OF J(1)] dirs_stay J(2) unaliased_keep by blast
    qed
    show "triple (?J past planned) (write_directory request planned x) (?J (past @ [x])) (placing request c s)"
    proof (rule tripleI)
      fix t planned' t' assume J: "?J past planned t" and run: "write_directory request planned x t = (Ok planned', t')"
      then have "create_restored_directory ?p t = (Ok (), t')" "planned' = planned @ [planned_directory request d]"
        using wet by (auto simp: write_directory_def x andThen_Ok_iff ret_def planned_directory_def)
      then show "?J (past @ [x]) planned' t'" using one [of t "map fst past"] J by (auto simp: x dirs_placed_def)
    next
      fix t e t' assume J: "?J past planned t" and run: "write_directory request planned x t = (Err e, t')"
      then have "create_restored_directory ?p t = (Err e, t')"
        using wet by (auto simp: write_directory_def x andThen_def ret_def split: prod.splits sum.splits)
      then show "placing request c s t'" using one [of t "[]"] J by (auto simp: dirs_placed_def)
    qed
  qed
  then show ?thesis by (rule triple_conseq) (simp_all add: dirs_placed_def comp_def)
qed

lemma unaliased_step:
  assumes apart: "unaliased request c t" and wf: "os_wf t"
    and new: "changed root T {(at_dest request (rf_relative_path h), IsFile)} t t'"
  shows "unaliased request c t'"
proof -
  let ?g = "\<lambda>f. at_dest request (rf_relative_path f)"
  have old: "node_at t (?g f) = Some (FileNode i) \<and> i < os_next t \<or> rf_relative_path f = rf_relative_path h \<and> os_next t \<le> i"
    if "node_at t' (?g f) = Some (FileNode i)" for f i
    using changed_new [OF new that] wf by (auto simp: os_wf_def)
  show ?thesis
    unfolding unaliased_def
  proof (intro ballI allI impI)
    fix f g i assume fg: "f \<in> set (rc_files c)" "g \<in> set (rc_files c)"
      and at: "node_at t' (?g f) = Some (FileNode i)" "node_at t' (?g g) = Some (FileNode i)"
    have "node_at t (?g f) = Some (FileNode i) \<and> node_at t (?g g) = Some (FileNode i) \<or>
        rf_relative_path f = rf_relative_path h \<and> rf_relative_path g = rf_relative_path h"
      using old [OF at(1)] old [OF at(2)] by auto
    then show "rf_relative_path f = rf_relative_path g" using apart fg by (auto simp: unaliased_def)
  qed
qed

lemma file_written:
  assumes ready: "ready request c s" and f: "f \<in> set (rc_files c)" and J: "placing request c s t"
    and run: "write_restored_file (at_dest request (rf_relative_path f)) (rf_contents f) (dr_overwrite request) verify t = (r, t')"
  shows "changed (dr_destination request) (overwritten (dr_overwrite request) t (at_dest request (rf_relative_path f)))
      {(at_dest request (rf_relative_path f), IsFile)} t t' \<and> placing request c s t' \<and>
    (r = Ok () \<longrightarrow> file_at t' (at_dest request (rf_relative_path f)) = Some (rf_contents f))"
proof -
  let ?p = "at_dest request (rf_relative_path f)"
  have entry: "rf_relative_path f \<in> set (entry_paths c)" using f by (simp add: entry_paths_def)
  have "link_free (node_at t) ?p" by (rule placing_links(1) [OF ready J]) (use f in simp)
  then have one: "changed (dr_destination request) (overwritten (dr_overwrite request) t ?p) {(?p, IsFile)} t t' \<and>
      (r = Ok () \<longrightarrow> (\<exists>h. node_at t' ?p = Some (FileNode h) \<and> os_data t' h = rf_contents f))"
    by (intro write_file_changed [OF run changed_wf [OF J] ready_canonical [OF ready entry]]) simp_all
  have "placing request c s t'"
  proof (rule placing_step [OF J conjunct1 [OF one]])
    show "{(?p, IsFile)} \<subseteq> new_kinds request c" using f by (auto simp: new_kinds_def)
    show "i \<in> replaced request c s" if "i \<in> overwritten (dr_overwrite request) t ?p" "i < os_next s" for i
    proof -
      have "i \<in> overwritten (dr_overwrite request) s ?p"
        using that changed_new [OF J, of ?p "FileNode i"]
        by (auto simp: overwritten_def split: restore_overwrite_policy.splits)
      then show ?thesis using f by (auto simp: replaced_def)
    qed
  qed
  then show ?thesis using one by (auto simp: file_at_Some)
qed

lemma files_written:
  assumes ready: "ready request c s" and wet: "\<not> dr_dry_run request"
  shows "triple (\<lambda>t. placing request c s t \<and> dirs_placed request (rc_directories c) t \<and> unaliased request c t)
    (for_each (to_dest request rf_relative_path (rc_files c)) (write_file request) [])
    (\<lambda>planned t. placing request c s t \<and> dirs_placed request (rc_directories c) t \<and>
       files_placed request (rc_files c) t \<and> planned = map (planned_file request) (rc_files c)) (placing request c s)"
proof -
  let ?I = "\<lambda>t. placing request c s t \<and> dirs_placed request (rc_directories c) t \<and> unaliased request c t"
  let ?J = "\<lambda>(past :: (restored_file \<times> path) list) planned t. ?I t \<and> set past \<subseteq> set (to_dest request rf_relative_path (rc_files c)) \<and>
    files_placed request (map fst past) t \<and> planned = map (\<lambda>x. planned_file request (fst x)) past"
  have dist: "rf_relative_path f = rf_relative_path g \<Longrightarrow> f = g" if "f \<in> set (rc_files c)" "g \<in> set (rc_files c)" for f g
    using ready that by (auto simp: ready_def contents_wf_def entry_paths_def distinct_map inj_on_def)
  have "triple (?J [] []) (for_each (to_dest request rf_relative_path (rc_files c)) (write_file request) [])
      (?J ([] @ to_dest request rf_relative_path (rc_files c))) (placing request c s)"
  proof (rule triple_for_each [where J = ?J])
    fix past x planned assume mem: "set (past @ [x]) \<subseteq> set ([] @ to_dest request rf_relative_path (rc_files c))"
    then obtain f where x: "x = (f, at_dest request (rf_relative_path f))" and f: "f \<in> set (rc_files c)" by auto
    let ?p = "at_dest request (rf_relative_path f)"
    have stays: "files_placed request (map fst past @ [f]) t'"
      if J: "?J past planned t"
        and run: "write_restored_file ?p (rf_contents f) (dr_overwrite request) (dr_verify request) t = (Ok (), t')" for t t'
    proof -
      have "placing request c s t" using J by blast
      note one = file_written [OF ready f this run]
      have "file_at t' (at_dest request (rf_relative_path g)) = Some (rf_contents g)" if g: "g \<in> set (map fst past @ [f])" for g
      proof (cases "g = f")
        case True
        then show ?thesis using one by simp
      next
        case False
        then have gp: "g \<in> set (rc_files c)" "file_at t (at_dest request (rf_relative_path g)) = Some (rf_contents g)"
          using g J by (auto simp: files_placed_def)
        have ne: "rf_relative_path g \<noteq> rf_relative_path f" using dist [OF gp(1) f] False by blast
        have "i \<notin> overwritten (dr_overwrite request) t ?p"
          if "node_at t (at_dest request (rf_relative_path g)) = Some (FileNode i)" for i
          using that J gp(1) f ne by (auto simp: overwritten_def unaliased_def split: restore_overwrite_policy.splits)
        then show ?thesis using file_stays [OF conjunct1 [OF one] _ gp(2)] J changed_wf by blast
      qed
      then show ?thesis by (simp add: files_placed_def)
    qed
    show "triple (?J past planned) (write_file request planned x) (?J (past @ [x])) (placing request c s)"
    proof (rule tripleI)
      fix t planned' t' assume J: "?J past planned t" and run: "write_file request planned x t = (Ok planned', t')"
      then have w: "write_restored_file ?p (rf_contents f) (dr_overwrite request) (dr_verify request) t = (Ok (), t')"
        "planned' = planned @ [planned_file request f]"
        using wet by (auto simp: write_file_def x andThen_Ok_iff ret_def planned_file_def)
      have now: "placing request c s t" using J by blast
      note one = file_written [OF ready f now w(1)]
      have "unaliased request c t'" using unaliased_step [OF _ changed_wf [OF now] conjunct1 [OF one]] J by blast
      moreover have "dirs_placed request (rc_directories c) t'" using dirs_stay [OF conjunct1 [OF one]] J by blast
      ultimately show "?J (past @ [x]) planned' t'" using one stays [OF J w(1)] J w(2) f by (auto simp: x)
    next
      fix t e t' assume J: "?J past planned t" and run: "write_file request planned x t = (Err e, t')"
      then have "write_restored_file ?p (rf_contents f) (dr_overwrite request) (dr_verify request) t = (Err e, t')"
        using wet by (auto simp: write_file_def x andThen_def ret_def split: prod.splits sum.splits)
      then show "placing request c s t'" using file_written [OF ready f] J by blast
    qed
  qed
  then show ?thesis by (rule triple_conseq) (simp_all add: files_placed_def comp_def)
qed

lemma symlinks_written:
  assumes ready: "ready request c s" and wet: "\<not> dr_dry_run request"
  shows "triple (\<lambda>t. placing request c s t \<and> dirs_placed request (rc_directories c) t \<and> files_placed request (rc_files c) t)
    (for_each (to_dest request rs_relative_path (rc_symlinks c)) (write_symlink request) [])
    (\<lambda>planned t. placing request c s t \<and> dirs_placed request (rc_directories c) t \<and>
       files_placed request (rc_files c) t \<and> links_placed request (rc_symlinks c) t) (placing request c s)"
proof -
  let ?I = "\<lambda>t. placing request c s t \<and> dirs_placed request (rc_directories c) t \<and> files_placed request (rc_files c) t"
  let ?J = "\<lambda>(past :: (restored_symlink \<times> path) list) (planned :: restore_destination_symlink list) t.
    ?I t \<and> links_placed request (map fst past) t"
  have "triple (?J [] []) (for_each (to_dest request rs_relative_path (rc_symlinks c)) (write_symlink request) [])
      (?J ([] @ to_dest request rs_relative_path (rc_symlinks c))) (placing request c s)"
  proof (rule triple_for_each [where J = ?J])
    fix past x planned assume mem: "set (past @ [x]) \<subseteq> set ([] @ to_dest request rs_relative_path (rc_symlinks c))"
    then obtain l where x: "x = (l, at_dest request (rs_relative_path l))" and l: "l \<in> set (rc_symlinks c)" by auto
    let ?p = "at_dest request (rs_relative_path l)"
    have entry: "rs_relative_path l \<in> set (entry_paths c)" using l by (simp add: entry_paths_def)
    have one: "?I t' \<and> (r = Ok () \<longrightarrow> links_placed request (map fst past @ [l]) t')"
      if J: "?J past planned t" and run: "create_restored_symlink (rs_target l) ?p t = (r, t')" for t r t'
    proof -
      have now: "placing request c s t" using J by blast
      have "link_free (node_at t) (butlast ?p)" by (rule placing_links(2) [OF ready now l])
      then have "changed (dr_destination request) {} {(?p, IsSymlink)} t t' \<and> (r = Ok () \<longrightarrow> node_at t' ?p = Some (LinkNode (rs_target l)))"
        by (intro create_symlink_changed [OF run changed_wf [OF now] ready_canonical [OF ready entry]]) simp_all
      then have new: "changed (dr_destination request) {} {(?p, IsSymlink)} t t'" "r = Ok () \<longrightarrow> node_at t' ?p = Some (LinkNode (rs_target l))"
        by blast+
      have "placing request c s t'"
        by (rule placing_step [OF now new(1)]) (use l in \<open>auto simp: new_kinds_def\<close>)
      moreover have "dirs_placed request (rc_directories c) t'" "links_placed request (map fst past) t'"
        using dirs_stay [OF new(1)] links_stay [OF new(1)] J by blast+
      moreover have "files_placed request (rc_files c) t'"
        using files_stay [OF new(1) changed_wf [OF now]] J by blast
      ultimately show ?thesis using new(2) by (auto simp: links_placed_def)
    qed
    show "triple (?J past planned) (write_symlink request planned x) (?J (past @ [x])) (placing request c s)"
    proof (rule tripleI)
      fix t planned' t' assume J: "?J past planned t" and run: "write_symlink request planned x t = (Ok planned', t')"
      then have "create_restored_symlink (rs_target l) ?p t = (Ok (), t')"
        using wet by (auto simp: write_symlink_def x andThen_Ok_iff ret_def)
      then show "?J (past @ [x]) planned' t'" using one [OF J] by (simp add: x)
    next
      fix t e t' assume J: "?J past planned t" and run: "write_symlink request planned x t = (Err e, t')"
      then have "create_restored_symlink (rs_target l) ?p t = (Err e, t')"
        using wet by (auto simp: write_symlink_def x andThen_def ret_def split: prod.splits sum.splits)
      then show "placing request c s t'" using one [OF J] by blast
    qed
  qed
  then show ?thesis by (rule triple_conseq) (simp_all add: links_placed_def comp_def)
qed

text \<open>The times come last, so nothing changes them again.\<close>

definition times_restored :: "restore_destination_request \<Rightarrow> restore_content_result \<Rightarrow> os \<Rightarrow> bool" where
  "times_restored request c t \<longleftrightarrow>
     (\<forall>f \<in> set (rc_files c). time_restored (rf_modified f) t (at_dest request (rf_relative_path f))) \<and>
     (\<forall>d \<in> set (rc_directories c). time_restored (rd_modified d) t (at_dest request (rd_relative_path d)))"

lemma distinct_at_dest: "distinct (map (\<lambda>x. p @ g x) xs) \<longleftrightarrow> distinct (map g xs)"
  by (induction xs) auto

lemma times_applied:
  assumes ready: "ready request c s" and now: "placing request c s t"
    and run: "apply_times (map (planned_file request) (rc_files c)) (map (planned_directory request) (rc_directories c)) ws t = (r, t')"
  shows "same_nodes t t' \<and> (\<exists>n ws'. r = Ok (n, ws') \<and>
    (n = length (rc_files c) + length (rc_directories c) \<longrightarrow> times_restored request c t'))"
proof -
  let ?fs = "map (planned_file request) (rc_files c)" and ?ds = "map (planned_directory request) (rc_directories c)"
  have wf: "os_wf t" by (rule changed_wf [OF now])
  have cwf: "contents_wf c" using ready by (simp add: ready_def)
  have paths: "canonical (at_dest request q) \<and> link_free (node_at t) (at_dest request q)"
    if "q \<in> set (map rd_relative_path (rc_directories c) @ map rf_relative_path (rc_files c))" for q
    using placing_links(1) [OF ready now that] ready_canonical [OF ready, of q] that by (auto simp: entry_paths_def)
  have d0: "distinct (map rf_relative_path (rc_files c))" "distinct (map rd_relative_path (rc_directories c))"
    "set (map rd_relative_path (rc_directories c)) \<inter> set (map rf_relative_path (rc_files c)) = {}"
    using cwf unfolding contents_wf_def entry_paths_def distinct_append set_append by blast+
  have distinct: "distinct (map df_destination_path ?fs)" "distinct (map dd_destination_path ?ds)"
    using d0(1,2) by (simp_all add: comp_def planned_file_def planned_directory_def distinct_at_dest)
  have apart: "df_destination_path ` set ?fs \<inter> dd_destination_path ` set ?ds = {}"
    using d0(3) by (fastforce simp: planned_file_def planned_directory_def)
  obtain r1 t1 where fs: "for_each ?fs (\<lambda>acc f. apply_restored_modified_timestamp
                (df_destination_path f) (df_relative_path f) (df_modified f) TargetFile acc) (0, ws) t = (r1, t1)" by fastforce
  have "\<exists>n ws1. r1 = Ok (n, ws1) \<and> same_nodes t t1 \<and> n \<le> fst (0, ws) + length ?fs \<and>
    (\<forall>q. q \<notin> df_destination_path ` set ?fs \<longrightarrow> os_times t1 q = os_times t q) \<and>
    (n = fst (0, ws) + length ?fs \<longrightarrow> (\<forall>x \<in> set ?fs. time_restored (df_modified x) t1 (df_destination_path x)))"
    by (rule apply_times_loop [OF fs wf _ distinct(1)]) (use paths in \<open>auto simp: planned_file_def\<close>)
  then obtain n1 ws1 where one: "r1 = Ok (n1, ws1)" "same_nodes t t1" "n1 \<le> length ?fs"
    "n1 = length ?fs \<longrightarrow> (\<forall>x \<in> set ?fs. time_restored (df_modified x) t1 (df_destination_path x))" by auto
  have ds: "for_each ?ds (\<lambda>acc d. apply_restored_modified_timestamp
                (dd_destination_path d) (dd_relative_path d) (dd_modified d) TargetDirectory acc) (n1, ws1) t1 = (r, t')"
    using run fs one(1) by (simp add: apply_times_def andThen_def)
  have "\<exists>n ws2. r = Ok (n, ws2) \<and> same_nodes t1 t' \<and> n \<le> fst (n1, ws1) + length ?ds \<and>
    (\<forall>q. q \<notin> dd_destination_path ` set ?ds \<longrightarrow> os_times t' q = os_times t1 q) \<and>
    (n = fst (n1, ws1) + length ?ds \<longrightarrow> (\<forall>x \<in> set ?ds. time_restored (dd_modified x) t' (dd_destination_path x)))"
    by (rule apply_times_loop [OF ds _ _ distinct(2)]) (use paths one(2) wf in \<open>auto simp: planned_directory_def same_nodes_def\<close>)
  then obtain n ws2 where two: "r = Ok (n, ws2)" "same_nodes t1 t'" "n \<le> n1 + length ?ds"
    "\<And>q. q \<notin> dd_destination_path ` set ?ds \<Longrightarrow> os_times t' q = os_times t1 q"
    "n = n1 + length ?ds \<longrightarrow> (\<forall>x \<in> set ?ds. time_restored (dd_modified x) t' (dd_destination_path x))" by auto
  have "times_restored request c t'" if "n = length (rc_files c) + length (rc_directories c)"
  proof -
    have n: "n1 = length ?fs" "n = n1 + length ?ds" using that one(3) two(3) by simp_all
    have "time_restored (df_modified x) t' (df_destination_path x)" if "x \<in> set ?fs" for x
    proof -
      have "df_destination_path x \<notin> dd_destination_path ` set ?ds" using apart that by blast
      then have "os_times t' (df_destination_path x) = os_times t1 (df_destination_path x)" by (rule two(4))
      moreover have "time_restored (df_modified x) t1 (df_destination_path x)" using one(4) n(1) that by blast
      ultimately show ?thesis by (simp add: time_restored_def)
    qed
    then have "\<forall>x \<in> set ?fs. time_restored (df_modified x) t' (df_destination_path x)" by blast
    then show ?thesis using two(5) n(2) by (simp add: times_restored_def planned_file_def planned_directory_def)
  qed
  then show ?thesis using same_nodes_trans [OF one(2) two(2)] two(1) by blast
qed

section \<open>The whole placement\<close>

text \<open>The part that writes, once every entry is prepared.\<close>

definition write_prepared ::
  "restore_destination_request \<Rightarrow> restore_content_result \<Rightarrow> (os, core_error, restore_destination_result) prog" where
  "write_prepared request contents =
     andThen (for_each (to_dest request rd_relative_path (rc_directories contents)) (write_directory request) []) (\<lambda>planned_directories.
     andThen (for_each (to_dest request rf_relative_path (rc_files contents)) (write_file request) []) (\<lambda>planned_files.
     andThen (for_each (to_dest request rs_relative_path (rc_symlinks contents)) (write_symlink request) []) (\<lambda>planned_symlinks.
     andThen (if dr_dry_run request
              then ret (0, plan_times planned_files planned_directories (rc_metadata_warnings contents))
              else apply_times planned_files planned_directories (rc_metadata_warnings contents)) (\<lambda>(applied, warnings).
     ret \<lparr>de_snapshot_id = rc_snapshot_id contents, de_selected_entries = rc_selected_entries contents,
          de_directories = planned_directories, de_files = planned_files, de_symlinks = planned_symlinks,
          de_metadata_planned = length planned_files + length planned_directories,
          de_metadata_applied = applied, de_metadata_warnings = warnings,
          de_bytes = sum_list (map df_bytes planned_files), de_dry_run = dr_dry_run request,
          de_verified_files = (if dr_verify request \<and> \<not> dr_dry_run request
            then length (rc_files contents) else 0)\<rparr>))))"

lemma place_prepared:
  assumes run: "place_contents request c s = (r, s')" and ok: "destination_ok s (dr_destination request)" and wf: "contents_wf c"
  obtains (refused) "same_files s s'" "\<And>res. r \<noteq> Ok res"
  | (prepared) s1 where "same_files s s1" "write_prepared request c s1 = (r, s')" "ready request c s"
      "dr_overwrite request = FailIfExists \<Longrightarrow> \<forall>f \<in> set (rc_files c). node_at s (at_dest request (rf_relative_path f)) = None"
proof -
  have names: "\<forall>d \<in> set (rc_directories c). named_path (rd_relative_path d)" "\<forall>f \<in> set (rc_files c). named_path (rf_relative_path f)"
    "\<forall>l \<in> set (rc_symlinks c). named_path (rs_relative_path l)"
    using wf by (auto simp: contents_wf_def entry_paths_def)
  from run show ?thesis
    unfolding place_contents_def
  proof (cases rule: andThen_cases)
    case (fail e)
    then show ?thesis using refused observesD [OF observes_prepare(1)] by blast
  next
    case (step pds s1)
    note ds = prepared_directories [OF step(1) ok names(1)]
    then have same1: "same_files s s1" by blast
    from step(2) show ?thesis
    proof (cases rule: andThen_cases)
      case (fail e)
      then show ?thesis using refused same_files_trans [OF same1] observesD [OF observes_prepare(2)] by blast
    next
      case fstep: (step pfs s2)
      note fs = prepared_files [OF fstep(1) _ names(2), unfolded destination_same [OF same1], OF ok]
      then have same2: "same_files s s2" using same_files_trans [OF same1] by blast
      from fstep(2) show ?thesis
      proof (cases rule: andThen_cases)
        case (fail e)
        then show ?thesis using refused same_files_trans [OF same2] observesD [OF observes_prepare(3)] by blast
      next
        case lstep: (step pls s3)
        note ls = prepared_symlinks [OF lstep(1) _ names(3), unfolded destination_same [OF same2], OF ok]
        then have same3: "same_files s s3" using same_files_trans [OF same2] by blast
        have "ready request c s"
          using ok wf ds fs ls unfolding ready_def destination_ok_def same_filesD [OF same1] same_filesD [OF same2]
          by (auto simp: entry_paths_def)
        moreover have "write_prepared request c s3 = (r, s')"
          using lstep(2) ds fs ls by (simp add: write_prepared_def)
        moreover have "\<forall>f \<in> set (rc_files c). node_at s (at_dest request (rf_relative_path f)) = None"
          if "dr_overwrite request = FailIfExists"
          using fs that by (simp add: same_filesD [OF same1])
        ultimately show ?thesis using prepared [OF same3] by blast
      qed
    qed
  qed
qed

lemma ready_same: "ready request c s \<Longrightarrow> same_files s s1 \<Longrightarrow> ready request c s1"
  by (simp add: ready_def same_filesD)

lemma set_time_nodes: "set_restored_modified_timestamp p target t s = (r, s') \<Longrightarrow> same_nodes s s'"
  unfolding set_restored_modified_timestamp_def
proof (erule andThen_cases)
  fix e assume "os_open_existing (target = TargetFile) p s = (Err e, s')"
  then have "same_files s s'" unfolding os_open_existing_def by (auto elim: syscall_cases)
  then show "same_nodes s s'" by (rule same_nodes_files)
next
  fix q s1 assume op: "os_open_existing (target = TargetFile) p s = (Ok q, s1)" and st: "os_set_times q t s1 = (r, s')"
  have "same_files s s1" using op unfolding os_open_existing_def by (auto elim: syscall_cases)
  moreover have "same_nodes s1 s'" using st unfolding os_set_times_def
    by (cases rule: syscall_cases) (simp_all add: same_nodes_files, auto simp: same_nodes_def)
  ultimately show "same_nodes s s'" using same_nodes_trans same_nodes_files by blast
qed

lemma apply_time_nodes:
  assumes "apply_restored_modified_timestamp p rel md target acc s = (r, s')"
  shows "same_nodes s s'"
  using assms set_time_nodes
  by (auto simp: apply_restored_modified_timestamp_def andThen_def outcome_of_def ret_def same_nodes_def
      split: prod.splits option.splits)

lemma placing_kept_step:
  assumes ready: "ready request c s" and wet: "\<not> dr_dry_run request"
  shows "x \<in> set (to_dest request rd_relative_path (rc_directories c)) \<Longrightarrow> keeps (placing request c s) (write_directory request ds x)"
    and "y \<in> set (to_dest request rf_relative_path (rc_files c)) \<Longrightarrow> keeps (placing request c s) (write_file request fs y)"
    and "z \<in> set (to_dest request rs_relative_path (rc_symlinks c)) \<Longrightarrow> keeps (placing request c s) (write_symlink request ls z)"
proof -
  have cl: "changed (dr_destination request) {} K t t' \<Longrightarrow> K \<subseteq> new_kinds request c \<Longrightarrow> placing request c s t \<Longrightarrow> placing request c s t'"
    for K t t' using placing_step by blast
  show "keeps (placing request c s) (write_directory request ds x)"
    if mem: "x \<in> set (to_dest request rd_relative_path (rc_directories c))"
  proof -
    obtain d where x: "x = (d, at_dest request (rd_relative_path d))" and d: "d \<in> set (rc_directories c)" using mem by auto
    have "keeps (placing request c s) (create_restored_directory (at_dest request (rd_relative_path d)))"
      unfolding keeps_def
    proof (intro allI impI)
      fix t assume t: "placing request c s t"
      obtain r t' where run: "create_restored_directory (at_dest request (rd_relative_path d)) t = (r, t')" by fastforce
      have "link_free (node_at t) (at_dest request (rd_relative_path d))" by (rule placing_links(1) [OF ready t]) (use d in simp)
      moreover have "canonical (at_dest request (rd_relative_path d))"
        by (rule ready_canonical [OF ready]) (use d in \<open>simp add: entry_paths_def\<close>)
      ultimately have "changed (dr_destination request) {} {} t t'"
        using create_directory_changed [OF run changed_wf [OF t]] by simp
      then show "placing request c s (snd (create_restored_directory (at_dest request (rd_relative_path d)) t))"
        using cl t run by simp
    qed
    then show ?thesis using wet unfolding write_directory_def x by (auto intro!: keeps_andThen keeps_ret)
  qed
  show "keeps (placing request c s) (write_file request fs y)"
    if mem: "y \<in> set (to_dest request rf_relative_path (rc_files c))"
  proof -
    obtain f where y: "y = (f, at_dest request (rf_relative_path f))" and f: "f \<in> set (rc_files c)" using mem by auto
    have "keeps (placing request c s)
        (write_restored_file (at_dest request (rf_relative_path f)) (rf_contents f) (dr_overwrite request) (dr_verify request))"
      unfolding keeps_def using file_written [OF ready f] by (metis prod.collapse)
    then show ?thesis using wet unfolding write_file_def y by (auto intro!: keeps_andThen keeps_ret)
  qed
  show "keeps (placing request c s) (write_symlink request ls z)"
    if mem: "z \<in> set (to_dest request rs_relative_path (rc_symlinks c))"
  proof -
    obtain l where z: "z = (l, at_dest request (rs_relative_path l))" and l: "l \<in> set (rc_symlinks c)" using mem by auto
    have "keeps (placing request c s) (create_restored_symlink (rs_target l) (at_dest request (rs_relative_path l)))"
      unfolding keeps_def
    proof (intro allI impI)
      fix t assume t: "placing request c s t"
      obtain r t' where run: "create_restored_symlink (rs_target l) (at_dest request (rs_relative_path l)) t = (r, t')" by fastforce
      have "canonical (at_dest request (rs_relative_path l))"
        by (rule ready_canonical [OF ready]) (use l in \<open>simp add: entry_paths_def\<close>)
      then have "changed (dr_destination request) {} {(at_dest request (rs_relative_path l), IsSymlink)} t t'"
        using create_symlink_changed [OF run changed_wf [OF t] _ placing_links(2) [OF ready t l]] by simp
      then show "placing request c s (snd (create_restored_symlink (rs_target l) (at_dest request (rs_relative_path l)) t))"
        using cl t run l by (auto simp: new_kinds_def)
    qed
    then show ?thesis using wet unfolding write_symlink_def z by (auto intro!: keeps_andThen keeps_ret)
  qed
qed

lemma placing_kept:
  assumes ready: "ready request c s" and wet: "\<not> dr_dry_run request"
  shows "keeps (placing request c s) (write_prepared request c)"
proof -
  have "keeps (placing request c s) (apply_times fs ds ws)" for fs ds ws
  proof -
    have "keeps (placing request c s) (apply_restored_modified_timestamp p rel md target acc)" for p rel md target acc
      unfolding keeps_def
      using apply_time_nodes placing_step [OF _ changed_same_nodes [where K = "{}" and T = "{}"]] changed_wf
      by (metis empty_iff empty_subsetI prod.collapse)
    then show ?thesis unfolding apply_times_def by (intro keeps_andThen keeps_for_each)
  qed
  then show ?thesis
    unfolding write_prepared_def case_prod_beta
    using wet by (auto intro!: keeps_andThen keeps_for_each keeps_ret placing_kept_step [OF ready wet])
qed

lemma write_prepared_done:
  assumes ready: "ready request c s" and wet: "\<not> dr_dry_run request" and apart: "unaliased request c s"
    and run: "write_prepared request c s = (Ok res, s')"
  shows "dirs_placed request (rc_directories c) s' \<and> files_placed request (rc_files c) s' \<and>
    links_placed request (rc_symlinks c) s' \<and>
    (de_metadata_applied res = de_metadata_planned res \<longrightarrow> times_restored request c s')"
proof -
  obtain pds s1 pfs s2 pls s3 where ds: "for_each (to_dest request rd_relative_path (rc_directories c)) (write_directory request) [] s = (Ok pds, s1)"
    and fs: "for_each (to_dest request rf_relative_path (rc_files c)) (write_file request) [] s1 = (Ok pfs, s2)"
    and ls: "for_each (to_dest request rs_relative_path (rc_symlinks c)) (write_symlink request) [] s2 = (Ok pls, s3)"
    and ts: "\<exists>n ws. apply_times pfs pds (rc_metadata_warnings c) s3 = (Ok (n, ws), s') \<and> de_metadata_applied res = n \<and>
      de_metadata_planned res = length pfs + length pds"
    using run wet by (auto simp: write_prepared_def andThen_Ok_iff ret_def)
  have "placing request c s s" using ready by (intro changed_same) (simp_all add: ready_def)
  then have d: "placing request c s s1" "dirs_placed request (rc_directories c) s1" "unaliased request c s1"
      "pds = map (planned_directory request) (rc_directories c)"
    using tripleD(1) [OF directories_written [OF ready wet] _ ds] apart by blast+
  then have f: "placing request c s s2" "dirs_placed request (rc_directories c) s2" "files_placed request (rc_files c) s2"
      "pfs = map (planned_file request) (rc_files c)"
    using tripleD(1) [OF files_written [OF ready wet] _ fs] by blast+
  then have l: "placing request c s s3" "dirs_placed request (rc_directories c) s3" "files_placed request (rc_files c) s3"
      "links_placed request (rc_symlinks c) s3"
    using tripleD(1) [OF symlinks_written [OF ready wet] _ ls] by blast+
  obtain n ws where t: "apply_times pfs pds (rc_metadata_warnings c) s3 = (Ok (n, ws), s')" "de_metadata_applied res = n"
    "de_metadata_planned res = length pfs + length pds" using ts by blast
  have times: "same_nodes s3 s'" "n = length (rc_files c) + length (rc_directories c) \<longrightarrow> times_restored request c s'"
    using times_applied [OF ready l(1) t(1) [unfolded d(4) f(4)]] by auto
  then show ?thesis using l t by (auto simp: same_nodes_def dirs_placed_def files_placed_def links_placed_def file_at_def d(4) f(4)
    cong: option.case_cong fs_node.case_cong)
qed

end
