(* ===== verification/Ferry_RestoreTotal.thy ===== *)
theory Ferry_RestoreTotal
  imports Ferry_Restored
begin

text \<open>
  A restore succeeds when nothing stands in its way: the file system reports no failure, and below the
  destination every place that is needed is free.
\<close>

section \<open>Calls on a file system without failures\<close>

abbreviation (input) no_faults :: "os \<Rightarrow> bool" where
  "no_faults s \<equiv> os_fault s = (\<lambda>_. None)"

lemma syscall_quiet: "no_faults s \<Longrightarrow> syscall f s = f (s\<lparr>os_calls := Suc (os_calls s)\<rparr>)"
  by (simp add: syscall_def)

lemma put_fault [simp]: "os_fault (put_node p nd s) = os_fault s" "os_fault (new_file p s) = os_fault s"
  by (simp_all add: put_node_def new_file_def)

text \<open>The plan of failures is not part of what the calls change.\<close>

abbreviation (input) faults_are :: "(nat \<Rightarrow> (string \<times> nat) option) \<Rightarrow> os \<Rightarrow> bool" where
  "faults_are F s \<equiv> os_fault s = F"

lemma keeps_faults_call:
  "keeps (faults_are F) (os_lstat p)" "keeps (faults_are F) (os_stat p)" "keeps (faults_are F) (os_mkdir p)"
  "keeps (faults_are F) (os_create_new p)" "keeps (faults_are F) (os_create_truncate p)"
  "keeps (faults_are F) (os_write_all i bs)" "keeps (faults_are F) (os_sync_all i)" "keeps (faults_are F) (os_read p)"
  "keeps (faults_are F) (os_symlink target p)"
  unfolding keeps_def os_lstat_def os_stat_def os_mkdir_def os_create_new_def os_create_truncate_def os_write_all_def
    os_sync_all_def os_read_def os_symlink_def syscall_def Let_def
  by (auto split: option.splits sum.splits fs_node.splits)

text \<open>A directory can be made at \<open>p\<close>: whatever is on the way is a directory.\<close>

definition way :: "os \<Rightarrow> path \<Rightarrow> bool" where
  "way s p \<longleftrightarrow> (\<forall>q nd. prefix q p \<longrightarrow> node_at s q = Some nd \<longrightarrow> nd = DirNode)"

lemma way_prefix: "way s p \<Longrightarrow> prefix q p \<Longrightarrow> way s q"
  unfolding way_def by (meson prefix_order.trans)

lemma way_link_free: "way s p \<Longrightarrow> link_free (node_at s) p"
  unfolding way_def link_free_def by blast

lemma way_dirs_added: "dirs_added s s' q \<Longrightarrow> way s p \<Longrightarrow> way s' p"
  unfolding way_def by (metis dirs_addedD option.inject)

lemma resolve_way:
  assumes "\<And>q nd. prefix q (acc @ cs) \<Longrightarrow> t q = Some nd \<Longrightarrow> nd = DirNode" and "\<forall>c \<in> set cs. is_normal c"
  shows "resolve n t acc cs \<noteq> Err ENOTDIR"
  using assms
proof (induction cs arbitrary: acc)
  case (Cons c cs)
  obtain m where c: "c = Normal m" using Cons.prems(2) by (cases c) auto
  have IH: "resolve n t (acc @ [c]) cs \<noteq> Err ENOTDIR" by (rule Cons.IH) (use Cons.prems in auto)
  show ?case
  proof (cases "t (acc @ [c])")
    case None
    then show ?thesis by (simp add: c errno_defs)
  next
    case (Some nd)
    then have "nd = DirNode" by (rule Cons.prems(1) [rotated]) simp
    then show ?thesis using IH Some by (simp add: c)
  qed
qed simp

lemma locate_way:
  assumes wf: "os_wf s" and p: "canonical p" and way: "way s (butlast p)"
  obtains (found) nd where "node_at s p = Some nd" "locate (node_at s) p = Ok p"
  | (free) "node_at s p = None" "locate (node_at s) p = Ok p" "node_at s (butlast p) = Some DirNode" "p \<noteq> [RootDir]"
  | (missing) "node_at s p = None" "locate (node_at s) p = Err ENOENT" "p \<noteq> [RootDir]" "node_at s (butlast p) = None"
proof -
  have wf': "tree_wf (node_at s)" using wf by (simp add: os_wf_def)
  show ?thesis
  proof (cases rule: locate_cases [OF wf' p way_link_free [OF way]])
    case (3 e)
    have nonroot: "p \<noteq> [RootDir]" using 3(2) by auto
    then obtain q c where pc: "p = q @ [Normal c]" "canonical q" using canonical_root_or_snoc [OF p] by metis
    obtain ns where q: "q = RootDir # ns" "\<forall>c \<in> set ns. is_normal c"
      using pc(2) by (fastforce simp: canonical_def named_iff)
    have "resolve MAX_LINKS (node_at s) [RootDir] ns \<noteq> Err ENOTDIR"
      by (rule resolve_way) (use way pc q in \<open>auto simp: way_def\<close>)
    then have nr: "resolve MAX_LINKS (node_at s) [] q \<noteq> Err ENOTDIR" by (simp add: q)
    have dir: "nd = DirNode" if "node_at s q = Some nd" for nd using way that by (auto simp: way_def pc(1))
    have "e \<noteq> ENOTDIR \<and> node_at s q = None"
    proof (cases rule: resolve_cases [OF wf' pc(2), of MAX_LINKS])
      case (2 nd)
      then show ?thesis using 3(2) dir [of nd] by (auto simp: locate_def pc(1) errno_defs)
    next
      case 3
      then show ?thesis using \<open>locate (node_at s) p = Err e\<close> nr by (auto simp: locate_def pc(1) errno_defs)
    qed (use way_link_free [OF way] pc in simp)
    then show ?thesis using missing 3 nonroot by (auto simp: pc(1))
  qed (use found free in blast)+
qed

lemma quiet_mkdir:
  assumes wf: "os_wf s" and quiet: "no_faults s" and p: "canonical p" and way: "way s p"
  obtains (found) s' where "os_mkdir p s = (Err EEXIST, s')" "same_files s s'" "no_faults s'" "node_at s p = Some DirNode"
  | (made) s' where "os_mkdir p s = (Ok (), s')" "dirs_added s s' p" "node_at s' p = Some DirNode" "no_faults s'"
  | (missing) s' where "os_mkdir p s = (Err ENOENT, s')" "same_files s s'" "no_faults s'" "node_at s p = None" "node_at s (butlast p) = None"
proof -
  let ?s = "s\<lparr>os_calls := Suc (os_calls s)\<rparr>"
  have par: "way s (butlast p)" by (rule way_prefix [OF way]) (simp add: prefixeq_butlast)
  show ?thesis
  proof (cases rule: locate_way [OF wf p par])
    case (1 nd)
    moreover have "nd = DirNode" using way 1(1) by (auto simp: way_def)
    ultimately show ?thesis using found [of ?s] quiet by (simp add: os_mkdir_def syscall_quiet)
  next
    case 2
    have "os_mkdir p s = (Ok (), put_node p DirNode ?s)" using 2 quiet by (simp add: os_mkdir_def syscall_quiet)
    moreover have "same_files (put_node p DirNode s) (put_node p DirNode ?s)" by (simp add: put_node_def same_files_def)
    ultimately show ?thesis using made mkdir_added [OF wf p 2(1,3)] quiet by simp
  next
    case 3
    then show ?thesis using missing [of ?s] quiet by (simp add: os_mkdir_def syscall_quiet)
  qed
qed

lemma quiet_is_dir:
  assumes wf: "os_wf s" and quiet: "no_faults s" and p: "canonical p" "link_free (node_at s) p" and dir: "node_at s p = Some DirNode"
  shows "\<exists>s'. os_is_dir p s = (True, s') \<and> same_files s s' \<and> no_faults s'"
proof -
  have "tree_wf (node_at s)" using wf by (simp add: os_wf_def)
  then have "resolve MAX_LINKS (node_at s) [] p = Ok p"
    by (cases rule: resolve_cases [OF _ p, of MAX_LINKS]) (use dir in simp_all)
  then show ?thesis using dir quiet by (simp add: os_is_dir_def os_stat_def syscall_quiet node_type_def)
qed

lemma quiet_create_dir_all:
  assumes "os_wf s" and "no_faults s" and "canonical p" and "way s p"
  shows "\<exists>s'. os_create_dir_all p s = (Ok (), s') \<and> dirs_added s s' p \<and> node_at s' p = Some DirNode \<and> no_faults s'"
  using assms
proof (induction p arbitrary: s rule: rev_induct)
  case (snoc c d)
  let ?p = "d @ [c]"
  note wf = snoc.prems(1) and quiet = snoc.prems(2) and p = snoc.prems(3) and way = snoc.prems(4)
  show ?case
  proof (cases rule: quiet_mkdir [OF wf quiet p way])
    case (1 s1)
    obtain s2 where "os_is_dir ?p s1 = (True, s2)" "same_files s1 s2" "no_faults s2"
      using quiet_is_dir [of s1 ?p] 1 wf p way_link_free [OF way] by (auto simp: files_simps)
    then show ?thesis
      using 1 dirs_added_same [OF wf same_files_trans [OF 1(2)], of s2] by (auto simp: os_create_dir_all.simps [of ?p] errno_defs files_simps)
  next
    case (2 s1)
    then show ?thesis by (simp add: os_create_dir_all.simps [of ?p])
  next
    case (3 s1)
    have d: "d \<noteq> []" using 3(4) p wf by (cases d) (auto simp: canonical_def os_wf_def tree_wf_def)
    have nonroot: "c \<noteq> RootDir" using canonical_append [OF p d] by (auto simp: named_def)
    have s1: "os_wf s1" "dirs_added s s1 d" using dirs_added_same [OF wf 3(2)] wf 3(2) by (simp_all add: files_simps)
    have "way s1 d" using way_prefix [OF way, of d] 3(2) by (simp add: way_def files_simps)
    then obtain s2 where s2: "os_create_dir_all d s1 = (Ok (), s2)" "dirs_added s1 s2 d" "node_at s2 d = Some DirNode" "no_faults s2"
      using snoc.IH [OF s1(1) 3(3) conjunct1 [OF canonical_append [OF p d]]] by blast
    have both: "dirs_added s s2 d" by (rule dirs_added_trans [OF s1(2) s2(2)]) simp
    have wf2: "os_wf s2" using both by (simp add: dirs_added_def)
    have way2: "way s2 ?p" by (rule way_dirs_added [OF both way])
    obtain s3 where s3: "mkdir_or_dir ?p s2 = (Ok (), s3)" "no_faults s3" "dirs_added s2 s3 ?p" "node_at s3 ?p = Some DirNode"
    proof (cases rule: quiet_mkdir [OF wf2 s2(4) p way2])
      case (1 t)
      then obtain u where "os_is_dir ?p t = (True, u)" "same_files t u" "no_faults u"
        using quiet_is_dir [of t ?p] wf2 p way_link_free [OF way2] by (auto simp: files_simps)
      then show ?thesis
        using that [of u] 1 dirs_added_same [OF wf2 same_files_trans [OF 1(2)], of u] by (auto simp: mkdir_or_dir_def files_simps)
    next
      case (2 t)
      then show ?thesis using that [of t] by (simp add: mkdir_or_dir_def)
    next
      case (3 t)
      then show ?thesis using s2(3) by simp
    qed
    have "os_create_dir_all ?p s = andThen (os_create_dir_all d) (\<lambda>_. mkdir_or_dir ?p) s1"
      using 3 nonroot d by (simp add: os_create_dir_all.simps [of ?p] errno_defs path_parent_def)
    then show ?thesis using s2(1) s3 dirs_added_trans [OF both s3(3)] by (simp add: andThen_def)
  qed
qed (simp add: canonical_def)

text \<open>The places that a call changes: the path and the directories on the way to it.\<close>

definition touches :: "path \<Rightarrow> os \<Rightarrow> os \<Rightarrow> bool" where
  "touches p s s' \<longleftrightarrow> (\<forall>q. node_at s' q \<noteq> node_at s q \<longrightarrow> prefix q p)"

lemma touches_dirs: "dirs_added s s' p \<Longrightarrow> prefix p q \<Longrightarrow> touches q s s'"
  unfolding touches_def by (metis dirs_addedD prefix_order.trans)

lemma not_prefix_butlast: "p \<noteq> [] \<Longrightarrow> \<not> prefix p (butlast p)"
  by (auto dest!: prefix_length_le simp flip: length_greater_0_conv)

lemma quiet_create_parent:
  assumes "os_wf s" and "no_faults s" and "canonical p" and "p \<noteq> [RootDir]" and "way s (butlast p)"
  shows "\<exists>s'. create_parent p s = (Ok (), s') \<and> dirs_added s s' (butlast p) \<and>
    node_at s' (butlast p) = Some DirNode \<and> no_faults s'"
proof -
  obtain q c where p: "p = q @ [Normal c]" "canonical q" using canonical_root_or_snoc [OF assms(3)] assms(4) by metis
  then have "create_parent p = map_error (RestoreDestinationWrite q) (os_create_dir_all q)"
    by (simp add: create_parent_def path_parent_def)
  then show ?thesis using quiet_create_dir_all [OF assms(1,2) p(2)] assms(5) p(1) by (auto simp: map_error_def)
qed

lemma resolve_last:
  assumes "resolve n t acc cs = Ok q" and "t q = Some DirNode" and "\<And>x. t (q @ [Normal c]) \<noteq> Some (LinkNode x)"
  shows "resolve n t acc (cs @ [Normal c]) = Ok (q @ [Normal c])"
  using assms
proof (induction n t acc cs rule: resolve.induct)
  case (5 n t acc s cs)
  then show ?case
    by (auto simp: Let_def split: option.splits fs_node.splits nat.splits if_splits)
qed (auto simp: Let_def split: option.splits fs_node.splits)

definition slot :: "restore_overwrite_policy \<Rightarrow> os \<Rightarrow> path \<Rightarrow> bool" where
  "slot overwrite s p \<longleftrightarrow> node_at s p = None \<or> overwrite = OverwriteFiles \<and> (\<exists>i. node_at s p = Some (FileNode i))"

lemma quiet_open:
  assumes wf: "os_wf s" and quiet: "no_faults s" and p: "canonical p" "p \<noteq> [RootDir]" and way: "way s (butlast p)"
    and par: "node_at s (butlast p) = Some DirNode" and slot: "slot overwrite s p"
  shows "\<exists>h s'. (case overwrite of FailIfExists \<Rightarrow> os_create_new p | OverwriteFiles \<Rightarrow> os_create_truncate p) s = (Ok h, s') \<and>
    node_at s' = (node_at s)(p \<mapsto> FileNode h) \<and> no_faults s' \<and> os_wf s'"
proof -
  obtain q c where pq: "p = q @ [Normal c]" "canonical q" using canonical_root_or_snoc [OF p(1)] p(2) by metis
  have ne: "p \<noteq> []" by (simp add: pq)
  have wf': "tree_wf (node_at s)" using wf by (simp add: os_wf_def)
  let ?s = "s\<lparr>os_calls := Suc (os_calls s)\<rparr>"
  have new: "os_wf (new_file p ?s)" if "node_at s p = None"
    by (rule os_wf_new_file) (use that wf par p ne in simp_all)
  show ?thesis
  proof (cases overwrite)
    case FailIfExists
    then have none: "node_at s p = None" using slot by (simp add: slot_def)
    then have "locate (node_at s) p = Ok p"
      by (cases rule: locate_way [OF wf p(1) way]) (use par in simp_all)
    then show ?thesis using FailIfExists none quiet new by (simp add: os_create_new_def syscall_quiet)
  next
    case OverwriteFiles
    have "resolve MAX_LINKS (node_at s) [] q = Ok q"
      by (cases rule: resolve_cases [OF wf' pq(2), of MAX_LINKS]) (use way_link_free [OF way] pq par in simp_all)
    then have res: "resolve MAX_LINKS (node_at s) [] p = Ok p"
      using resolve_last [of MAX_LINKS "node_at s" "[]" q q c] par slot by (auto simp: pq slot_def)
    from slot show ?thesis
      unfolding slot_def
    proof (elim disjE conjE exE)
      assume "node_at s p = None"
      then show ?thesis using OverwriteFiles res quiet new par by (simp add: os_create_truncate_def syscall_quiet)
    next
      fix i assume "node_at s p = Some (FileNode i)"
      then show ?thesis using OverwriteFiles res quiet wf by (simp add: os_create_truncate_def syscall_quiet fun_upd_idem)
    qed
  qed
qed

lemma quiet_read:
  assumes "os_wf s" and "no_faults s" and "canonical p" and "way s (butlast p)" and "node_at s p = Some (FileNode i)"
  shows "os_read p s = (Ok (os_data s i), s\<lparr>os_calls := Suc (os_calls s)\<rparr>)"
proof -
  have "link_free (node_at s) p"
    unfolding link_free_def
  proof (intro allI impI)
    fix a x assume "prefix a p"
    then have "a = p \<or> prefix a (butlast p)" by (cases p rule: rev_cases) auto
    then show "node_at s a \<noteq> Some (LinkNode x)" using assms(4,5) by (auto simp: way_def)
  qed
  moreover have "tree_wf (node_at s)" using assms(1) by (simp add: os_wf_def)
  ultimately have "resolve MAX_LINKS (node_at s) [] p = Ok p"
    by (cases rule: resolve_cases [OF _ assms(3), of "node_at s" MAX_LINKS]) (use assms(5) in simp_all)
  then show ?thesis using assms(2,5) by (simp add: os_read_def syscall_quiet)
qed

lemma quiet_write_file:
  assumes wf: "os_wf s" and quiet: "no_faults s" and p: "canonical p" "p \<noteq> [RootDir]" and way: "way s (butlast p)"
    and slot: "slot overwrite s p"
  shows "\<exists>s'. write_restored_file p bs overwrite verify s = (Ok (), s') \<and> no_faults s' \<and> touches p s s'"
proof -
  have ne: "p \<noteq> []" using p by (auto simp: canonical_def)
  obtain s1 where s1: "create_parent p s = (Ok (), s1)" "dirs_added s s1 (butlast p)" "node_at s1 (butlast p) = Some DirNode" "no_faults s1"
    using quiet_create_parent [OF wf quiet p way] by blast
  have "\<not> prefix p (butlast p)" using ne by (rule not_prefix_butlast)
  then have at: "node_at s1 p = node_at s p" using dirs_addedD [OF s1(2), of p] by simp
  have wf1: "os_wf s1" using s1(2) by (simp add: dirs_added_def)
  have way1: "way s1 (butlast p)" by (rule way_dirs_added [OF s1(2) way])
  have slot1: "slot overwrite s1 p" using slot at by (simp add: slot_def)
  obtain h s2 where s2: "(case overwrite of FailIfExists \<Rightarrow> os_create_new p | OverwriteFiles \<Rightarrow> os_create_truncate p) s1 = (Ok h, s2)"
    "node_at s2 = (node_at s1)(p \<mapsto> FileNode h)" "no_faults s2" "os_wf s2"
    using quiet_open [OF wf1 s1(4) p way1 s1(3) slot1] by blast
  let ?s3 = "s2\<lparr>os_data := (os_data s2)(h := bs), os_calls := Suc (Suc (os_calls s2))\<rparr>"
  have way2: "way s2 (butlast p)" using way1 \<open>\<not> prefix p (butlast p)\<close> by (auto simp: way_def s2(2))
  have s3: "write_restored_file p bs overwrite verify s = (if verify then verify_restored_file p bs else ret ()) ?s3"
    using s1(1) s2(1,3) by (simp add: write_restored_file_def andThen_def map_error_def os_write_all_def os_sync_all_def syscall_def)
  have "os_read p ?s3 = (Ok bs, ?s3\<lparr>os_calls := Suc (Suc (Suc (os_calls s2)))\<rparr>)"
    using quiet_read [of ?s3 p h] s2 way2 p(1) by (simp add: way_def)
  moreover have "touches p s t" if "node_at t = node_at s2" for t
    using touches_dirs [OF s1(2) prefixeq_butlast] that s2(2) by (auto simp: touches_def)
  ultimately show ?thesis
    using s2(3) by (auto simp: s3 verify_restored_file_def andThen_def map_error_def ret_def)
qed

lemma quiet_create_directory:
  assumes "os_wf s" and "no_faults s" and "canonical p" and "way s p"
  shows "\<exists>s'. create_restored_directory p s = (Ok (), s') \<and> no_faults s' \<and> touches p s s'"
  using quiet_create_dir_all [OF assms] touches_dirs by (fastforce simp: create_restored_directory_def map_error_def)

lemma quiet_create_symlink:
  assumes wf: "os_wf s" and quiet: "no_faults s" and p: "canonical p" "p \<noteq> [RootDir]" and way: "way s (butlast p)"
    and none: "node_at s p = None"
  shows "\<exists>s'. create_restored_symlink target p s = (Ok (), s') \<and> no_faults s' \<and> touches p s s'"
proof -
  have ne: "p \<noteq> []" using p by (auto simp: canonical_def)
  obtain s1 where s1: "create_parent p s = (Ok (), s1)" "dirs_added s s1 (butlast p)" "node_at s1 (butlast p) = Some DirNode" "no_faults s1"
    using quiet_create_parent [OF wf quiet p way] by blast
  have "\<not> prefix p (butlast p)" using ne by (rule not_prefix_butlast)
  then have at: "node_at s1 p = None" using dirs_addedD [OF s1(2), of p] none by simp
  have "os_wf s1" using s1(2) by (simp add: dirs_added_def)
  then have "locate (node_at s1) p = Ok p"
    by (cases rule: locate_way [OF _ p(1) way_dirs_added [OF s1(2) way]]) (use s1(3) at in simp_all)
  then have "os_symlink target p s1 = (Ok (), put_node p (LinkNode target) (s1\<lparr>os_calls := Suc (os_calls s1)\<rparr>))"
    using s1(4) at by (simp add: os_symlink_def syscall_quiet)
  moreover have "touches p s (put_node p (LinkNode target) (s1\<lparr>os_calls := n\<rparr>))" for n
    using touches_dirs [OF s1(2) prefixeq_butlast] by (auto simp: touches_def)
  ultimately show ?thesis using s1 by (simp add: create_restored_symlink_def andThen_def map_error_def)
qed

section \<open>The checks pass\<close>

lemma quiet_lstat:
  assumes "os_wf s" and "no_faults s" and "canonical p" and "way s (butlast p)"
  shows "os_lstat p s = (ok_or ENOENT (map_option node_type (node_at s p)), s\<lparr>os_calls := Suc (os_calls s)\<rparr>)"
  by (cases rule: locate_way [OF assms(1,3,4)]) (simp_all add: os_lstat_def syscall_quiet [of s, OF assms(2)])

lemma quiet_ancestors:
  assumes "os_wf s" and "no_faults s" and "canonical (cursor @ cs)" and "way s (cursor @ cs)"
  shows "\<exists>s'. check_ancestor_links root p cursor cs s = (Ok (), s') \<and> same_files s s' \<and> no_faults s'"
  using assms
proof (induction cs arbitrary: cursor s)
  case Nil
  then show ?case by (simp add: ret_def)
next
  case (Cons c cs)
  have join: "path_join cursor [c] = cursor @ [c]"
    using Cons.prems(3) by (cases cursor) (auto simp: canonical_def named_iff path_join_def)
  have can: "canonical (cursor @ [c])" using Cons.prems(3) by (cases cursor) (auto simp: canonical_def)
  have way: "way s (butlast (cursor @ [c]))" by (rule way_prefix [OF Cons.prems(4)]) simp
  have IH: "\<exists>s'. check_ancestor_links root p (cursor @ [c]) cs t = (Ok (), s') \<and> same_files t s' \<and> no_faults s'"
    if "same_files s t" "no_faults t" for t
    by (rule Cons.IH) (use Cons.prems that in \<open>simp_all add: way_def files_simps\<close>)
  show ?case
  proof (cases "path_starts_with (cursor @ [c]) root")
    case False
    then show ?thesis using IH [of s] Cons.prems(2) by (simp add: join)
  next
    case True
    let ?t = "s\<lparr>os_calls := Suc (os_calls s)\<rparr>"
    have stat: "os_lstat (cursor @ [c]) s = (ok_or ENOENT (map_option node_type (node_at s (cursor @ [c]))), ?t)"
      by (rule quiet_lstat [OF Cons.prems(1,2) can way])
    show ?thesis
    proof (cases "node_at s (cursor @ [c])")
      case None
      then show ?thesis using True stat Cons.prems(2) by (simp add: join outcome_of_def andThen_def errno_defs ret_def Let_def)
    next
      case (Some nd)
      moreover have "way s (cursor @ [c])" by (rule way_prefix [OF Cons.prems(4)]) simp
      ultimately have "nd = DirNode" by (simp add: way_def)
      then show ?thesis
        using True stat Some IH [of ?t] Cons.prems(2) by (simp add: join outcome_of_def andThen_def node_type_def Let_def)
    qed
  qed
qed

lemma quiet_no_links:
  assumes wf: "os_wf s" and quiet: "no_faults s" and p: "canonical p" and way: "way s (butlast p)"
  shows "p \<noteq> [RootDir] \<Longrightarrow> \<exists>s'. ensure_no_symlink_ancestor root p s = (Ok (), s') \<and> same_files s s' \<and> no_faults s'"
proof -
  assume "p \<noteq> [RootDir]"
  then obtain q c where pq: "p = q @ [Normal c]" "canonical q" using canonical_root_or_snoc [OF p] by metis
  then show ?thesis
    using quiet_ancestors [OF wf quiet, of "[]" q root p] way by (simp add: ensure_no_symlink_ancestor_def pq)
qed

lemma quiet_checked:
  assumes wf: "os_wf s" and quiet: "no_faults s" and p: "canonical p" "p \<noteq> [RootDir]" and way: "way s (butlast p)"
  shows "node_at s p = None \<or> node_at s p = Some DirNode \<Longrightarrow>
      \<exists>s'. ensure_restore_directory_destination_safe root p s = (Ok (), s') \<and> same_files s s' \<and> no_faults s'"
    and "slot overwrite s p \<Longrightarrow>
      \<exists>s'. ensure_restore_destination_safe root p overwrite s = (Ok (), s') \<and> same_files s s' \<and> no_faults s'"
    and "node_at s p = None \<Longrightarrow>
      \<exists>s'. ensure_restore_symlink_destination_safe root p s = (Ok (), s') \<and> same_files s s' \<and> no_faults s'"
proof -
  obtain s1 where s1: "ensure_no_symlink_ancestor root p s = (Ok (), s1)" "same_files s s1" "no_faults s1"
    using quiet_no_links [OF wf quiet p(1) way p(2)] by blast
  have stat: "os_lstat p s1 = (ok_or ENOENT (map_option node_type (node_at s p)), s1\<lparr>os_calls := Suc (os_calls s1)\<rparr>)"
    using quiet_lstat [of s1 p] s1 wf p way by (simp add: way_def files_simps)
  note defs = andThen_def outcome_of_def stat s1 errno_defs node_type_def
  show "\<exists>s'. ensure_restore_directory_destination_safe root p s = (Ok (), s') \<and> same_files s s' \<and> no_faults s'"
    if "node_at s p = None \<or> node_at s p = Some DirNode"
    using that by (auto simp: ensure_restore_directory_destination_safe_def defs)
  show "\<exists>s'. ensure_restore_destination_safe root p overwrite s = (Ok (), s') \<and> same_files s s' \<and> no_faults s'"
    if "slot overwrite s p"
    using that by (auto simp: ensure_restore_destination_safe_def defs slot_def)
  show "\<exists>s'. ensure_restore_symlink_destination_safe root p s = (Ok (), s') \<and> same_files s s' \<and> no_faults s'"
    if "node_at s p = None"
    using that by (auto simp: ensure_restore_symlink_destination_safe_def defs)
qed

section \<open>Room for the contents\<close>

text \<open>Every place is free, or holds what may be used or replaced.\<close>

definition room :: "restore_destination_request \<Rightarrow> restore_content_result \<Rightarrow> os \<Rightarrow> bool" where
  "room request c s \<longleftrightarrow> dr_destination request \<noteq> [RootDir] \<and> way s (dr_destination request) \<and>
     (\<forall>d \<in> set (rc_directories c). way s (at_dest request (rd_relative_path d))) \<and>
     (\<forall>p \<in> set (leaf_paths c). way s (butlast (at_dest request p))) \<and>
     (\<forall>f \<in> set (rc_files c). slot (dr_overwrite request) s (at_dest request (rf_relative_path f))) \<and>
     (\<forall>l \<in> set (rc_symlinks c). node_at s (at_dest request (rs_relative_path l)) = None)"

lemma room_same: "room request c s \<Longrightarrow> same_files s t \<Longrightarrow> room request c t"
  by (simp add: room_def way_def slot_def files_simps)

lemma not_root: "canonical d \<Longrightarrow> d \<noteq> [RootDir] \<Longrightarrow> d @ q \<noteq> [RootDir]"
  by (cases d) (auto simp: canonical_def)

lemma quiet_prepared:
  assumes ok: "destination_ok s (dr_destination request)" and wf: "contents_wf c" and room: "room request c s"
    and now: "same_files s t" "no_faults t"
  shows "\<exists>y t'. for_each (rc_directories c) (prepare_directory request) [] t = (Ok y, t') \<and> same_files s t' \<and> no_faults t'"
    and "\<exists>y t'. for_each (rc_files c) (prepare_file request) [] t = (Ok y, t') \<and> same_files s t' \<and> no_faults t'"
    and "\<exists>y t'. for_each (rc_symlinks c) (prepare_symlink request) [] t = (Ok y, t') \<and> same_files s t' \<and> no_faults t'"
proof -
  let ?I = "\<lambda>t. same_files s t \<and> no_faults t"
  have entry: "safe_destination_path (dr_destination request) q = Ok (at_dest request q)" "canonical (at_dest request q)"
      "at_dest request q \<noteq> [RootDir]" if "q \<in> set (entry_paths c)" for q
    using wf that ok room safe_destination_named canonical_destination not_root
    by (auto simp: contents_wf_def destination_ok_def room_def)
  have up: "way t (butlast p)" if "way t p" for t p by (rule way_prefix [OF that]) (simp add: prefixeq_butlast)
  have at: "os_wf t \<and> room request c t" if "?I t" for t
    using that ok room_same [OF room] same_filesD(5) [of s t] by (simp add: destination_ok_def)
  show "\<exists>y t'. for_each (rc_directories c) (prepare_directory request) [] t = (Ok y, t') \<and> ?I t'"
  proof (rule for_each_total [where I = "\<lambda>_. ?I"])
    show "?I t" using now by simp
    fix past d acc t assume "prefix (past @ [d]) ([] @ rc_directories c)" and t: "?I t"
    then have d: "d \<in> set (rc_directories c)" by (auto dest: set_mono_prefix)
    let ?p = "at_dest request (rd_relative_path d)"
    note e = entry [of "rd_relative_path d"]
    have way: "way t ?p" using at [OF t] d by (simp add: room_def)
    have "node_at t ?p = None \<or> node_at t ?p = Some DirNode" using way by (cases "node_at t ?p") (auto simp: way_def)
    then obtain t' where "ensure_restore_directory_destination_safe (dr_destination request) ?p t = (Ok (), t')"
        "same_files t t'" "no_faults t'"
      using quiet_checked(1) [of t ?p "dr_destination request"] at [OF t] t up [OF way] e d by (auto simp: entry_paths_def)
    then show "\<exists>y t'. prepare_directory request acc d t = (Ok y, t') \<and> ?I t'"
      using t same_files_trans [of s t t'] e d by (auto simp: prepare_directory_def andThen_def entry_paths_def ret_def)
  qed
  show "\<exists>y t'. for_each (rc_files c) (prepare_file request) [] t = (Ok y, t') \<and> ?I t'"
  proof (rule for_each_total [where I = "\<lambda>_. ?I"])
    show "?I t" using now by simp
    fix past f acc t assume "prefix (past @ [f]) ([] @ rc_files c)" and t: "?I t"
    then have f: "f \<in> set (rc_files c)" by (auto dest: set_mono_prefix)
    let ?p = "at_dest request (rf_relative_path f)"
    note e = entry [of "rf_relative_path f"]
    have "way t (butlast ?p)" "slot (dr_overwrite request) t ?p" using at [OF t] f by (auto simp: room_def leaf_paths_def)
    then obtain t' where "ensure_restore_destination_safe (dr_destination request) ?p (dr_overwrite request) t = (Ok (), t')"
        "same_files t t'" "no_faults t'"
      using quiet_checked(2) [of t ?p] at [OF t] t e f by (fastforce simp: entry_paths_def)
    then show "\<exists>y t'. prepare_file request acc f t = (Ok y, t') \<and> ?I t'"
      using t same_files_trans [of s t t'] e f by (auto simp: prepare_file_def andThen_def entry_paths_def ret_def)
  qed
  show "\<exists>y t'. for_each (rc_symlinks c) (prepare_symlink request) [] t = (Ok y, t') \<and> ?I t'"
  proof (rule for_each_total [where I = "\<lambda>_. ?I"])
    show "?I t" using now by simp
    fix past l acc t assume "prefix (past @ [l]) ([] @ rc_symlinks c)" and t: "?I t"
    then have l: "l \<in> set (rc_symlinks c)" by (auto dest: set_mono_prefix)
    let ?p = "at_dest request (rs_relative_path l)"
    note e = entry [of "rs_relative_path l"]
    have "way t (butlast ?p)" "node_at t ?p = None" using at [OF t] l by (auto simp: room_def leaf_paths_def)
    then obtain t' where "ensure_restore_symlink_destination_safe (dr_destination request) ?p t = (Ok (), t')"
        "same_files t t'" "no_faults t'"
      using quiet_checked(3) [of t ?p] at [OF t] t e l by (fastforce simp: entry_paths_def)
    then show "\<exists>y t'. prepare_symlink request acc l t = (Ok y, t') \<and> ?I t'"
      using t same_files_trans [of s t t'] e l by (auto simp: prepare_symlink_def andThen_def entry_paths_def ret_def)
  qed
qed

section \<open>The writing succeeds\<close>

text \<open>The places of the files and links that are not written yet are as they were.\<close>

definition fresh :: "restore_destination_request \<Rightarrow> restore_content_result \<Rightarrow> os \<Rightarrow> path set \<Rightarrow> os \<Rightarrow> bool" where
  "fresh request c s past t \<longleftrightarrow> placing request c s t \<and> no_faults t \<and>
     (\<forall>f \<in> set (leaf_paths c). f \<notin> past \<longrightarrow> node_at t (at_dest request f) = node_at s (at_dest request f))"

lemma fresh_step:
  assumes "fresh request c s past t" and "contents_wf c" and "placing request c s t'" and "no_faults t'"
    and "touches (at_dest request p) t t'" and "p \<in> set (entry_paths c)" and "p \<in> set (leaf_paths c) \<Longrightarrow> p \<in> past'"
    and "past \<subseteq> past'"
  shows "fresh request c s past' t'"
proof -
  have "node_at t' (at_dest request f) = node_at t (at_dest request f)" if f: "f \<in> set (leaf_paths c)" "f \<notin> past'" for f
  proof -
    have "\<not> strict_prefix f p" using assms(2,6) f(1) by (simp add: contents_wf_def)
    moreover have "f \<noteq> p" using assms(7) f by blast
    ultimately show ?thesis using assms(5) by (auto simp: touches_def strict_prefix_def)
  qed
  then show ?thesis using assms(1,3,4,8) by (auto simp: fresh_def)
qed

lemma fresh_way:
  assumes now: "placing request c s t" and way: "way s (at_dest request q)" and none: "\<forall>f \<in> set (leaf_paths c). \<not> prefix f q"
  shows "way t (at_dest request q)"
  unfolding way_def
proof (intro allI impI)
  fix p nd assume p: "prefix p (at_dest request q)" and nd: "node_at t p = Some nd"
  show "nd = DirNode"
  proof (cases "node_at s p = Some nd")
    case True
    then show ?thesis using way p by (simp add: way_def)
  next
    case False
    then have "nd \<noteq> DirNode \<longrightarrow> (p, node_type nd) \<in> new_kinds request c" using changed_new [OF now nd] by blast
    moreover have "p \<noteq> at_dest request f" if "f \<in> set (leaf_paths c)" for f using none that p by auto
    ultimately show ?thesis by (auto simp: new_kinds_def leaf_paths_def)
  qed
qed

lemma directory_not_below:
  assumes "contents_wf c" and "d \<in> set (rc_directories c)" and "f \<in> set (leaf_paths c)"
  shows "\<not> prefix f (rd_relative_path d)"
proof -
  have d: "rd_relative_path d \<in> set (map rd_relative_path (rc_directories c))" using assms(2) by simp
  have "set (map rd_relative_path (rc_directories c)) \<inter> set (leaf_paths c) = {}"
    using assms(1) unfolding contents_wf_def entry_paths_def leaf_paths_def distinct_append set_append by blast
  then have "rd_relative_path d \<noteq> f" using d assms(3) by blast
  moreover have "rd_relative_path d \<in> set (entry_paths c)" using d by (simp add: entry_paths_def)
  ultimately show ?thesis using assms(1,3) by (auto simp: contents_wf_def strict_prefix_def)
qed

lemma leaf_not_below:
  assumes "contents_wf c" and "p \<in> set (leaf_paths c)" and "f \<in> set (leaf_paths c)"
  shows "\<not> prefix f (butlast p)"
proof
  assume f: "prefix f (butlast p)"
  have p: "p \<noteq> []" "p \<in> set (entry_paths c)" using assms leaf_entry by (auto simp: contents_wf_def)
  then have "strict_prefix f p" using f by (cases p rule: rev_cases) (auto simp: strict_prefix_def prefix_def)
  then show False using assms(1,3) p(2) by (simp add: contents_wf_def)
qed

lemma fresh_leaf_way:
  assumes "fresh request c s past t" and "contents_wf c" and "room request c s" and "p \<in> set (leaf_paths c)"
  shows "way t (butlast (at_dest request p))"
proof -
  have "p \<noteq> []" using assms(2,4) by (simp add: contents_wf_def)
  then have eq: "butlast (at_dest request p) = at_dest request (butlast p)" by (simp add: butlast_append)
  have "way s (butlast (at_dest request p))" using assms(3,4) unfolding room_def by blast
  then have "way s (at_dest request (butlast p))" by (simp only: eq)
  then show ?thesis
    unfolding eq by (rule fresh_way [rotated]) (use assms leaf_not_below in \<open>auto simp: fresh_def\<close>)
qed

lemma leaf_fresh_slot:
  assumes "fresh request c s past t" and "p \<in> set (leaf_paths c)" and "p \<notin> past"
  shows "slot overwrite t (at_dest request p) \<longleftrightarrow> slot overwrite s (at_dest request p)"
    and "node_at t (at_dest request p) = node_at s (at_dest request p)"
  using assms by (auto simp: fresh_def slot_def)

lemma room_nonroot: "ready request c s \<Longrightarrow> room request c s \<Longrightarrow> at_dest request q \<noteq> [RootDir]"
  using not_root by (simp add: ready_def room_def)

lemma directories_total:
  assumes ready: "ready request c s" and room: "room request c s" and wet: "\<not> dr_dry_run request"
    and start: "fresh request c s {} t"
  shows "\<exists>y t'. for_each (to_dest request rd_relative_path (rc_directories c)) (write_directory request) [] t = (Ok y, t') \<and>
      fresh request c s {} t'"
proof (rule for_each_total [where I = "\<lambda>_. fresh request c s {}"])
  have wf: "contents_wf c" using ready by (simp add: ready_def)
  fix past x acc t
  assume "prefix (past @ [x]) ([] @ to_dest request rd_relative_path (rc_directories c))" and t: "fresh request c s {} t"
  then have mem: "x \<in> set (to_dest request rd_relative_path (rc_directories c))" by (auto dest: set_mono_prefix)
  then obtain d where x: "x = (d, at_dest request (rd_relative_path d))" and d: "d \<in> set (rc_directories c)" by auto
  let ?p = "at_dest request (rd_relative_path d)"
  have pl: "placing request c s t" "no_faults t" using t by (simp_all add: fresh_def)
  have entry: "rd_relative_path d \<in> set (entry_paths c)" using d by (simp add: entry_paths_def)
  have "way s ?p" using room d by (simp add: room_def)
  then have "way t ?p" by (rule fresh_way [OF pl(1)]) (use directory_not_below [OF wf d] in blast)
  then obtain t' where t': "create_restored_directory ?p t = (Ok (), t')" "no_faults t'" "touches ?p t t'"
    using quiet_create_directory [OF changed_wf [OF pl(1)] pl(2) ready_canonical [OF ready entry]] by blast
  then have run: "\<exists>y. write_directory request acc x t = (Ok y, t')" using wet by (simp add: write_directory_def x andThen_def ret_def)
  then have "placing request c s t'" using keepsD [OF placing_kept_step(1) [OF ready wet mem] pl(1)] by blast
  then have "fresh request c s {} t'"
    by (rule fresh_step [OF t wf _ t'(2,3) entry]) (use directory_not_below [OF wf d] in auto)
  then show "\<exists>y t'. write_directory request acc x t = (Ok y, t') \<and> fresh request c s {} t'" using run by blast
qed (rule start)

lemma leaves_total:
  assumes ready: "ready request c s"
  shows "prefix (past @ [x]) (to_dest request rf_relative_path (rc_files c)) \<Longrightarrow>
      rf_relative_path (fst x) \<notin> (\<lambda>y. rf_relative_path (fst y)) ` set past"
    and "prefix (past' @ [z]) (to_dest request rs_relative_path (rc_symlinks c)) \<Longrightarrow>
      rs_relative_path (fst z) \<notin> rf_relative_path ` set (rc_files c) \<union> (\<lambda>y. rs_relative_path (fst y)) ` set past'"
proof -
  have dist: "distinct (map rf_relative_path (rc_files c))" "distinct (map rs_relative_path (rc_symlinks c))"
    "set (map rf_relative_path (rc_files c)) \<inter> set (map rs_relative_path (rc_symlinks c)) = {}"
    using ready unfolding ready_def contents_wf_def entry_paths_def distinct_append set_append by blast+
  show "rf_relative_path (fst x) \<notin> (\<lambda>y. rf_relative_path (fst y)) ` set past"
    if pre: "prefix (past @ [x]) (to_dest request rf_relative_path (rc_files c))"
  proof -
    obtain rest where "to_dest request rf_relative_path (rc_files c) = past @ x # rest" using pre unfolding prefix_def append_assoc append_Cons append_Nil by blast
    then have "map rf_relative_path (rc_files c) = map (\<lambda>y. rf_relative_path (fst y)) (past @ x # rest)"
      by (metis (no_types, lifting) fst_conv list.map_comp map_eq_conv comp_apply)
    then show ?thesis using dist(1) by auto
  qed
  show "rs_relative_path (fst z) \<notin> rf_relative_path ` set (rc_files c) \<union> (\<lambda>y. rs_relative_path (fst y)) ` set past'"
    if pre: "prefix (past' @ [z]) (to_dest request rs_relative_path (rc_symlinks c))"
  proof -
    obtain rest where "to_dest request rs_relative_path (rc_symlinks c) = past' @ z # rest" using pre unfolding prefix_def append_assoc append_Cons append_Nil by blast
    then have eq: "map rs_relative_path (rc_symlinks c) = map (\<lambda>y. rs_relative_path (fst y)) (past' @ z # rest)"
      by (metis (no_types, lifting) fst_conv list.map_comp map_eq_conv comp_apply)
    then have "rs_relative_path (fst z) \<in> set (map rs_relative_path (rc_symlinks c))" by simp
    then show ?thesis using dist(2,3) unfolding eq by auto
  qed
qed

lemma files_total:
  assumes ready: "ready request c s" and room: "room request c s" and wet: "\<not> dr_dry_run request"
    and start: "fresh request c s {} t"
  shows "\<exists>y t'. for_each (to_dest request rf_relative_path (rc_files c)) (write_file request) [] t = (Ok y, t') \<and>
      fresh request c s (rf_relative_path ` set (rc_files c)) t'"
proof -
  have wf: "contents_wf c" using ready by (simp add: ready_def)
  let ?I = "\<lambda>past. fresh request c s ((\<lambda>y. rf_relative_path (fst y)) ` set past)"
  have "\<exists>y t'. for_each (to_dest request rf_relative_path (rc_files c)) (write_file request) [] t = (Ok y, t') \<and>
      ?I ([] @ to_dest request rf_relative_path (rc_files c)) t'"
  proof (rule for_each_total [where I = ?I])
    fix past x acc t
    assume pre: "prefix (past @ [x]) ([] @ to_dest request rf_relative_path (rc_files c))" and t: "?I past t"
    have mem: "x \<in> set (to_dest request rf_relative_path (rc_files c))" using set_mono_prefix [OF pre] by auto
    then obtain f where x: "x = (f, at_dest request (rf_relative_path f))" and f: "f \<in> set (rc_files c)" by auto
    let ?p = "at_dest request (rf_relative_path f)"
    have leaf: "rf_relative_path f \<in> set (leaf_paths c)" using f by (simp add: leaf_paths_def)
    have new: "rf_relative_path f \<notin> (\<lambda>y. rf_relative_path (fst y)) ` set past"
      using leaves_total(1) [OF ready, of past x] pre by (simp add: x)
    have pl: "placing request c s t" "no_faults t" using t by (simp_all add: fresh_def)
    have slot: "slot (dr_overwrite request) t ?p"
      unfolding leaf_fresh_slot(1) [OF t leaf new] using room f by (simp add: room_def)
    obtain t' where t': "write_restored_file ?p (rf_contents f) (dr_overwrite request) (dr_verify request) t = (Ok (), t')"
        "no_faults t'" "touches ?p t t'"
      using quiet_write_file [OF changed_wf [OF pl(1)] pl(2) ready_canonical [OF ready leaf_entry [OF leaf]]
          room_nonroot [OF ready room] fresh_leaf_way [OF t wf room leaf] slot] by blast
    then have run: "\<exists>y. write_file request acc x t = (Ok y, t')" using wet by (simp add: write_file_def x andThen_def ret_def)
    then have "placing request c s t'" using keepsD [OF placing_kept_step(2) [OF ready wet mem] pl(1)] by blast
    then have "?I (past @ [x]) t'"
      by (rule fresh_step [OF t wf _ t'(2,3) leaf_entry [OF leaf]]) (auto simp: x)
    then show "\<exists>y t'. write_file request acc x t = (Ok y, t') \<and> ?I (past @ [x]) t'" using run by blast
  qed (use start in simp)
  then show ?thesis by (simp add: image_image)
qed

lemma symlinks_total:
  assumes ready: "ready request c s" and room: "room request c s" and wet: "\<not> dr_dry_run request"
    and start: "fresh request c s (rf_relative_path ` set (rc_files c)) t"
  shows "\<exists>y t'. for_each (to_dest request rs_relative_path (rc_symlinks c)) (write_symlink request) [] t = (Ok y, t')"
proof -
  have wf: "contents_wf c" using ready by (simp add: ready_def)
  let ?I = "\<lambda>past. fresh request c s (rf_relative_path ` set (rc_files c) \<union> (\<lambda>y. rs_relative_path (fst y)) ` set past)"
  have "\<exists>y t'. for_each (to_dest request rs_relative_path (rc_symlinks c)) (write_symlink request) [] t = (Ok y, t') \<and>
      ?I ([] @ to_dest request rs_relative_path (rc_symlinks c)) t'"
  proof (rule for_each_total [where I = ?I])
    fix past x acc t
    assume pre: "prefix (past @ [x]) ([] @ to_dest request rs_relative_path (rc_symlinks c))" and t: "?I past t"
    have mem: "x \<in> set (to_dest request rs_relative_path (rc_symlinks c))" using set_mono_prefix [OF pre] by auto
    then obtain l where x: "x = (l, at_dest request (rs_relative_path l))" and l: "l \<in> set (rc_symlinks c)" by auto
    let ?p = "at_dest request (rs_relative_path l)"
    have leaf: "rs_relative_path l \<in> set (leaf_paths c)" using l by (simp add: leaf_paths_def)
    have new: "rs_relative_path l \<notin> rf_relative_path ` set (rc_files c) \<union> (\<lambda>y. rs_relative_path (fst y)) ` set past"
      using leaves_total(2) [OF ready, of past x] pre by (simp add: x)
    have pl: "placing request c s t" "no_faults t" using t by (simp_all add: fresh_def)
    have none: "node_at t ?p = None"
      unfolding leaf_fresh_slot(2) [OF t leaf new] using room l by (simp add: room_def)
    obtain t' where t': "create_restored_symlink (rs_target l) ?p t = (Ok (), t')" "no_faults t'" "touches ?p t t'"
      using quiet_create_symlink [OF changed_wf [OF pl(1)] pl(2) ready_canonical [OF ready leaf_entry [OF leaf]]
          room_nonroot [OF ready room] fresh_leaf_way [OF t wf room leaf] none] by blast
    then have run: "\<exists>y. write_symlink request acc x t = (Ok y, t')" using wet by (simp add: write_symlink_def x andThen_def ret_def)
    then have "placing request c s t'" using keepsD [OF placing_kept_step(3) [OF ready wet mem] pl(1)] by blast
    then have "?I (past @ [x]) t'"
      by (rule fresh_step [OF t wf _ t'(2,3) leaf_entry [OF leaf]]) (auto simp: x)
    then show "\<exists>y t'. write_symlink request acc x t = (Ok y, t') \<and> ?I (past @ [x]) t'" using run by blast
  qed (use start in simp)
  then show ?thesis by blast
qed

lemma dry_phases_total:
  assumes dry: "dr_dry_run request"
  shows "\<exists>y. for_each xs (write_directory request) [] t = (Ok y, t)"
    and "\<exists>y. for_each ys (write_file request) [] t = (Ok y, t)"
    and "\<exists>y. for_each zs (write_symlink request) [] t = (Ok y, t)"
  using for_each_total [where I = "\<lambda>_ w. w = t" and past = "[]" and w = t and f = "write_directory request" and xs = xs and acc = "[]"]
    for_each_total [where I = "\<lambda>_ w. w = t" and past = "[]" and w = t and f = "write_file request" and xs = ys and acc = "[]"]
    for_each_total [where I = "\<lambda>_ w. w = t" and past = "[]" and w = t and f = "write_symlink request" and xs = zs and acc = "[]"] dry
  by (simp_all add: write_directory_def write_file_def write_symlink_def split_beta andThen_def ret_def)

lemma apply_times_total: "\<exists>n ws t'. apply_times fs ds warnings t = (Ok (n, ws), t')"
proof -
  have one: "\<exists>y t'. apply_restored_modified_timestamp p rel md target acc t = (Ok y, t') \<and> True" for p rel md target acc t
    by (auto simp: apply_restored_modified_timestamp_def andThen_def outcome_of_def ret_def split: prod.splits option.splits)
  have loop: "\<exists>y t'. for_each xs (\<lambda>acc x. apply_restored_modified_timestamp (p x) (rel x) (md x) target acc) acc t = (Ok y, t') \<and> True"
    for xs :: "'b list" and p rel md target acc t
    by (rule for_each_total [where I = "\<lambda>_ _. True"]) (use one in auto)
  obtain a t1 where "for_each fs (\<lambda>acc f. apply_restored_modified_timestamp (df_destination_path f)
      (df_relative_path f) (df_modified f) TargetFile acc) (0, warnings) t = (Ok a, t1)" using loop by blast
  moreover obtain b t2 where "for_each ds (\<lambda>acc d. apply_restored_modified_timestamp (dd_destination_path d)
      (dd_relative_path d) (dd_modified d) TargetDirectory acc) a t1 = (Ok b, t2)" using loop by blast
  ultimately show ?thesis by (cases b) (simp add: apply_times_def andThen_def)
qed

lemma write_prepared_total:
  assumes ready: "ready request c s" and room: "room request c s" and quiet: "no_faults s"
  shows "\<exists>res s'. write_prepared request c s = (Ok res, s')"
proof -
  let ?ds = "to_dest request rd_relative_path (rc_directories c)" and ?fs = "to_dest request rf_relative_path (rc_files c)"
    and ?ls = "to_dest request rs_relative_path (rc_symlinks c)"
  have "\<exists>ds t1 fs t2 ls t3. for_each ?ds (write_directory request) [] s = (Ok ds, t1) \<and>
    for_each ?fs (write_file request) [] t1 = (Ok fs, t2) \<and> for_each ?ls (write_symlink request) [] t2 = (Ok ls, t3)"
  proof (cases "dr_dry_run request")
    case True
    obtain ds where "for_each ?ds (write_directory request) [] s = (Ok ds, s)" using dry_phases_total(1) [OF True] by blast
    moreover obtain fs where "for_each ?fs (write_file request) [] s = (Ok fs, s)" using dry_phases_total(2) [OF True] by blast
    moreover obtain ls where "for_each ?ls (write_symlink request) [] s = (Ok ls, s)" using dry_phases_total(3) [OF True] by blast
    ultimately show ?thesis by blast
  next
    case wet: False
    have "placing request c s s" using ready by (intro changed_same) (simp_all add: ready_def)
    then have "fresh request c s {} s" using quiet by (simp add: fresh_def)
    then show ?thesis
      using directories_total [OF ready room wet] files_total [OF ready room wet] symlinks_total [OF ready room wet] by blast
  qed
  then obtain ds t1 fs t2 ls t3 where run: "for_each ?ds (write_directory request) [] s = (Ok ds, t1)"
    "for_each ?fs (write_file request) [] t1 = (Ok fs, t2)" "for_each ?ls (write_symlink request) [] t2 = (Ok ls, t3)" by blast
  obtain n ws t4 where "apply_times fs ds (rc_metadata_warnings c) t3 = (Ok (n, ws), t4)" using apply_times_total by blast
  then show ?thesis using run by (simp add: write_prepared_def andThen_def ret_def)
qed

lemma place_contents_total:
  assumes ok: "destination_ok s (dr_destination request)" and wf: "contents_wf c" and room: "room request c s" and quiet: "no_faults s"
  shows "\<exists>res s'. place_contents request c s = (Ok res, s')"
proof -
  have names: "\<forall>d \<in> set (rc_directories c). named_path (rd_relative_path d)" "\<forall>f \<in> set (rc_files c). named_path (rf_relative_path f)"
    "\<forall>l \<in> set (rc_symlinks c). named_path (rs_relative_path l)"
    using wf by (auto simp: contents_wf_def entry_paths_def)
  obtain ds s1 where ds: "for_each (rc_directories c) (prepare_directory request) [] s = (Ok ds, s1)" "same_files s s1" "no_faults s1"
    using quiet_prepared(1) [OF ok wf room same_files_refl quiet] by blast
  obtain fs s2 where fs: "for_each (rc_files c) (prepare_file request) [] s1 = (Ok fs, s2)" "same_files s s2" "no_faults s2"
    using quiet_prepared(2) [OF ok wf room ds(2,3)] by blast
  obtain ls s3 where ls: "for_each (rc_symlinks c) (prepare_symlink request) [] s2 = (Ok ls, s3)" "same_files s s3" "no_faults s3"
    using quiet_prepared(3) [OF ok wf room fs(2,3)] by blast
  note pd = prepared_directories [OF ds(1) ok names(1)]
  note pf = prepared_files [OF fs(1) _ names(2), unfolded destination_same [OF ds(2)], OF ok]
  note pl = prepared_symlinks [OF ls(1) _ names(3), unfolded destination_same [OF fs(2)], OF ok]
  have "ready request c s"
    using ok wf pd pf pl unfolding ready_def destination_ok_def same_filesD [OF ds(2)] same_filesD [OF fs(2)]
    by (auto simp: entry_paths_def)
  then have "\<exists>res s'. write_prepared request c s3 = (Ok res, s')"
    by (rule write_prepared_total [OF ready_same [OF _ ls(2)] room_same [OF room ls(2)] ls(3)])
  moreover have "place_contents request c s = write_prepared request c s3"
    using ds(1) fs(1) ls(1) pd pf pl by (simp add: place_contents_def write_prepared_def andThen_def)
  ultimately show ?thesis by simp
qed

end
