(* ===== verification/Ferry_Destination.thy ===== *)
theory Ferry_Destination
  imports Ferry_RestoreTotal Ferry_History
begin

text \<open>
  The whole restore onto a file system: what the manifest gives about the entries, and the claims about
  \<open>restore_snapshot_to_destination\<close> on every outcome.
\<close>

section \<open>The entries of a restored snapshot\<close>

text \<open>A decoded manifest holds paths, that is, their names are names of files.\<close>

definition decodes_paths :: "library \<Rightarrow> bool" where
  "decodes_paths L \<longleftrightarrow> (\<forall>b m. from_slice (manifest_codec L) b = Ok m \<longrightarrow>
     (\<forall>e \<in> set (mb_entries (sm_body m)). path_wf (me_relative_path e)))"

lemma named_entry: "path_wf p \<Longrightarrow> \<forall>c \<in> set p. is_normal c \<Longrightarrow> named_path p"
proof -
  assume wf: "path_wf p" and normal: "\<forall>c \<in> set p. is_normal c"
  have "named c" if c: "c \<in> set p" for c
  proof -
    obtain n where "c = Normal n" using normal c by (cases c) auto
    then show ?thesis using wf c by (auto simp: named_iff path_wf_def)
  qed
  then show "named_path p" by (simp add: named_path_def)
qed

definition link_captured :: "manifest_entry \<Rightarrow> bool" where
  "link_captured e \<longleftrightarrow> entry_kind (me_metadata e) = Symlink \<and> (\<exists>t. symlink_target (me_metadata e) = Captured t)"

definition from_entries :: "manifest_entry list \<Rightarrow> restore_content_result \<Rightarrow> bool" where
  "from_entries es c \<longleftrightarrow>
     map rd_relative_path (rc_directories c) = map me_relative_path (filter (\<lambda>e. entry_kind (me_metadata e) = Directory) es) \<and>
     map rf_relative_path (rc_files c) = map me_relative_path (filter (\<lambda>e. entry_kind (me_metadata e) = RegularFile) es) \<and>
     map rs_relative_path (rc_symlinks c) = map me_relative_path (filter link_captured es)"

lemma from_entries_step:
  assumes "from_entries past acc" and "restore_entry L c store master key sid idx acc e w = (Ok acc', w')"
  shows "from_entries (past @ [e]) acc'"
  using assms
  by (cases "entry_kind (me_metadata e)"; cases "symlink_target (me_metadata e)")
    (auto simp: restore_entry_def from_entries_def link_captured_def Let_def andThen_Ok_iff ret_def)

lemma from_entries_loop:
  assumes "for_each es (restore_entry L c store master key sid idx) acc w = (Ok rc, w')" and "from_entries past acc"
  shows "from_entries (past @ es) rc"
  using assms
proof (induction es arbitrary: past acc w)
  case Nil
  then show ?case by (simp add: ret_def)
next
  case (Cons e es)
  obtain acc1 w1 where step: "restore_entry L c store master key sid idx acc e w = (Ok acc1, w1)"
    and rest: "for_each es (restore_entry L c store master key sid idx) acc1 w1 = (Ok rc, w')"
    using Cons.prems(1) by (auto simp: andThen_Ok_iff)
  show ?case using Cons.IH [OF rest from_entries_step [OF Cons.prems(2) step]] by simp
qed

lemma distinct_filter_append:
  assumes "distinct (map f xs)" and "\<And>x. x \<in> set xs \<Longrightarrow> \<not> (P x \<and> Q x) \<and> \<not> (P x \<and> R x) \<and> \<not> (Q x \<and> R x)"
  shows "distinct (map f (filter P xs) @ map f (filter Q xs) @ map f (filter R xs))"
  using assms unfolding distinct_append by (auto simp: distinct_map inj_on_def)

lemma from_entries_wf:
  assumes valid: "entries_valid all" and paths: "\<forall>e \<in> set all. path_wf (me_relative_path e)"
    and built: "from_entries (filter P all) c"
  shows "contents_wf c"
proof -
  let ?es = "filter P all"
  have dirs: "map rd_relative_path (rc_directories c) = map me_relative_path (filter (\<lambda>e. entry_kind (me_metadata e) = Directory) ?es)"
    and files: "map rf_relative_path (rc_files c) = map me_relative_path (filter (\<lambda>e. entry_kind (me_metadata e) = RegularFile) ?es)"
    and links: "map rs_relative_path (rc_symlinks c) = map me_relative_path (filter link_captured ?es)"
    using built by (simp_all add: from_entries_def)
  have "distinct (map me_relative_path ?es)" using valid by (simp add: entries_valid_def distinct_map_filter)
  then have "distinct (entry_paths c)"
    unfolding entry_paths_def dirs files links by (rule distinct_filter_append) (simp add: link_captured_def)
  moreover have entry: "\<exists>e \<in> set all. p = me_relative_path e" if "p \<in> set (entry_paths c)" for p
    using that unfolding entry_paths_def dirs files links by auto
  moreover have leaf: "\<exists>e \<in> set all. p = me_relative_path e \<and> entry_kind (me_metadata e) \<noteq> Directory" if "p \<in> set (leaf_paths c)" for p
    using that unfolding leaf_paths_def files links by (auto simp: link_captured_def)
  moreover have "named_path (me_relative_path e)" if "e \<in> set all" for e
    using valid paths that by (auto simp: entries_valid_def entry_valid_def intro: named_entry)
  moreover have "me_relative_path e \<noteq> [] \<and> (\<forall>a \<in> set all. \<not> strict_prefix (me_relative_path e) (me_relative_path a))"
    if "e \<in> set all" "entry_kind (me_metadata e) \<noteq> Directory" for e
    using valid that by (auto simp: entries_valid_def entry_valid_def)
  ultimately show ?thesis unfolding contents_wf_def by (intro conjI ballI; metis)
qed

lemma restored_contents_wf:
  assumes run: "restore_snapshot_contents L c store master sid paths w = (Ok rc, w')" and L: "decodes_paths L"
  shows "contents_wf rc"
proof -
  obtain manifest w0 w1 ps idx key w2 where man: "read_snapshot_manifest L c store master sid w0 = (Ok manifest, w1)"
    and loop: "for_each (scoped_manifest_entries manifest ps)
       (restore_entry L c store master key (sm_snapshot_id manifest) idx)
       \<lparr>rc_snapshot_id = sm_snapshot_id manifest, rc_selected_entries = length (scoped_manifest_entries manifest ps),
        rc_directories = [], rc_files = [], rc_symlinks = [], rc_metadata_warnings = []\<rparr> w2 = (Ok rc, w')"
    using run unfolding restore_snapshot_contents_def andThen_Ok_iff map_error_Ok_iff Let_def by blast
  have built: "from_entries (scoped_manifest_entries manifest ps) rc"
    using from_entries_loop [OF loop, of "[]"] by (simp add: from_entries_def)
  have "\<exists>b. from_slice (manifest_codec L) b = Ok manifest" and "\<exists>k. validate_snapshot_manifest manifest k = Ok ()"
    using man by (auto simp: read_snapshot_manifest_def read_encrypted_json_object_def
        read_encrypted_json_object_with_bytes_def andThen_Ok_iff ret_def Let_def map_err_Ok_iff)
  then have "entries_valid (mb_entries (sm_body manifest))" "\<forall>e \<in> set (mb_entries (sm_body manifest)). path_wf (me_relative_path e)"
    using L by (auto simp: validate_snapshot_manifest_iff decodes_paths_def)
  then show ?thesis using built unfolding scoped_manifest_entries_def by (rule from_entries_wf)
qed

section \<open>The phases of a restore\<close>

lemma restore_cases:
  assumes "restore_snapshot_to_destination L c store master request h = (r, h')"
  obtains (unread) e where "r = Err e" "ho_os h' = ho_os h"
  | (contents) rc where "restore_snapshot_contents L c store master (dr_snapshot_id request) (dr_paths request)
        (ho_world h) = (Ok rc, ho_world h')" "place_contents request rc (ho_os h) = (r, ho_os h')"
proof -
  from assms show ?thesis
    unfolding restore_snapshot_to_destination_def
  proof (cases rule: andThen_cases)
    case (fail e)
    then show ?thesis using unread by simp
  next
    case (step u h1)
    then have h1: "h1 = h" by simp
    from step(2) show ?thesis
    proof (cases rule: andThen_cases)
      case (fail e)
      then show ?thesis using unread by (auto simp: in_world_def h1 split: prod.splits)
    next
      case (step rc h2)
      then show ?thesis using contents by (auto simp: in_world_def in_os_def h1 split: prod.splits)
    qed
  qed
qed

definition hard_link_free :: "path \<Rightarrow> os \<Rightarrow> bool" where
  "hard_link_free d s \<longleftrightarrow> (\<forall>p q i. prefix d p \<longrightarrow> prefix d q \<longrightarrow> node_at s p = Some (FileNode i) \<longrightarrow>
     node_at s q = Some (FileNode i) \<longrightarrow> p = q)"

lemma unaliased_hard_link_free: "hard_link_free (dr_destination request) s \<Longrightarrow> unaliased request c s"
  unfolding hard_link_free_def unaliased_def by (meson prefixI same_append_eq)

text \<open>The files that may get other contents: those below the destination, and only when overwriting is asked for.\<close>

definition may_replace :: "restore_destination_request \<Rightarrow> os \<Rightarrow> path \<Rightarrow> bool" where
  "may_replace request s p \<longleftrightarrow> dr_overwrite request = OverwriteFiles \<and>
     (\<exists>q i. prefix (dr_destination request) q \<and> node_at s q = Some (FileNode i) \<and> node_at s p = Some (FileNode i))"

definition only_added :: "restore_destination_request \<Rightarrow> os \<Rightarrow> os \<Rightarrow> bool" where
  "only_added request s s' \<longleftrightarrow> (\<forall>p nd. node_at s p = Some nd \<longrightarrow> node_at s' p = Some nd) \<and>
     (\<forall>p nd. node_at s p = None \<longrightarrow> node_at s' p = Some nd \<longrightarrow>
        prefix (dr_destination request) p \<or> prefix p (dr_destination request) \<and> nd = DirNode) \<and>
     (\<forall>p b. file_at s p = Some b \<longrightarrow> file_at s' p = Some b \<or> may_replace request s p)"

lemma only_added_changed:
  assumes "changed (dr_destination request) (replaced request c s) K s s'" and wf: "os_wf s"
  shows "only_added request s s'"
  unfolding only_added_def
proof (intro conjI allI impI)
  note ch = assms(1)
  fix p nd
  show "node_at s' p = Some nd" if "node_at s p = Some nd" by (rule changed_stays [OF ch that])
  show "prefix (dr_destination request) p \<or> prefix p (dr_destination request) \<and> nd = DirNode"
    if "node_at s p = None" "node_at s' p = Some nd" using changed_new [OF ch that(2)] that(1) by auto
  fix b assume b: "file_at s p = Some b"
  show "file_at s' p = Some b \<or> may_replace request s p"
  proof (cases "\<exists>i \<in> replaced request c s. node_at s p = Some (FileNode i)")
    case True
    then have "may_replace request s p"
      by (cases "dr_overwrite request") (auto simp: replaced_def overwritten_def may_replace_def intro: exI [of _ "dr_destination request @ x" for x])
    then show ?thesis ..
  next
    case False
    then show ?thesis using file_stays [OF ch wf b] by blast
  qed
qed

lemma only_added_same: "os_wf s \<Longrightarrow> same_files s s' \<Longrightarrow> only_added request s s'"
  using only_added_changed [OF changed_same] .

text \<open>The writing starts from the checked state.\<close>

lemma placed_from_checked:
  assumes run: "write_prepared request c s1 = (r, s')" and same: "same_files s s1" and ready: "ready request c s"
    and wet: "\<not> dr_dry_run request"
  shows "only_added request s s'"
proof -
  have ready1: "ready request c s1" by (rule ready_same [OF ready same])
  then have "placing request c s1 s1" by (intro changed_same) (simp_all add: ready_def)
  then have "placing request c s1 s'" using keepsD [OF placing_kept [OF ready1 wet] _ run] by blast
  then have "only_added request s1 s'" by (rule only_added_changed) (use ready1 in \<open>simp add: ready_def\<close>)
  then show ?thesis by (simp add: only_added_def may_replace_def file_at_same [OF same] same_filesD [OF same])
qed

lemma restore_placed:
  assumes "decodes_paths L" and "destination_ok (ho_os h) (dr_destination request)" and "\<not> dr_dry_run request"
    and "dr_overwrite request = OverwriteFiles \<longrightarrow> hard_link_free (dr_destination request) (ho_os h)"
    and "restore_snapshot_to_destination L c store master request h = (Ok res, h')"
  shows "\<exists>rc. restore_snapshot_contents L c store master (dr_snapshot_id request) (dr_paths request) (ho_world h) = (Ok rc, ho_world h') \<and>
    dirs_placed request (rc_directories rc) (ho_os h') \<and> files_placed request (rc_files rc) (ho_os h') \<and>
    links_placed request (rc_symlinks rc) (ho_os h') \<and>
    (de_metadata_applied res = de_metadata_planned res \<longrightarrow> times_restored request rc (ho_os h'))"
  using assms(5)
proof (cases rule: restore_cases)
  case (contents rc)
  show ?thesis
    using contents(2) assms(2) restored_contents_wf [OF contents(1) assms(1)]
  proof (cases rule: place_prepared)
    case refused
    then show ?thesis by blast
  next
    case (prepared s1)
    have "unaliased request rc (ho_os h)"
    proof (cases "dr_overwrite request")
      case FailIfExists
      then show ?thesis using prepared(4) by (simp add: unaliased_def)
    next
      case OverwriteFiles
      then show ?thesis using assms(4) unaliased_hard_link_free by blast
    qed
    then have "unaliased request rc s1" by (simp add: unaliased_def same_filesD [OF prepared(1)])
    then show ?thesis
      using write_prepared_done [OF ready_same [OF prepared(3,1)] assms(3) _ prepared(2)] contents(1) by blast
  qed
qed simp

lemma restore_total:
  assumes L: "decodes_paths L" and ok: "destination_ok (ho_os h) (dr_destination request)"
    and read: "restore_snapshot_contents L c store master (dr_snapshot_id request) (dr_paths request) (ho_world h) = (Ok rc, w')"
    and room: "room request rc (ho_os h)" and quiet: "os_fault (ho_os h) = (\<lambda>_. None)"
  shows "\<exists>res h'. restore_snapshot_to_destination L c store master request h = (Ok res, h')"
proof -
  have "is_absolute (dr_destination request)" using ok by (auto simp: destination_ok_def canonical_def is_absolute_def)
  moreover obtain res s' where "place_contents request rc (ho_os h) = (Ok res, s')"
    using place_contents_total [OF ok restored_contents_wf [OF read L] room quiet] by blast
  ultimately show ?thesis
    using read by (simp add: restore_snapshot_to_destination_def validate_restore_destination_root_def ensure_def
        in_world_def in_os_def andThen_def)
qed

text \<open>A destination that does not exist, or is an empty directory, has room.\<close>

lemma room_empty:
  assumes "contents_wf c" and "dr_destination request \<noteq> [RootDir]" and way: "way s (dr_destination request)"
    and empty: "\<And>p. strict_prefix (dr_destination request) p \<Longrightarrow> node_at s p = None"
  shows "room request c s"
proof -
  have all: "way s (dr_destination request @ q)" for q
    unfolding way_def
  proof (intro allI impI)
    fix p nd assume "prefix p (dr_destination request @ q)" and nd: "node_at s p = Some nd"
    then have "prefix p (dr_destination request) \<or> strict_prefix (dr_destination request) p"
      by (auto simp: prefix_append strict_prefix_def)
    then show "nd = DirNode" using way empty [of p] nd by (auto simp: way_def)
  qed
  have up: "way s (butlast (dr_destination request @ q))" for q
    by (rule way_prefix [OF all [of q]]) (simp add: prefixeq_butlast)
  have "node_at s (dr_destination request @ p) = None" if "p \<in> set (leaf_paths c)" for p
    by (rule empty) (use assms(1) that in \<open>auto simp: contents_wf_def strict_prefix_def\<close>)
  then show ?thesis using assms(2) way all up by (simp add: room_def slot_def leaf_paths_def)
qed

section \<open>Claims\<close>

text \<open>
  C30: a dry run of a restore changes nothing on the file system, whatever its outcome: no directory, file,
  link, contents or time.
\<close>

theorem restore_dry_run_pure:
  assumes "dr_dry_run request" and "restore_snapshot_to_destination L c store master request h = (r, h')"
  shows "same_files (ho_os h) (ho_os h')"
  using assms(2)
proof (cases rule: restore_cases)
  case (contents rc)
  then show ?thesis using observesD [OF observes_dry_run [OF assms(1)]] by blast
qed simp

text \<open>
  C9: a restore that stops anywhere, with whatever error, has only added to the file system: every directory,
  link and file that was there is still there, what is new is below the destination or a directory on the
  way to it, and the contents of a file are changed only when overwriting is asked for, below the
  destination.
\<close>

theorem restore_only_adds:
  assumes "decodes_paths L" and "destination_ok (ho_os h) (dr_destination request)"
    and "restore_snapshot_to_destination L c store master request h = (r, h')"
  shows "only_added request (ho_os h) (ho_os h')"
proof -
  have wf: "os_wf (ho_os h)" using assms(2) by (simp add: destination_ok_def)
  from assms(3) show ?thesis
  proof (cases rule: restore_cases)
    case unread
    then show ?thesis using only_added_same [OF wf] by simp
  next
    case (contents rc)
    show ?thesis
    proof (cases "dr_dry_run request")
      case True
      then show ?thesis using observesD [OF observes_dry_run contents(2)] only_added_same [OF wf] by blast
    next
      case wet: False
      show ?thesis
        using contents(2) assms(2) restored_contents_wf [OF contents(1) assms(1)]
      proof (cases rule: place_prepared)
        case refused
        then show ?thesis using only_added_same [OF wf] by blast
      next
        case (prepared s1)
        then show ?thesis using placed_from_checked wet by blast
      qed
    qed
  qed
qed

text \<open>
  C8: a restore that is no dry run and reports success has put every selected entry in place: the directories, the
  files with exactly the contents of the snapshot, the links with their targets; and if it reports that every
  planned time was applied, then the files and directories have the modification times of the snapshot. Where
  existing files may be overwritten, no two of those below the destination may be hard links of one file.
\<close>

theorem restore_places_snapshot:
  assumes "decodes_paths L" and "destination_ok (ho_os h) (dr_destination request)" and "\<not> dr_dry_run request"
    and "dr_overwrite request = OverwriteFiles \<longrightarrow> hard_link_free (dr_destination request) (ho_os h)"
    and "restore_snapshot_to_destination L c store master request h = (Ok res, h')"
  shows "\<exists>rc. restore_snapshot_contents L c store master (dr_snapshot_id request) (dr_paths request) (ho_world h) = (Ok rc, ho_world h') \<and>
    dirs_placed request (rc_directories rc) (ho_os h') \<and> files_placed request (rc_files rc) (ho_os h') \<and>
    links_placed request (rc_symlinks rc) (ho_os h') \<and>
    (de_metadata_applied res = de_metadata_planned res \<longrightarrow> times_restored request rc (ho_os h'))"
  by (rule restore_placed [OF assms])

text \<open>
  C10: a restore comes to its end: when the contents of the snapshot can be read, the places for its entries
  are free and the file system reports no failure, then the restore returns a result.
\<close>

theorem restore_succeeds:
  assumes "decodes_paths L" and "destination_ok (ho_os h) (dr_destination request)"
    and "restore_snapshot_contents L c store master (dr_snapshot_id request) (dr_paths request) (ho_world h) = (Ok rc, w')"
    and "room request rc (ho_os h)" and "os_fault (ho_os h) = (\<lambda>_. None)"
  shows "\<exists>res h'. restore_snapshot_to_destination L c store master request h = (Ok res, h')"
  by (rule restore_total [OF assms])

text \<open>
  C7: from the source to the restored tree: after any history of backups of any sources and of forget requests,
  on any store that meets the contract, also one whose reads lag behind, restoring a reported snapshot in full to a
  destination puts, when it succeeds, every regular file of the walk below the destination with exactly the bytes
  that the backup read. Where existing files may be overwritten, no two of those below the destination may be
  hard links of one file.
\<close>

theorem backup_to_restored_files:
  assumes store: "eventual_repository ops contents invar usable"
    and lib: "library_ok L" "decodes_paths L" and free: "collision_free L c master D"
    and w0: "invar (w_store w0)" "chunk_sound L c master D (contents (w_store w0))"
    and run: "repository_history L c ops master D w0 reports (ho_world h)" and rp: "rp \<in> set reports"
    and keyed: "well_keyed L c master (contents (w_store (ho_world h)))"
    and request: "dr_snapshot_id request = wr_snapshot_id (rp_result rp)" "dr_paths request = []" "\<not> dr_dry_run request"
    and place: "destination_ok (ho_os h) (dr_destination request)"
      "dr_overwrite request = OverwriteFiles \<longrightarrow> hard_link_free (dr_destination request) (ho_os h)"
    and restored: "restore_snapshot_to_destination L c ops master request h = (Ok res, h')"
  shows "\<exists>es. walk (br_exclusion_rules (rp_request rp)) (rp_view rp) (br_roots (rp_request rp)) = Some (Ok es) \<and>
    (\<forall>e \<in> set es. entry_kind (se_metadata e) = RegularFile \<longrightarrow>
       (\<exists>b. fs_read (rp_view rp) (se_path e) = Ok b \<and>
          file_at (ho_os h') (dr_destination request @ se_relative_path e) = Some b))"
proof -
  let ?m = "contents (w_store (ho_world h))"
  note inv = eventual_repository.history_invariant [OF store lib(1) free w0 run]
  have kept: "report_kept L c master D rp ?m" using inv rp by blast
  have world: "invar (w_store (ho_world h))" "chunk_sound L c master D ?m"
    using inv by (simp_all add: eventual_repository.repository_ok_iff [OF store])
  obtain rc where rc: "restore_snapshot_contents L c ops master (dr_snapshot_id request) (dr_paths request) (ho_world h) =
      (Ok rc, ho_world h')" and files: "files_placed request (rc_files rc) (ho_os h')"
    using restore_placed [OF lib(2) place(1) request(3) place(2) restored] by blast
  have read: "restore_snapshot_contents L c map_store_ops master (dr_snapshot_id request) (dr_paths request)
      (map_world ?m (w_rng (ho_world h))) = (Ok rc, map_world ?m (w_rng (ho_world h)))"
    using eventual_repository.simulatesD(3) [OF store eventual_repository.sim_restore_snapshot_contents [OF store] world(1) keyed rc]
    by (simp add: eventual_repository.view_def [OF store] map_world_def)
  obtain es where es: "walk (br_exclusion_rules (rp_request rp)) (rp_view rp) (br_roots (rp_request rp)) = Some (Ok es)"
    and all: "files_of_walk rp es rc"
    using report_restores [OF kept world(2) free, of "w_rng (ho_world h)"] read request(1,2) by auto
  have "\<exists>b. fs_read (rp_view rp) (se_path e) = Ok b \<and> file_at (ho_os h') (dr_destination request @ se_relative_path e) = Some b"
    if e: "e \<in> set es" "entry_kind (se_metadata e) = RegularFile" for e
  proof -
    have "e \<in> set (filter (\<lambda>e. entry_kind (se_metadata e) = RegularFile) es)" using e by simp
    then obtain f where "f \<in> set (rc_files rc)" "rf_relative_path f = se_relative_path e"
        "fs_read (rp_view rp) (se_path e) = Ok (rf_contents f)"
      using all unfolding list_all2_conv_all_nth set_conv_nth by fastforce
    then show ?thesis using files by (auto simp: files_placed_def)
  qed
  then show ?thesis using es by blast
qed

text \<open>
  C11: everything is checked before anything is written: if the destination of a selected file is already
  taken and overwriting is not asked for, the restore fails and the file system is as it was.
\<close>

theorem restore_refuses_untouched:
  assumes "decodes_paths L" and "destination_ok (ho_os h) (dr_destination request)"
    and "restore_snapshot_contents L c store master (dr_snapshot_id request) (dr_paths request) (ho_world h) = (Ok rc, w')"
    and "dr_overwrite request = FailIfExists" and "f \<in> set (rc_files rc)"
    and "node_at (ho_os h) (dr_destination request @ rf_relative_path f) \<noteq> None"
    and "restore_snapshot_to_destination L c store master request h = (r, h')"
  shows "(\<exists>e. r = Err e) \<and> same_files (ho_os h) (ho_os h')"
  using assms(7)
proof (cases rule: restore_cases)
  case (contents rc')
  then have rc: "rc' = rc" using assms(3) by simp
  show ?thesis
    using contents(2) assms(2) restored_contents_wf [OF contents(1) assms(1)]
  proof (cases rule: place_prepared)
    case refused
    then show ?thesis by (cases r) auto
  next
    case (prepared s1)
    then show ?thesis using assms(4,5,6) rc by auto
  qed
qed simp

section \<open>A concrete restore\<close>

text \<open>The snapshot of \<open>Ferry_Scenario\<close> into the empty directory \<open>/r\<close>, and into one that has a file \<open>a\<close>.\<close>

definition sample_target :: os where
  "sample_target =
     \<lparr>os_tree = bt_insert [RootDir, Normal ''r''] DirNode (bt_insert [RootDir] DirNode []), os_data = (\<lambda>_. []), os_next = 0,
      os_times = (\<lambda>_. None), os_fault = (\<lambda>_. None), os_calls = 0\<rparr>"

definition sample_taken :: os where
  "sample_taken = sample_target\<lparr>os_tree := bt_insert [RootDir, Normal ''r'', Normal ''a''] (FileNode 0) (os_tree sample_target),
     os_next := 1\<rparr>"

definition sample_destination :: "bool \<Rightarrow> restore_destination_request" where
  "sample_destination dry = \<lparr>dr_snapshot_id = sample_id [], dr_paths = [], dr_destination = [RootDir, Normal ''r''],
     dr_overwrite = FailIfExists, dr_dry_run = dry, dr_verify = True\<rparr>"

definition sample_host :: "os \<Rightarrow> fake_store host" where
  "sample_host s = \<lparr>ho_world = sample_world, ho_os = s\<rparr>"

lemma sample_sel [simp]:
  "dr_snapshot_id (sample_destination dry) = sample_id []" "dr_paths (sample_destination dry) = []"
  "dr_destination (sample_destination dry) = [RootDir, Normal ''r'']" "dr_overwrite (sample_destination dry) = FailIfExists"
  "dr_dry_run (sample_destination dry) = dry" "ho_world (sample_host s) = sample_world" "ho_os (sample_host s) = s"
  by (simp_all add: sample_destination_def sample_host_def)

abbreviation sample_restoring :: "bool \<Rightarrow> os \<Rightarrow> (core_error + restore_destination_result) \<times> fake_store host" where
  "sample_restoring dry s \<equiv> restore_snapshot_to_destination sample_lib sample_config fake_store_ops sample_master
     (sample_destination dry) (sample_host s)"

lemma sample_decodes: "decodes_paths sample_lib"
proof -
  have only: "x = sample_written_manifest" if "from_slice (manifest_codec sample_lib) b = Ok x" for b x
    using that by (simp add: sample_lib_def table_codec_def split: if_splits)
  have "path_wf (me_relative_path e)" if "e \<in> set (mb_entries sample_body)" for e
    using that by (auto simp: sample_body_def sample_entries_def manifest_entry_from_source_def path_wf_def segment_wf_def)
  then show ?thesis by (auto simp: decodes_paths_def dest: only)
qed

lemma sample_nodes:
  "node_at sample_target p = (if p = [RootDir] \<or> p = [RootDir, Normal ''r''] then Some DirNode else None)"
  "node_at sample_taken p = (if p = [RootDir, Normal ''r'', Normal ''a''] then Some (FileNode 0) else node_at sample_target p)"
  by (simp_all add: node_at_def sample_target_def sample_taken_def del: bt_insert.simps)

lemma sample_destination_ok:
  "destination_ok sample_target (dr_destination (sample_destination dry))"
  "destination_ok sample_taken (dr_destination (sample_destination dry))"
proof -
  have "bt_wf (os_tree sample_target)" "bt_wf (os_tree sample_taken)" "os_next sample_taken = 1"
    by (simp_all add: sample_target_def sample_taken_def del: bt_insert.simps)
  then show "destination_ok sample_target (dr_destination (sample_destination dry))"
    "destination_ok sample_taken (dr_destination (sample_destination dry))"
    by (auto simp: destination_ok_def os_wf_def tree_wf_def sample_nodes canonical_def named_def segment_wf_def
        sample_destination_def link_free_def split: if_splits)
qed

lemma sample_room: "room (sample_destination dry) sample_restored sample_target"
proof (rule room_empty)
  show "contents_wf sample_restored" by (rule restored_contents_wf [OF sample_restore sample_decodes])
  show "way sample_target (dr_destination (sample_destination dry))"
    by (auto simp: way_def sample_nodes sample_destination_def split: if_splits)
  show "node_at sample_target p = None" if "strict_prefix (dr_destination (sample_destination dry)) p" for p
    using that by (auto simp: sample_nodes sample_destination_def)
qed (simp add: sample_destination_def)

lemma sample_succeeds: "\<exists>res h'. sample_restoring dry sample_target = (Ok res, h')"
  by (rule restore_total [OF sample_decodes, where rc = sample_restored and w' = sample_world])
    (use sample_destination_ok(1) [of dry] sample_room [of dry] sample_restore in \<open>simp_all add: sample_target_def\<close>)

theorem restore_dry_run_pure_witness:
  "same_files sample_target (ho_os (snd (sample_restoring True sample_target)))"
proof -
  obtain res h' where "sample_restoring True sample_target = (Ok res, h')" using sample_succeeds by blast
  then show ?thesis using restore_dry_run_pure [of "sample_destination True" sample_lib] by fastforce
qed

theorem restore_only_adds_witness:
  "only_added (sample_destination False) sample_target (ho_os (snd (sample_restoring False sample_target)))"
proof -
  obtain res h' where "sample_restoring False sample_target = (Ok res, h')" using sample_succeeds by blast
  then show ?thesis
    using restore_only_adds [OF sample_decodes, of "sample_host sample_target" "sample_destination False"]
      sample_destination_ok(1) [of False] by fastforce
qed

theorem restore_places_snapshot_witness:
  "file_at (ho_os (snd (sample_restoring False sample_target))) [RootDir, Normal ''r'', Normal ''a''] = Some [1, 2]"
proof -
  obtain res h' where run: "sample_restoring False sample_target = (Ok res, h')" using sample_succeeds by blast
  have "\<exists>rc. restore_snapshot_contents sample_lib sample_config fake_store_ops sample_master (sample_id []) [] sample_world =
      (Ok rc, ho_world h') \<and> files_placed (sample_destination False) (rc_files rc) (ho_os h')"
    using restore_places_snapshot [OF sample_decodes _ _ _ run] sample_destination_ok(1) [of False] by auto
  then show ?thesis
    by (simp add: run sample_restore files_placed_def) (simp add: sample_restored_def)
qed

theorem restore_succeeds_witness: "\<exists>res h'. sample_restoring False sample_target = (Ok res, h')"
  by (rule restore_succeeds [OF sample_decodes, where rc = sample_restored and w' = sample_world])
    (use sample_destination_ok(1) [of False] sample_room [of False] sample_restore in \<open>simp_all add: sample_target_def\<close>)

theorem backup_to_restored_files_witness:
  "\<exists>es. walk [] sample_fs [sample_root] = Some (Ok es) \<and>
    (\<forall>e \<in> set es. entry_kind (se_metadata e) = RegularFile \<longrightarrow>
       (\<exists>b. fs_read sample_fs (se_path e) = Ok b \<and>
          file_at (ho_os (snd (sample_restoring False sample_target))) ([RootDir, Normal ''r''] @ se_relative_path e) = Some b))"
proof -
  obtain res h' where run: "sample_restoring False sample_target = (Ok res, h')" using sample_succeeds by blast
  have "repository_history sample_lib sample_config fake_store_ops sample_master {[1, 2]} \<lparr>w_store = [], w_rng = 0\<rparr>
      [sample_report] (ho_world (sample_host sample_target))" using sample_history by simp
  from backup_to_restored_files [OF fake.eventual sample_lib_ok sample_decodes sample_collision_free _ _ this _
      sample_well_keyed _ _ _ _ _ run, of sample_report] sample_start sample_destination_ok(1) [of False]
  show ?thesis by (simp add: run sample_report_def sample_request_def sample_result_def)
qed

theorem restore_refuses_untouched_witness:
  "(\<exists>e. fst (sample_restoring False sample_taken) = Err e) \<and>
   same_files sample_taken (ho_os (snd (sample_restoring False sample_taken)))"
proof -
  obtain r h' where run: "sample_restoring False sample_taken = (r, h')" by fastforce
  have read: "restore_snapshot_contents sample_lib sample_config fake_store_ops sample_master
      (dr_snapshot_id (sample_destination False)) (dr_paths (sample_destination False)) (ho_world (sample_host sample_taken)) =
      (Ok sample_restored, sample_world)" using sample_restore by simp
  show ?thesis
    using restore_refuses_untouched [OF sample_decodes _ read _ _ _ run, of "rc_files sample_restored ! 0"]
      sample_destination_ok(2) [of False]
    by (simp add: run sample_restored_def sample_nodes)
qed

section \<open>Destinations that are hard links of one file\<close>

text \<open>
  Why \<open>restore_places_snapshot\<close> asks for \<open>hard_link_free\<close>: overwriting two files that are hard links of each
  other succeeds, each is verified right after it is written, and in the end the first one holds the contents
  of the second.
\<close>

definition linked_contents :: restore_content_result where
  "linked_contents =
     \<lparr>rc_snapshot_id = [], rc_selected_entries = 2, rc_directories = [],
      rc_files = [\<lparr>rf_relative_path = [Normal ''a''], rf_contents = [1], rf_modified = Unsupported\<rparr>,
        \<lparr>rf_relative_path = [Normal ''b''], rf_contents = [2], rf_modified = Unsupported\<rparr>],
      rc_symlinks = [], rc_metadata_warnings = []\<rparr>"

definition linked_target :: os where
  "linked_target = sample_target\<lparr>os_tree := bt_insert [RootDir, Normal ''r'', Normal ''a''] (FileNode 0)
     (bt_insert [RootDir, Normal ''r'', Normal ''b''] (FileNode 0) (os_tree sample_target)), os_next := 1\<rparr>"

definition linked_request :: restore_destination_request where
  "linked_request = (sample_destination False)\<lparr>dr_overwrite := OverwriteFiles\<rparr>"

theorem hard_links_share_restored_contents:
  "(case place_contents linked_request linked_contents linked_target of
      (Ok result, s) \<Rightarrow> de_verified_files result = 2 \<and>
        node_at s [RootDir, Normal ''r'', Normal ''a''] = Some (FileNode 0) \<and> os_data s 0 = [2]
    | _ \<Rightarrow> False)"
  by code_simp

end
