(* ===== verification/Ferry_Config.thy ===== *)
theory Ferry_Config
  imports Ferry_Policy Ferry_Storage Ferry_Paths
begin

text \<open>
  The configuration of the command line (\<open>crates/fileferry-cli/src/lib.rs\<close>): options, environment, profile
  and config file, repository URLs, passphrases, and the redaction of what is shown. Paths that come from
  the command line or the environment are kept as the strings they were given as. clap and the TOML parser
  are parameters.
\<close>

section \<open>Redaction\<close>

definition authority_end :: "char \<Rightarrow> bool" where
  "authority_end c \<longleftrightarrow> c \<in> {CHR ''/'', CHR ''?'', CHR ''#''}"

text \<open>\<open>str::rfind(char)\<close>.\<close>

definition rfind_char :: "char \<Rightarrow> string \<Rightarrow> nat option" where
  "rfind_char c s =
     (if c \<in> set s then Some (length s - Suc (length (takeWhile (\<lambda>x. x \<noteq> c) (rev s)))) else None)"

definition redact_user :: "string \<Rightarrow> string" where
  "redact_user redacted =
     (case find_sub ''://'' redacted of
        None \<Rightarrow> redacted
      | Some scheme_end \<Rightarrow>
          let authority_start = scheme_end + 3;
              authority = takeWhile (\<lambda>c. \<not> authority_end c) (drop authority_start redacted)
          in (case rfind_char CHR ''@'' authority of
                None \<Rightarrow> redacted
              | Some relative_at \<Rightarrow>
                  take authority_start redacted @ ''<redacted>@'' @ drop (authority_start + relative_at + 1) redacted))"

text \<open>\<open>find\<close>, \<open>truncate\<close> and \<open>push_str\<close>.\<close>

definition redact_from :: "char \<Rightarrow> string \<Rightarrow> string" where
  "redact_from c s = (if c \<in> set s then takeWhile (\<lambda>x. x \<noteq> c) s @ c # ''<redacted>'' else s)"

definition redact_for_display :: "string \<Rightarrow> string" where
  "redact_for_display s =
     (if prefix ''s3://'' s then ''s3://<redacted>''
      else redact_from CHR ''#'' (redact_from CHR ''?'' (redact_user s)))"

datatype redacted = Redacted (redacted_str: string)

definition redacted_new :: "string \<Rightarrow> redacted" where
  "redacted_new s = Redacted (redact_for_display s)"

section \<open>Errors\<close>

datatype toml_error = TomlError string

datatype config_error =
    ConfigRead redacted io_error
  | ConfigParse redacted toml_error
  | MissingProfile string redacted
  | InvalidRepositoryUrl redacted
  | InvalidLogLevel string
  | InvalidProgress string

datatype repository_error =
    MissingRepository
  | MissingPassword
  | MissingNewPassword
  | PasswordFileRead redacted io_error
  | NewPasswordFileRead redacted io_error
  | UnsupportedRepository redacted
  | InvalidFileRepositoryUrl redacted
  | InvalidS3RepositoryUrl redacted string
  | MissingS3Environment string
  | InvalidS3Config string
  | RepositoryRuntime io_error

section \<open>Options, environment and file\<close>

record global_args =
  ga_repo :: "string option"
  ga_profile :: "string option"
  ga_config :: "string option"
  ga_json :: bool
  ga_jsonl :: bool
  ga_quiet :: bool
  ga_log_level :: "string option"
  ga_no_progress :: bool

datatype output_mode = HumanOutput | JsonOutput | JsonlOutput

definition mode_from_globals :: "global_args \<Rightarrow> output_mode" where
  "mode_from_globals globals =
     (if ga_json globals then JsonOutput else if ga_jsonl globals then JsonlOutput else HumanOutput)"

datatype log_level = LogTrace | LogDebug | LogInfo | LogWarn | LogError

definition log_level_parse :: "string \<Rightarrow> config_error + log_level" where
  "log_level_parse s =
     (if s = ''trace'' then Ok LogTrace else if s = ''debug'' then Ok LogDebug
      else if s = ''info'' then Ok LogInfo else if s = ''warn'' then Ok LogWarn
      else if s = ''error'' then Ok LogError else Err (InvalidLogLevel s))"

datatype progress_mode = ProgressAuto | ProgressAlways | ProgressNever

definition progress_mode_parse :: "string \<Rightarrow> config_error + progress_mode" where
  "progress_mode_parse s =
     (if s = ''auto'' then Ok ProgressAuto else if s = ''always'' then Ok ProgressAlways
      else if s = ''never'' then Ok ProgressNever else Err (InvalidProgress s))"

record repository_config =
  rc_url :: "string option"
  rc_profile :: "string option"

record output_config =
  oc_progress :: "string option"
  oc_log_level :: "string option"

record profile_config =
  pc_repository :: "repository_config option"
  pc_output :: "output_config option"

record file_config =
  fc_repository :: "repository_config option"
  fc_output :: "output_config option"
  fc_profiles :: "(string, profile_config) btree_map option"

record resolved_config =
  cf_config_path :: "string option"
  cf_profile :: string
  cf_repository_url :: "string option"
  cf_log_level :: log_level
  cf_progress :: progress_mode
  cf_quiet :: bool

text \<open>What the process sees: environment variables, the working directory, files and the TOML parser.\<close>

record process =
  pr_var :: "string \<Rightarrow> string option"
  pr_current_dir :: "io_error + string"
  pr_read_to_string :: "string \<Rightarrow> io_error + string"
  pr_is_file :: "string \<Rightarrow> bool"
  pr_toml :: "string \<Rightarrow> toml_error + file_config"
  pr_runtime :: "io_error option"

text \<open>\<open>Path::join\<close> on paths as strings.\<close>

definition raw_join :: "string \<Rightarrow> string \<Rightarrow> string" where
  "raw_join dir p =
     (if prefix ''/'' p \<or> dir = [] then p
      else if last dir = CHR ''/'' then dir @ p else dir @ CHR ''/'' # p)"

record env_config =
  ev_config :: "string option"
  ev_profile :: "string option"
  ev_repository :: "string option"
  ev_log :: "string option"

definition env_config_current :: "process \<Rightarrow> env_config" where
  "env_config_current pr =
     \<lparr>ev_config = pr_var pr ''FILEFERRY_CONFIG'', ev_profile = pr_var pr ''FILEFERRY_PROFILE'',
      ev_repository = pr_var pr ''FILEFERRY_REPOSITORY'', ev_log = pr_var pr ''FILEFERRY_LOG''\<rparr>"

definition CONFIG_CANDIDATES :: "string list" where
  "CONFIG_CANDIDATES = [''fileferry.toml'', ''.fileferry.toml'']"

definition discover_config :: "process \<Rightarrow> string option \<Rightarrow> string option" where
  "discover_config pr working_dir =
     Option.bind working_dir (\<lambda>dir. find (pr_is_file pr) (map (raw_join dir) CONFIG_CANDIDATES))"

definition read_config :: "process \<Rightarrow> string \<Rightarrow> config_error + file_config" where
  "read_config pr p =
     bindR (map_err (ConfigRead (redacted_new p)) (pr_read_to_string pr p)) (\<lambda>content.
     map_err (ConfigParse (redacted_new p)) (pr_toml pr content))"

definition validate_repository_url :: "string \<Rightarrow> config_error + unit" where
  "validate_repository_url s =
     (if prefix ''s3://'' s \<or> prefix ''file://'' s \<or> prefix ''/'' s \<or> prefix ''./'' s \<or> prefix ''../'' s
      then Ok () else Err (InvalidRepositoryUrl (redacted_new s)))"

text \<open>\<open>Option::or\<close>: the first value that is there.\<close>

fun first_some :: "'a option list \<Rightarrow> 'a option" where
  "first_some [] = None"
| "first_some (x # xs) = (case x of Some _ \<Rightarrow> x | None \<Rightarrow> first_some xs)"

definition DEFAULT_PROFILE :: string where "DEFAULT_PROFILE = ''default''"
definition DEFAULT_LOG_LEVEL :: string where "DEFAULT_LOG_LEVEL = ''info''"

definition profile_named :: "file_config option \<Rightarrow> string option \<Rightarrow> string \<Rightarrow> config_error + profile_config option" where
  "profile_named file_config config_path profile =
     (case file_config of
        None \<Rightarrow> Ok None
      | Some config \<Rightarrow>
          let found = Option.bind (fc_profiles config) (\<lambda>profiles. bt_get profiles profile) in
          (case config_path of
             Some p \<Rightarrow>
               if profile \<noteq> DEFAULT_PROFILE \<and> found = None then Err (MissingProfile profile (redacted_new p))
               else Ok found
           | None \<Rightarrow> Ok found))"

definition resolve_config_with_env ::
  "process \<Rightarrow> global_args \<Rightarrow> string option \<Rightarrow> env_config \<Rightarrow> config_error + resolved_config" where
  "resolve_config_with_env pr globals working_dir env =
     (let config_path = first_some [ga_config globals, ev_config env, discover_config pr working_dir] in
      bindR (case config_path of
               Some p \<Rightarrow> bindR (read_config pr p) (\<lambda>c. Ok (Some c)) | None \<Rightarrow> Ok None) (\<lambda>file_config.
      let root_repository = Option.bind file_config fc_repository;
          root_output = Option.bind file_config fc_output;
          profile = (case first_some [ga_profile globals, ev_profile env, Option.bind root_repository rc_profile] of
            Some p \<Rightarrow> p | None \<Rightarrow> DEFAULT_PROFILE) in
      bindR (profile_named file_config config_path profile) (\<lambda>profile_config.
      let profile_repository = Option.bind profile_config pc_repository;
          profile_output = Option.bind profile_config pc_output;
          repository_url = first_some [ga_repo globals, ev_repository env, Option.bind profile_repository rc_url,
            Option.bind root_repository rc_url] in
      bindR (case repository_url of Some url \<Rightarrow> validate_repository_url url | None \<Rightarrow> Ok ()) (\<lambda>_.
      bindR (log_level_parse (case first_some [ga_log_level globals, ev_log env,
                Option.bind profile_output oc_log_level, Option.bind root_output oc_log_level] of
              Some level \<Rightarrow> level | None \<Rightarrow> DEFAULT_LOG_LEVEL)) (\<lambda>log_level.
      bindR (if ga_no_progress globals then Ok ProgressNever
             else progress_mode_parse (case first_some [Option.bind profile_output oc_progress,
                Option.bind root_output oc_progress] of Some p \<Rightarrow> p | None \<Rightarrow> ''auto'')) (\<lambda>progress.
      Ok \<lparr>cf_config_path = config_path, cf_profile = profile, cf_repository_url = repository_url,
          cf_log_level = log_level, cf_progress = progress, cf_quiet = ga_quiet globals\<rparr>))))))"

definition resolve_config :: "process \<Rightarrow> global_args \<Rightarrow> config_error + resolved_config" where
  "resolve_config pr globals =
     resolve_config_with_env pr globals (case pr_current_dir pr of Ok dir \<Rightarrow> Some dir | Err _ \<Rightarrow> None)
       (env_config_current pr)"

section \<open>Repository URLs\<close>

text \<open>\<open>S3StoreConfig::new\<close> of the storage crate; the credentials are the strings they wrap.\<close>

record s3_store_config =
  s3_bucket :: string
  s3_region :: string
  s3_endpoint :: string
  s3_access_key_id :: string
  s3_secret_access_key :: string
  s3_root_prefix :: object_key_prefix
  s3_conditional_create :: bool

definition validate_s3_config_value :: "string \<Rightarrow> string \<Rightarrow> storage_error + unit" where
  "validate_s3_config_value name s =
     ensure (trim s \<noteq> []) (BackendConfig S3Compatible (name @ '' must not be empty''))"

definition validate_s3_endpoint :: "string \<Rightarrow> storage_error + unit" where
  "validate_s3_endpoint endpoint =
     bindR (validate_s3_config_value ''endpoint'' endpoint) (\<lambda>_.
     ensure (prefix ''https://'' endpoint) (BackendConfig S3Compatible ''endpoint must be an https:// URL''))"

definition s3_store_config_new ::
  "string \<Rightarrow> string \<Rightarrow> string \<Rightarrow> string \<Rightarrow> string \<Rightarrow> object_key_prefix \<Rightarrow> storage_error + s3_store_config" where
  "s3_store_config_new bucket region endpoint access_key_id secret_access_key root_prefix =
     bindR (validate_s3_config_value ''bucket'' bucket) (\<lambda>_.
     bindR (validate_s3_config_value ''region'' region) (\<lambda>_.
     bindR (validate_s3_endpoint endpoint) (\<lambda>_.
     Ok \<lparr>s3_bucket = bucket, s3_region = region, s3_endpoint = endpoint, s3_access_key_id = access_key_id,
         s3_secret_access_key = secret_access_key, s3_root_prefix = root_prefix, s3_conditional_create = True\<rparr>)))"

definition with_conditional_create :: "bool \<Rightarrow> s3_store_config \<Rightarrow> s3_store_config" where
  "with_conditional_create b config = config\<lparr>s3_conditional_create := b\<rparr>"

record s3_environment =
  se_endpoint :: "string option"
  se_region :: "string option"
  se_access_key_id :: "string option"
  se_secret_access_key :: "string option"
  se_disable_conditional_create :: bool

definition s3_environment_current :: "process \<Rightarrow> s3_environment" where
  "s3_environment_current pr =
     \<lparr>se_endpoint = pr_var pr ''FILEFERRY_S3_ENDPOINT'', se_region = pr_var pr ''FILEFERRY_S3_REGION'',
      se_access_key_id = pr_var pr ''FILEFERRY_S3_ACCESS_KEY_ID'',
      se_secret_access_key = pr_var pr ''FILEFERRY_S3_SECRET_ACCESS_KEY'',
      se_disable_conditional_create =
        (case pr_var pr ''FILEFERRY_S3_DISABLE_CONDITIONAL_CREATE'' of
           Some s \<Rightarrow> s \<in> {''1'', ''true'', ''yes'', ''on''} | None \<Rightarrow> False)\<rparr>"

definition required_s3_env :: "string option \<Rightarrow> string \<Rightarrow> repository_error + string" where
  "required_s3_env v name =
     (case v of
        None \<Rightarrow> Err (MissingS3Environment name)
      | Some s \<Rightarrow> if trim s = [] then Err (MissingS3Environment name) else Ok s)"

record parsed_s3_url =
  pu_bucket :: string
  pu_root_prefix :: object_key_prefix

definition parse_s3_repository_url :: "string \<Rightarrow> repository_error + parsed_s3_url" where
  "parse_s3_repository_url url =
     (let invalid = (\<lambda>reason. InvalidS3RepositoryUrl (redacted_new url) reason) in
      bindR (ok_or (invalid ''expected s3://bucket[/prefix]'') (strip_prefix_str ''s3://'' url)) (\<lambda>rest.
      if CHR ''?'' \<in> set rest \<or> CHR ''#'' \<in> set rest then
        Err (invalid ''query strings and fragments are not supported'')
      else
        let (bucket, pre) = (case split_once CHR ''/'' rest of Some x \<Rightarrow> x | None \<Rightarrow> (rest, [])) in
        if bucket = [] then Err (invalid ''bucket must not be empty'')
        else if CHR ''@'' \<in> set bucket \<or> CHR '':'' \<in> set bucket then
          Err (invalid ''credentials must be supplied through environment variables'')
        else
          bindR (if pre = [] then Ok prefix_root
                 else map_err (\<lambda>_. invalid ''prefix must be relative, non-empty, and use FileFerry object-key characters'')
                   (object_key_prefix_new pre)) (\<lambda>root_prefix.
          Ok \<lparr>pu_bucket = bucket, pu_root_prefix = root_prefix\<rparr>)))"

text \<open>The message of a storage error that is not a configuration error is not modelled further.\<close>

definition s3_repository_config ::
  "(storage_error \<Rightarrow> string) \<Rightarrow> string \<Rightarrow> s3_environment \<Rightarrow> repository_error + s3_store_config" where
  "s3_repository_config message url environment =
     bindR (parse_s3_repository_url url) (\<lambda>parsed.
     bindR (required_s3_env (se_endpoint environment) ''FILEFERRY_S3_ENDPOINT'') (\<lambda>endpoint.
     bindR (required_s3_env (se_region environment) ''FILEFERRY_S3_REGION'') (\<lambda>region.
     bindR (required_s3_env (se_access_key_id environment) ''FILEFERRY_S3_ACCESS_KEY_ID'') (\<lambda>access_key_id.
     bindR (required_s3_env (se_secret_access_key environment) ''FILEFERRY_S3_SECRET_ACCESS_KEY'') (\<lambda>secret_access_key.
     map_err (\<lambda>error. case error of BackendConfig _ reason \<Rightarrow> InvalidS3Config reason | _ \<Rightarrow> InvalidS3Config (message error))
       (bindR (s3_store_config_new (pu_bucket parsed) region endpoint access_key_id secret_access_key (pu_root_prefix parsed))
         (\<lambda>config. Ok (with_conditional_create (\<not> se_disable_conditional_create environment) config))))))))"

definition absolute_source_path :: "process \<Rightarrow> string \<Rightarrow> repository_error + string" where
  "absolute_source_path pr p =
     (if prefix ''/'' p then Ok p
      else bindR (map_err RepositoryRuntime (pr_current_dir pr)) (\<lambda>dir. Ok (raw_join dir p)))"

definition local_repository_path :: "process \<Rightarrow> string \<Rightarrow> repository_error + string" where
  "local_repository_path pr url =
     (if prefix ''s3://'' url then Err (UnsupportedRepository (redacted_new url))
      else case strip_prefix_str ''file://'' url of
        Some p \<Rightarrow> if prefix ''/'' p then Ok p else Err (InvalidFileRepositoryUrl (redacted_new url))
      | None \<Rightarrow> absolute_source_path pr url)"

definition local_repository :: "process \<Rightarrow> resolved_config \<Rightarrow> repository_error + path" where
  "local_repository pr config =
     bindR (ok_or MissingRepository (cf_repository_url config)) (\<lambda>url.
     bindR (local_repository_path pr url) (\<lambda>p. Ok (path_of_string p)))"

section \<open>Passphrases\<close>

definition trim_line_end :: "string \<Rightarrow> string" where
  "trim_line_end s = rev (dropWhile (\<lambda>c. c = CHR 0x0D \<or> c = CHR 0x0A) (rev s))"

definition repository_passphrase :: "process \<Rightarrow> repository_error + string" where
  "repository_passphrase pr =
     (case pr_var pr ''FILEFERRY_PASSWORD'' of
        Some s \<Rightarrow> Ok s
      | None \<Rightarrow>
          (case pr_var pr ''FILEFERRY_PASSWORD_FILE'' of
             Some p \<Rightarrow>
               bindR (map_err (PasswordFileRead (redacted_new p)) (pr_read_to_string pr p)) (\<lambda>content.
               Ok (trim_line_end content))
           | None \<Rightarrow> Err MissingPassword))"

definition read_new_password_file :: "process \<Rightarrow> string \<Rightarrow> repository_error + string" where
  "read_new_password_file pr p =
     bindR (map_err (NewPasswordFileRead (redacted_new p)) (pr_read_to_string pr p)) (\<lambda>content.
     Ok (trim_line_end content))"

definition new_repository_passphrase :: "process \<Rightarrow> string option \<Rightarrow> repository_error + string" where
  "new_repository_passphrase pr p =
     (case p of
        Some file \<Rightarrow> read_new_password_file pr file
      | None \<Rightarrow>
          (case pr_var pr ''FILEFERRY_NEW_PASSWORD'' of
             Some s \<Rightarrow> Ok s
           | None \<Rightarrow>
               (case pr_var pr ''FILEFERRY_NEW_PASSWORD_FILE'' of
                  Some file \<Rightarrow> read_new_password_file pr file
                | None \<Rightarrow> Err MissingNewPassword)))"

definition tokio_runtime :: "process \<Rightarrow> repository_error + unit" where
  "tokio_runtime pr = (case pr_runtime pr of None \<Rightarrow> Ok () | Some source \<Rightarrow> Err (RepositoryRuntime source))"

section \<open>Redaction hides secrets\<close>

lemma rfind_char_last: "c \<notin> set ys \<Longrightarrow> rfind_char c (xs @ c # ys) = Some (length xs)"
proof -
  assume "c \<notin> set ys"
  then have "takeWhile (\<lambda>x. x \<noteq> c) (rev ys @ c # rev xs) = rev ys" by (simp add: takeWhile_tail) (auto simp: takeWhile_eq_all_conv)
  then show ?thesis by (simp add: rfind_char_def)
qed

lemma find_sub_scheme: "CHR '':'' \<notin> set scheme \<Longrightarrow> find_sub ''://'' (scheme @ ''://'' @ rest) = Some (length scheme)"
  by (induction scheme) auto

lemma prefix_before: "c \<notin> set xs \<Longrightarrow> prefix xs (p @ c # a) \<longleftrightarrow> prefix xs p"
  by (induction xs p rule: list_induct2') auto

text \<open>A URL is its scheme, the separator, and what the redaction leaves of the rest.\<close>

definition redact_authority :: "string \<Rightarrow> string" where
  "redact_authority r =
     (case rfind_char CHR ''@'' (takeWhile (\<lambda>c. \<not> authority_end c) r) of
        None \<Rightarrow> r
      | Some at \<Rightarrow> ''<redacted>@'' @ drop (at + 1) r)"

lemma redact_user_at:
  assumes "find_sub ''://'' s = Some n" and "s = x @ r" and "length x = n + 3"
  shows "redact_user s = x @ redact_authority r"
proof -
  have "drop (n + 3) s = r" "take (n + 3) s = x" "\<And>j. drop (n + 3 + j + 1) s = drop (j + 1) r" using assms(2,3) by simp_all
  then show ?thesis using assms(1,2)
    by (simp only: redact_user_def redact_authority_def Let_def option.case) (auto split: option.splits)
qed

text \<open>What comes after a question mark or a hash does not reach what comes before it.\<close>

lemma find_sub_before:
  assumes "c \<notin> set w" and "w \<noteq> []"
  shows "find_sub w (p @ c # a) = (case find_sub w p of Some i \<Rightarrow> Some i | None \<Rightarrow> map_option (\<lambda>i. length p + Suc i) (find_sub w a))"
proof (induction p)
  case Nil
  have "\<not> prefix w (c # a)" using assms by (cases w) auto
  then show ?case using assms(2) by simp
next
  case (Cons x p)
  have "prefix w (x # p @ c # a) \<longleftrightarrow> prefix w (x # p)" using prefix_before [OF assms(1), of "x # p" a] by simp
  then show ?case using Cons by (auto split: option.splits simp: option.map_comp comp_def)
qed

lemma redact_user_before:
  assumes c: "authority_end c" "c \<noteq> CHR ''/''"
  shows "\<exists>p'. \<forall>a. \<exists>a'. redact_user (p @ c # a) = p' @ c # a'"
proof -
  have w: "c \<notin> set ''://''" using c by (auto simp: authority_end_def)
  note find = find_sub_before [OF w, of p]
  show ?thesis
  proof (cases "find_sub ''://'' p")
    case None
    have "\<exists>a'. redact_user (p @ c # a) = p @ c # a'" for a
    proof (cases "find_sub ''://'' a")
      case None
      then show ?thesis using find \<open>find_sub ''://'' p = None\<close> by (auto simp: redact_user_def)
    next
      case (Some i)
      then have at: "find_sub ''://'' (p @ c # a) = Some (length p + Suc i)" using find None by simp
      obtain x y where a: "a = x @ y" "length x = i + 3"
        using find_sub_Some [OF Some] by (metis append_assoc length_append length_Cons list.size(3) numeral_3_eq_3)
      show ?thesis using redact_user_at [OF at, of "p @ c # x" y] a by simp
    qed
    then show ?thesis by blast
  next
    case (Some i)
    obtain x y where p: "p = (x @ ''://'') @ y" "length x = i" using find_sub_Some [OF Some] by auto
    have at: "redact_user (p @ c # a) = (x @ ''://'') @ redact_authority (y @ c # a)" for a
      by (rule redact_user_at [of _ i]) (use find Some p in auto)
    have auth: "takeWhile (\<lambda>c. \<not> authority_end c) (y @ c # a) = takeWhile (\<lambda>c. \<not> authority_end c) y" for a
      using c(1) by (simp add: takeWhile_tail)
    show ?thesis
    proof (cases "rfind_char CHR ''@'' (takeWhile (\<lambda>c. \<not> authority_end c) y)")
      case None
      then have "redact_user (p @ c # a) = p @ c # a" for a unfolding at by (simp add: redact_authority_def auth p(1))
      then show ?thesis by blast
    next
      case found: (Some j)
      then have "j < length (takeWhile (\<lambda>c. \<not> authority_end c) y)"
        by (auto simp: rfind_char_def split: if_splits) (metis diff_Suc_less length_pos_if_in_set)
      then have "j < length y" using length_takeWhile_le le_trans by (metis less_le_trans)
      then have "redact_user (p @ c # a) = (x @ ''://<redacted>@'' @ drop (j + 1) y) @ c # a" for a
        unfolding at using found by (simp add: redact_authority_def auth)
      then show ?thesis by blast
    qed
  qed
qed

lemma redact_from_cut: "redact_from c (p @ c # a) = takeWhile (\<lambda>x. x \<noteq> c) (p @ [c]) @ c # ''<redacted>''"
  by (cases "c \<in> set p") (auto simp: redact_from_def takeWhile_tail)

lemma redact_from_other:
  assumes "c \<noteq> d"
  shows "(\<forall>a. redact_from d (p @ c # a) = redact_from d p) \<or> (\<forall>a. \<exists>a'. redact_from d (p @ c # a) = p @ c # a')"
proof (cases "d \<in> set p")
  case True
  then show ?thesis by (auto simp: redact_from_def)
next
  case False
  then have "takeWhile (\<lambda>x. x \<noteq> d) (p @ c # a) = p @ c # takeWhile (\<lambda>x. x \<noteq> d) a" for a
    using assms by (subst takeWhile_append2) auto
  then have "\<exists>a'. redact_from d (p @ c # a) = p @ c # a'" for a by (simp add: redact_from_def)
  then show ?thesis by blast
qed

lemma redact_query: "redact_for_display (p @ ''?'' @ a) = redact_for_display (p @ ''?'' @ b)"
proof -
  have "authority_end CHR ''?''" by (simp add: authority_end_def)
  then obtain q where q: "\<And>a. \<exists>a'. redact_user (p @ CHR ''?'' # a) = q @ CHR ''?'' # a'" using redact_user_before [of "CHR ''?''" p] by auto
  obtain a' b' where "redact_user (p @ CHR ''?'' # a) = q @ CHR ''?'' # a'" "redact_user (p @ CHR ''?'' # b) = q @ CHR ''?'' # b'"
    using q [of a] q [of b] by blast
  then show ?thesis by (simp add: redact_for_display_def redact_from_cut prefix_before)
qed

lemma redact_fragment: "redact_for_display (p @ ''#'' @ a) = redact_for_display (p @ ''#'' @ b)"
proof -
  have "authority_end CHR ''#''" by (simp add: authority_end_def)
  then obtain q where q: "\<And>a. \<exists>a'. redact_user (p @ CHR ''#'' # a) = q @ CHR ''#'' # a'" using redact_user_before [of "CHR ''#''" p] by auto
  obtain a' b' where ab: "redact_user (p @ CHR ''#'' # a) = q @ CHR ''#'' # a'" "redact_user (p @ CHR ''#'' # b) = q @ CHR ''#'' # b'"
    using q [of a] q [of b] by blast
  have ne: "CHR ''#'' \<noteq> CHR ''?''" by simp
  have "redact_from CHR ''#'' (redact_from CHR ''?'' (q @ CHR ''#'' # a')) = redact_from CHR ''#'' (redact_from CHR ''?'' (q @ CHR ''#'' # b'))"
    using redact_from_other [of "CHR ''#''" "CHR ''?''" q, OF ne]
  proof (elim disjE)
    assume all: "\<forall>a. \<exists>a'. redact_from CHR ''?'' (q @ CHR ''#'' # a) = q @ CHR ''#'' # a'"
    obtain x y where "redact_from CHR ''?'' (q @ CHR ''#'' # a') = q @ CHR ''#'' # x" "redact_from CHR ''?'' (q @ CHR ''#'' # b') = q @ CHR ''#'' # y"
      using all by blast
    then show ?thesis by (simp add: redact_from_cut)
  qed simp_all
  then show ?thesis using ab by (simp add: redact_for_display_def prefix_before)
qed

lemma redact_user_hidden:
  assumes "CHR '':'' \<notin> set scheme" and "\<forall>c \<in> set u. \<not> authority_end c"
  shows "\<exists>r. redact_user (scheme @ ''://'' @ u @ ''@'' @ rest) = scheme @ ''://<redacted>@'' @ r \<and>
    (\<forall>v. (\<forall>c \<in> set v. \<not> authority_end c) \<longrightarrow> redact_user (scheme @ ''://'' @ v @ ''@'' @ rest) = scheme @ ''://<redacted>@'' @ r)"
proof -
  let ?A = "takeWhile (\<lambda>c. \<not> authority_end c) rest"
  obtain x y where xy: "CHR ''@'' # ?A = x @ CHR ''@'' # y" "CHR ''@'' \<notin> set y"
    using split_list_last [of "CHR ''@''" "CHR ''@'' # ?A"] by auto
  have one: "redact_user (scheme @ ''://'' @ v @ ''@'' @ rest) = scheme @ ''://<redacted>@'' @ drop (length x) rest"
    if v: "\<forall>c \<in> set v. \<not> authority_end c" for v
  proof -
    have "takeWhile (\<lambda>c. \<not> authority_end c) (v @ CHR ''@'' # rest) = (v @ x) @ CHR ''@'' # y"
      using v xy(1) by (simp add: takeWhile_append2 authority_end_def)
    then have "rfind_char CHR ''@'' (takeWhile (\<lambda>c. \<not> authority_end c) (v @ CHR ''@'' # rest)) = Some (length v + length x)"
      using rfind_char_last [OF xy(2), of "v @ x"] by simp
    then have "redact_authority (v @ CHR ''@'' # rest) = ''<redacted>@'' @ drop (length x) rest" by (simp add: redact_authority_def)
    then show ?thesis
      using redact_user_at [OF find_sub_scheme [OF assms(1), of "v @ ''@'' @ rest"], of "scheme @ ''://''" "v @ ''@'' @ rest"] by simp
  qed
  show ?thesis by (rule exI [of _ "drop (length x) rest"]) (use one assms(2) in simp)
qed

text \<open>
  C38: what is shown of a URL does not depend on the secrets in it: not on the user information (without the
  characters that end the authority), not on a query, not on a fragment, and not on anything of an S3 URL.
\<close>

theorem redaction_hides_secrets:
  assumes "CHR '':'' \<notin> set scheme" and "\<forall>c \<in> set u \<union> set v. \<not> authority_end c"
  shows "redact_for_display (scheme @ ''://'' @ u @ ''@'' @ rest) = redact_for_display (scheme @ ''://'' @ v @ ''@'' @ rest) \<and>
    redact_for_display (p @ ''?'' @ a) = redact_for_display (p @ ''?'' @ b) \<and>
    redact_for_display (p @ ''#'' @ a) = redact_for_display (p @ ''#'' @ b) \<and>
    redact_for_display (''s3://'' @ a) = redact_for_display (''s3://'' @ b)"
proof (intro conjI)
  obtain r where r: "redact_user (scheme @ ''://'' @ u @ ''@'' @ rest) = r" "redact_user (scheme @ ''://'' @ v @ ''@'' @ rest) = r"
    using redact_user_hidden [OF assms(1), of u rest] assms(2) by auto
  have "prefix ''s3://'' (scheme @ ''://'' @ x @ ''@'' @ rest) \<longleftrightarrow> scheme = ''s3''" for x
    using assms(1) by (auto simp: prefix_def append_eq_Cons_conv Cons_eq_append_conv)
  then show "redact_for_display (scheme @ ''://'' @ u @ ''@'' @ rest) = redact_for_display (scheme @ ''://'' @ v @ ''@'' @ rest)"
    using r unfolding redact_for_display_def by (simp only: if_True if_False)
qed (rule redact_query, rule redact_fragment, simp add: redact_for_display_def)

theorem redaction_hides_secrets_witness:
  "redact_for_display ''https://user:pw@host/x'' = redact_for_display ''https://a@host/x'' \<and>
   redact_for_display ''https://a@host/x'' = ''https://<redacted>@host/x''"
proof -
  have "\<forall>c \<in> set ''user:pw'' \<union> set ''a''. \<not> authority_end c" by (simp add: authority_end_def)
  then have "redact_for_display (''https'' @ ''://'' @ ''user:pw'' @ ''@'' @ ''host/x'') =
      redact_for_display (''https'' @ ''://'' @ ''a'' @ ''@'' @ ''host/x'')"
    using redaction_hides_secrets [of "''https''" "''user:pw''" "''a''" "''host/x''"] by simp
  moreover have "redact_for_display ''https://a@host/x'' = ''https://<redacted>@host/x''" by code_simp
  ultimately show ?thesis by simp
qed

end
