(* ===== verification/Ferry_Failures.thy ===== *)
theory Ferry_Failures
  imports Ferry_Config Ferry_Check
begin

text \<open>
  How failures leave the command line (\<open>crates/fileferry-cli/src/lib.rs\<close>): exit codes, stable failure
  codes, whether a retry can help, and the path, object key and finding that a failure report names. The
  \<open>Display\<close> text that \<open>thiserror\<close> generates for an error and \<open>Path::display\<close> are parameters.
\<close>

section \<open>Errors of the command line\<close>

datatype cli_error =
    CliConfig config_error
  | CliRepository repository_error
  | CliCore core_error
  | CliPolicy policy_error
  | CliJson json_error
  | CliCompletion io_error

section \<open>Exit codes\<close>

definition repository_exit_code :: "repository_error \<Rightarrow> nat" where
  "repository_exit_code e =
     (case e of
        MissingRepository \<Rightarrow> 2 | MissingPassword \<Rightarrow> 2 | MissingNewPassword \<Rightarrow> 2
      | PasswordFileRead _ _ \<Rightarrow> 2 | NewPasswordFileRead _ _ \<Rightarrow> 2
      | InvalidFileRepositoryUrl _ \<Rightarrow> 2 | InvalidS3RepositoryUrl _ _ \<Rightarrow> 2
      | MissingS3Environment _ \<Rightarrow> 2 | InvalidS3Config _ \<Rightarrow> 2
      | UnsupportedRepository _ \<Rightarrow> 9
      | RepositoryRuntime _ \<Rightarrow> 1)"

definition storage_exit_code :: "storage_error \<Rightarrow> nat" where
  "storage_exit_code e =
     (case e of
        ObjectNotFound _ \<Rightarrow> 3
      | InvalidObjectKey _ _ \<Rightarrow> 1 | PolicyConfig _ \<Rightarrow> 1
      | BackendConfig _ _ \<Rightarrow> 9
      | StorageIo _ _ \<Rightarrow> 5 | ObjectIo _ _ _ \<Rightarrow> 5 | BackendObject _ _ _ _ \<Rightarrow> 5 | Backend _ _ _ \<Rightarrow> 5
      | Timeout _ _ \<Rightarrow> 5 | ObjectAlreadyExists _ \<Rightarrow> 5)"

definition core_exit_code :: "core_error \<Rightarrow> nat" where
  "core_exit_code e =
     (case e of
        CoreStorage source \<Rightarrow> storage_exit_code source
      | RepositoryNotInitialized \<Rightarrow> 3 | UnsupportedRepositoryFormat _ \<Rightarrow> 3 | UnsupportedRepositoryFeatures \<Rightarrow> 3
      | RepositoryUnlock _ \<Rightarrow> 4
      | SnapshotNotFound _ \<Rightarrow> 7 | ForgetNoSnapshotsMatched \<Rightarrow> 7 | SnapshotPathNotFound _ _ \<Rightarrow> 7
      | RepositoryBootstrapDecode _ \<Rightarrow> 6 | InvalidRepositoryBootstrap _ \<Rightarrow> 6 | KeySlotDecode _ _ \<Rightarrow> 6
      | InvalidKeySlot _ _ \<Rightarrow> 6 | InvalidSnapshotManifest _ _ _ _ \<Rightarrow> 6 | CommitDecode _ _ \<Rightarrow> 6
      | InvalidCommitMarker _ _ \<Rightarrow> 6 | ForgetMarkerDecode _ _ \<Rightarrow> 6 | InvalidForgetMarker _ _ \<Rightarrow> 6
      | MetadataIdentityMismatch _ _ _ _ \<Rightarrow> 6 | ObjectDecode _ _ \<Rightarrow> 6 | ObjectAuthentication _ _ \<Rightarrow> 6
      | MetadataDecode _ _ \<Rightarrow> 6 | ChunkIdentityMismatch _ _ _ _ _ \<Rightarrow> 6 | ChunkIndexMismatch _ _ _ _ _ \<Rightarrow> 6
      | Decompression _ _ _ _ _ \<Rightarrow> 6 | InvalidChunkLength _ _ _ _ \<Rightarrow> 6 | MissingChunkIndexEntry _ _ _ _ \<Rightarrow> 6
      | Encryption _ \<Rightarrow> 6
      | CoreObjectKey _ \<Rightarrow> 1 | Serialization _ \<Rightarrow> 1 | SystemClock _ \<Rightarrow> 1
      | InvalidBackupPipelineConfig _ \<Rightarrow> 1 | InvalidChunkingConfig _ \<Rightarrow> 1
      | SourceRootNotAbsolute _ \<Rightarrow> 2 | InvalidCheckDataSubset _ \<Rightarrow> 2 | InvalidRestoreRequest _ \<Rightarrow> 2
      | RestoreDestinationNotAbsolute _ \<Rightarrow> 2 | RestoreDestinationEscapesRoot _ \<Rightarrow> 2
      | RestoreDestinationSymlink _ _ \<Rightarrow> 2 | RestoreDestinationExists _ \<Rightarrow> 2 | RestoreDestinationKind _ \<Rightarrow> 2
      | SourceRootRead _ _ \<Rightarrow> 5 | DirectoryRead _ _ \<Rightarrow> 5 | DirectoryEntryRead _ _ \<Rightarrow> 5
      | MetadataCapture _ _ \<Rightarrow> 5 | FileRead _ _ \<Rightarrow> 5 | Compression _ _ \<Rightarrow> 5
      | RestoreDestinationWrite _ _ \<Rightarrow> 5 | RestoreVerificationRead _ _ \<Rightarrow> 5
      | InvalidChunkRange _ \<Rightarrow> 6 | RestoreVerificationMismatch _ \<Rightarrow> 6
      | RepositoryCheckMissingObject _ \<Rightarrow> 6 | RepositoryReferencedObjectMissing _ \<Rightarrow> 6
      | UnsupportedRestoreFeature _ \<Rightarrow> 9)"

definition exit_code :: "cli_error \<Rightarrow> nat" where
  "exit_code e =
     (case e of
        CliConfig _ \<Rightarrow> 2
      | CliRepository error \<Rightarrow> repository_exit_code error
      | CliCore error \<Rightarrow> core_exit_code error
      | CliPolicy _ \<Rightarrow> 2
      | CliJson _ \<Rightarrow> 1 | CliCompletion _ \<Rightarrow> 1)"

section \<open>Failure codes\<close>

definition storage_failure_code :: "storage_error \<Rightarrow> string" where
  "storage_failure_code e =
     (case e of
        InvalidObjectKey _ _ \<Rightarrow> ''storage_object_key_invalid''
      | ObjectAlreadyExists _ \<Rightarrow> ''storage_object_already_exists''
      | ObjectNotFound _ \<Rightarrow> ''storage_object_not_found''
      | StorageIo _ _ \<Rightarrow> ''storage_io_failed''
      | BackendConfig _ _ \<Rightarrow> ''storage_backend_config_failed''
      | ObjectIo _ _ _ \<Rightarrow> ''storage_object_io_failed''
      | BackendObject _ _ _ _ \<Rightarrow> ''storage_backend_object_failed''
      | Backend _ _ _ \<Rightarrow> ''storage_backend_failed''
      | Timeout _ _ \<Rightarrow> ''storage_timeout''
      | PolicyConfig _ \<Rightarrow> ''storage_policy_config_invalid'')"

definition core_failure_code :: "core_error \<Rightarrow> string" where
  "core_failure_code e =
     (case e of
        SourceRootNotAbsolute _ \<Rightarrow> ''source_root_not_absolute''
      | SourceRootRead _ _ \<Rightarrow> ''source_root_read_failed''
      | DirectoryRead _ _ \<Rightarrow> ''directory_read_failed''
      | DirectoryEntryRead _ _ \<Rightarrow> ''directory_entry_read_failed''
      | MetadataCapture _ _ \<Rightarrow> ''metadata_capture_failed''
      | InvalidChunkingConfig _ \<Rightarrow> ''chunking_config_invalid''
      | InvalidBackupPipelineConfig _ \<Rightarrow> ''backup_pipeline_config_invalid''
      | InvalidCheckDataSubset _ \<Rightarrow> ''check_data_subset_invalid''
      | FileRead _ _ \<Rightarrow> ''file_read_failed''
      | InvalidChunkRange _ \<Rightarrow> ''chunk_range_invalid''
      | Compression _ _ \<Rightarrow> ''chunk_compression_failed''
      | Decompression _ _ _ _ _ \<Rightarrow> ''chunk_decompression_failed''
      | InvalidChunkLength _ _ _ _ \<Rightarrow> ''chunk_length_invalid''
      | MissingChunkIndexEntry _ _ _ _ \<Rightarrow> ''chunk_index_entry_missing''
      | ChunkIndexMismatch _ _ _ _ _ \<Rightarrow> ''chunk_index_mismatch''
      | ChunkIdentityMismatch _ _ _ _ _ \<Rightarrow> ''chunk_identity_mismatch''
      | Encryption _ \<Rightarrow> ''repository_authentication_failed''
      | Serialization _ \<Rightarrow> ''repository_metadata_serialization_failed''
      | ObjectDecode _ _ \<Rightarrow> ''repository_object_decode_failed''
      | ObjectAuthentication _ _ \<Rightarrow> ''repository_object_authentication_failed''
      | MetadataDecode _ _ \<Rightarrow> ''repository_metadata_decode_failed''
      | MetadataIdentityMismatch _ _ _ _ \<Rightarrow> ''repository_metadata_identity_mismatch''
      | CommitDecode _ _ \<Rightarrow> ''repository_commit_decode_failed''
      | InvalidCommitMarker _ _ \<Rightarrow> ''repository_commit_marker_invalid''
      | ForgetNoSnapshotsMatched \<Rightarrow> ''forget_no_snapshots_matched''
      | ForgetMarkerDecode _ _ \<Rightarrow> ''repository_forget_marker_decode_failed''
      | InvalidForgetMarker _ _ \<Rightarrow> ''repository_forget_marker_invalid''
      | RepositoryBootstrapDecode _ \<Rightarrow> ''repository_bootstrap_decode_failed''
      | RepositoryNotInitialized \<Rightarrow> ''repository_not_initialized''
      | InvalidRepositoryBootstrap _ \<Rightarrow> ''repository_bootstrap_invalid''
      | KeySlotDecode _ _ \<Rightarrow> ''repository_key_slot_decode_failed''
      | InvalidKeySlot _ _ \<Rightarrow> ''repository_key_slot_invalid''
      | UnsupportedRepositoryFormat _ \<Rightarrow> ''repository_format_unsupported''
      | UnsupportedRepositoryFeatures \<Rightarrow> ''repository_features_unsupported''
      | RepositoryUnlock _ \<Rightarrow> ''repository_unlock_failed''
      | SnapshotNotFound _ \<Rightarrow> ''snapshot_not_found''
      | SnapshotPathNotFound _ _ \<Rightarrow> ''snapshot_path_not_found''
      | InvalidSnapshotManifest _ _ _ _ \<Rightarrow> ''snapshot_manifest_invalid''
      | InvalidRestoreRequest _ \<Rightarrow> ''restore_request_invalid''
      | RestoreDestinationNotAbsolute _ \<Rightarrow> ''restore_destination_not_absolute''
      | RestoreDestinationEscapesRoot _ \<Rightarrow> ''restore_destination_escapes_root''
      | RestoreDestinationSymlink _ _ \<Rightarrow> ''restore_destination_symlink''
      | RestoreDestinationExists _ \<Rightarrow> ''restore_destination_exists''
      | RestoreDestinationKind _ \<Rightarrow> ''restore_destination_kind_mismatch''
      | RestoreDestinationWrite _ _ \<Rightarrow> ''restore_destination_write_failed''
      | RestoreVerificationRead _ _ \<Rightarrow> ''restore_verification_read_failed''
      | RestoreVerificationMismatch _ \<Rightarrow> ''restore_verification_mismatch''
      | UnsupportedRestoreFeature _ \<Rightarrow> ''restore_feature_unsupported''
      | RepositoryCheckMissingObject _ \<Rightarrow> ''repository_check_missing_object''
      | RepositoryReferencedObjectMissing _ \<Rightarrow> ''repository_referenced_object_missing''
      | SystemClock _ \<Rightarrow> ''system_clock_invalid''
      | CoreObjectKey _ \<Rightarrow> ''repository_object_key_invalid''
      | CoreStorage source \<Rightarrow> storage_failure_code source)"


definition failure_code :: "cli_error \<Rightarrow> string" where
  "failure_code e =
     (case e of
        CliConfig error \<Rightarrow>
          (case error of
             ConfigRead _ _ \<Rightarrow> ''config_read_failed''
           | ConfigParse _ _ \<Rightarrow> ''config_parse_failed''
           | MissingProfile _ _ \<Rightarrow> ''config_profile_missing''
           | InvalidRepositoryUrl _ \<Rightarrow> ''config_repository_url_invalid''
           | InvalidLogLevel _ \<Rightarrow> ''config_log_level_invalid''
           | InvalidProgress _ \<Rightarrow> ''config_progress_invalid'')
      | CliRepository error \<Rightarrow>
          (case error of
             MissingRepository \<Rightarrow> ''repository_url_missing''
           | MissingPassword \<Rightarrow> ''repository_password_missing''
           | MissingNewPassword \<Rightarrow> ''repository_new_password_missing''
           | PasswordFileRead _ _ \<Rightarrow> ''repository_password_file_read_failed''
           | NewPasswordFileRead _ _ \<Rightarrow> ''repository_new_password_file_read_failed''
           | UnsupportedRepository _ \<Rightarrow> ''repository_url_unsupported''
           | InvalidFileRepositoryUrl _ \<Rightarrow> ''repository_file_url_invalid''
           | InvalidS3RepositoryUrl _ _ \<Rightarrow> ''repository_s3_url_invalid''
           | MissingS3Environment _ \<Rightarrow> ''repository_s3_environment_missing''
           | InvalidS3Config _ \<Rightarrow> ''repository_s3_config_invalid''
           | RepositoryRuntime _ \<Rightarrow> ''repository_runtime_failed'')
      | CliCore error \<Rightarrow> core_failure_code error
      | CliPolicy error \<Rightarrow>
          (case error of
             EmptyPolicy \<Rightarrow> ''retention_policy_empty''
           | UnknownRule _ \<Rightarrow> ''retention_policy_rule_unknown''
           | MissingValue _ \<Rightarrow> ''retention_policy_value_missing''
           | DuplicateRule _ \<Rightarrow> ''retention_policy_rule_duplicated''
           | InvalidCount _ _ \<Rightarrow> ''retention_policy_count_invalid''
           | InvalidTag _ _ \<Rightarrow> ''retention_policy_tag_invalid'')
      | CliJson _ \<Rightarrow> ''json_serialization_failed''
      | CliCompletion _ \<Rightarrow> ''completion_generation_failed'')"

section \<open>Retries\<close>

definition storage_retryable :: "storage_error \<Rightarrow> bool" where
  "storage_retryable e =
     (case e of
        StorageIo _ _ \<Rightarrow> True | ObjectIo _ _ _ \<Rightarrow> True | BackendObject _ _ _ _ \<Rightarrow> True
      | Backend _ _ _ \<Rightarrow> True | Timeout _ _ \<Rightarrow> True | _ \<Rightarrow> False)"

definition failure_retryable :: "cli_error \<Rightarrow> bool" where
  "failure_retryable e =
     (case e of
        CliCore error \<Rightarrow>
          (case error of
             CoreStorage source \<Rightarrow> storage_retryable source
           | SourceRootRead _ _ \<Rightarrow> True | DirectoryRead _ _ \<Rightarrow> True | DirectoryEntryRead _ _ \<Rightarrow> True
           | MetadataCapture _ _ \<Rightarrow> True | FileRead _ _ \<Rightarrow> True
           | RestoreDestinationWrite _ _ \<Rightarrow> True | RestoreVerificationRead _ _ \<Rightarrow> True
           | _ \<Rightarrow> False)
      | _ \<Rightarrow> False)"

section \<open>What a failure names\<close>

text \<open>\<open>display\<close> is \<open>Path::display\<close>.\<close>

definition core_failure_path :: "(path \<Rightarrow> string) \<Rightarrow> core_error \<Rightarrow> string option" where
  "core_failure_path display e =
     map_option (\<lambda>p. redact_for_display (display p))
       (case e of
          SourceRootNotAbsolute p \<Rightarrow> Some p | InvalidChunkRange p \<Rightarrow> Some p
        | SnapshotPathNotFound _ p \<Rightarrow> Some p | InvalidSnapshotManifest _ _ p _ \<Rightarrow> p
        | MissingChunkIndexEntry _ p _ _ \<Rightarrow> Some p | ChunkIndexMismatch _ p _ _ _ \<Rightarrow> Some p
        | RestoreDestinationNotAbsolute p \<Rightarrow> Some p | RestoreDestinationEscapesRoot p \<Rightarrow> Some p
        | RestoreDestinationExists p \<Rightarrow> Some p | RestoreDestinationKind p \<Rightarrow> Some p
        | RestoreDestinationWrite p _ \<Rightarrow> Some p | RestoreVerificationRead p _ \<Rightarrow> Some p
        | RestoreVerificationMismatch p \<Rightarrow> Some p
        | SourceRootRead p _ \<Rightarrow> Some p | DirectoryRead p _ \<Rightarrow> Some p | DirectoryEntryRead p _ \<Rightarrow> Some p
        | MetadataCapture p _ \<Rightarrow> Some p | FileRead p _ \<Rightarrow> Some p | Compression p _ \<Rightarrow> Some p
        | RestoreDestinationSymlink p _ \<Rightarrow> Some p
        | Decompression _ _ p _ _ \<Rightarrow> p | InvalidChunkLength _ _ p _ \<Rightarrow> p | ChunkIdentityMismatch _ _ _ p _ \<Rightarrow> p
        | _ \<Rightarrow> None)"

definition failure_path :: "(path \<Rightarrow> string) \<Rightarrow> cli_error \<Rightarrow> string option" where
  "failure_path display e =
     (case e of
        CliConfig error \<Rightarrow>
          (case error of
             ConfigRead p _ \<Rightarrow> Some (redacted_str p) | ConfigParse p _ \<Rightarrow> Some (redacted_str p)
           | MissingProfile _ p \<Rightarrow> Some (redacted_str p) | _ \<Rightarrow> None)
      | CliRepository error \<Rightarrow>
          (case error of
             PasswordFileRead p _ \<Rightarrow> Some (redacted_str p)
           | NewPasswordFileRead p _ \<Rightarrow> Some (redacted_str p) | _ \<Rightarrow> None)
      | CliCore error \<Rightarrow> core_failure_path display error
      | CliPolicy _ \<Rightarrow> None
      | CliJson _ \<Rightarrow> None | CliCompletion _ \<Rightarrow> None)"

definition core_failure_object_key :: "core_error \<Rightarrow> string option" where
  "core_failure_object_key e =
     (case e of
        ObjectDecode key _ \<Rightarrow> Some (as_str key) | ObjectAuthentication key _ \<Rightarrow> Some (as_str key)
      | MetadataDecode key _ \<Rightarrow> Some (as_str key) | KeySlotDecode key _ \<Rightarrow> Some (as_str key)
      | InvalidKeySlot key _ \<Rightarrow> Some (as_str key) | MetadataIdentityMismatch _ key _ _ \<Rightarrow> Some (as_str key)
      | InvalidSnapshotManifest _ key _ _ \<Rightarrow> Some (as_str key)
      | CommitDecode key _ \<Rightarrow> Some (as_str key) | InvalidCommitMarker key _ \<Rightarrow> Some (as_str key)
      | ForgetMarkerDecode key _ \<Rightarrow> Some (as_str key) | InvalidForgetMarker key _ \<Rightarrow> Some (as_str key)
      | RepositoryCheckMissingObject key \<Rightarrow> Some (as_str key)
      | RepositoryReferencedObjectMissing key \<Rightarrow> Some (as_str key)
      | MissingChunkIndexEntry _ _ _ key \<Rightarrow> Some key | ChunkIndexMismatch _ _ _ key _ \<Rightarrow> Some key
      | Decompression _ _ _ key _ \<Rightarrow> key | InvalidChunkLength _ _ _ key \<Rightarrow> key
      | ChunkIdentityMismatch _ _ _ _ key \<Rightarrow> key
      | CoreStorage source \<Rightarrow>
          (case source of
             ObjectAlreadyExists key \<Rightarrow> Some (as_str key) | ObjectNotFound key \<Rightarrow> Some (as_str key)
           | ObjectIo _ key _ \<Rightarrow> Some (as_str key) | BackendObject _ _ key _ \<Rightarrow> Some (as_str key)
           | _ \<Rightarrow> None)
      | _ \<Rightarrow> None)"

definition failure_object_key :: "cli_error \<Rightarrow> string option" where
  "failure_object_key e = (case e of CliCore error \<Rightarrow> core_failure_object_key error | _ \<Rightarrow> None)"

definition core_failure_snapshot_id :: "core_error \<Rightarrow> string option" where
  "core_failure_snapshot_id e =
     (case e of
        MissingChunkIndexEntry snapshot_id _ _ _ \<Rightarrow> Some snapshot_id
      | ChunkIndexMismatch snapshot_id _ _ _ _ \<Rightarrow> Some snapshot_id
      | InvalidSnapshotManifest snapshot_id _ _ _ \<Rightarrow> Some snapshot_id
      | Decompression _ snapshot_id _ _ _ \<Rightarrow> snapshot_id
      | InvalidChunkLength _ snapshot_id _ _ \<Rightarrow> snapshot_id
      | ChunkIdentityMismatch _ _ snapshot_id _ _ \<Rightarrow> snapshot_id
      | _ \<Rightarrow> None)"

text \<open>The errors of the core that are findings of a check.\<close>

definition is_check_finding :: "core_error \<Rightarrow> bool" where
  "is_check_finding e =
     (case e of
        RepositoryCheckMissingObject _ \<Rightarrow> True | RepositoryReferencedObjectMissing _ \<Rightarrow> True
      | ObjectDecode _ _ \<Rightarrow> True | ObjectAuthentication _ _ \<Rightarrow> True | MetadataDecode _ _ \<Rightarrow> True
      | InvalidSnapshotManifest _ _ _ _ \<Rightarrow> True | MetadataIdentityMismatch _ _ _ _ \<Rightarrow> True
      | CommitDecode _ _ \<Rightarrow> True | InvalidCommitMarker _ _ \<Rightarrow> True | MissingChunkIndexEntry _ _ _ _ \<Rightarrow> True
      | ChunkIndexMismatch _ _ _ _ _ \<Rightarrow> True | InvalidChunkLength _ _ _ _ \<Rightarrow> True
      | Decompression _ _ _ _ _ \<Rightarrow> True | ChunkIdentityMismatch _ _ _ _ _ \<Rightarrow> True | Encryption _ \<Rightarrow> True
      | _ \<Rightarrow> False)"

definition check_finding_for_core_error ::
  "(path \<Rightarrow> string) \<Rightarrow> (core_error \<Rightarrow> string) \<Rightarrow> core_error \<Rightarrow> check_finding option" where
  "check_finding_for_core_error display text e =
     (if is_check_finding e then
        Some \<lparr>cf_code = core_failure_code e, cf_severity = ErrorFinding,
              cf_object_key = core_failure_object_key e, cf_snapshot_id = core_failure_snapshot_id e,
              cf_path = map_option path_of_string (core_failure_path display e), cf_message = text e\<rparr>
      else None)"

record failure_report =
  fd_code :: string
  fd_message :: string
  fd_exit_code :: nat
  fd_retryable :: bool
  fd_path :: "string option"
  fd_object_key :: "string option"
  fd_finding :: "check_finding option"

text \<open>The texts of errors: \<open>tx_storage\<close>, \<open>tx_core\<close> and \<open>tx_cli\<close> are the generated \<open>Display\<close> implementations.\<close>

record texts =
  tx_path :: "path \<Rightarrow> string"
  tx_storage :: "storage_error \<Rightarrow> string"
  tx_core :: "core_error \<Rightarrow> string"
  tx_cli :: "cli_error \<Rightarrow> string"

definition failure_data :: "texts \<Rightarrow> string \<Rightarrow> cli_error \<Rightarrow> nat \<Rightarrow> failure_report" where
  "failure_data tx command e code =
     \<lparr>fd_code = failure_code e, fd_message = tx_cli tx e, fd_exit_code = code,
      fd_retryable = failure_retryable e, fd_path = failure_path (tx_path tx) e,
      fd_object_key = failure_object_key e,
      fd_finding =
        (case e of
           CliCore error \<Rightarrow>
             if command = ''check'' then check_finding_for_core_error (tx_path tx) (tx_core tx) error else None
         | _ \<Rightarrow> None)\<rparr>"

section \<open>Failure codes decide\<close>

text \<open>The failure codes with their exit codes, and whether a retry can help.\<close>

definition code_table :: "(string \<times> nat \<times> bool) list" where
  "code_table =
    [(''storage_object_key_invalid'', 1, False), (''storage_object_already_exists'', 5, False),
     (''storage_object_not_found'', 3, False), (''storage_io_failed'', 5, True),
     (''storage_backend_config_failed'', 9, False), (''storage_object_io_failed'', 5, True),
     (''storage_backend_object_failed'', 5, True), (''storage_backend_failed'', 5, True),
     (''storage_timeout'', 5, True), (''storage_policy_config_invalid'', 1, False),
     (''source_root_not_absolute'', 2, False), (''source_root_read_failed'', 5, True),
     (''directory_read_failed'', 5, True), (''directory_entry_read_failed'', 5, True),
     (''metadata_capture_failed'', 5, True), (''chunking_config_invalid'', 1, False),
     (''backup_pipeline_config_invalid'', 1, False), (''check_data_subset_invalid'', 2, False),
     (''file_read_failed'', 5, True), (''chunk_range_invalid'', 6, False),
     (''chunk_compression_failed'', 5, False), (''chunk_decompression_failed'', 6, False),
     (''chunk_length_invalid'', 6, False), (''chunk_index_entry_missing'', 6, False),
     (''chunk_index_mismatch'', 6, False), (''chunk_identity_mismatch'', 6, False),
     (''repository_authentication_failed'', 6, False),
     (''repository_metadata_serialization_failed'', 1, False), (''repository_object_decode_failed'', 6, False),
     (''repository_object_authentication_failed'', 6, False),
     (''repository_metadata_decode_failed'', 6, False), (''repository_metadata_identity_mismatch'', 6, False),
     (''repository_commit_decode_failed'', 6, False), (''repository_commit_marker_invalid'', 6, False),
     (''forget_no_snapshots_matched'', 7, False), (''repository_forget_marker_decode_failed'', 6, False),
     (''repository_forget_marker_invalid'', 6, False), (''repository_bootstrap_decode_failed'', 6, False),
     (''repository_not_initialized'', 3, False), (''repository_bootstrap_invalid'', 6, False),
     (''repository_key_slot_decode_failed'', 6, False), (''repository_key_slot_invalid'', 6, False),
     (''repository_format_unsupported'', 3, False), (''repository_features_unsupported'', 3, False),
     (''repository_unlock_failed'', 4, False), (''snapshot_not_found'', 7, False),
     (''snapshot_path_not_found'', 7, False), (''snapshot_manifest_invalid'', 6, False),
     (''restore_request_invalid'', 2, False), (''restore_destination_not_absolute'', 2, False),
     (''restore_destination_escapes_root'', 2, False), (''restore_destination_symlink'', 2, False),
     (''restore_destination_exists'', 2, False), (''restore_destination_kind_mismatch'', 2, False),
     (''restore_destination_write_failed'', 5, True), (''restore_verification_read_failed'', 5, True),
     (''restore_verification_mismatch'', 6, False), (''restore_feature_unsupported'', 9, False),
     (''repository_check_missing_object'', 6, False), (''repository_referenced_object_missing'', 6, False),
     (''system_clock_invalid'', 1, False), (''repository_object_key_invalid'', 1, False),
     (''config_read_failed'', 2, False), (''config_parse_failed'', 2, False),
     (''config_profile_missing'', 2, False), (''config_repository_url_invalid'', 2, False),
     (''config_log_level_invalid'', 2, False), (''config_progress_invalid'', 2, False),
     (''repository_url_missing'', 2, False), (''repository_password_missing'', 2, False),
     (''repository_new_password_missing'', 2, False), (''repository_password_file_read_failed'', 2, False),
     (''repository_new_password_file_read_failed'', 2, False), (''repository_url_unsupported'', 9, False),
     (''repository_file_url_invalid'', 2, False), (''repository_s3_url_invalid'', 2, False),
     (''repository_s3_environment_missing'', 2, False), (''repository_s3_config_invalid'', 2, False),
     (''repository_runtime_failed'', 1, False), (''retention_policy_empty'', 2, False),
     (''retention_policy_rule_unknown'', 2, False), (''retention_policy_value_missing'', 2, False),
     (''retention_policy_rule_duplicated'', 2, False), (''retention_policy_count_invalid'', 2, False),
     (''retention_policy_tag_invalid'', 2, False), (''json_serialization_failed'', 1, False),
     (''completion_generation_failed'', 1, False)]"

lemma map_of_look: "map_of ((a, b) # xs) k = (if a = k then Some b else map_of xs k)"
  by simp

lemma map_of_weak: "k = k' \<Longrightarrow> map_of xs k = map_of xs k'"
  by simp

lemma storage_in_table:
  "map_of code_table (storage_failure_code e) = Some (storage_exit_code e, storage_retryable e)"
  unfolding code_table_def
  by (cases e) (simp_all add: map_of_look storage_failure_code_def storage_exit_code_def storage_retryable_def
    cong: map_of_weak del: map_of.simps)

lemma core_in_table:
  "map_of code_table (core_failure_code e) = Some (core_exit_code e, failure_retryable (CliCore e))"
  unfolding core_failure_code_def core_exit_code_def failure_retryable_def
  by (cases e, simp_all only: core_error.case cli_error.case storage_in_table, unfold code_table_def)
    (simp_all add: map_of_look cong: map_of_weak del: map_of.simps)

lemmas failure_cases = failure_code_def exit_code_def failure_retryable_def repository_exit_code_def
  cli_error.case config_error.case repository_error.case policy_error.case

lemma failure_in_table: "map_of code_table (failure_code e) = Some (exit_code e, failure_retryable e)"
proof (cases e)
  case (CliConfig x)
  then show ?thesis unfolding code_table_def
    by (cases x, simp_all only: failure_cases) (simp_all add: map_of_look cong: map_of_weak del: map_of.simps)
next
  case (CliRepository x)
  then show ?thesis unfolding code_table_def
    by (cases x, simp_all only: failure_cases) (simp_all add: map_of_look cong: map_of_weak del: map_of.simps)
next
  case (CliCore x)
  then show ?thesis by (simp add: failure_code_def exit_code_def core_in_table)
next
  case (CliPolicy x)
  then show ?thesis unfolding code_table_def
    by (cases x, simp_all only: failure_cases) (simp_all add: map_of_look cong: map_of_weak del: map_of.simps)
next
  case (CliJson x)
  then show ?thesis unfolding code_table_def
    by (simp only: failure_cases) (simp add: map_of_look cong: map_of_weak del: map_of.simps)
next
  case (CliCompletion x)
  then show ?thesis unfolding code_table_def
    by (simp only: failure_cases) (simp add: map_of_look cong: map_of_weak del: map_of.simps)
qed

lemma storage_retryable_is: "storage_retryable e = is_retryable e"
  by (cases e) (simp_all add: storage_retryable_def)

lemma retryable_exit: "failure_retryable e \<Longrightarrow> exit_code e = 5"
  by (auto simp: failure_retryable_def storage_retryable_def exit_code_def core_exit_code_def storage_exit_code_def
      split: cli_error.splits core_error.splits storage_error.splits)

lemma finding_exit: "is_check_finding e \<Longrightarrow> core_exit_code e = 6"
  by (auto simp: is_check_finding_def core_exit_code_def split: core_error.splits)

lemma exit_family: "exit_code e \<in> set [1, 2, 3, 4, 5, 6, 7, 9]"
  by (cases e) (auto simp: exit_code_def repository_exit_code_def core_exit_code_def storage_exit_code_def
      split: repository_error.split core_error.split storage_error.split)

text \<open>
  C39: a failure report: the stable code alone decides the exit code and whether a retry can help; a failure
  never exits with 0 and only with a family of the contract; a retry helps only against failures of storage,
  network or files (exit code 5), and within storage it is the retry policy's own judgement; a finding of
  a check is an integrity failure (exit code 6).
\<close>

theorem failure_reports_consistent:
  "(\<exists>decide. \<forall>tx command e. decide (fd_code (failure_data tx command e (exit_code e))) =
      (fd_exit_code (failure_data tx command e (exit_code e)), fd_retryable (failure_data tx command e (exit_code e)))) \<and>
   range exit_code \<subseteq> {1, 2, 3, 4, 5, 6, 7, 9} \<and>
   {e. failure_retryable e} \<subseteq> {e. exit_code e = 5} \<and>
   (\<forall>source. failure_retryable (CliCore (CoreStorage source)) = is_retryable source) \<and>
   {e. fd_finding (failure_data tx command e (exit_code e)) \<noteq> None} \<subseteq> {e. exit_code e = 6}"
proof (intro conjI)
  show "\<exists>decide. \<forall>tx command e. decide (fd_code (failure_data tx command e (exit_code e))) =
      (fd_exit_code (failure_data tx command e (exit_code e)), fd_retryable (failure_data tx command e (exit_code e)))"
    by (rule exI [of _ "\<lambda>c. the (map_of code_table c)"]) (simp add: failure_data_def failure_in_table)
  show "range exit_code \<subseteq> {1, 2, 3, 4, 5, 6, 7, 9}" using exit_family by auto
  show "{e. failure_retryable e} \<subseteq> {e. exit_code e = 5}" using retryable_exit by blast
  show "\<forall>source. failure_retryable (CliCore (CoreStorage source)) = is_retryable source"
    by (simp add: failure_retryable_def storage_retryable_is)
  show "{e. fd_finding (failure_data tx command e (exit_code e)) \<noteq> None} \<subseteq> {e. exit_code e = 6}"
    by (auto simp: failure_data_def check_finding_for_core_error_def exit_code_def finding_exit
        split: cli_error.splits if_splits)
qed

text \<open>A finding names a path only up to a hash or a question mark in it, though these may occur in file names.\<close>

lemma finding_path_cut:
  "check_finding_for_core_error (\<lambda>_. ''notes #1.txt'') text (ChunkIndexMismatch s p c k r) =
     Some \<lparr>cf_code = ''chunk_index_mismatch'', cf_severity = ErrorFinding, cf_object_key = Some k,
       cf_snapshot_id = Some s, cf_path = Some [Normal ''notes #<redacted>''],
       cf_message = text (ChunkIndexMismatch s p c k r)\<rparr>"
proof -
  have "redact_for_display ''notes #1.txt'' = ''notes #<redacted>''" by code_simp
  moreover have "path_of_string ''notes #<redacted>'' = [Normal ''notes #<redacted>'']" by code_simp
  ultimately show ?thesis
    by (simp add: check_finding_for_core_error_def is_check_finding_def core_failure_code_def
        core_failure_object_key_def core_failure_snapshot_id_def core_failure_path_def)
qed

end
