(* ===== verification/Ferry_Output.thy ===== *)
theory Ferry_Output
  imports Ferry_Failures Ferry_Bootstrap Ferry_Backup Ferry_Restore
begin

text \<open>
  What the command line prints (\<open>crates/fileferry-cli/src/lib.rs\<close>): the data of each command, the JSON
  documents and event streams around them, and the human texts. \<open>serde_json\<close> is a parameter.
\<close>

section \<open>Data of the commands\<close>

record cli_output =
  out_stdout :: string
  out_stderr :: string
  out_exit_code :: nat

definition OUTPUT_SCHEMA_VERSION :: u8 where "OUTPUT_SCHEMA_VERSION = 1"

datatype event_kind = CommandStarted | Progress | Warning | CommandCompleted | CommandFailed

datatype command_status = StatusStarted | StatusSuccess | StatusFailure

record version_data =
  vd_command :: string
  vd_version :: string

datatype cli_backend_kind = CliLocal | CliS3Compatible

record init_data =
  in_repository_id :: string
  in_repository_url :: string
  in_format_version :: u16
  in_backend :: cli_backend_kind
  in_created :: bool
  in_key_slots :: nat

record kdf_summary =
  ks_algorithm :: string
  ks_memory_cost_kib :: u32
  ks_time_cost :: u32
  ks_parallelism :: u32

definition kdf_summary_from :: "kdf_params \<Rightarrow> kdf_summary" where
  "kdf_summary_from p =
     \<lparr>ks_algorithm = (case algorithm p of Argon2idV19 \<Rightarrow> ''argon2id_v19''),
      ks_memory_cost_kib = memory_cost_kib p, ks_time_cost = time_cost p, ks_parallelism = parallelism p\<rparr>"

record key_add_data =
  kd_repository_id :: string
  kd_key_slot_id :: string
  kd_key_slots :: nat
  kd_kdf :: kdf_summary
  kd_reencrypted :: bool

record backup_data =
  bd_snapshot_id :: string
  bd_repository_id :: string
  bd_started_at :: u64
  bd_completed_at :: u64
  bd_sources :: "string list"
  bd_tags :: "string list"
  bd_entries_scanned :: nat
  bd_files_backed_up :: nat
  bd_directories_backed_up :: nat
  bd_symlinks_backed_up :: nat
  bd_special_entries_seen :: nat
  bd_bytes_scanned :: u64
  bd_bytes_uploaded :: u64
  bd_chunks_seen :: nat
  bd_chunks_written :: nat
  bd_chunks_reused :: nat
  bd_index_ids :: "string list"
  bd_manifest_id :: string

record cli_metadata_warning =
  mw_path :: string
  mw_field :: string
  mw_reason :: string

record restore_data =
  rd_snapshot_id :: string
  rd_destination :: string
  rd_paths :: "string list"
  rd_dry_run :: bool
  rd_overwrite :: restore_overwrite_policy
  rd_entries_selected :: nat
  rd_files_written :: nat
  rd_directories_written :: nat
  rd_symlinks_written :: nat
  rd_metadata_planned :: nat
  rd_metadata_applied :: nat
  rd_metadata_warnings :: "cli_metadata_warning list"
  rd_bytes_written :: u64
  rd_verified_files :: nat

datatype cli_timestamp_status = TimeCaptured | TimeUnsupported | TimeDenied

record cli_timestamp_value =
  tv_status :: cli_timestamp_status
  tv_seconds :: "64 word option"
  tv_nanoseconds :: "u32 option"
  tv_denial_reason :: "string option"

record cli_snapshot_entry =
  le_path :: string
  le_kind :: entry_kind
  le_size_bytes :: "u64 option"
  le_modified :: cli_timestamp_value
  le_metadata_status :: metadata_state

record ls_data =
  ld_snapshot_id :: string
  ld_path :: string
  ld_entries :: "cli_snapshot_entry list"

record forget_snapshot_item =
  fi_snapshot_id :: string
  fi_created_at :: u64
  fi_tags :: "string list"
  fi_action :: retention_action
  fi_reasons :: "string list"
  fi_marker_object :: "string option"

record retention_policy_summary =
  ps_keep_last :: "u32 option"
  ps_keep_hourly :: "u32 option"
  ps_keep_daily :: "u32 option"
  ps_keep_weekly :: "u32 option"
  ps_keep_monthly :: "u32 option"
  ps_keep_yearly :: "u32 option"
  ps_keep_tags :: "string list"

record forget_data =
  fo_dry_run :: bool
  fo_snapshots_matched :: nat
  fo_snapshots_forgotten :: nat
  fo_retained_snapshots :: nat
  fo_object_deletion :: bool
  fo_marker_objects_written :: nat
  fo_candidate_snapshots :: "forget_snapshot_item list"
  fo_kept_snapshots :: "forget_snapshot_item list"
  fo_forgotten_snapshots :: "forget_snapshot_item list"
  fo_forgotten_snapshot_ids :: "string list"
  fo_policy_summary :: retention_policy_summary

record progress_data =
  pg_phase :: string
  pg_message :: string
  pg_items_done :: "nat option"
  pg_items_total :: "nat option"
  pg_bytes_done :: "u64 option"
  pg_bytes_total :: "u64 option"
  pg_snapshot_id :: "string option"
  pg_object_key :: "string option"

text \<open>The types at which the generic documents and events are used.\<close>

datatype command_data =
    InitOut init_data
  | KeyAddOut key_add_data
  | BackupOut backup_data
  | SnapshotsOut "snapshot_summary list"
  | LsOut ls_data
  | CheckOut repository_check_result
  | ForgetOut forget_data
  | RestoreOut restore_data
  | VersionOut version_data
  | ProgressOut progress_data
  | WarningOut cli_metadata_warning
  | FailureOut failure_report

record command_document =
  doc_schema_version :: u8
  doc_command :: string
  doc_status :: command_status
  doc_data :: command_data

record command_event =
  ce_schema_version :: u8
  ce_event :: event_kind
  ce_command :: string
  ce_status :: command_status
  ce_data :: "command_data option"

record json_lib =
  js_pretty :: "command_document \<Rightarrow> json_error + string"
  js_line :: "command_event \<Rightarrow> json_error + string"

section \<open>Documents and events\<close>

definition newline :: string where "newline = [CHR 0x0A]"

definition success_output :: "string \<Rightarrow> cli_output" where
  "success_output stdout = \<lparr>out_stdout = stdout, out_stderr = [], out_exit_code = 0\<rparr>"

definition json_document :: "json_lib \<Rightarrow> string \<Rightarrow> command_status \<Rightarrow> command_data \<Rightarrow> cli_error + string" where
  "json_document J command status d =
     bindR (map_err CliJson (js_pretty J
       \<lparr>doc_schema_version = OUTPUT_SCHEMA_VERSION, doc_command = command, doc_status = status, doc_data = d\<rparr>))
       (\<lambda>s. Ok (s @ newline))"

definition started_event :: "string \<Rightarrow> command_event" where
  "started_event command =
     \<lparr>ce_schema_version = OUTPUT_SCHEMA_VERSION, ce_event = CommandStarted, ce_command = command,
      ce_status = StatusStarted, ce_data = None\<rparr>"

definition completed_event :: "string \<Rightarrow> command_data \<Rightarrow> command_event" where
  "completed_event command d =
     \<lparr>ce_schema_version = OUTPUT_SCHEMA_VERSION, ce_event = CommandCompleted, ce_command = command,
      ce_status = StatusSuccess, ce_data = Some d\<rparr>"

definition progress_event :: "string \<Rightarrow> progress_data \<Rightarrow> command_event" where
  "progress_event command d =
     \<lparr>ce_schema_version = OUTPUT_SCHEMA_VERSION, ce_event = Progress, ce_command = command,
      ce_status = StatusStarted, ce_data = Some (ProgressOut d)\<rparr>"

definition warning_event :: "string \<Rightarrow> cli_metadata_warning \<Rightarrow> command_event" where
  "warning_event command d =
     \<lparr>ce_schema_version = OUTPUT_SCHEMA_VERSION, ce_event = Warning, ce_command = command,
      ce_status = StatusStarted, ce_data = Some (WarningOut d)\<rparr>"

definition event_stream :: "json_lib \<Rightarrow> command_event list \<Rightarrow> cli_error + string" where
  "event_stream J events =
     bindR (map_result (\<lambda>e. map_err CliJson (js_line J e)) events) (\<lambda>lines.
     Ok (join_with CHR 0x0A lines @ newline))"

definition emit_command ::
  "json_lib \<Rightarrow> output_mode \<Rightarrow> string \<Rightarrow> command_data \<Rightarrow> string \<Rightarrow> cli_error + cli_output" where
  "emit_command J omode command d human =
     bindR (case omode of
              HumanOutput \<Rightarrow> Ok human
            | JsonOutput \<Rightarrow> json_document J command StatusSuccess d
            | JsonlOutput \<Rightarrow> event_stream J [started_event command, completed_event command d])
       (\<lambda>stdout. Ok (success_output stdout))"

section \<open>Backup, restore, check and forget\<close>

definition emit_backup_command :: "json_lib \<Rightarrow> output_mode \<Rightarrow> backup_data \<Rightarrow> cli_error + cli_output" where
  "emit_backup_command J omode d =
     bindR (case omode of
         HumanOutput \<Rightarrow> Ok (''Created snapshot '' @ bd_snapshot_id d @ newline @
           ''entries='' @ show_nat (bd_entries_scanned d) @ '' files='' @ show_nat (bd_files_backed_up d) @
           '' directories='' @ show_nat (bd_directories_backed_up d) @ '' symlinks='' @ show_nat (bd_symlinks_backed_up d) @
           '' bytes_scanned='' @ show_nat (unat (bd_bytes_scanned d)) @ '' chunks_seen='' @ show_nat (bd_chunks_seen d) @
           '' chunks_written='' @ show_nat (bd_chunks_written d) @ '' chunks_reused='' @ show_nat (bd_chunks_reused d) @ newline)
       | JsonOutput \<Rightarrow> json_document J ''backup'' StatusSuccess (BackupOut d)
       | JsonlOutput \<Rightarrow> event_stream J (started_event ''backup'' #
           map (\<lambda>(phase, message). progress_event ''backup''
               \<lparr>pg_phase = phase, pg_message = message, pg_items_done = Some (bd_entries_scanned d),
                pg_items_total = Some (bd_entries_scanned d), pg_bytes_done = Some (bd_bytes_scanned d),
                pg_bytes_total = Some (bd_bytes_scanned d), pg_snapshot_id = Some (bd_snapshot_id d), pg_object_key = None\<rparr>)
             [(''walk_sources'', ''walked source paths''), (''plan_chunks'', ''planned content chunks''),
              (''write_chunks'', ''wrote encrypted chunks''), (''write_index'', ''wrote encrypted chunk index''),
              (''write_manifest'', ''wrote encrypted snapshot manifest''),
              (''write_commit'', ''wrote snapshot commit marker''), (''complete'', ''completed backup'')] @
           [completed_event ''backup'' (BackupOut d)]))
       (\<lambda>stdout. Ok (success_output stdout))"

definition restore_warning_stderr :: "cli_metadata_warning list \<Rightarrow> string" where
  "restore_warning_stderr warnings =
     concat (map (\<lambda>w. ''warning: restore metadata '' @ mw_field w @ '' for '' @ mw_path w @ '': '' @ mw_reason w @ newline)
       warnings)"

definition emit_restore_command :: "json_lib \<Rightarrow> output_mode \<Rightarrow> restore_data \<Rightarrow> cli_error + cli_output" where
  "emit_restore_command J omode d =
     (let code = (if rd_metadata_warnings d = [] then 0 else 10);
          stderr = (case omode of HumanOutput \<Rightarrow> restore_warning_stderr (rd_metadata_warnings d) | _ \<Rightarrow> []) in
      bindR (case omode of
         HumanOutput \<Rightarrow> Ok ((if rd_dry_run d then ''Would restore'' else ''Restored'') @ '' snapshot '' @ rd_snapshot_id d @
           '' to '' @ rd_destination d @ newline @
           ''entries_selected='' @ show_nat (rd_entries_selected d) @ '' directories='' @ show_nat (rd_directories_written d) @
           '' files='' @ show_nat (rd_files_written d) @ '' symlinks='' @ show_nat (rd_symlinks_written d) @
           '' bytes='' @ show_nat (unat (rd_bytes_written d)) @ '' verified_files='' @ show_nat (rd_verified_files d) @ newline)
       | JsonOutput \<Rightarrow> json_document J ''restore'' StatusSuccess (RestoreOut d)
       | JsonlOutput \<Rightarrow> event_stream J (started_event ''restore'' #
           map (\<lambda>(phase, message). progress_event ''restore''
               \<lparr>pg_phase = phase, pg_message = message, pg_items_done = Some (rd_entries_selected d),
                pg_items_total = Some (rd_entries_selected d), pg_bytes_done = Some (rd_bytes_written d),
                pg_bytes_total = Some (rd_bytes_written d), pg_snapshot_id = Some (rd_snapshot_id d), pg_object_key = None\<rparr>)
             [(''load_manifest'', ''loaded snapshot manifest''), (''read_chunks'', ''read and verified encrypted chunks''),
              (''write_entries'', ''processed restore entries''), (''apply_metadata'', ''recorded metadata restore status''),
              (''verify'', ''recorded restore verification status''), (''complete'', ''completed restore'')] @
           map (warning_event ''restore'') (rd_metadata_warnings d) @
           [completed_event ''restore'' (RestoreOut d)]))
       (\<lambda>stdout. Ok \<lparr>out_stdout = stdout, out_stderr = stderr, out_exit_code = code\<rparr>))"

definition display_check_read_data_mode :: "check_read_data_mode \<Rightarrow> string" where
  "display_check_read_data_mode m =
     (case m of MetadataOnlyMode \<Rightarrow> ''metadata_only'' | SubsetMode \<Rightarrow> ''subset'' | FullMode \<Rightarrow> ''full'')"

definition emit_check_command :: "json_lib \<Rightarrow> output_mode \<Rightarrow> repository_check_result \<Rightarrow> cli_error + cli_output" where
  "emit_check_command J omode d =
     bindR (case omode of
         HumanOutput \<Rightarrow> Ok (if cr_errors d = [] then
             ''Repository '' @ cr_repository_id d @ '' checked successfully'' @ newline @
             ''metadata_objects='' @ show_nat (cr_metadata_objects d) @ '' chunk_objects='' @ show_nat (cr_chunk_objects d) @
             '' bytes_read='' @ show_nat (unat (cr_bytes_read d)) @
             '' read_data_mode='' @ display_check_read_data_mode (cr_mode d) @ newline
           else ''Repository '' @ cr_repository_id d @ '' check found '' @ show_nat (length (cr_errors d)) @
             '' errors and '' @ show_nat (length (cr_warnings d)) @ '' warnings'' @ newline)
       | JsonOutput \<Rightarrow> json_document J ''check'' StatusSuccess (CheckOut d)
       | JsonlOutput \<Rightarrow> event_stream J (started_event ''check'' #
           map (\<lambda>(phase, message). progress_event ''check''
               \<lparr>pg_phase = phase, pg_message = message, pg_items_done = Some (cr_metadata_objects d + cr_chunk_objects d),
                pg_items_total = Some (cr_metadata_objects d + cr_chunk_objects d), pg_bytes_done = Some (cr_bytes_read d),
                pg_bytes_total = Some (cr_bytes_read d), pg_snapshot_id = None, pg_object_key = None\<rparr>)
             [(''load_commits'', ''loaded snapshot commit markers''),
              (''verify_metadata'', ''verified encrypted snapshot manifests''),
              (''verify_indexes'', ''verified encrypted chunk indexes''),
              (''read_data'', ''read and verified referenced chunk data''), (''complete'', ''completed repository check'')] @
           [completed_event ''check'' (CheckOut d)]))
       (\<lambda>stdout. Ok (success_output stdout))"

definition emit_forget_command :: "json_lib \<Rightarrow> output_mode \<Rightarrow> forget_data \<Rightarrow> cli_error + cli_output" where
  "emit_forget_command J omode d =
     bindR (case omode of
         HumanOutput \<Rightarrow> Ok ((if fo_dry_run d then ''Would mark forgotten'' else ''Marked forgotten'') @ '' '' @
           show_nat (fo_snapshots_forgotten d) @ '' snapshot(s)'' @ newline @
           ''retained_snapshots='' @ show_nat (fo_retained_snapshots d) @
           '' candidate_snapshots='' @ show_nat (fo_snapshots_matched d) @
           '' marker_objects_written='' @ show_nat (fo_marker_objects_written d) @ '' object_deletion=false'' @ newline)
       | JsonOutput \<Rightarrow> json_document J ''forget'' StatusSuccess (ForgetOut d)
       | JsonlOutput \<Rightarrow> event_stream J (started_event ''forget'' #
           map (\<lambda>(phase, message). progress_event ''forget''
               \<lparr>pg_phase = phase, pg_message = message, pg_items_done = Some (fo_snapshots_matched d),
                pg_items_total = Some (fo_snapshots_matched d), pg_bytes_done = None, pg_bytes_total = None,
                pg_snapshot_id = None, pg_object_key = None\<rparr>)
             [(''load_snapshots'', ''loaded committed snapshots''), (''evaluate_policy'', ''evaluated retention policy''),
              (''write_forget_state'', ''wrote snapshot forget markers''), (''complete'', ''completed forget'')] @
           [completed_event ''forget'' (ForgetOut d)]))
       (\<lambda>stdout. Ok (success_output stdout))"

section \<open>Failures\<close>

definition render_error_output ::
  "json_lib \<Rightarrow> texts \<Rightarrow> output_mode \<Rightarrow> string \<Rightarrow> cli_error \<Rightarrow> nat \<Rightarrow> cli_error + cli_output" where
  "render_error_output J tx omode command e code =
     (let d = FailureOut (failure_data tx command e code) in
      case omode of
        HumanOutput \<Rightarrow> Ok \<lparr>out_stdout = [], out_stderr = tx_cli tx e @ newline, out_exit_code = code\<rparr>
      | JsonOutput \<Rightarrow>
          bindR (json_document J command StatusFailure d) (\<lambda>stdout.
          Ok \<lparr>out_stdout = stdout, out_stderr = [], out_exit_code = code\<rparr>)
      | JsonlOutput \<Rightarrow>
          bindR (event_stream J [started_event command,
              \<lparr>ce_schema_version = OUTPUT_SCHEMA_VERSION, ce_event = CommandFailed, ce_command = command,
               ce_status = StatusFailure, ce_data = Some d\<rparr>]) (\<lambda>stdout.
          Ok \<lparr>out_stdout = stdout, out_stderr = [], out_exit_code = code\<rparr>))"

section \<open>Entries\<close>

definition timestamp_value :: "timestamp metadata_value \<Rightarrow> cli_timestamp_value" where
  "timestamp_value v =
     (case v of
        Captured t \<Rightarrow> \<lparr>tv_status = TimeCaptured, tv_seconds = Some (seconds t), tv_nanoseconds = Some (nanoseconds t),
                       tv_denial_reason = None\<rparr>
      | Unsupported \<Rightarrow> \<lparr>tv_status = TimeUnsupported, tv_seconds = None, tv_nanoseconds = None, tv_denial_reason = None\<rparr>
      | Denied reason \<Rightarrow> \<lparr>tv_status = TimeDenied, tv_seconds = None, tv_nanoseconds = None, tv_denial_reason = Some reason\<rparr>)"

definition display_snapshot_path :: "texts \<Rightarrow> path \<Rightarrow> string" where
  "display_snapshot_path tx p = (if p = [] then ''.'' else tx_path tx p)"

definition display_entry_kind :: "entry_kind \<Rightarrow> string" where
  "display_entry_kind k =
     (case k of RegularFile \<Rightarrow> ''file'' | Directory \<Rightarrow> ''dir'' | Symlink \<Rightarrow> ''symlink'' | OtherEntry \<Rightarrow> ''other'')"

definition cli_snapshot_entry_from :: "texts \<Rightarrow> snapshot_entry \<Rightarrow> cli_snapshot_entry" where
  "cli_snapshot_entry_from tx e =
     \<lparr>le_path = display_snapshot_path tx (sn_relative_path e), le_kind = sn_kind e, le_size_bytes = sn_size_bytes e,
      le_modified = timestamp_value (sn_modified e), le_metadata_status = sn_metadata_status e\<rparr>"

end
