(* ===== verification/Ferry_Commands.thy ===== *)
theory Ferry_Commands
  imports Ferry_Output Ferry_Local
begin

text \<open>
  The commands of \<open>ferry\<close> (\<open>crates/fileferry-cli/src/lib.rs\<close>): each opens the configured repository with
  the configured passphrase, calls the core crate and reports. A command runs on a machine (the store and
  the file system) and sees a process environment; clap and the clock are parameters. The constructors of the
  stores are fields of the environment, which \<open>Ferry_Machine\<close> fills with those of the storage crate.
\<close>

section \<open>Environment\<close>

record 's environment =
  en_process :: process
  en_library :: library
  en_texts :: texts
  en_json :: json_lib
  en_local_store :: "path \<Rightarrow> 's store_ops"
  en_s3_store :: "s3_store_config \<Rightarrow> storage_error + 's store_ops"
  en_view :: fs_view
  en_started :: system_time
  en_now :: system_time
  en_completed :: system_time
  en_completion :: "string \<Rightarrow> io_error + string"
  en_version :: string

text \<open>The conversions of the question mark operator.\<close>

definition repo_result :: "repository_error + 'a \<Rightarrow> ('w, cli_error, 'a) prog" where
  "repo_result r = lift_result (map_err CliRepository r)"

definition core_result :: "core_error + 'a \<Rightarrow> ('w, cli_error, 'a) prog" where
  "core_result r = lift_result (map_err CliCore r)"

definition core_run :: "('s world, core_error, 'a) prog \<Rightarrow> ('s host, cli_error, 'a) prog" where
  "core_run m = in_world (map_error CliCore m)"

section \<open>Arguments\<close>

definition unix_seconds_now :: "system_time \<Rightarrow> core_error + u64" where
  "unix_seconds_now now =
     (if now < 0 then Err (SystemClock (SystemTimeError (nat (- now))))
      else Ok (word_of_int (now div 10 ^ 9)))"

definition selection_from_args :: "string option \<Rightarrow> string option \<Rightarrow> bool \<Rightarrow> snapshot_selection" where
  "selection_from_args snapshot tag latest =
     (case (snapshot, tag, latest) of
        (Some s, None, False) \<Rightarrow> SelectId s
      | (None, Some t, False) \<Rightarrow> SelectTag t
      | _ \<Rightarrow> SelectLatest)"

definition parse_read_data_subset :: "(core_error \<Rightarrow> string) \<Rightarrow> string \<Rightarrow> string + check_read_data_subset" where
  "parse_read_data_subset text s =
     (if s \<noteq> [] \<and> last s = CHR ''%'' then
        let percent = butlast s in
        if percent = [] then Err (''percent subset must include a number before '' @ [CHR 0x27, CHR ''%'', CHR 0x27])
        else
          bindR (ok_or ''percent subset must be an integer from 1% through 100%'' (parse_unsigned 255 percent)) (\<lambda>p.
          map_err text (subset_percent (word_of_nat p)))
      else
        bindR (ok_or ''count subset must be a positive integer or percent like 5%'' (parse_unsigned (2 ^ 64 - 1) s)) (\<lambda>count.
        map_err text (subset_count count)))"

definition transpose_count :: "u32 option \<Rightarrow> policy_error + retention_count option" where
  "transpose_count v = (case v of None \<Rightarrow> Ok None | Some n \<Rightarrow> bindR (retention_count_new n) (\<lambda>c. Ok (Some c)))"

definition retention_policy_from_args ::
  "u32 option \<Rightarrow> u32 option \<Rightarrow> u32 option \<Rightarrow> u32 option \<Rightarrow> u32 option \<Rightarrow> u32 option \<Rightarrow> string list \<Rightarrow>
   policy_error + retention_policy" where
  "retention_policy_from_args l h d w m y tags =
     bindR (transpose_count l) (\<lambda>l. bindR (transpose_count h) (\<lambda>h. bindR (transpose_count d) (\<lambda>d.
     bindR (transpose_count w) (\<lambda>w. bindR (transpose_count m) (\<lambda>m. bindR (transpose_count y) (\<lambda>y.
     policy_validate \<lparr>keep_last = l, keep_hourly = h, keep_daily = d, keep_weekly = w, keep_monthly = m,
       keep_yearly = y, keep_tags = tags\<rparr>))))))"

section \<open>Opening the repository\<close>

text \<open>\<open>local_repository\<close> with the store it constructs.\<close>

definition local_repository_store :: "'s environment \<Rightarrow> resolved_config \<Rightarrow> repository_error + 's store_ops" where
  "local_repository_store en config =
     bindR (local_repository (en_process en) config) (\<lambda>root. Ok (en_local_store en root))"

record 's init_target =
  ir_url :: string
  ir_backend :: cli_backend_kind
  ir_store :: "'s store_ops"

definition init_repository_store :: "'s environment \<Rightarrow> resolved_config \<Rightarrow> repository_error + 's init_target" where
  "init_repository_store en config =
     bindR (ok_or MissingRepository (cf_repository_url config)) (\<lambda>url.
     if prefix ''s3://'' url then
       bindR (s3_repository_config (tx_storage (en_texts en)) url (s3_environment_current (en_process en))) (\<lambda>s3.
       bindR (map_err (\<lambda>_. InvalidS3Config ''S3 client configuration failed'') (en_s3_store en s3)) (\<lambda>store.
       Ok \<lparr>ir_url = url, ir_backend = CliS3Compatible, ir_store = store\<rparr>))
     else
       bindR (local_repository_path (en_process en) url) (\<lambda>p.
       Ok \<lparr>ir_url = url, ir_backend = CliLocal, ir_store = en_local_store en (path_of_string p)\<rparr>))"

definition pipeline_new :: "library \<Rightarrow> backup_pipeline_config \<Rightarrow> core_error + backup_pipeline_config" where
  "pipeline_new L config = bindR (pipeline_config_validate (lib_fastcdc L) config) (\<lambda>_. Ok config)"

text \<open>The steps from the store to the master key and the pipeline, which the commands share.\<close>

definition open_pipeline ::
  "'s environment \<Rightarrow> 's store_ops \<Rightarrow> string \<Rightarrow> ('s host, cli_error, opened_repository \<times> backup_pipeline_config) prog" where
  "open_pipeline en store passphrase =
     andThen (core_run (open_repository (en_library en) store passphrase)) (\<lambda>opened.
     andThen (core_result (pipeline_new (en_library en) (pipeline_config_new (or_repository_id opened)))) (\<lambda>pipeline.
     ret (opened, pipeline)))"

definition local_session ::
  "'s environment \<Rightarrow> resolved_config \<Rightarrow>
   ('s host, cli_error, 's store_ops \<times> opened_repository \<times> backup_pipeline_config) prog" where
  "local_session en config =
     andThen (repo_result (local_repository_store en config)) (\<lambda>store.
     andThen (repo_result (repository_passphrase (en_process en))) (\<lambda>passphrase.
     andThen (repo_result (tokio_runtime (en_process en))) (\<lambda>_.
     andThen (open_pipeline en store passphrase) (\<lambda>(opened, pipeline).
     ret (store, opened, pipeline)))))"

definition load_repository_snapshots ::
  "'s environment \<Rightarrow> resolved_config \<Rightarrow> ('s host, cli_error, snapshot_manifest list) prog" where
  "load_repository_snapshots en config =
     andThen (local_session en config) (\<lambda>(store, opened, pipeline).
     core_run (read_committed_snapshot_manifests (en_library en) pipeline store (or_master_key opened)))"

section \<open>Repositories and keys\<close>

definition emit :: "cli_error + cli_output \<Rightarrow> ('w, cli_error, cli_output) prog" where
  "emit r = lift_result r"

definition init_repository ::
  "'s environment \<Rightarrow> output_mode \<Rightarrow> resolved_config \<Rightarrow> ('s host, cli_error, cli_output) prog" where
  "init_repository en omode config =
     andThen (repo_result (init_repository_store en config)) (\<lambda>repository.
     andThen (repo_result (repository_passphrase (en_process en))) (\<lambda>passphrase.
     andThen (repo_result (tokio_runtime (en_process en))) (\<lambda>_.
     andThen (core_run (create_repository (en_library en) (ir_store repository) passphrase kdf_v0_default)) (\<lambda>result.
     let d = \<lparr>in_repository_id = or_repository_id (ri_repository result),
              in_repository_url = redact_for_display (ir_url repository),
              in_format_version = ri_format_version result, in_backend = ir_backend repository,
              in_created = ri_created result, in_key_slots = ri_key_slots result\<rparr> in
     emit (emit_command (en_json en) omode ''init'' (InitOut d)
       (if in_created d
        then ''Initialized repository '' @ in_repository_id d @ '' at '' @ in_repository_url d @ newline
        else ''Repository '' @ in_repository_id d @ '' already initialized at '' @ in_repository_url d @ newline))))))"

definition key_add ::
  "'s environment \<Rightarrow> output_mode \<Rightarrow> resolved_config \<Rightarrow> string option \<Rightarrow> ('s host, cli_error, cli_output) prog" where
  "key_add en omode config new_password_file =
     andThen (repo_result (local_repository_store en config)) (\<lambda>store.
     andThen (repo_result (repository_passphrase (en_process en))) (\<lambda>current_passphrase.
     andThen (repo_result (new_repository_passphrase (en_process en) new_password_file)) (\<lambda>new_passphrase.
     andThen (repo_result (tokio_runtime (en_process en))) (\<lambda>_.
     andThen (core_run (add_repository_key_slot (en_library en) store current_passphrase new_passphrase kdf_v0_default)) (\<lambda>result.
     let d = \<lparr>kd_repository_id = ka_repository_id result, kd_key_slot_id = ka_key_slot_id result,
              kd_key_slots = ka_key_slots result, kd_kdf = kdf_summary_from (ka_kdf result), kd_reencrypted = False\<rparr> in
     emit (emit_command (en_json en) omode ''key add'' (KeyAddOut d)
       (''Added key slot '' @ kd_key_slot_id d @ '' to repository '' @ kd_repository_id d @ newline @
        ''key_slots='' @ show_nat (kd_key_slots d) @ newline @ ''reencrypted_repository_objects=false'' @ newline)))))))"

section \<open>Backups\<close>

text \<open>\<open>None\<close> is a walk of the sources that does not return.\<close>

definition backup ::
  "'s environment \<Rightarrow> output_mode \<Rightarrow> resolved_config \<Rightarrow> string list \<Rightarrow> string list \<Rightarrow>
   's host \<Rightarrow> ((cli_error + cli_output) \<times> 's host) option" where
  "backup en omode config sources tags h =
     (let before =
        andThen (repo_result (local_repository_store en config)) (\<lambda>store.
        andThen (repo_result (repository_passphrase (en_process en))) (\<lambda>passphrase.
        andThen (repo_result (map_result (absolute_source_path (en_process en)) sources)) (\<lambda>roots.
        andThen (core_result (unix_seconds_now (en_started en))) (\<lambda>started_at.
        andThen (repo_result (tokio_runtime (en_process en))) (\<lambda>_.
        andThen (open_pipeline en store passphrase) (\<lambda>(opened, pipeline).
        ret (store, roots, started_at, opened, pipeline)))))))
      in case before h of
           (Err e, h) \<Rightarrow> Some (Err e, h)
         | (Ok (store, roots, started_at, opened, pipeline), h) \<Rightarrow>
             map_option (\<lambda>written.
               andThen (core_run written) (\<lambda>result.
               andThen (core_result (unix_seconds_now (en_completed en))) (\<lambda>completed_at.
               emit (emit_backup_command (en_json en) omode
                 \<lparr>bd_snapshot_id = wr_snapshot_id result, bd_repository_id = or_repository_id opened,
                  bd_started_at = started_at, bd_completed_at = completed_at,
                  bd_sources = map redact_for_display roots, bd_tags = tags,
                  bd_entries_scanned = wr_entries_scanned result, bd_files_backed_up = wr_files_backed_up result,
                  bd_directories_backed_up = wr_directories_backed_up result,
                  bd_symlinks_backed_up = wr_symlinks_backed_up result,
                  bd_special_entries_seen = wr_special_entries_seen result, bd_bytes_scanned = wr_bytes_scanned result,
                  bd_bytes_uploaded = wr_bytes_uploaded result, bd_chunks_seen = wr_chunks_seen result,
                  bd_chunks_written = wr_chunks_written result, bd_chunks_reused = wr_chunks_reused result,
                  bd_index_ids = wr_index_ids result, bd_manifest_id = wr_snapshot_id result\<rparr>))) h)
             (write_snapshot (en_library en) pipeline store (en_view en) (en_now en) (or_master_key opened)
               \<lparr>br_roots = map path_of_string roots, br_exclusion_rules = [], br_tags = tags\<rparr>))"

section \<open>Listings\<close>

definition snapshot_line :: "snapshot_summary \<Rightarrow> string" where
  "snapshot_line s =
     su_snapshot_id s @ '' '' @ show_nat (unat (su_created_at s)) @ '' entries='' @ show_nat (su_entry_count s) @
     '' sources='' @ show_nat (su_source_count s) @ '' tags='' @
     (if su_tags s = [] then ''-'' else join_with CHR '','' (su_tags s))"

definition snapshots ::
  "'s environment \<Rightarrow> output_mode \<Rightarrow> resolved_config \<Rightarrow> ('s host, cli_error, cli_output) prog" where
  "snapshots en omode config =
     andThen (load_repository_snapshots en config) (\<lambda>manifests.
     let d = snapshot_summaries manifests in
     emit (emit_command (en_json en) omode ''snapshots'' (SnapshotsOut d)
       (if d = [] then ''No snapshots found.'' @ newline
        else join_with CHR 0x0A (map snapshot_line d) @ newline)))"

definition entry_line :: "cli_snapshot_entry \<Rightarrow> string" where
  "entry_line e =
     display_entry_kind (le_kind e) @ [CHR 0x09] @
     (case le_size_bytes e of None \<Rightarrow> ''-'' | Some n \<Rightarrow> show_nat (unat n)) @ [CHR 0x09] @ le_path e"

definition ls ::
  "'s environment \<Rightarrow> output_mode \<Rightarrow> resolved_config \<Rightarrow> snapshot_selection \<Rightarrow> path \<Rightarrow> ('s host, cli_error, cli_output) prog" where
  "ls en omode config selection p =
     andThen (load_repository_snapshots en config) (\<lambda>manifests.
     andThen (core_result (select_snapshot manifests selection)) (\<lambda>manifest.
     andThen (core_result (list_snapshot_entries manifest p)) (\<lambda>listing.
     let d = \<lparr>ld_snapshot_id = sl_snapshot_id listing, ld_path = display_snapshot_path (en_texts en) (sl_path listing),
              ld_entries = map (cli_snapshot_entry_from (en_texts en)) (sl_entries listing)\<rparr> in
     emit (emit_command (en_json en) omode ''ls'' (LsOut d)
       (if ld_entries d = [] then [] else join_with CHR 0x0A (map entry_line (ld_entries d)) @ newline)))))"

section \<open>Check and forget\<close>

definition check ::
  "'s environment \<Rightarrow> output_mode \<Rightarrow> resolved_config \<Rightarrow> check_read_data_subset option \<Rightarrow>
   ('s host, cli_error, cli_output) prog" where
  "check en omode config read_data_subset =
     andThen (local_session en config) (\<lambda>(store, opened, pipeline).
     let options = (case read_data_subset of Some s \<Rightarrow> check_options_subset s | None \<Rightarrow> check_options_full) in
     andThen (core_run (check_repository_with_options (en_library en) pipeline store (en_now en)
                (or_master_key opened) options)) (\<lambda>d.
     emit (emit_check_command (en_json en) omode d)))"

definition retention_snapshot_of :: "snapshot_manifest \<Rightarrow> retention_snapshot" where
  "retention_snapshot_of m =
     \<lparr>ret_snapshot_id = sm_snapshot_id m, ret_created_at = mb_created_at (sm_body m), ret_tags = mb_tags (sm_body m)\<rparr>"

definition forget_item :: "retention_decision \<Rightarrow> (string, string \<times> bool) btree_map \<Rightarrow> forget_snapshot_item" where
  "forget_item d marker_writes =
     \<lparr>fi_snapshot_id = dec_snapshot_id d, fi_created_at = dec_created_at d, fi_tags = dec_tags d,
      fi_action = dec_action d, fi_reasons = dec_reasons d,
      fi_marker_object = map_option fst (bt_get marker_writes (dec_snapshot_id d))\<rparr>"

definition policy_summary_from :: "retention_policy \<Rightarrow> retention_policy_summary" where
  "policy_summary_from p =
     \<lparr>ps_keep_last = map_option count_get (keep_last p), ps_keep_hourly = map_option count_get (keep_hourly p),
      ps_keep_daily = map_option count_get (keep_daily p), ps_keep_weekly = map_option count_get (keep_weekly p),
      ps_keep_monthly = map_option count_get (keep_monthly p), ps_keep_yearly = map_option count_get (keep_yearly p),
      ps_keep_tags = keep_tags p\<rparr>"

definition forget_data_of ::
  "retention_policy \<Rightarrow> retention_plan \<Rightarrow> bool \<Rightarrow> (string, string \<times> bool) btree_map \<Rightarrow> forget_data" where
  "forget_data_of policy pl dry_run marker_writes =
     (let candidate_snapshots = map (\<lambda>d. forget_item d marker_writes) (plan_decisions pl);
          kept_snapshots = filter (\<lambda>i. fi_action i = Keep) candidate_snapshots;
          forgotten_snapshots = filter (\<lambda>i. fi_action i = Forget) candidate_snapshots
      in \<lparr>fo_dry_run = dry_run, fo_snapshots_matched = length candidate_snapshots,
          fo_snapshots_forgotten = length forgotten_snapshots, fo_retained_snapshots = length kept_snapshots,
          fo_object_deletion = False, fo_marker_objects_written = length (filter (\<lambda>w. snd (snd w)) marker_writes),
          fo_candidate_snapshots = candidate_snapshots, fo_kept_snapshots = kept_snapshots,
          fo_forgotten_snapshots = forgotten_snapshots,
          fo_forgotten_snapshot_ids = map fi_snapshot_id forgotten_snapshots,
          fo_policy_summary = policy_summary_from policy\<rparr>)"

text \<open>The part of \<open>forget\<close> after the repository is open, up to the report.\<close>

definition forget_snapshots ::
  "library \<Rightarrow> backup_pipeline_config \<Rightarrow> 's store_ops \<Rightarrow> system_time \<Rightarrow> master_key \<Rightarrow> retention_policy \<Rightarrow> bool \<Rightarrow>
   ('s world, core_error, forget_data) prog" where
  "forget_snapshots L pipeline store now master policy dry_run =
     andThen (read_committed_snapshot_manifests L pipeline store master) (\<lambda>manifests.
     let pl = plan policy (map retention_snapshot_of manifests);
         forgotten_snapshot_ids = map dec_snapshot_id (plan_forgotten pl) in
     if forgotten_snapshot_ids = [] then lift_result (Err ForgetNoSnapshotsMatched)
     else
       andThen (if dry_run then ret []
                else andThen (write_snapshot_forget_markers L store now forgotten_snapshot_ids) (\<lambda>markers.
                  ret (foldl (\<lambda>m w. bt_insert (fw_snapshot_id w) (fw_marker_object w, fw_created w) m) [] markers)))
         (\<lambda>marker_writes. ret (forget_data_of policy pl dry_run marker_writes)))"

definition forget ::
  "'s environment \<Rightarrow> output_mode \<Rightarrow> resolved_config \<Rightarrow> retention_policy \<Rightarrow> bool \<Rightarrow> ('s host, cli_error, cli_output) prog" where
  "forget en omode config policy dry_run =
     andThen (local_session en config) (\<lambda>(store, opened, pipeline).
     andThen (core_run (forget_snapshots (en_library en) pipeline store (en_now en) (or_master_key opened) policy dry_run)) (\<lambda>d.
     emit (emit_forget_command (en_json en) omode d)))"

section \<open>Restore\<close>

definition restore ::
  "'s environment \<Rightarrow> output_mode \<Rightarrow> resolved_config \<Rightarrow> snapshot_selection \<Rightarrow> string list \<Rightarrow> string \<Rightarrow> bool \<Rightarrow> bool \<Rightarrow>
   ('s host, cli_error, cli_output) prog" where
  "restore en omode config selection paths destination dry_run overwrite =
     andThen (repo_result (local_repository_store en config)) (\<lambda>store.
     andThen (repo_result (repository_passphrase (en_process en))) (\<lambda>passphrase.
     andThen (repo_result (absolute_source_path (en_process en) destination)) (\<lambda>destination.
     let paths = map path_of_string paths;
         overwrite_policy = (if overwrite then OverwriteFiles else FailIfExists) in
     andThen (repo_result (tokio_runtime (en_process en))) (\<lambda>_.
     andThen (open_pipeline en store passphrase) (\<lambda>(opened, pipeline).
     andThen (core_run (read_committed_snapshot_manifests (en_library en) pipeline store (or_master_key opened))) (\<lambda>manifests.
     andThen (core_result (select_snapshot manifests selection)) (\<lambda>manifest.
     andThen (map_error CliCore (restore_snapshot_to_destination (en_library en) pipeline store (or_master_key opened)
       \<lparr>dr_snapshot_id = sm_snapshot_id manifest, dr_paths = paths, dr_destination = path_of_string destination,
        dr_overwrite = overwrite_policy, dr_dry_run = dry_run, dr_verify = True\<rparr>)) (\<lambda>result.
     emit (emit_restore_command (en_json en) omode
       \<lparr>rd_snapshot_id = de_snapshot_id result, rd_destination = redact_for_display destination,
        rd_paths = map (display_snapshot_path (en_texts en)) paths, rd_dry_run = de_dry_run result,
        rd_overwrite = overwrite_policy, rd_entries_selected = de_selected_entries result,
        rd_files_written = length (filter (\<lambda>f. df_action f \<in> {Written, WouldWrite}) (de_files result)),
        rd_directories_written = length (filter (\<lambda>d. dd_action d \<in> {Written, WouldWrite}) (de_directories result)),
        rd_symlinks_written = length (filter (\<lambda>s. ds_action s \<in> {Written, WouldWrite}) (de_symlinks result)),
        rd_metadata_planned = de_metadata_planned result, rd_metadata_applied = de_metadata_applied result,
        rd_metadata_warnings = map (\<lambda>w. \<lparr>mw_path = display_snapshot_path (en_texts en) (rw_relative_path w),
            mw_field = rw_field w, mw_reason = rw_reason w\<rparr>) (de_metadata_warnings result),
        rd_bytes_written = de_bytes result, rd_verified_files = de_verified_files result\<rparr>)))))))))"

section \<open>Dispatch\<close>

definition version :: "'s environment \<Rightarrow> output_mode \<Rightarrow> ('w, cli_error, cli_output) prog" where
  "version en omode =
     emit (emit_command (en_json en) omode ''version''
       (VersionOut \<lparr>vd_command = ''ferry'', vd_version = en_version en\<rparr>) (''ferry '' @ en_version en @ newline))"

definition completion :: "'s environment \<Rightarrow> string \<Rightarrow> ('w, cli_error, cli_output) prog" where
  "completion en shell =
     lift_result (bindR (map_err CliCompletion (en_completion en shell)) (\<lambda>stdout. Ok (success_output stdout)))"

datatype cli_command =
    CompletionCommand string
  | InitCommand
  | BackupCommand "string list" "string list"
  | SnapshotsCommand
  | LsCommand "string option" "string option" bool "string option"
  | CheckCommand "check_read_data_subset option"
  | ForgetCommand bool "u32 option" "u32 option" "u32 option" "u32 option" "u32 option" "u32 option" "string list"
  | KeyAddCommand "string option"
  | RestoreCommand "string option" "string option" bool "string list" bool bool string
  | VersionCommand

fun command_name :: "cli_command \<Rightarrow> string" where
  "command_name (CompletionCommand _) = ''completion''"
| "command_name InitCommand = ''init''"
| "command_name (BackupCommand _ _) = ''backup''"
| "command_name SnapshotsCommand = ''snapshots''"
| "command_name (LsCommand _ _ _ _) = ''ls''"
| "command_name (CheckCommand _) = ''check''"
| "command_name (ForgetCommand _ _ _ _ _ _ _ _) = ''forget''"
| "command_name (KeyAddCommand _) = ''key add''"
| "command_name (RestoreCommand _ _ _ _ _ _ _) = ''restore''"
| "command_name VersionCommand = ''version''"

definition configured ::
  "'s environment \<Rightarrow> global_args \<Rightarrow> (resolved_config \<Rightarrow> ('w, cli_error, 'a) prog) \<Rightarrow> ('w, cli_error, 'a) prog" where
  "configured en globals act = andThen (lift_result (map_err CliConfig (resolve_config (en_process en) globals))) act"

text \<open>\<open>run\<close>; only a backup may not return.\<close>

definition run ::
  "'s environment \<Rightarrow> global_args \<Rightarrow> cli_command \<Rightarrow> 's host \<Rightarrow> ((cli_error + cli_output) \<times> 's host) option" where
  "run en globals command h =
     (let omode = mode_from_globals globals in
      case command of
        CompletionCommand shell \<Rightarrow> Some (completion en shell h)
      | InitCommand \<Rightarrow> Some (configured en globals (init_repository en omode) h)
      | BackupCommand tags sources \<Rightarrow>
          (case resolve_config (en_process en) globals of
             Err e \<Rightarrow> Some (Err (CliConfig e), h)
           | Ok config \<Rightarrow> backup en omode config sources tags h)
      | SnapshotsCommand \<Rightarrow> Some (configured en globals (snapshots en omode) h)
      | LsCommand snapshot tag latest p \<Rightarrow>
          Some (configured en globals (\<lambda>config. ls en omode config (selection_from_args snapshot tag latest)
            (case p of None \<Rightarrow> [] | Some s \<Rightarrow> path_of_string s)) h)
      | CheckCommand subset_arg \<Rightarrow> Some (configured en globals (\<lambda>config. check en omode config subset_arg) h)
      | ForgetCommand dry_run l hr d w m y tags \<Rightarrow>
          Some (configured en globals (\<lambda>config.
            andThen (lift_result (map_err CliPolicy (retention_policy_from_args l hr d w m y tags))) (\<lambda>policy.
            forget en omode config policy dry_run)) h)
      | KeyAddCommand new_password_file \<Rightarrow>
          Some (configured en globals (\<lambda>config. key_add en omode config new_password_file) h)
      | RestoreCommand snapshot tag latest paths dry_run overwrite destination \<Rightarrow>
          Some (configured en globals (\<lambda>config.
            restore en omode config (selection_from_args snapshot tag latest) paths destination dry_run overwrite) h)
      | VersionCommand \<Rightarrow> Some (configured en globals (\<lambda>_. version en omode) h))"

definition run_with_error_output ::
  "'s environment \<Rightarrow> global_args \<Rightarrow> cli_command \<Rightarrow> 's host \<Rightarrow> ((cli_output \<times> nat) \<times> 's host) option" where
  "run_with_error_output en globals command h =
     map_option (\<lambda>(r, h).
       (case r of
          Ok result \<Rightarrow> (result, out_exit_code result)
        | Err e \<Rightarrow>
            (case render_error_output (en_json en) (en_texts en) (mode_from_globals globals) (command_name command) e (exit_code e) of
               Ok result \<Rightarrow> (result, exit_code e)
             | Err render_error \<Rightarrow>
                 (\<lparr>out_stdout = [], out_stderr = tx_cli (en_texts en) render_error @ newline,
                   out_exit_code = exit_code render_error\<rparr>, exit_code render_error)), h))
       (run en globals command h)"

end
