(* ===== verification/Ferry_Forget.thy ===== *)
theory Ferry_Forget
  imports Ferry_Commands Ferry_View
begin

text \<open>
  What \<open>ferry forget\<close> leaves behind: the snapshots the plan keeps are exactly the snapshots a later listing
  shows, and a dry run leaves the store alone.
\<close>

section \<open>Reading forget markers from a map\<close>

text \<open>A valid marker stands at the key.\<close>

definition marked :: "library \<Rightarrow> object_map \<Rightarrow> object_key \<Rightarrow> bool" where
  "marked L m k \<longleftrightarrow> (\<exists>b x. m k = Some b \<and> from_slice (forget_codec L) b = Ok x \<and> check_forget_marker k x = Ok x)"

definition forgotten_by :: "object_key set \<Rightarrow> string set" where
  "forgotten_by ks = {sid. \<exists>k \<in> ks. object_key_for_forget_marker sid = Ok k}"

definition forget_keys :: "object_map \<Rightarrow> object_key set" where
  "forget_keys m = {k. m k \<noteq> None \<and> prefix_contains (ObjectKeyPrefix ''forgets'') k}"

lemma check_marker_Ok:
  "check_forget_marker k x = Ok y \<Longrightarrow> y = x \<and> object_key_for_forget_marker (sf_snapshot_id x) = Ok k"
  by (auto simp: check_forget_marker_def result_simps split: if_splits)

lemma forget_key_unique:
  "object_key_for_forget_marker a = Ok k \<Longrightarrow> object_key_for_forget_marker b = Ok k \<Longrightarrow> a = b"
  using object_key_for_forget_marker_Ok by (metis append_same_eq object_key.inject same_append_eq)

lemma forgotten_by_insert:
  "object_key_for_forget_marker sid = Ok k \<Longrightarrow> forgotten_by (insert k S) = insert sid (forgotten_by S)"
  unfolding forgotten_by_def by (blast dest: forget_key_unique)

lemma read_marker_Ok:
  "read_snapshot_forget_marker L map_store_ops k (map_world m n) = (Ok x, w) \<longleftrightarrow>
     w = map_world m n \<and> (\<exists>b. m k = Some b \<and> from_slice (forget_codec L) b = Ok x \<and> check_forget_marker k x = Ok x)"
  by (auto simp: read_snapshot_forget_marker_def prog_simps result_simps on_store_Ok_iff map_store_ops_def
      map_world_def decode_at_def map_err_Ok_iff dest: check_marker_Ok)

abbreviation forget_step ::
  "library \<Rightarrow> string list \<Rightarrow> object_key \<Rightarrow> (object_map world, core_error, string list) prog" where
  "forget_step L ids k \<equiv> andThen (read_snapshot_forget_marker L map_store_ops k) (\<lambda>x. ret (bs_insert (sf_snapshot_id x) ids))"

lemma forgotten_loop:
  assumes "for_each ks (forget_step L) acc (map_world m n) = (Ok ids, w)"
  shows "(\<forall>k \<in> set ks. marked L m k) \<and> set ids = set acc \<union> forgotten_by (set ks)"
  using assms
proof (induction ks arbitrary: acc)
  case (Cons k ks)
  obtain b x where x: "m k = Some b" "from_slice (forget_codec L) b = Ok x" "check_forget_marker k x = Ok x"
    and rest: "for_each ks (forget_step L) (bs_insert (sf_snapshot_id x) acc) (map_world m n) = (Ok ids, w)"
    using Cons.prems unfolding for_each.simps andThen_Ok_iff read_marker_Ok ret_Ok_iff by blast
  have key: "object_key_for_forget_marker (sf_snapshot_id x) = Ok k" using check_marker_Ok [OF x(3)] by simp
  have "forgotten_by (set (k # ks)) = insert (sf_snapshot_id x) (forgotten_by (set ks))"
    using forgotten_by_insert [OF key] by simp
  then show ?case using Cons.IH [OF rest] x by (auto simp: marked_def)
qed (simp add: forgotten_by_def prog_simps)

lemma forgotten_loop_total:
  "\<forall>k \<in> set ks. marked L m k \<Longrightarrow> \<exists>ids. for_each ks (forget_step L) acc (map_world m n) = (Ok ids, map_world m n)"
proof (induction ks arbitrary: acc)
  case (Cons k ks)
  then obtain x where "read_snapshot_forget_marker L map_store_ops k (map_world m n) = (Ok x, map_world m n)"
    by (auto simp: read_marker_Ok marked_def)
  then show ?case using Cons.IH Cons.prems by (simp add: andThen_def)
qed simp

lemma forgets_prefix: "object_key_prefix_new ''forgets'' = Ok (ObjectKeyPrefix ''forgets'')"
  by code_simp

lemma read_forgotten_unfold:
  "read_forgotten_snapshot_ids L map_store_ops (map_world m n) =
     for_each (sorted_list_of_set (forget_keys m)) (forget_step L) [] (map_world m n)"
  by (simp add: read_forgotten_snapshot_ids_def forgets_prefix map_err_def andThen_def on_store_def map_error_def
      map_store_ops_def map_world_def forget_keys_def sorted_sort_id)

lemma read_forgotten_Ok:
  assumes "read_forgotten_snapshot_ids L map_store_ops (map_world m n) = (Ok ids, w)" and "finite (forget_keys m)"
  shows "(\<forall>k \<in> forget_keys m. marked L m k) \<and> set ids = forgotten_by (forget_keys m)"
  using forgotten_loop [OF assms(1) [unfolded read_forgotten_unfold]] assms(2) by simp

lemma read_forgotten_total:
  assumes "\<forall>k \<in> forget_keys m. marked L m k" and "finite (forget_keys m)"
  shows "\<exists>ids. read_forgotten_snapshot_ids L map_store_ops (map_world m n) = (Ok ids, map_world m n) \<and>
    set ids = forgotten_by (forget_keys m)"
proof -
  obtain ids where "read_forgotten_snapshot_ids L map_store_ops (map_world m n) = (Ok ids, map_world m n)"
    using forgotten_loop_total [of "sorted_list_of_set (forget_keys m)" L m "[]" n] assms by (auto simp: read_forgotten_unfold)
  then show ?thesis using read_forgotten_Ok assms(2) by blast
qed

section \<open>Listing the snapshots that are not forgotten\<close>

definition commit_keys :: "object_map \<Rightarrow> object_key set" where
  "commit_keys m = {k. m k \<noteq> None \<and> prefix_contains (ObjectKeyPrefix ''commits'') k}"

definition commit_step ::
  "library \<Rightarrow> backup_pipeline_config \<Rightarrow> master_key \<Rightarrow> string list \<Rightarrow> snapshot_manifest list \<Rightarrow> object_key \<Rightarrow>
   (object_map world, core_error, snapshot_manifest list) prog" where
  "commit_step L c master forgotten manifests k =
     andThen (read_snapshot_commit L map_store_ops k) (\<lambda>commit.
     if sc_snapshot_id commit \<in> set forgotten then ret manifests
     else
       andThen (lift_result (check_commit_marker k commit)) (\<lambda>expected.
       andThen (map_error (referenced_object_read_error expected)
         (read_snapshot_manifest L c map_store_ops master (sc_snapshot_id commit))) (\<lambda>manifest.
       ret (manifests @ [manifest]))))"

lemma stable_read_snapshot_commit [stable_intros]: "stable (read_snapshot_commit L map_store_ops k)"
  unfolding read_snapshot_commit_def by (intro stable_intros)

lemma read_manifest_id:
  "read_snapshot_manifest L c ops master sid w = (Ok x, w') \<Longrightarrow> sm_snapshot_id x = sid"
  by (auto simp: read_snapshot_manifest_def andThen_Ok_iff identity_check_def split: if_splits)

text \<open>A step skips a forgotten snapshot or appends the committed one, whose key is its commit key.\<close>

lemma commit_step_cases:
  assumes "commit_step L c master forgotten acc k (map_world m n) = (Ok ms, w)"
  obtains (skip) commit where "w = map_world m n" "ms = acc" "sc_snapshot_id commit \<in> set forgotten"
      "read_snapshot_commit L map_store_ops k (map_world m n) = (Ok commit, map_world m n)"
    | (take) commit expected x where "w = map_world m n" "ms = acc @ [x]" "sm_snapshot_id x = sc_snapshot_id commit"
      "sc_snapshot_id commit \<notin> set forgotten" "object_key_for_commit (sm_snapshot_id x) = Ok k"
      "read_snapshot_commit L map_store_ops k (map_world m n) = (Ok commit, map_world m n)"
      "check_commit_marker k commit = Ok expected"
      "map_error (referenced_object_read_error expected)
         (read_snapshot_manifest L c map_store_ops master (sc_snapshot_id commit)) (map_world m n) = (Ok x, map_world m n)"
proof -
  from assms obtain commit w1 where one: "read_snapshot_commit L map_store_ops k (map_world m n) = (Ok commit, w1)"
    and rest: "(if sc_snapshot_id commit \<in> set forgotten then ret acc
     else andThen (lift_result (check_commit_marker k commit)) (\<lambda>expected.
       andThen (map_error (referenced_object_read_error expected)
         (read_snapshot_manifest L c map_store_ops master (sc_snapshot_id commit))) (\<lambda>manifest.
       ret (acc @ [manifest])))) w1 = (Ok ms, w)"
    unfolding commit_step_def andThen_Ok_iff by blast
  have w1: "w1 = map_world m n" by (rule stable_snd [OF stable_read_snapshot_commit one])
  show thesis
  proof (cases "sc_snapshot_id commit \<in> set forgotten")
    case True
    then show thesis using skip one rest w1 by (auto simp: ret_Ok_iff)
  next
    case False
    then obtain expected x w2 where check: "check_commit_marker k commit = Ok expected"
      and read: "map_error (referenced_object_read_error expected)
         (read_snapshot_manifest L c map_store_ops master (sc_snapshot_id commit)) (map_world m n) = (Ok x, w2)"
      and ms: "ms = acc @ [x]" "w = w2"
      using rest [unfolded w1 if_not_P [OF False] andThen_Ok_iff lift_result_Ok_iff ret_Ok_iff] by blast
    have w2: "w2 = map_world m n"
      by (rule stable_snd [OF stable_map_error [OF stable_read_snapshot_manifest] read])
    have id: "sm_snapshot_id x = sc_snapshot_id commit"
      using read unfolding map_error_Ok_iff by (rule read_manifest_id)
    have "object_key_for_commit (sc_snapshot_id commit) = Ok k"
      using check by (auto simp: check_commit_marker_def result_simps split: if_splits)
    then show thesis using take one check read ms id False w1 w2 by simp
  qed
qed

lemma commit_loop:
  assumes sub: "m \<subseteq>\<^sub>m m'" and F: "set forgotten' = set forgotten \<union> F"
    and run: "for_each ks (commit_step L c master forgotten) acc (map_world m n) = (Ok ms, w)"
  shows "for_each ks (commit_step L c master forgotten') (filter (\<lambda>x. sm_snapshot_id x \<notin> F) acc) (map_world m' n') =
    (Ok (filter (\<lambda>x. sm_snapshot_id x \<notin> F) ms), map_world m' n')"
  using run
proof (induction ks arbitrary: acc)
  case (Cons k ks)
  let ?keep = "filter (\<lambda>x. sm_snapshot_id x \<notin> F)"
  obtain acc1 w1 where step: "commit_step L c master forgotten acc k (map_world m n) = (Ok acc1, w1)"
    and rest: "for_each ks (commit_step L c master forgotten) acc1 w1 = (Ok ms, w)"
    using Cons.prems unfolding for_each.simps andThen_Ok_iff by blast
  have "w1 = map_world m n \<and> commit_step L c master forgotten' (?keep acc) k (map_world m' n') = (Ok (?keep acc1), map_world m' n')"
    using step
  proof (cases rule: commit_step_cases)
    case (skip commit)
    then show ?thesis using stableD [OF stable_read_snapshot_commit sub skip(4), of n'] F
      unfolding commit_step_def by (simp add: andThen_def)
  next
    case (take commit expected x)
    then show ?thesis using stableD [OF stable_read_snapshot_commit sub take(6), of n'] F
        stableD [OF stable_map_error [OF stable_read_snapshot_manifest] sub take(8), of n']
      unfolding commit_step_def by (simp add: andThen_def)
  qed
  then show ?case using Cons.IH [of acc1] rest by (simp add: andThen_def)
qed simp

lemma commit_loop_ids:
  assumes "for_each ks (commit_step L c master forgotten) acc (map_world m n) = (Ok ms, w)"
    and "distinct ks" and "distinct (map sm_snapshot_id acc)"
    and "\<forall>x \<in> set acc. \<forall>k \<in> set ks. object_key_for_commit (sm_snapshot_id x) \<noteq> Ok k"
  shows "distinct (map sm_snapshot_id ms)"
  using assms
proof (induction ks arbitrary: acc)
  case (Cons k ks)
  obtain acc1 w1 where step: "commit_step L c master forgotten acc k (map_world m n) = (Ok acc1, w1)"
    and rest: "for_each ks (commit_step L c master forgotten) acc1 w1 = (Ok ms, w)"
    using Cons.prems(1) unfolding for_each.simps andThen_Ok_iff by blast
  show ?case using step
  proof (cases rule: commit_step_cases)
    case (skip commit)
    then show ?thesis using Cons.IH [of acc] Cons.prems rest by simp
  next
    case (take commit expected x)
    have "sm_snapshot_id x \<notin> sm_snapshot_id ` set acc" using take(5) Cons.prems(4) by (metis imageE list.set_intros(1))
    then show ?thesis using Cons.IH [of acc1] Cons.prems rest take by auto
  qed
qed simp

lemma list_prefix_map:
  "andThen (on_store (map_error g (list_prefix map_store_ops p))) f w =
     f (sorted_list_of_set {k. w_store w k \<noteq> None \<and> prefix_contains p k}) w"
  by (simp add: andThen_def on_store_def map_error_def map_err_def map_store_ops_def)

lemma read_committed_unfold:
  "read_committed_snapshot_manifests L c map_store_ops master =
     andThen (read_forgotten_snapshot_ids L map_store_ops) (\<lambda>forgotten.
     andThen (\<lambda>w. for_each (sorted_list_of_set (commit_keys (w_store w))) (commit_step L c master forgotten) [] w) (\<lambda>ms.
     ret (sort_key snapshot_order_key ms)))"
proof -
  have listed: "andThen (lift_result (map_err CoreObjectKey (object_key_prefix_new ''commits''))) (\<lambda>pre.
      andThen (on_store (map_error CoreStorage (list_prefix map_store_ops pre))) (\<lambda>ks. andThen (for_each (sort ks) g []) h)) =
    andThen (\<lambda>w. for_each (sorted_list_of_set (commit_keys (w_store w))) g [] w) h"
    for g :: "snapshot_manifest list \<Rightarrow> object_key \<Rightarrow> (object_map world, core_error, snapshot_manifest list) prog"
      and h :: "snapshot_manifest list \<Rightarrow> (object_map world, core_error, snapshot_manifest list) prog"
  proof (rule ext)
    fix w
    show "andThen (lift_result (map_err CoreObjectKey (object_key_prefix_new ''commits''))) (\<lambda>pre.
        andThen (on_store (map_error CoreStorage (list_prefix map_store_ops pre))) (\<lambda>ks. andThen (for_each (sort ks) g []) h)) w =
      andThen (\<lambda>w. for_each (sorted_list_of_set (commit_keys (w_store w))) g [] w) h w"
      unfolding commits_prefix map_err_simps andThen_lift_Ok list_prefix_map commit_keys_def
      by (simp add: andThen_def sorted_sort_id)
  qed
  show ?thesis unfolding read_committed_snapshot_manifests_def listed commit_step_def [abs_def] ..
qed

text \<open>
  \<open>remarked L F m m'\<close>: \<open>m'\<close> is \<open>m\<close> with valid forget markers for the snapshots of \<open>F\<close>.
\<close>

definition only_markers :: "string set \<Rightarrow> object_map \<Rightarrow> object_map \<Rightarrow> bool" where
  "only_markers F m m' \<longleftrightarrow> m \<subseteq>\<^sub>m m' \<and>
     (\<forall>k. m' k \<noteq> None \<longrightarrow> m k \<noteq> None \<or> (\<exists>sid \<in> F. object_key_for_forget_marker sid = Ok k))"

definition remarked :: "library \<Rightarrow> string set \<Rightarrow> object_map \<Rightarrow> object_map \<Rightarrow> bool" where
  "remarked L F m m' \<longleftrightarrow> only_markers F m m' \<and>
     (\<forall>sid \<in> F. \<exists>k. object_key_for_forget_marker sid = Ok k \<and> marked L m' k)"

lemma only_markers_changes:
  "only_markers F m m' \<Longrightarrow> m' k \<noteq> m k \<Longrightarrow> \<exists>sid \<in> F. object_key_for_forget_marker sid = Ok k"
  unfolding only_markers_def map_le_def by (metis domIff)

lemma only_markers_keys:
  assumes "only_markers F m m'"
  shows "commit_keys m' = commit_keys m" "forget_keys m \<subseteq> forget_keys m'"
    "forget_keys m' \<subseteq> forget_keys m \<union> {k. \<exists>sid \<in> F. object_key_for_forget_marker sid = Ok k}"
proof -
  have keep: "m k \<noteq> None \<Longrightarrow> m' k \<noteq> None" for k
    using assms unfolding only_markers_def map_le_def by (metis domIff)
  have "\<not> prefix_contains (ObjectKeyPrefix ''commits'') k" if "object_key_for_forget_marker sid = Ok k" for sid k
    using object_key_for_forget_marker_Ok [OF that] by (simp add: prefix_contains_def strip_prefix_str_def)
  then show "commit_keys m' = commit_keys m"
    using assms keep unfolding commit_keys_def only_markers_def by blast
  show "forget_keys m \<subseteq> forget_keys m'" using keep unfolding forget_keys_def by blast
  show "forget_keys m' \<subseteq> forget_keys m \<union> {k. \<exists>sid \<in> F. object_key_for_forget_marker sid = Ok k}"
    using assms unfolding forget_keys_def only_markers_def by blast
qed

lemma forget_key_listed:
  "object_key_for_forget_marker sid = Ok k \<Longrightarrow> prefix_contains (ObjectKeyPrefix ''forgets'') k"
  using object_key_for_forget_marker_Ok by (fastforce simp: prefix_contains_def strip_prefix_str_def)

lemma finite_forget_keys: "finite F \<Longrightarrow> finite {k. \<exists>sid \<in> F. object_key_for_forget_marker sid = Ok k}"
proof -
  assume "finite F"
  then have "finite ((\<lambda>sid. ObjectKey (''forgets/'' @ sid)) ` F)" by simp
  then show ?thesis by (rule rev_finite_subset) (use object_key_for_forget_marker_Ok in auto)
qed

lemma remarked_forgotten:
  assumes r: "remarked L F m m'"
  shows "forgotten_by (forget_keys m') = forgotten_by (forget_keys m) \<union> F"
proof (intro set_eqI iffI)
  fix sid assume "sid \<in> forgotten_by (forget_keys m')"
  then obtain k where k: "k \<in> forget_keys m'" "object_key_for_forget_marker sid = Ok k" by (auto simp: forgotten_by_def)
  then consider "k \<in> forget_keys m" | sid' where "sid' \<in> F" "object_key_for_forget_marker sid' = Ok k"
    using only_markers_keys(3) [of F m m'] r unfolding remarked_def by blast
  then show "sid \<in> forgotten_by (forget_keys m) \<union> F"
  proof cases
    case 1
    then show ?thesis using k(2) by (auto simp: forgotten_by_def)
  next
    case 2
    then show ?thesis using forget_key_unique [OF k(2) 2(2)] by simp
  qed
next
  fix sid assume sid: "sid \<in> forgotten_by (forget_keys m) \<union> F"
  have new: "sid \<in> forgotten_by (forget_keys m')" if "sid \<in> F"
  proof -
    have "\<exists>k. object_key_for_forget_marker sid = Ok k \<and> marked L m' k" using r that by (simp add: remarked_def)
    then obtain k where k: "object_key_for_forget_marker sid = Ok k" "marked L m' k" by blast
    have "m' k \<noteq> None" using k(2) by (auto simp: marked_def)
    then have "k \<in> forget_keys m'" using forget_key_listed [OF k(1)] unfolding forget_keys_def by blast
    then show ?thesis using k(1) unfolding forgotten_by_def by blast
  qed
  have "forget_keys m \<subseteq> forget_keys m'" using only_markers_keys(2) r unfolding remarked_def by blast
  then have "forgotten_by (forget_keys m) \<subseteq> forgotten_by (forget_keys m')" unfolding forgotten_by_def by blast
  then show "sid \<in> forgotten_by (forget_keys m')" using sid new by blast
qed

lemma listing_after_markers:
  assumes run: "read_committed_snapshot_manifests L c map_store_ops master (map_world m n) = (Ok ms, w)"
    and fin: "finite (forget_keys m)" "finite F" and r: "remarked L F m m'"
  shows "read_committed_snapshot_manifests L c map_store_ops master (map_world m' n') =
    (Ok (filter (\<lambda>x. sm_snapshot_id x \<notin> F) ms), map_world m' n')"
proof -
  from run obtain ids w1 us where ids: "read_forgotten_snapshot_ids L map_store_ops (map_world m n) = (Ok ids, w1)"
    and loop: "for_each (sorted_list_of_set (commit_keys (w_store w1))) (commit_step L c master ids) [] w1 = (Ok us, w)"
    and ms: "ms = sort_key snapshot_order_key us"
    unfolding read_committed_unfold andThen_Ok_iff ret_Ok_iff by blast
  have w1: "w1 = map_world m n"
    using ids forgotten_loop_total [of "sorted_list_of_set (forget_keys m)" L m "[]" n] read_forgotten_Ok [OF ids fin(1)] fin(1)
    unfolding read_forgotten_unfold by auto
  have le: "m \<subseteq>\<^sub>m m'" and om: "only_markers F m m'" using r by (auto simp: remarked_def only_markers_def)
  have fin': "finite (forget_keys m')"
    using only_markers_keys(3) [OF om] fin(1) finite_forget_keys [OF fin(2)] by (meson finite_UnI finite_subset)
  have marks: "marked L m' k" if listed: "k \<in> forget_keys m'" for k
  proof (cases "k \<in> forget_keys m")
    case True
    then have "marked L m k" using read_forgotten_Ok [OF ids fin(1)] by blast
    then show ?thesis using le unfolding marked_def map_le_def by (metis domIff option.distinct(1))
  next
    case False
    then obtain sid where "sid \<in> F" "object_key_for_forget_marker sid = Ok k" using listed only_markers_keys(3) [OF om] by blast
    then show ?thesis using r unfolding remarked_def by (metis sum.inject(2))
  qed
  obtain ids' where ids': "read_forgotten_snapshot_ids L map_store_ops (map_world m' n') = (Ok ids', map_world m' n')"
      "set ids' = forgotten_by (forget_keys m')"
    using read_forgotten_total [of m' L n'] marks fin' by blast
  have "set ids' = set ids \<union> F" using ids'(2) read_forgotten_Ok [OF ids fin(1)] remarked_forgotten [OF r] by simp
  from commit_loop [OF le this loop [unfolded w1]]
  have "for_each (sorted_list_of_set (commit_keys (w_store (map_world m' n')))) (commit_step L c master ids') [] (map_world m' n') =
      (Ok (filter (\<lambda>x. sm_snapshot_id x \<notin> F) us), map_world m' n')"
    by (simp add: only_markers_keys(1) [OF om] map_world_def)
  then have "andThen (\<lambda>w. for_each (sorted_list_of_set (commit_keys (w_store w))) (commit_step L c master ids') [] w)
      (\<lambda>us. ret (sort_key snapshot_order_key us)) (map_world m' n') =
      (Ok (sort_key snapshot_order_key (filter (\<lambda>x. sm_snapshot_id x \<notin> F) us)), map_world m' n')"
    by (simp add: andThen_def)
  moreover have "andThen (read_forgotten_snapshot_ids L map_store_ops) f (map_world m' n') = f ids' (map_world m' n')"
    for f :: "string list \<Rightarrow> (object_map world, core_error, snapshot_manifest list) prog"
    by (rule andThen_stepI) (rule ids'(1))
  ultimately show ?thesis unfolding read_committed_unfold ms filter_sort by simp
qed

lemma listing_distinct:
  assumes "read_committed_snapshot_manifests L c map_store_ops master (map_world m n) = (Ok ms, w)"
    and "finite (forget_keys m)"
  shows "distinct (map sm_snapshot_id ms)"
proof -
  from assms(1) obtain ids w1 us where ids: "read_forgotten_snapshot_ids L map_store_ops (map_world m n) = (Ok ids, w1)"
    and loop: "for_each (sorted_list_of_set (commit_keys (w_store w1))) (commit_step L c master ids) [] w1 = (Ok us, w)"
    and ms: "ms = sort_key snapshot_order_key us"
    unfolding read_committed_unfold andThen_Ok_iff ret_Ok_iff by blast
  have w1: "w1 = map_world m n"
    using ids forgotten_loop_total [of "sorted_list_of_set (forget_keys m)" L m "[]" n] read_forgotten_Ok [OF ids assms(2)] assms(2)
    unfolding read_forgotten_unfold by auto
  have "distinct (map sm_snapshot_id us)" by (rule commit_loop_ids [OF loop [unfolded w1]]) simp_all
  then show ?thesis unfolding ms by (simp add: distinct_map_mset [of "sort_key snapshot_order_key us" us])
qed

section \<open>Writing the markers\<close>

lemma written_marker_valid:
  assumes "codec_ok (forget_codec L)" and "object_key_for_forget_marker sid = Ok k"
    and "object_key_for_id ''objects/manifest'' sid = Ok mk" and "object_key_for_commit sid = Ok ck"
    and "to_vec (forget_codec L) \<lparr>sf_schema_version = 0, sf_snapshot_id = sid, sf_manifest_object = as_str mk,
      sf_commit_object = as_str ck, sf_forgotten_at = t\<rparr> = Ok b"
    and "m k = Some b"
  shows "marked L m k"
  using assms codec_okD [OF assms(1,5)] by (simp add: marked_def check_forget_marker_def)

lemma marked_mono: "m \<subseteq>\<^sub>m m' \<Longrightarrow> marked L m k \<Longrightarrow> marked L m' k"
  unfolding marked_def map_le_def by (metis domIff option.distinct(1))

lemma only_markers_refl: "only_markers F m m"
  by (simp add: only_markers_def)

lemma only_markers_widen: "only_markers F m m' \<Longrightarrow> F \<subseteq> G \<Longrightarrow> only_markers G m m'"
  unfolding only_markers_def by blast

lemma only_markers_put:
  assumes "only_markers F m m1" and "object_key_for_forget_marker sid = Ok k"
    and "m2 = m1 \<or> m1 k = None \<and> m2 = m1(k \<mapsto> b)"
  shows "only_markers (insert sid F) m m2"
proof -
  have "m1 \<subseteq>\<^sub>m m2" using assms(3) by (auto simp: map_le_def)
  then have "m \<subseteq>\<^sub>m m2" using assms(1) map_le_trans unfolding only_markers_def by blast
  moreover have "m k' \<noteq> None \<or> (\<exists>sid \<in> insert sid F. object_key_for_forget_marker sid = Ok k')" if there: "m2 k' \<noteq> None" for k'
  proof (cases "k' = k")
    case True
    then show ?thesis using assms(2) by blast
  next
    case False
    then have "m1 k' \<noteq> None" using there assms(3) by auto
    then show ?thesis using assms(1) unfolding only_markers_def by blast
  qed
  ultimately show ?thesis unfolding only_markers_def by blast
qed

context repository_store
begin

lemma triple_at_contents:
  "(\<And>m. A m \<Longrightarrow> triple (holds (\<lambda>m'. m' = m)) p Q E) \<Longrightarrow> triple (holds A) p Q E"
  by (rule tripleI) (blast dest: tripleD)+

lemma triple_marker:
  assumes L: "codec_ok (forget_codec L)" and sid: "sid \<in> F" "set past \<subseteq> F"
  shows "triple (holds (remarked L (set past) m0)) (write_forget_marker L ops t acc sid)
    (\<lambda>_. holds (remarked L (set (past @ [sid])) m0)) (holds (only_markers F m0))"
  unfolding write_forget_marker_def
proof ((rule triple_bind_lift)+, rule triple_at_contents)
  fix k mk ck b m
  assume k: "object_key_for_forget_marker sid = Ok k" and mk: "object_key_for_id ''objects/manifest'' sid = Ok mk"
    and ck: "object_key_for_commit sid = Ok ck" and m: "remarked L (set past) m0 m"
    and b: "map_err Serialization (to_vec (forget_codec L) \<lparr>sf_schema_version = 0, sf_snapshot_id = sid,
      sf_manifest_object = as_str mk, sf_commit_object = as_str ck, sf_forgotten_at = t\<rparr>) = Ok b"
  have us: "usable k" using repo_key_forget [OF k] repo_usable by blast
  have step: "only_markers (insert sid (set past)) m0 m2" if put: "m2 = m \<or> m k = None \<and> m2 = m(k \<mapsto> b)" for m2
    using only_markers_put [OF _ k put] m unfolding remarked_def by blast
  have marks: "remarked L (insert sid (set past)) m0 m2" if put: "m2 = m \<or> m k = None \<and> m2 = m(k \<mapsto> b)" and at: "m2 k = Some b" for m2
  proof -
    have "marked L m2 k" by (rule written_marker_valid [of L sid k mk ck t b m2]) (use L k mk ck b at in \<open>simp_all add: map_err_Ok_iff\<close>)
    moreover have "m \<subseteq>\<^sub>m m2" using put by (auto simp: map_le_def)
    ultimately show ?thesis using step [OF put] m k marked_mono unfolding remarked_def by blast
  qed
  have widen: "only_markers F m0 m2" if put: "m2 = m \<or> m k = None \<and> m2 = m(k \<mapsto> b)" for m2
    by (rule only_markers_widen [OF step [OF put]]) (use sid in auto)
  show "triple (holds (\<lambda>m'. m' = m))
    (andThen (on_store (map_error CoreStorage (put_if_absent ops k b)))
      (\<lambda>status. ret (acc @ [\<lparr>fw_snapshot_id = sid, fw_marker_object = as_str k, fw_created = (status = Created)\<rparr>])))
    (\<lambda>_. holds (remarked L (set (past @ [sid])) m0)) (holds (only_markers F m0))"
    by (rule triple_andThen, rule triple_conseq [OF triple_put_object [OF us]], assumption, assumption)
      (use widen marks in \<open>auto intro!: triple_ret\<close>)
qed (use sid in \<open>auto simp: remarked_def intro: only_markers_widen\<close>)

lemma triple_markers:
  assumes L: "codec_ok (forget_codec L)"
  shows "triple (holds (\<lambda>m. m = m0)) (write_snapshot_forget_markers L ops now ids)
    (\<lambda>_. holds (remarked L (set ids) m0)) (holds (only_markers (set ids) m0))"
proof (cases "ids = []")
  case False
  have same: "set (dedup_key (\<lambda>x. x) (sort ids)) = set ids" using image_dedup_key [of "\<lambda>x. x" "sort ids"] by simp
  have "triple (holds (remarked L (set []) m0)) (for_each (dedup_key (\<lambda>x. x) (sort ids)) (write_forget_marker L ops t) [])
    (\<lambda>_. holds (remarked L (set ([] @ dedup_key (\<lambda>x. x) (sort ids))) m0)) (holds (only_markers (set ids) m0))" for t
    by (rule triple_for_each [where J = "\<lambda>past _. holds (remarked L (set past) m0)"])
      (rule triple_marker [OF L], use same in auto)
  then have "triple (holds (\<lambda>m. m = m0)) (for_each (dedup_key (\<lambda>x. x) (sort ids)) (write_forget_marker L ops t) [])
    (\<lambda>_. holds (remarked L (set ids) m0)) (holds (only_markers (set ids) m0))" for t
    by (rule triple_conseq) (auto simp: same remarked_def only_markers_refl)
  then show ?thesis unfolding write_snapshot_forget_markers_def if_not_P [OF False]
    by (intro triple_bind_lift) (auto simp: only_markers_refl)
qed (auto simp: write_snapshot_forget_markers_def only_markers_refl intro!: tripleI)

end

section \<open>The plan over the listed snapshots\<close>

definition plan_keeps :: "retention_policy \<Rightarrow> snapshot_manifest list \<Rightarrow> snapshot_manifest \<Rightarrow> bool" where
  "plan_keeps policy ms x \<longleftrightarrow>
     matching_reasons policy (newest_first (map retention_snapshot_of ms)) (retention_snapshot_of x) \<noteq> {}"

definition planned_ids :: "retention_policy \<Rightarrow> snapshot_manifest list \<Rightarrow> string list" where
  "planned_ids policy ms = map dec_snapshot_id (plan_forgotten (plan policy (map retention_snapshot_of ms)))"

lemma planned_ids_set:
  assumes "distinct (map sm_snapshot_id ms)" and "policy_counts_ok policy"
  shows "set (planned_ids policy ms) = sm_snapshot_id ` {x \<in> set ms. \<not> plan_keeps policy ms x}"
proof -
  let ?rs = "map retention_snapshot_of ms"
  have ids: "map ret_snapshot_id ?rs = map sm_snapshot_id ms" by (simp add: retention_snapshot_of_def)
  have "distinct (map ret_snapshot_id ?rs)" unfolding ids by (rule assms(1))
  then have decisions: "plan_decisions (plan policy ?rs) = map (expected_decision policy (newest_first ?rs)) (newest_first ?rs)"
    by (rule plan_expected) (rule assms(2))
  have same: "set (newest_first ?rs) = retention_snapshot_of ` set ms" by (simp add: newest_first_def set_sort_desc)
  have sel: "dec_snapshot_id (expected_decision policy os s) = ret_snapshot_id s"
      "dec_action (expected_decision policy os s) = Forget \<longleftrightarrow> matching_reasons policy os s = {}" for os s
    by (simp_all add: expected_decision_def Let_def)
  have "set (planned_ids policy ms) = ret_snapshot_id ` {s \<in> set (newest_first ?rs). matching_reasons policy (newest_first ?rs) s = {}}"
    unfolding planned_ids_def plan_forgotten_def decisions
    by (simp add: filter_map comp_def sel image_image)
  also have "\<dots> = ret_snapshot_id ` retention_snapshot_of ` {x \<in> set ms. \<not> plan_keeps policy ms x}"
    unfolding same plan_keeps_def by auto
  also have "\<dots> = sm_snapshot_id ` {x \<in> set ms. \<not> plan_keeps policy ms x}"
    by (simp add: image_image retention_snapshot_of_def)
  finally show ?thesis .
qed

lemma planned_ids_filter:
  assumes "distinct (map sm_snapshot_id ms)" and "policy_counts_ok policy"
  shows "filter (\<lambda>x. sm_snapshot_id x \<notin> set (planned_ids policy ms)) ms = filter (plan_keeps policy ms) ms"
proof (rule filter_cong [OF refl])
  fix x assume x: "x \<in> set ms"
  have "y = x" if "y \<in> set ms" "sm_snapshot_id x = sm_snapshot_id y" for y
    using that x assms(1) by (auto simp: distinct_map inj_on_def)
  then show "(sm_snapshot_id x \<notin> set (planned_ids policy ms)) = plan_keeps policy ms x"
    unfolding planned_ids_set [OF assms] using x by auto
qed

lemma transpose_count_ok: "transpose_count v = Ok c \<Longrightarrow> case c of None \<Rightarrow> True | Some k \<Rightarrow> count_ok k"
  by (auto simp: transpose_count_def result_simps retention_count_new_def count_ok_def split: option.splits if_splits)

lemma args_counts_ok:
  assumes "retention_policy_from_args l h d w m y tags = Ok policy"
  shows "policy_counts_ok policy"
proof -
  obtain cl ch cd cw cm cy where "transpose_count l = Ok cl" "transpose_count h = Ok ch" "transpose_count d = Ok cd"
      "transpose_count w = Ok cw" "transpose_count m = Ok cm" "transpose_count y = Ok cy"
    and policy: "policy_validate \<lparr>keep_last = cl, keep_hourly = ch, keep_daily = cd, keep_weekly = cw, keep_monthly = cm,
       keep_yearly = cy, keep_tags = tags\<rparr> = Ok policy"
    using assms unfolding retention_policy_from_args_def bindR_Ok_iff by blast
  note oks = this(1-6) [THEN transpose_count_ok]
  have "policy = \<lparr>keep_last = cl, keep_hourly = ch, keep_daily = cd, keep_weekly = cw, keep_monthly = cm,
       keep_yearly = cy, keep_tags = tags\<rparr>"
    using policy by (simp add: policy_validate_def bindR_Ok_iff split: if_splits)
  then show ?thesis using oks by (simp add: policy_counts_ok_def)
qed

section \<open>The forget command\<close>

context repository_store
begin

lemma listing_run:
  assumes "inv (w_store w)" and "read_committed_snapshot_manifests L c ops master w = (r, w1)"
  shows "inv (w_store w1)" "contents (w_store w1) = contents (w_store w)" "w_rng w1 = w_rng w"
    "r = Ok ms \<Longrightarrow> read_committed_snapshot_manifests L c map_store_ops master (map_world (contents (w_store w)) n) =
      (Ok ms, map_world (contents (w_store w)) n) \<and> finite (forget_keys (contents (w_store w)))"
proof -
  let ?m = "contents (w_store w)"
  note sims = simulatesD [OF sim_read_committed_snapshot_manifests [where J = "\<lambda>_. True"] assms(1) _ assms(2)]
  show "inv (w_store w1)" "contents (w_store w1) = ?m" "w_rng w1 = w_rng w"
    using sims(1,2) by (simp_all add: view_def map_world_def)
  assume ok: "r = Ok ms"
  have map: "read_committed_snapshot_manifests L c map_store_ops master (map_world ?m (w_rng w)) =
      (Ok ms, map_world ?m (w_rng w))" using sims(3) [OF TrueI ok] by (simp add: view_def)
  from assms(2) ok obtain ks s1 where "list_prefix ops (ObjectKeyPrefix ''forgets'') (w_store w) = (Ok ks, s1)"
    by (auto simp: read_committed_snapshot_manifests_def read_forgotten_snapshot_ids_def forgets_prefix andThen_Ok_iff
        on_store_Ok_iff map_error_Ok_iff)
  then have "set ks = {k. usable k \<and> ?m k \<noteq> None \<and> prefix_contains (ObjectKeyPrefix ''forgets'') k}"
    using list_ok [OF assms(1) listed_prefix_new [OF forgets_prefix]] by blast
  then have "set ks = forget_keys ?m" using contents_usable [OF assms(1)] by (auto simp: forget_keys_def)
  then have fin: "finite (forget_keys ?m)" by (metis List.finite_set)
  moreover have "remarked L {} ?m ?m" by (simp add: remarked_def only_markers_refl)
  ultimately show "read_committed_snapshot_manifests L c map_store_ops master (map_world ?m n) =
      (Ok ms, map_world ?m n) \<and> finite (forget_keys ?m)"
    using listing_after_markers [OF map, of "{}" ?m n] by simp
qed

lemma forget_run:
  assumes inv: "inv (w_store w)" and L: "codec_ok (forget_codec L)"
    and run: "forget_snapshots L c ops now master policy dry_run w = (Ok d, w')"
  obtains ms where "read_committed_snapshot_manifests L c map_store_ops master (map_world (contents (w_store w)) 0) =
      (Ok ms, map_world (contents (w_store w)) 0)"
    "finite (forget_keys (contents (w_store w)))" "inv (w_store w')"
    "fo_forgotten_snapshot_ids d = planned_ids policy ms" "planned_ids policy ms \<noteq> []"
    "if dry_run then contents (w_store w') = contents (w_store w)
     else remarked L (set (planned_ids policy ms)) (contents (w_store w)) (contents (w_store w'))"
proof -
  from run obtain ms w1 where read: "read_committed_snapshot_manifests L c ops master w = (Ok ms, w1)"
    and rest: "(let pl = plan policy (map retention_snapshot_of ms); ids = map dec_snapshot_id (plan_forgotten pl) in
     if ids = [] then lift_result (Err ForgetNoSnapshotsMatched)
     else andThen (if dry_run then ret []
        else andThen (write_snapshot_forget_markers L ops now ids) (\<lambda>markers.
          ret (foldl (\<lambda>m w. bt_insert (fw_snapshot_id w) (fw_marker_object w, fw_created w) m) [] markers)))
        (\<lambda>marker_writes. ret (forget_data_of policy pl dry_run marker_writes))) w1 = (Ok d, w')"
    unfolding forget_snapshots_def andThen_Ok_iff by blast
  note listed = listing_run [OF inv read]
  have ne: "planned_ids policy ms \<noteq> []" using rest by (auto simp: planned_ids_def Let_def split: if_splits)
  obtain writes where d: "d = forget_data_of policy (plan policy (map retention_snapshot_of ms)) dry_run writes"
    and wrote: "(if dry_run then ret []
        else andThen (write_snapshot_forget_markers L ops now (planned_ids policy ms)) (\<lambda>markers.
          ret (foldl (\<lambda>m w. bt_insert (fw_snapshot_id w) (fw_marker_object w, fw_created w) m) [] markers))) w1 = (Ok writes, w')"
    using rest [unfolded Let_def, folded planned_ids_def, unfolded if_not_P [OF ne] andThen_Ok_iff ret_Ok_iff] by blast
  have "inv (w_store w') \<and> (if dry_run then contents (w_store w') = contents (w_store w)
     else remarked L (set (planned_ids policy ms)) (contents (w_store w)) (contents (w_store w')))"
  proof (cases dry_run)
    case True
    then show ?thesis using wrote listed(1,2) by (simp add: ret_Ok_iff)
  next
    case False
    then obtain ws where "write_snapshot_forget_markers L ops now (planned_ids policy ms) w1 = (Ok ws, w')"
      using wrote by (auto simp: andThen_Ok_iff ret_Ok_iff)
    from tripleD(1) [OF triple_markers [OF L, of "contents (w_store w)"] _ this] listed(1,2) False show ?thesis by simp
  qed
  moreover have "fo_forgotten_snapshot_ids d = planned_ids policy ms"
    by (simp add: d forget_data_of_def Let_def planned_ids_def plan_forgotten_def filter_map comp_def forget_item_def)
  ultimately show thesis using that [of ms] listed(4) [OF refl, of 0] ne by blast
qed

end

text \<open>
  C4: \<open>ferry forget\<close>, with a policy from the command line, on a store that meets the contract: the snapshots it
  reports are those that no rule keeps; with \<open>--dry-run\<close> the contents of the store stay as they are; otherwise
  only forget markers of these snapshots are added, and every later listing shows exactly the snapshots that a
  rule keeps, in the same order. Nothing is deleted.
\<close>

theorem forget_keeps_planned_snapshots:
  assumes "repository_store ops contents invar usable" and "invar (w_store w)" and "codec_ok (forget_codec L)"
    and "retention_policy_from_args l h d wk m y tags = Ok policy"
    and "forget_snapshots L c ops now master policy dry_run w = (Ok report, w')"
  shows "\<exists>ms. fst (read_committed_snapshot_manifests L c map_store_ops master (map_world (contents (w_store w)) 0)) = Ok ms \<and>
    set (fo_forgotten_snapshot_ids report) = sm_snapshot_id ` {x \<in> set ms. \<not> plan_keeps policy ms x} \<and>
    (if dry_run then contents (w_store w') = contents (w_store w)
     else contents (w_store w) \<subseteq>\<^sub>m contents (w_store w') \<and>
       (\<forall>k. contents (w_store w') k \<noteq> contents (w_store w) k \<longrightarrow>
          (\<exists>sid \<in> set (fo_forgotten_snapshot_ids report). object_key_for_forget_marker sid = Ok k)) \<and>
       fst (read_committed_snapshot_manifests L c map_store_ops master (map_world (contents (w_store w')) 0)) =
         Ok (filter (plan_keeps policy ms) ms) \<and>
       (\<forall>shown w2. read_committed_snapshot_manifests L c ops master w' = (Ok shown, w2) \<longrightarrow>
          shown = filter (plan_keeps policy ms) ms))"
proof -
  let ?m = "contents (w_store w)" and ?m' = "contents (w_store w')"
  obtain ms where ms: "read_committed_snapshot_manifests L c map_store_ops master (map_world ?m 0) = (Ok ms, map_world ?m 0)"
      "finite (forget_keys ?m)" "invar (w_store w')" "fo_forgotten_snapshot_ids report = planned_ids policy ms"
      "if dry_run then ?m' = ?m else remarked L (set (planned_ids policy ms)) ?m ?m'"
    using repository_store.forget_run [OF assms(1,2,3,5)] by blast
  have kept: "set (planned_ids policy ms) = sm_snapshot_id ` {x \<in> set ms. \<not> plan_keeps policy ms x}"
      "filter (\<lambda>x. sm_snapshot_id x \<notin> set (planned_ids policy ms)) ms = filter (plan_keeps policy ms) ms"
    by (rule planned_ids_set planned_ids_filter; rule listing_distinct [OF ms(1,2)] args_counts_ok [OF assms(4)])+
  show ?thesis
  proof (intro exI [of _ ms] conjI)
    show "if dry_run then ?m' = ?m
     else ?m \<subseteq>\<^sub>m ?m' \<and>
       (\<forall>k. ?m' k \<noteq> ?m k \<longrightarrow> (\<exists>sid \<in> set (fo_forgotten_snapshot_ids report). object_key_for_forget_marker sid = Ok k)) \<and>
       fst (read_committed_snapshot_manifests L c map_store_ops master (map_world ?m' 0)) = Ok (filter (plan_keeps policy ms) ms) \<and>
       (\<forall>shown w2. read_committed_snapshot_manifests L c ops master w' = (Ok shown, w2) \<longrightarrow>
          shown = filter (plan_keeps policy ms) ms)"
    proof (cases dry_run)
      case False
      then have marks: "remarked L (set (planned_ids policy ms)) ?m ?m'" using ms(5) by simp
      have after: "read_committed_snapshot_manifests L c map_store_ops master (map_world ?m' n) =
          (Ok (filter (plan_keeps policy ms) ms), map_world ?m' n)" for n
        using listing_after_markers [OF ms(1,2) _ marks] by (simp add: kept(2))
      have "shown = filter (plan_keeps policy ms) ms"
        if "read_committed_snapshot_manifests L c ops master w' = (Ok shown, w2)" for shown w2
        using repository_store.listing_run(4) [OF assms(1) ms(3) that refl, of 0] after [of 0] by simp
      moreover have "\<exists>sid \<in> set (planned_ids policy ms). object_key_for_forget_marker sid = Ok k" if "?m' k \<noteq> ?m k" for k
        by (rule only_markers_changes [of _ ?m ?m' k]) (use marks that in \<open>simp_all add: remarked_def\<close>)
      moreover have "?m \<subseteq>\<^sub>m ?m'" using marks by (simp add: remarked_def only_markers_def)
      ultimately show ?thesis using False after [of 0] by (simp add: ms(4))
    qed (use ms(5) in simp)
  qed (simp_all add: ms kept)
qed

section \<open>Forgetting the sample snapshot\<close>

definition sample_marker :: snapshot_forget_marker where
  "sample_marker = \<lparr>sf_schema_version = 0, sf_snapshot_id = sample_id [], sf_manifest_object = as_str sample_manifest_key,
     sf_commit_object = as_str sample_commit_key, sf_forgotten_at = 0\<rparr>"

definition marker_lib :: library where
  "marker_lib = sample_lib\<lparr>forget_codec := table_codec [sample_marker]\<rparr>"

definition sample_marker_key :: object_key where "sample_marker_key = ObjectKey (''forgets/'' @ sample_id [])"

definition tagged_policy :: retention_policy where
  "tagged_policy = retention_policy_default\<lparr>keep_tags := [''x'']\<rparr>"

lemma tagged_policy_args: "retention_policy_from_args None None None None None None [''x''] = Ok tagged_policy"
  by (simp add: retention_policy_from_args_def transpose_count_def policy_validate_def policy_is_empty_def parse_tag_def
      trim_graphic is_ascii_control_def tagged_policy_def retention_policy_default_def)

lemma sample_marker_object: "object_key_for_forget_marker (sample_id []) = Ok sample_marker_key"
proof -
  have seg: "segment_ok ''forgets''" by (rule lowercase_segment) simp_all
  have "sample_id [] = hex_bytes (replicate 32 0)" by (simp add: sample_id_def)
  then have hex: "segment_ok (sample_id [])" by (simp add: hex_bytes_segment)
  have "split_on CHR ''/'' (''forgets'' @ CHR ''/'' # sample_id []) = ''forgets'' # split_on CHR ''/'' (sample_id [])"
    by (rule split_on_append) simp
  then have "list_all segment_ok (split_on CHR ''/'' (''forgets/'' @ sample_id []))"
    using seg hex segment_ok_no_separator [OF hex] by (simp add: split_on_free)
  then show ?thesis
    by (simp add: object_key_for_forget_marker_def map_err_Ok_iff object_key_new_Ok sample_marker_key_def)
qed

lemma sample_no_forgets: "list_prefix fake_store_ops (ObjectKeyPrefix ''forgets'') sample_stored = (Ok [], sample_stored)"
proof -
  obtain ks where list: "list_prefix fake_store_ops (ObjectKeyPrefix ''forgets'') sample_stored = (Ok ks, sample_stored)"
    by (simp add: fake_store_ops_def fake_list_prefix_def)
  have keys: "bt_get sample_stored k \<noteq> None \<longleftrightarrow>
      k \<in> {sample_commit_key, sample_manifest_key, sample_index_key, sample_chunk_key}" for k
    by (auto simp: sample_stored_def simp del: bt_insert.simps split: if_splits)
  have "\<not> prefix_contains (ObjectKeyPrefix ''forgets'') k"
    if "k \<in> {sample_commit_key, sample_manifest_key, sample_index_key, sample_chunk_key}" for k
    using that by (auto simp: sample_manifest_key_def sample_index_key_def sample_chunk_key_def sample_commit_key_def
        sample_key_for_def prefix_contains_def strip_prefix_str_def)
  moreover have "distinct ks \<and> set ks = {k. True \<and> bt_get sample_stored k \<noteq> None \<and> prefix_contains (ObjectKeyPrefix ''forgets'') k}"
    by (rule fake.list_exact [OF _ _ list])
      (simp_all add: sample_stored_def object_key_prefix_new_valid [OF forgets_prefix, THEN conjunct1] del: bt_insert.simps)
  ultimately have "set ks = {}" unfolding keys by auto
  with list show ?thesis by simp
qed

lemma marker_lib_parts:
  "commit_codec marker_lib = commit_codec sample_lib" "manifest_codec marker_lib = manifest_codec sample_lib"
  "body_codec marker_lib = body_codec sample_lib" "lib_crypto marker_lib = lib_crypto sample_lib"
  "object_codec marker_lib = object_codec sample_lib"
  by (simp_all add: marker_lib_def)

lemma marker_lib_reads:
  "read_snapshot_commit marker_lib ops k = read_snapshot_commit sample_lib ops k"
  "read_snapshot_manifest marker_lib c ops master sid = read_snapshot_manifest sample_lib c ops master sid"
  by (simp_all only: read_snapshot_commit_def read_snapshot_manifest_def derive_key_def
      read_encrypted_json_object_def read_encrypted_json_object_with_bytes_def decrypt_repository_object_def
      content_id_for_metadata_def marker_lib_parts)

lemma sample_committed:
  "read_committed_snapshot_manifests marker_lib sample_config fake_store_ops sample_master sample_world =
     (Ok [sample_written_manifest], sample_world)"
proof -
  have commit: "read_snapshot_commit sample_lib fake_store_ops sample_commit_key sample_world = (Ok sample_commit, sample_world)"
    by (simp add: read_snapshot_commit_def andThen_def on_store_def map_error_def)
  show ?thesis
    by (simp add: read_committed_snapshot_manifests_def read_forgotten_snapshot_ids_def forgets_prefix commits_prefix
        andThen_def on_store_def map_error_def sample_no_forgets sample_listing marker_lib_reads commit sample_read_manifest)
qed

lemma sample_planned: "planned_ids tagged_policy [sample_written_manifest] = [sample_id []]"
  by (simp add: planned_ids_def plan_def plan_forgotten_def Let_def newest_first_def sort_desc_def collect_reasons_def
      keep_latest_def keep_periodic_def keep_tagged_def tagged_policy_def retention_policy_default_def bt_get_def
      decision_of_def retention_snapshot_of_def sample_body_def)

lemma sample_forget:
  "\<exists>report w'. forget_snapshots marker_lib sample_config fake_store_ops 0 sample_master tagged_policy False sample_world = (Ok report, w')"
proof -
  have codec: "to_vec (forget_codec marker_lib) sample_marker = Ok []" by (simp add: marker_lib_def table_codec_def)
  have "sample_marker_key \<noteq> k" if "k \<in> {sample_commit_key, sample_manifest_key, sample_index_key, sample_chunk_key}" for k
    using that by (auto simp: sample_marker_key_def sample_manifest_key_def sample_index_key_def sample_chunk_key_def
        sample_commit_key_def sample_key_for_def)
  then have new: "bt_get sample_stored sample_marker_key = None"
    by (auto simp: sample_stored_def simp del: bt_insert.simps)
  have "\<exists>ws w'. write_snapshot_forget_markers marker_lib fake_store_ops 0 [sample_id []] sample_world = (Ok ws, w')"
    by (simp add: write_snapshot_forget_markers_def write_forget_marker_def current_unix_seconds_def sample_marker_object
        sample_marker_def [symmetric] codec andThen_def on_store_def map_error_def new)
  then show ?thesis
    unfolding forget_snapshots_def Let_def planned_ids_def [symmetric]
    by (auto simp: andThen_def sample_committed sample_planned)
qed

theorem forget_keeps_planned_snapshots_witness:
  "\<exists>report w'. forget_snapshots marker_lib sample_config fake_store_ops 0 sample_master tagged_policy False sample_world = (Ok report, w') \<and>
    bt_get sample_stored \<subseteq>\<^sub>m bt_get (w_store w')"
proof -
  obtain report w' where run: "forget_snapshots marker_lib sample_config fake_store_ops 0 sample_master tagged_policy False sample_world = (Ok report, w')"
    using sample_forget by blast
  have "bt_wf (w_store sample_world)" by (simp add: sample_stored_def del: bt_insert.simps)
  moreover have "codec_ok (forget_codec marker_lib)" by (simp add: marker_lib_def table_codec_ok)
  ultimately show ?thesis
    using forget_keeps_planned_snapshots [OF fake.repository_store_axioms _ _ tagged_policy_args run] run by auto
qed

end
