(* ===== verification/Ferry_Remote.thy ===== *)
theory Ferry_Remote
  imports Ferry_Config Ferry_View "HOL-Library.Finite_Map"
begin

text \<open>
  \<open>S3Store\<close> of the storage crate: object keys become remote paths below the root prefix, the calls go to a
  client of the \<open>object_store\<close> crate, and its errors become storage errors. The client is a parameter, the
  record \<open>remote_client\<close>. What the store promises depends on the bucket. \<open>remote_eventual\<close> is all that the capabilities of
  the store claim, without strong read-after-write: with conditional creation the store then meets the contract of
  \<open>eventual_repository\<close>, and without it a stale read lets a put overwrite. Over a bucket with strong consistency,
  \<open>remote_strong\<close>, the store meets the full contract in both modes.
\<close>

section \<open>The client\<close>

datatype put_mode = PutCreate | PutOverwrite

text \<open>
  \<open>rc_get\<close> returns an opened object, \<open>rc_bytes\<close> reads its body. A listing is a stream: the items it yields,
  each a location or an error.
\<close>

record ('r, 'g) remote_client =
  rc_path_from :: "string \<Rightarrow> string"
  rc_put_opts :: "string \<Rightarrow> bytes \<Rightarrow> put_mode \<Rightarrow> ('r, backend_error, unit) prog"
  rc_get :: "string \<Rightarrow> ('r, backend_error, 'g) prog"
  rc_bytes :: "'g \<Rightarrow> ('r, backend_error, bytes) prog"
  rc_head :: "string \<Rightarrow> ('r, backend_error, unit) prog"
  rc_delete :: "string \<Rightarrow> ('r, backend_error, unit) prog"
  rc_list :: "string option \<Rightarrow> 'r \<Rightarrow> (backend_error + string) list \<times> 'r"

section \<open>The store\<close>

record ('r, 'g) s3_store =
  ss_inner :: "('r, 'g) remote_client"
  ss_root_prefix :: object_key_prefix
  ss_conditional_create :: bool

definition s3_store_new ::
  "(s3_store_config \<Rightarrow> string + ('r, 'g) remote_client) \<Rightarrow> s3_store_config \<Rightarrow> storage_error + ('r, 'g) s3_store" where
  "s3_store_new build config =
     bindR (map_err (BackendConfig S3Compatible) (build config)) (\<lambda>store.
     Ok \<lparr>ss_inner = store, ss_root_prefix = s3_root_prefix config,
         ss_conditional_create = s3_conditional_create config\<rparr>)"

definition remote_path_for_key :: "('r, 'g) s3_store \<Rightarrow> object_key \<Rightarrow> string" where
  "remote_path_for_key store key =
     (if prefix_str (ss_root_prefix store) = [] then rc_path_from (ss_inner store) (as_str key)
      else rc_path_from (ss_inner store) (prefix_str (ss_root_prefix store) @ ''/'' @ as_str key))"

definition remote_path_for_prefix :: "('r, 'g) s3_store \<Rightarrow> object_key_prefix \<Rightarrow> string option" where
  "remote_path_for_prefix store p =
     (let root = prefix_str (ss_root_prefix store); pre = prefix_str p; path_from = rc_path_from (ss_inner store) in
      if root = [] \<and> pre = [] then None
      else if root = [] then Some (path_from pre)
      else if pre = [] then Some (path_from root)
      else Some (path_from (root @ ''/'' @ pre)))"

definition local_key_from_remote :: "('r, 'g) s3_store \<Rightarrow> string \<Rightarrow> (storage_error + object_key) option" where
  "local_key_from_remote store remote =
     (let root = prefix_str (ss_root_prefix store) in
      if root = [] then Some (object_key_new remote)
      else case Option.bind (strip_prefix_str root remote) (strip_prefix_str ''/'') of
        None \<Rightarrow> None
      | Some remainder \<Rightarrow> if remainder = [] then None else Some (object_key_new remainder))"

definition map_s3_object_error :: "string \<Rightarrow> object_key \<Rightarrow> backend_error \<Rightarrow> storage_error" where
  "map_s3_object_error operation key source =
     (case source of BackendNotFound \<Rightarrow> ObjectNotFound key
      | _ \<Rightarrow> BackendObject S3Compatible operation key source)"

definition map_s3_backend_error :: "string \<Rightarrow> backend_error \<Rightarrow> storage_error" where
  "map_s3_backend_error operation source = Backend S3Compatible operation source"

definition s3_get :: "('r, 'g) s3_store \<Rightarrow> object_key \<Rightarrow> ('r, storage_error, bytes) prog" where
  "s3_get store key =
     (let p = remote_path_for_key store key in
      andThen (map_error (map_s3_object_error ''read object'' key) (rc_get (ss_inner store) p)) (\<lambda>opened.
      map_error (map_s3_object_error ''read object bytes'' key) (rc_bytes (ss_inner store) opened)))"

text \<open>Without conditional creation the store looks first and then overwrites.\<close>

definition s3_put_unconditional :: "('r, 'g) s3_store \<Rightarrow> object_key \<Rightarrow> bytes \<Rightarrow> ('r, storage_error, put_status) prog" where
  "s3_put_unconditional store key b =
     andThen (outcome_of (s3_get store key)) (\<lambda>r.
     case r of
       Ok existing \<Rightarrow> if existing = b then ret AlreadyPresent else lift_result (Err (ObjectAlreadyExists key))
     | Err (ObjectNotFound _) \<Rightarrow>
         map_error (map_s3_object_error ''put object'' key)
           (andThen (rc_put_opts (ss_inner store) (remote_path_for_key store key) b PutOverwrite) (\<lambda>_. ret Created))
     | Err e \<Rightarrow> lift_result (Err e))"

definition s3_put :: "('r, 'g) s3_store \<Rightarrow> object_key \<Rightarrow> bytes \<Rightarrow> ('r, storage_error, put_status) prog" where
  "s3_put store key b =
     (let p = remote_path_for_key store key in
      if \<not> ss_conditional_create store then s3_put_unconditional store key b
      else
        andThen (outcome_of (rc_put_opts (ss_inner store) p b PutCreate)) (\<lambda>r.
        case r of
          Ok _ \<Rightarrow> ret Created
        | Err BackendAlreadyExists \<Rightarrow>
            andThen (s3_get store key) (\<lambda>existing.
            if existing = b then ret AlreadyPresent else lift_result (Err (ObjectAlreadyExists key)))
        | Err source \<Rightarrow> lift_result (Err (map_s3_object_error ''put object'' key source))))"

definition s3_exists :: "('r, 'g) s3_store \<Rightarrow> object_key \<Rightarrow> ('r, storage_error, bool) prog" where
  "s3_exists store key =
     andThen (outcome_of (rc_head (ss_inner store) (remote_path_for_key store key))) (\<lambda>r.
     case r of
       Ok _ \<Rightarrow> ret True
     | Err BackendNotFound \<Rightarrow> ret False
     | Err source \<Rightarrow> lift_result (Err (map_s3_object_error ''stat object'' key source)))"

definition s3_delete :: "('r, 'g) s3_store \<Rightarrow> object_key \<Rightarrow> ('r, storage_error, unit) prog" where
  "s3_delete store key =
     andThen (outcome_of (rc_delete (ss_inner store) (remote_path_for_key store key))) (\<lambda>r.
     case r of
       Ok _ \<Rightarrow> ret ()
     | Err BackendNotFound \<Rightarrow> ret ()
     | Err source \<Rightarrow> lift_result (Err (map_s3_object_error ''delete object'' key source)))"

fun collect_listed ::
  "('r, 'g) s3_store \<Rightarrow> (backend_error + string) list \<Rightarrow> object_key list \<Rightarrow> storage_error + object_key list" where
  "collect_listed store [] keys = Ok keys"
| "collect_listed store (Err source # items) keys = Err (map_s3_backend_error ''list objects'' source)"
| "collect_listed store (Ok location # items) keys =
     (case local_key_from_remote store location of
        None \<Rightarrow> collect_listed store items keys
      | Some r \<Rightarrow> bindR r (\<lambda>key. collect_listed store items (keys @ [key])))"

definition s3_list_prefix :: "('r, 'g) s3_store \<Rightarrow> object_key_prefix \<Rightarrow> ('r, storage_error, object_key list) prog" where
  "s3_list_prefix store p s =
     (case rc_list (ss_inner store) (remote_path_for_prefix store p) s of (items, s') \<Rightarrow>
        (bindR (collect_listed store items []) (\<lambda>keys. Ok (sort (filter (prefix_contains p) keys))), s'))"

definition s3_store_ops :: "('r, 'g) s3_store \<Rightarrow> 'r store_ops" where
  "s3_store_ops store =
     \<lparr>capabilities = capabilities_s3_compatible (ss_conditional_create store),
      put_if_absent = s3_put store, get_object = s3_get store, object_exists = s3_exists store,
      delete_object = s3_delete store, list_prefix = s3_list_prefix store\<rparr>"

section \<open>What the store relies on\<close>

text \<open>
  A client of a bucket with strong consistency, over the objects \<open>stored\<close> of the bucket. Any call may fail. A create
  succeeds only where no object is and reports \<open>AlreadyExists\<close> only where one is then; a call that fails
  has taken effect or not; \<open>NotFound\<close> means that no object has the path; a listing that yields no error is
  the objects with further segments below the path, each once. \<open>Path::from\<close> keeps a path of plain segments.
\<close>

definition listed_below :: "string option \<Rightarrow> string \<Rightarrow> bool" where
  "listed_below dir p \<longleftrightarrow> (case dir of None \<Rightarrow> True | Some d \<Rightarrow> prefix (d @ ''/'') p)"

definition remote_put_ok :: "('r, 'g) remote_client \<Rightarrow> ('r \<Rightarrow> string \<Rightarrow> bytes option) \<Rightarrow> bool" where
  "remote_put_ok client stored \<longleftrightarrow>
     (\<forall>p b s r s'. rc_put_opts client p b PutCreate s = (r, s') \<longrightarrow>
        (stored s' = stored s \<and> r \<noteq> Ok () \<or> stored s p = None \<and> stored s' = (stored s)(p \<mapsto> b)) \<and>
        (r = Err BackendAlreadyExists \<longrightarrow> stored s' p \<noteq> None)) \<and>
     (\<forall>p b s r s'. rc_put_opts client p b PutOverwrite s = (r, s') \<longrightarrow>
        stored s' = stored s \<and> r \<noteq> Ok () \<or> stored s' = (stored s)(p \<mapsto> b))"

definition remote_read_ok ::
  "('r, 'g) remote_client \<Rightarrow> ('r \<Rightarrow> string \<Rightarrow> bytes option) \<Rightarrow> ('g \<Rightarrow> bytes) \<Rightarrow> bool" where
  "remote_read_ok client stored body \<longleftrightarrow>
     (\<forall>p s r s'. rc_get client p s = (r, s') \<longrightarrow> stored s' = stored s \<and>
        (\<forall>g. r = Ok g \<longrightarrow> stored s p = Some (body g)) \<and> (r = Err BackendNotFound \<longrightarrow> stored s p = None)) \<and>
     (\<forall>g s r s'. rc_bytes client g s = (r, s') \<longrightarrow> stored s' = stored s \<and>
        (\<forall>b. r = Ok b \<longrightarrow> b = body g) \<and> r \<noteq> Err BackendNotFound) \<and>
     (\<forall>p s r s'. rc_head client p s = (r, s') \<longrightarrow> stored s' = stored s \<and>
        (r = Ok () \<longrightarrow> stored s p \<noteq> None) \<and> (r = Err BackendNotFound \<longrightarrow> stored s p = None))"

definition remote_delete_ok :: "('r, 'g) remote_client \<Rightarrow> ('r \<Rightarrow> string \<Rightarrow> bytes option) \<Rightarrow> bool" where
  "remote_delete_ok client stored \<longleftrightarrow>
     (\<forall>p s r s'. rc_delete client p s = (r, s') \<longrightarrow>
        (stored s' = stored s \<or> stored s' = (stored s)(p := None)) \<and>
        (r = Ok () \<or> r = Err BackendNotFound \<longrightarrow> stored s' p = None))"

definition remote_list_ok :: "('r, 'g) remote_client \<Rightarrow> ('r \<Rightarrow> string \<Rightarrow> bytes option) \<Rightarrow> bool" where
  "remote_list_ok client stored \<longleftrightarrow>
     (\<forall>dir s items s'. rc_list client dir s = (items, s') \<longrightarrow> stored s' = stored s \<and>
        (\<forall>ps. items = map Ok ps \<longrightarrow>
           distinct ps \<and> set ps = {p. stored s p \<noteq> None \<and> listed_below dir p}))"

definition remote_strong ::
  "('r, 'g) remote_client \<Rightarrow> ('r \<Rightarrow> string \<Rightarrow> bytes option) \<Rightarrow> ('g \<Rightarrow> bytes) \<Rightarrow> bool" where
  "remote_strong client stored body \<longleftrightarrow>
     (\<forall>v. key_valid (ObjectKey v) \<longrightarrow> rc_path_from client v = v) \<and> remote_put_ok client stored \<and>
     remote_read_ok client stored body \<and> remote_delete_ok client stored \<and> remote_list_ok client stored"

text \<open>
  A client of a bucket without read-after-write consistency, as long as nothing is deleted, \<open>clean\<close>. A create is still
  atomic. A read returns the bytes of the object or may miss it, a listing may leave objects out.
\<close>

definition lagging_put_ok :: "('r, 'g) remote_client \<Rightarrow> ('r \<Rightarrow> string \<Rightarrow> bytes option) \<Rightarrow> ('r \<Rightarrow> bool) \<Rightarrow> bool" where
  "lagging_put_ok client stored clean \<longleftrightarrow>
     (\<forall>p b s r s'. clean s \<longrightarrow> rc_put_opts client p b PutCreate s = (r, s') \<longrightarrow> clean s' \<and>
        (stored s' = stored s \<and> r \<noteq> Ok () \<or> stored s p = None \<and> stored s' = (stored s)(p \<mapsto> b)))"

definition lagging_get_ok ::
  "('r, 'g) remote_client \<Rightarrow> ('r \<Rightarrow> string \<Rightarrow> bytes option) \<Rightarrow> ('g \<Rightarrow> bytes) \<Rightarrow> ('r \<Rightarrow> bool) \<Rightarrow> bool" where
  "lagging_get_ok client stored body clean \<longleftrightarrow>
     (\<forall>p s r s'. clean s \<longrightarrow> rc_get client p s = (r, s') \<longrightarrow> clean s' \<and> stored s' = stored s \<and>
        (\<forall>g. r = Ok g \<longrightarrow> stored s p = Some (body g)))"

definition lagging_bytes_ok ::
  "('r, 'g) remote_client \<Rightarrow> ('r \<Rightarrow> string \<Rightarrow> bytes option) \<Rightarrow> ('g \<Rightarrow> bytes) \<Rightarrow> ('r \<Rightarrow> bool) \<Rightarrow> bool" where
  "lagging_bytes_ok client stored body clean \<longleftrightarrow>
     (\<forall>g s r s'. clean s \<longrightarrow> rc_bytes client g s = (r, s') \<longrightarrow> clean s' \<and> stored s' = stored s \<and>
        (\<forall>b. r = Ok b \<longrightarrow> b = body g))"

definition lagging_head_ok :: "('r, 'g) remote_client \<Rightarrow> ('r \<Rightarrow> string \<Rightarrow> bytes option) \<Rightarrow> ('r \<Rightarrow> bool) \<Rightarrow> bool" where
  "lagging_head_ok client stored clean \<longleftrightarrow>
     (\<forall>p s r s'. clean s \<longrightarrow> rc_head client p s = (r, s') \<longrightarrow> clean s' \<and> stored s' = stored s \<and>
        (r = Ok () \<longrightarrow> stored s p \<noteq> None))"

definition lagging_list_ok :: "('r, 'g) remote_client \<Rightarrow> ('r \<Rightarrow> string \<Rightarrow> bytes option) \<Rightarrow> ('r \<Rightarrow> bool) \<Rightarrow> bool" where
  "lagging_list_ok client stored clean \<longleftrightarrow>
     (\<forall>dir s items s'. clean s \<longrightarrow> rc_list client dir s = (items, s') \<longrightarrow> clean s' \<and> stored s' = stored s \<and>
        (\<forall>ps. items = map Ok ps \<longrightarrow>
           distinct ps \<and> set ps \<subseteq> {p. stored s p \<noteq> None \<and> listed_below dir p}))"

definition remote_eventual ::
  "('r, 'g) remote_client \<Rightarrow> ('r \<Rightarrow> string \<Rightarrow> bytes option) \<Rightarrow> ('g \<Rightarrow> bytes) \<Rightarrow> ('r \<Rightarrow> bool) \<Rightarrow> bool" where
  "remote_eventual client stored body clean \<longleftrightarrow>
     (\<forall>v. key_valid (ObjectKey v) \<longrightarrow> rc_path_from client v = v) \<and>
     lagging_put_ok client stored clean \<and> lagging_get_ok client stored body clean \<and>
     lagging_bytes_ok client stored body clean \<and> lagging_head_ok client stored clean \<and> lagging_list_ok client stored clean"

section \<open>Names\<close>

definition s3_key :: "object_key \<Rightarrow> bool" where
  "s3_key k \<longleftrightarrow> key_valid k \<and> as_str k \<notin> {''commits'', ''forgets'', ''key-slots''}"

definition remote_name :: "('r, 'g) s3_store \<Rightarrow> string \<Rightarrow> string" where
  "remote_name store v =
     (let root = prefix_str (ss_root_prefix store) in if root = [] then v else root @ ''/'' @ v)"

definition s3_contents :: "('r, 'g) s3_store \<Rightarrow> ('r \<Rightarrow> string \<Rightarrow> bytes option) \<Rightarrow> 'r \<Rightarrow> object_key \<Rightarrow> bytes option" where
  "s3_contents store stored s k = (if s3_key k then stored s (remote_name store (as_str k)) else None)"

definition s3_ready :: "('r, 'g) s3_store \<Rightarrow> ('r \<Rightarrow> string \<Rightarrow> bytes option) \<Rightarrow> ('g \<Rightarrow> bytes) \<Rightarrow> bool" where
  "s3_ready store stored body \<longleftrightarrow> remote_strong (ss_inner store) stored body \<and> prefix_valid (ss_root_prefix store)"

text \<open>All that the names depend on.\<close>

definition s3_named :: "('r, 'g) s3_store \<Rightarrow> bool" where
  "s3_named store \<longleftrightarrow> (\<forall>v. key_valid (ObjectKey v) \<longrightarrow> rc_path_from (ss_inner store) v = v) \<and>
     prefix_valid (ss_root_prefix store)"

lemma s3_ready_named: "s3_ready store stored body \<Longrightarrow> s3_named store"
  by (simp add: s3_ready_def s3_named_def remote_strong_def)

lemma remote_name_inj [simp]: "remote_name store v = remote_name store w \<longleftrightarrow> v = w"
  by (simp add: remote_name_def Let_def)

lemma remote_name_below: "prefix (remote_name store d @ ''/'') (remote_name store v) \<longleftrightarrow> prefix (d @ ''/'') v"
  by (simp add: remote_name_def Let_def)

lemma key_valid_below:
  "key_valid (ObjectKey (a @ ''/'' @ b)) \<longleftrightarrow> key_valid (ObjectKey a) \<and> key_valid (ObjectKey b)"
  by (simp add: key_valid_def split_on_join)

lemma prefix_valid_key: "prefix_valid p \<Longrightarrow> prefix_str p \<noteq> [] \<Longrightarrow> key_valid (ObjectKey (prefix_str p))"
  using validate_key_False_Ok [of "prefix_str p" "()"] by (simp add: prefix_valid_def key_valid_def validate_key_def)

lemma remote_name_valid:
  assumes "s3_named store" and "key_valid (ObjectKey v)"
  shows "key_valid (ObjectKey (remote_name store v))" and "rc_path_from (ss_inner store) (remote_name store v) = remote_name store v"
proof -
  show valid: "key_valid (ObjectKey (remote_name store v))"
    using assms prefix_valid_key [of "ss_root_prefix store"] key_valid_below [of "prefix_str (ss_root_prefix store)" v]
    by (simp add: remote_name_def Let_def s3_named_def)
  then show "rc_path_from (ss_inner store) (remote_name store v) = remote_name store v"
    using assms(1) by (simp add: s3_named_def remote_strong_def)
qed

lemma remote_path_for_key_eq:
  "s3_named store \<Longrightarrow> key_valid k \<Longrightarrow> remote_path_for_key store k = remote_name store (as_str k)"
  using remote_name_valid(2) [of store "as_str k"]
  by (simp add: remote_path_for_key_def remote_name_def Let_def split: if_splits)

lemma remote_path_for_prefix_eq:
  "s3_named store \<Longrightarrow> key_valid (ObjectKey (prefix_str p)) \<Longrightarrow>
     remote_path_for_prefix store p = Some (remote_name store (prefix_str p))"
  using remote_name_valid(2) [of store "prefix_str p"] segments_ok_shape(1) [of "prefix_str p"]
  by (auto simp: remote_path_for_prefix_def remote_name_def Let_def key_valid_def split: if_splits)

lemma s3_contents_same: "stored s' = stored s \<Longrightarrow> s3_contents store stored s' = s3_contents store stored s"
  by (simp add: s3_contents_def fun_eq_iff)

lemma s3_contents_upd:
  "s3_key k \<Longrightarrow> stored s' = (stored s)(remote_name store (as_str k) := v) \<Longrightarrow>
     s3_contents store stored s' = (s3_contents store stored s)(k := v)"
  by (auto simp: s3_contents_def fun_eq_iff object_key.expand)

lemma s3_contents_at:
  "s3_named store \<Longrightarrow> s3_key k \<Longrightarrow>
     s3_contents store stored s k = stored s (remote_path_for_key store k)"
  by (simp add: s3_contents_def remote_path_for_key_eq s3_key_def)

section \<open>The operations\<close>

lemma s3_get_spec:
  assumes "s3_ready store stored body" and "s3_key k" and "s3_get store k s = (r, s')"
  shows "stored s' = stored s" and "r = Ok b \<Longrightarrow> s3_contents store stored s k = Some b"
    and "r = Err (ObjectNotFound j) \<Longrightarrow> s3_contents store stored s k = None"
    and "r \<noteq> Err (ObjectAlreadyExists j)"
proof -
  let ?p = "remote_path_for_key store k"
  have reads: "remote_read_ok (ss_inner store) stored body" using assms(1) by (simp add: s3_ready_def remote_strong_def)
  obtain g s1 where get: "rc_get (ss_inner store) ?p s = (g, s1)" by fastforce
  have g: "stored s1 = stored s" "\<And>x. g = Ok x \<Longrightarrow> stored s ?p = Some (body x)"
    "g = Err BackendNotFound \<Longrightarrow> stored s ?p = None"
    using reads get unfolding remote_read_ok_def by blast+
  have "stored s' = stored s \<and> (\<forall>b. r = Ok b \<longrightarrow> stored s ?p = Some b) \<and>
    (\<forall>j. r = Err (ObjectNotFound j) \<longrightarrow> stored s ?p = None) \<and> (\<forall>j. r \<noteq> Err (ObjectAlreadyExists j))"
  proof (cases g)
    case (Inl e)
    then show ?thesis using assms(3) get g
      by (auto simp: s3_get_def Let_def andThen_def map_error_def map_s3_object_error_def split: backend_error.splits)
  next
    case (Inr x)
    obtain y s2 where body: "rc_bytes (ss_inner store) x s1 = (y, s2)" by fastforce
    have "stored s2 = stored s1" "\<And>b. y = Ok b \<Longrightarrow> b = body x" "y \<noteq> Err BackendNotFound"
      using reads body unfolding remote_read_ok_def by blast+
    then show ?thesis using assms(3) get body g Inr
      by (cases y) (auto simp: s3_get_def Let_def andThen_def map_error_def map_s3_object_error_def split: backend_error.splits)
  qed
  then show "stored s' = stored s" and "r = Ok b \<Longrightarrow> s3_contents store stored s k = Some b"
    and "r = Err (ObjectNotFound j) \<Longrightarrow> s3_contents store stored s k = None"
    and "r \<noteq> Err (ObjectAlreadyExists j)"
    using s3_contents_at [OF s3_ready_named [OF assms(1)] assms(2)] by simp_all
qed

text \<open>What the contract asks of a put, over the contents before and after.\<close>

definition put_result :: "object_key \<Rightarrow> bytes \<Rightarrow> object_map \<Rightarrow> object_map \<Rightarrow> storage_error + put_status \<Rightarrow> bool" where
  "put_result k b m m' r \<longleftrightarrow>
     (m' = m \<or> m k = None \<and> m' = m(k \<mapsto> b)) \<and> (\<forall>st. r = Ok st \<longrightarrow> m' k = Some b) \<and>
     (r = Ok Created \<longrightarrow> m k = None) \<and>
     (\<forall>j. r = Err (ObjectAlreadyExists j) \<longrightarrow> j = k \<and> (\<exists>b'. m k = Some b' \<and> b' \<noteq> b))"

lemma map_s3_object_error_kinds [simp]:
  "map_s3_object_error operation k e \<noteq> ObjectAlreadyExists j"
  "map_s3_object_error operation k e = ObjectNotFound j \<longleftrightarrow> e = BackendNotFound \<and> j = k"
  by (auto simp: map_s3_object_error_def split: backend_error.splits)

lemma s3_put_conditional_spec:
  assumes ready: "s3_ready store stored body" "s3_key k" and cond: "ss_conditional_create store"
    and run: "s3_put store k b s = (r, s')"
  shows "put_result k b (s3_contents store stored s) (s3_contents store stored s') r"
proof -
  let ?p = "remote_path_for_key store k" and ?m = "s3_contents store stored"
  have p: "?p = remote_name store (as_str k)"
    using remote_path_for_key_eq [OF s3_ready_named [OF ready(1)]] ready(2) by (simp add: s3_key_def)
  obtain x s1 where put: "rc_put_opts (ss_inner store) ?p b PutCreate s = (x, s1)" by fastforce
  have x: "stored s1 = stored s \<and> x \<noteq> Ok () \<or> stored s ?p = None \<and> stored s1 = (stored s)(?p \<mapsto> b)"
      "x = Err BackendAlreadyExists \<Longrightarrow> stored s1 ?p \<noteq> None"
    using ready(1) put unfolding s3_ready_def remote_strong_def remote_put_ok_def by blast+
  have frame: "?m s1 = ?m s \<and> x \<noteq> Ok () \<or> ?m s k = None \<and> ?m s1 = (?m s)(k \<mapsto> b)"
    using x(1) s3_contents_same [of stored s1 s store] s3_contents_upd [OF ready(2), of stored s1 s store "Some b"]
      s3_contents_at [OF s3_ready_named [OF ready(1)] ready(2)] p by auto
  show ?thesis
  proof (cases "x = Err BackendAlreadyExists")
    case False
    then show ?thesis using run put cond frame
      by (cases x) (auto simp: s3_put_def Let_def andThen_def outcome_of_def put_result_def split: backend_error.splits)
  next
    case True
    obtain g s2 where get: "s3_get store k s1 = (g, s2)" by fastforce
    note g = s3_get_spec [OF ready get]
    have same: "?m s2 = ?m s1" by (rule s3_contents_same [OF g(1)])
    have r: "s' = s2" "r = (case g of Ok existing \<Rightarrow> if existing = b then Ok AlreadyPresent else Err (ObjectAlreadyExists k)
        | Err e \<Rightarrow> Err e)"
      using run put get cond True
      by (auto simp: s3_put_def Let_def andThen_def outcome_of_def ret_def lift_result_def split: sum.splits if_splits)
    show ?thesis
    proof (cases g)
      case (Inl e)
      then show ?thesis using r g(4) same frame True by (auto simp: put_result_def)
    next
      case (Inr existing)
      then have "?m s1 k = Some existing" using g(2) by simp
      then show ?thesis using r Inr same frame True by (auto simp: put_result_def)
    qed
  qed
qed

lemma s3_put_unconditional_spec:
  assumes ready: "s3_ready store stored body" "s3_key k" and cond: "\<not> ss_conditional_create store"
    and run: "s3_put store k b s = (r, s')"
  shows "put_result k b (s3_contents store stored s) (s3_contents store stored s') r"
proof -
  let ?p = "remote_path_for_key store k" and ?m = "s3_contents store stored"
  have p: "?p = remote_name store (as_str k)"
    using remote_path_for_key_eq [OF s3_ready_named [OF ready(1)]] ready(2) by (simp add: s3_key_def)
  obtain g s1 where get: "s3_get store k s = (g, s1)" by fastforce
  note g = s3_get_spec [OF ready get]
  have same: "?m s1 = ?m s" by (rule s3_contents_same [OF g(1)])
  show ?thesis
  proof (cases "\<exists>j. g = Err (ObjectNotFound j)")
    case True
    then have none: "?m s k = None" using g(3) by blast
    obtain x s2 where put: "rc_put_opts (ss_inner store) ?p b PutOverwrite s1 = (x, s2)" by fastforce
    have "stored s2 = stored s1 \<and> x \<noteq> Ok () \<or> stored s2 = (stored s1)(?p \<mapsto> b)"
      using ready(1) put unfolding s3_ready_def remote_strong_def remote_put_ok_def by blast
    then have frame: "?m s2 = ?m s \<and> x \<noteq> Ok () \<or> ?m s2 = (?m s)(k \<mapsto> b)"
      using s3_contents_same [of stored s2 s1 store] s3_contents_upd [OF ready(2), of stored s2 s1 store "Some b"] p same by auto
    show ?thesis using run get put cond True none frame
      by (cases x) (auto simp: s3_put_def s3_put_unconditional_def Let_def andThen_def outcome_of_def map_error_def put_result_def)
  next
    case False
    then show ?thesis using run get cond g(2,4) same
      by (cases g) (auto simp: s3_put_def s3_put_unconditional_def Let_def andThen_def outcome_of_def put_result_def
          split: storage_error.splits if_splits)
  qed
qed

lemma s3_put_spec:
  "s3_ready store stored body \<Longrightarrow> s3_key k \<Longrightarrow> s3_put store k b s = (r, s') \<Longrightarrow>
     put_result k b (s3_contents store stored s) (s3_contents store stored s') r"
  by (cases "ss_conditional_create store") (blast intro: s3_put_conditional_spec s3_put_unconditional_spec)+

lemma s3_exists_spec:
  assumes ready: "s3_ready store stored body" "s3_key k" and run: "s3_exists store k s = (r, s')"
  shows "stored s' = stored s" and "r = Ok e \<Longrightarrow> e \<longleftrightarrow> s3_contents store stored s k \<noteq> None"
proof -
  let ?p = "remote_path_for_key store k"
  obtain x s1 where head: "rc_head (ss_inner store) ?p s = (x, s1)" by fastforce
  have x: "stored s1 = stored s" "x = Ok () \<Longrightarrow> stored s ?p \<noteq> None" "x = Err BackendNotFound \<Longrightarrow> stored s ?p = None"
    using ready(1) head unfolding s3_ready_def remote_strong_def remote_read_ok_def by blast+
  have "stored s' = stored s \<and> (r = Ok e \<longrightarrow> e = (stored s ?p \<noteq> None))"
    using run head x by (cases x) (auto simp: s3_exists_def andThen_def outcome_of_def split: backend_error.splits)
  then show "stored s' = stored s" and "r = Ok e \<Longrightarrow> e \<longleftrightarrow> s3_contents store stored s k \<noteq> None"
    using s3_contents_at [OF s3_ready_named [OF ready(1)] ready(2)] by simp_all
qed

lemma s3_delete_spec:
  assumes ready: "s3_ready store stored body" "s3_key k" and run: "s3_delete store k s = (r, s')"
  shows "s3_contents store stored s' = s3_contents store stored s \<or>
      s3_contents store stored s' = (s3_contents store stored s)(k := None)"
    and "r = Ok u \<Longrightarrow> s3_contents store stored s' k = None"
proof -
  let ?p = "remote_path_for_key store k" and ?m = "s3_contents store stored"
  have p: "?p = remote_name store (as_str k)"
    using remote_path_for_key_eq [OF s3_ready_named [OF ready(1)]] ready(2) by (simp add: s3_key_def)
  obtain x s1 where del: "rc_delete (ss_inner store) ?p s = (x, s1)" by fastforce
  have x: "stored s1 = stored s \<or> stored s1 = (stored s)(?p := None)"
      "x = Ok () \<or> x = Err BackendNotFound \<Longrightarrow> stored s1 ?p = None"
    using ready(1) del unfolding s3_ready_def remote_strong_def remote_delete_ok_def by blast+
  have r: "s' = s1" "r = Ok u \<Longrightarrow> x = Ok () \<or> x = Err BackendNotFound"
    using run del by (cases x; auto simp: s3_delete_def andThen_def outcome_of_def split: backend_error.splits)+
  show "?m s' = ?m s \<or> ?m s' = (?m s)(k := None)"
    using x(1) s3_contents_same [of stored s1 s store] s3_contents_upd [OF ready(2), of stored s1 s store None] p r(1) by auto
  show "r = Ok u \<Longrightarrow> ?m s' k = None" using r x(2) s3_contents_at [OF s3_ready_named [OF ready(1)] ready(2)] by simp
qed

section \<open>Listings\<close>

text \<open>A location below the listed path is the remote name of a key, or the listing fails.\<close>

lemma local_key_from_remote_name:
  assumes "local_key_from_remote store l = Some (Ok k)"
  shows "l = remote_name store (as_str k)" and "key_valid k"
  using assms
  by (auto simp: local_key_from_remote_def remote_name_def Let_def strip_prefix_str_Some key_valid_def object_key_new_Ok
      bind_eq_Some_conv split: if_splits option.splits)

lemma local_key_from_remote_own:
  assumes "key_valid k"
  shows "local_key_from_remote store (remote_name store (as_str k)) = Some (Ok k)"
proof -
  have "object_key_new (as_str k) = Ok k" using assms by (simp add: object_key_new_Ok key_valid_def)
  moreover have "as_str k \<noteq> []" using assms segments_ok_shape(1) by (simp add: key_valid_def)
  ultimately show ?thesis
    by (simp add: local_key_from_remote_def remote_name_def Let_def strip_prefix_str_def)
qed

definition listed_key :: "('r, 'g) s3_store \<Rightarrow> string \<Rightarrow> object_key option" where
  "listed_key store l =
     Option.bind (local_key_from_remote store l) (\<lambda>r. case r of Ok k \<Rightarrow> Some k | Err _ \<Rightarrow> None)"

lemma listed_key_Some: "listed_key store l = Some k \<longleftrightarrow> local_key_from_remote store l = Some (Ok k)"
  unfolding listed_key_def by (cases "local_key_from_remote store l"; cases "the (local_key_from_remote store l)") auto

lemma listed_key_iff: "listed_key store l = Some k \<longleftrightarrow> key_valid k \<and> l = remote_name store (as_str k)"
  unfolding listed_key_Some using local_key_from_remote_name local_key_from_remote_own by metis

lemma collect_listed_Ok:
  assumes "collect_listed store items acc = Ok keys"
  shows "\<exists>ps. items = map Ok ps \<and> keys = acc @ List.map_filter (listed_key store) ps"
  using assms
proof (induction store items acc rule: collect_listed.induct)
  case (3 store l items acc)
  show ?case
  proof (cases "local_key_from_remote store l")
    case None
    then obtain ps where "items = map Ok ps" "keys = acc @ List.map_filter (listed_key store) ps" using 3 by auto
    moreover have "listed_key store l = None" using None by (simp add: listed_key_def)
    ultimately show ?thesis by (intro exI [of _ "l # ps"]) (simp add: List.map_filter_simps)
  next
    case (Some r)
    then obtain k where k: "r = Ok k" using 3(3) by (cases r) auto
    then obtain ps where "items = map Ok ps" "keys = (acc @ [k]) @ List.map_filter (listed_key store) ps"
      using 3(2) [OF Some] 3(3) Some by auto
    moreover have "listed_key store l = Some k" using Some k by (simp add: listed_key_def)
    ultimately show ?thesis by (intro exI [of _ "l # ps"]) (simp add: List.map_filter_simps)
  qed
qed (auto intro!: exI [of _ "[]"] simp: List.map_filter_simps)

lemma set_map_filter: "set (List.map_filter f xs) = {y. \<exists>x \<in> set xs. f x = Some y}"
  by (induction xs) (auto simp: List.map_filter_simps split: option.splits)

lemma distinct_map_filter:
  "distinct xs \<Longrightarrow> (\<And>x y z. f x = Some z \<Longrightarrow> f y = Some z \<Longrightarrow> x = y) \<Longrightarrow> distinct (List.map_filter f xs)"
  by (induction xs) (auto simp: List.map_filter_simps set_map_filter split: option.splits)

text \<open>A listed prefix is not the key of an object, so its listing is what is below it.\<close>

lemma listed_prefix_contains:
  assumes "listed_prefix p"
  shows "s3_key k \<and> prefix_contains p k \<longleftrightarrow> key_valid k \<and> prefix (prefix_str p @ ''/'') (as_str k)"
proof -
  define names :: "string set" where "names = {''commits'', ''forgets'', ''key-slots''}"
  have p: "prefix_str p \<in> names" using assms by (simp add: listed_prefix_def names_def)
  have below: "as_str k \<notin> names" if "prefix (prefix_str p @ ''/'') (as_str k)"
    using that p by (auto simp: prefix_def names_def)
  have "prefix_contains p k \<longleftrightarrow> as_str k = prefix_str p \<or> prefix (prefix_str p @ ''/'') (as_str k)"
    using p by (auto simp: prefix_contains_def strip_prefix_str_def prefix_def names_def)
  moreover have "s3_key k \<longleftrightarrow> key_valid k \<and> as_str k \<notin> names" by (simp add: s3_key_def names_def)
  ultimately show ?thesis using p below by metis
qed

lemma s3_list_spec:
  assumes ready: "s3_ready store stored body" and run: "s3_list_prefix store p s = (r, s')"
  shows "stored s' = stored s"
    and "listed_prefix p \<Longrightarrow> r = Ok ks \<Longrightarrow>
      distinct ks \<and> set ks = {k. s3_key k \<and> s3_contents store stored s k \<noteq> None \<and> prefix_contains p k}"
proof -
  obtain items s1 where list: "rc_list (ss_inner store) (remote_path_for_prefix store p) s = (items, s1)" by fastforce
  have s': "s' = s1" using run list by (simp add: s3_list_prefix_def)
  have l: "stored s1 = stored s" "\<And>ps. items = map Ok ps \<Longrightarrow>
      distinct ps \<and> set ps = {q. stored s q \<noteq> None \<and> listed_below (remote_path_for_prefix store p) q}"
    using ready list unfolding s3_ready_def remote_strong_def remote_list_ok_def by blast+
  show "stored s' = stored s" using l(1) s' by simp
  assume p: "listed_prefix p" and ok: "r = Ok ks"
  have "prefix_str p \<noteq> []" "prefix_valid p" using p by (auto simp: listed_prefix_def)
  then have dir: "remote_path_for_prefix store p = Some (remote_name store (prefix_str p))"
    using remote_path_for_prefix_eq [OF s3_ready_named [OF ready] prefix_valid_key] by blast
  obtain keys where keys: "collect_listed store items [] = Ok keys" "ks = sort (filter (prefix_contains p) keys)"
    using run list ok by (auto simp: s3_list_prefix_def bindR_Ok_iff)
  then obtain ps where ps: "items = map Ok ps" "keys = List.map_filter (listed_key store) ps"
    using collect_listed_Ok [OF keys(1)] by auto
  have "distinct keys" unfolding ps(2)
    by (rule distinct_map_filter) (use l(2) [OF ps(1)] in \<open>auto simp: listed_key_iff\<close>)
  moreover have "k \<in> set keys \<longleftrightarrow> key_valid k \<and> stored s (remote_name store (as_str k)) \<noteq> None \<and>
      prefix (prefix_str p @ ''/'') (as_str k)" for k
    using l(2) [OF ps(1)] unfolding ps(2) set_map_filter listed_key_iff dir
    by (auto simp: listed_below_def remote_name_below)
  ultimately show "distinct ks \<and> set ks = {k. s3_key k \<and> s3_contents store stored s k \<noteq> None \<and> prefix_contains p k}"
    using keys(2) listed_prefix_contains [OF p] by (auto simp: s3_contents_def)
qed

section \<open>The contract\<close>

lemma s3_ops_sel [simp]:
  "put_if_absent (s3_store_ops store) = s3_put store" "get_object (s3_store_ops store) = s3_get store"
  "object_exists (s3_store_ops store) = s3_exists store" "delete_object (s3_store_ops store) = s3_delete store"
  "list_prefix (s3_store_ops store) = s3_list_prefix store"
  by (simp_all add: s3_store_ops_def)

lemma s3_object_store:
  assumes ready: "s3_ready store stored body"
  shows "object_store (s3_store_ops store) (s3_contents store stored) (\<lambda>_. True) s3_key"
proof (unfold_locales, unfold s3_ops_sel, goal_cases)
  case (1 s k b r s') then show ?case using s3_put_spec [OF ready 1(2,3)] by (simp add: put_result_def)
next
  case (2 s k b st s') then show ?case using s3_put_spec [OF ready 2(2,3)] by (simp add: put_result_def)
next
  case (3 s k b s') then show ?case using s3_put_spec [OF ready 3(2,3)] by (simp add: put_result_def)
next
  case (4 s k b j s') then show ?case using s3_put_spec [OF ready 4(2,3)] by (simp add: put_result_def)
next
  case (5 s k rg s') then show ?case using s3_contents_same [of stored, OF s3_get_spec(1) [OF ready 5(2,3)]] by simp
next
  case (6 s k b s') then show ?case using s3_get_spec(2) [OF ready 6(2,3)] by simp
next
  case (7 s k j s') then show ?case using s3_get_spec(3) [OF ready 7(2,3)] by simp
next
  case (8 s k re s') then show ?case using s3_contents_same [of stored, OF s3_exists_spec(1) [OF ready 8(2,3)]] by simp
next
  case (9 s k e s') then show ?case using s3_exists_spec(2) [OF ready 9(2,3)] by simp
next
  case (10 s k rd s') then show ?case using s3_delete_spec(1) [OF ready 10(2,3)] by simp
next
  case (11 s k u s') then show ?case using s3_delete_spec(2) [OF ready 11(2,3)] by simp
next
  case (12 s p rl s') then show ?case using s3_contents_same [of stored, OF s3_list_spec(1) [OF ready 12(2)]] by simp
next
  case (13 s p ks s') then show ?case using s3_list_spec(2) [OF ready 13(3) 13(2) refl] by simp
qed

lemma s3_repository_store:
  assumes ready: "s3_ready store stored body"
  shows "repository_store (s3_store_ops store) (s3_contents store stored) (\<lambda>_. True) s3_key"
proof (intro repository_store.intro s3_object_store [OF ready] repository_store_axioms.intro)
  fix k assume "key_valid k" "repo_key k"
  then show "s3_key k" by (auto simp: s3_key_def repo_key_def repository_roots_def prefix_def)
next
  fix s k b assume "s3_contents store stored s k = Some b"
  then show "s3_key k" by (simp add: s3_contents_def split: if_splits)
qed

section \<open>Reads that lag behind\<close>

definition s3_lagging ::
  "('r, 'g) s3_store \<Rightarrow> ('r \<Rightarrow> string \<Rightarrow> bytes option) \<Rightarrow> ('g \<Rightarrow> bytes) \<Rightarrow> ('r \<Rightarrow> bool) \<Rightarrow> bool" where
  "s3_lagging store stored body clean \<longleftrightarrow> remote_eventual (ss_inner store) stored body clean \<and>
     prefix_valid (ss_root_prefix store) \<and> ss_conditional_create store"

lemma s3_lagging_named: "s3_lagging store stored body clean \<Longrightarrow> s3_named store"
  by (simp add: s3_lagging_def s3_named_def remote_eventual_def)

lemma lagging_get:
  assumes "s3_lagging store stored body clean" and "clean s" "s3_key k" and "s3_get store k s = (r, s')"
  shows "clean s'" and "stored s' = stored s" and "r = Ok b \<Longrightarrow> s3_contents store stored s k = Some b"
    and "r \<noteq> Err (ObjectAlreadyExists j)"
proof -
  let ?p = "remote_path_for_key store k"
  have client: "remote_eventual (ss_inner store) stored body clean" using assms(1) by (simp add: s3_lagging_def)
  obtain g s1 where get: "rc_get (ss_inner store) ?p s = (g, s1)" by fastforce
  have g: "clean s1" "stored s1 = stored s" "\<And>x. g = Ok x \<Longrightarrow> stored s ?p = Some (body x)"
    using client assms(2) get unfolding remote_eventual_def lagging_get_ok_def by blast+
  have "clean s' \<and> stored s' = stored s \<and> (\<forall>b. r = Ok b \<longrightarrow> stored s ?p = Some b) \<and> (\<forall>j. r \<noteq> Err (ObjectAlreadyExists j))"
  proof (cases g)
    case (Inl e)
    then show ?thesis using assms(4) get g by (auto simp: s3_get_def Let_def andThen_def map_error_def)
  next
    case (Inr x)
    obtain y s2 where body: "rc_bytes (ss_inner store) x s1 = (y, s2)" by fastforce
    have "clean s2" "stored s2 = stored s1" "\<And>b. y = Ok b \<Longrightarrow> b = body x"
      using client g(1) body unfolding remote_eventual_def lagging_bytes_ok_def by blast+
    then show ?thesis using assms(4) get body g Inr
      by (cases y) (auto simp: s3_get_def Let_def andThen_def map_error_def)
  qed
  then show "clean s'" and "stored s' = stored s" and "r = Ok b \<Longrightarrow> s3_contents store stored s k = Some b"
    and "r \<noteq> Err (ObjectAlreadyExists j)"
    using s3_contents_at [OF s3_lagging_named [OF assms(1)] assms(3)] by simp_all
qed

lemma lagging_put:
  assumes lag: "s3_lagging store stored body clean" and s: "clean s" and k: "s3_key k"
    and run: "s3_put store k b s = (r, s')"
  shows "clean s' \<and> put_result k b (s3_contents store stored s) (s3_contents store stored s') r"
proof -
  let ?p = "remote_path_for_key store k" and ?m = "s3_contents store stored"
  note named = s3_lagging_named [OF lag]
  have p: "?p = remote_name store (as_str k)" using remote_path_for_key_eq [OF named] k by (simp add: s3_key_def)
  have client: "remote_eventual (ss_inner store) stored body clean" and cond: "ss_conditional_create store"
    using lag by (simp_all add: s3_lagging_def)
  obtain x s1 where put: "rc_put_opts (ss_inner store) ?p b PutCreate s = (x, s1)" by fastforce
  have x: "clean s1" "stored s1 = stored s \<and> x \<noteq> Ok () \<or> stored s ?p = None \<and> stored s1 = (stored s)(?p \<mapsto> b)"
    using client s put unfolding remote_eventual_def lagging_put_ok_def by blast+
  have frame: "?m s1 = ?m s \<and> x \<noteq> Ok () \<or> ?m s k = None \<and> ?m s1 = (?m s)(k \<mapsto> b)"
    using x(2) s3_contents_same [of stored s1 s store] s3_contents_upd [OF k, of stored s1 s store "Some b"]
      s3_contents_at [OF named k] p by auto
  show ?thesis
  proof (cases "x = Err BackendAlreadyExists")
    case False
    then show ?thesis using run put cond frame x(1)
      by (cases x) (auto simp: s3_put_def Let_def andThen_def outcome_of_def put_result_def split: backend_error.splits)
  next
    case True
    obtain g s2 where get: "s3_get store k s1 = (g, s2)" by fastforce
    note g = lagging_get [OF lag x(1) k get]
    have same: "?m s2 = ?m s1" by (rule s3_contents_same [OF g(2)])
    have r: "s' = s2" "r = (case g of Ok existing \<Rightarrow> if existing = b then Ok AlreadyPresent else Err (ObjectAlreadyExists k)
        | Err e \<Rightarrow> Err e)"
      using run put get cond True
      by (auto simp: s3_put_def Let_def andThen_def outcome_of_def ret_def lift_result_def split: sum.splits if_splits)
    show ?thesis
    proof (cases g)
      case (Inl e)
      then show ?thesis using r g(1,4) same frame True by (auto simp: put_result_def)
    next
      case (Inr existing)
      then have "?m s1 k = Some existing" using g(3) by simp
      then show ?thesis using r Inr same frame True g(1) by (auto simp: put_result_def)
    qed
  qed
qed

lemma lagging_exists:
  assumes lag: "s3_lagging store stored body clean" and s: "clean s" and k: "s3_key k"
    and run: "s3_exists store k s = (r, s')"
  shows "clean s'" and "stored s' = stored s" and "r = Ok True \<Longrightarrow> s3_contents store stored s k \<noteq> None"
proof -
  let ?p = "remote_path_for_key store k"
  have client: "remote_eventual (ss_inner store) stored body clean" using lag by (simp add: s3_lagging_def)
  obtain x s1 where head: "rc_head (ss_inner store) ?p s = (x, s1)" by fastforce
  have x: "clean s1" "stored s1 = stored s" "x = Ok () \<Longrightarrow> stored s ?p \<noteq> None"
    using client s head unfolding remote_eventual_def lagging_head_ok_def by blast+
  have "clean s' \<and> stored s' = stored s \<and> (r = Ok True \<longrightarrow> stored s ?p \<noteq> None)"
    using run head x by (cases x) (auto simp: s3_exists_def andThen_def outcome_of_def split: backend_error.splits)
  then show "clean s'" and "stored s' = stored s" and "r = Ok True \<Longrightarrow> s3_contents store stored s k \<noteq> None"
    using s3_contents_at [OF s3_lagging_named [OF lag] k] by simp_all
qed

lemma lagging_list:
  assumes lag: "s3_lagging store stored body clean" and s: "clean s" and run: "s3_list_prefix store p s = (r, s')"
  shows "clean s'" and "stored s' = stored s"
    and "listed_prefix p \<Longrightarrow> r = Ok ks \<Longrightarrow>
      distinct ks \<and> set ks \<subseteq> {k. s3_key k \<and> s3_contents store stored s k \<noteq> None \<and> prefix_contains p k}"
proof -
  have client: "remote_eventual (ss_inner store) stored body clean" using lag by (simp add: s3_lagging_def)
  obtain items s1 where list: "rc_list (ss_inner store) (remote_path_for_prefix store p) s = (items, s1)" by fastforce
  have s': "s' = s1" using run list by (simp add: s3_list_prefix_def)
  have l: "clean s1" "stored s1 = stored s" "\<And>ps. items = map Ok ps \<Longrightarrow>
      distinct ps \<and> set ps \<subseteq> {q. stored s q \<noteq> None \<and> listed_below (remote_path_for_prefix store p) q}"
    using client s list unfolding remote_eventual_def lagging_list_ok_def by blast+
  show "clean s'" and "stored s' = stored s" using l(1,2) s' by simp_all
  assume p: "listed_prefix p" and ok: "r = Ok ks"
  have "prefix_str p \<noteq> []" "prefix_valid p" using p by (auto simp: listed_prefix_def)
  then have dir: "remote_path_for_prefix store p = Some (remote_name store (prefix_str p))"
    using remote_path_for_prefix_eq [OF s3_lagging_named [OF lag] prefix_valid_key] by blast
  obtain keys where keys: "collect_listed store items [] = Ok keys" "ks = sort (filter (prefix_contains p) keys)"
    using run list ok by (auto simp: s3_list_prefix_def bindR_Ok_iff)
  then obtain ps where ps: "items = map Ok ps" "keys = List.map_filter (listed_key store) ps"
    using collect_listed_Ok [OF keys(1)] by auto
  have "distinct keys" unfolding ps(2)
    by (rule distinct_map_filter) (use l(3) [OF ps(1)] in \<open>auto simp: listed_key_iff\<close>)
  moreover have "key_valid k \<and> stored s (remote_name store (as_str k)) \<noteq> None \<and> prefix (prefix_str p @ ''/'') (as_str k)"
    if k: "k \<in> set keys" for k
  proof -
    obtain q where q: "q \<in> set ps" "key_valid k" "q = remote_name store (as_str k)"
      using k unfolding ps(2) set_map_filter listed_key_iff by blast
    then have "stored s q \<noteq> None" "listed_below (Some (remote_name store (prefix_str p))) q"
      using l(3) [OF ps(1)] dir by auto
    then show ?thesis using q by (simp add: listed_below_def remote_name_below)
  qed
  ultimately show "distinct ks \<and> set ks \<subseteq> {k. s3_key k \<and> s3_contents store stored s k \<noteq> None \<and> prefix_contains p k}"
    using keys(2) listed_prefix_contains [OF p] by (auto simp: s3_contents_def)
qed

lemma s3_eventual_store:
  assumes lag: "s3_lagging store stored body clean"
  shows "eventual_store (s3_store_ops store) (s3_contents store stored) clean s3_key"
proof (unfold_locales, unfold s3_ops_sel, goal_cases)
  case (1 s k b r s') then show ?case using lagging_put [OF lag 1] by (simp add: put_result_def)
next
  case (2 s k b st s') then show ?case using lagging_put [OF lag 2] by (simp add: put_result_def)
next
  case (3 s k b s') then show ?case using lagging_put [OF lag 3] by (simp add: put_result_def)
next
  case (4 s k b j s') then show ?case using lagging_put [OF lag 4] by (simp add: put_result_def)
next
  case (5 s k rg s')
  then show ?case using lagging_get(1) [OF lag 5] s3_contents_same [of stored, OF lagging_get(2) [OF lag 5]] by simp
next
  case (6 s k b s') then show ?case using lagging_get(3) [OF lag 6] by simp
next
  case (7 s k re s')
  then show ?case using lagging_exists(1) [OF lag 7] s3_contents_same [of stored, OF lagging_exists(2) [OF lag 7]] by simp
next
  case (8 s k s') then show ?case using lagging_exists(3) [OF lag 8] by simp
next
  case (9 s p rl s')
  then show ?case using lagging_list(1) [OF lag 9] s3_contents_same [of stored, OF lagging_list(2) [OF lag 9]] by simp
next
  case (10 s p ks s') then show ?case using lagging_list(3) [OF lag 10(1,3) 10(2) refl] by simp
qed

lemma s3_usable: "key_valid k \<Longrightarrow> repo_key k \<Longrightarrow> s3_key k"
  by (auto simp: s3_key_def repo_key_def repository_roots_def prefix_def)

section \<open>The configured store\<close>

lemma parsed_root_valid: "parse_s3_repository_url url = Ok parsed \<Longrightarrow> prefix_valid (pu_root_prefix parsed)"
  by (auto simp: parse_s3_repository_url_def Let_def bindR_Ok_iff map_err_Ok_iff prefix_valid_def prefix_root_def validate_key_def
      split: if_splits option.splits prod.splits dest: object_key_prefix_new_valid)

lemma s3_store_config_new_root: "s3_store_config_new b r e i a p = Ok config \<Longrightarrow> s3_root_prefix config = p"
  by (auto simp: s3_store_config_new_def bindR_Ok_iff)

lemma configured_root_valid:
  "s3_repository_config message url environment = Ok config \<Longrightarrow> prefix_valid (s3_root_prefix config)"
  by (auto simp: s3_repository_config_def bindR_Ok_iff map_err_Ok_iff with_conditional_create_def
      dest!: s3_store_config_new_root parsed_root_valid)

lemma s3_policy_store:
  assumes "s3_ready store stored body"
  shows "repository_store (policy_store_ops timer policy (s3_store_ops store)) (s3_contents store stored \<circ> ps_inner)
    (\<lambda>_. True) s3_key"
proof -
  note contract = s3_repository_store [OF assms]
  have "object_store (policy_store_ops timer policy (s3_store_ops store)) (s3_contents store stored \<circ> ps_inner)
      ((\<lambda>_. True) \<circ> ps_inner) s3_key"
    using repository_store.axioms(1) [OF contract] by (rule object_store.policy_contract)
  then show ?thesis
    using repository_store.axioms(2) [OF contract] by (simp add: repository_store_def repository_store_axioms_def comp_def)
qed

lemma s3_policy_eventual:
  assumes lag: "s3_lagging store stored body clean"
  shows "eventual_repository (policy_store_ops timer policy (s3_store_ops store)) (s3_contents store stored \<circ> ps_inner)
    (clean \<circ> ps_inner) s3_key"
  by (intro eventual_repository.intro eventual_repository_axioms.intro s3_usable
      eventual_store.policy_eventual [OF s3_eventual_store [OF lag]])

text \<open>
  C14: the S3 store that a repository URL and the environment configure, behind the retry policy and whatever
  calls fail. With conditional creation it meets the contract of a repository whose reads and listings may lag
  behind, on a bucket that promises no read after write and no complete listing, as long as nothing is deleted.
  On a bucket with strong consistency it meets the full contract of a repository store, with and without
  conditional creation. The objects of the repository are those below the prefix of the URL.
\<close>

theorem s3_store_meets_contract:
  assumes "s3_repository_config message url environment = Ok config" and "build config = Ok client"
  shows "\<exists>store. s3_store_new build config = Ok store \<and> ss_inner store = client \<and>
    (s3_conditional_create config \<longrightarrow> remote_eventual client stored body clean \<longrightarrow>
       eventual_repository (policy_store_ops timer policy (s3_store_ops store)) (s3_contents store stored \<circ> ps_inner)
         (clean \<circ> ps_inner) s3_key) \<and>
    (remote_strong client stored body \<longrightarrow>
       repository_store (policy_store_ops timer policy (s3_store_ops store)) (s3_contents store stored \<circ> ps_inner)
         (\<lambda>_. True) s3_key)"
proof -
  define store where "store = \<lparr>ss_inner = client, ss_root_prefix = s3_root_prefix config,
    ss_conditional_create = s3_conditional_create config\<rparr>"
  have sel: "ss_inner store = client" "ss_root_prefix store = s3_root_prefix config"
    "ss_conditional_create store = s3_conditional_create config" by (simp_all add: store_def)
  note root = configured_root_valid [OF assms(1)]
  have "s3_lagging store stored body clean" if "s3_conditional_create config" "remote_eventual client stored body clean"
    using root that by (simp add: s3_lagging_def sel)
  moreover have "s3_ready store stored body" if "remote_strong client stored body"
    using root that by (simp add: s3_ready_def sel)
  moreover have "s3_store_new build config = Ok store" using assms(2) by (simp add: s3_store_new_def store_def)
  ultimately show ?thesis
    using s3_policy_eventual [of store stored body clean timer policy] s3_policy_store [of store stored body timer policy] sel(1)
    by blast
qed

text \<open>A client over a finite map of objects.\<close>

definition memory_client :: "((string, bytes) fmap, bytes) remote_client" where
  "memory_client =
     \<lparr>rc_path_from = (\<lambda>p. p),
      rc_put_opts = (\<lambda>p b m s.
        if m = PutCreate \<and> fmlookup s p \<noteq> None then (Err BackendAlreadyExists, s) else (Ok (), fmupd p b s)),
      rc_get = (\<lambda>p s. (ok_or BackendNotFound (fmlookup s p), s)),
      rc_bytes = (\<lambda>b s. (Ok b, s)),
      rc_head = (\<lambda>p s. (ok_or BackendNotFound (map_option (\<lambda>_. ()) (fmlookup s p)), s)),
      rc_delete = (\<lambda>p s. (Ok (), fmdrop p s)),
      rc_list = (\<lambda>dir s. (map Ok (filter (listed_below dir) (sorted_list_of_set (fset (fmdom s)))), s))\<rparr>"

lemma memory_client_ok: "remote_strong memory_client fmlookup (\<lambda>b. b)"
proof -
  have "map Ok xs = map Ok ys \<longleftrightarrow> xs = ys" for xs ys :: "string list" by (simp add: inj_map_eq_map inj_def)
  moreover have "(p \<in> fset (fmdom s)) = (fmlookup s p \<noteq> None)" for p and s :: "(string, bytes) fmap"
    by (simp add: fmlookup_dom_iff)
  ultimately show ?thesis
    by (auto simp: remote_strong_def remote_put_ok_def remote_read_ok_def remote_delete_ok_def remote_list_ok_def
        memory_client_def ok_or_def fun_eq_iff split: option.splits if_splits)
qed

text \<open>
  A client whose reads lag behind: they see the objects of the second map, which catches up with every look. A
  create looks at the objects that are there.
\<close>

definition lagging_client :: "((string, bytes) fmap \<times> (string, bytes) fmap, bytes) remote_client" where
  "lagging_client =
     \<lparr>rc_path_from = (\<lambda>p. p),
      rc_put_opts = (\<lambda>p b m (cur, vis).
        if m = PutCreate \<and> fmlookup cur p \<noteq> None then (Err BackendAlreadyExists, (cur, vis))
        else (Ok (), (fmupd p b cur, vis))),
      rc_get = (\<lambda>p (cur, vis). (ok_or BackendNotFound (fmlookup vis p), (cur, cur))),
      rc_bytes = (\<lambda>b s. (Ok b, s)),
      rc_head = (\<lambda>p (cur, vis). (ok_or BackendNotFound (map_option (\<lambda>_. ()) (fmlookup vis p)), (cur, cur))),
      rc_delete = (\<lambda>p (cur, vis). (Ok (), (fmdrop p cur, vis))),
      rc_list = (\<lambda>dir (cur, vis). (map Ok (filter (listed_below dir) (sorted_list_of_set (fset (fmdom vis)))), (cur, cur)))\<rparr>"

definition lagging_clean :: "(string, bytes) fmap \<times> (string, bytes) fmap \<Rightarrow> bool" where
  "lagging_clean s \<longleftrightarrow> fmlookup (snd s) \<subseteq>\<^sub>m fmlookup (fst s)"

lemma lagging_seen: "lagging_clean (cur, vis) \<Longrightarrow> fmlookup vis p = Some b \<Longrightarrow> fmlookup cur p = Some b"
  unfolding lagging_clean_def map_le_def fst_conv snd_conv by (metis domI)

lemma lagging_grows: "lagging_clean (cur, vis) \<Longrightarrow> fmlookup cur p = None \<Longrightarrow> lagging_clean (fmupd p b cur, vis)"
  by (auto simp: lagging_clean_def map_le_def dom_def)

lemma lagging_client_eventual: "remote_eventual lagging_client (fmlookup \<circ> fst) (\<lambda>b. b) lagging_clean"
proof -
  have "map Ok xs = map Ok ys \<longleftrightarrow> xs = ys" for xs ys :: "string list" by (simp add: inj_map_eq_map inj_def)
  moreover have "lagging_clean (cur, cur)" for cur by (simp add: lagging_clean_def)
  moreover have "fmlookup cur p \<noteq> None" if "lagging_clean (cur, vis)" "p \<in> fset (fmdom vis)" for cur vis p
    using that lagging_seen [of cur vis p] by (cases "fmlookup vis p") (auto simp: fmlookup_dom_iff)
  ultimately show ?thesis
    unfolding remote_eventual_def lagging_put_ok_def lagging_get_ok_def lagging_bytes_ok_def lagging_head_ok_def
      lagging_list_ok_def
    by (auto simp: lagging_client_def ok_or_def lagging_grows lagging_seen split: option.splits if_splits)
qed

text \<open>Its reads are not those of a bucket with strong consistency.\<close>

lemma lagging_client_not_strong: "\<not> remote_strong lagging_client (fmlookup \<circ> fst) (\<lambda>b. b)"
proof
  assume "remote_strong lagging_client (fmlookup \<circ> fst) (\<lambda>b. b)"
  then have "(fmlookup \<circ> fst) s p = (None :: bytes option)"
    if "rc_get lagging_client p s = (Err BackendNotFound, s')" for p s s'
    using that unfolding remote_strong_def remote_read_ok_def by blast
  from this [of "[]" "(fmupd [] [] fmempty, fmempty)"] show False
    by (simp add: lagging_client_def ok_or_def)
qed

text \<open>
  Why conditional creation is asked for: the fallback reads and then overwrites. When the read is stale, the
  put of other bytes under a key that is there reports \<open>Created\<close>, and the object is overwritten by one writer alone.
\<close>

definition fallback_store :: "((string, bytes) fmap \<times> (string, bytes) fmap, bytes) s3_store" where
  "fallback_store = \<lparr>ss_inner = lagging_client, ss_root_prefix = ObjectKeyPrefix [], ss_conditional_create = False\<rparr>"

lemma stale_fallback_overwrites:
  "fst (s3_put fallback_store (ObjectKey ''bootstrap'') [2] (fmupd ''bootstrap'' [1] fmempty, fmempty)) = Ok Created \<and>
   fmlookup (fst (snd (s3_put fallback_store (ObjectKey ''bootstrap'') [2] (fmupd ''bootstrap'' [1] fmempty, fmempty))))
     ''bootstrap'' = Some [2]"
  by (simp add: s3_put_def s3_put_unconditional_def s3_get_def remote_path_for_key_def fallback_store_def Let_def
      lagging_client_def andThen_def outcome_of_def map_error_def map_s3_object_error_def ok_or_def ret_def)

definition sample_s3_environment :: s3_environment where
  "sample_s3_environment =
     \<lparr>se_endpoint = Some ''https://s3.example'', se_region = Some ''eu'', se_access_key_id = Some ''id'',
      se_secret_access_key = Some ''secret'', se_disable_conditional_create = False\<rparr>"

definition sample_s3_configuration :: s3_store_config where
  "sample_s3_configuration =
     \<lparr>s3_bucket = ''bucket'', s3_region = ''eu'', s3_endpoint = ''https://s3.example'', s3_access_key_id = ''id'',
      s3_secret_access_key = ''secret'', s3_root_prefix = ObjectKeyPrefix ''laptop'', s3_conditional_create = True\<rparr>"

lemma sample_s3_config:
  "s3_repository_config (\<lambda>_. []) ''s3://bucket/laptop'' sample_s3_environment = Ok sample_s3_configuration"
proof -
  have prefix: "object_key_prefix_new ''laptop'' = Ok (ObjectKeyPrefix ''laptop'')"
    using segments_ok_shape [of "''laptop''"]
    by (simp add: object_key_prefix_new_def validate_key_def segment_ok_def key_byte_ok_def is_ascii_alphanumeric_def)
  have url: "parse_s3_repository_url ''s3://bucket/laptop'' = Ok \<lparr>pu_bucket = ''bucket'', pu_root_prefix = ObjectKeyPrefix ''laptop''\<rparr>"
    by (simp add: parse_s3_repository_url_def strip_prefix_str_def split_once_def prefix)
  have trim: "trim ''https://s3.example'' \<noteq> []" "trim ''eu'' \<noteq> []" "trim ''id'' \<noteq> []" "trim ''secret'' \<noteq> []"
    "trim ''bucket'' \<noteq> []"
    by (simp_all add: trim_graphic)
  show ?thesis
    by (simp add: s3_repository_config_def sample_s3_environment_def url required_s3_env_def trim s3_store_config_new_def
        validate_s3_config_value_def validate_s3_endpoint_def with_conditional_create_def sample_s3_configuration_def)
qed

theorem s3_store_meets_contract_witness:
  "(\<exists>store. s3_store_new (\<lambda>_. Ok lagging_client) sample_s3_configuration = Ok store \<and>
      eventual_repository (policy_store_ops (\<lambda>_. Completes) storage_policy_default (s3_store_ops store))
        (s3_contents store (fmlookup \<circ> fst) \<circ> ps_inner) (lagging_clean \<circ> ps_inner) s3_key) \<and>
   (\<exists>store. s3_store_new (\<lambda>_. Ok memory_client) sample_s3_configuration = Ok store \<and>
      repository_store (policy_store_ops (\<lambda>_. Completes) storage_policy_default (s3_store_ops store))
        (s3_contents store fmlookup \<circ> ps_inner) (\<lambda>_. True) s3_key)"
proof -
  have "s3_conditional_create sample_s3_configuration" by (simp add: sample_s3_configuration_def)
  then show ?thesis
    using s3_store_meets_contract [OF sample_s3_config, where build = "\<lambda>_. Ok lagging_client" and client = lagging_client
        and stored = "fmlookup \<circ> fst" and body = "\<lambda>b. b" and clean = lagging_clean
        and timer = "\<lambda>_. Completes" and policy = storage_policy_default]
      s3_store_meets_contract [OF sample_s3_config, where build = "\<lambda>_. Ok memory_client" and client = memory_client
        and stored = fmlookup and body = "\<lambda>b. b" and clean = "\<lambda>_. True"
        and timer = "\<lambda>_. Completes" and policy = storage_policy_default]
      lagging_client_eventual memory_client_ok by blast
qed

end
