(* ===== verification/Ferry_Machine.thy ===== *)
theory Ferry_Machine
  imports Ferry_Commands Ferry_LocalStore Ferry_Remote Ferry_Check Ferry_Bootstrap Ferry_Destination
begin

text \<open>
  The machine the commands run on: the file system with the local repository and the bucket behind the
  retry policy, with the constructors \<open>LocalStore::new\<close> and \<open>S3Store::new\<close> as \<open>ferry\<close> calls them. Commands
  that only read a repository leave its file system as it is, whatever they return and whatever is stored.
\<close>

section \<open>The machine\<close>

record 'r machine =
  ma_disk :: local_state
  ma_remote :: "'r policy_state"

text \<open>A program of one part of the machine, and the store of one part as a store of the machine.\<close>

definition on_part :: "('s \<Rightarrow> 'p) \<Rightarrow> ('p \<Rightarrow> 's \<Rightarrow> 's) \<Rightarrow> ('p, 'e, 'a) prog \<Rightarrow> ('s, 'e, 'a) prog" where
  "on_part part put_part m s = (case m (part s) of (r, d) \<Rightarrow> (r, put_part d s))"

definition part_store :: "('s \<Rightarrow> 'p) \<Rightarrow> ('p \<Rightarrow> 's \<Rightarrow> 's) \<Rightarrow> 'p store_ops \<Rightarrow> 's store_ops" where
  "part_store part put_part ops =
     \<lparr>capabilities = capabilities ops,
      put_if_absent = (\<lambda>k b. on_part part put_part (put_if_absent ops k b)),
      get_object = (\<lambda>k. on_part part put_part (get_object ops k)),
      object_exists = (\<lambda>k. on_part part put_part (object_exists ops k)),
      delete_object = (\<lambda>k. on_part part put_part (delete_object ops k)),
      list_prefix = (\<lambda>p. on_part part put_part (list_prefix ops p))\<rparr>"

definition local_store_new :: "nat \<Rightarrow> path \<Rightarrow> 'r machine store_ops" where
  "local_store_new pid root = part_store ma_disk (\<lambda>d s. s\<lparr>ma_disk := d\<rparr>) (local_store_ops root pid)"

definition policy_s3_store ::
  "(s3_store_config \<Rightarrow> string + ('r, 'g) remote_client) \<Rightarrow> (nat \<Rightarrow> timer_outcome) \<Rightarrow> s3_store_config \<Rightarrow>
   storage_error + 'r machine store_ops" where
  "policy_s3_store build timer config =
     bindR (s3_store_new build config) (\<lambda>store.
     Ok (part_store ma_remote (\<lambda>d s. s\<lparr>ma_remote := d\<rparr>)
       (policy_store_ops timer storage_policy_default (s3_store_ops store))))"

text \<open>The environment of a process on the machine.\<close>

definition on_machine ::
  "nat \<Rightarrow> (s3_store_config \<Rightarrow> string + ('r, 'g) remote_client) \<Rightarrow> (nat \<Rightarrow> timer_outcome) \<Rightarrow>
   'r machine environment \<Rightarrow> 'r machine environment" where
  "on_machine pid build timer en =
     en\<lparr>en_local_store := local_store_new pid, en_s3_store := policy_s3_store build timer\<rparr>"

section \<open>The contract on the machine\<close>

lemma part_store_sel [simp]:
  "put_if_absent (part_store part put_part ops) k b = on_part part put_part (put_if_absent ops k b)"
  "get_object (part_store part put_part ops) k = on_part part put_part (get_object ops k)"
  "object_exists (part_store part put_part ops) k = on_part part put_part (object_exists ops k)"
  "delete_object (part_store part put_part ops) k = on_part part put_part (delete_object ops k)"
  "list_prefix (part_store part put_part ops) p = on_part part put_part (list_prefix ops p)"
  by (simp_all add: part_store_def)

lemma on_part_cases:
  assumes "on_part part put_part m s = (r, s')" and "\<And>d s. part (put_part d s) = d"
  shows "m (part s) = (r, part s')"
  using assms by (auto simp: on_part_def split: prod.splits)

context repository_store
begin

lemma part_store_contract:
  assumes part: "\<And>d s. part (put_part d s) = d"
  shows "repository_store (part_store part put_part ops) (contents \<circ> part) (inv \<circ> part) usable"
proof (unfold_locales, unfold part_store_sel comp_def, goal_cases)
  case (1 s k b r s') show ?case using put_frame [OF 1(1,2) on_part_cases [OF 1(3) part]] .
next
  case (2 s k b st s') show ?case using put_ok [OF 2(1,2) on_part_cases [OF 2(3) part]] .
next
  case (3 s k b s') show ?case using put_created [OF 3(1,2) on_part_cases [OF 3(3) part]] .
next
  case (4 s k b j s') show ?case using put_conflict [OF 4(1,2) on_part_cases [OF 4(3) part]] .
next
  case (5 s k rg s') show ?case using get_frame [OF 5(1,2) on_part_cases [OF 5(3) part]] .
next
  case (6 s k b s') show ?case using get_ok [OF 6(1,2) on_part_cases [OF 6(3) part]] .
next
  case (7 s k j s') show ?case using get_missing [OF 7(1,2) on_part_cases [OF 7(3) part]] .
next
  case (8 s k re s') show ?case using exists_frame [OF 8(1,2) on_part_cases [OF 8(3) part]] .
next
  case (9 s k e s') show ?case using exists_ok [OF 9(1,2) on_part_cases [OF 9(3) part]] .
next
  case (10 s k rd s') show ?case using delete_frame [OF 10(1,2) on_part_cases [OF 10(3) part]] .
next
  case (11 s k u s') show ?case using delete_ok [OF 11(1,2) on_part_cases [OF 11(3) part]] .
next
  case (12 s p rl s') show ?case using list_frame [OF 12(1) on_part_cases [OF 12(2) part]] .
next
  case (13 s p ks s') show ?case using list_ok [OF 13(1,2) on_part_cases [OF 13(3) part]] .
next
  case (14 k) then show ?case by (rule repo_usable)
next
  case (15 s k b) then show ?case by (rule contents_usable)
qed

end

interpretation machine_disk: repository_store "local_store_new pid root" "local_contents root \<circ> ma_disk"
  "local_inv root \<circ> ma_disk" usable_key
  for pid root
  unfolding local_store_new_def by (rule disk.part_store_contract) simp

section \<open>Reading\<close>

text \<open>
  A store whose reads keep a property \<open>I\<close> of its state, for every key and prefix. Then everything the core
  crate reads with keeps it, whatever is stored: no key is trusted, and errors change nothing either.
\<close>

locale reading_store =
  fixes ops :: "'s store_ops" and I :: "'s \<Rightarrow> bool"
  assumes get_keeps: "keeps I (get_object ops k)"
    and list_keeps: "keeps I (list_prefix ops p)"
begin

definition reads :: "('s world, 'e, 'a) prog \<Rightarrow> bool" where
  "reads m \<longleftrightarrow> (\<forall>n. keeps (\<lambda>w. I (w_store w) \<and> w_rng w = n) m)"

lemma reads_on_store: "keeps I m \<Longrightarrow> reads (on_store m)"
  unfolding reads_def by (intro allI keeps_on_store) (auto dest: keepsD)

lemma reads_get: "reads (on_store (map_error g (get_object ops k)))"
  and reads_list: "reads (on_store (map_error g (list_prefix ops p)))"
  by (intro reads_on_store keeps_map_error get_keeps list_keeps)+

lemma reads_seq:
  "reads m \<Longrightarrow> (\<And>x. reads (f x)) \<Longrightarrow> reads (andThen m f)"
  "reads (ret x)" "reads (lift_result r)" "reads m \<Longrightarrow> reads (map_error g m)"
  "(\<And>acc x. reads (h acc x)) \<Longrightarrow> reads (for_each xs h acc)"
  "reads m \<Longrightarrow> reads m' \<Longrightarrow> reads (if b then m else m')"
  by (simp_all add: reads_def keeps_andThen keeps_ret keeps_lift keeps_map_error keeps_for_each)

lemmas reads_intros = reads_seq reads_get reads_list

lemma reads_json:
  "reads (read_encrypted_json_object_with_bytes L ops key knd k codec)"
  "reads (read_encrypted_json_object L ops key knd k codec)"
  unfolding read_encrypted_json_object_def read_encrypted_json_object_with_bytes_def Let_def case_prod_beta
  by (intro reads_intros)+

lemma reads_manifest:
  "reads (read_snapshot_manifest L c ops master sid)" "reads (read_snapshot_manifest_with_bytes L c ops master sid)"
  unfolding read_snapshot_manifest_def read_snapshot_manifest_with_bytes_def case_prod_beta
  by (intro reads_intros reads_json)+

lemma reads_index:
  "reads (read_chunk_index L c ops master iid)" "reads (read_chunk_index_with_bytes L c ops master iid)"
  unfolding read_chunk_index_def read_chunk_index_with_bytes_def case_prod_beta
  by (intro reads_intros reads_json)+

lemma reads_load: "reads (load_chunk_index_entries L c ops master manifest)"
  unfolding load_chunk_index_entries_def by (intro reads_intros reads_index)

lemma reads_restore_entry: "reads (restore_entry L c ops master key sid index acc e)"
  unfolding restore_entry_def restore_chunk_def Let_def
  by (cases "entry_kind (me_metadata e)"; cases "symlink_target (me_metadata e)") (auto intro!: reads_intros)

lemma reads_contents: "reads (restore_snapshot_contents L c ops master sid paths)"
  unfolding restore_snapshot_contents_def Let_def by (intro reads_intros reads_manifest reads_load reads_restore_entry)

lemma reads_forgotten: "reads (read_forgotten_snapshot_ids L ops)"
  unfolding read_forgotten_snapshot_ids_def read_snapshot_forget_marker_def by (intro reads_intros)

lemma reads_committed: "reads (read_committed_snapshot_manifests L c ops master)"
  unfolding read_committed_snapshot_manifests_def read_snapshot_commit_def
  by (intro reads_intros reads_forgotten reads_manifest)

lemma reads_check_commit: "reads (check_commit L c ops master st k)"
proof -
  have "reads (check_index L c ops master acc iid)" for acc iid
    unfolding check_index_def case_prod_beta by (intro reads_intros reads_index)
  then have "reads (check_snapshot L c ops master st sid key)" for st sid key
    unfolding check_snapshot_def case_prod_beta by (intro reads_intros reads_manifest)
  then show ?thesis unfolding check_commit_def by (auto intro!: reads_intros)
qed

lemma reads_check: "reads (check_repository_with_options L c ops now master options)"
  unfolding check_repository_with_options_def check_chunk_def Let_def case_prod_beta
  by (intro reads_intros reads_check_commit)

lemma reads_open: "reads (open_repository L ops passphrase)"
proof -
  have "reads (load_repository_bootstrap L ops)"
    unfolding load_repository_bootstrap_def by (intro reads_intros)
  moreover have "reads (repository_key_slots L ops boot)" for boot
    unfolding repository_key_slots_def external_slot_def by (intro reads_intros)
  ultimately show ?thesis unfolding open_repository_def by (intro reads_intros)
qed

end

section \<open>The commands\<close>

text \<open>
  \<open>host_reads\<close>: a program of a command that keeps \<open>I\<close> of the repository, the random generator and a property
  \<open>O\<close> of the file system it works on.
\<close>

locale reading_environment =
  fixes en :: "'s environment" and I :: "'s \<Rightarrow> bool"
  assumes store_reads: "reading_store (en_local_store en root) I"
begin

definition host_reads :: "(os \<Rightarrow> bool) \<Rightarrow> ('s host, 'e, 'a) prog \<Rightarrow> bool" where
  "host_reads F m \<longleftrightarrow>
     (\<forall>n. keeps (\<lambda>h. (I (w_store (ho_world h)) \<and> w_rng (ho_world h) = n) \<and> F (ho_os h)) m)"

lemma host_world: "reading_store.reads I m \<Longrightarrow> host_reads F (in_world m)"
  unfolding host_reads_def reading_store.reads_def [OF store_reads] keeps_def in_world_def
  by (auto split: prod.splits)

lemma host_os: "keeps F m \<Longrightarrow> host_reads F (in_os m)"
  unfolding host_reads_def keeps_def in_os_def by (auto split: prod.splits)

lemma host_seq:
  "host_reads F m \<Longrightarrow> (\<And>x. host_reads F (f x)) \<Longrightarrow> host_reads F (andThen m f)"
  "host_reads F (ret x)" "host_reads F (lift_result r)" "host_reads F m \<Longrightarrow> host_reads F (map_error g m)"
  by (simp_all add: host_reads_def keeps_andThen keeps_ret keeps_lift keeps_map_error)

lemma host_results: "host_reads F (repo_result r)" "host_reads F (core_result q)" "host_reads F (emit e)"
  by (simp_all add: repo_result_def core_result_def emit_def host_seq)

lemma host_core: "reading_store.reads I m \<Longrightarrow> host_reads F (core_run m)"
  unfolding core_run_def using store_reads by (intro host_world) (auto dest: reading_store.reads_seq(4))

lemmas host_intros = host_seq host_results

lemma host_store:
  assumes "\<And>root. host_reads F (f (en_local_store en root))"
  shows "host_reads F (andThen (repo_result (local_repository_store en config)) f)"
  unfolding local_repository_store_def repo_result_def
  by (cases "local_repository (en_process en) config") (simp_all add: assms host_seq)

lemma host_open: "host_reads F (open_pipeline en (en_local_store en root) passphrase)"
  unfolding open_pipeline_def
  by (intro host_intros host_core) (rule reading_store.reads_open [OF store_reads])

lemma andThen_assoc: "andThen (andThen m f) g = andThen m (\<lambda>x. andThen (f x) g)"
  by (auto simp: andThen_def fun_eq_iff split: sum.splits prod.splits)

lemma host_session:
  assumes "\<And>root opened pipeline. host_reads F (f (en_local_store en root, opened, pipeline))"
  shows "host_reads F (andThen (local_session en config) f)"
  unfolding local_session_def andThen_assoc case_prod_beta andThen_ret
  by (intro host_store host_intros host_open) (rule assms)

lemma host_snapshots: "host_reads F (load_repository_snapshots en config)"
  unfolding load_repository_snapshots_def
  by (rule host_session) (simp add: host_core reading_store.reads_committed [OF store_reads])

lemma host_listings: "host_reads F (snapshots en omode config)" "host_reads F (ls en omode config selection p)"
  unfolding snapshots_def ls_def Let_def by (intro host_intros host_snapshots)+

lemma host_check: "host_reads F (check en omode config part)"
  unfolding check_def
  by (rule host_session) (simp add: host_intros host_core reading_store.reads_check [OF store_reads] Let_def)

lemma host_forget: "host_reads F (forget en omode config policy True)"
proof -
  have "reading_store.reads I (forget_snapshots L pipeline (en_local_store en root) now master policy True)"
    for L pipeline root now master
    unfolding forget_snapshots_def Let_def if_True
    by (intro reading_store.reads_seq [OF store_reads] reading_store.reads_committed [OF store_reads])
  then show ?thesis unfolding forget_def
    by (intro host_session) (simp add: host_intros host_core)
qed

lemma host_restore:
  assumes "\<And>m :: (os, core_error, restore_destination_result) prog. dry_run \<Longrightarrow> observes m \<Longrightarrow> keeps F m" and "\<not> dry_run \<Longrightarrow> F = (\<lambda>_. True)"
  shows "host_reads F (restore en omode config selection paths destination dry_run overwrite)"
proof -
  have "keeps F (place_contents request contents)" if "dr_dry_run request = dry_run" for request contents
  proof (cases dry_run)
    case True
    then show ?thesis using assms(1) observes_dry_run that by blast
  next
    case False
    then show ?thesis using assms(2) by (simp add: keeps_def)
  qed
  then have "host_reads F (restore_snapshot_to_destination L c (en_local_store en root) master request)"
    if "dr_dry_run request = dry_run" for L c root master request
    unfolding restore_snapshot_to_destination_def
    by (intro host_intros host_world host_os reading_store.reads_contents [OF store_reads]) (simp_all add: that)
  then show ?thesis
    unfolding restore_def Let_def case_prod_beta
    by (intro host_store host_intros host_open host_core reading_store.reads_committed [OF store_reads]) simp
qed

end

section \<open>The local repository\<close>

lemma keeps_part:
  assumes "keeps I m" and "\<And>d s. part (put_part d s) = d" and "\<And>d s. K (put_part d s) = K s"
  shows "keeps (\<lambda>s. I (part s) \<and> K s = k) (on_part part put_part m)"
  using assms by (auto simp: keeps_def on_part_def split: prod.splits)

lemma reads_only_keeps: "reads_only m \<Longrightarrow> keeps (\<lambda>d. same_files before (lc_os d)) m"
  by (simp add: reads_only_def)

lemma local_get_reads: "reads_only (local_get root k)"
  unfolding local_get_def
proof (rule reads_only_os)
  fix s r s' assume "os_read (object_path root k) s = (r, s')"
  then show "same_files s s'" unfolding os_read_def by (cases rule: syscall_cases) auto
qed

interpretation machine_reads: reading_store "local_store_new pid root"
    "\<lambda>s. same_files before (lc_os (ma_disk s)) \<and> ma_remote s = bucket"
  for pid root before bucket
proof
  show "keeps (\<lambda>s. same_files before (lc_os (ma_disk s)) \<and> ma_remote s = bucket) (get_object (local_store_new pid root) k)" for k
    unfolding local_store_new_def part_store_sel local_ops_sel
    by (rule keeps_part [where K = ma_remote, OF reads_only_keeps [OF local_get_reads]]) simp_all
  show "keeps (\<lambda>s. same_files before (lc_os (ma_disk s)) \<and> ma_remote s = bucket) (list_prefix (local_store_new pid root) p)" for p
    unfolding local_store_new_def part_store_sel local_ops_sel
    by (rule keeps_part [where K = ma_remote, OF reads_only_keeps [OF list_reads]]) simp_all
qed

interpretation machine_commands: reading_environment "on_machine pid build timer en"
    "\<lambda>s. same_files before (lc_os (ma_disk s)) \<and> ma_remote s = bucket"
  for pid build timer en before bucket
  by unfold_locales (simp_all add: on_machine_def machine_reads.get_keeps machine_reads.list_keeps)

section \<open>Properties\<close>

text \<open>The commands that only read the repository, and the one that writes files outside it.\<close>

fun reads_repository :: "cli_command \<Rightarrow> bool" where
  "reads_repository InitCommand = False"
| "reads_repository (BackupCommand _ _) = False"
| "reads_repository (KeyAddCommand _) = False"
| "reads_repository (ForgetCommand dry_run _ _ _ _ _ _ _) = dry_run"
| "reads_repository _ = True"

fun writes_files :: "cli_command \<Rightarrow> bool" where
  "writes_files (RestoreCommand _ _ _ _ dry_run _ _) = (\<not> dry_run)"
| "writes_files _ = False"

context reading_environment
begin

lemma host_configured: "(\<And>config. host_reads F (act config)) \<Longrightarrow> host_reads F (configured en globals act)"
  unfolding configured_def by (intro host_intros)

lemma host_run:
  assumes run: "run en globals command h = Some (r, h')" and cmd: "reads_repository command"
    and F: "\<And>m :: (os, core_error, restore_destination_result) prog. \<not> writes_files command \<Longrightarrow> observes m \<Longrightarrow> keeps F m"
      "writes_files command \<Longrightarrow> F = (\<lambda>_. True)"
  shows "I (w_store (ho_world h)) \<Longrightarrow> F (ho_os h) \<Longrightarrow>
    I (w_store (ho_world h')) \<and> w_rng (ho_world h') = w_rng (ho_world h) \<and> F (ho_os h')"
proof -
  have act: "\<exists>m. m h = (r, h') \<and> host_reads F m"
  proof (cases command)
    case (RestoreCommand s t l ps dry ow d)
    have "host_reads F (configured en globals (\<lambda>config. restore en (mode_from_globals globals) config
        (selection_from_args s t l) ps d dry ow))"
      by (rule host_configured, rule host_restore) (use F RestoreCommand in auto)
    then show ?thesis using run RestoreCommand by (auto simp: run_def Let_def)
  next
    case (ForgetCommand dry a b c d e f g)
    then have "host_reads F (configured en globals (\<lambda>config.
        andThen (lift_result (map_err CliPolicy (retention_policy_from_args a b c d e f g))) (\<lambda>policy.
        forget en (mode_from_globals globals) config policy dry)))"
      using cmd by (intro host_configured host_seq) (simp add: host_forget)
    then show ?thesis using run ForgetCommand by (auto simp: run_def Let_def)
  next
    case (CompletionCommand shell)
    then show ?thesis using run
      by (intro exI [of _ "completion en shell"]) (simp add: run_def Let_def completion_def host_intros)
  next
    case SnapshotsCommand
    then show ?thesis using run
      by (intro exI [of _ "configured en globals (snapshots en (mode_from_globals globals))"])
        (simp add: run_def Let_def host_configured host_listings)
  next
    case (LsCommand s t l p)
    then show ?thesis using run
      by (intro exI [of _ "configured en globals (\<lambda>config. ls en (mode_from_globals globals) config
          (selection_from_args s t l) (case p of None \<Rightarrow> [] | Some s \<Rightarrow> path_of_string s))"])
        (simp add: run_def Let_def host_configured host_listings)
  next
    case (CheckCommand part)
    then show ?thesis using run
      by (intro exI [of _ "configured en globals (\<lambda>config. check en (mode_from_globals globals) config part)"])
        (simp add: run_def Let_def host_configured host_check)
  next
    case VersionCommand
    then show ?thesis using run
      by (intro exI [of _ "configured en globals (\<lambda>_. version en (mode_from_globals globals))"])
        (simp add: run_def Let_def host_configured version_def host_intros)
  qed (use cmd in simp_all)
  assume I: "I (w_store (ho_world h))" "F (ho_os h)"
  from act obtain m where m: "m h = (r, h')" "host_reads F m" by blast
  have "keeps (\<lambda>g. (I (w_store (ho_world g)) \<and> w_rng (ho_world g) = w_rng (ho_world h)) \<and> F (ho_os g)) m"
    using m(2) unfolding host_reads_def by blast
  from keepsD [OF this _ m(1)] show "I (w_store (ho_world h')) \<and> w_rng (ho_world h') = w_rng (ho_world h) \<and> F (ho_os h')"
    using I by simp
qed

end

text \<open>
  C5: on the machine, \<open>snapshots\<close>, \<open>ls\<close>, \<open>check\<close>, \<open>restore\<close>, \<open>version\<close>, \<open>completion\<close> and \<open>forget --dry-run\<close> leave
  the file system with the repository, the bucket and the random generator as they are, for every outcome,
  whatever the repository holds and whatever calls fail; and all of them but a restore that is no dry run
  leave the files they could write as they are. The repository disk and the files that a restore writes are separate
  states here: a restore into the directory of the repository is not covered.
\<close>

theorem reading_commands_change_nothing:
  assumes "run (on_machine pid build timer en) globals command h = Some (r, h')" and "reads_repository command"
  shows "same_files (lc_os (ma_disk (w_store (ho_world h)))) (lc_os (ma_disk (w_store (ho_world h')))) \<and>
    ma_remote (w_store (ho_world h')) = ma_remote (w_store (ho_world h)) \<and>
    w_rng (ho_world h') = w_rng (ho_world h) \<and> (\<not> writes_files command \<longrightarrow> same_files (ho_os h) (ho_os h'))"
proof -
  define F where "F = (\<lambda>files. writes_files command \<or> same_files (ho_os h) files)"
  have "keeps F m" if "\<not> writes_files command" "observes m" for m :: "(os, core_error, restore_destination_result) prog"
    using that unfolding observes_def F_def by simp
  moreover have "F = (\<lambda>_. True)" if "writes_files command" using that by (simp add: F_def)
  ultimately show ?thesis
    using machine_commands.host_run [where before = "lc_os (ma_disk (w_store (ho_world h)))"
        and bucket = "ma_remote (w_store (ho_world h))" and F = F, OF assms]
    by (auto simp: F_def)
qed

text \<open>A process that is configured for the empty directory \<open>/r\<close>, on the disk of \<open>Ferry_LocalStore\<close>.\<close>

definition sample_process :: process where
  "sample_process =
     \<lparr>pr_var = (\<lambda>n. if n = ''FILEFERRY_REPOSITORY'' then Some ''/r'' else if n = ''FILEFERRY_PASSWORD'' then Some ''pw'' else None),
      pr_current_dir = Ok ''/'', pr_read_to_string = (\<lambda>_. Err (IoError NotFound [])), pr_is_file = (\<lambda>_. False),
      pr_toml = (\<lambda>_. Err (TomlError [])), pr_runtime = None\<rparr>"

definition sample_environment :: "(string, bytes) fmap machine environment" where
  "sample_environment =
     \<lparr>en_process = sample_process, en_library = sample_lib,
      en_texts = \<lparr>tx_path = (\<lambda>_. []), tx_storage = (\<lambda>_. []), tx_core = (\<lambda>_. []), tx_cli = (\<lambda>_. [])\<rparr>,
      en_json = \<lparr>js_pretty = (\<lambda>_. Ok []), js_line = (\<lambda>_. Ok [])\<rparr>,
      en_local_store = local_store_new 1, en_s3_store = (\<lambda>_. Err (BackendConfig S3Compatible [])),
      en_view = \<lparr>fs_symlink_metadata = (\<lambda>_. Err (IoError NotFound [])), fs_read_link = (\<lambda>_. Err (IoError NotFound [])),
        fs_read_dir = (\<lambda>_. Err (IoError NotFound [])), fs_read = (\<lambda>_. Err (IoError NotFound []))\<rparr>,
      en_started = 0, en_now = 0, en_completed = 0, en_completion = (\<lambda>_. Ok []), en_version = ''0.1.0''\<rparr>"

definition sample_globals :: global_args where
  "sample_globals =
     \<lparr>ga_repo = None, ga_profile = None, ga_config = None, ga_json = False, ga_jsonl = False, ga_quiet = False,
      ga_log_level = None, ga_no_progress = False\<rparr>"

definition sample_machine :: "(string, bytes) fmap machine host" where
  "sample_machine =
     \<lparr>ho_world = \<lparr>w_store = \<lparr>ma_disk = sample_disk,
        ma_remote = \<lparr>ps_inner = fmempty, ps_attempts = 0, ps_sleeps = []\<rparr>\<rparr>, w_rng = 0\<rparr>, ho_os = sample_target\<rparr>"

definition sample_resolved :: resolved_config where
  "sample_resolved =
     \<lparr>cf_config_path = None, cf_profile = DEFAULT_PROFILE, cf_repository_url = Some ''/r'', cf_log_level = LogInfo,
      cf_progress = ProgressAuto, cf_quiet = False\<rparr>"

lemma sample_configured: "resolve_config sample_process sample_globals = Ok sample_resolved"
  by code_simp

lemma sample_root: "local_repository sample_process sample_resolved = Ok [RootDir, Normal ''r'']"
  by code_simp

lemma sample_password: "repository_passphrase sample_process = Ok ''pw''" "tokio_runtime sample_process = Ok ()"
  by (simp_all add: repository_passphrase_def sample_process_def tokio_runtime_def)

lemma sample_no_bootstrap:
  "fst (local_get [RootDir, Normal ''r''] BOOTSTRAP_KEY sample_disk) = Err (ObjectNotFound BOOTSTRAP_KEY)"
  by code_simp

lemma sample_open_fails:
  "fst (open_repository L (local_store_new 1 [RootDir, Normal ''r'']) pw (ho_world sample_machine)) = Err RepositoryNotInitialized"
  using sample_no_bootstrap
  by (auto simp: open_repository_def load_repository_bootstrap_def bootstrap_object_key_Ok andThen_def on_store_def map_error_def
      local_store_new_def on_part_def sample_machine_def bootstrap_get_error_def split: prod.splits)

lemma sample_environment_sel [simp]:
  "en_process (on_machine pid build timer sample_environment) = sample_process"
  "en_local_store (on_machine pid build timer sample_environment) = local_store_new pid"
  by (simp_all add: on_machine_def sample_environment_def)

lemma sample_snapshots_run:
  "fst (the (run (on_machine 1 (\<lambda>_. Ok memory_client) (\<lambda>_. Completes) sample_environment) sample_globals
     SnapshotsCommand sample_machine)) = Err (CliCore RepositoryNotInitialized)"
  using sample_open_fails [of "en_library (on_machine 1 (\<lambda>_. Ok memory_client) (\<lambda>_. Completes) sample_environment)" "''pw''"]
  by (auto simp: run_def Let_def configured_def sample_configured snapshots_def load_repository_snapshots_def local_session_def
      local_repository_store_def sample_root repo_result_def sample_password open_pipeline_def core_run_def in_world_def
      map_error_def andThen_def split: prod.splits)

theorem reading_commands_change_nothing_witness:
  "\<exists>h'. run (on_machine 1 (\<lambda>_. Ok memory_client) (\<lambda>_. Completes) sample_environment) sample_globals SnapshotsCommand
      sample_machine = Some (Err (CliCore RepositoryNotInitialized), h') \<and>
    same_files (lc_os sample_disk) (lc_os (ma_disk (w_store (ho_world h')))) \<and>
    ma_remote (w_store (ho_world h')) = ma_remote (w_store (ho_world sample_machine)) \<and>
    w_rng (ho_world h') = 0 \<and> same_files sample_target (ho_os h')"
proof -
  let ?run = "run (on_machine 1 (\<lambda>_. Ok memory_client) (\<lambda>_. Completes) sample_environment) sample_globals SnapshotsCommand
      sample_machine"
  have "?run \<noteq> None" by (simp add: run_def Let_def)
  then obtain h' where "?run = Some (Err (CliCore RepositoryNotInitialized), h')"
    using sample_snapshots_run by (metis option.collapse prod.collapse)
  moreover from reading_commands_change_nothing [OF this]
  have "same_files (lc_os sample_disk) (lc_os (ma_disk (w_store (ho_world h')))) \<and>
      ma_remote (w_store (ho_world h')) = ma_remote (w_store (ho_world sample_machine)) \<and>
      w_rng (ho_world h') = 0 \<and> same_files sample_target (ho_os h')"
    by (simp add: sample_machine_def)
  ultimately show ?thesis by blast
qed

end
