(* ===== verification/Ferry_Init.thy ===== *)
theory Ferry_Init
  imports Ferry_Machine
begin

text \<open>
  \<open>ferry init\<close> from the options to the stored repository: after a success the configured passphrase opens
  the repository, on a local directory and on a bucket.
\<close>

section \<open>The command\<close>

text \<open>\<open>init\<close> is the creation of the repository in the configured store, and a report.\<close>

lemma init_run:
  assumes "run en globals InitCommand h = Some (r, h')"
    and "resolve_config (en_process en) globals = Ok config" and "init_repository_store en config = Ok target"
    and "repository_passphrase (en_process en) = Ok pw"
  shows "h' = h \<and> (\<exists>e. r = Err e) \<or>
    (\<exists>q w'. create_repository (en_library en) (ir_store target) pw kdf_v0_default (ho_world h) = (q, w') \<and>
       h' = h\<lparr>ho_world := w'\<rparr> \<and> (\<forall>out. r = Ok out \<longrightarrow> (\<exists>res. q = Ok res)))"
proof -
  obtain q w' where create: "create_repository (en_library en) (ir_store target) pw kdf_v0_default (ho_world h) = (q, w')"
    by fastforce
  show ?thesis
  proof (cases "tokio_runtime (en_process en)")
    case (Inl e)
    then show ?thesis using assms
      by (auto simp: run_def Let_def configured_def init_repository_def repo_result_def andThen_def)
  next
    case (Inr u)
    then show ?thesis using assms create
      by (cases q) (auto simp: run_def Let_def configured_def init_repository_def repo_result_def andThen_def core_run_def
          in_world_def map_error_def emit_def)
  qed
qed

section \<open>The stores of the machine\<close>

text \<open>The bucket behind the retry policy, as a store of the machine.\<close>

lemma machine_bucket:
  assumes "s3_repository_config message url environment = Ok config" and "build config = Ok client"
    and "remote_strong client stored body" and "policy_s3_store build timer config = Ok store"
  shows "\<exists>s3. s3_store_new build config = Ok s3 \<and> repository_store store (s3_contents s3 stored \<circ> ps_inner \<circ> ma_remote) (\<lambda>_. True) s3_key"
proof -
  let ?s3 = "\<lparr>ss_inner = client, ss_root_prefix = s3_root_prefix config, ss_conditional_create = s3_conditional_create config\<rparr>"
  have "s3_ready ?s3 stored body" using configured_root_valid [OF assms(1)] assms(3) by (simp add: s3_ready_def)
  then have "repository_store (policy_store_ops timer storage_policy_default (s3_store_ops ?s3))
      (s3_contents ?s3 stored \<circ> ps_inner) (\<lambda>_. True) s3_key"
    by (rule s3_policy_store)
  then have "repository_store (part_store ma_remote (\<lambda>d s. s\<lparr>ma_remote := d\<rparr>)
      (policy_store_ops timer storage_policy_default (s3_store_ops ?s3)))
      (s3_contents ?s3 stored \<circ> ps_inner \<circ> ma_remote) ((\<lambda>_. True) \<circ> ma_remote) s3_key"
    by (rule repository_store.part_store_contract) simp
  moreover have "s3_store_new build config = Ok ?s3" using assms(2) by (simp add: s3_store_new_def)
  moreover have "store = part_store ma_remote (\<lambda>d s. s\<lparr>ma_remote := d\<rparr>)
      (policy_store_ops timer storage_policy_default (s3_store_ops ?s3))"
    using assms(2,4) by (simp add: policy_s3_store_def s3_store_new_def)
  ultimately show ?thesis by (intro exI [of _ ?s3]) (simp add: comp_def)
qed

text \<open>A disk holds finitely many objects.\<close>

lemma finite_local_contents: "finite (dom (local_contents root s))"
proof (rule finite_imageD [of "object_path root"])
  have "object_path root k \<in> fst ` set (os_tree (lc_os s))" if "k \<in> dom (local_contents root s)" for k
  proof -
    have "file_at (lc_os s) (object_path root k) \<noteq> None"
      using that by (simp add: dom_def local_contents_def stored_files_def split: if_splits)
    then have "bt_get (os_tree (lc_os s)) (object_path root k) \<noteq> None"
      by (cases "bt_get (os_tree (lc_os s)) (object_path root k)") (simp_all add: file_at_def node_at_def)
    then show ?thesis using bt_get_None_iff by metis
  qed
  then have "object_path root ` dom (local_contents root s) \<subseteq> fst ` set (os_tree (lc_os s))" by blast
  then show "finite (object_path root ` dom (local_contents root s))" by (rule finite_subset) simp
  show "inj_on (object_path root) (dom (local_contents root s))"
    by (rule inj_onI) (simp add: dom_def local_contents_def stored_files_def usable_key_def object_path_inj split: if_splits)
qed

section \<open>Properties\<close>

definition initialized :: "library \<Rightarrow> string \<Rightarrow> object_map \<Rightarrow> object_map \<Rightarrow> bool" where
  "initialized L pw m m' \<longleftrightarrow> m \<subseteq>\<^sub>m m' \<and> (\<exists>M rid. passphrase_opens L M m' pw \<and> opens_to L M rid m')"

lemma fresh_initialized:
  assumes "unlock_lib_ok L" and "fresh_repository L pw m M rid m'" and "finite (dom m')"
  shows "initialized L pw m m'"
proof -
  have "opens_to L M rid m'"
    using assms(2) by (intro open_sound_opens_to [OF assms(1) _ _ assms(3)]) (simp_all add: fresh_repository_def)
  then show ?thesis using assms(2) unfolding initialized_def fresh_repository_def by blast
qed

text \<open>
  C18: \<open>ferry init\<close> into a store without a repository. If it succeeds, the store keeps what it held and holds
  a repository that the configured passphrase opens to one master key and that refuses every passphrase
  without a slot; if it fails at any point, no object has been changed, or such a repository is there. The
  store is the one that the configuration names, and the files outside it stay as they are.
\<close>

theorem initialized_repository_opens:
  assumes "resolve_config (en_process en) globals = Ok config" and "init_repository_store en config = Ok target"
    and "repository_passphrase (en_process en) = Ok pw" and "unlock_lib_ok (en_library en)"
    and "repository_store (ir_store target) contents invar usable" and "\<And>s. invar s \<Longrightarrow> finite (dom (contents s))"
    and "invar (w_store (ho_world h))" and "contents (w_store (ho_world h)) BOOTSTRAP_KEY = None"
    and "\<forall>k. is_slot_key k \<longrightarrow> contents (w_store (ho_world h)) k = None"
    and "run en globals InitCommand h = Some (r, h')"
  shows "let m = contents (w_store (ho_world h)); m' = contents (w_store (ho_world h')) in
    invar (w_store (ho_world h')) \<and> ho_os h' = ho_os h \<and>
    (case r of Ok _ \<Rightarrow> initialized (en_library en) pw m m'
     | Err _ \<Rightarrow> m' = m \<or> initialized (en_library en) pw m m')"
  using init_run [OF assms(10,1-3)]
proof (elim disjE conjE exE)
  fix e assume "h' = h" "r = Err e"
  then show ?thesis using assms(7) by simp
next
  fix q w' assume create: "create_repository (en_library en) (ir_store target) pw kdf_v0_default (ho_world h) = (q, w')"
    and h': "h' = h\<lparr>ho_world := w'\<rparr>" and ok: "\<forall>out. r = Ok out \<longrightarrow> (\<exists>res. q = Ok res)"
  let ?m = "contents (w_store (ho_world h))" and ?L = "en_library en"
  note created = repository_store.triple_create_repository [OF assms(5,4) assms(6) [OF assms(7)] assms(8), of pw kdf_v0_default]
  note run = tripleD [OF created, of "ho_world h"]
  have inv: "invar (w_store w')"
    using run create assms(7,9) by (cases q) auto
  have fresh: "initialized ?L pw ?m (contents (w_store w'))" if "fresh_repository ?L pw ?m M rid (contents (w_store w'))" for M rid
    by (rule fresh_initialized [OF assms(4) that assms(6) [OF inv]])
  show ?thesis
  proof (cases q)
    case (Inr res)
    then have "initialized ?L pw ?m (contents (w_store w'))"
      using run(1) create assms(7,9) fresh by blast
    then show ?thesis using inv h' by (cases r) simp_all
  next
    case (Inl e)
    then have "contents (w_store w') = ?m \<or> initialized ?L pw ?m (contents (w_store w'))"
      using run(2) create assms(7,9) fresh by blast
    then show ?thesis using inv h' ok Inl by (cases r) auto
  qed
qed

section \<open>A concrete run\<close>

definition sample_v0_slot :: key_slot where
  "sample_v0_slot =
     \<lparr>kdf = kdf_v0_default, salt = replicate 16 2, nonce = replicate 24 3,
      wrapped_master_key = block (take 32 (as_bytes ''pw'' @ replicate 32 0)) @ block (replicate 24 3) @
        block (key_slot_aad kdf_v0_default (replicate 16 2)) @ replicate 32 1\<rparr>"

definition sample_v0_boot :: repository_bootstrap where
  "sample_v0_boot =
     \<lparr>rb_magic = REPOSITORY_MAGIC, rb_format_version = REPOSITORY_FORMAT_VERSION_V0,
      rb_repository_id = hex_bytes (replicate 32 0), rb_key_slots = [from_key_slot sample_v0_slot],
      rb_features = []\<rparr>"

definition sample_v0_library :: library where
  "sample_v0_library = sample_library (no_tables\<lparr>st_bootstraps := [sample_v0_boot]\<rparr>)"

definition init_disk :: local_state where
  "init_disk = sample_disk\<lparr>lc_os := (lc_os sample_disk)\<lparr>os_fault := \<lambda>_. None\<rparr>\<rparr>"

definition init_machine :: "(string, bytes) fmap machine host" where
  "init_machine = sample_machine\<lparr>ho_world := \<lparr>w_store = (w_store (ho_world sample_machine))\<lparr>ma_disk := init_disk\<rparr>, w_rng = 0\<rparr>\<rparr>"

definition init_environment :: "(string, bytes) fmap machine environment" where
  "init_environment = on_machine 1 (\<lambda>_. Ok memory_client) (\<lambda>_. Completes) (sample_environment\<lparr>en_library := sample_v0_library\<rparr>)"

lemma init_environment_sel:
  "en_process init_environment = sample_process" "en_library init_environment = sample_v0_library"
  "en_local_store init_environment = local_store_new 1"
  by (simp_all add: init_environment_def on_machine_def sample_environment_def)

lemma init_path: "local_repository_path sample_process ''/r'' = Ok ''/r''" "path_of_string ''/r'' = [RootDir, Normal ''r'']"
  by code_simp+

definition init_target_store :: "(string, bytes) fmap machine init_target" where
  "init_target_store = \<lparr>ir_url = ''/r'', ir_backend = CliLocal, ir_store = local_store_new 1 [RootDir, Normal ''r'']\<rparr>"

lemma init_target_configured: "init_repository_store init_environment sample_resolved = Ok init_target_store"
  unfolding init_repository_store_def init_environment_sel
  by (simp add: sample_resolved_def init_path init_target_store_def)

lemma sample_v0_master:
  "create_master_key sample_prims ''pw'' kdf_v0_default (Suc 0) = (Ok (MasterKey (replicate 32 1), sample_v0_slot), 4)"
  by (simp add: create_master_key_def master_key_generate_def MASTER_KEY_LEN_def create_key_slot_def andThen_def
      random_nonce_def XCHACHA20_POLY1305_NONCE_LEN_def KDF_SALT_LEN_def sample_v0_slot_def
      kdf_validate_def kdf_v0_default_def)

lemma init_disk_calls:
  "fst (andThen (local_exists [RootDir, Normal ''r''] BOOTSTRAP_KEY)
     (\<lambda>present. andThen (local_put [RootDir, Normal ''r''] 1 BOOTSTRAP_KEY []) (\<lambda>status. ret (present, status))) init_disk) =
   Ok (False, Created)"
  by code_simp

lemma init_disk_empty:
  "local_inv [RootDir, Normal ''r''] init_disk" "local_contents [RootDir, Normal ''r''] init_disk = Map.empty"
proof -
  have same: "same_files (lc_os sample_disk) (lc_os init_disk)" by (simp add: init_disk_def same_files_def)
  note kept = objects_keptD [OF objects_kept_same [OF sample_disk_inv [unfolded local_inv_def] same]]
  show "local_inv [RootDir, Normal ''r''] init_disk" using kept by (simp add: local_inv_def)
  have "node_at (lc_os sample_disk) p \<in> {None, Some DirNode}" for p
    by (simp add: node_at_def sample_disk_def del: bt_insert.simps)
  then have "file_at (lc_os sample_disk) p = None" for p
    by (metis file_at_None fs_node.distinct(1) insert_iff option.distinct(1) option.inject singletonD)
  then have "stored_files [RootDir, Normal ''r''] (lc_os sample_disk) = Map.empty"
    by (simp add: stored_files_def fun_eq_iff)
  then show "local_contents [RootDir, Normal ''r''] init_disk = Map.empty" using kept by (simp add: local_contents_def)
qed

lemma init_creates:
  "\<exists>w'. create_repository sample_v0_library (local_store_new 1 [RootDir, Normal ''r'']) ''pw'' kdf_v0_default (ho_world init_machine) =
     (Ok \<lparr>ri_repository = \<lparr>or_repository_id = hex_bytes (replicate 32 0), or_master_key = MasterKey (replicate 32 1),
            or_key_slots = 1\<rparr>, ri_format_version = REPOSITORY_FORMAT_VERSION_V0, ri_key_slots = 1, ri_created = True\<rparr>, w')"
proof -
  obtain d1 d2 where calls: "local_exists [RootDir, Normal ''r''] BOOTSTRAP_KEY init_disk = (Ok False, d1)"
      "local_put [RootDir, Normal ''r''] 1 BOOTSTRAP_KEY [] d1 = (Ok Created, d2)"
    using init_disk_calls by (auto simp: andThen_def split: prod.splits sum.splits)
  show ?thesis
    by (simp add: create_repository_def bootstrap_object_key_Ok andThen_def on_store_def on_rng_def map_error_def
        init_machine_def local_store_new_def on_part_def calls [unfolded One_nat_def] sample_v0_library_def REPOSITORY_ID_BYTES_def sample_v0_master
        table_codec_def no_tables_def sample_v0_boot_def [symmetric] Let_def)
qed

lemma init_run_Ok: "\<exists>out h'. run init_environment sample_globals InitCommand init_machine = Some (Ok out, h')"
proof -
  have human: "mode_from_globals sample_globals = HumanOutput" by (simp add: mode_from_globals_def sample_globals_def)
  obtain res w' where create: "create_repository sample_v0_library (ir_store init_target_store) ''pw'' kdf_v0_default (ho_world init_machine)
      = (Ok res, w')"
    using init_creates by (auto simp: init_target_store_def)
  show ?thesis
    by (simp add: run_def Let_def configured_def init_environment_sel sample_configured init_repository_def init_target_configured
        repo_result_def sample_password core_run_def in_world_def map_error_def andThen_def create emit_def emit_command_def human)
qed

theorem initialized_repository_opens_witness:
  "\<exists>out h'. run init_environment sample_globals InitCommand init_machine = Some (Ok out, h') \<and>
     initialized sample_v0_library ''pw'' Map.empty
       (local_contents [RootDir, Normal ''r''] (ma_disk (w_store (ho_world h'))))"
proof -
  let ?root = "[RootDir, Normal ''r'']"
  obtain out h' where run: "run init_environment sample_globals InitCommand init_machine = Some (Ok out, h')"
    using init_run_Ok by blast
  have lib: "unlock_lib_ok (en_library init_environment)"
    unfolding init_environment_sel sample_v0_library_def by (rule sample_unlock_lib)
  have disk: "ma_disk (w_store (ho_world init_machine)) = init_disk" by (simp add: init_machine_def)
  have store: "repository_store (ir_store init_target_store) (local_contents ?root \<circ> ma_disk) (local_inv ?root \<circ> ma_disk) usable_key"
    unfolding init_target_store_def init_target.simps by (rule machine_disk.repository_store_axioms)
  have config: "resolve_config (en_process init_environment) sample_globals = Ok sample_resolved"
    "repository_passphrase (en_process init_environment) = Ok ''pw''"
    by (simp_all add: init_environment_sel sample_configured sample_password)
  from initialized_repository_opens [OF config(1) init_target_configured config(2) lib store _ _ _ _ run] show ?thesis
    using run by (simp add: finite_local_contents disk init_disk_empty Let_def init_environment_sel)
qed

end
