(* ===== verification/Spec2Isabelle.thy ===== *)
theory Spec2Isabelle
  imports Ferry_History Ferry_Bootstrap Ferry_Policy Ferry_Check Ferry_Destination Ferry_Forget Ferry_Init
begin

text \<open>
  FileFerry is an encrypted, deduplicating backup tool. This library models its crates and proves
  what makes a backup trustworthy: that what was reported as backed up can be restored, byte for byte.

  The program. A backup walks the selected source roots, captures metadata, cuts files into chunks,
  compresses, encrypts and stores every chunk that the repository does not have, and then publishes an
  index, a manifest and a commit marker, in this order. A reader lists the commit markers, picks a
  snapshot, reads its manifest and the indexes and puts the file contents together. Everything is an
  object of an \<open>ObjectStore\<close>; nothing is ever overwritten. Objects are encrypted under subkeys of a
  master key, which key slots wrap under keys derived from passphrases.

  The theories and what they model, with the crates under \<open>src/crates\<close>:
  \<^item> \<open>Ferry_Prelude\<close>, \<open>Ferry_Std\<close>, \<open>Ferry_Paths\<close>: results, programs over an explicit world (\<open>prog\<close>),
    ordered maps, strings and \<open>std::path\<close>, as far as the sources use them.
  \<^item> \<open>Ferry_Errors\<close>: the error enums of all crates.
  \<^item> \<open>Ferry_Storage\<close> (fileferry-storage, fileferry-testkit): object keys, capabilities, the store trait
    as a record of operations, the retry wrapper \<open>PolicyObjectStore\<close> and the in-memory store. The
    locale \<open>object_store\<close> is the contract of a store with its contents as abstraction, \<open>eventual_store\<close> what is
    left of it when reads and listings may lag behind.
  \<^item> \<open>Ferry_Files\<close>, \<open>Ferry_Local\<close>, \<open>Ferry_LocalStore\<close>: the file system calls of the standard library over a
    tree with symbolic links, inodes and an oracle that makes any call fail; \<open>LocalStore\<close> of
    fileferry-storage over it; the proof that it meets the contract, put by put, and what a put touches on
    the file system.
  \<^item> \<open>Ferry_Crypto\<close> (fileferry-crypto): key derivation, subkeys, sealing, key slots.
  \<^item> \<open>Ferry_Platform\<close> (fileferry-platform): captured metadata and timestamps.
  \<^item> \<open>Ferry_Policy\<close> (fileferry-policy): retention rules, their parser and the plan.
  \<^item> \<open>Ferry_Walker\<close>, \<open>Ferry_Model\<close>, \<open>Ferry_Objects\<close>, \<open>Ferry_Snapshot\<close>, \<open>Ferry_Reader\<close>, \<open>Ferry_Backup\<close>,
    \<open>Ferry_Bootstrap\<close>, \<open>Ferry_Check\<close> (fileferry-core): exclusion rules and the source walk, the stored
    data, encrypted objects, manifests and their validation, reading, writing, creating and opening a
    repository, and the repository check. A definition has the name of its function in the source.
  \<^item> \<open>Ferry_Restore\<close> (fileferry-core): the restore onto a file system; \<open>Ferry_Restored\<close> has what it may
    change and what a success has put in place, \<open>Ferry_RestoreTotal\<close> that it succeeds when nothing stands in
    its way, \<open>Ferry_Destination\<close> the statements, up to the files of a backup on the restored disk.
  \<^item> \<open>Ferry_Remote\<close> (fileferry-storage): \<open>S3Store\<close> over a client of the \<open>object_store\<close> crate, and the proof
    that with conditional creation it meets the contract with lagging reads on any bucket, and the full contract on
    a bucket with strong consistency.
  \<^item> \<open>Ferry_Config\<close>, \<open>Ferry_Failures\<close>, \<open>Ferry_Output\<close>, \<open>Ferry_Commands\<close> (fileferry-cli): options, profiles,
    repository URLs, passphrases and redaction; exit codes and failure reports; the documents and events that
    are printed; and every command from its parsed arguments to its report.
  \<^item> \<open>Ferry_Forget\<close>: what \<open>ferry forget\<close> leaves behind, from the retention plan to later listings.
  \<^item> \<open>Ferry_Machine\<close>: the commands on a machine with a local repository and a bucket, and that the reading
    commands change nothing on it; \<open>Ferry_Init\<close>: \<open>ferry init\<close> and the passphrase that then opens the repository.
  \<^item> \<open>Ferry_View\<close>: the abstract repository, a map from keys to bytes; reading over a store is reading
    over the map (\<open>simulates\<close>).
  \<^item> \<open>Ferry_Durability\<close>, \<open>Ferry_History\<close>: what a backup of any sources leaves behind, and sequences of backups and
    forget requests with any outcome. A committed snapshot is complete (\<open>snapshot_complete\<close>): its manifest, index and
    chunks are there. A restore accepts it just when its entries are one tree with the recorded sizes
    (\<open>sources_valid\<close>), which one directory with stable sizes always is (\<open>tree_source\<close>); several roots, a single
    file or a file that changes its size while it is read give complete snapshots that no restore accepts.
  \<^item> \<open>Ferry_Sample\<close>, \<open>Ferry_Scenario\<close>: a concrete library of the third-party functions and a concrete
    backup, to which the statements are applied.

  Correspondence. A struct is a record, an enum a datatype, a \<open>u8\<close> to \<open>u64\<close> a word, a string its list of
  UTF-8 bytes, a \<open>BTreeMap\<close> a sorted association list, a \<open>Result\<close> a sum. A function that calls the
  store, the file system or the random generator is a \<open>prog\<close>: it takes the world and returns a result
  and the world. Every \<open>?\<close> and early return of the source is a branch.

  Groups of lemmas. Each theory has the facts of its operations first (success and failure of each),
  then the properties. \<open>keeps\<close> lemmas carry an invariant through a program whatever it returns,
  \<open>simulates\<close> lemmas carry a result from the store to the map, \<open>stable\<close> lemmas carry a result from a map
  to a larger one.

  Loops. Loops over collections are structural. The walk has no bound in the source; it is a
  \<open>partial_function\<close>, and it returns when the depth of directories is bounded. The retry loop and the
  loops of the string functions recurse on a decreasing number. The directory
  listing of the local store recurses on the number of nodes below the stack of directories. No fuel is
  used.

  Parameters. Third-party code is the record \<open>library\<close> with \<open>crypto_prims\<close>: AEAD, HKDF, keyed BLAKE3,
  Argon2id, serde_json, FastCDC, zstd. Their documented behaviour is \<open>library_ok\<close> (decryption and
  decoding invert encryption and encoding, chunks add up to the file) and, where a statement is about
  forgery, \<open>aead_authentic\<close>, which idealises the AEAD: a ciphertext opens under one key, nonce and associated data
  only. The client of an object store is \<open>remote_client\<close>. \<open>remote_eventual\<close> is a bucket without read-after-write
  consistency on which creates are atomic and nothing is deleted, which is what the capabilities of the S3 store
  claim; \<open>remote_strong\<close> adds strong consistency. Backups, their histories and restores are proved for the first
  kind; forgetting, creating and opening repositories, key slots and the check ask for the second. What a
  process sees is the record \<open>environment\<close>: variables, working directory, config files and the TOML parser,
  the clock, the texts of \<open>Display\<close> and the JSON writer for reports.

  Interfaces. \<open>object_store\<close> (the contract of a store, met by the in-memory store, the retry wrapper, the
  local store and the S3 store), \<open>exact_listing\<close> (listings of every prefix; an S3 listing leaves the object
  out whose key is the prefix itself), \<open>repository_store\<close> (a store that supports the keys of a repository),
  \<open>eventual_store\<close> and \<open>eventual_repository\<close> (the same with reads and listings that may lag behind; the strong
  contracts give them),
  \<open>reading_store\<close> and \<open>reading_environment\<close> (stores and commands whose reads keep a property).

  Not modelled. clap, which parses the arguments; HTTP, request signing and paging of the AWS client;
  the web console, a static page rendered by leptos and served by axum. Concurrency of the async runtime is
  not modelled: the operations of one process run in the order of the code, and the operations of a history
  run one after the other. The file system of a local repository and the one that files are restored to are
  separate states; a backup sees a fixed view of its sources, in which the metadata of a file need not fit its
  contents.
\<close>

end
